(* ===== verification/Prelude.thy ===== *)
theory Prelude
  imports Main "HOL-Library.AList" "HOL-Library.Char_ord" "HOL-Library.List_Lexorder"
    "HOL-Library.Sublist" "HOL-Library.Word"
begin

text \<open>
  What every component of the development shares: the string functions of Go's \<open>strings\<close>
  package that the code calls, Go maps as association lists, error results, and the hint
  collections of the component theories.

  A Go string is a byte string, and so is an Isabelle \<^typ>\<open>string\<close> here: each \<^typ>\<open>char\<close>
  is one byte, and \<open>CHR ''/''\<close> is the byte 0x2F.

  A Go map is an association list. Its iteration order is not specified by the language; the
  order of the list is one of the orders an iteration may take, and since the theorems hold for
  every list, they hold for every order.
\<close>

named_theorems go_simps \<open>string functions of the Go standard library\<close>
named_theorems store_simps \<open>reads of a store after its updates\<close>
named_theorems key_simps \<open>keys and their decomposition\<close>

subsection \<open>Error results\<close>

text \<open>A Go call \<open>(value, error)\<close> is a value of \<open>'e + 'a\<close>: \<open>Inl\<close> carries the error.\<close>

definition is_err :: "'e + 'a \<Rightarrow> bool" where
  "is_err r \<longleftrightarrow> (case r of Inl _ \<Rightarrow> True | Inr _ \<Rightarrow> False)"

lemma is_err_simps [simp]: "is_err (Inl e)" "\<not> is_err (Inr a)"
  by (simp_all add: is_err_def)

lemma is_err_iff: "is_err r \<longleftrightarrow> (\<exists>e. r = Inl e)"
  by (cases r) simp_all

lemma not_is_err_iff: "\<not> is_err r \<longleftrightarrow> (\<exists>a. r = Inr a)"
  by (cases r) simp_all

text \<open>
  A call that also changes the state answers with the result and the new state;
  \<open>and_then c f\<close> is \<open>if err != nil { return err }\<close> after the call \<open>c\<close>.
\<close>

definition and_then :: "('e + 'a) \<times> 's \<Rightarrow> ('a \<Rightarrow> 's \<Rightarrow> ('e + 'b) \<times> 's) \<Rightarrow> ('e + 'b) \<times> 's" where
  "and_then c f = (case c of (Inl e, s) \<Rightarrow> (Inl e, s) | (Inr a, s) \<Rightarrow> f a s)"

lemma and_then_simps [simp]:
  "and_then (Inl e, s) f = (Inl e, s)"
  "and_then (Inr a, s) f = f a s"
  by (simp_all add: and_then_def)

lemma and_then_Inr_iff:
  "and_then c f = (Inr b, s') \<longleftrightarrow> (\<exists>a s. c = (Inr a, s) \<and> f a s = (Inr b, s'))"
  by (cases c; cases "fst c") (auto simp: and_then_def)

text \<open>The fallible conversion of a result, and the step of a pure fallible call.\<close>

definition map_err :: "('e \<Rightarrow> 'f) \<Rightarrow> 'e + 'a \<Rightarrow> 'f + 'a" where
  "map_err f r = (case r of Inl e \<Rightarrow> Inl (f e) | Inr a \<Rightarrow> Inr a)"

lemma map_err_simps [simp]: "map_err f (Inl e) = Inl (f e)" "map_err f (Inr a) = Inr a"
  by (simp_all add: map_err_def)

lemma map_err_Inr_iff [simp]: "map_err f r = Inr a \<longleftrightarrow> r = Inr a"
  by (cases r) simp_all

subsection \<open>The strings package\<close>

text \<open>\<open>strings.HasPrefix\<close>, \<open>strings.TrimPrefix\<close> and their suffix counterparts.\<close>

definition HasPrefix :: "string \<Rightarrow> string \<Rightarrow> bool" where
  "HasPrefix s p \<longleftrightarrow> prefix p s"

definition TrimPrefix :: "string \<Rightarrow> string \<Rightarrow> string" where
  "TrimPrefix s p = (if prefix p s then drop (length p) s else s)"

definition HasSuffix :: "string \<Rightarrow> string \<Rightarrow> bool" where
  "HasSuffix s p \<longleftrightarrow> suffix p s"

lemma HasPrefix_append [simp]: "HasPrefix (p @ s) p"
  by (simp add: HasPrefix_def)

lemma HasPrefix_Nil [simp]: "HasPrefix s []"
  by (simp add: HasPrefix_def)

lemma TrimPrefix_append [simp]: "TrimPrefix (p @ s) p = s"
  by (simp add: TrimPrefix_def)

lemma HasPrefixE: "HasPrefix s p \<Longrightarrow> (\<And>r. s = p @ r \<Longrightarrow> P) \<Longrightarrow> P"
  by (auto simp: HasPrefix_def prefix_def)

text \<open>\<open>strings.Cut\<close> for a one-byte separator: the parts around its first occurrence.\<close>

fun Cut :: "string \<Rightarrow> char \<Rightarrow> (string \<times> string) option" where
  "Cut [] c = None"
| "Cut (x # xs) c =
     (if x = c then Some ([], xs)
      else map_option (\<lambda>(a, b). (x # a, b)) (Cut xs c))"

lemma Cut_Some_iff: "Cut s c = Some (a, b) \<longleftrightarrow> s = a @ c # b \<and> c \<notin> set a"
  by (induction s arbitrary: a b) (auto simp: Cons_eq_append_conv)

lemma Cut_None_iff: "Cut s c = None \<longleftrightarrow> c \<notin> set s"
  by (induction s) auto

lemma Cut_append: "c \<notin> set a \<Longrightarrow> Cut (a @ c # b) c = Some (a, b)"
  by (simp add: Cut_Some_iff)

text \<open>\<open>strings.LastIndex\<close> for a one-byte separator, as the part after the last occurrence.\<close>

definition after_last :: "char \<Rightarrow> string \<Rightarrow> string option" where
  "after_last c s = (if c \<in> set s then Some (rev (takeWhile (\<lambda>x. x \<noteq> c) (rev s))) else None)"

lemma after_last_append: "c \<notin> set b \<Longrightarrow> after_last c (a @ c # b) = Some b"
  by (simp add: after_last_def takeWhile_append)

text \<open>\<open>strings.Join\<close>.\<close>

fun Join :: "string list \<Rightarrow> string \<Rightarrow> string" where
  "Join [] sep = []"
| "Join [x] sep = x"
| "Join (x # y # zs) sep = x @ sep @ Join (y # zs) sep"

text \<open>\<open>strings.Contains\<close>: the substring test.\<close>

fun Contains :: "string \<Rightarrow> string \<Rightarrow> bool" where
  "Contains [] p = (p = [])"
| "Contains (x # xs) p = (prefix p (x # xs) \<or> Contains xs p)"

lemma Contains_iff: "Contains s p \<longleftrightarrow> sublist p s"
proof (induction s)
  case Nil
  then show ?case by auto
next
  case (Cons x xs)
  then show ?case by (simp add: sublist_Cons_right)
qed

subsection \<open>Go maps as association lists\<close>

abbreviation (input) keys :: "('k \<times> 'v) list \<Rightarrow> 'k list" where
  "keys m \<equiv> map fst m"

lemma map_of_update_eq [simp]: "map_of (AList.update k v m) k' = (if k' = k then Some v else map_of m k')"
  by (simp add: update_conv')

lemma map_of_delete_eq [simp]: "map_of (AList.delete k m) k' = (if k' = k then None else map_of m k')"
  by (simp add: delete_conv')

lemma distinct_keys_update [simp]: "distinct (map fst (AList.update k v m)) \<longleftrightarrow> distinct (map fst m)"
proof
  assume "distinct (map fst m)"
  then show "distinct (map fst (AList.update k v m))" by (rule distinct_update)
next
  show "distinct (map fst (AList.update k v m)) \<Longrightarrow> distinct (map fst m)"
    by (induction m) (auto simp: dom_update split: if_splits)
qed

lemma distinct_keys_delete [simp]: "distinct (map fst m) \<Longrightarrow> distinct (map fst (AList.delete k m))"
  by (rule distinct_delete)

lemma in_keys_iff: "k \<in> set (map fst m) \<longleftrightarrow> map_of m k \<noteq> None"
  by (metis map_of_eq_None_iff set_map)

lemma fst_imageI: "(k, v) \<in> S \<Longrightarrow> k \<in> fst ` S"
  by force

lemma keys_update_set: "set (map fst (AList.update k v m)) = insert k (set (map fst m))"
  by (induction m) auto

lemma keys_delete_set: "set (map fst (AList.delete k m)) = set (map fst m) - {k}"
  by (auto simp: delete_keys[symmetric] AList.delete_eq)

lemma map_of_Some_keys: "map_of m k = Some v \<Longrightarrow> k \<in> set (map fst m)"
  by (force dest: map_of_SomeD)

text \<open>
  Counting the entries of a map that satisfy a predicate: an update or a deletion of one key
  changes the count by what happens at that key.
\<close>

definition count_if :: "('v \<Rightarrow> bool) \<Rightarrow> ('k \<times> 'v) list \<Rightarrow> nat" where
  "count_if P m = length (filter (\<lambda>(k, v). P v) m)"

lemma count_if_Nil [simp]: "count_if P [] = 0"
  by (simp add: count_if_def)

lemma count_if_Cons [simp]: "count_if P ((k, v) # m) = (if P v then 1 else 0) + count_if P m"
  by (simp add: count_if_def)

lemma count_if_append [simp]: "count_if P (m @ n) = count_if P m + count_if P n"
  by (simp add: count_if_def)

lemma count_if_update_new:
  "map_of m k = None \<Longrightarrow> count_if P (AList.update k v m) = count_if P m + (if P v then 1 else 0)"
  by (induction m) (auto split: if_splits)

lemma count_if_update_old:
  assumes "distinct (map fst m)" and "map_of m k = Some w"
  shows "count_if P (AList.update k v m) + (if P w then 1 else 0) = count_if P m + (if P v then 1 else 0)"
  using assms by (induction m) (auto split: if_splits)

lemma count_if_mono: "(\<And>k v. (k, v) \<in> set m \<Longrightarrow> P v \<Longrightarrow> Q v) \<Longrightarrow> count_if P m \<le> count_if Q m"
  by (induction m) (force simp: count_if_def)+

end
