(* ===== verification/Store.thy ===== *)
theory Store
  imports Prelude
begin

text \<open>
  The storage classes of \<open>core/internal/store\<close>: the key-value interface with its two plain
  backends (\<open>memory.go\<close>, \<open>sqlite.go\<close>), and the encrypting stores over them (\<open>vault.go\<close>,
  \<open>sealed.go\<close>, \<open>userblob.go\<close>).

  A Go value of the interface \<open>store.Store\<close> is a \<^verbatim>\<open>Store\<close> record. Its backend decides what
  \<open>List\<close> and \<open>Close\<close> do. SQLite itself is not code of the repository: its LIKE operator is a
  parameter of the backend, \<open>SQLite like\<close>, where \<open>like pat key\<close> says whether the key matches the
  pattern; what the components rely on is \<open>like_complete\<close>, that a pattern \<open>p%\<close> matches every key
  that begins with \<open>p\<close>. The AEAD cipher of the encrypting stores is a parameter in the same way.

  The interface is the locale \<open>kv_store\<close>, extended by \<open>exact_kv_store\<close> for a \<open>List\<close> that returns
  the keys of the prefix and no others; the components rest on the facts of their
  interpretations \<open>kv\<close> and \<open>mem\<close>.
\<close>

subsection \<open>The interface and the plain backends\<close>

datatype store_error =
    ErrKeyNotFound  \<comment> \<open>the sentinel of \<open>store.go\<close>\<close>
  | ErrClosed       \<comment> \<open>the store was closed\<close>
  | ErrNotSealed    \<comment> \<open>a record shorter than a nonce\<close>
  | ErrOpen         \<comment> \<open>the AEAD refused the ciphertext\<close>
  | ErrNoDEK        \<comment> \<open>no data-encryption key in the request context\<close>
  | ErrCipher       \<comment> \<open>the key has no valid AES length\<close>

datatype backend = InMemory | SQLite "string \<Rightarrow> string \<Rightarrow> bool"

record 'v Store =
  st_backend :: backend
  st_data :: "(string \<times> 'v) list"
  st_closed :: bool

definition NewInMemory :: "'v Store" where
  "NewInMemory = \<lparr>st_backend = InMemory, st_data = [], st_closed = False\<rparr>"

definition NewSQLite :: "(string \<Rightarrow> string \<Rightarrow> bool) \<Rightarrow> (string \<times> 'v) list \<Rightarrow> 'v Store" where
  "NewSQLite like rows = \<lparr>st_backend = SQLite like, st_data = rows, st_closed = False\<rparr>"

definition Store_Get :: "'v Store \<Rightarrow> string \<Rightarrow> store_error + 'v" where
  "Store_Get m key =
     (if st_closed m then Inl ErrClosed
      else case map_of (st_data m) key of
        None \<Rightarrow> Inl ErrKeyNotFound
      | Some v \<Rightarrow> Inr v)"

definition Store_Put :: "'v Store \<Rightarrow> string \<Rightarrow> 'v \<Rightarrow> (store_error + unit) \<times> 'v Store" where
  "Store_Put m key v =
     (if st_closed m then (Inl ErrClosed, m)
      else (Inr (), m\<lparr>st_data := AList.update key v (st_data m)\<rparr>))"

definition Store_Delete :: "'v Store \<Rightarrow> string \<Rightarrow> (store_error + unit) \<times> 'v Store" where
  "Store_Delete m key =
     (if st_closed m then (Inl ErrClosed, m)
      else (Inr (), m\<lparr>st_data := AList.delete key (st_data m)\<rparr>))"

definition InMemory_List :: "'v Store \<Rightarrow> string \<Rightarrow> store_error + string list" where
  "InMemory_List m p =
     (if st_closed m then Inl ErrClosed
      else Inr (filter (\<lambda>k. HasPrefix k p) (map fst (st_data m))))"

definition SQLite_List :: "(string \<Rightarrow> string \<Rightarrow> bool) \<Rightarrow> 'v Store \<Rightarrow> string \<Rightarrow> store_error + string list" where
  "SQLite_List like m p =
     (if st_closed m then Inl ErrClosed
      else Inr (filter (like (p @ ''%'')) (map fst (st_data m))))"

definition Store_List :: "'v Store \<Rightarrow> string \<Rightarrow> store_error + string list" where
  "Store_List m p =
     (case st_backend m of
        InMemory \<Rightarrow> InMemory_List m p
      | SQLite like \<Rightarrow> SQLite_List like m p)"

text \<open>
  \<open>InMemory.Close\<close> drops the map and refuses a second close; \<open>sql.DB.Close\<close> is idempotent and
  leaves the rows on disk.
\<close>

definition Store_Close :: "'v Store \<Rightarrow> (store_error + unit) \<times> 'v Store" where
  "Store_Close m =
     (case st_backend m of
        InMemory \<Rightarrow>
          (if st_closed m then (Inl ErrClosed, m)
           else (Inr (), m\<lparr>st_closed := True, st_data := []\<rparr>))
      | SQLite _ \<Rightarrow> (Inr (), m\<lparr>st_closed := True\<rparr>))"

subsection \<open>Usable stores\<close>

definition like_complete :: "(string \<Rightarrow> string \<Rightarrow> bool) \<Rightarrow> bool" where
  "like_complete like \<longleftrightarrow> (\<forall>p k. prefix p k \<longrightarrow> like (p @ ''%'') k)"

definition Store_ok :: "'v Store \<Rightarrow> bool" where
  "Store_ok m \<longleftrightarrow> \<not> st_closed m \<and> distinct (map fst (st_data m))
     \<and> (case st_backend m of InMemory \<Rightarrow> True | SQLite like \<Rightarrow> like_complete like)"

definition mem_ok :: "'v Store \<Rightarrow> bool" where
  "mem_ok m \<longleftrightarrow> Store_ok m \<and> st_backend m = InMemory"

lemma Store_ok_new [simp]: "Store_ok NewInMemory"
  by (simp add: Store_ok_def NewInMemory_def)

lemma mem_ok_new [simp]: "mem_ok NewInMemory"
  by (simp add: mem_ok_def) (simp add: NewInMemory_def)

lemma mem_ok_Store_ok: "mem_ok m \<Longrightarrow> Store_ok m"
  by (simp add: mem_ok_def)

subsection \<open>The contract\<close>

text \<open>
  What a client may assume of a store it was handed (\<open>store.go\<close>): the interface's operations are
  the parameters, and \<open>ok\<close> says that the store is open.
\<close>

locale kv_store =
  fixes get :: "'s \<Rightarrow> string \<Rightarrow> store_error + 'v"
    and put :: "'s \<Rightarrow> string \<Rightarrow> 'v \<Rightarrow> (store_error + unit) \<times> 's"
    and del :: "'s \<Rightarrow> string \<Rightarrow> (store_error + unit) \<times> 's"
    and lst :: "'s \<Rightarrow> string \<Rightarrow> store_error + string list"
    and ok :: "'s \<Rightarrow> bool"
  assumes get_err: "ok s \<Longrightarrow> get s k = Inl e \<Longrightarrow> e = ErrKeyNotFound"
    and put_fst: "ok s \<Longrightarrow> fst (put s k v) = Inr ()"
    and put_ok: "ok s \<Longrightarrow> ok (snd (put s k v))"
    and get_put: "ok s \<Longrightarrow> get (snd (put s k v)) k' = (if k' = k then Inr v else get s k')"
    and del_fst: "ok s \<Longrightarrow> fst (del s k) = Inr ()"
    and del_ok: "ok s \<Longrightarrow> ok (snd (del s k))"
    and get_del: "ok s \<Longrightarrow> get (snd (del s k)) k' = (if k' = k then Inl ErrKeyNotFound else get s k')"
    and lst_total: "ok s \<Longrightarrow> \<exists>ks. lst s p = Inr ks"
    and lst_complete: "ok s \<Longrightarrow> lst s p = Inr ks \<Longrightarrow> get s k = Inr v \<Longrightarrow> HasPrefix k p \<Longrightarrow> k \<in> set ks"
    and lst_stored: "ok s \<Longrightarrow> lst s p = Inr ks \<Longrightarrow> k \<in> set ks \<Longrightarrow> \<exists>v. get s k = Inr v"
    and lst_distinct: "ok s \<Longrightarrow> lst s p = Inr ks \<Longrightarrow> distinct ks"
begin

lemma get_cases:
  assumes "ok s"
  obtains (found) v where "get s k = Inr v" | (missing) "get s k = Inl ErrKeyNotFound"
  using assms get_err by (cases "get s k") auto

lemma get_put_same: "ok s \<Longrightarrow> get (snd (put s k v)) k = Inr v"
  by (simp add: get_put)

lemma get_put_other: "ok s \<Longrightarrow> k' \<noteq> k \<Longrightarrow> get (snd (put s k v)) k' = get s k'"
  by (simp add: get_put)

lemma put_overwrites:
  "ok s \<Longrightarrow> get (snd (put (snd (put s k v)) k w)) k' = get (snd (put s k w)) k'"
  by (simp add: get_put put_ok)

lemma del_undoes_put:
  "ok s \<Longrightarrow> get s k = Inl ErrKeyNotFound \<Longrightarrow> get (snd (del (snd (put s k v)) k)) k' = get s k'"
  by (simp add: get_put get_del put_ok)

lemma del_idem: "ok s \<Longrightarrow> get (snd (del (snd (del s k)) k)) k' = get (snd (del s k)) k'"
  by (simp add: get_del del_ok)

lemma put_pair: "ok s \<Longrightarrow> put s k v = (Inr (), snd (put s k v))"
  by (simp add: prod_eq_iff put_fst)

lemma del_pair: "ok s \<Longrightarrow> del s k = (Inr (), snd (del s k))"
  by (simp add: prod_eq_iff del_fst)

end

locale exact_kv_store = kv_store +
  assumes lst_prefix: "ok s \<Longrightarrow> lst s p = Inr ks \<Longrightarrow> k \<in> set ks \<Longrightarrow> HasPrefix k p"
begin

lemma lst_iff:
  "ok s \<Longrightarrow> lst s p = Inr ks \<Longrightarrow> k \<in> set ks \<longleftrightarrow> HasPrefix k p \<and> (\<exists>v. get s k = Inr v)"
  by (auto dest: lst_prefix lst_stored lst_complete)

lemma lst_put:
  assumes "ok s" and "lst s p = Inr ks" and "lst (snd (put s k v)) p = Inr ks'"
  shows "set ks' = (if HasPrefix k p then insert k (set ks) else set ks)"
  using lst_iff [OF assms(1,2)] lst_iff [OF put_ok [OF assms(1)] assms(3)] assms(1)
  by (auto simp: get_put split: if_splits)

lemma lst_del:
  assumes "ok s" and "lst s p = Inr ks" and "lst (snd (del s k)) p = Inr ks'"
  shows "set ks' = set ks - {k}"
  using lst_iff [OF assms(1,2)] lst_iff [OF del_ok [OF assms(1)] assms(3)] assms(1)
  by (auto simp: get_del split: if_splits)

end

lemma Store_List_eq:
  "\<not> st_closed m \<Longrightarrow> Store_List m p = Inr (filter
     (case st_backend m of InMemory \<Rightarrow> (\<lambda>k. HasPrefix k p) | SQLite like \<Rightarrow> like (p @ ''%''))
     (map fst (st_data m)))"
  by (simp add: Store_List_def InMemory_List_def SQLite_List_def split: backend.splits)

interpretation kv: kv_store Store_Get Store_Put Store_Delete Store_List Store_ok
proof unfold_locales
  fix m :: "'v Store" and p k ks v
  assume ok: "Store_ok m" and ks: "Store_List m p = Inr ks"
  show "Store_Get m k = Inr v \<Longrightarrow> HasPrefix k p \<Longrightarrow> k \<in> set ks"
    using ok ks by (auto simp: Store_ok_def Store_List_eq Store_Get_def like_complete_def HasPrefix_def
        intro: fst_imageI split: if_splits option.splits backend.splits)
  show "\<exists>v. Store_Get m k = Inr v" if "k \<in> set ks"
  proof -
    have "set ks \<subseteq> set (map fst (st_data m))"
      using ok ks by (force simp: Store_ok_def Store_List_eq)
    with that have "k \<in> set (map fst (st_data m))" by (rule subsetD [rotated])
    then obtain v where "map_of (st_data m) k = Some v"
      unfolding in_keys_iff by blast
    with ok show ?thesis by (simp add: Store_ok_def Store_Get_def)
  qed
  show "distinct ks"
    using ok ks by (auto simp: Store_ok_def Store_List_eq)
qed (auto simp: Store_ok_def Store_Get_def Store_Put_def Store_Delete_def Store_List_eq
    split: if_splits option.splits)

interpretation mem: exact_kv_store Store_Get Store_Put Store_Delete Store_List mem_ok
proof unfold_locales
  fix m :: "'v Store" and p k ks
  assume "mem_ok m" and "Store_List m p = Inr ks" and "k \<in> set ks"
  then show "HasPrefix k p"
    by (auto simp: mem_ok_def Store_ok_def Store_List_eq)
next
  fix m :: "'v Store" and k v
  show "mem_ok m \<Longrightarrow> mem_ok (snd (Store_Put m k v))"
    by (auto simp: mem_ok_def kv.put_ok) (simp add: Store_Put_def)
  show "mem_ok m \<Longrightarrow> mem_ok (snd (Store_Delete m k))"
    by (auto simp: mem_ok_def kv.del_ok) (simp add: Store_Delete_def)
qed (auto dest!: mem_ok_Store_ok intro: kv.get_err kv.lst_total kv.lst_complete kv.lst_stored kv.lst_distinct
    simp: kv.put_fst kv.get_put kv.del_fst kv.get_del)

subsection \<open>Stores as partial maps\<close>

text \<open>
  An open store is the partial map \<open>view\<close>; the collection \<open>store_simps\<close> rewrites reads and
  writes to it.
\<close>

definition view :: "'v Store \<Rightarrow> string \<Rightarrow> 'v option" where
  "view m = map_of (st_data m)"

lemma Store_Get_view [store_simps]:
  "Store_ok m \<Longrightarrow> Store_Get m k = (case view m k of None \<Rightarrow> Inl ErrKeyNotFound | Some v \<Rightarrow> Inr v)"
  by (simp add: Store_ok_def Store_Get_def view_def)

lemma view_Put [store_simps]: "Store_ok m \<Longrightarrow> view (snd (Store_Put m k v)) = (view m)(k \<mapsto> v)"
  by (rule ext) (simp add: Store_ok_def Store_Put_def view_def)

lemma view_Delete [store_simps]: "Store_ok m \<Longrightarrow> view (snd (Store_Delete m k)) = (view m)(k := None)"
  by (rule ext) (simp add: Store_ok_def Store_Delete_def view_def)

lemma Store_ok_not_closed: "Store_ok m \<Longrightarrow> \<not> st_closed m"
  by (simp add: Store_ok_def)

text \<open>A sequence of writes that stops at the first error.\<close>

fun put_all :: "'v Store \<Rightarrow> (string \<times> 'v) list \<Rightarrow> (store_error + unit) \<times> 'v Store" where
  "put_all m [] = (Inr (), m)"
| "put_all m ((k, v) # ws) =
     (case Store_Put m k v of
        (Inl e, m') \<Rightarrow> (Inl e, m')
      | (Inr _, m') \<Rightarrow> put_all m' ws)"

lemma put_all_ok:
  assumes "Store_ok m"
  shows "fst (put_all m ws) = Inr () \<and> Store_ok (snd (put_all m ws))
     \<and> view (snd (put_all m ws)) = view m ++ map_of (rev ws)"
  using assms
proof (induction ws arbitrary: m)
  case Nil
  then show ?case by simp
next
  case (Cons w ws)
  obtain k v where w: "w = (k, v)" by fastforce
  have step: "put_all m (w # ws) = put_all (snd (Store_Put m k v)) ws"
    using kv.put_fst [OF Cons.prems, of k v] by (cases "Store_Put m k v") (simp add: w)
  have "view (snd (Store_Put m k v)) ++ map_of (rev ws) = view m ++ map_of (rev (w # ws))"
    by (simp add: w view_Put [OF Cons.prems] map_add_def fun_eq_iff split: option.splits)
  with Cons.IH [OF kv.put_ok [OF Cons.prems]] show ?case by (simp only: step)
qed

lemma put_all_pair: "Store_ok m \<Longrightarrow> put_all m ws = (Inr (), snd (put_all m ws))"
  using put_all_ok [of m ws] by (simp add: prod_eq_iff)

lemmas put_all_store_ok = put_all_ok [THEN conjunct2, THEN conjunct1]
lemmas view_put_all [store_simps] = put_all_ok [THEN conjunct2, THEN conjunct2]

lemma Store_List_view:
  assumes "Store_ok m" and "Store_List m p = Inr ks" and "view m k = Some v" and "HasPrefix k p"
  shows "k \<in> set ks"
  using kv.lst_complete [OF assms(1,2), of k v] assms by (simp add: store_simps)

subsection \<open>Encrypting stores\<close>

text \<open>
  An AEAD cipher is a value of \<^verbatim>\<open>aead\<close>; its documented behaviour is \<open>aead_ok\<close>: opening what was
  sealed under the same nonce gives the plaintext back. The nonces that the code draws at random
  are arguments.
\<close>

record aead =
  nonce_size :: nat
  seal :: "string \<Rightarrow> string \<Rightarrow> string"
  open_ct :: "string \<Rightarrow> string \<Rightarrow> string option"

definition aead_ok :: "aead \<Rightarrow> bool" where
  "aead_ok a \<longleftrightarrow> (\<forall>n p. length n = nonce_size a \<longrightarrow> open_ct a n (seal a n p) = Some p)"

text \<open>\<open>vault.go\<close>: a row holds the nonce and the ciphertext.\<close>

definition Vault_Get :: "aead \<Rightarrow> (string \<times> string) Store \<Rightarrow> string \<Rightarrow> store_error + string" where
  "Vault_Get a v key =
     (case Store_Get v key of
        Inl e \<Rightarrow> Inl e
      | Inr (nonce, ciphertext) \<Rightarrow>
          (case open_ct a nonce ciphertext of
             None \<Rightarrow> Inl ErrOpen
           | Some plaintext \<Rightarrow> Inr plaintext))"

definition Vault_Put ::
    "aead \<Rightarrow> string \<Rightarrow> (string \<times> string) Store \<Rightarrow> string \<Rightarrow> string
     \<Rightarrow> (store_error + unit) \<times> (string \<times> string) Store" where
  "Vault_Put a nonce v key value = Store_Put v key (nonce, seal a nonce value)"

definition Vault_Delete ::
    "(string \<times> string) Store \<Rightarrow> string \<Rightarrow> (store_error + unit) \<times> (string \<times> string) Store" where
  "Vault_Delete v key = Store_Delete v key"

text \<open>\<open>sealed.go\<close>: the nonce is prepended to the ciphertext.\<close>

definition Sealed_Get :: "aead \<Rightarrow> string Store \<Rightarrow> string \<Rightarrow> store_error + string" where
  "Sealed_Get a s key =
     (case Store_Get s key of
        Inl e \<Rightarrow> Inl e
      | Inr raw \<Rightarrow>
          (if length raw < nonce_size a then Inl ErrNotSealed
           else case open_ct a (take (nonce_size a) raw) (drop (nonce_size a) raw) of
             None \<Rightarrow> Inl ErrOpen
           | Some plain \<Rightarrow> Inr plain))"

definition Sealed_Put ::
    "aead \<Rightarrow> string \<Rightarrow> string Store \<Rightarrow> string \<Rightarrow> string \<Rightarrow> (store_error + unit) \<times> string Store" where
  "Sealed_Put a nonce s key value = Store_Put s key (nonce @ seal a nonce value)"

text \<open>
  \<open>userblob.go\<close>: the request context carries the user id and the user's key; \<open>gcm\<close> gives the AES-GCM
  cipher of a key, \<^const>\<open>None\<close> when the key has no AES length.
\<close>

record blob_ctx =
  ub_user :: string
  ub_dek :: "string option"

definition userPrefix :: "blob_ctx \<Rightarrow> string" where
  "userPrefix c = (if ub_user c = [] then [] else ''user:'' @ ub_user c @ '':'')"

definition encrypt :: "(string \<Rightarrow> aead option) \<Rightarrow> string \<Rightarrow> string \<Rightarrow> string \<Rightarrow> store_error + string" where
  "encrypt gcm nonce plaintext key =
     (case gcm key of
        None \<Rightarrow> Inl ErrCipher
      | Some a \<Rightarrow> Inr (nonce @ seal a nonce plaintext))"

definition decrypt :: "(string \<Rightarrow> aead option) \<Rightarrow> string \<Rightarrow> string \<Rightarrow> store_error + string" where
  "decrypt gcm data key =
     (case gcm key of
        None \<Rightarrow> Inl ErrCipher
      | Some a \<Rightarrow>
          (if length data < nonce_size a then Inl ErrNotSealed
           else case open_ct a (take (nonce_size a) data) (drop (nonce_size a) data) of
             None \<Rightarrow> Inl ErrOpen
           | Some p \<Rightarrow> Inr p))"

definition UserBlob_Get ::
    "(string \<Rightarrow> aead option) \<Rightarrow> blob_ctx \<Rightarrow> string Store \<Rightarrow> string \<Rightarrow> store_error + string" where
  "UserBlob_Get gcm c s key =
     (case ub_dek c of
        None \<Rightarrow> Inl ErrNoDEK
      | Some dek \<Rightarrow>
          (case Store_Get s (userPrefix c @ key) of
             Inl e \<Rightarrow> Inl e
           | Inr raw \<Rightarrow> decrypt gcm raw dek))"

definition UserBlob_Put ::
    "(string \<Rightarrow> aead option) \<Rightarrow> string \<Rightarrow> blob_ctx \<Rightarrow> string Store \<Rightarrow> string \<Rightarrow> string
     \<Rightarrow> (store_error + unit) \<times> string Store" where
  "UserBlob_Put gcm nonce c s key value =
     (case ub_dek c of
        None \<Rightarrow> (Inl ErrNoDEK, s)
      | Some dek \<Rightarrow>
          (case encrypt gcm nonce value dek of
             Inl e \<Rightarrow> (Inl e, s)
           | Inr enc \<Rightarrow> Store_Put s (userPrefix c @ key) enc))"

definition UserBlob_Delete :: "blob_ctx \<Rightarrow> string Store \<Rightarrow> string \<Rightarrow> (store_error + unit) \<times> string Store" where
  "UserBlob_Delete c s key =
     (case ub_dek c of
        None \<Rightarrow> (Inl ErrNoDEK, s)
      | Some _ \<Rightarrow> Store_Delete s (userPrefix c @ key))"

definition UserBlob_List :: "blob_ctx \<Rightarrow> string Store \<Rightarrow> string \<Rightarrow> store_error + string list" where
  "UserBlob_List c s p =
     (case Store_List s (userPrefix c @ p) of
        Inl e \<Rightarrow> Inl e
      | Inr ks \<Rightarrow> Inr (map (\<lambda>k. TrimPrefix k (userPrefix c)) ks))"

subsection \<open>LIKE\<close>

text \<open>
  The documented LIKE of SQLite: a percent sign matches any sequence, an underscore any one
  character, and letters match without case. It satisfies the hypothesis of the SQLite backend.
\<close>

definition fold_case :: "char \<Rightarrow> nat" where
  "fold_case c = (let n = of_char c in if 65 \<le> n \<and> n \<le> 90 then n + 32 else n)"

fun sql_like :: "string \<Rightarrow> string \<Rightarrow> bool" where
  "sql_like [] s = (s = [])"
| "sql_like (p # ps) s =
     (if p = CHR ''%'' then sql_like ps s \<or> (case s of [] \<Rightarrow> False | c # cs \<Rightarrow> sql_like (p # ps) cs)
      else case s of [] \<Rightarrow> False
        | c # cs \<Rightarrow> (p = CHR ''_'' \<or> fold_case p = fold_case c) \<and> sql_like ps cs)"

lemma sql_like_any: "sql_like ''%'' s"
  by (induction s) simp_all

lemma sql_like_complete: "like_complete sql_like"
proof -
  have "sql_like (p @ ''%'') (p @ r)" for p r
  proof (induction p)
    case Nil
    then show ?case using sql_like_any by simp
  next
    case (Cons c p)
    then show ?case by (cases "p @ ''%''"; cases "p @ r") auto
  qed
  then show ?thesis by (auto simp: like_complete_def prefix_def)
qed

lemma Store_ok_SQLite: "distinct (map fst rows) \<Longrightarrow> Store_ok (NewSQLite sql_like rows)"
  by (simp add: Store_ok_def NewSQLite_def sql_like_complete)

text \<open>Under the documented LIKE, a SQLite store asked for the keys of a prefix with an underscore
  returns a key that does not begin with the prefix.\<close>
theorem SQLite_List_outside_prefix:
  "Store_List (NewSQLite sql_like [(''axb/1'', v)]) ''a_b/'' = Inr [''axb/1''] \<and> \<not> HasPrefix ''axb/1'' ''a_b/''"
  by (simp add: Store_List_def NewSQLite_def SQLite_List_def HasPrefix_def fold_case_def)

subsection \<open>Properties\<close>

text \<open>A sealed store gives back what was put under a key and leaves the other keys alone, for every
  AEAD that opens what it sealed: the nonce is recovered from the stored bytes.\<close>
theorem Sealed_roundtrip:
  assumes "aead_ok a" and "length nonce = nonce_size a" and "Store_ok s"
  shows "fst (Sealed_Put a nonce s k v) = Inr ()
     \<and> Sealed_Get a (snd (Sealed_Put a nonce s k v)) k' = (if k' = k then Inr v else Sealed_Get a s k')"
  using assms by (simp add: Sealed_Put_def Sealed_Get_def kv.put_fst kv.get_put aead_ok_def)

definition null_aead :: aead where
  "null_aead = \<lparr>nonce_size = 1, seal = (\<lambda>n p. n @ p), open_ct = (\<lambda>n c. if prefix n c then Some (drop (length n) c) else None)\<rparr>"

lemma null_aead_ok: "aead_ok null_aead"
  by (simp add: aead_ok_def null_aead_def)

theorem Sealed_roundtrip_witness:
  "Sealed_Get null_aead (snd (Sealed_Put null_aead ''n'' NewInMemory ''k'' ''v'')) ''k'' = Inr ''v''"
  using Sealed_roundtrip [OF null_aead_ok, of "''n''" NewInMemory "''k''" "''v''" "''k''"] by (simp add: null_aead_def)

text \<open>C8: The user blob store gives back what a user wrote with the same key, and a user whose id has no
  colon neither reads nor changes the value of another such user under any key.\<close>
theorem UserBlob_isolation:
  assumes "Store_ok s" and "ub_dek c = Some dek" and "gcm dek = Some a" and "aead_ok a" and "length nonce = nonce_size a"
    and "ub_user c \<noteq> []" and "CHR '':'' \<notin> set (ub_user c)" and "ub_user d \<noteq> []" and "CHR '':'' \<notin> set (ub_user d)"
  shows "fst (UserBlob_Put gcm nonce c s k v) = Inr ()
     \<and> UserBlob_Get gcm c (snd (UserBlob_Put gcm nonce c s k v)) k = Inr v
     \<and> (ub_user d \<noteq> ub_user c \<longrightarrow>
          UserBlob_Get gcm d (snd (UserBlob_Put gcm nonce c s k v)) k' = UserBlob_Get gcm d s k')"
proof -
  have put: "UserBlob_Put gcm nonce c s k v = Store_Put s (userPrefix c @ k) (nonce @ seal a nonce v)"
    using assms(2,3) by (simp add: UserBlob_Put_def encrypt_def)
  have "userPrefix d @ k' \<noteq> userPrefix c @ k" if "ub_user d \<noteq> ub_user c"
  proof
    assume "userPrefix d @ k' = userPrefix c @ k"
    then have "ub_user d @ CHR '':'' # k' = ub_user c @ CHR '':'' # k" using assms(6,8) by (simp add: userPrefix_def)
    then have "Cut (ub_user d @ CHR '':'' # k') CHR '':'' = Cut (ub_user c @ CHR '':'' # k) CHR '':''" by (rule arg_cong)
    with that show False unfolding Cut_append [OF assms(7)] Cut_append [OF assms(9)] by simp
  qed
  then have "ub_user d \<noteq> ub_user c \<longrightarrow>
      UserBlob_Get gcm d (snd (UserBlob_Put gcm nonce c s k v)) k' = UserBlob_Get gcm d s k'"
    unfolding put using assms(1) by (cases "ub_dek d") (auto simp: UserBlob_Get_def kv.get_put)
  moreover have "UserBlob_Get gcm c (snd (UserBlob_Put gcm nonce c s k v)) k = Inr v"
    unfolding put using assms(1-5) by (simp add: UserBlob_Get_def kv.get_put decrypt_def aead_ok_def)
  ultimately show ?thesis unfolding put using assms(1) by (simp add: kv.put_fst)
qed

theorem UserBlob_isolation_witness:
  "UserBlob_Get (\<lambda>_. Some null_aead) \<lparr>ub_user = ''bo'', ub_dek = Some ''y''\<rparr>
     (snd (UserBlob_Put (\<lambda>_. Some null_aead) ''n'' \<lparr>ub_user = ''al'', ub_dek = Some ''x''\<rparr> NewInMemory ''k'' ''v'')) ''k''
   = Inl ErrKeyNotFound"
proof -
  let ?c = "\<lparr>ub_user = ''al'', ub_dek = Some ''x''\<rparr>" and ?d = "\<lparr>ub_user = ''bo'', ub_dek = Some ''y''\<rparr>"
  have "UserBlob_Get (\<lambda>_. Some null_aead) ?d (snd (UserBlob_Put (\<lambda>_. Some null_aead) ''n'' ?c NewInMemory ''k'' ''v'')) ''k''
      = UserBlob_Get (\<lambda>_. Some null_aead) ?d NewInMemory ''k''"
    using UserBlob_isolation [OF Store_ok_new, of ?c "''x''" "\<lambda>_. Some null_aead" null_aead "''n''" ?d "''k''" "''v''" "''k''"]
    by (simp add: null_aead_ok) (simp add: null_aead_def)
  then show ?thesis by (simp add: UserBlob_Get_def Store_Get_def NewInMemory_def)
qed

end
