(* ===== verification/Messages.thy ===== *)
theory Messages
  imports Prelude
begin

text \<open>
  The messages of \<open>proto/abcmovies\<close> that the core passes around. A message is a record, a oneof a
  datatype, an enum a datatype whose last constructor holds the numbers a proto3 enum may carry
  beyond its named values. A pointer that may be nil is an \<^verbatim>\<open>option\<close>, also inside a repeated field
  where the code tests its elements for nil. A proto map is an association list. \<open>uint32\<close> is
  \<^typ>\<open>32 word\<close>, and so is a \<open>float\<close> (its bits). Times are \<^typ>\<open>int\<close>, in nanoseconds.
\<close>

subsection \<open>Provider items and title metadata\<close>

datatype ItemKind = IK_UNSPECIFIED | IK_MOVIE | IK_SERIES | IK_OTHER int

record ExternalId =
  eid_namespace :: string
  eid_value :: string

datatype KindSpecific =
    Movie "32 word"             \<comment> \<open>runtime in minutes\<close>
  | Series "32 word" "32 word"  \<comment> \<open>total seasons, total episodes\<close>

record EnrichmentSource =
  es_slot :: string
  es_fetched_at :: int

record TitleMetadata =
  md_title :: string
  md_year :: "32 word"
  md_description :: string
  md_poster_url :: string
  md_rating :: "32 word"
  md_content_rating :: string
  md_genres :: "string list"
  md_original_language :: string
  md_cast :: "string list"
  md_directors :: "string list"
  md_kind_specific :: "KindSpecific option"
  md_source :: "(string \<times> EnrichmentSource) list"
  md_extra :: "(string \<times> string) list"

definition empty_metadata :: TitleMetadata where
  "empty_metadata = \<lparr>md_title = [], md_year = 0, md_description = [], md_poster_url = [],
     md_rating = 0, md_content_rating = [], md_genres = [], md_original_language = [],
     md_cast = [], md_directors = [], md_kind_specific = None, md_source = [], md_extra = []\<rparr>"

record CatalogueItem =
  ci_native_id :: string
  ci_kind :: ItemKind
  ci_external_ids :: "ExternalId option list"
  ci_metadata :: "TitleMetadata option"

text \<open>The generated getters: a nil message answers with the zero value of the field.\<close>

definition get_or :: "'b \<Rightarrow> ('a \<Rightarrow> 'b) \<Rightarrow> 'a option \<Rightarrow> 'b" where
  "get_or z f m = (case m of None \<Rightarrow> z | Some x \<Rightarrow> f x)"

lemma get_or_simps [simp]: "get_or z f None = z" "get_or z f (Some x) = f x"
  by (simp_all add: get_or_def)

abbreviation GetTitle :: "TitleMetadata option \<Rightarrow> string" where
  "GetTitle \<equiv> get_or [] md_title"

abbreviation GetYear :: "TitleMetadata option \<Rightarrow> 32 word" where
  "GetYear \<equiv> get_or 0 md_year"

abbreviation GetNamespace :: "ExternalId option \<Rightarrow> string" where
  "GetNamespace \<equiv> get_or [] eid_namespace"

abbreviation GetValue :: "ExternalId option \<Rightarrow> string" where
  "GetValue \<equiv> get_or [] eid_value"

definition runtime_minutes :: "TitleMetadata option \<Rightarrow> 32 word" where
  "runtime_minutes m =
     (case get_or None md_kind_specific m of Some (Movie r) \<Rightarrow> r | _ \<Rightarrow> 0)"

definition total_seasons :: "TitleMetadata option \<Rightarrow> 32 word" where
  "total_seasons m =
     (case get_or None md_kind_specific m of Some (Series s e) \<Rightarrow> s | _ \<Rightarrow> 0)"

definition total_episodes :: "TitleMetadata option \<Rightarrow> 32 word" where
  "total_episodes m =
     (case get_or None md_kind_specific m of Some (Series s e) \<Rightarrow> e | _ \<Rightarrow> 0)"

text \<open>An external id that carries an assertion: not nil, with both parts non-empty.\<close>

definition asserts :: "ExternalId option \<Rightarrow> bool" where
  "asserts x \<longleftrightarrow> x \<noteq> None \<and> GetNamespace x \<noteq> [] \<and> GetValue x \<noteq> []"

lemma asserts_Some [simp]:
  "asserts (Some x) \<longleftrightarrow> eid_namespace x \<noteq> [] \<and> eid_value x \<noteq> []"
  by (simp add: asserts_def)

lemma asserts_None [simp]: "\<not> asserts None"
  by (simp add: asserts_def)

subsection \<open>Library entries\<close>

datatype EntryKind = EK_UNSPECIFIED | EK_MOVIE | EK_SERIES | EK_OTHER int
datatype CoverageVerdict = CV_UNSPECIFIED | CV_CORROBORATED | CV_PRESENCE_ONLY | CV_OTHER int
datatype IdentityVerdict = IV_UNSPECIFIED | IV_CORROBORATED | IV_SINGLE_SOURCE | IV_OTHER int

record SeasonRange =
  sr_start :: "32 word"
  sr_end :: "32 word"

record CoverageRow =
  cr_present :: bool
  cr_seasons :: "SeasonRange option list"
  cr_verdict :: CoverageVerdict
  cr_via :: "string list"
  cr_last_verified :: int

record ExternalIdentity =
  xi_namespace :: string
  xi_value :: string
  xi_provenance :: string
  xi_verdict :: IdentityVerdict

record LibraryEntry =
  le_id :: string
  le_kind :: EntryKind
  le_coverage :: "(string \<times> CoverageRow option) list"
  le_external_identities :: "ExternalIdentity option list"
  le_metadata_ref :: string

subsection \<open>Media sources\<close>

datatype MediaSourceType = MST_UNSPECIFIED | MST_STATIC | MST_LIVE | MST_OTHER int
datatype Seekable = SK_UNSPECIFIED | SK_NONE | SK_FULL | SK_DVR_WINDOW | SK_OTHER int
datatype Addressable = AD_UNSPECIFIED | AD_PER_TRACK | AD_WHOLE_MUX | AD_OTHER int
datatype SubtitleRole = SR_UNSPECIFIED | SR_SUBTITLE | SR_SDH | SR_SIGNS_SONGS | SR_EASYREADER
  | SR_COMMENTARY | SR_OTHER int

record TrackDrm =
  drm_system :: string
  drm_license_url :: string
  drm_auth_context :: string

record TrackDelivery =
  td_locations :: "string list"
  td_carried_in :: string
  td_auth_context :: string
  td_drm :: "TrackDrm option"
  td_refresh_path :: string

record VideoTrack =
  vt_codec :: string
  vt_bitrate :: "32 word"
  vt_width :: "32 word"
  vt_height :: "32 word"

record AudioTrack =
  at_codec :: string
  at_bitrate :: "32 word"
  at_language :: string
  at_channel_layout :: string

record SubtitleTrack =
  sub_format :: string
  sub_language :: string
  sub_role :: SubtitleRole
  sub_forced :: bool

datatype Media = Video VideoTrack | Audio AudioTrack | Subtitle SubtitleTrack

record Track =
  tr_id :: string
  tr_media :: "Media option"
  tr_delivery :: "TrackDelivery option"

abbreviation GetTrackId :: "Track option \<Rightarrow> string" where
  "GetTrackId \<equiv> get_or [] tr_id"

abbreviation GetDelivery :: "Track option \<Rightarrow> TrackDelivery option" where
  "GetDelivery \<equiv> get_or None tr_delivery"

definition GetSubtitle :: "Track option \<Rightarrow> SubtitleTrack option" where
  "GetSubtitle t = (case get_or None tr_media t of Some (Subtitle s) \<Rightarrow> Some s | _ \<Rightarrow> None)"

record MediaSource =
  ms_type :: MediaSourceType
  ms_seekable :: Seekable
  ms_dvr_window :: "int option"
  ms_addressable :: Addressable
  ms_tracks :: "Track option list"

subsection \<open>Jobs and events\<close>

datatype JobKind = JK_UNSPECIFIED | JK_DELIVERY | JK_REFRESH | JK_RE_AUTH | JK_OTHER int
datatype JobStatus = JS_UNSPECIFIED | JS_QUEUED | JS_RUNNING | JS_AWAITING_ACTION | JS_DONE
  | JS_FAILED | JS_CANCELLED | JS_OTHER int
datatype ActionType = AT_UNSPECIFIED | AT_RELINK | AT_CAPTCHA | AT_EMAIL_CODE | AT_DEVICE_PAIRING
  | AT_OTHER int

record DeliveryContext =
  dc_provider :: string
  dc_account_id :: string
  dc_member_user_id :: string
  dc_policy :: "(string \<times> string) list"
  dc_provider_cap :: "(string \<times> string) list"
  dc_sink :: string
  dc_selected_target :: string
  dc_container :: string

datatype AwaitingKind = Common ActionType | Passthrough string string  \<comment> \<open>adapter, descriptor\<close>

record AwaitingAction =
  aw_kind :: "AwaitingKind option"
  aw_actor_user_id :: string

record Job =
  job_id :: string
  job_kind :: JobKind
  job_status :: JobStatus
  job_progress :: "32 word option"
  job_owner_user_id :: string
  job_delivery :: "DeliveryContext option"
  job_awaiting_action :: "AwaitingAction option"
  job_error :: string

datatype EventType = ET_UNSPECIFIED | ET_JOB_STATUS | ET_MERGE_CONFLICT | ET_PROVIDER_SWITCHED
  | ET_ACCOUNT_SESSION_LINKED | ET_ACCOUNT_SESSION_EXPIRED | ET_ACCOUNT_SESSION_REVOKED
  | ET_AVAILABILITY_CHANGED | ET_DELIVERY_PLAY_MENU_READY | ET_OTHER int
datatype EventAudience = EA_UNSPECIFIED | EA_USER | EA_OWNER | EA_ACCOUNT | EA_OTHER int

datatype Payload =
    JobStatusEvent string JobStatus                 \<comment> \<open>job id, status\<close>
  | MergeConflictEvent string string string string  \<comment> \<open>provider, provider id, entry id, reason\<close>
  | ProviderSwitchedEvent string string             \<comment> \<open>from, to\<close>
  | AccountSessionEvent string string               \<comment> \<open>account id, provider\<close>
  | AvailabilityEvent string string string bool     \<comment> \<open>account id, provider, entry id, present\<close>
  | PlayMenuReadyEvent string                       \<comment> \<open>job id\<close>

record EventEnvelope =
  ev_id :: string
  ev_type :: EventType
  ev_audience :: EventAudience
  ev_user_id :: string
  ev_account_id :: string
  ev_payload :: "Payload option"
  ev_emitted_at :: int

end
