(* ===== verification/Schema.thy ===== *)
theory Schema
  imports Messages
begin

text \<open>
  The contract validators of \<open>core/internal/schema\<close> (\<open>schema.go\<close>, \<open>provider.go\<close>). A validator
  answers \<^const>\<open>None\<close> for a nil error and \<open>Some msg\<close> for a rejection; \<open>msg\<close> is the constant text
  of the message, without the values formatted into it. Each check stands in the order of the code.

  The theorems state what acceptance means: \<open>ValidateCatalogueItem_iff\<close> and
  \<open>ValidateMediaSource_iff\<close> give it as a declarative condition.
\<close>

type_synonym verdict = "string option"

text \<open>A loop that returns the first error.\<close>

fun first_err :: "('a \<Rightarrow> verdict) \<Rightarrow> 'a list \<Rightarrow> verdict" where
  "first_err f [] = None"
| "first_err f (x # xs) = (case f x of Some e \<Rightarrow> Some e | None \<Rightarrow> first_err f xs)"

lemma first_err_None_iff: "first_err f xs = None \<longleftrightarrow> (\<forall>x \<in> set xs. f x = None)"
  by (induction xs) (auto split: option.splits)

text \<open>\<open>if err := a; err != nil { return err }; return b\<close>.\<close>

definition then_check :: "verdict \<Rightarrow> verdict \<Rightarrow> verdict" where
  "then_check a b = (case a of Some e \<Rightarrow> Some e | None \<Rightarrow> b)"

lemma then_check_None_iff [simp]: "then_check a b = None \<longleftrightarrow> a = None \<and> b = None"
  by (simp add: then_check_def split: option.splits)

subsection \<open>Provider items (provider.go)\<close>

definition validate_item_id :: "ExternalId option \<Rightarrow> verdict" where
  "validate_item_id x =
     (if x = None then Some ''external id is nil''
      else if GetNamespace x = [] \<or> GetValue x = [] then Some ''external id requires namespace and value''
      else None)"

definition ValidateCatalogueItem :: "CatalogueItem option \<Rightarrow> verdict" where
  "ValidateCatalogueItem item =
     (case item of
        None \<Rightarrow> Some ''catalogue item: nil''
      | Some i \<Rightarrow>
          if ci_native_id i = [] then Some ''catalogue item: native_id is required''
          else if ci_kind i = IK_UNSPECIFIED then Some ''catalogue item: kind is required''
          else if ci_metadata i = None then Some ''catalogue item: metadata is required''
          else if GetTitle (ci_metadata i) = [] then Some ''catalogue item: metadata.title is required''
          else first_err validate_item_id (ci_external_ids i))"

lemma ValidateCatalogueItem_iff:
  "ValidateCatalogueItem item = None \<longleftrightarrow>
     (\<exists>i. item = Some i \<and> ci_native_id i \<noteq> [] \<and> ci_kind i \<noteq> IK_UNSPECIFIED
        \<and> (\<exists>m. ci_metadata i = Some m \<and> md_title m \<noteq> [])
        \<and> (\<forall>x \<in> set (ci_external_ids i). asserts x))"
proof -
  have "validate_item_id x = None \<longleftrightarrow> asserts x" for x
    by (cases x) (simp_all add: validate_item_id_def)
  then show ?thesis
    by (auto simp: ValidateCatalogueItem_def first_err_None_iff split: option.splits)
qed

record CatalogueSyncResponse =
  csr_items :: "CatalogueItem option list"
  csr_next_page_token :: string

fun validate_page :: "string list \<Rightarrow> CatalogueItem option list \<Rightarrow> verdict" where
  "validate_page seen [] = None"
| "validate_page seen (item # rest) =
     (case ValidateCatalogueItem item of
        Some e \<Rightarrow> Some e
      | None \<Rightarrow>
          (if get_or [] ci_native_id item \<in> set seen
           then Some ''catalogue sync response: duplicate native_id on one page''
           else validate_page (get_or [] ci_native_id item # seen) rest))"

definition ValidateCatalogueSyncResponse :: "CatalogueSyncResponse option \<Rightarrow> verdict" where
  "ValidateCatalogueSyncResponse resp =
     (case resp of
        None \<Rightarrow> Some ''catalogue sync response: nil''
      | Some r \<Rightarrow> validate_page [] (csr_items r))"

lemma validate_page_iff:
  "validate_page seen xs = None \<longleftrightarrow>
     (\<forall>x \<in> set xs. ValidateCatalogueItem x = None) \<and> distinct (map (get_or [] ci_native_id) xs)
     \<and> set (map (get_or [] ci_native_id) xs) \<inter> set seen = {}"
  by (induction xs arbitrary: seen) (auto split: option.splits)

lemma ValidateCatalogueSyncResponse_iff:
  "ValidateCatalogueSyncResponse resp = None \<longleftrightarrow>
     (\<exists>r. resp = Some r \<and> (\<forall>x \<in> set (csr_items r). ValidateCatalogueItem x = None)
        \<and> distinct (map (get_or [] ci_native_id) (csr_items r)))"
  by (auto simp: ValidateCatalogueSyncResponse_def validate_page_iff split: option.splits)

text \<open>The item lists of search, browse and refresh answers are validated item by item.\<close>

definition validate_items :: "string \<Rightarrow> CatalogueItem option list option \<Rightarrow> verdict" where
  "validate_items nil_msg resp =
     (case resp of None \<Rightarrow> Some nil_msg | Some items \<Rightarrow> first_err ValidateCatalogueItem items)"

definition ValidateSearchCatalogResponse :: "CatalogueItem option list option \<Rightarrow> verdict" where
  "ValidateSearchCatalogResponse = validate_items ''search catalog response: nil''"

definition ValidateBrowseCatalogResponse :: "CatalogueItem option list option \<Rightarrow> verdict" where
  "ValidateBrowseCatalogResponse = validate_items ''browse catalog response: nil''"

definition ValidateRefreshAvailabilityResponse :: "CatalogueItem option list option \<Rightarrow> verdict" where
  "ValidateRefreshAvailabilityResponse = validate_items ''refresh availability response: nil''"

subsection \<open>Library entries (schema.go)\<close>

definition validate_season :: "SeasonRange option \<Rightarrow> verdict" where
  "validate_season s =
     (case s of
        None \<Rightarrow> Some ''season range is nil''
      | Some r \<Rightarrow> if sr_start r > sr_end r then Some ''season range: start > end'' else None)"

definition validateCoverageRow :: "EntryKind \<Rightarrow> CoverageRow option \<Rightarrow> verdict" where
  "validateCoverageRow kind row =
     (case row of
        None \<Rightarrow> Some ''coverage row is nil''
      | Some r \<Rightarrow>
          if cr_verdict r = CV_UNSPECIFIED then Some ''coverage row: verdict is required''
          else if cr_present r \<and> cr_via r = [] then Some ''coverage row: a present row requires provenance (via)''
          else if cr_seasons r \<noteq> [] \<and> kind = EK_MOVIE then Some ''coverage row: seasons are series-only''
          else first_err validate_season (cr_seasons r))"

definition validateExternalIdentity :: "ExternalIdentity option \<Rightarrow> verdict" where
  "validateExternalIdentity x =
     (case x of
        None \<Rightarrow> Some ''external identity is nil''
      | Some i \<Rightarrow>
          if xi_namespace i = [] \<or> xi_value i = [] \<or> xi_provenance i = []
          then Some ''external identity: namespace, value, and provenance are required''
          else if xi_verdict i = IV_UNSPECIFIED then Some ''external identity: verdict is required''
          else None)"

definition ValidateLibraryEntry :: "LibraryEntry option \<Rightarrow> verdict" where
  "ValidateLibraryEntry le =
     (case le of
        None \<Rightarrow> Some ''library entry: nil''
      | Some e \<Rightarrow>
          if le_id e = [] then Some ''library entry: id is required''
          else if \<not> HasPrefix (le_id e) ''le_'' then Some ''library entry: id must start with le_''
          else if le_kind e = EK_UNSPECIFIED then Some ''library entry: kind is required''
          else then_check (first_err (\<lambda>(k, row). validateCoverageRow (le_kind e) row) (le_coverage e))
                 (first_err validateExternalIdentity (le_external_identities e)))"

subsection \<open>Media sources (schema.go)\<close>

definition validateTrackID :: "Track option \<Rightarrow> string list \<Rightarrow> string + string list" where
  "validateTrackID t ids =
     (case t of
        None \<Rightarrow> Inl ''media source: nil track''
      | Some tr \<Rightarrow>
          if tr_id tr = [] then Inl ''media source: track id is required''
          else if tr_id tr \<in> set ids then Inl ''media source: duplicate track id''
          else if tr_media tr = None then Inl ''media source: exactly one media type is required''
          else Inr (tr_id tr # ids))"

fun collectTrackIDs :: "string list \<Rightarrow> Track option list \<Rightarrow> string + string list" where
  "collectTrackIDs ids [] = Inr ids"
| "collectTrackIDs ids (t # ts) =
     (case validateTrackID t ids of Inl e \<Rightarrow> Inl e | Inr ids' \<Rightarrow> collectTrackIDs ids' ts)"

definition validateSubtitleTrack :: "SubtitleTrack \<Rightarrow> TrackDelivery option \<Rightarrow> verdict" where
  "validateSubtitleTrack sub delivery =
     (let role = (if sub_role sub = SR_UNSPECIFIED then SR_SUBTITLE else sub_role sub)
      in if sub_forced sub \<and> role \<noteq> SR_SUBTITLE
         then Some ''media source: forced subtitles apply only to the subtitle role''
         else if delivery = None \<and> sub_format sub \<noteq> []
         then Some ''media source: a burned-in subtitle track carries no format''
         else None)"

definition validateDelivery :: "Addressable \<Rightarrow> string \<Rightarrow> TrackDelivery \<Rightarrow> string list \<Rightarrow> verdict" where
  "validateDelivery addressable tid d ids =
     (if td_carried_in d \<noteq> [] \<and> td_carried_in d = tid
      then Some ''media source: carried_in cannot reference itself''
      else if td_carried_in d \<noteq> [] \<and> td_carried_in d \<notin> set ids
      then Some ''media source: carried_in references unknown track''
      else if addressable = AD_PER_TRACK then
        (if td_carried_in d \<noteq> [] then Some ''media source: carried_in is not allowed in a PER_TRACK manifest''
         else if td_locations d = []
         then Some ''media source: a PER_TRACK manifest requires at least one location per track''
         else None)
      else if td_locations d = [] \<and> td_carried_in d = []
      then Some ''media source: not reachable: needs at least one location or carried_in''
      else None)"

definition validateTrack :: "Addressable \<Rightarrow> string list \<Rightarrow> Track option \<Rightarrow> verdict" where
  "validateTrack addressable ids t =
     (let sub = GetSubtitle t; delivery = GetDelivery t
      in if sub = None \<and> delivery = None
         then Some ''media source: a video/audio track requires delivery''
         else then_check
           (case sub of None \<Rightarrow> None | Some s \<Rightarrow> validateSubtitleTrack s delivery)
           (case delivery of
              None \<Rightarrow> None
            | Some d \<Rightarrow> validateDelivery addressable (GetTrackId t) d ids))"

definition locates :: "Track option \<Rightarrow> bool" where
  "locates t \<longleftrightarrow> get_or [] td_locations (GetDelivery t) \<noteq> []"

definition ValidateMediaSource :: "MediaSource option \<Rightarrow> verdict" where
  "ValidateMediaSource ms =
     (case ms of
        None \<Rightarrow> Some ''media source: nil''
      | Some m \<Rightarrow>
          if ms_type m = MST_UNSPECIFIED then Some ''media source: type is required''
          else if ms_seekable m = SK_UNSPECIFIED then Some ''media source: seekable is required''
          else if ms_addressable m = AD_UNSPECIFIED then Some ''media source: addressable is required''
          else if ms_seekable m = SK_DVR_WINDOW \<and> ms_dvr_window m = None
          then Some ''media source: dvr_window is required when seekable is DVR_WINDOW''
          else if ms_tracks m = [] then Some ''media source: at least one track is required''
          else case collectTrackIDs [] (ms_tracks m) of
            Inl e \<Rightarrow> Some e
          | Inr ids \<Rightarrow>
              then_check (first_err (validateTrack (ms_addressable m) ids) (ms_tracks m))
                (if ms_addressable m = AD_WHOLE_MUX \<and> \<not> (\<exists>t \<in> set (ms_tracks m). locates t)
                 then Some ''media source: a WHOLE_MUX manifest requires at least one track with locations''
                 else None))"

lemma collectTrackIDs_Inr_iff:
  "collectTrackIDs ids ts = Inr out \<longleftrightarrow>
     (\<forall>t \<in> set ts. t \<noteq> None \<and> GetTrackId t \<noteq> [] \<and> get_or None tr_media t \<noteq> None)
     \<and> distinct (map GetTrackId ts) \<and> set (map GetTrackId ts) \<inter> set ids = {}
     \<and> out = rev (map GetTrackId ts) @ ids"
proof (induction ts arbitrary: ids)
  case Nil
  then show ?case by auto
next
  case (Cons t ts)
  then show ?case
    by (cases t) (auto simp: validateTrackID_def split: if_splits)
qed

text \<open>
  What an accepted delivery promises: the bytes of the track can be reached, through its own
  location or, in a manifest that is not per-track, through another track of the manifest.
\<close>

definition delivery_reachable :: "Addressable \<Rightarrow> string set \<Rightarrow> string \<Rightarrow> TrackDelivery \<Rightarrow> bool" where
  "delivery_reachable addressable ids tid d \<longleftrightarrow>
     (if addressable = AD_PER_TRACK then td_carried_in d = [] \<and> td_locations d \<noteq> []
      else (td_carried_in d \<noteq> [] \<longrightarrow> td_carried_in d \<noteq> tid \<and> td_carried_in d \<in> ids)
         \<and> (td_locations d \<noteq> [] \<or> td_carried_in d \<noteq> []))"

definition track_wf :: "Addressable \<Rightarrow> string set \<Rightarrow> Track \<Rightarrow> bool" where
  "track_wf addressable ids t \<longleftrightarrow>
     tr_id t \<noteq> []
     \<and> (case tr_media t of
          None \<Rightarrow> False
        | Some (Subtitle s) \<Rightarrow>
            (sub_forced s \<longrightarrow> sub_role s \<in> {SR_UNSPECIFIED, SR_SUBTITLE})
            \<and> (tr_delivery t = None \<longrightarrow> sub_format s = [])
        | Some _ \<Rightarrow> tr_delivery t \<noteq> None)
     \<and> (\<forall>d. tr_delivery t = Some d \<longrightarrow> delivery_reachable addressable ids (tr_id t) d)"

definition media_source_wf :: "MediaSource \<Rightarrow> bool" where
  "media_source_wf m \<longleftrightarrow>
     ms_type m \<noteq> MST_UNSPECIFIED \<and> ms_seekable m \<noteq> SK_UNSPECIFIED \<and> ms_addressable m \<noteq> AD_UNSPECIFIED
     \<and> (ms_seekable m = SK_DVR_WINDOW \<longrightarrow> ms_dvr_window m \<noteq> None)
     \<and> ms_tracks m \<noteq> [] \<and> None \<notin> set (ms_tracks m) \<and> distinct (map GetTrackId (ms_tracks m))
     \<and> (\<forall>t. Some t \<in> set (ms_tracks m) \<longrightarrow>
          track_wf (ms_addressable m) (GetTrackId ` set (ms_tracks m)) t)
     \<and> (ms_addressable m = AD_WHOLE_MUX \<longrightarrow> (\<exists>t \<in> set (ms_tracks m). locates t))"

lemma validateDelivery_None_iff:
  "validateDelivery a tid d ids = None \<longleftrightarrow> delivery_reachable a (set ids) tid d"
  by (auto simp: validateDelivery_def delivery_reachable_def)

lemma validateSubtitleTrack_None_iff:
  "validateSubtitleTrack s d = None \<longleftrightarrow>
     (sub_forced s \<longrightarrow> sub_role s \<in> {SR_UNSPECIFIED, SR_SUBTITLE}) \<and> (d = None \<longrightarrow> sub_format s = [])"
  by (auto simp: validateSubtitleTrack_def Let_def)

lemma validateTrack_None_iff:
  assumes "tr_id t \<noteq> []" and "tr_media t \<noteq> None"
  shows "validateTrack a ids (Some t) = None \<longleftrightarrow> track_wf a (set ids) t"
  using assms
  by (cases "tr_media t"; cases "the (tr_media t)"; cases "tr_delivery t")
    (auto simp: validateTrack_def track_wf_def GetSubtitle_def Let_def validateDelivery_None_iff
       validateSubtitleTrack_None_iff split: option.splits)

lemma tracks_valid_iff:
  assumes "collectTrackIDs [] ts = Inr ids"
  shows "first_err (validateTrack a ids) ts = None \<longleftrightarrow>
     (\<forall>t. Some t \<in> set ts \<longrightarrow> track_wf a (GetTrackId ` set ts) t)"
proof -
  from assms have facts: "\<forall>t \<in> set ts. t \<noteq> None \<and> GetTrackId t \<noteq> [] \<and> get_or None tr_media t \<noteq> None"
    and ids: "set ids = GetTrackId ` set ts"
    unfolding collectTrackIDs_Inr_iff by auto
  have "validateTrack a ids (Some t) = None \<longleftrightarrow> track_wf a (GetTrackId ` set ts) t"
    if "Some t \<in> set ts" for t
    using bspec [OF facts that] by (simp add: validateTrack_None_iff ids)
  with facts show ?thesis
    unfolding first_err_None_iff by (metis option.exhaust)
qed

lemma ValidateMediaSource_wf_iff:
  "ValidateMediaSource (Some m) = None \<longleftrightarrow> media_source_wf m"
proof (cases "collectTrackIDs [] (ms_tracks m)")
  case (Inl e)
  have "\<not> media_source_wf m"
  proof
    assume wf: "media_source_wf m"
    have "t \<noteq> None \<and> GetTrackId t \<noteq> [] \<and> get_or None tr_media t \<noteq> None" if "t \<in> set (ms_tracks m)" for t
    proof (cases t)
      case None
      with wf that show ?thesis by (simp add: media_source_wf_def)
    next
      case (Some tr)
      with wf that have "track_wf (ms_addressable m) (GetTrackId ` set (ms_tracks m)) tr"
        by (simp add: media_source_wf_def)
      with Some show ?thesis by (auto simp: track_wf_def split: option.splits)
    qed
    moreover have "distinct (map GetTrackId (ms_tracks m))"
      using wf by (simp add: media_source_wf_def)
    ultimately have "collectTrackIDs [] (ms_tracks m) = Inr (rev (map GetTrackId (ms_tracks m)))"
      by (simp add: collectTrackIDs_Inr_iff)
    with Inl show False by simp
  qed
  with Inl show ?thesis by (simp add: ValidateMediaSource_def)
next
  case (Inr ids)
  then have "None \<notin> set (ms_tracks m)" and "distinct (map GetTrackId (ms_tracks m))"
    by (auto simp: collectTrackIDs_Inr_iff)
  with Inr tracks_valid_iff [OF Inr] show ?thesis
    by (simp add: ValidateMediaSource_def media_source_wf_def)
qed

subsection \<open>Jobs (schema.go)\<close>

definition validateDeliveryContext :: "DeliveryContext option \<Rightarrow> verdict" where
  "validateDeliveryContext d =
     (case d of
        None \<Rightarrow> Some ''job: delivery context is required for DELIVERY jobs''
      | Some c \<Rightarrow>
          if dc_provider c = [] \<or> dc_account_id c = [] \<or> dc_member_user_id c = []
          then Some ''job: delivery context requires provider, account_id, and member_user_id''
          else None)"

definition validateAwaitingAction :: "AwaitingAction option \<Rightarrow> verdict" where
  "validateAwaitingAction a =
     (case a of
        None \<Rightarrow> Some ''job: awaiting_action is required for AWAITING_ACTION jobs''
      | Some w \<Rightarrow>
          if aw_actor_user_id w = [] then Some ''job: awaiting_action carries who must act''
          else (case aw_kind w of
              None \<Rightarrow> Some ''job: awaiting_action requires a common action or a passthrough prompt''
            | Some (Common t) \<Rightarrow>
                if t = AT_UNSPECIFIED
                then Some ''job: awaiting_action requires a common action or a passthrough prompt''
                else None
            | Some (Passthrough adapter descriptor) \<Rightarrow>
                if adapter = [] \<or> descriptor = []
                then Some ''job: awaiting_action: a passthrough prompt requires adapter and descriptor''
                else None))"

definition ValidateJob :: "Job option \<Rightarrow> verdict" where
  "ValidateJob job =
     (case job of
        None \<Rightarrow> Some ''job: nil''
      | Some j \<Rightarrow>
          if job_id j = [] then Some ''job: id is required''
          else if job_kind j = JK_UNSPECIFIED then Some ''job: kind is required''
          else if job_status j = JS_UNSPECIFIED then Some ''job: status is required''
          else if job_owner_user_id j = [] then Some ''job: owner_user_id is required''
          else if (case job_progress j of None \<Rightarrow> False | Some p \<Rightarrow> p > 100)
          then Some ''job: progress percent must be at most 100''
          else then_check
            (if job_kind j = JK_DELIVERY then validateDeliveryContext (job_delivery j) else None)
            (then_check
              (if job_status j = JS_AWAITING_ACTION then validateAwaitingAction (job_awaiting_action j) else None)
              (if job_status j = JS_FAILED \<and> job_error j = []
               then Some ''job: error is required for FAILED jobs'' else None)))"

subsection \<open>Event envelopes (schema.go)\<close>

definition validate_audience :: "EventEnvelope \<Rightarrow> verdict" where
  "validate_audience e =
     (case ev_audience e of
        EA_USER \<Rightarrow> if ev_user_id e = [] then Some ''event: user_id is required for USER and OWNER audiences'' else None
      | EA_OWNER \<Rightarrow> if ev_user_id e = [] then Some ''event: user_id is required for USER and OWNER audiences'' else None
      | EA_ACCOUNT \<Rightarrow> if ev_account_id e = [] then Some ''event: account_id is required for the ACCOUNT audience'' else None
      | _ \<Rightarrow> None)"

definition validate_account_session :: "Payload option \<Rightarrow> verdict" where
  "validate_account_session p =
     (case p of
        Some (AccountSessionEvent account provider) \<Rightarrow>
          if account = [] \<or> provider = []
          then Some ''event: an account_session payload requires account_id and provider'' else None
      | _ \<Rightarrow> Some ''event: an account_session payload is required for ACCOUNT_SESSION events'')"

definition validate_payload :: "EventEnvelope \<Rightarrow> verdict" where
  "validate_payload e =
     (case ev_type e of
        ET_JOB_STATUS \<Rightarrow>
          (case ev_payload e of
             Some (JobStatusEvent jid st) \<Rightarrow>
               if jid = [] \<or> st = JS_UNSPECIFIED
               then Some ''event: a job_status payload requires job_id and status'' else None
           | _ \<Rightarrow> Some ''event: a job_status payload is required for JOB_STATUS events'')
      | ET_MERGE_CONFLICT \<Rightarrow>
          (case ev_payload e of
             Some (MergeConflictEvent provider pid entry reason) \<Rightarrow>
               if provider = [] \<or> pid = [] \<or> entry = []
               then Some ''event: a merge_conflict payload requires provider, provider_id, and entry_id'' else None
           | _ \<Rightarrow> Some ''event: a merge_conflict payload is required for MERGE_CONFLICT events'')
      | ET_PROVIDER_SWITCHED \<Rightarrow>
          (case ev_payload e of
             Some (ProviderSwitchedEvent from_p to_p) \<Rightarrow>
               if from_p = [] \<or> to_p = []
               then Some ''event: a provider_switched payload requires from_provider and to_provider'' else None
           | _ \<Rightarrow> Some ''event: a provider_switched payload is required for PROVIDER_SWITCHED events'')
      | ET_ACCOUNT_SESSION_LINKED \<Rightarrow> validate_account_session (ev_payload e)
      | ET_ACCOUNT_SESSION_EXPIRED \<Rightarrow> validate_account_session (ev_payload e)
      | ET_ACCOUNT_SESSION_REVOKED \<Rightarrow> validate_account_session (ev_payload e)
      | ET_AVAILABILITY_CHANGED \<Rightarrow>
          (case ev_payload e of
             Some (AvailabilityEvent account provider entry present) \<Rightarrow>
               if account = [] \<or> provider = [] \<or> entry = []
               then Some ''event: an availability payload requires account_id, provider, and entry_id'' else None
           | _ \<Rightarrow> Some ''event: an availability payload is required for AVAILABILITY_CHANGED events'')
      | _ \<Rightarrow> None)"

definition ValidateEventEnvelope :: "EventEnvelope option \<Rightarrow> verdict" where
  "ValidateEventEnvelope env =
     (case env of
        None \<Rightarrow> Some ''event: nil''
      | Some e \<Rightarrow>
          if ev_id e = [] then Some ''event: id is required''
          else if ev_type e = ET_UNSPECIFIED then Some ''event: type is required''
          else if ev_audience e = EA_UNSPECIFIED then Some ''event: audience is required''
          else then_check (validate_audience e) (validate_payload e))"

subsection \<open>Title metadata and catalogue slots (schema.go)\<close>

record TitleCandidate =
  tc_ref :: string
  tc_kind :: ItemKind
  tc_title :: string
  tc_original_title :: string
  tc_year :: "32 word"
  tc_external_ids :: "ExternalId option list"

record GetMetadataResponse =
  gm_metadata :: "TitleMetadata option"
  gm_external_ids :: "ExternalId option list"

definition ValidateTitleMetadata :: "TitleMetadata option \<Rightarrow> verdict" where
  "ValidateTitleMetadata tm =
     (case tm of
        None \<Rightarrow> Some ''title metadata: nil''
      | Some m \<Rightarrow>
          if md_title m = [] then Some ''title metadata: title is required''
          else if md_kind_specific m = None
          then Some ''title metadata: kind_specific (movie or series) is required''
          else None)"

definition validate_candidate :: "TitleCandidate option \<Rightarrow> verdict" where
  "validate_candidate c =
     (if get_or [] tc_ref c = [] then Some ''lookup title response: candidate: ref is required''
      else if get_or [] tc_title c = [] then Some ''lookup title response: candidate: title is required''
      else None)"

definition ValidateLookupTitleResponse :: "TitleCandidate option list option \<Rightarrow> verdict" where
  "ValidateLookupTitleResponse m =
     (case m of None \<Rightarrow> Some ''lookup title response: nil'' | Some cs \<Rightarrow> first_err validate_candidate cs)"

definition ValidateGetMetadataRequest :: "string option \<Rightarrow> verdict" where
  "ValidateGetMetadataRequest m =
     (case m of
        None \<Rightarrow> Some ''get metadata request: nil''
      | Some ref \<Rightarrow>
          if ref = [] then Some ''get metadata request: ref is required''
          else (case Cut ref CHR '':'' of
              Some (ns, val) \<Rightarrow>
                if ns = [] \<or> val = [] then Some ''get metadata request: ref must be namespace:value'' else None
            | None \<Rightarrow> Some ''get metadata request: ref must be namespace:value''))"

definition validate_metadata_id :: "ExternalId option \<Rightarrow> verdict" where
  "validate_metadata_id x =
     (if GetNamespace x = [] then Some ''get metadata response: external_id: namespace is required''
      else if GetValue x = [] then Some ''get metadata response: external_id: value is required''
      else None)"

definition ValidateGetMetadataResponse :: "GetMetadataResponse option \<Rightarrow> verdict" where
  "ValidateGetMetadataResponse m =
     (case m of
        None \<Rightarrow> Some ''get metadata response: nil''
      | Some r \<Rightarrow>
          if gm_metadata r = None then Some ''get metadata response: metadata is required''
          else if GetTitle (gm_metadata r) = [] then Some ''get metadata response: metadata.title is required''
          else first_err validate_metadata_id (gm_external_ids r))"

subsection \<open>Properties\<close>


text \<open>A page of a catalogue sync is accepted exactly when it is present, every item has its native id,
  kind, title and complete external ids, and no native id occurs twice.\<close>
theorem ValidateCatalogueSyncResponse_exact:
  "ValidateCatalogueSyncResponse (Some r) = None \<longleftrightarrow>
     distinct (map (get_or [] ci_native_id) (csr_items r))
     \<and> (\<forall>x \<in> set (csr_items r). \<exists>i m. x = Some i \<and> ci_native_id i \<noteq> [] \<and> ci_kind i \<noteq> IK_UNSPECIFIED
          \<and> ci_metadata i = Some m \<and> md_title m \<noteq> [] \<and> (\<forall>e \<in> set (ci_external_ids i). asserts e))"
  unfolding ValidateCatalogueSyncResponse_iff by (auto simp: ValidateCatalogueItem_iff)

definition demo_page :: CatalogueSyncResponse where
  "demo_page = \<lparr>csr_items = [Some \<lparr>ci_native_id = ''7'', ci_kind = IK_MOVIE, ci_external_ids = [],
     ci_metadata = Some (empty_metadata\<lparr>md_title := ''Alien''\<rparr>)\<rparr>], csr_next_page_token = []\<rparr>"

theorem ValidateCatalogueSyncResponse_exact_witness: "ValidateCatalogueSyncResponse (Some demo_page) = None"
  unfolding ValidateCatalogueSyncResponse_exact by (simp add: demo_page_def)

end
