(* ===== verification/Utf8.thy ===== *)
theory Utf8
  imports Prelude
begin

text \<open>
  UTF-8 and the functions of Go's \<open>strings\<close> package that work on runes: \<open>for range\<close> over a string,
  \<open>WriteRune\<close>, \<open>TrimSpace\<close> and \<open>Fields\<close>. A rune is a natural number. Decoding follows
  \<open>utf8.DecodeRune\<close>: an invalid byte decodes to U+FFFD and is one byte wide.

  \<open>DecodeRune_EncodeRune\<close> is the round trip for every valid rune, \<open>runes_bytes\<close> the one for whole
  strings.
\<close>

type_synonym rune = nat

definition RuneError :: rune where
  "RuneError = 0xFFFD"

definition cont :: "nat \<Rightarrow> bool" where
  "cont b \<longleftrightarrow> 0x80 \<le> b \<and> b \<le> 0xBF"

text \<open>The ranges a second byte may come from, which exclude overlong forms and surrogates.\<close>

definition second_ok :: "nat \<Rightarrow> nat \<Rightarrow> bool" where
  "second_ok b0 b1 \<longleftrightarrow>
     (if b0 = 0xE0 then 0xA0 else if b0 = 0xF0 then 0x90 else 0x80) \<le> b1
     \<and> b1 \<le> (if b0 = 0xED then 0x9F else if b0 = 0xF4 then 0x8F else 0xBF)"

definition DecodeRune :: "nat list \<Rightarrow> rune \<times> nat" where
  "DecodeRune bs =
     (case bs of
        [] \<Rightarrow> (RuneError, 0)
      | b0 # t \<Rightarrow>
          if b0 < 0x80 then (b0, 1)
          else if 0xC2 \<le> b0 \<and> b0 \<le> 0xDF then
            (case t of
               b1 # _ \<Rightarrow> if cont b1 then ((b0 - 0xC0) * 64 + (b1 - 0x80), 2) else (RuneError, 1)
             | _ \<Rightarrow> (RuneError, 1))
          else if 0xE0 \<le> b0 \<and> b0 \<le> 0xEF then
            (case t of
               b1 # b2 # _ \<Rightarrow>
                 if second_ok b0 b1 \<and> cont b2
                 then ((b0 - 0xE0) * 4096 + (b1 - 0x80) * 64 + (b2 - 0x80), 3) else (RuneError, 1)
             | _ \<Rightarrow> (RuneError, 1))
          else if 0xF0 \<le> b0 \<and> b0 \<le> 0xF4 then
            (case t of
               b1 # b2 # b3 # _ \<Rightarrow>
                 if second_ok b0 b1 \<and> cont b2 \<and> cont b3
                 then ((b0 - 0xF0) * 262144 + (b1 - 0x80) * 4096 + (b2 - 0x80) * 64 + (b3 - 0x80), 4)
                 else (RuneError, 1)
             | _ \<Rightarrow> (RuneError, 1))
          else (RuneError, 1))"

definition valid_rune :: "rune \<Rightarrow> bool" where
  "valid_rune r \<longleftrightarrow> r < 0xD800 \<or> (0xDFFF < r \<and> r \<le> 0x10FFFF)"

definition EncodeRune :: "rune \<Rightarrow> nat list" where
  "EncodeRune r0 =
     (let r = (if valid_rune r0 then r0 else RuneError)
      in if r < 0x80 then [r]
         else if r < 0x800 then [0xC0 + r div 64, 0x80 + r mod 64]
         else if r < 0x10000 then [0xE0 + r div 4096, 0x80 + r div 64 mod 64, 0x80 + r mod 64]
         else [0xF0 + r div 262144, 0x80 + r div 4096 mod 64, 0x80 + r div 64 mod 64, 0x80 + r mod 64])"

lemma DecodeRune_width: "bs \<noteq> [] \<Longrightarrow> 1 \<le> snd (DecodeRune bs) \<and> snd (DecodeRune bs) \<le> length bs"
  by (cases bs) (auto simp: DecodeRune_def split: list.splits)

text \<open>The iteration of \<open>for range\<close>: each rune with the bytes it was decoded from.\<close>

function chunks :: "nat list \<Rightarrow> (rune \<times> nat list) list" where
  "chunks bs =
     (if bs = [] then []
      else (fst (DecodeRune bs), take (snd (DecodeRune bs)) bs) # chunks (drop (snd (DecodeRune bs)) bs))"
  by pat_completeness auto
termination
proof (relation "measure length")
  fix bs :: "nat list"
  assume "bs \<noteq> []"
  with DecodeRune_width [of bs] show "(drop (snd (DecodeRune bs)) bs, bs) \<in> measure length"
    by auto
qed simp

declare chunks.simps [simp del]

lemma chunks_Nil [simp]: "chunks [] = []"
  by (simp add: chunks.simps)

lemma chunks_concat: "concat (map snd (chunks bs)) = bs"
proof (induction bs rule: chunks.induct)
  case (1 bs)
  then show ?case
    by (cases "bs = []") (simp_all add: chunks.simps [of bs])
qed

definition bytes :: "string \<Rightarrow> nat list" where
  "bytes s = map of_char s"

definition unbytes :: "nat list \<Rightarrow> string" where
  "unbytes bs = map char_of bs"

lemma unbytes_bytes [simp]: "unbytes (bytes s) = s"
  by (simp add: unbytes_def bytes_def comp_def)

definition runes :: "string \<Rightarrow> rune list" where
  "runes s = map fst (chunks (bytes s))"

definition of_runes :: "rune list \<Rightarrow> string" where
  "of_runes rs = unbytes (concat (map EncodeRune rs))"

subsection \<open>Round trip\<close>

lemma base64_three: "r = r div 4096 * 4096 + r div 64 mod 64 * 64 + r mod 64" for r :: nat
proof -
  have "r div 4096 = r div 64 div 64" by (simp flip: div_mult2_eq)
  moreover have "r div 64 = r div 64 div 64 * 64 + r div 64 mod 64" "r = r div 64 * 64 + r mod 64"
    by simp_all
  ultimately show ?thesis by linarith
qed

lemma mod_64_le: "x mod 64 \<le> (63::nat)"
  using mod_less_divisor [of 64 x] by linarith

lemma base64_four:
  "r = r div 262144 * 262144 + r div 4096 mod 64 * 4096 + r div 64 mod 64 * 64 + r mod 64" for r :: nat
proof -
  have "r div 262144 = r div 4096 div 64" by (simp flip: div_mult2_eq)
  moreover have "r div 4096 = r div 4096 div 64 * 64 + r div 4096 mod 64" by simp
  ultimately show ?thesis using base64_three [of r] by linarith
qed

lemma DecodeRune_EncodeRune:
  assumes "valid_rune r"
  shows "DecodeRune (EncodeRune r @ rest) = (r, length (EncodeRune r))"
proof -
  consider (one) "r < 0x80" | (two) "0x80 \<le> r" "r < 0x800"
    | (three) "0x800 \<le> r" "r < 0x10000" | (four) "0x10000 \<le> r" "r \<le> 0x10FFFF"
    using assms
    by (cases "r < 0x80"; cases "r < 0x800"; cases "r < 0x10000") (auto simp: valid_rune_def)
  then show ?thesis
  proof cases
    case one
    with assms show ?thesis by (simp add: EncodeRune_def DecodeRune_def)
  next
    case two
    let ?a = "r div 64" and ?b = "r mod 64"
    have bounds: "2 \<le> ?a" "?a \<le> 31" "?b < 64" using two by (linarith, linarith, simp)
    have "EncodeRune r = [0xC0 + ?a, 0x80 + ?b]"
      using assms two by (simp add: EncodeRune_def)
    then show ?thesis
      using bounds unfolding DecodeRune_def cont_def by simp
  next
    case three
    let ?a = "r div 4096" and ?b = "r div 64 mod 64" and ?c = "r mod 64"
    have sum: "r = ?a * 4096 + ?b * 64 + ?c" by (rule base64_three)
    have bounds: "?a \<le> 15" "?b < 64" "?c < 64" using three by (linarith, simp_all)
    have low: "?a = 0 \<Longrightarrow> 32 \<le> ?b" using three sum by linarith
    have sur: "?a = 13 \<Longrightarrow> ?b < 32" using assms three sum bounds unfolding valid_rune_def by linarith
    have "second_ok (0xE0 + ?a) (0x80 + ?b)"
      using bounds low sur unfolding second_ok_def by (simp split: if_splits) linarith
    moreover have "EncodeRune r = [0xE0 + ?a, 0x80 + ?b, 0x80 + ?c]"
      using assms three by (simp add: EncodeRune_def)
    ultimately show ?thesis
      using bounds unfolding DecodeRune_def cont_def by (simp add: sum [symmetric] mod_64_le)
  next
    case four
    let ?a = "r div 262144" and ?b = "r div 4096 mod 64" and ?c = "r div 64 mod 64" and ?d = "r mod 64"
    have sum: "r = ?a * 262144 + ?b * 4096 + ?c * 64 + ?d" by (rule base64_four)
    have bounds: "?a \<le> 4" "?b < 64" "?c < 64" "?d < 64" using four by (linarith, simp_all)
    have low: "?a = 0 \<Longrightarrow> 16 \<le> ?b" using four sum bounds by linarith
    have high: "?a = 4 \<Longrightarrow> ?b < 16" using four sum by linarith
    have "second_ok (0xF0 + ?a) (0x80 + ?b)"
      using bounds low high unfolding second_ok_def by (simp split: if_splits) linarith
    moreover have "EncodeRune r = [0xF0 + ?a, 0x80 + ?b, 0x80 + ?c, 0x80 + ?d]"
      using assms four by (simp add: EncodeRune_def)
    ultimately show ?thesis
      using bounds unfolding DecodeRune_def cont_def by (simp add: sum [symmetric] mod_64_le)
  qed
qed

lemma EncodeRune_bounds: "\<forall>b \<in> set (EncodeRune r). b < 256"
proof -
  define q where "q = (if valid_rune r then r else RuneError)"
  then have "q \<le> 0x10FFFF" by (auto simp: valid_rune_def RuneError_def)
  moreover have "EncodeRune r =
     (if q < 0x80 then [q]
      else if q < 0x800 then [0xC0 + q div 64, 0x80 + q mod 64]
      else if q < 0x10000 then [0xE0 + q div 4096, 0x80 + q div 64 mod 64, 0x80 + q mod 64]
      else [0xF0 + q div 262144, 0x80 + q div 4096 mod 64, 0x80 + q div 64 mod 64, 0x80 + q mod 64])"
    by (simp add: EncodeRune_def q_def Let_def)
  ultimately show ?thesis
    by (auto split: if_splits)
qed

lemma bytes_unbytes: "\<forall>b \<in> set bs. b < 256 \<Longrightarrow> bytes (unbytes bs) = bs"
  by (simp add: bytes_def unbytes_def map_idI)

lemma bytes_of_runes: "bytes (of_runes rs) = concat (map EncodeRune rs)"
  unfolding of_runes_def by (rule bytes_unbytes) (use EncodeRune_bounds in auto)

lemma chunks_encode:
  assumes "\<forall>r \<in> set rs. valid_rune r"
  shows "chunks (concat (map EncodeRune rs)) = map (\<lambda>r. (r, EncodeRune r)) rs"
  using assms
proof (induction rs)
  case Nil
  then show ?case by simp
next
  case (Cons r rs)
  have "EncodeRune r \<noteq> []" by (simp add: EncodeRune_def Let_def)
  with Cons show ?case
    by (simp add: chunks.simps [of "EncodeRune r @ concat (map EncodeRune rs)"] DecodeRune_EncodeRune)
qed

lemma runes_bytes: "\<forall>r \<in> set rs. valid_rune r \<Longrightarrow> runes (of_runes rs) = rs"
  by (simp add: runes_def bytes_of_runes chunks_encode comp_def)

subsection \<open>ASCII\<close>

definition ascii :: "string \<Rightarrow> bool" where
  "ascii s \<longleftrightarrow> (\<forall>c \<in> set s. of_char c < (128 :: nat))"

lemma chunks_ascii: "\<forall>b \<in> set bs. b < 128 \<Longrightarrow> chunks bs = map (\<lambda>b. (b, [b])) bs"
  by (induction bs) (simp_all add: chunks.simps [of "_ # _"] DecodeRune_def)

lemma runes_ascii: "ascii s \<Longrightarrow> runes s = map of_char s"
  by (simp add: runes_def bytes_def ascii_def chunks_ascii comp_def)

lemma of_runes_ascii: "ascii s \<Longrightarrow> of_runes (map of_char s) = s"
proof -
  assume "ascii s"
  then have "concat (map EncodeRune (map of_char s)) = map of_char s"
    by (induction s) (simp_all add: ascii_def EncodeRune_def valid_rune_def)
  then show ?thesis unfolding of_runes_def by (simp add: unbytes_def comp_def)
qed

subsection \<open>Spaces\<close>

text \<open>\<open>unicode.IsSpace\<close>.\<close>

definition IsSpace :: "rune \<Rightarrow> bool" where
  "IsSpace r \<longleftrightarrow> r \<in> {0x09, 0x0A, 0x0B, 0x0C, 0x0D, 0x20, 0x85, 0xA0, 0x1680, 0x2028, 0x2029, 0x202F, 0x205F, 0x3000}
     \<or> (0x2000 \<le> r \<and> r \<le> 0x200A)"

definition TrimSpace :: "string \<Rightarrow> string" where
  "TrimSpace s =
     (let cs = dropWhile (IsSpace \<circ> fst) (chunks (bytes s));
          ds = rev (dropWhile (IsSpace \<circ> fst) (rev cs))
      in unbytes (concat (map snd ds)))"

lemma TrimSpace_ascii:
  assumes "ascii s" and "\<forall>c \<in> set s. \<not> IsSpace (of_char c)"
  shows "TrimSpace s = s"
proof -
  let ?cs = "chunks (bytes s)"
  have cs: "?cs = map (\<lambda>b. (b, [b])) (bytes s)"
    using assms(1) by (intro chunks_ascii) (simp add: ascii_def bytes_def)
  have no: "\<forall>c \<in> set ?cs. \<not> (IsSpace \<circ> fst) c"
    unfolding cs using assms(2) by (auto simp: bytes_def)
  have keep: "\<forall>x \<in> set xs. \<not> P x \<Longrightarrow> dropWhile P xs = xs" for P :: "rune \<times> nat list \<Rightarrow> bool" and xs
    by (cases xs) auto
  have "dropWhile (IsSpace \<circ> fst) ?cs = ?cs" and "dropWhile (IsSpace \<circ> fst) (rev ?cs) = rev ?cs"
    using keep [OF no] keep [of "rev ?cs"] no by auto
  then show ?thesis by (simp add: TrimSpace_def chunks_concat)
qed

text \<open>\<open>strings.Fields\<close> over any sequence whose elements are tested for being a space.\<close>

fun split_spaces :: "('a \<Rightarrow> bool) \<Rightarrow> 'a list \<Rightarrow> 'a list \<Rightarrow> 'a list list" where
  "split_spaces sp cur [] = (if cur = [] then [] else [rev cur])"
| "split_spaces sp cur (x # xs) =
     (if sp x then (if cur = [] then split_spaces sp [] xs else rev cur # split_spaces sp [] xs)
      else split_spaces sp (x # cur) xs)"

definition Fields :: "string \<Rightarrow> string list" where
  "Fields s =
     map (\<lambda>cs. unbytes (concat (map snd cs))) (split_spaces (IsSpace \<circ> fst) [] (chunks (bytes s)))"

lemma split_spaces_nonempty: "f \<in> set (split_spaces sp cur xs) \<Longrightarrow> f \<noteq> []"
  by (induction sp cur xs rule: split_spaces.induct) (auto split: if_splits)

lemma split_spaces_concat:
  "concat (split_spaces sp cur xs) = rev cur @ filter (\<lambda>x. \<not> sp x) xs"
  by (induction sp cur xs rule: split_spaces.induct) auto

lemma split_spaces_none:
  "\<forall>x \<in> set xs. \<not> sp x \<Longrightarrow>
     split_spaces sp cur xs = (if rev cur @ xs = [] then [] else [rev cur @ xs])"
  by (induction sp cur xs rule: split_spaces.induct) auto

lemma Fields_word:
  assumes "ascii s" and "\<forall>c \<in> set s. \<not> IsSpace (of_char c)" and "s \<noteq> []"
  shows "Fields s = [s]"
proof -
  have cs: "chunks (bytes s) = map (\<lambda>b. (b, [b])) (bytes s)"
    using assms(1) by (intro chunks_ascii) (simp add: ascii_def bytes_def)
  have "\<forall>x \<in> set (chunks (bytes s)). \<not> (IsSpace \<circ> fst) x"
    unfolding cs using assms(2) by (auto simp: bytes_def)
  moreover have "chunks (bytes s) \<noteq> []" unfolding cs using assms(3) by (simp add: bytes_def)
  ultimately show ?thesis by (simp add: Fields_def split_spaces_none chunks_concat)
qed

lemma chunk_bytes_nonempty: "c \<in> set (chunks bs) \<Longrightarrow> snd c \<noteq> []"
proof (induction bs rule: chunks.induct)
  case (1 bs)
  show ?case
  proof (cases "bs = []")
    case True
    with "1.prems" show ?thesis by simp
  next
    case False
    then have "take (snd (DecodeRune bs)) bs \<noteq> []"
      using DecodeRune_width [OF False] by simp
    moreover from False "1.prems" have
      "c = (fst (DecodeRune bs), take (snd (DecodeRune bs)) bs) \<or> c \<in> set (chunks (drop (snd (DecodeRune bs)) bs))"
      by (simp add: chunks.simps [of bs])
    ultimately show ?thesis using "1.IH" [OF False] by auto
  qed
qed

lemma Fields_nonempty: "f \<in> set (Fields s) \<Longrightarrow> f \<noteq> []"
proof -
  let ?parts = "split_spaces (IsSpace \<circ> fst) [] (chunks (bytes s))"
  assume "f \<in> set (Fields s)"
  then obtain cs where cs: "cs \<in> set ?parts" and f: "f = unbytes (concat (map snd cs))"
    by (auto simp: Fields_def)
  from cs have "set cs \<subseteq> set (concat ?parts)" by auto
  then have "set cs \<subseteq> set (chunks (bytes s))" by (auto simp: split_spaces_concat)
  moreover have "cs \<noteq> []" using cs by (rule split_spaces_nonempty)
  ultimately show "f \<noteq> []"
    using chunk_bytes_nonempty by (cases cs) (auto simp: f unbytes_def)
qed

end
