(* ===== verification/Identity.thy ===== *)
theory Identity
  imports Messages Utf8 "HOL-Library.Multiset"
begin

text \<open>
  Title matching, \<open>core/internal/identity\<close>: normalization (\<open>normalize.go\<close>), the merge rule
  (\<open>match.go\<close>), the stored proof (\<open>proof.go\<close>) and the choice of a catalogue candidate
  (\<open>select.go\<close>).

  NFKD comes from \<open>golang.org/x/text\<close>, which is not part of the repository, and the classes of
  combining marks and lower-case forms are tables of the Unicode Character Database: the three are
  the record \<^verbatim>\<open>unicode\<close>, a parameter of the options. The theorems hold for every such record.

  The locale \<open>merge_rule\<close> states what the item registry and the enrichment engine rely on:
  the rule is symmetric and never crosses kinds.
\<close>

subsection \<open>Normalization\<close>

record unicode =
  u_nfkd :: "string \<Rightarrow> string"
  u_mn :: "rune \<Rightarrow> bool"
  u_lower :: "rune \<Rightarrow> rune"

record Options =
  op_unicode :: unicode
  op_articles :: "string list option"

definition DefaultArticles :: "string list" where
  "DefaultArticles = [''the'', ''a'', ''an'']"

definition articles :: "Options \<Rightarrow> string list" where
  "articles o' = (case op_articles o' of None \<Rightarrow> DefaultArticles | Some as \<Rightarrow> as)"

definition strip_marks :: "Options \<Rightarrow> string \<Rightarrow> string" where
  "strip_marks o' s = of_runes (filter (\<lambda>r. \<not> u_mn (op_unicode o') r) (runes s))"

definition ToLower :: "Options \<Rightarrow> string \<Rightarrow> string" where
  "ToLower o' s = of_runes (map (u_lower (op_unicode o')) (runes s))"

definition drop_article :: "string list \<Rightarrow> string list \<Rightarrow> string list" where
  "drop_article as fs = (case fs of f # g # rest \<Rightarrow> if f \<in> set as then g # rest else fs | _ \<Rightarrow> fs)"

definition NormalizeTitle :: "Options \<Rightarrow> string \<Rightarrow> string" where
  "NormalizeTitle o' title =
     Join (drop_article (articles o')
        (Fields (ToLower o' (strip_marks o' (u_nfkd (op_unicode o') title))))) '' ''"

definition titleEq :: "Options \<Rightarrow> string \<Rightarrow> string \<Rightarrow> bool" where
  "titleEq o' x y \<longleftrightarrow>
     NormalizeTitle o' x \<noteq> [] \<and> NormalizeTitle o' y \<noteq> [] \<and> NormalizeTitle o' x = NormalizeTitle o' y"

lemma titleEq_sym: "titleEq o' x y \<longleftrightarrow> titleEq o' y x"
  by (auto simp: titleEq_def)

lemma titleEq_trans: "titleEq o' x y \<Longrightarrow> titleEq o' y z \<Longrightarrow> titleEq o' x z"
  by (simp add: titleEq_def)

text \<open>Options whose Unicode tables leave ASCII as it is, and a title of one word under them.\<close>

definition plain_options :: Options where
  "plain_options = \<lparr>op_unicode = \<lparr>u_nfkd = (\<lambda>s. s), u_mn = (\<lambda>_. False), u_lower = (\<lambda>r. r)\<rparr>, op_articles = None\<rparr>"

lemma NormalizeTitle_plain:
  assumes "ascii s" and "\<forall>c \<in> set s. \<not> IsSpace (of_char c)" and "s \<noteq> []"
  shows "NormalizeTitle plain_options s = s"
  using assms
  by (simp add: NormalizeTitle_def plain_options_def strip_marks_def ToLower_def runes_ascii of_runes_ascii
      Fields_word drop_article_def)

subsection \<open>The merge rule\<close>

record Item =
  it_kind :: ItemKind
  it_external_ids :: "ExternalId option list"
  it_metadata :: "TitleMetadata option"
  it_alt_titles :: "string list"

datatype Signal = SignalNone | SignalDirector | SignalCastMember | SignalOriginalLanguage | SignalDuration

record Verdict =
  v_merge :: bool
  v_corroborated :: bool
  v_signal :: Signal

definition no_verdict :: Verdict where
  "no_verdict = \<lparr>v_merge = False, v_corroborated = False, v_signal = SignalNone\<rparr>"

definition sameKind :: "ItemKind \<Rightarrow> ItemKind \<Rightarrow> bool" where
  "sameKind a b \<longleftrightarrow> \<not> (a = IK_UNSPECIFIED \<or> b = IK_UNSPECIFIED) \<and> a = b"

definition corroborationMatch :: "ExternalId option list \<Rightarrow> ExternalId option list \<Rightarrow> bool" where
  "corroborationMatch as bs \<longleftrightarrow>
     (\<exists>x \<in> set as. asserts x \<and>
        (\<exists>y \<in> set bs. y \<noteq> None \<and> GetNamespace y = GetNamespace x \<and> GetValue y = GetValue x))"

definition titlesAgree :: "Options \<Rightarrow> Item \<Rightarrow> Item \<Rightarrow> bool" where
  "titlesAgree o' a b \<longleftrightarrow>
     titleEq o' (GetTitle (it_metadata a)) (GetTitle (it_metadata b))
     \<or> (\<exists>at \<in> set (it_alt_titles a). titleEq o' at (GetTitle (it_metadata b)))
     \<or> (\<exists>bt \<in> set (it_alt_titles b). titleEq o' (GetTitle (it_metadata a)) bt)
     \<or> (\<exists>at \<in> set (it_alt_titles a). \<exists>bt \<in> set (it_alt_titles b). titleEq o' at bt)"

definition yearsMatch :: "32 word \<Rightarrow> 32 word \<Rightarrow> bool" where
  "yearsMatch a b \<longleftrightarrow> a > 0 \<and> b > 0 \<and> a = b"

definition sharesAny :: "string list \<Rightarrow> string list \<Rightarrow> bool" where
  "sharesAny xs ys \<longleftrightarrow> \<not> (xs = [] \<or> ys = []) \<and> (\<exists>y \<in> set ys. y \<in> set xs)"

definition firstSignal :: "TitleMetadata option \<Rightarrow> TitleMetadata option \<Rightarrow> Signal" where
  "firstSignal a b =
     (if sharesAny (get_or [] md_directors a) (get_or [] md_directors b) then SignalDirector
      else if sharesAny (get_or [] md_cast a) (get_or [] md_cast b) then SignalCastMember
      else if get_or [] md_original_language a \<noteq> []
         \<and> get_or [] md_original_language a = get_or [] md_original_language b then SignalOriginalLanguage
      else if runtime_minutes a > 0 \<and> runtime_minutes a = runtime_minutes b then SignalDuration
      else SignalNone)"

definition Decide :: "Options \<Rightarrow> Item \<Rightarrow> Item \<Rightarrow> Verdict" where
  "Decide o' a b =
     (if \<not> sameKind (it_kind a) (it_kind b) then no_verdict
      else if corroborationMatch (it_external_ids a) (it_external_ids b)
      then \<lparr>v_merge = True, v_corroborated = True, v_signal = SignalNone\<rparr>
      else if \<not> titlesAgree o' a b then no_verdict
      else if it_kind a = IK_MOVIE \<and> \<not> yearsMatch (GetYear (it_metadata a)) (GetYear (it_metadata b))
      then no_verdict
      else let signal = firstSignal (it_metadata a) (it_metadata b)
        in if signal = SignalNone then no_verdict
           else \<lparr>v_merge = True, v_corroborated = False, v_signal = signal\<rparr>)"

lemma sameKind_sym: "sameKind a b \<longleftrightarrow> sameKind b a"
  by (auto simp: sameKind_def)

lemma corroborationMatch_iff:
  "corroborationMatch as bs \<longleftrightarrow>
     (\<exists>x \<in> set as. \<exists>y \<in> set bs. asserts x \<and> asserts y \<and> x = y)"
proof -
  have "asserts x \<and> y \<noteq> None \<and> GetNamespace y = GetNamespace x \<and> GetValue y = GetValue x
      \<longleftrightarrow> asserts x \<and> asserts y \<and> x = y" for x y :: "ExternalId option"
    by (cases x; cases y) auto
  then show ?thesis unfolding corroborationMatch_def by blast
qed

lemma corroborationMatch_sym: "corroborationMatch as bs \<longleftrightarrow> corroborationMatch bs as"
  by (auto simp: corroborationMatch_iff)

lemma titlesAgree_sym: "titlesAgree o' a b \<longleftrightarrow> titlesAgree o' b a"
  unfolding titlesAgree_def using titleEq_sym [of o'] by blast

lemma yearsMatch_sym: "yearsMatch a b \<longleftrightarrow> yearsMatch b a"
  by (auto simp: yearsMatch_def)

lemma sharesAny_sym: "sharesAny xs ys \<longleftrightarrow> sharesAny ys xs"
  by (auto simp: sharesAny_def)

lemma firstSignal_sym: "firstSignal a b = firstSignal b a"
  unfolding firstSignal_def
  by (simp only: sharesAny_sym [of "get_or [] md_directors a"] sharesAny_sym [of "get_or [] md_cast a"])
    (auto intro!: if_cong)

lemmas rule_syms = sameKind_sym corroborationMatch_sym titlesAgree_sym yearsMatch_sym firstSignal_sym

lemma Decide_sym: "Decide o' a b = Decide o' b a"
proof (cases "sameKind (it_kind a) (it_kind b)")
  case True
  then have "it_kind a = it_kind b" by (simp add: sameKind_def)
  then show ?thesis
    unfolding Decide_def
    by (simp only: corroborationMatch_sym [of "it_external_ids a"] titlesAgree_sym [of o' a]
        yearsMatch_sym [of "GetYear (it_metadata a)"] firstSignal_sym [of "it_metadata a"])
next
  case False
  then show ?thesis by (simp add: Decide_def sameKind_sym)
qed

lemma Decide_kind: "v_merge (Decide o' a b) \<Longrightarrow> it_kind a = it_kind b \<and> it_kind a \<noteq> IK_UNSPECIFIED"
  by (auto simp: Decide_def no_verdict_def sameKind_def Let_def split: if_splits)

lemma Decide_corroborated:
  "v_corroborated (Decide o' a b) \<longleftrightarrow>
     sameKind (it_kind a) (it_kind b) \<and> corroborationMatch (it_external_ids a) (it_external_ids b)"
  by (simp add: Decide_def no_verdict_def Let_def)

text \<open>What a merge rests on: a shared assertion, or agreeing titles with a signal.\<close>

lemma Decide_merge_iff:
  "v_merge (Decide o' a b) \<longleftrightarrow>
     sameKind (it_kind a) (it_kind b) \<and>
     (corroborationMatch (it_external_ids a) (it_external_ids b)
      \<or> titlesAgree o' a b
        \<and> (it_kind a = IK_MOVIE \<longrightarrow> yearsMatch (GetYear (it_metadata a)) (GetYear (it_metadata b)))
        \<and> firstSignal (it_metadata a) (it_metadata b) \<noteq> SignalNone)"
  by (simp add: Decide_def no_verdict_def Let_def)

locale merge_rule =
  fixes merges :: "'i \<Rightarrow> 'i \<Rightarrow> bool"
    and kind_of :: "'i \<Rightarrow> 'k"
  assumes merges_sym: "merges a b \<longleftrightarrow> merges b a"
    and merges_kind: "merges a b \<Longrightarrow> kind_of a = kind_of b"
begin

text \<open>The first candidate that merges is one of the candidates, of the item's kind.\<close>

lemma find_merges:
  "find (merges a) cs = Some c \<Longrightarrow> c \<in> set cs \<and> merges c a \<and> kind_of c = kind_of a"
  using merges_sym merges_kind by (induction cs) (auto split: if_splits)

lemma find_merges_None: "find (merges a) cs = None \<longleftrightarrow> (\<forall>c \<in> set cs. \<not> merges c a)"
  using merges_sym by (simp add: find_None_iff) blast

lemma other_kind_never_found:
  "\<forall>c \<in> set cs. kind_of c \<noteq> kind_of a \<Longrightarrow> find (merges a) cs = None"
  using merges_kind by (auto simp: find_None_iff)

end

interpretation rule: merge_rule "\<lambda>a b. v_merge (Decide o' a b)" it_kind
  using Decide_sym Decide_kind by unfold_locales auto

subsection \<open>The stored proof\<close>

record Proof =
  pf_kind :: ItemKind
  pf_title :: string
  pf_year :: "32 word"
  pf_external_ids :: "ExternalId option list"

definition ProofOf :: "ItemKind \<Rightarrow> TitleMetadata option \<Rightarrow> ExternalId option list \<Rightarrow> Proof" where
  "ProofOf kind md ids =
     \<lparr>pf_kind = kind, pf_title = GetTitle md, pf_year = GetYear md, pf_external_ids = ids\<rparr>"

definition id_keys :: "ExternalId option list \<Rightarrow> string list" where
  "id_keys ids =
     sort (map (\<lambda>x. GetNamespace x @ CHR 0x00 # GetValue x) (filter asserts ids))"

definition sameIDSet :: "ExternalId option list \<Rightarrow> ExternalId option list \<Rightarrow> bool" where
  "sameIDSet as bs \<longleftrightarrow> id_keys as = id_keys bs"

definition SameProof :: "Options \<Rightarrow> Proof \<Rightarrow> Proof \<Rightarrow> bool" where
  "SameProof o' a b \<longleftrightarrow>
     (if pf_kind a \<noteq> pf_kind b \<or> NormalizeTitle o' (pf_title a) \<noteq> NormalizeTitle o' (pf_title b)
         \<or> pf_year a \<noteq> pf_year b then False
      else sameIDSet (pf_external_ids a) (pf_external_ids b))"

definition Proof_Item :: "Proof \<Rightarrow> Item" where
  "Proof_Item p =
     \<lparr>it_kind = pf_kind p, it_external_ids = pf_external_ids p,
      it_metadata = Some (empty_metadata\<lparr>md_title := pf_title p, md_year := pf_year p\<rparr>),
      it_alt_titles = []\<rparr>"

lemma SameProof_refl [simp]: "SameProof o' p p"
  by (simp add: SameProof_def sameIDSet_def)

lemma SameProof_sym: "SameProof o' p q \<longleftrightarrow> SameProof o' q p"
  by (auto simp: SameProof_def sameIDSet_def)

lemma SameProof_trans: "SameProof o' p q \<Longrightarrow> SameProof o' q r \<Longrightarrow> SameProof o' p r"
  by (simp add: SameProof_def sameIDSet_def split: if_splits)

text \<open>Order is ignored, and so are elements without an assertion; multiplicity is not.\<close>

lemma sameIDSet_mset:
  assumes "mset (filter asserts as) = mset (filter asserts bs)"
  shows "sameIDSet as bs"
proof -
  have "id_keys ids = sorted_list_of_multiset
      (image_mset (\<lambda>x. GetNamespace x @ CHR 0x00 # GetValue x) (mset (filter asserts ids)))" for ids
    unfolding id_keys_def by (simp only: sorted_list_of_multiset_mset [symmetric] mset_map)
  with assms show ?thesis unfolding sameIDSet_def by (simp only:)
qed

lemma sameIDSet_length:
  assumes "sameIDSet as bs"
  shows "length (filter asserts as) = length (filter asserts bs)"
proof -
  from assms have "length (id_keys as) = length (id_keys bs)" by (simp only: sameIDSet_def)
  then show ?thesis by (simp only: id_keys_def length_sort length_map)
qed

subsection \<open>Choosing a catalogue candidate\<close>

definition contradicts :: "ExternalId option list \<Rightarrow> ExternalId option list \<Rightarrow> bool" where
  "contradicts as bs \<longleftrightarrow>
     (\<exists>x \<in> set as. asserts x \<and>
        (\<exists>y \<in> set bs. y \<noteq> None \<and> GetNamespace y = GetNamespace x
           \<and> GetValue y \<noteq> [] \<and> GetValue y \<noteq> GetValue x))"

definition screens :: "Options \<Rightarrow> Item \<Rightarrow> Item \<Rightarrow> bool" where
  "screens o' entry c \<longleftrightarrow>
     (if \<not> sameKind (it_kind entry) (it_kind c) then False
      else if \<not> titlesAgree o' entry c then False
      else if it_kind entry = IK_MOVIE \<and> \<not> yearsMatch (GetYear (it_metadata entry)) (GetYear (it_metadata c))
      then False
      else if contradicts (it_external_ids entry) (it_external_ids c) then False
      else True)"

definition Screen :: "Options \<Rightarrow> Item \<Rightarrow> Item list \<Rightarrow> nat list" where
  "Screen o' entry candidates =
     map fst (filter (\<lambda>(i, c). screens o' entry c) (enumerate 0 candidates))"

definition Select :: "Options \<Rightarrow> Item \<Rightarrow> Item list \<Rightarrow> Verdict list" where
  "Select o' entry candidates = map (Decide o' entry) candidates"

text \<open>
  The two scanning loops of \<open>Adopt\<close>: \<open>scan P found i vs\<close> goes through the verdicts from index
  \<open>i\<close> on; \<^const>\<open>None\<close> is the early return on a second hit, \<open>Some found\<close> the value of the
  variable after the loop (\<open>Some None\<close> for its initial -1).
\<close>

fun scan :: "(Verdict \<Rightarrow> bool) \<Rightarrow> nat option \<Rightarrow> nat \<Rightarrow> Verdict list \<Rightarrow> nat option option" where
  "scan P found i [] = Some found"
| "scan P found i (v # vs) =
     (if P v then (if found \<noteq> None then None else scan P (Some i) (Suc i) vs)
      else scan P found (Suc i) vs)"

definition Adopt :: "Options \<Rightarrow> Item \<Rightarrow> Item list \<Rightarrow> nat option" where
  "Adopt o' entry candidates =
     (let verdicts = Select o' entry candidates
      in case scan v_corroborated None 0 verdicts of
        None \<Rightarrow> None
      | Some (Some i) \<Rightarrow> Some i
      | Some None \<Rightarrow>
          (case scan v_merge None 0 verdicts of
             None \<Rightarrow> None
           | Some survivors \<Rightarrow> survivors))"

lemma Screen_iff:
  "i \<in> set (Screen o' entry cs) \<longleftrightarrow> i < length cs \<and> screens o' entry (cs ! i)"
  by (force simp: Screen_def in_set_enumerate_eq)

text \<open>The hits of a scan are the indices whose verdict satisfies the predicate.\<close>

definition hits :: "(Verdict \<Rightarrow> bool) \<Rightarrow> nat \<Rightarrow> Verdict list \<Rightarrow> nat list" where
  "hits P i vs = map fst (filter (P \<circ> snd) (enumerate i vs))"

lemma hits_simps [simp]:
  "hits P i [] = []"
  "hits P i (v # vs) = (if P v then i # hits P (Suc i) vs else hits P (Suc i) vs)"
  by (simp_all add: hits_def)

lemma scan_hits:
  "scan P found i vs =
     (case (found, hits P i vs) of
        (f, []) \<Rightarrow> Some f
      | (None, [j]) \<Rightarrow> Some (Some j)
      | _ \<Rightarrow> None)"
  by (induction P found i vs rule: scan.induct) (auto split: option.splits list.splits)

lemma hits_single_iff:
  "hits P 0 vs = [i] \<longleftrightarrow> i < length vs \<and> P (vs ! i) \<and> (\<forall>j < length vs. P (vs ! j) \<longrightarrow> j = i)"
proof -
  have sorted: "sorted_wrt (<) (hits P 0 vs)"
  proof -
    have "sorted_wrt (\<lambda>x y. fst x < fst y) (enumerate 0 vs)"
      by (simp add: enumerate_eq_zip sorted_wrt_iff_nth_less)
    then show ?thesis
      by (simp add: hits_def sorted_wrt_map sorted_wrt_filter)
  qed
  have mem: "j \<in> set (hits P 0 vs) \<longleftrightarrow> j < length vs \<and> P (vs ! j)" for j
    by (auto simp: hits_def in_set_enumerate_eq image_iff Bex_def split_paired_Ex)
  show ?thesis
  proof
    assume "hits P 0 vs = [i]"
    with mem show "i < length vs \<and> P (vs ! i) \<and> (\<forall>j < length vs. P (vs ! j) \<longrightarrow> j = i)"
      by (metis empty_iff insert_iff list.set(1) list.set(2))
  next
    assume "i < length vs \<and> P (vs ! i) \<and> (\<forall>j < length vs. P (vs ! j) \<longrightarrow> j = i)"
    with mem have set: "set (hits P 0 vs) = {i}" by blast
    have "length (hits P 0 vs) = card (set (hits P 0 vs))"
      using sorted by (simp add: distinct_card strict_sorted_iff)
    with set have "length (hits P 0 vs) = 1" by simp
    with set show "hits P 0 vs = [i]" by (cases "hits P 0 vs") auto
  qed
qed

lemma hits_none_iff: "hits P i vs = [] \<longleftrightarrow> (\<forall>v \<in> set vs. \<not> P v)"
  by (induction vs arbitrary: i) auto

lemma Adopt_iff_hits:
  "Adopt o' entry cs = Some i \<longleftrightarrow>
     hits v_corroborated 0 (Select o' entry cs) = [i]
     \<or> hits v_corroborated 0 (Select o' entry cs) = [] \<and> hits v_merge 0 (Select o' entry cs) = [i]"
  by (auto simp: Adopt_def Let_def scan_hits split: list.splits)

subsection \<open>Properties\<close>

text \<open>The merge rule does not depend on the order of its arguments, never merges across kinds or
  unspecified kinds, and calls a merge corroborated exactly when both items assert one external id.\<close>
theorem Decide_sound:
  "Decide o' a b = Decide o' b a
   \<and> (v_merge (Decide o' a b) \<longrightarrow> it_kind a = it_kind b \<and> it_kind a \<noteq> IK_UNSPECIFIED)
   \<and> (v_corroborated (Decide o' a b) \<longleftrightarrow> it_kind a = it_kind b \<and> it_kind a \<noteq> IK_UNSPECIFIED
        \<and> (\<exists>x. asserts x \<and> x \<in> set (it_external_ids a) \<and> x \<in> set (it_external_ids b)))
   \<and> (v_merge (Decide o' a b) \<and> \<not> v_corroborated (Decide o' a b) \<longrightarrow> titlesAgree o' a b
        \<and> v_signal (Decide o' a b) \<noteq> SignalNone)"
proof (intro conjI)
  show "Decide o' a b = Decide o' b a" by (rule Decide_sym)
  show "v_merge (Decide o' a b) \<longrightarrow> it_kind a = it_kind b \<and> it_kind a \<noteq> IK_UNSPECIFIED"
    using Decide_kind by blast
  show "v_corroborated (Decide o' a b) \<longleftrightarrow> it_kind a = it_kind b \<and> it_kind a \<noteq> IK_UNSPECIFIED
      \<and> (\<exists>x. asserts x \<and> x \<in> set (it_external_ids a) \<and> x \<in> set (it_external_ids b))"
    unfolding Decide_corroborated corroborationMatch_iff sameKind_def by metis
  show "v_merge (Decide o' a b) \<and> \<not> v_corroborated (Decide o' a b) \<longrightarrow> titlesAgree o' a b
      \<and> v_signal (Decide o' a b) \<noteq> SignalNone"
    by (simp add: Decide_def no_verdict_def Let_def)
qed

theorem Decide_sound_witness:
  "v_merge (Decide plain_options
     \<lparr>it_kind = IK_MOVIE, it_external_ids = [Some \<lparr>eid_namespace = ''imdb'', eid_value = ''1''\<rparr>], it_metadata = None, it_alt_titles = []\<rparr>
     \<lparr>it_kind = IK_SERIES, it_external_ids = [Some \<lparr>eid_namespace = ''imdb'', eid_value = ''1''\<rparr>], it_metadata = None, it_alt_titles = []\<rparr>) = False"
  using Decide_sound [of plain_options "\<lparr>it_kind = IK_MOVIE, it_external_ids = [Some \<lparr>eid_namespace = ''imdb'', eid_value = ''1''\<rparr>], it_metadata = None, it_alt_titles = []\<rparr>"
     "\<lparr>it_kind = IK_SERIES, it_external_ids = [Some \<lparr>eid_namespace = ''imdb'', eid_value = ''1''\<rparr>], it_metadata = None, it_alt_titles = []\<rparr>"]
  by (metis ItemKind.distinct(7) Item.select_convs(1))

text \<open>Adopt picks a candidate exactly when the evidence is unambiguous: it is the only corroborated
  one, or none is corroborated and it is the only one that merges with the entry.\<close>
theorem Adopt_unambiguous:
  "Adopt o' entry cs = Some i \<longleftrightarrow>
     (i < length cs \<and> (\<forall>j < length cs. v_corroborated (Decide o' entry (cs ! j)) \<longleftrightarrow> j = i))
     \<or> ((\<forall>c \<in> set cs. \<not> v_corroborated (Decide o' entry c))
        \<and> i < length cs \<and> (\<forall>j < length cs. v_merge (Decide o' entry (cs ! j)) \<longleftrightarrow> j = i))"
proof -
  have single: "hits P 0 (Select o' entry cs) = [i] \<longleftrightarrow>
      i < length cs \<and> (\<forall>j < length cs. P (Decide o' entry (cs ! j)) \<longleftrightarrow> j = i)" for P
    unfolding hits_single_iff Select_def length_map by (metis nth_map)
  have none: "hits P 0 (Select o' entry cs) = [] \<longleftrightarrow> (\<forall>c \<in> set cs. \<not> P (Decide o' entry c))" for P
    unfolding hits_none_iff Select_def by simp
  show ?thesis unfolding Adopt_iff_hits single none ..
qed

definition bare_item :: "string \<Rightarrow> Item" where
  "bare_item v = \<lparr>it_kind = IK_MOVIE, it_external_ids = [Some \<lparr>eid_namespace = ''imdb'', eid_value = v\<rparr>],
     it_metadata = None, it_alt_titles = []\<rparr>"

theorem Adopt_unambiguous_witness:
  "Adopt plain_options (bare_item ''1'') [bare_item ''2'', bare_item ''1''] = Some 1"
proof -
  have "v_corroborated (Decide plain_options (bare_item ''1'') (bare_item v)) \<longleftrightarrow> v = ''1''" for v
    unfolding Decide_corroborated corroborationMatch_iff by (auto simp: bare_item_def sameKind_def)
  then show ?thesis unfolding Adopt_unambiguous by (auto simp: less_Suc_eq nth_Cons')
qed

end
