(* ===== verification/Strconv.thy ===== *)
theory Strconv
  imports Prelude
begin

text \<open>
  The conversions of Go's \<open>strconv\<close> and \<open>net/url\<close> packages that the code's keys, page tokens and
  limits go through: \<open>Itoa\<close>, \<open>Atoi\<close>, fixed-width hexadecimal, \<open>PathEscape\<close> and
  \<open>PathUnescape\<close>, with their round trips.
\<close>

subsection \<open>Decimal numbers\<close>

definition digit_char :: "nat \<Rightarrow> char" where
  "digit_char d = char_of (48 + d)"

definition char_digit :: "char \<Rightarrow> nat option" where
  "char_digit c = (let n = of_char c :: nat in if 48 \<le> n \<and> n \<le> 57 then Some (n - 48) else None)"

fun nat_digits :: "nat \<Rightarrow> string" where
  "nat_digits n = (if n < 10 then [digit_char n] else nat_digits (n div 10) @ [digit_char (n mod 10)])"

declare nat_digits.simps [simp del]

fun parse_digits :: "nat \<Rightarrow> string \<Rightarrow> nat option" where
  "parse_digits acc [] = Some acc"
| "parse_digits acc (c # cs) =
     (case char_digit c of None \<Rightarrow> None | Some d \<Rightarrow> parse_digits (10 * acc + d) cs)"

definition Itoa :: "int \<Rightarrow> string" where
  "Itoa i = (if i < 0 then CHR ''-'' # nat_digits (nat (- i)) else nat_digits (nat i))"

text \<open>\<open>strconv.Atoi\<close> on a 64-bit platform: an optional sign, at least one digit, in range.\<close>

definition Atoi :: "string \<Rightarrow> int option" where
  "Atoi s =
     (let (neg, ds) =
        (case s of
           [] \<Rightarrow> (False, [])
         | c # cs \<Rightarrow> if c = CHR ''-'' then (True, cs) else if c = CHR ''+'' then (False, cs) else (False, s))
      in if ds = [] then None
         else case parse_digits 0 ds of
           None \<Rightarrow> None
         | Some n \<Rightarrow>
             (if neg then (if int n \<le> 2 ^ 63 then Some (- int n) else None)
              else (if int n < 2 ^ 63 then Some (int n) else None)))"

lemma char_digit_digit_char [simp]: "d < 10 \<Longrightarrow> char_digit (digit_char d) = Some d"
  by (simp add: char_digit_def digit_char_def Let_def)

lemma parse_digits_append:
  "parse_digits acc (xs @ ys) =
     (case parse_digits acc xs of None \<Rightarrow> None | Some a \<Rightarrow> parse_digits a ys)"
  by (induction acc xs rule: parse_digits.induct) (auto split: option.splits)

lemma parse_nat_digits [simp]: "parse_digits 0 (nat_digits n) = Some n"
proof (induction n rule: nat_digits.induct)
  case (1 n)
  show ?case
  proof (cases "n < 10")
    case True
    then show ?thesis by (simp add: nat_digits.simps [of n])
  next
    case False
    with 1 show ?thesis
      by (simp add: nat_digits.simps [of n] parse_digits_append)
  qed
qed

lemma nat_digits_Cons: "\<exists>d ds. d < 10 \<and> nat_digits n = digit_char d # ds"
proof (induction n rule: nat_digits.induct)
  case (1 n)
  show ?case
  proof (cases "n < 10")
    case True
    then show ?thesis by (auto simp: nat_digits.simps [of n])
  next
    case False
    with 1 show ?thesis by (auto simp: nat_digits.simps [of n])
  qed
qed

lemma digit_char_neq:
  assumes "d < 10" and "of_char c < (48::nat) \<or> (57::nat) < of_char c"
  shows "digit_char d \<noteq> c" "c \<noteq> digit_char d"
proof -
  have "of_char (digit_char d) = 48 + d" using assms(1) by (simp add: digit_char_def)
  with assms show "digit_char d \<noteq> c" by auto
  then show "c \<noteq> digit_char d" by simp
qed

lemma digit_char_sign: "d < 10 \<Longrightarrow> digit_char d \<noteq> CHR ''-'' \<and> digit_char d \<noteq> CHR ''+''"
  by (simp add: digit_char_neq)

lemma Atoi_Itoa:
  assumes "- (2 ^ 63) \<le> i" and "i < 2 ^ 63"
  shows "Atoi (Itoa i) = Some i"
proof -
  obtain d ds where d: "d < 10" "nat_digits (nat \<bar>i\<bar>) = digit_char d # ds"
    using nat_digits_Cons by blast
  have p: "parse_digits 0 (digit_char d # ds) = Some (nat \<bar>i\<bar>)"
    using d(2) parse_nat_digits by metis
  show ?thesis
  proof (cases "i < 0")
    case True
    then have "Itoa i = CHR ''-'' # digit_char d # ds" using d(2) by (simp add: Itoa_def)
    with True p assms show ?thesis by (simp add: Atoi_def del: parse_digits.simps)
  next
    case False
    then have "Itoa i = digit_char d # ds" using d(2) by (simp add: Itoa_def)
    with False p assms digit_char_sign [OF d(1)] show ?thesis
      by (simp add: Atoi_def del: parse_digits.simps)
  qed
qed

text \<open>
  The value \<open>strconv.Atoi\<close> returns beside its error: 0 for a string that is no number, the nearest
  bound for a number out of range. The digits are read until the value leaves \<open>uint64\<close>.
\<close>

fun parse_uint :: "nat \<Rightarrow> string \<Rightarrow> nat option" where
  "parse_uint acc [] = Some acc"
| "parse_uint acc (c # cs) =
     (case char_digit c of
        None \<Rightarrow> None
      | Some d \<Rightarrow> if 2 ^ 64 \<le> 10 * acc + d then Some (2 ^ 64 - 1) else parse_uint (10 * acc + d) cs)"

definition Atoi_value :: "string \<Rightarrow> int" where
  "Atoi_value s =
     (let (neg, ds) =
        (case s of
           [] \<Rightarrow> (False, [])
         | c # cs \<Rightarrow> if c = CHR ''-'' then (True, cs) else if c = CHR ''+'' then (False, cs) else (False, s))
      in if ds = [] then 0
         else case parse_uint 0 ds of
           None \<Rightarrow> 0
         | Some n \<Rightarrow>
             (if neg then (if int n \<le> 2 ^ 63 then - int n else - (2 ^ 63))
              else (if int n < 2 ^ 63 then int n else 2 ^ 63 - 1)))"

lemma parse_digits_mono: "parse_digits acc s = Some n \<Longrightarrow> acc \<le> n"
proof (induction acc s rule: parse_digits.induct)
  case (2 acc c cs)
  then show ?case by (force split: option.splits)
qed simp

lemma parse_uint_digits: "parse_digits acc s = Some n \<Longrightarrow> n < 2 ^ 64 \<Longrightarrow> parse_uint acc s = Some n"
proof (induction acc s rule: parse_digits.induct)
  case (2 acc c cs)
  from "2.prems"(1) obtain d where d: "char_digit c = Some d" "parse_digits (10 * acc + d) cs = Some n"
    by (auto split: option.splits)
  have "10 * acc + d < 2 ^ 64" using parse_digits_mono [OF d(2)] "2.prems"(2) by linarith
  moreover have "parse_uint (10 * acc + d) cs = Some n" using "2.IH" [OF d(1) d(2)] "2.prems"(2) .
  ultimately show ?case using d(1) by simp
qed simp

lemma Atoi_value_Some:
  assumes "Atoi s = Some n"
  shows "Atoi_value s = n"
proof -
  obtain neg ds where nd: "(case s of [] \<Rightarrow> (False, [])
      | c # cs \<Rightarrow> if c = CHR ''-'' then (True, cs) else if c = CHR ''+'' then (False, cs) else (False, s))
      = (neg, ds)" by (cases "case s of [] \<Rightarrow> (False, [])
      | c # cs \<Rightarrow> if c = CHR ''-'' then (True, cs) else if c = CHR ''+'' then (False, cs) else (False, s)")
  from assms obtain k where k: "ds \<noteq> []" "parse_digits 0 ds = Some k"
    "if neg then int k \<le> 2 ^ 63 \<and> n = - int k else int k < 2 ^ 63 \<and> n = int k"
    unfolding Atoi_def Let_def nd by (auto split: if_splits option.splits)
  from k(3) have "k < 2 ^ 64" by (cases neg) auto
  then have "parse_uint 0 ds = Some k" using parse_uint_digits [OF k(2)] by blast
  with k nd show ?thesis unfolding Atoi_value_def Let_def by (cases neg) auto
qed

lemma nat_digits_chars: "c \<in> set (nat_digits n) \<Longrightarrow> \<exists>d < 10. c = digit_char d"
proof (induction n rule: nat_digits.induct)
  case (1 n)
  show ?case
  proof (cases "n < 10")
    case True
    with "1.prems" show ?thesis by (auto simp: nat_digits.simps [of n])
  next
    case False
    with "1.prems" have "c \<in> set (nat_digits (n div 10)) \<or> c = digit_char (n mod 10)"
      by (auto simp: nat_digits.simps [of n])
    moreover have "n mod 10 < 10" by simp
    ultimately show ?thesis using "1.IH" [OF False] by blast
  qed
qed

lemma nat_digits_no_slash: "CHR ''/'' \<notin> set (nat_digits n)"
proof
  assume "CHR ''/'' \<in> set (nat_digits n)"
  then obtain d where "d < 10" "CHR ''/'' = digit_char d" using nat_digits_chars by blast
  then show False using digit_char_neq(2) [of d "CHR ''/''"] by simp
qed

lemma Itoa_no_slash: "CHR ''/'' \<notin> set (Itoa i)"
  by (simp add: Itoa_def nat_digits_no_slash)

lemma Itoa_inj:
  assumes "Itoa i = Itoa j"
  shows "i = j"
proof -
  have sign: "Itoa k = CHR ''-'' # s \<longleftrightarrow> k < 0 \<and> s = nat_digits (nat (- k))" for k s
  proof -
    obtain d ds where "d < 10" "nat_digits (nat k) = digit_char d # ds"
      using nat_digits_Cons by blast
    then show ?thesis using digit_char_sign [of d] by (auto simp: Itoa_def)
  qed
  show ?thesis
  proof (cases "i < 0 \<or> j < 0")
    case True
    with assms sign [of i] sign [of j] have "i < 0" "j < 0" "nat_digits (nat (- i)) = nat_digits (nat (- j))"
      by (metis Itoa_def)+
    then show ?thesis using parse_nat_digits by (metis eq_nat_nat_iff neg_0_le_iff_le neg_equal_iff_equal option.inject order_less_imp_le)
  next
    case False
    with assms have "nat_digits (nat i) = nat_digits (nat j)" by (simp add: Itoa_def)
    then have "nat i = nat j" by (metis parse_nat_digits option.inject)
    with False show ?thesis by (simp add: eq_nat_nat_iff)
  qed
qed

subsection \<open>Hexadecimal and path escaping\<close>

definition hex_digit :: "nat \<Rightarrow> char" where
  "hex_digit n = (if n < 10 then char_of (48 + n) else char_of (55 + n))"

definition unhex :: "char \<Rightarrow> nat option" where
  "unhex c =
     (let n = of_char c :: nat
      in if 48 \<le> n \<and> n \<le> 57 then Some (n - 48)
         else if 97 \<le> n \<and> n \<le> 102 then Some (n - 87)
         else if 65 \<le> n \<and> n \<le> 70 then Some (n - 55)
         else None)"

text \<open>\<open>fmt.Sprintf("%016x", n)\<close> of a \<open>uint64\<close>: sixteen lower-case digits.\<close>

definition hex_lower :: "nat \<Rightarrow> char" where
  "hex_lower n = (if n < 10 then char_of (48 + n) else char_of (87 + n))"

fun hex_fixed :: "nat \<Rightarrow> nat \<Rightarrow> string" where
  "hex_fixed 0 n = []"
| "hex_fixed (Suc w) n = hex_fixed w (n div 16) @ [hex_lower (n mod 16)]"

definition Sprintf_016x :: "64 word \<Rightarrow> string" where
  "Sprintf_016x g = hex_fixed 16 (unat g)"

text \<open>\<open>shouldEscape\<close> in the mode of a path segment.\<close>

definition shouldEscape :: "char \<Rightarrow> bool" where
  "shouldEscape c \<longleftrightarrow>
     (let n = of_char c :: nat
      in \<not> (97 \<le> n \<and> n \<le> 122 \<or> 65 \<le> n \<and> n \<le> 90 \<or> 48 \<le> n \<and> n \<le> 57
            \<or> c \<in> set ''-_.~'' \<or> c \<in> set ''$&+:=@''))"

definition escape_byte :: "char \<Rightarrow> string" where
  "escape_byte c =
     (if shouldEscape c
      then [CHR ''%'', hex_digit (of_char c div 16), hex_digit (of_char c mod 16)] else [c])"

definition PathEscape :: "string \<Rightarrow> string" where
  "PathEscape s = concat (map escape_byte s)"

fun PathUnescape :: "string \<Rightarrow> string option" where
  "PathUnescape [] = Some []"
| "PathUnescape (c # cs) =
     (if c = CHR ''%''
      then (case cs of
              h # l # rest \<Rightarrow>
                (case (unhex h, unhex l) of
                   (Some a, Some b) \<Rightarrow> map_option (\<lambda>r. char_of (16 * a + b) # r) (PathUnescape rest)
                 | _ \<Rightarrow> None)
            | _ \<Rightarrow> None)
      else map_option (\<lambda>r. c # r) (PathUnescape cs))"

lemma unhex_hex_digit [simp]: "n < 16 \<Longrightarrow> unhex (hex_digit n) = Some n"
  by (auto simp: unhex_def hex_digit_def Let_def)

lemma of_char_div_mod: "of_char c div 16 < (16 :: nat)" "of_char c mod 16 < (16 :: nat)"
proof -
  have "of_char c < (256 :: nat)" by (rule nat_of_char_less_256)
  then show "of_char c div 16 < (16 :: nat)" by (simp add: less_mult_imp_div_less)
  show "of_char c mod 16 < (16 :: nat)" by simp
qed

lemma unescape_escape_byte:
  "PathUnescape (escape_byte c @ s) = map_option (\<lambda>r. c # r) (PathUnescape s)"
proof (cases "shouldEscape c")
  case True
  then show ?thesis by (simp add: escape_byte_def of_char_div_mod)
next
  case False
  then have "c \<noteq> CHR ''%''" by (auto simp: shouldEscape_def Let_def)
  with False show ?thesis by (simp add: escape_byte_def)
qed

lemma PathUnescape_PathEscape [simp]: "PathUnescape (PathEscape s) = Some s"
  by (induction s) (simp_all add: PathEscape_def unescape_escape_byte)

lemma PathEscape_inj [simp]: "PathEscape s = PathEscape t \<longleftrightarrow> s = t"
  by (metis PathUnescape_PathEscape option.inject)

lemma PathEscape_no_slash: "CHR ''/'' \<notin> set (PathEscape s)"
proof -
  have hex: "CHR ''/'' \<noteq> hex_digit n" if "n < 16" for n
  proof
    assume "CHR ''/'' = hex_digit n"
    then have "of_char (hex_digit n) = (of_char (CHR ''/'') :: nat)" by (simp only:)
    then have "of_char (hex_digit n) = (47 :: nat)" by simp
    with that show False by (auto simp: hex_digit_def split: if_splits)
  qed
  have "CHR ''/'' \<notin> set (escape_byte c)" for c
    using hex [of "of_char c div 16"] hex [of "of_char c mod 16"] of_char_div_mod [of c]
    by (cases "c = CHR ''/''") (auto simp: escape_byte_def shouldEscape_def Let_def)
  then show ?thesis by (auto simp: PathEscape_def)
qed

lemma PathEscape_Nil_iff [simp]: "PathEscape s = [] \<longleftrightarrow> s = []"
  by (cases s) (simp_all add: PathEscape_def escape_byte_def)

lemma hex_lower_inj: "m < 16 \<Longrightarrow> n < 16 \<Longrightarrow> hex_lower m = hex_lower n \<Longrightarrow> m = n"
proof -
  assume "m < 16" "n < 16" "hex_lower m = hex_lower n"
  then have "of_char (hex_lower m) = (of_char (hex_lower n) :: nat)" by simp
  with \<open>m < 16\<close> \<open>n < 16\<close> show "m = n" by (auto simp: hex_lower_def split: if_splits)
qed

lemma hex_fixed_inj:
  "m < 16 ^ w \<Longrightarrow> n < 16 ^ w \<Longrightarrow> hex_fixed w m = hex_fixed w n \<Longrightarrow> m = n"
proof (induction w arbitrary: m n)
  case 0
  then show ?case by simp
next
  case (Suc w)
  then have "m div 16 < 16 ^ w" "n div 16 < 16 ^ w"
    by (simp_all add: less_mult_imp_div_less mult.commute)
  moreover from Suc.prems have "hex_fixed w (m div 16) = hex_fixed w (n div 16)"
    and "hex_lower (m mod 16) = hex_lower (n mod 16)" by simp_all
  ultimately have "m div 16 = n div 16" and "m mod 16 = n mod 16"
    using Suc.IH hex_lower_inj by simp_all
  then show ?case by (metis div_mult_mod_eq)
qed

lemma Sprintf_016x_inj: "Sprintf_016x g = Sprintf_016x h \<Longrightarrow> g = h"
proof -
  have "unat x < 16 ^ 16" for x :: "64 word"
    using unsigned_less [of x, where ?'a = nat] by simp
  moreover assume "Sprintf_016x g = Sprintf_016x h"
  ultimately have "unat g = unat h"
    unfolding Sprintf_016x_def using hex_fixed_inj by blast
  then show "g = h" by (rule unsigned_word_eqI)
qed

subsection \<open>Random identifiers\<close>

text \<open>\<open>hex.EncodeToString\<close>: two lower-case digits per byte.\<close>

definition EncodeToString :: "string \<Rightarrow> string" where
  "EncodeToString bs =
     concat (map (\<lambda>c. [hex_lower (of_char c div 16), hex_lower (of_char c mod 16)]) bs)"

lemma hex_lower_no_slash: "n < 16 \<Longrightarrow> CHR ''/'' \<noteq> hex_lower n"
proof
  assume "n < 16" and "CHR ''/'' = hex_lower n"
  then have "of_char (hex_lower n) = (of_char (CHR ''/'') :: nat)" by (simp only:)
  with \<open>n < 16\<close> show False by (auto simp: hex_lower_def split: if_splits)
qed

lemma EncodeToString_no_slash: "CHR ''/'' \<notin> set (EncodeToString bs)"
  using hex_lower_no_slash of_char_div_mod by (auto simp: EncodeToString_def)

lemma EncodeToString_Nil_iff [simp]: "EncodeToString bs = [] \<longleftrightarrow> bs = []"
  by (cases bs) (simp_all add: EncodeToString_def)

lemma EncodeToString_inj: "EncodeToString as = EncodeToString bs \<Longrightarrow> as = bs"
proof (induction as arbitrary: bs)
  case Nil
  then show ?case by (cases bs) (simp_all add: EncodeToString_def)
next
  case (Cons a as)
  then obtain b bs' where bs: "bs = b # bs'" by (cases bs) (simp_all add: EncodeToString_def)
  with Cons.prems have "hex_lower (of_char a div 16) = hex_lower (of_char b div 16)"
    and "hex_lower (of_char a mod 16) = hex_lower (of_char b mod 16)"
    and "EncodeToString as = EncodeToString bs'"
    by (simp_all add: EncodeToString_def)
  then have "of_char a div 16 = (of_char b div 16 :: nat)" and "of_char a mod 16 = (of_char b mod 16 :: nat)"
    and "as = bs'"
    using hex_lower_inj of_char_div_mod Cons.IH by blast+
  then show ?case unfolding bs by (metis div_mult_mod_eq of_char_eq_iff)
qed

text \<open>\<open>strings.TrimRight\<close> with the cutset of a slash.\<close>

definition TrimRight_slash :: "string \<Rightarrow> string" where
  "TrimRight_slash s = rev (dropWhile (\<lambda>c. c = CHR ''/'') (rev s))"

end
