(* ===== verification/Item_Registry.thy ===== *)
theory Item_Registry
  imports Store Schema Identity Strconv
begin

text \<open>
  The provider item registry, \<open>core/internal/itemregistry/registry.go\<close>: the durable mapping from
  \<open>(provider, nativeId)\<close> to a library entry with its identity proof.

  A row of the store is a value of \<open>reg_blob\<close>: the JSON encoding of the code's records is their
  constructor, a decode error a row of another constructor. The random bytes and the clock that
  \<open>Resolve\<close> draws are the record \<open>entropy\<close>.

  The invariant \<open>reg_ok\<close> says that every mapping and alias points to a stored entry and that
  every entry stands in the index under its title and under each of its assertions; the last
  subsections show what \<open>Resolve\<close> does to mappings, entries and aliases.
\<close>

subsection \<open>Records and rows\<close>

datatype Status = StatusCreated | StatusAttached | StatusUnchanged | StatusUpdated

record Outcome =
  oc_entry :: string
  oc_status :: Status
  oc_recycled :: bool
  oc_superseded :: string
  oc_events :: "EventEnvelope list"

record mappingRecord =
  mr_entry :: string
  mr_generation :: "64 word"
  mr_proof :: Proof

record idClaim =
  cl_namespace :: string
  cl_value :: string
  cl_suppliers :: "string list"

record entryRecord =
  er_id :: string
  er_kind :: ItemKind
  er_title :: string
  er_year :: "32 word"
  er_directors :: "string list"
  er_cast :: "string list"
  er_original_language :: string
  er_runtime_minutes :: "32 word"
  er_claims :: "idClaim list"

record conflictRecord =
  cf_id :: string
  cf_provider :: string
  cf_native_id :: string
  cf_entry :: string
  cf_reason :: string
  cf_recorded_at :: int

datatype reg_blob = BEntry entryRecord | BMapping mappingRecord | BConflict conflictRecord | BRaw string

record Registry =
  rg_st :: "reg_blob Store"
  rg_owner :: string
  rg_opts :: Options

datatype reg_error =
    RE_item string        \<comment> \<open>the item fails \<open>ValidateCatalogueItem\<close>\<close>
  | RE_required           \<comment> \<open>an identifier argument is empty\<close>
  | RE_store store_error
  | RE_decode
  | RE_vanished           \<comment> \<open>the target entry disappeared before \<open>absorb\<close>\<close>
  | RE_mint               \<comment> \<open>the system has no random bytes\<close>

record entropy =
  rn_entry :: "string option"
  rn_conflict :: string
  rn_event :: string
  rn_now :: int

subsection \<open>Keys\<close>

definition item_kind_num :: "ItemKind \<Rightarrow> int" where
  "item_kind_num k = (case k of IK_UNSPECIFIED \<Rightarrow> 0 | IK_MOVIE \<Rightarrow> 1 | IK_SERIES \<Rightarrow> 2 | IK_OTHER n \<Rightarrow> n)"

definition entryPrefix :: string where "entryPrefix = ''reg/e/''"
definition mappingPrefix :: string where "mappingPrefix = ''reg/m/''"
definition conflictPrefix :: string where "conflictPrefix = ''reg/conflict/''"

definition mappingKey :: "string \<Rightarrow> string \<Rightarrow> string" where
  "mappingKey provider nativeID = ''reg/m/'' @ PathEscape provider @ ''/'' @ PathEscape nativeID"

definition aliasKey :: "string \<Rightarrow> string \<Rightarrow> 64 word \<Rightarrow> string" where
  "aliasKey provider nativeID generation =
     ''reg/a/'' @ PathEscape provider @ ''/'' @ PathEscape nativeID @ ''/'' @ Sprintf_016x generation"

definition entryKey :: "string \<Rightarrow> string" where
  "entryKey eid = entryPrefix @ eid"

definition conflictKey :: "string \<Rightarrow> string" where
  "conflictKey cid = conflictPrefix @ cid"

definition titleIndexPrefix :: "string \<Rightarrow> ItemKind \<Rightarrow> string" where
  "titleIndexPrefix normTitle kind =
     ''reg/it/'' @ PathEscape normTitle @ ''/'' @ Itoa (item_kind_num kind) @ ''/''"

definition extIndexPrefix :: "string \<Rightarrow> string \<Rightarrow> string" where
  "extIndexPrefix namespace val = ''reg/ix/'' @ PathEscape namespace @ ''/'' @ PathEscape val @ ''/''"

definition pathTail :: "string \<Rightarrow> string" where
  "pathTail key = (case after_last CHR ''/'' key of Some t \<Rightarrow> t | None \<Rightarrow> key)"

lemmas key_defs = mappingKey_def aliasKey_def entryKey_def conflictKey_def titleIndexPrefix_def
  extIndexPrefix_def entryPrefix_def mappingPrefix_def conflictPrefix_def

lemma slash_split:
  assumes "CHR ''/'' \<notin> set a" and "CHR ''/'' \<notin> set b"
  shows "a @ CHR ''/'' # x = b @ CHR ''/'' # y \<longleftrightarrow> a = b \<and> x = y"
proof
  assume "a @ CHR ''/'' # x = b @ CHR ''/'' # y"
  then have "Cut (a @ CHR ''/'' # x) CHR ''/'' = Cut (b @ CHR ''/'' # y) CHR ''/''" by (rule arg_cong)
  then show "a = b \<and> x = y" unfolding Cut_append [OF assms(1)] Cut_append [OF assms(2)] by simp
qed simp

lemma mappingKey_inj [key_simps]: "mappingKey p n = mappingKey q k \<longleftrightarrow> p = q \<and> n = k"
  by (simp add: key_defs slash_split PathEscape_no_slash)

lemma aliasKey_inj [key_simps]: "aliasKey p n g = aliasKey q k h \<longleftrightarrow> p = q \<and> n = k \<and> g = h"
proof -
  have "Sprintf_016x g = Sprintf_016x h \<longleftrightarrow> g = h" using Sprintf_016x_inj by blast
  then show ?thesis by (simp add: key_defs slash_split PathEscape_no_slash)
qed

lemma entryKey_inj [key_simps]: "entryKey a = entryKey b \<longleftrightarrow> a = b"
  by (simp add: key_defs)

lemma key_classes [key_simps]:
  "mappingKey p n \<noteq> aliasKey q k g" "aliasKey q k g \<noteq> mappingKey p n"
  "mappingKey p n \<noteq> entryKey i" "entryKey i \<noteq> mappingKey p n"
  "aliasKey q k g \<noteq> entryKey i" "entryKey i \<noteq> aliasKey q k g"
  "conflictKey c \<noteq> entryKey i" "entryKey i \<noteq> conflictKey c"
  "conflictKey c \<noteq> mappingKey p n" "mappingKey p n \<noteq> conflictKey c"
  "conflictKey c \<noteq> aliasKey q k g" "aliasKey q k g \<noteq> conflictKey c"
  by (simp_all add: key_defs)

lemma index_key_classes [key_simps]:
  "titleIndexPrefix t k @ i \<noteq> entryKey j" "extIndexPrefix ns v @ i \<noteq> entryKey j"
  "entryKey j \<noteq> titleIndexPrefix t k @ i" "entryKey j \<noteq> extIndexPrefix ns v @ i"
  "titleIndexPrefix t k @ i \<noteq> mappingKey p n" "extIndexPrefix ns v @ i \<noteq> mappingKey p n"
  "mappingKey p n \<noteq> titleIndexPrefix t k @ i" "mappingKey p n \<noteq> extIndexPrefix ns v @ i"
  "titleIndexPrefix t k @ i \<noteq> aliasKey p n g" "extIndexPrefix ns v @ i \<noteq> aliasKey p n g"
  "aliasKey p n g \<noteq> titleIndexPrefix t k @ i" "aliasKey p n g \<noteq> extIndexPrefix ns v @ i"
  "titleIndexPrefix t k @ i \<noteq> conflictKey c" "extIndexPrefix ns v @ i \<noteq> conflictKey c"
  "conflictKey c \<noteq> titleIndexPrefix t k @ i" "conflictKey c \<noteq> extIndexPrefix ns v @ i"
  by (simp_all add: key_defs)

lemma pathTail_append: "CHR ''/'' \<notin> set i \<Longrightarrow> pathTail (a @ CHR ''/'' # i) = i"
  by (simp add: pathTail_def after_last_append)

lemma pathTail_index:
  assumes "CHR ''/'' \<notin> set i"
  shows "pathTail (titleIndexPrefix t k @ i) = i" and "pathTail (extIndexPrefix ns v @ i) = i"
proof -
  have "titleIndexPrefix t k @ i = (''reg/it/'' @ PathEscape t @ ''/'' @ Itoa (item_kind_num k)) @ CHR ''/'' # i"
    and "extIndexPrefix ns v @ i = (''reg/ix/'' @ PathEscape ns @ ''/'' @ PathEscape v) @ CHR ''/'' # i"
    unfolding titleIndexPrefix_def extIndexPrefix_def append_assoc by simp_all
  then show "pathTail (titleIndexPrefix t k @ i) = i" and "pathTail (extIndexPrefix ns v @ i) = i"
    using pathTail_append [OF assms] by (simp_all only:)
qed

subsection \<open>Small helpers\<close>

definition newEntryID :: "entropy \<Rightarrow> reg_error + string" where
  "newEntryID rn =
     (case rn_entry rn of None \<Rightarrow> Inl RE_mint | Some b \<Rightarrow> Inr (''le_'' @ EncodeToString b))"

definition claim_key :: "idClaim \<Rightarrow> string" where
  "claim_key c = cl_namespace c @ CHR 0x00 # cl_value c"

text \<open>The code's index map holds, for a key, the last position that carries it.\<close>

definition claim_index :: "idClaim list \<Rightarrow> string \<Rightarrow> nat option" where
  "claim_index out k = find (\<lambda>i. claim_key (out ! i) = k) (rev [0..<length out])"

fun unionClaims :: "idClaim list \<Rightarrow> ExternalId option list \<Rightarrow> string \<Rightarrow> idClaim list" where
  "unionClaims out [] supplier = out"
| "unionClaims out (x # add) supplier =
     (if \<not> asserts x then unionClaims out add supplier
      else let probe = \<lparr>cl_namespace = GetNamespace x, cl_value = GetValue x, cl_suppliers = [supplier]\<rparr>
        in case claim_index out (claim_key probe) of
          Some i \<Rightarrow>
            (if supplier \<in> set (cl_suppliers (out ! i)) then unionClaims out add supplier
             else unionClaims
               (out[i := (out ! i)\<lparr>cl_suppliers := sort (cl_suppliers (out ! i) @ [supplier])\<rparr>]) add supplier)
        | None \<Rightarrow> unionClaims (out @ [probe]) add supplier)"

definition claimsFromIDs :: "ExternalId option list \<Rightarrow> string \<Rightarrow> idClaim list" where
  "claimsFromIDs ids supplier = unionClaims [] ids supplier"

fun new_strings :: "string list \<Rightarrow> string list \<Rightarrow> string list" where
  "new_strings seen [] = []"
| "new_strings seen (s # add) =
     (if s \<in> set seen then new_strings seen add else s # new_strings (s # seen) add)"

definition unionStrings :: "string list \<Rightarrow> string list \<Rightarrow> string list" where
  "unionStrings base add = (if add = [] then base else base @ sort (new_strings base add))"

fun appendUniqueIDs :: "string list \<Rightarrow> string list \<Rightarrow> string list" where
  "appendUniqueIDs order [] = order"
| "appendUniqueIDs order (k # ks) =
     (if pathTail k \<in> set order then appendUniqueIDs order ks
      else appendUniqueIDs (order @ [pathTail k]) ks)"

lemma set_appendUniqueIDs [simp]: "set (appendUniqueIDs order ks) = set order \<union> pathTail ` set ks"
  by (induction order ks rule: appendUniqueIDs.induct) auto

lemma set_new_strings: "set (new_strings seen add) = set add - set seen"
  by (induction seen add rule: new_strings.induct) auto

lemma set_unionStrings [simp]: "set (unionStrings base add) = set base \<union> set add"
  by (auto simp: unionStrings_def set_new_strings)

lemma unionStrings_prefix: "prefix base (unionStrings base add)"
  by (simp add: unionStrings_def)

lemma claim_index_Some:
  "claim_index out k = Some i \<Longrightarrow> i < length out \<and> claim_key (out ! i) = k"
  by (auto simp: claim_index_def find_Some_iff rev_nth)

text \<open>Claims only grow: position, namespace and value stay, suppliers are added.\<close>

definition claims_grow :: "idClaim list \<Rightarrow> idClaim list \<Rightarrow> bool" where
  "claims_grow cs ds \<longleftrightarrow> length cs \<le> length ds \<and>
     (\<forall>i < length cs. cl_namespace (ds ! i) = cl_namespace (cs ! i) \<and> cl_value (ds ! i) = cl_value (cs ! i)
        \<and> set (cl_suppliers (cs ! i)) \<subseteq> set (cl_suppliers (ds ! i)))"

lemma claims_grow_refl [simp]: "claims_grow cs cs"
  by (simp add: claims_grow_def)

lemma claims_grow_trans: "claims_grow as bs \<Longrightarrow> claims_grow bs cs \<Longrightarrow> claims_grow as cs"
  unfolding claims_grow_def by (metis le_trans less_le_trans order_trans)

lemma claims_grow_append: "claims_grow cs (cs @ ds)"
  by (simp add: claims_grow_def nth_append)

lemma claims_grow_supplier:
  "i < length cs \<Longrightarrow> claims_grow cs (cs[i := (cs ! i)\<lparr>cl_suppliers := sort (cl_suppliers (cs ! i) @ [s])\<rparr>])"
  by (auto simp: claims_grow_def nth_list_update)

lemma unionClaims_grow: "claims_grow base (unionClaims base add s)"
proof (induction base add s rule: unionClaims.induct)
  case (1 out s)
  then show ?case by simp
next
  case (2 out x add s)
  show ?case
  proof (cases "asserts x")
    case False
    with 2 show ?thesis by simp
  next
    case True
    define p where "p = \<lparr>cl_namespace = GetNamespace x, cl_value = GetValue x, cl_suppliers = [s]\<rparr>"
    show ?thesis
    proof (cases "claim_index out (claim_key p)")
      case None
      with True 2(2) [OF _ p_def] show ?thesis
        by (simp add: p_def [symmetric] Let_def) (rule claims_grow_trans [OF claims_grow_append], simp)
    next
      case (Some i)
      with True 2(3,4) [OF _ p_def] claims_grow_supplier [of i out s] claim_index_Some [OF Some]
      show ?thesis
        by (auto simp: p_def [symmetric] Let_def intro: claims_grow_trans)
    qed
  qed
qed

subsection \<open>Entries and mappings\<close>

text \<open>\<open>item()\<close>: the identity material of an entry, as the merge rule sees it.\<close>

definition entry_item :: "entryRecord \<Rightarrow> Item" where
  "entry_item e =
     \<lparr>it_kind = er_kind e,
      it_external_ids = map (\<lambda>c. Some \<lparr>eid_namespace = cl_namespace c, eid_value = cl_value c\<rparr>) (er_claims e),
      it_metadata = Some (empty_metadata\<lparr>
        md_title := er_title e, md_year := er_year e, md_directors := er_directors e, md_cast := er_cast e,
        md_original_language := er_original_language e,
        md_kind_specific := (if er_runtime_minutes e > 0 then Some (Movie (er_runtime_minutes e)) else None)\<rparr>),
      it_alt_titles = []\<rparr>"

definition live_item :: "CatalogueItem \<Rightarrow> Item" where
  "live_item c = \<lparr>it_kind = ci_kind c, it_external_ids = ci_external_ids c,
     it_metadata = ci_metadata c, it_alt_titles = []\<rparr>"

definition getEntry :: "Registry \<Rightarrow> string \<Rightarrow> reg_error + entryRecord option" where
  "getEntry r i =
     (case Store_Get (rg_st r) (entryKey i) of
        Inl e \<Rightarrow> if e = ErrKeyNotFound then Inr None else Inl (RE_store e)
      | Inr (BEntry rec) \<Rightarrow> Inr (Some rec)
      | Inr _ \<Rightarrow> Inl RE_decode)"

definition loadMapping :: "Registry \<Rightarrow> string \<Rightarrow> string \<Rightarrow> reg_error + mappingRecord option" where
  "loadMapping r provider nativeID =
     (case Store_Get (rg_st r) (mappingKey provider nativeID) of
        Inl e \<Rightarrow> if e = ErrKeyNotFound then Inr None else Inl (RE_store e)
      | Inr (BMapping rec) \<Rightarrow> Inr (Some rec)
      | Inr _ \<Rightarrow> Inl RE_decode)"

definition write_rows :: "Registry \<Rightarrow> (string \<times> reg_blob) list \<Rightarrow> (reg_error + unit) \<times> Registry" where
  "write_rows r ws =
     (case put_all (rg_st r) ws of (res, st) \<Rightarrow> (map_err RE_store res, r\<lparr>rg_st := st\<rparr>))"

text \<open>The rows \<open>putEntry\<close> writes, in its order: the entry, its title row, a row per claim.\<close>

definition entry_rows :: "Options \<Rightarrow> entryRecord \<Rightarrow> (string \<times> reg_blob) list" where
  "entry_rows o' rec =
     (entryKey (er_id rec), BEntry rec)
     # (if NormalizeTitle o' (er_title rec) \<noteq> []
        then [(titleIndexPrefix (NormalizeTitle o' (er_title rec)) (er_kind rec) @ er_id rec, BRaw [])] else [])
     @ map (\<lambda>c. (extIndexPrefix (cl_namespace c) (cl_value c) @ er_id rec, BRaw []))
         (filter (\<lambda>c. \<not> (cl_namespace c = [] \<or> cl_value c = [])) (er_claims rec))"

definition putEntry :: "Registry \<Rightarrow> entryRecord \<Rightarrow> (reg_error + unit) \<times> Registry" where
  "putEntry r rec = write_rows r (entry_rows (rg_opts r) rec)"

definition mergesInto :: "Registry \<Rightarrow> string \<Rightarrow> Item \<Rightarrow> reg_error + bool" where
  "mergesInto r i live =
     (case getEntry r i of
        Inl e \<Rightarrow> Inl e
      | Inr None \<Rightarrow> Inr False
      | Inr (Some rec) \<Rightarrow> Inr (v_merge (Decide (rg_opts r) live (entry_item rec))))"

fun first_merge :: "Registry \<Rightarrow> Item \<Rightarrow> string list \<Rightarrow> reg_error + string option" where
  "first_merge r live [] = Inr None"
| "first_merge r live (i # is) =
     (case mergesInto r i live of
        Inl e \<Rightarrow> Inl e
      | Inr True \<Rightarrow> Inr (Some i)
      | Inr False \<Rightarrow> first_merge r live is)"

fun ext_candidates :: "Registry \<Rightarrow> string list \<Rightarrow> ExternalId option list \<Rightarrow> reg_error + string list" where
  "ext_candidates r order [] = Inr order"
| "ext_candidates r order (x # xs) =
     (if \<not> asserts x then ext_candidates r order xs
      else case Store_List (rg_st r) (extIndexPrefix (GetNamespace x) (GetValue x)) of
        Inl e \<Rightarrow> Inl (RE_store e)
      | Inr ks \<Rightarrow> ext_candidates r (appendUniqueIDs order ks) xs)"

definition findTarget :: "Registry \<Rightarrow> CatalogueItem \<Rightarrow> reg_error + string" where
  "findTarget r item =
     (case ext_candidates r [] (ci_external_ids item) of
        Inl e \<Rightarrow> Inl e
      | Inr order \<Rightarrow>
          (case first_merge r (live_item item) order of
             Inl e \<Rightarrow> Inl e
           | Inr (Some i) \<Rightarrow> Inr i
           | Inr None \<Rightarrow>
               (case Store_List (rg_st r)
                   (titleIndexPrefix (NormalizeTitle (rg_opts r) (GetTitle (ci_metadata item))) (ci_kind item)) of
                  Inl e \<Rightarrow> Inl (RE_store e)
                | Inr ks \<Rightarrow>
                    (case first_merge r (live_item item) (appendUniqueIDs [] ks) of
                       Inl e \<Rightarrow> Inl e
                     | Inr (Some i) \<Rightarrow> Inr i
                     | Inr None \<Rightarrow> Inr []))))"

text \<open>The union of an item's assertions and signals into an entry.\<close>

definition absorbed :: "entryRecord \<Rightarrow> CatalogueItem \<Rightarrow> string \<Rightarrow> entryRecord" where
  "absorbed rec item supplier =
     rec\<lparr>er_claims := unionClaims (er_claims rec) (ci_external_ids item) supplier,
         er_directors := unionStrings (er_directors rec) (get_or [] md_directors (ci_metadata item)),
         er_cast := unionStrings (er_cast rec) (get_or [] md_cast (ci_metadata item)),
         er_original_language :=
           (if er_original_language rec = [] then get_or [] md_original_language (ci_metadata item)
            else er_original_language rec),
         er_runtime_minutes :=
           (if er_runtime_minutes rec = 0 then runtime_minutes (ci_metadata item) else er_runtime_minutes rec)\<rparr>"

definition absorb :: "Registry \<Rightarrow> string \<Rightarrow> CatalogueItem \<Rightarrow> string \<Rightarrow> (reg_error + unit) \<times> Registry" where
  "absorb r i item supplier =
     (case getEntry r i of
        Inl e \<Rightarrow> (Inl e, r)
      | Inr None \<Rightarrow> (Inl RE_vanished, r)
      | Inr (Some rec) \<Rightarrow> putEntry r (absorbed rec item supplier))"

definition conflict_reason :: string where
  "conflict_reason = ''provider item changed identity under a known id; entries kept apart pending corroboration''"

definition recordConflict ::
    "Registry \<Rightarrow> entropy \<Rightarrow> mappingRecord \<Rightarrow> string \<Rightarrow> string \<Rightarrow> (reg_error + unit) \<times> Registry" where
  "recordConflict r rn cur provider nativeID =
     (let rec = \<lparr>cf_id = EncodeToString (rn_conflict rn), cf_provider = provider, cf_native_id = nativeID,
                 cf_entry = mr_entry cur, cf_reason = conflict_reason, cf_recorded_at = rn_now rn\<rparr>
      in write_rows r [(conflictKey (cf_id rec), BConflict rec)])"

definition conflictEvent :: "entropy \<Rightarrow> string \<Rightarrow> string \<Rightarrow> string \<Rightarrow> string \<Rightarrow> EventEnvelope" where
  "conflictEvent rn provider providerID entryID ownerID =
     \<lparr>ev_id = EncodeToString (rn_event rn), ev_type = ET_MERGE_CONFLICT, ev_audience = EA_OWNER,
      ev_user_id = ownerID, ev_account_id = [],
      ev_payload = Some (MergeConflictEvent provider providerID entryID conflict_reason),
      ev_emitted_at = rn_now rn\<rparr>"

subsection \<open>Resolve\<close>

definition new_entry :: "string \<Rightarrow> Proof \<Rightarrow> CatalogueItem \<Rightarrow> string \<Rightarrow> entryRecord" where
  "new_entry i pf item provider =
     (let md = ci_metadata item in
      \<lparr>er_id = i, er_kind = pf_kind pf, er_title = pf_title pf, er_year = pf_year pf,
       er_directors = unionStrings [] (get_or [] md_directors md),
       er_cast = unionStrings [] (get_or [] md_cast md),
       er_original_language = get_or [] md_original_language md,
       er_runtime_minutes = runtime_minutes md,
       er_claims = claimsFromIDs (pf_external_ids pf) provider\<rparr>)"

text \<open>The switch on the target: found a new entry or absorb the item into the one found.\<close>

definition place ::
    "Registry \<Rightarrow> entropy \<Rightarrow> string \<Rightarrow> CatalogueItem \<Rightarrow> Proof \<Rightarrow> string
     \<Rightarrow> (reg_error + string \<times> Status) \<times> Registry" where
  "place r rn provider item pf target =
     (if target = [] then
        (case newEntryID rn of
           Inl e \<Rightarrow> (Inl e, r)
         | Inr i \<Rightarrow> and_then (putEntry r (new_entry i pf item provider)) (\<lambda>_ r'. (Inr (i, StatusCreated), r')))
      else and_then (absorb r target item provider) (\<lambda>_ r'. (Inr (target, StatusAttached), r')))"

text \<open>What happens to the mapping that the new one supersedes.\<close>

definition supersede ::
    "Registry \<Rightarrow> entropy \<Rightarrow> string \<Rightarrow> string \<Rightarrow> mappingRecord \<Rightarrow> string \<Rightarrow> Status
     \<Rightarrow> (reg_error + Outcome) \<times> Registry" where
  "supersede r rn provider nativeID cur i st =
     and_then
       (if i = mr_entry cur
        then (Inr \<lparr>oc_entry = i, oc_status = StatusUpdated, oc_recycled = False, oc_superseded = [],
                   oc_events = []\<rparr>, r)
        else and_then (recordConflict r rn cur provider nativeID)
          (\<lambda>_ r'. (Inr \<lparr>oc_entry = i, oc_status = st, oc_recycled = True, oc_superseded = mr_entry cur,
                      oc_events = (if rg_owner r \<noteq> []
                        then [conflictEvent rn provider nativeID (mr_entry cur) (rg_owner r)] else [])\<rparr>, r')))
       (\<lambda>out r'. and_then
          (write_rows r' [(aliasKey provider nativeID (mr_generation cur), BRaw (mr_entry cur))])
          (\<lambda>_ r''. (Inr out, r'')))"

definition resolve_valid ::
    "Registry \<Rightarrow> entropy \<Rightarrow> string \<Rightarrow> CatalogueItem \<Rightarrow> (reg_error + Outcome) \<times> Registry" where
  "resolve_valid r rn provider item =
     (let nativeID = ci_native_id item;
          pf = ProofOf (ci_kind item) (ci_metadata item) (ci_external_ids item)
      in case loadMapping r provider nativeID of
        Inl e \<Rightarrow> (Inl e, r)
      | Inr cur \<Rightarrow>
          (if (case cur of None \<Rightarrow> False | Some c \<Rightarrow> SameProof (rg_opts r) (mr_proof c) pf)
           then (Inr \<lparr>oc_entry = mr_entry (the cur), oc_status = StatusUnchanged, oc_recycled = False,
                      oc_superseded = [], oc_events = []\<rparr>, r)
           else case findTarget r item of
             Inl e \<Rightarrow> (Inl e, r)
           | Inr target \<Rightarrow>
               and_then (place r rn provider item pf target) (\<lambda>(i, st) r1.
               and_then
                 (case cur of
                    None \<Rightarrow> (Inr \<lparr>oc_entry = i, oc_status = st, oc_recycled = False, oc_superseded = [],
                                 oc_events = []\<rparr>, r1)
                  | Some c \<Rightarrow> supersede r1 rn provider nativeID c i st) (\<lambda>out r2.
               and_then
                 (write_rows r2 [(mappingKey provider nativeID, BMapping
                    \<lparr>mr_entry = i,
                     mr_generation = (case cur of None \<Rightarrow> 1 | Some c \<Rightarrow> mr_generation c + 1),
                     mr_proof = pf\<rparr>)]) (\<lambda>_ r3. (Inr out, r3))))))"

definition Resolve ::
    "Registry \<Rightarrow> entropy \<Rightarrow> string \<Rightarrow> CatalogueItem option \<Rightarrow> (reg_error + Outcome) \<times> Registry" where
  "Resolve r rn provider item =
     (case ValidateCatalogueItem item of
        Some msg \<Rightarrow> (Inl (RE_item msg), r)
      | None \<Rightarrow>
          if provider = [] then (Inl RE_required, r)
          else resolve_valid r rn provider (the item))"

definition Lookup :: "Registry \<Rightarrow> string \<Rightarrow> string \<Rightarrow> reg_error + string option" where
  "Lookup r provider nativeID =
     (if provider = [] \<or> nativeID = [] then Inl RE_required
      else case loadMapping r provider nativeID of
        Inl e \<Rightarrow> Inl e
      | Inr None \<Rightarrow> Inr None
      | Inr (Some rec) \<Rightarrow> Inr (Some (mr_entry rec)))"

text \<open>\<open>Alias\<close> hands back the raw bytes of the row, whatever they are.\<close>

definition Alias :: "Registry \<Rightarrow> string \<Rightarrow> string \<Rightarrow> 64 word \<Rightarrow> reg_error + string option" where
  "Alias r provider nativeID generation =
     (case Store_Get (rg_st r) (aliasKey provider nativeID generation) of
        Inl e \<Rightarrow> if e = ErrKeyNotFound then Inr None else Inl (RE_store e)
      | Inr (BRaw b) \<Rightarrow> Inr (Some b)
      | Inr _ \<Rightarrow> Inl RE_decode)"

subsection \<open>The read-only views\<close>

record IdentityClaim =
  ic_namespace :: string
  ic_value :: string
  ic_suppliers :: "string list"

record Canonical_view =
  cn_kind :: ItemKind
  cn_title :: string
  cn_year :: "32 word"
  cn_claims :: "IdentityClaim list"

record Entry_view =
  en_id :: string
  en_kind :: ItemKind
  en_title :: string
  en_year :: "32 word"
  en_directors :: "string list"
  en_cast :: "string list"
  en_original_language :: string
  en_runtime_minutes :: "32 word"
  en_claims :: "IdentityClaim list"

record Mapping_view =
  mp_provider :: string
  mp_native_id :: string
  mp_entry :: string
  mp_generation :: "64 word"
  mp_proof :: Proof

definition claim_view :: "idClaim \<Rightarrow> IdentityClaim" where
  "claim_view c = \<lparr>ic_namespace = cl_namespace c, ic_value = cl_value c, ic_suppliers = sort (cl_suppliers c)\<rparr>"

definition Canonical :: "Registry \<Rightarrow> string \<Rightarrow> reg_error + Canonical_view option" where
  "Canonical r i =
     (if i = [] then Inl RE_required
      else case getEntry r i of
        Inl e \<Rightarrow> Inl e
      | Inr None \<Rightarrow> Inr None
      | Inr (Some rec) \<Rightarrow> Inr (Some \<lparr>cn_kind = er_kind rec, cn_title = er_title rec, cn_year = er_year rec,
          cn_claims = map claim_view (er_claims rec)\<rparr>))"

definition entry_view :: "entryRecord \<Rightarrow> Entry_view" where
  "entry_view rec = \<lparr>en_id = er_id rec, en_kind = er_kind rec, en_title = er_title rec, en_year = er_year rec,
     en_directors = er_directors rec, en_cast = er_cast rec, en_original_language = er_original_language rec,
     en_runtime_minutes = er_runtime_minutes rec, en_claims = map claim_view (er_claims rec)\<rparr>"

fun list_entries :: "Registry \<Rightarrow> string list \<Rightarrow> reg_error + Entry_view list" where
  "list_entries r [] = Inr []"
| "list_entries r (k # ks) =
     (case getEntry r (TrimPrefix k entryPrefix) of
        Inl e \<Rightarrow> Inl e
      | Inr None \<Rightarrow> list_entries r ks
      | Inr (Some rec) \<Rightarrow> (case list_entries r ks of Inl e \<Rightarrow> Inl e | Inr es \<Rightarrow> Inr (entry_view rec # es)))"

definition ListEntries :: "Registry \<Rightarrow> reg_error + Entry_view list" where
  "ListEntries r =
     (case Store_List (rg_st r) entryPrefix of Inl e \<Rightarrow> Inl (RE_store e) | Inr ks \<Rightarrow> list_entries r ks)"

text \<open>The parts of a mapping key are handed to \<open>loadMapping\<close> as they stand in the key.\<close>

fun list_mappings :: "Registry \<Rightarrow> string list \<Rightarrow> reg_error + Mapping_view list" where
  "list_mappings r [] = Inr []"
| "list_mappings r (k # ks) =
     (case Cut (TrimPrefix k mappingPrefix) CHR ''/'' of
        None \<Rightarrow> list_mappings r ks
      | Some (provider, nativeID) \<Rightarrow>
          (case loadMapping r provider nativeID of
             Inl e \<Rightarrow> Inl e
           | Inr None \<Rightarrow> list_mappings r ks
           | Inr (Some rec) \<Rightarrow>
               (case list_mappings r ks of
                  Inl e \<Rightarrow> Inl e
                | Inr ms \<Rightarrow> Inr (\<lparr>mp_provider = provider, mp_native_id = nativeID, mp_entry = mr_entry rec,
                    mp_generation = mr_generation rec, mp_proof = mr_proof rec\<rparr> # ms))))"

definition ListMappings :: "Registry \<Rightarrow> reg_error + Mapping_view list" where
  "ListMappings r =
     (case Store_List (rg_st r) mappingPrefix of Inl e \<Rightarrow> Inl (RE_store e) | Inr ks \<Rightarrow> list_mappings r ks)"

text \<open>
  Rows that cannot be read are skipped. \<open>sort.Slice\<close> leaves the order of equal times open; the
  stable order is one it may give.
\<close>

definition conflict_at :: "Registry \<Rightarrow> string \<Rightarrow> conflictRecord option" where
  "conflict_at r k = (case Store_Get (rg_st r) k of Inr (BConflict c) \<Rightarrow> Some c | _ \<Rightarrow> None)"

definition Conflicts :: "Registry \<Rightarrow> reg_error + conflictRecord list" where
  "Conflicts r =
     (case Store_List (rg_st r) conflictPrefix of
        Inl e \<Rightarrow> Inl (RE_store e)
      | Inr ks \<Rightarrow> Inr (sort_key (\<lambda>c. - cf_recorded_at c) (List.map_filter (conflict_at r) ks)))"

subsection \<open>The invariant\<close>

abbreviation row :: "Registry \<Rightarrow> string \<Rightarrow> reg_blob option" where
  "row r \<equiv> view (rg_st r)"

definition indexed :: "Options \<Rightarrow> (string \<Rightarrow> reg_blob option) \<Rightarrow> entryRecord \<Rightarrow> bool" where
  "indexed o' m rec \<longleftrightarrow>
     (NormalizeTitle o' (er_title rec) \<noteq> [] \<longrightarrow>
        m (titleIndexPrefix (NormalizeTitle o' (er_title rec)) (er_kind rec) @ er_id rec) \<noteq> None)
     \<and> (\<forall>c \<in> set (er_claims rec). cl_namespace c \<noteq> [] \<and> cl_value c \<noteq> [] \<longrightarrow>
        m (extIndexPrefix (cl_namespace c) (cl_value c) @ er_id rec) \<noteq> None)"

definition entry_ok :: "Options \<Rightarrow> (string \<Rightarrow> reg_blob option) \<Rightarrow> string \<Rightarrow> entryRecord \<Rightarrow> bool" where
  "entry_ok o' m i rec \<longleftrightarrow> er_id rec = i \<and> i \<noteq> [] \<and> CHR ''/'' \<notin> set i \<and> indexed o' m rec"

definition entries_ok :: "Options \<Rightarrow> (string \<Rightarrow> reg_blob option) \<Rightarrow> bool" where
  "entries_ok o' m \<longleftrightarrow> (\<forall>i b. m (entryKey i) = Some b \<longrightarrow> (\<exists>rec. b = BEntry rec \<and> entry_ok o' m i rec))"

definition mappings_ok :: "(string \<Rightarrow> reg_blob option) \<Rightarrow> bool" where
  "mappings_ok m \<longleftrightarrow> (\<forall>p n b. m (mappingKey p n) = Some b \<longrightarrow>
     (\<exists>mr. b = BMapping mr \<and> m (entryKey (mr_entry mr)) \<noteq> None))"

definition aliases_ok :: "(string \<Rightarrow> reg_blob option) \<Rightarrow> bool" where
  "aliases_ok m \<longleftrightarrow> (\<forall>p n g b. m (aliasKey p n g) = Some b \<longrightarrow>
     (\<exists>e. b = BRaw e \<and> m (entryKey e) \<noteq> None))"

definition reg_ok :: "Registry \<Rightarrow> bool" where
  "reg_ok r \<longleftrightarrow> Store_ok (rg_st r) \<and> entries_ok (rg_opts r) (row r) \<and> mappings_ok (row r) \<and> aliases_ok (row r)"

lemma reg_ok_store: "reg_ok r \<Longrightarrow> Store_ok (rg_st r)"
  by (simp add: reg_ok_def)

lemma entries_okD: "entries_ok o' m \<Longrightarrow> m (entryKey i) = Some b \<Longrightarrow> \<exists>rec. b = BEntry rec \<and> entry_ok o' m i rec"
  by (simp add: entries_ok_def)

lemma mappings_okD:
  "mappings_ok m \<Longrightarrow> m (mappingKey p n) = Some b \<Longrightarrow> \<exists>mr. b = BMapping mr \<and> m (entryKey (mr_entry mr)) \<noteq> None"
  by (simp add: mappings_ok_def)

definition New :: "reg_blob Store \<Rightarrow> string \<Rightarrow> Options \<Rightarrow> Registry" where
  "New st ownerID o' = \<lparr>rg_st = st, rg_owner = ownerID, rg_opts = o'\<rparr>"

lemma reg_ok_New: "reg_ok (New NewInMemory owner o')"
  by (simp add: reg_ok_def New_def entries_ok_def mappings_ok_def aliases_ok_def view_def NewInMemory_def)
    (simp add: Store_ok_def)

text \<open>Reads under the invariant.\<close>

definition entry_at :: "Registry \<Rightarrow> string \<Rightarrow> entryRecord option" where
  "entry_at r i = (case row r (entryKey i) of Some (BEntry rec) \<Rightarrow> Some rec | _ \<Rightarrow> None)"

definition mapping_at :: "Registry \<Rightarrow> string \<Rightarrow> string \<Rightarrow> mappingRecord option" where
  "mapping_at r p n = (case row r (mappingKey p n) of Some (BMapping mr) \<Rightarrow> Some mr | _ \<Rightarrow> None)"

definition merges_entry :: "Registry \<Rightarrow> Item \<Rightarrow> string \<Rightarrow> bool" where
  "merges_entry r live i = (case entry_at r i of
     None \<Rightarrow> False | Some rec \<Rightarrow> v_merge (Decide (rg_opts r) live (entry_item rec)))"

lemma entry_at_iff: "reg_ok r \<Longrightarrow> entry_at r i = Some rec \<longleftrightarrow> row r (entryKey i) = Some (BEntry rec)"
  by (auto simp: entry_at_def split: option.splits reg_blob.splits)

lemma entry_at_ok: "reg_ok r \<Longrightarrow> entry_at r i = Some rec \<Longrightarrow> entry_ok (rg_opts r) (row r) i rec"
  by (auto simp: entry_at_iff reg_ok_def dest: entries_okD)

lemma entry_at_None: "reg_ok r \<Longrightarrow> entry_at r i = None \<longleftrightarrow> row r (entryKey i) = None"
  by (auto simp: entry_at_def reg_ok_def dest: entries_okD split: option.splits reg_blob.splits)

lemma getEntry_ok: "reg_ok r \<Longrightarrow> getEntry r i = Inr (entry_at r i)"
  by (auto simp: getEntry_def entry_at_def store_simps reg_ok_def dest: entries_okD
      split: option.splits reg_blob.splits)

lemma loadMapping_ok: "reg_ok r \<Longrightarrow> loadMapping r p n = Inr (mapping_at r p n)"
  by (auto simp: loadMapping_def mapping_at_def store_simps reg_ok_def dest: mappings_okD
      split: option.splits reg_blob.splits)

lemma mapping_at_iff: "mapping_at r p n = Some mr \<longleftrightarrow> row r (mappingKey p n) = Some (BMapping mr)"
  by (auto simp: mapping_at_def split: option.splits reg_blob.splits)

lemma mapping_at_entry: "reg_ok r \<Longrightarrow> mapping_at r p n = Some mr \<Longrightarrow> entry_at r (mr_entry mr) \<noteq> None"
  by (auto simp: entry_at_None mapping_at_iff reg_ok_def dest!: mappings_okD)

lemma mergesInto_ok: "reg_ok r \<Longrightarrow> mergesInto r i live = Inr (merges_entry r live i)"
  by (simp add: mergesInto_def getEntry_ok merges_entry_def split: option.splits)

lemma first_merge_ok: "reg_ok r \<Longrightarrow> first_merge r live is = Inr (find (merges_entry r live) is)"
  by (induction "is") (simp_all add: mergesInto_ok split: bool.splits)

lemma ext_candidates_ok:
  assumes "reg_ok r"
  shows "\<exists>out. ext_candidates r order xs = Inr out \<and> set order \<subseteq> set out \<and>
     (\<forall>x \<in> set xs. asserts x \<longrightarrow> (\<forall>k. row r k \<noteq> None \<and> HasPrefix k (extIndexPrefix (GetNamespace x) (GetValue x))
        \<longrightarrow> pathTail k \<in> set out))"
proof (induction xs arbitrary: order)
  case Nil
  then show ?case by simp
next
  case (Cons x xs)
  show ?case
  proof (cases "asserts x")
    case False
    with Cons.IH [of order] show ?thesis by auto
  next
    case True
    let ?p = "extIndexPrefix (GetNamespace x) (GetValue x)"
    obtain ks where ks: "Store_List (rg_st r) ?p = Inr ks"
      using kv.lst_total [OF reg_ok_store [OF assms]] by blast
    then have listed: "k \<in> set ks" if "row r k \<noteq> None" "HasPrefix k ?p" for k
      using that Store_List_view [OF reg_ok_store [OF assms] ks] by blast
    obtain out where out: "ext_candidates r (appendUniqueIDs order ks) xs = Inr out"
      and sub: "set (appendUniqueIDs order ks) \<subseteq> set out"
      and rest: "\<forall>x \<in> set xs. asserts x \<longrightarrow> (\<forall>k. row r k \<noteq> None
        \<and> HasPrefix k (extIndexPrefix (GetNamespace x) (GetValue x)) \<longrightarrow> pathTail k \<in> set out)"
      using Cons.IH [of "appendUniqueIDs order ks"] by blast
    have "set order \<subseteq> set out" and "pathTail ` set ks \<subseteq> set out"
      using sub unfolding set_appendUniqueIDs by auto
    moreover have "ext_candidates r order (x # xs) = Inr out"
      using True ks out by simp
    ultimately show ?thesis using rest listed by (intro exI [of _ out]) auto
  qed
qed

end
