(* ===== verification/Item_Resolution.thy ===== *)
theory Item_Resolution
  imports Item_Registry
begin

text \<open>
  What \<open>Resolve\<close> of the item registry does, under the invariant \<open>reg_ok\<close>.

  The index search is complete for the merge rule: \<open>findTarget\<close> answers with no entry exactly
  when no stored entry merges with the item. A \<open>Resolve\<close> that does identity work is the write of
  one list of rows, \<open>resolve_rows\<close>; the facts about mappings, entries and aliases follow from it.
\<close>

subsection \<open>The search\<close>

lemma asserting_claim:
  assumes "x \<in> set (it_external_ids (entry_item rec))" and "asserts x"
  shows "\<exists>c \<in> set (er_claims rec). cl_namespace c = GetNamespace x \<and> cl_value c = GetValue x
     \<and> cl_namespace c \<noteq> [] \<and> cl_value c \<noteq> []"
  using assms by (auto simp: entry_item_def)

lemma find_Inr: "find P xs = Some x \<Longrightarrow> P x \<and> x \<in> set xs"
  by (induction xs) (auto split: if_splits)

lemma corroborated_listed:
  assumes ok: "reg_ok r" and e: "entry_at r i = Some rec"
    and match: "corroborationMatch ids (it_external_ids (entry_item rec))"
    and out: "\<forall>x \<in> set ids. asserts x \<longrightarrow> (\<forall>k. row r k \<noteq> None
        \<and> HasPrefix k (extIndexPrefix (GetNamespace x) (GetValue x)) \<longrightarrow> pathTail k \<in> set out)"
  shows "i \<in> set out"
proof -
  from match obtain x where x: "x \<in> set ids" "asserts x" and "x \<in> set (it_external_ids (entry_item rec))"
    unfolding corroborationMatch_iff by blast
  then obtain c where c: "c \<in> set (er_claims rec)" "cl_namespace c = GetNamespace x" "cl_value c = GetValue x"
      "cl_namespace c \<noteq> []" "cl_value c \<noteq> []"
    using asserting_claim by blast
  have rec: "er_id rec = i" "CHR ''/'' \<notin> set i" "indexed (rg_opts r) (row r) rec"
    using entry_at_ok [OF ok e] by (simp_all add: entry_ok_def)
  with c have "row r (extIndexPrefix (GetNamespace x) (GetValue x) @ i) \<noteq> None"
    unfolding indexed_def by metis
  with out x have "pathTail (extIndexPrefix (GetNamespace x) (GetValue x) @ i) \<in> set out" by simp
  with rec show ?thesis by (simp add: pathTail_index)
qed

lemma titled_listed:
  assumes ok: "reg_ok r" and e: "entry_at r i = Some rec" and kind: "er_kind rec = ci_kind item"
    and eq: "titleEq (rg_opts r) (GetTitle (ci_metadata item)) (er_title rec)"
    and ks: "Store_List (rg_st r) (titleIndexPrefix
      (NormalizeTitle (rg_opts r) (GetTitle (ci_metadata item))) (ci_kind item)) = Inr ks"
  shows "i \<in> set (appendUniqueIDs [] ks)"
proof -
  let ?n = "NormalizeTitle (rg_opts r) (GetTitle (ci_metadata item))"
  have rec: "er_id rec = i" "CHR ''/'' \<notin> set i" "indexed (rg_opts r) (row r) rec"
    using entry_at_ok [OF ok e] by (simp_all add: entry_ok_def)
  from eq have "NormalizeTitle (rg_opts r) (er_title rec) = ?n" "?n \<noteq> []"
    by (simp_all add: titleEq_def)
  with rec(1,3) kind have "row r (titleIndexPrefix ?n (ci_kind item) @ i) \<noteq> None"
    unfolding indexed_def by metis
  then have "titleIndexPrefix ?n (ci_kind item) @ i \<in> set ks"
    using Store_List_view [OF reg_ok_store [OF ok] ks] by fastforce
  then have "pathTail (titleIndexPrefix ?n (ci_kind item) @ i) \<in> pathTail ` set ks" by (rule imageI)
  with rec(2) show ?thesis by (simp add: pathTail_index)
qed

lemma merges_live_iff:
  "v_merge (Decide o' (live_item item) (entry_item rec)) \<Longrightarrow>
     er_kind rec = ci_kind item \<and>
     (corroborationMatch (ci_external_ids item) (it_external_ids (entry_item rec))
      \<or> titleEq o' (GetTitle (ci_metadata item)) (er_title rec))"
  by (auto simp: Decide_merge_iff live_item_def entry_item_def sameKind_def titlesAgree_def)

theorem findTarget_spec:
  assumes ok: "reg_ok r"
  shows "\<exists>t. findTarget r item = Inr t \<and>
     (if t = [] then \<forall>i. \<not> merges_entry r (live_item item) i else merges_entry r (live_item item) t)"
proof -
  let ?live = "live_item item"
  have nonempty: "i \<noteq> []" if "merges_entry r ?live i" for i
    using that entry_at_ok [OF ok] by (auto simp: merges_entry_def entry_ok_def split: option.splits)
  obtain out where out: "ext_candidates r [] (ci_external_ids item) = Inr out"
    and ext: "\<forall>x \<in> set (ci_external_ids item). asserts x \<longrightarrow> (\<forall>k. row r k \<noteq> None
        \<and> HasPrefix k (extIndexPrefix (GetNamespace x) (GetValue x)) \<longrightarrow> pathTail k \<in> set out)"
    using ext_candidates_ok [OF ok, of "[]" "ci_external_ids item"] by blast
  obtain ks where ks: "Store_List (rg_st r) (titleIndexPrefix
      (NormalizeTitle (rg_opts r) (GetTitle (ci_metadata item))) (ci_kind item)) = Inr ks"
    using kv.lst_total [OF reg_ok_store [OF ok]] by blast
  show ?thesis
  proof (cases "find (merges_entry r ?live) out")
    case (Some i)
    then have "merges_entry r ?live i" by (simp add: find_Inr)
    moreover have "findTarget r item = Inr i"
      using Some by (simp add: findTarget_def out first_merge_ok [OF ok])
    ultimately show ?thesis using nonempty by auto
  next
    case no_ext: None
    show ?thesis
    proof (cases "find (merges_entry r ?live) (appendUniqueIDs [] ks)")
      case (Some i)
      then have "merges_entry r ?live i" by (simp add: find_Inr)
      moreover have "findTarget r item = Inr i"
        using no_ext Some by (simp add: findTarget_def out ks first_merge_ok [OF ok])
      ultimately show ?thesis using nonempty by auto
    next
      case None
      have "\<not> merges_entry r ?live i" for i
      proof
        assume m: "merges_entry r ?live i"
        then obtain rec where rec: "entry_at r i = Some rec"
          and dec: "v_merge (Decide (rg_opts r) ?live (entry_item rec))"
          by (auto simp: merges_entry_def split: option.splits)
        have "i \<in> set out \<or> i \<in> set (appendUniqueIDs [] ks)"
          using merges_live_iff [OF dec] corroborated_listed [OF ok rec _ ext] titled_listed [OF ok rec _ _ ks]
          by blast
        with m no_ext None show False by (auto simp only: find_None_iff)
      qed
      moreover have "findTarget r item = Inr []"
        using no_ext None by (simp add: findTarget_def out ks first_merge_ok [OF ok])
      ultimately show ?thesis by auto
    qed
  qed
qed

subsection \<open>Resolve as one write\<close>

lemma write_rows_ok:
  assumes "Store_ok (rg_st r)"
  shows "\<exists>r'. write_rows r ws = (Inr (), r') \<and> Store_ok (rg_st r')
     \<and> row r' = row r ++ map_of (rev ws) \<and> rg_opts r' = rg_opts r \<and> rg_owner r' = rg_owner r"
  using put_all_ok [OF assms, of ws] by (cases "put_all (rg_st r) ws") (simp add: write_rows_def)

definition needs_identity :: "Registry \<Rightarrow> string \<Rightarrow> CatalogueItem \<Rightarrow> bool" where
  "needs_identity r provider item \<longleftrightarrow>
     (case mapping_at r provider (ci_native_id item) of
        None \<Rightarrow> True
      | Some c \<Rightarrow> \<not> SameProof (rg_opts r) (mr_proof c)
          (ProofOf (ci_kind item) (ci_metadata item) (ci_external_ids item)))"

definition side_rows :: "entropy \<Rightarrow> string \<Rightarrow> string \<Rightarrow> mappingRecord option \<Rightarrow> string \<Rightarrow> (string \<times> reg_blob) list" where
  "side_rows rn p n cur i =
     (case cur of
        None \<Rightarrow> []
      | Some c \<Rightarrow>
          (if i = mr_entry c then []
           else [(conflictKey (EncodeToString (rn_conflict rn)), BConflict
             \<lparr>cf_id = EncodeToString (rn_conflict rn), cf_provider = p, cf_native_id = n,
              cf_entry = mr_entry c, cf_reason = conflict_reason, cf_recorded_at = rn_now rn\<rparr>)])
          @ [(aliasKey p n (mr_generation c), BRaw (mr_entry c))])"

definition resolve_rows ::
    "Options \<Rightarrow> entropy \<Rightarrow> string \<Rightarrow> CatalogueItem \<Rightarrow> mappingRecord option \<Rightarrow> entryRecord \<Rightarrow> (string \<times> reg_blob) list" where
  "resolve_rows o' rn p item cur rec =
     entry_rows o' rec @ side_rows rn p (ci_native_id item) cur (er_id rec)
     @ [(mappingKey p (ci_native_id item), BMapping
          \<lparr>mr_entry = er_id rec,
           mr_generation = (case cur of None \<Rightarrow> 1 | Some c \<Rightarrow> mr_generation c + 1),
           mr_proof = ProofOf (ci_kind item) (ci_metadata item) (ci_external_ids item)\<rparr>)]"

text \<open>
  The entry a \<open>Resolve\<close> with identity work writes: a new one, when no stored entry merges with the
  item, or an entry that merges with it, with the item absorbed.
\<close>

inductive placed :: "Registry \<Rightarrow> entropy \<Rightarrow> string \<Rightarrow> CatalogueItem \<Rightarrow> Status \<Rightarrow> entryRecord \<Rightarrow> bool"
  for r rn p item where
  created: "placed r rn p item StatusCreated
      (new_entry (''le_'' @ EncodeToString b) (ProofOf (ci_kind item) (ci_metadata item) (ci_external_ids item)) item p)"
    if "rn_entry rn = Some b" and "\<forall>i. \<not> merges_entry r (live_item item) i"
| attached: "placed r rn p item StatusAttached (absorbed old item p)"
    if "entry_at r i = Some old" and "v_merge (Decide (rg_opts r) (live_item item) (entry_item old))"

lemma absorbed_id [simp]: "er_id (absorbed rec item p) = er_id rec"
  by (simp add: absorbed_def)

lemma new_entry_id [simp]: "er_id (new_entry i pf item p) = i"
  by (simp add: new_entry_def Let_def)

lemma place_ok:
  assumes ok: "reg_ok r" and rn: "rn_entry rn = None \<Longrightarrow> \<exists>i. merges_entry r (live_item item) i"
    and t: "findTarget r item = Inr t"
    and pf: "pf = ProofOf (ci_kind item) (ci_metadata item) (ci_external_ids item)"
  shows "\<exists>st rec r1. place r rn p item pf t = (Inr (er_id rec, st), r1) \<and> placed r rn p item st rec
     \<and> Store_ok (rg_st r1) \<and> row r1 = row r ++ map_of (rev (entry_rows (rg_opts r) rec))
     \<and> rg_opts r1 = rg_opts r \<and> rg_owner r1 = rg_owner r"
proof (cases "t = []")
  case True
  with findTarget_spec [OF ok, of item] t have none: "\<forall>i. \<not> merges_entry r (live_item item) i" by auto
  then obtain b where b: "rn_entry rn = Some b" using rn by fastforce
  let ?rec = "new_entry (''le_'' @ EncodeToString b) pf item p"
  obtain r1 where r1: "write_rows r (entry_rows (rg_opts r) ?rec) = (Inr (), r1)"
    "Store_ok (rg_st r1)" "row r1 = row r ++ map_of (rev (entry_rows (rg_opts r) ?rec))"
    "rg_opts r1 = rg_opts r" "rg_owner r1 = rg_owner r"
    using write_rows_ok [OF reg_ok_store [OF ok]] by blast
  have "place r rn p item pf t = (Inr (er_id ?rec, StatusCreated), r1)"
    using True b r1(1) by (simp add: place_def newEntryID_def putEntry_def)
  moreover have "placed r rn p item StatusCreated ?rec"
    unfolding pf by (rule created [OF b none])
  ultimately show ?thesis using r1 by blast
next
  case False
  with findTarget_spec [OF ok, of item] t have m: "merges_entry r (live_item item) t" by auto
  then obtain old where old: "entry_at r t = Some old"
    and dec: "v_merge (Decide (rg_opts r) (live_item item) (entry_item old))"
    by (auto simp: merges_entry_def split: option.splits)
  have "er_id old = t" using entry_at_ok [OF ok old] by (simp add: entry_ok_def)
  let ?rec = "absorbed old item p"
  obtain r1 where r1: "write_rows r (entry_rows (rg_opts r) ?rec) = (Inr (), r1)"
    "Store_ok (rg_st r1)" "row r1 = row r ++ map_of (rev (entry_rows (rg_opts r) ?rec))"
    "rg_opts r1 = rg_opts r" "rg_owner r1 = rg_owner r"
    using write_rows_ok [OF reg_ok_store [OF ok]] by blast
  have "place r rn p item pf t = (Inr (er_id ?rec, StatusAttached), r1)"
    using False r1(1) \<open>er_id old = t\<close> by (simp add: place_def absorb_def getEntry_ok [OF ok] old putEntry_def)
  moreover have "placed r rn p item StatusAttached ?rec"
    by (rule attached [OF old dec])
  ultimately show ?thesis using r1 by blast
qed

lemma supersede_ok:
  assumes "Store_ok (rg_st r)"
  shows "\<exists>out r2. supersede r rn p n c i st = (Inr out, r2) \<and> Store_ok (rg_st r2)
     \<and> row r2 = row r ++ map_of (rev (side_rows rn p n (Some c) i))
     \<and> rg_opts r2 = rg_opts r \<and> rg_owner r2 = rg_owner r
     \<and> oc_entry out = i \<and> oc_status out = (if i = mr_entry c then StatusUpdated else st)
     \<and> oc_recycled out = (i \<noteq> mr_entry c)
     \<and> oc_superseded out = (if i = mr_entry c then [] else mr_entry c)"
proof (cases "i = mr_entry c")
  case True
  obtain r2 where "write_rows r [(aliasKey p n (mr_generation c), BRaw (mr_entry c))] = (Inr (), r2)"
    "Store_ok (rg_st r2)" "row r2 = row r ++ map_of (rev [(aliasKey p n (mr_generation c), BRaw (mr_entry c))])"
    "rg_opts r2 = rg_opts r" "rg_owner r2 = rg_owner r"
    using write_rows_ok [OF assms] by blast
  with True show ?thesis by (auto simp: supersede_def side_rows_def)
next
  case False
  let ?cf = "side_rows rn p n (Some c) i"
  obtain r1 where r1: "recordConflict r rn c p n = (Inr (), r1)" "Store_ok (rg_st r1)"
    "row r1 = row r ++ map_of (rev [hd ?cf])" "rg_opts r1 = rg_opts r" "rg_owner r1 = rg_owner r"
    using write_rows_ok [OF assms, of "[hd ?cf]"] False by (auto simp: recordConflict_def side_rows_def Let_def)
  obtain r2 where r2: "write_rows r1 [(aliasKey p n (mr_generation c), BRaw (mr_entry c))] = (Inr (), r2)"
    "Store_ok (rg_st r2)" "row r2 = row r1 ++ map_of (rev [(aliasKey p n (mr_generation c), BRaw (mr_entry c))])"
    "rg_opts r2 = rg_opts r1" "rg_owner r2 = rg_owner r1"
    using write_rows_ok [OF r1(2)] by blast
  have "row r2 = row r ++ map_of (rev ?cf)"
    using False r1(3) r2(3) by (simp add: side_rows_def)
  with False r1 r2 show ?thesis by (simp add: supersede_def)
qed

theorem resolve_effect:
  assumes ok: "reg_ok r" and rn: "rn_entry rn = None \<Longrightarrow> \<exists>i. merges_entry r (live_item item) i"
    and need: "needs_identity r p item"
  obtains st rec out r' where "resolve_valid r rn p item = (Inr out, r')"
    and "placed r rn p item st rec" and "Store_ok (rg_st r')"
    and "row r' = row r ++ map_of (rev (resolve_rows (rg_opts r) rn p item (mapping_at r p (ci_native_id item)) rec))"
    and "rg_opts r' = rg_opts r" and "rg_owner r' = rg_owner r" and "oc_entry out = er_id rec"
    and "oc_status out = (case mapping_at r p (ci_native_id item) of None \<Rightarrow> st
          | Some c \<Rightarrow> if er_id rec = mr_entry c then StatusUpdated else st)"
    and "oc_recycled out \<longleftrightarrow> (case mapping_at r p (ci_native_id item) of None \<Rightarrow> False
          | Some c \<Rightarrow> er_id rec \<noteq> mr_entry c)"
proof -
  let ?n = "ci_native_id item" and ?pf = "ProofOf (ci_kind item) (ci_metadata item) (ci_external_ids item)"
  let ?cur = "mapping_at r p ?n"
  obtain t where t: "findTarget r item = Inr t" using findTarget_spec [OF ok] by blast
  obtain st rec r1 where place: "place r rn p item ?pf t = (Inr (er_id rec, st), r1)"
    and pl: "placed r rn p item st rec" and s1: "Store_ok (rg_st r1)"
    and v1: "row r1 = row r ++ map_of (rev (entry_rows (rg_opts r) rec))"
    and o1: "rg_opts r1 = rg_opts r" "rg_owner r1 = rg_owner r"
    using place_ok [OF ok rn t refl] by metis
  obtain out r2 where sup: "(case ?cur of
        None \<Rightarrow> (Inr \<lparr>oc_entry = er_id rec, oc_status = st, oc_recycled = False, oc_superseded = [], oc_events = []\<rparr>, r1)
      | Some c \<Rightarrow> supersede r1 rn p ?n c (er_id rec) st) = (Inr out, r2)"
    and s2: "Store_ok (rg_st r2)" and v2: "row r2 = row r1 ++ map_of (rev (side_rows rn p ?n ?cur (er_id rec)))"
    and o2: "rg_opts r2 = rg_opts r1" "rg_owner r2 = rg_owner r1"
    and out: "oc_entry out = er_id rec"
      "oc_status out = (case ?cur of None \<Rightarrow> st | Some c \<Rightarrow> if er_id rec = mr_entry c then StatusUpdated else st)"
      "oc_recycled out \<longleftrightarrow> (case ?cur of None \<Rightarrow> False | Some c \<Rightarrow> er_id rec \<noteq> mr_entry c)"
  proof (cases ?cur)
    case None
    with that s1 show ?thesis by (simp add: side_rows_def)
  next
    case (Some c)
    with that supersede_ok [OF s1, of rn p ?n c "er_id rec" st] show ?thesis by auto
  qed
  let ?m = "[(mappingKey p ?n, BMapping \<lparr>mr_entry = er_id rec,
      mr_generation = (case ?cur of None \<Rightarrow> 1 | Some c \<Rightarrow> mr_generation c + 1), mr_proof = ?pf\<rparr>)]"
  obtain r3 where w: "write_rows r2 ?m = (Inr (), r3)" and s3: "Store_ok (rg_st r3)"
    and v3: "row r3 = row r2 ++ map_of (rev ?m)" and o3: "rg_opts r3 = rg_opts r2" "rg_owner r3 = rg_owner r2"
    using write_rows_ok [OF s2] by blast
  have "resolve_valid r rn p item = (Inr out, r3)"
    using need t place sup w
    by (simp add: resolve_valid_def Let_def loadMapping_ok [OF ok] needs_identity_def split: option.splits)
  moreover have "row r3 = row r ++ map_of (rev (resolve_rows (rg_opts r) rn p item ?cur rec))"
    unfolding v3 v2 v1 resolve_rows_def by (simp add: map_add_assoc)
  ultimately show ?thesis using that pl s3 o1 o2 o3 out by simp
qed

subsection \<open>The rows after a Resolve\<close>

lemma add_rows_other: "k \<notin> fst ` set ws \<Longrightarrow> (m ++ map_of (rev ws)) k = m k"
  by (simp add: map_add_dom_app_simps(3) dom_map_of_conv_image_fst)

lemma add_rows_grow: "m k \<noteq> None \<or> k \<in> fst ` set ws \<Longrightarrow> (m ++ map_of (rev ws)) k \<noteq> None"
  using map_of_eq_None_iff [of "rev ws" k] by (auto simp: map_add_def split: option.splits)

lemma add_rows_append: "m ++ map_of (rev (xs @ ys)) = (m ++ map_of (rev xs)) ++ map_of (rev ys)"
  by simp

lemma add_rows_Cons: "m ++ map_of (rev ((k, v) # ys)) = m(k \<mapsto> v) ++ map_of (rev ys)"
  by (simp add: map_add_upd_left map_add_assoc [symmetric] map_upd_triv)

definition index_rows :: "Options \<Rightarrow> entryRecord \<Rightarrow> (string \<times> reg_blob) list" where
  "index_rows o' rec = tl (entry_rows o' rec)"

lemma entry_rows_split: "entry_rows o' rec = (entryKey (er_id rec), BEntry rec) # index_rows o' rec"
  by (simp add: entry_rows_def index_rows_def)

lemma index_rows_keys:
  assumes "k \<in> fst ` set (index_rows o' rec)"
  shows "(\<exists>t kd. k = titleIndexPrefix t kd @ er_id rec) \<or> (\<exists>ns v. k = extIndexPrefix ns v @ er_id rec)"
proof -
  from assms obtain b where "(k, b) \<in> set (index_rows o' rec)" by force
  then have "k = titleIndexPrefix (NormalizeTitle o' (er_title rec)) (er_kind rec) @ er_id rec
      \<or> (\<exists>c \<in> set (er_claims rec). k = extIndexPrefix (cl_namespace c) (cl_value c) @ er_id rec)"
    unfolding index_rows_def entry_rows_def by (cases "NormalizeTitle o' (er_title rec) = []") auto
  then show ?thesis by blast
qed

lemma index_rows_not:
  "entryKey i \<notin> fst ` set (index_rows o' rec)" "mappingKey p n \<notin> fst ` set (index_rows o' rec)"
  "aliasKey p n g \<notin> fst ` set (index_rows o' rec)"
  by (auto dest!: index_rows_keys simp: key_simps)

lemma side_rows_keys:
  "fst ` set (side_rows rn p n cur i) \<subseteq> {conflictKey (EncodeToString (rn_conflict rn))}
     \<union> (case cur of None \<Rightarrow> {} | Some c \<Rightarrow> {aliasKey p n (mr_generation c)})"
  by (auto simp: side_rows_def split: option.splits)

lemma side_rows_not:
  "entryKey j \<notin> fst ` set (side_rows rn p n cur i)" "mappingKey q k \<notin> fst ` set (side_rows rn p n cur i)"
  using side_rows_keys [of rn p n cur i] by (auto simp: key_simps split: option.splits)

lemma rows_entry:
  "(m ++ map_of (rev (resolve_rows o' rn p item cur rec))) (entryKey i)
     = (if i = er_id rec then Some (BEntry rec) else m (entryKey i))"
proof -
  have "(m ++ map_of (rev (resolve_rows o' rn p item cur rec))) (entryKey i)
      = (m ++ map_of (rev (entry_rows o' rec))) (entryKey i)"
    unfolding resolve_rows_def add_rows_append
    by (subst add_rows_other, simp add: key_simps, subst add_rows_other, rule side_rows_not, rule refl)
  also have "\<dots> = (if i = er_id rec then Some (BEntry rec) else m (entryKey i))"
    unfolding entry_rows_split add_rows_Cons
    by (subst add_rows_other, rule index_rows_not) (simp add: key_simps)
  finally show ?thesis .
qed

lemma rows_mapping:
  "(m ++ map_of (rev (resolve_rows o' rn p item cur rec))) (mappingKey q k)
     = (if q = p \<and> k = ci_native_id item then Some (BMapping
          \<lparr>mr_entry = er_id rec, mr_generation = (case cur of None \<Rightarrow> 1 | Some c \<Rightarrow> mr_generation c + 1),
           mr_proof = ProofOf (ci_kind item) (ci_metadata item) (ci_external_ids item)\<rparr>)
        else m (mappingKey q k))"
proof -
  have "(m ++ map_of (rev (entry_rows o' rec @ side_rows rn p (ci_native_id item) cur (er_id rec)))) (mappingKey q k)
      = m (mappingKey q k)"
    unfolding add_rows_append entry_rows_split add_rows_Cons
    by (subst add_rows_other, rule side_rows_not, subst add_rows_other, rule index_rows_not)
      (simp add: key_simps)
  moreover have "resolve_rows o' rn p item cur rec =
      (entry_rows o' rec @ side_rows rn p (ci_native_id item) cur (er_id rec)) @
      [(mappingKey p (ci_native_id item), BMapping
          \<lparr>mr_entry = er_id rec, mr_generation = (case cur of None \<Rightarrow> 1 | Some c \<Rightarrow> mr_generation c + 1),
           mr_proof = ProofOf (ci_kind item) (ci_metadata item) (ci_external_ids item)\<rparr>)]"
    by (simp add: resolve_rows_def)
  ultimately show ?thesis
    by (simp only: add_rows_append) (simp add: key_simps)
qed

lemma rows_alias:
  "(m ++ map_of (rev (resolve_rows o' rn p item cur rec))) (aliasKey q k g)
     = (case cur of
          None \<Rightarrow> m (aliasKey q k g)
        | Some c \<Rightarrow> if q = p \<and> k = ci_native_id item \<and> g = mr_generation c then Some (BRaw (mr_entry c))
            else m (aliasKey q k g))"
proof -
  have "(m ++ map_of (rev (resolve_rows o' rn p item cur rec))) (aliasKey q k g)
      = ((m ++ map_of (rev (entry_rows o' rec)))
          ++ map_of (rev (side_rows rn p (ci_native_id item) cur (er_id rec)))) (aliasKey q k g)"
    unfolding resolve_rows_def add_rows_append by (subst add_rows_other) (simp_all add: key_simps)
  moreover have "(m ++ map_of (rev (entry_rows o' rec))) (aliasKey q k g) = m (aliasKey q k g)"
    unfolding entry_rows_split add_rows_Cons
    by (subst add_rows_other, rule index_rows_not) (simp add: key_simps)
  ultimately show ?thesis
    by (cases cur) (simp_all add: side_rows_def key_simps)
qed

lemma rows_grow:
  "m k \<noteq> None \<Longrightarrow> (m ++ map_of (rev (resolve_rows o' rn p item cur rec))) k \<noteq> None"
  by (rule add_rows_grow) simp

lemma title_row_in:
  "NormalizeTitle o' (er_title rec) \<noteq> [] \<Longrightarrow>
     titleIndexPrefix (NormalizeTitle o' (er_title rec)) (er_kind rec) @ er_id rec \<in> fst ` set (entry_rows o' rec)"
  unfolding entry_rows_def by simp

lemma claim_row_in:
  assumes "c \<in> set (er_claims rec)" and "cl_namespace c \<noteq> []" and "cl_value c \<noteq> []"
  shows "extIndexPrefix (cl_namespace c) (cl_value c) @ er_id rec \<in> fst ` set (entry_rows o' rec)"
proof -
  have "(extIndexPrefix (cl_namespace c) (cl_value c) @ er_id rec, BRaw [])
      \<in> set (map (\<lambda>c. (extIndexPrefix (cl_namespace c) (cl_value c) @ er_id rec, BRaw []))
           (filter (\<lambda>c. \<not> (cl_namespace c = [] \<or> cl_value c = [])) (er_claims rec)))"
    unfolding set_map by (rule imageI) (simp add: assms)
  then have "(extIndexPrefix (cl_namespace c) (cl_value c) @ er_id rec, BRaw []) \<in> set (entry_rows o' rec)"
    unfolding entry_rows_def set_append list.set(2) Un_iff insert_iff by blast
  then show ?thesis by (rule fst_imageI)
qed

lemma rows_indexed: "indexed o' (m ++ map_of (rev (resolve_rows o' rn p item cur rec))) rec"
proof -
  have written: "(m ++ map_of (rev (resolve_rows o' rn p item cur rec))) k \<noteq> None"
    if "k \<in> fst ` set (entry_rows o' rec)" for k
    using that by (intro add_rows_grow) (simp add: resolve_rows_def image_Un)
  show ?thesis
    unfolding indexed_def
    by (intro conjI impI ballI written title_row_in claim_row_in) simp_all
qed

lemma indexed_mono: "indexed o' m rec \<Longrightarrow> (\<And>k. m k \<noteq> None \<Longrightarrow> m' k \<noteq> None) \<Longrightarrow> indexed o' m' rec"
  unfolding indexed_def by blast

lemma placed_id:
  assumes "reg_ok r" and "placed r rn p item st rec"
  shows "er_id rec \<noteq> [] \<and> CHR ''/'' \<notin> set (er_id rec)"
  using assms(2)
proof cases
  case (created b)
  then show ?thesis by (simp add: EncodeToString_no_slash)
next
  case (attached old)
  then show ?thesis using entry_at_ok [OF assms(1)] by (auto simp: entry_ok_def)
qed

lemma reg_ok_rows:
  assumes ok: "reg_ok r" and pl: "placed r rn p item st rec" and s': "Store_ok (rg_st r')"
    and cur: "cur = mapping_at r p (ci_native_id item)"
    and v: "row r' = row r ++ map_of (rev (resolve_rows (rg_opts r) rn p item cur rec))"
    and o': "rg_opts r' = rg_opts r"
  shows "reg_ok r'"
proof -
  have grow: "row r k \<noteq> None \<Longrightarrow> row r' k \<noteq> None" for k unfolding v by (rule rows_grow)
  have "entries_ok (rg_opts r') (row r')"
    unfolding entries_ok_def
  proof (intro allI impI)
    fix i b assume b: "row r' (entryKey i) = Some b"
    show "\<exists>rec. b = BEntry rec \<and> entry_ok (rg_opts r') (row r') i rec"
    proof (cases "i = er_id rec")
      case True
      with b have "b = BEntry rec" by (simp add: v rows_entry)
      moreover have "entry_ok (rg_opts r') (row r') i rec"
        unfolding entry_ok_def o' v using True placed_id [OF ok pl] by (simp add: rows_indexed)
      ultimately show ?thesis by blast
    next
      case False
      with b have "row r (entryKey i) = Some b" by (simp add: v rows_entry)
      with ok obtain old where "b = BEntry old" "entry_ok (rg_opts r) (row r) i old"
        unfolding reg_ok_def by (blast dest: entries_okD)
      moreover from this have "indexed (rg_opts r) (row r') old"
        by (auto simp: entry_ok_def intro: indexed_mono [OF _ grow])
      ultimately show ?thesis unfolding entry_ok_def o' by blast
    qed
  qed
  moreover have "mappings_ok (row r')"
    unfolding mappings_ok_def
  proof (intro allI impI)
    fix q k b assume b: "row r' (mappingKey q k) = Some b"
    show "\<exists>mr. b = BMapping mr \<and> row r' (entryKey (mr_entry mr)) \<noteq> None"
    proof (cases "q = p \<and> k = ci_native_id item")
      case True
      with b show ?thesis by (auto simp: v rows_mapping rows_entry)
    next
      case False
      with b have "row r (mappingKey q k) = Some b" by (auto simp: v rows_mapping)
      with ok obtain mr where "b = BMapping mr" "row r (entryKey (mr_entry mr)) \<noteq> None"
        unfolding reg_ok_def by (blast dest: mappings_okD)
      then show ?thesis using grow by blast
    qed
  qed
  moreover have "aliases_ok (row r')"
    unfolding aliases_ok_def
  proof (intro allI impI)
    fix q k g b assume b: "row r' (aliasKey q k g) = Some b"
    show "\<exists>e. b = BRaw e \<and> row r' (entryKey e) \<noteq> None"
    proof (cases "row r (aliasKey q k g) = Some b")
      case True
      with ok obtain e where "b = BRaw e" "row r (entryKey e) \<noteq> None"
        unfolding reg_ok_def aliases_ok_def by blast
      then show ?thesis using grow by blast
    next
      case False
      with b obtain c where c: "mapping_at r p (ci_native_id item) = Some c" and "b = BRaw (mr_entry c)"
        by (auto simp: v rows_alias cur split: option.splits if_splits)
      moreover have "row r (entryKey (mr_entry c)) \<noteq> None"
        using mapping_at_entry [OF ok c] by (auto simp: entry_at_None [OF ok, symmetric])
      ultimately show ?thesis using grow by blast
    qed
  qed
  ultimately show ?thesis using s' by (simp add: reg_ok_def)
qed

subsection \<open>Facts about a Resolve\<close>

lemma resolve_unchanged:
  assumes "reg_ok r" and "\<not> needs_identity r p item"
  shows "\<exists>c. mapping_at r p (ci_native_id item) = Some c \<and> resolve_valid r rn p item =
     (Inr \<lparr>oc_entry = mr_entry c, oc_status = StatusUnchanged, oc_recycled = False, oc_superseded = [],
           oc_events = []\<rparr>, r)"
  using assms
  by (auto simp: needs_identity_def resolve_valid_def Let_def loadMapping_ok split: option.splits)

lemma resolve_no_entropy:
  assumes ok: "reg_ok r" and need: "needs_identity r p item"
    and "rn_entry rn = None" and none: "\<forall>i. \<not> merges_entry r (live_item item) i"
  shows "resolve_valid r rn p item = (Inl RE_mint, r)"
proof -
  obtain t where t: "findTarget r item = Inr t"
    and spec: "if t = [] then \<forall>i. \<not> merges_entry r (live_item item) i else merges_entry r (live_item item) t"
    using findTarget_spec [OF ok] by blast
  from spec none have "t = []" by (auto split: if_splits)
  with t assms(3) need show ?thesis
    by (simp add: resolve_valid_def Let_def loadMapping_ok [OF ok] needs_identity_def place_def newEntryID_def
        split: option.splits)
qed

lemma resolve_valid_cases:
  obtains (unchanged) "\<not> needs_identity r p item"
  | (no_entropy) "needs_identity r p item" "rn_entry rn = None" "\<forall>i. \<not> merges_entry r (live_item item) i"
  | (placed) "needs_identity r p item" "rn_entry rn = None \<longrightarrow> (\<exists>i. merges_entry r (live_item item) i)"
  by metis

lemma resolve_valid_ok:
  assumes ok: "reg_ok r"
  shows "reg_ok (snd (resolve_valid r rn p item))"
proof (cases rule: resolve_valid_cases [where r = r and p = p and item = item and rn = rn])
  case unchanged
  with resolve_unchanged [OF ok unchanged, of rn] ok show ?thesis by auto
next
  case no_entropy
  with resolve_no_entropy [OF ok, of p item rn] ok show ?thesis by simp
next
  case placed
  show ?thesis by (rule resolve_effect [OF ok placed(2) [THEN mp] placed(1)]) (auto intro: reg_ok_rows [OF ok])
qed

lemma Resolve_valid_eq:
  "ValidateCatalogueItem (Some item) = None \<Longrightarrow> p \<noteq> [] \<Longrightarrow> Resolve r rn p (Some item) = resolve_valid r rn p item"
  by (simp add: Resolve_def)

lemma resolve_reg_ok: "reg_ok r \<Longrightarrow> reg_ok (snd (Resolve r rn p item))"
  using resolve_valid_ok by (auto simp: Resolve_def split: option.splits)

definition entry_grows :: "entryRecord \<Rightarrow> entryRecord \<Rightarrow> bool" where
  "entry_grows e e' \<longleftrightarrow> er_id e' = er_id e \<and> er_kind e' = er_kind e \<and> er_title e' = er_title e
     \<and> er_year e' = er_year e \<and> claims_grow (er_claims e) (er_claims e')
     \<and> prefix (er_directors e) (er_directors e') \<and> prefix (er_cast e) (er_cast e')
     \<and> (er_original_language e \<noteq> [] \<longrightarrow> er_original_language e' = er_original_language e)
     \<and> (er_runtime_minutes e \<noteq> 0 \<longrightarrow> er_runtime_minutes e' = er_runtime_minutes e)"

lemma entry_grows_refl [simp]: "entry_grows e e"
  by (simp add: entry_grows_def)

lemma entry_grows_absorbed: "entry_grows e (absorbed e item p)"
  by (simp add: entry_grows_def absorbed_def unionClaims_grow unionStrings_prefix)

lemma resolve_entries:
  assumes ok: "reg_ok r" and e: "entry_at r i = Some e"
    and fresh: "\<And>b. rn_entry rn = Some b \<Longrightarrow> entry_at r (''le_'' @ EncodeToString b) = None"
  shows "\<exists>e'. entry_at (snd (resolve_valid r rn p item)) i = Some e' \<and> entry_grows e e'"
proof (cases rule: resolve_valid_cases [where r = r and p = p and item = item and rn = rn])
  case unchanged
  with resolve_unchanged [OF ok unchanged, of rn] e show ?thesis by auto
next
  case no_entropy
  with resolve_no_entropy [OF ok, of p item rn] e show ?thesis by simp
next
  case placed
  obtain st rec out r' where res: "resolve_valid r rn p item = (Inr out, r')" and pl: "placed r rn p item st rec"
    and v: "row r' = row r ++ map_of (rev (resolve_rows (rg_opts r) rn p item (mapping_at r p (ci_native_id item)) rec))"
    using resolve_effect [OF ok placed(2) [THEN mp] placed(1)] by metis
  have at: "entry_at r' j = (if j = er_id rec then Some rec else entry_at r j)" for j
    by (simp add: entry_at_def v rows_entry)
  from pl have "i = er_id rec \<Longrightarrow> entry_grows e rec"
  proof cases
    case (created b)
    with fresh [of b] e show "i = er_id rec \<Longrightarrow> entry_grows e rec" by simp
  next
    case (attached old)
    with e entry_at_ok [OF ok attached(3)] show "i = er_id rec \<Longrightarrow> entry_grows e rec"
      by (auto simp: entry_ok_def entry_grows_absorbed)
  qed
  with e at [of i] res show ?thesis by auto
qed

lemma Lookup_eq: "reg_ok r \<Longrightarrow> p \<noteq> [] \<Longrightarrow> n \<noteq> [] \<Longrightarrow> Lookup r p n = Inr (map_option mr_entry (mapping_at r p n))"
  by (simp add: Lookup_def loadMapping_ok split: option.splits)

lemma Lookup_frame:
  "reg_ok r \<Longrightarrow> reg_ok r' \<Longrightarrow> mapping_at r' p n = mapping_at r p n \<Longrightarrow> Lookup r' p n = Lookup r p n"
  by (simp add: Lookup_def loadMapping_ok)

lemma Alias_eq:
  "reg_ok r \<Longrightarrow> Alias r p n g = Inr (case row r (aliasKey p n g) of Some (BRaw b) \<Rightarrow> Some b | _ \<Rightarrow> None)"
  by (auto simp: Alias_def store_simps reg_ok_def aliases_ok_def split: option.splits reg_blob.splits)

lemma resolve_mapping:
  assumes ok: "reg_ok r" and rn: "rn_entry rn \<noteq> None"
  shows "\<exists>out mr. fst (resolve_valid r rn p item) = Inr out
     \<and> mapping_at (snd (resolve_valid r rn p item)) p (ci_native_id item) = Some mr
     \<and> mr_entry mr = oc_entry out
     \<and> SameProof (rg_opts r) (mr_proof mr) (ProofOf (ci_kind item) (ci_metadata item) (ci_external_ids item))
     \<and> entry_at (snd (resolve_valid r rn p item)) (oc_entry out) \<noteq> None"
proof (cases "needs_identity r p item")
  case False
  with resolve_unchanged [OF ok False, of rn] mapping_at_entry [OF ok] show ?thesis
    by (auto simp: needs_identity_def split: option.splits)
next
  case True
  have rn': "rn_entry rn = None \<Longrightarrow> \<exists>i. merges_entry r (live_item item) i" using rn by simp
  show ?thesis
    by (rule resolve_effect [OF ok rn' True], assumption)
      (auto simp: mapping_at_iff rows_mapping entry_at_def rows_entry)
qed

lemma resolve_mapping_out:
  assumes ok: "reg_ok r" and res: "resolve_valid r rn p item = (Inr out, r')"
  shows "\<exists>mr. mapping_at r' p (ci_native_id item) = Some mr \<and> mr_entry mr = oc_entry out
     \<and> SameProof (rg_opts r) (mr_proof mr) (ProofOf (ci_kind item) (ci_metadata item) (ci_external_ids item))"
proof (cases rule: resolve_valid_cases [where r = r and p = p and item = item and rn = rn])
  case unchanged
  with resolve_unchanged [OF ok unchanged, of rn] res show ?thesis by (auto simp: needs_identity_def)
next
  case no_entropy
  with resolve_no_entropy [OF ok, of p item rn] res show ?thesis by simp
next
  case placed
  show ?thesis
    by (rule resolve_effect [OF ok placed(2) [THEN mp] placed(1)])
      (use res in \<open>auto simp: mapping_at_iff rows_mapping\<close>)
qed

lemma resolve_opts: "reg_ok r \<Longrightarrow> rg_opts (snd (resolve_valid r rn p item)) = rg_opts r"
proof (cases rule: resolve_valid_cases [where r = r and p = p and item = item and rn = rn])
  case unchanged
  assume ok: "reg_ok r"
  with resolve_unchanged [OF ok unchanged, of rn] show ?thesis by auto
next
  case no_entropy
  assume ok: "reg_ok r"
  with resolve_no_entropy [OF ok, of p item rn] no_entropy show ?thesis by simp
next
  case placed
  assume ok: "reg_ok r"
  show ?thesis by (rule resolve_effect [OF ok placed(2) [THEN mp] placed(1)]) auto
qed

lemma resolve_other_mapping:
  assumes ok: "reg_ok r" and "q \<noteq> p \<or> k \<noteq> ci_native_id item"
  shows "mapping_at (snd (resolve_valid r rn p item)) q k = mapping_at r q k"
proof (cases rule: resolve_valid_cases [where r = r and p = p and item = item and rn = rn])
  case unchanged
  with resolve_unchanged [OF ok unchanged, of rn] show ?thesis by auto
next
  case no_entropy
  with resolve_no_entropy [OF ok, of p item rn] show ?thesis by simp
next
  case placed
  show ?thesis
    by (rule resolve_effect [OF ok placed(2) [THEN mp] placed(1)]) (use assms(2) in \<open>auto simp: mapping_at_def rows_mapping\<close>)
qed

subsection \<open>Reachable registries\<close>

text \<open>Every registry that calls of \<open>Resolve\<close> make out of an empty in-memory one.\<close>

inductive reachable :: "string \<Rightarrow> Options \<Rightarrow> Registry \<Rightarrow> bool" for owner o' where
  start: "reachable owner o' (New NewInMemory owner o')"
| step: "reachable owner o' r \<Longrightarrow> reachable owner o' (snd (Resolve r rn p item))"

lemma reachable_ok: "reachable owner o' r \<Longrightarrow> reg_ok r"
  by (induction rule: reachable.induct) (simp_all add: reg_ok_New resolve_reg_ok)

text \<open>A concrete library: two catalogues that offer the same film.\<close>

definition demo_entropy :: "string \<Rightarrow> entropy" where
  "demo_entropy b = \<lparr>rn_entry = Some b, rn_conflict = b, rn_event = b, rn_now = 0\<rparr>"

definition demo_film :: "string \<Rightarrow> 32 word \<Rightarrow> CatalogueItem" where
  "demo_film native year = \<lparr>ci_native_id = native, ci_kind = IK_MOVIE,
     ci_external_ids = [Some \<lparr>eid_namespace = ''imdb'', eid_value = ''tt1''\<rparr>],
     ci_metadata = Some (empty_metadata\<lparr>md_title := ''Alien'', md_year := year\<rparr>)\<rparr>"

definition demo_empty :: Registry where
  "demo_empty = New NewInMemory ''op'' plain_options"

definition demo_registry :: Registry where
  "demo_registry = snd (Resolve demo_empty (demo_entropy ''A'') ''p'' (Some (demo_film ''7'' 1979)))"

lemma demo_film_valid: "ValidateCatalogueItem (Some (demo_film (c # cs) y)) = None"
  by (simp add: ValidateCatalogueItem_iff demo_film_def)

lemma demo_empty_ok: "reg_ok demo_empty"
  by (simp add: demo_empty_def reg_ok_New)

lemma demo_reachable: "reachable ''op'' plain_options demo_registry"
  unfolding demo_registry_def demo_empty_def by (intro reachable.intros)

lemmas demo_registry_ok = reachable_ok [OF demo_reachable]

lemma demo_film_sel [simp]: "ci_native_id (demo_film n y) = n" "ci_kind (demo_film n y) = IK_MOVIE"
  by (simp_all add: demo_film_def)

lemma demo_entropy_sel [simp]: "rn_entry (demo_entropy b) = Some b"
  by (simp add: demo_entropy_def)

lemma demo_empty_opts [simp]: "rg_opts demo_empty = plain_options"
  by (simp add: demo_empty_def New_def)

lemma demo_registry_eq: "demo_registry = snd (resolve_valid demo_empty (demo_entropy ''A'') ''p'' (demo_film ''7'' 1979))"
  by (simp add: demo_registry_def Resolve_valid_eq demo_film_valid)

lemma demo_mapping:
  "\<exists>mr. mapping_at demo_registry ''p'' ''7'' = Some mr \<and> entry_at demo_registry (mr_entry mr) \<noteq> None
     \<and> SameProof plain_options (mr_proof mr)
         (ProofOf IK_MOVIE (ci_metadata (demo_film ''7'' 1979)) (ci_external_ids (demo_film ''7'' 1979)))"
  using resolve_mapping [OF demo_empty_ok, of "demo_entropy ''A''" "''p''" "demo_film ''7'' 1979"]
  by (auto simp: demo_registry_eq)

lemma demo_opts [simp]: "rg_opts demo_registry = plain_options"
  by (simp add: demo_registry_eq resolve_opts [OF demo_empty_ok])

lemma demo_needs: "needs_identity demo_registry ''p'' (demo_film ''7'' 1980)"
  using demo_mapping by (auto simp: needs_identity_def SameProof_def ProofOf_def demo_film_def split: if_splits)

subsection \<open>Properties\<close>

text \<open>C2: Every registry reached by calls of Resolve, with any items, providers, random bytes and
  clock readings, is well formed: mappings and aliases point to stored entries, and every entry
  stands in the title index and in the index of each of its assertions.\<close>
theorem Resolve_invariant:
  assumes "reachable owner o' r"
  shows "entries_ok (rg_opts r) (row r) \<and> mappings_ok (row r) \<and> aliases_ok (row r)"
  using reachable_ok [OF assms] by (simp add: reg_ok_def)

theorem Resolve_invariant_witness: "mappings_ok (row demo_registry)"
  using Resolve_invariant [OF demo_reachable] by simp

text \<open>Resolve of a valid item returns, and Lookup of the item then answers with the entry it
  reported, which is stored.\<close>
theorem Resolve_then_Lookup:
  assumes "reg_ok r" and "ValidateCatalogueItem (Some item) = None" and "p \<noteq> []" and "rn_entry rn \<noteq> None"
  shows "\<exists>out r'. Resolve r rn p (Some item) = (Inr out, r') \<and> Lookup r' p (ci_native_id item) = Inr (Some (oc_entry out))
     \<and> (\<exists>view. Canonical r' (oc_entry out) = Inr (Some view))"
proof -
  have n: "ci_native_id item \<noteq> []" using assms(2) by (simp add: ValidateCatalogueItem_iff)
  have res: "Resolve r rn p (Some item) = resolve_valid r rn p item"
    using assms(2,3) by (rule Resolve_valid_eq)
  obtain out mr where out: "fst (resolve_valid r rn p item) = Inr out" "mr_entry mr = oc_entry out"
    and m: "mapping_at (snd (resolve_valid r rn p item)) p (ci_native_id item) = Some mr"
    and e: "entry_at (snd (resolve_valid r rn p item)) (oc_entry out) \<noteq> None"
    using resolve_mapping [OF assms(1,4)] by blast
  note ok = resolve_valid_ok [OF assms(1), of rn p item]
  have "oc_entry out \<noteq> []" using e entry_at_ok [OF ok] by (auto simp: entry_ok_def)
  with e have "\<exists>view. Canonical (snd (resolve_valid r rn p item)) (oc_entry out) = Inr (Some view)"
    by (auto simp: Canonical_def getEntry_ok [OF ok])
  with out m show ?thesis by (simp add: res prod_eq_iff Lookup_eq [OF ok assms(3) n])
qed

theorem Resolve_then_Lookup_witness:
  "\<exists>out r'. Resolve demo_empty (demo_entropy ''A'') ''p'' (Some (demo_film ''7'' 1979)) = (Inr out, r')
     \<and> Lookup r' ''p'' ''7'' = Inr (Some (oc_entry out))"
  using Resolve_then_Lookup [OF demo_empty_ok demo_film_valid, of "''p''" "demo_entropy ''A''" "CHR ''7''" "[]" 1979]
  by (auto simp: demo_entropy_def demo_film_def)

text \<open>C1: The target of a Resolve with identity work is right for the merge rule and complete: the
  item goes to a new entry exactly when no stored entry merges with it, and to an entry that merges
  with it otherwise; the two index searches miss no entry.\<close>
theorem Resolve_target:
  assumes "reg_ok r" and "needs_identity r p item" and "rn_entry rn \<noteq> None"
    and "ValidateCatalogueItem (Some item) = None" and "p \<noteq> []"
  shows "\<exists>out r'. Resolve r rn p (Some item) = (Inr out, r') \<and>
     (if \<exists>i rec. entry_at r i = Some rec \<and> v_merge (Decide (rg_opts r) (live_item item) (entry_item rec))
      then \<exists>rec. entry_at r (oc_entry out) = Some rec
         \<and> v_merge (Decide (rg_opts r) (live_item item) (entry_item rec)) \<and> er_kind rec = ci_kind item
      else \<exists>b. rn_entry rn = Some b \<and> oc_entry out = ''le_'' @ EncodeToString b)"
proof -
  have rn: "rn_entry rn = None \<Longrightarrow> \<exists>i. merges_entry r (live_item item) i" using assms(3) by simp
  obtain st rec out r' where res: "resolve_valid r rn p item = (Inr out, r')"
    and pl: "placed r rn p item st rec" and e: "oc_entry out = er_id rec"
    using resolve_effect [OF assms(1) rn assms(2)] by metis
  from pl show ?thesis
  proof cases
    case (created b)
    then have "\<not> (\<exists>i rec. entry_at r i = Some rec \<and> v_merge (Decide (rg_opts r) (live_item item) (entry_item rec)))"
      by (auto simp: merges_entry_def split: option.splits)
    with created res e show ?thesis by (auto simp: Resolve_valid_eq assms(4,5))
  next
    case (attached i old)
    moreover have "er_kind old = ci_kind item"
      using rule.merges_kind [OF attached(4)] by (simp add: live_item_def entry_item_def)
    ultimately show ?thesis
      using res e entry_at_ok [OF assms(1) attached(3)] by (auto simp: Resolve_valid_eq assms(4,5) entry_ok_def)
  qed
qed

theorem Resolve_target_witness:
  "\<exists>out r'. Resolve demo_registry (demo_entropy ''B'') ''p'' (Some (demo_film ''7'' 1980)) = (Inr out, r')"
  using Resolve_target [OF demo_registry_ok demo_needs, of "demo_entropy ''B''"] demo_film_valid [of "CHR ''7''" "[]" 1980]
  by (fastforce simp: demo_entropy_def)

text \<open>Resolve leaves every other provider item as it was: its lookup, its proof and its
  generation.\<close>
theorem Resolve_frame:
  assumes "reg_ok r" and "q \<noteq> p \<or> k \<noteq> ci_native_id item" and "p \<noteq> []"
    and "ValidateCatalogueItem (Some item) = None"
  shows "Lookup (snd (Resolve r rn p (Some item))) q k = Lookup r q k
     \<and> loadMapping (snd (Resolve r rn p (Some item))) q k = loadMapping r q k"
  using Lookup_frame [OF assms(1) resolve_valid_ok [OF assms(1)] resolve_other_mapping [OF assms(1,2)]]
    resolve_other_mapping [OF assms(1,2)] resolve_valid_ok [OF assms(1), of rn p item]
  by (simp add: Resolve_valid_eq [OF assms(4,3)] loadMapping_ok assms(1))

theorem Resolve_frame_witness:
  "Lookup (snd (Resolve demo_registry (demo_entropy ''B'') ''q'' (Some (demo_film ''7'' 1979)))) ''p'' ''7''
     = Lookup demo_registry ''p'' ''7''"
  using Resolve_frame [OF demo_registry_ok, of "''p''" "''q''" "''7''" "demo_film ''7'' 1979" "demo_entropy ''B''"]
  by (simp add: demo_film_valid)

text \<open>No Resolve destroys identity: every entry stays under its id with its kind, title and year,
  the lists of its claims, directors and cast only grow at the end, every claim keeps its place and
  its suppliers, and a known language or runtime is not replaced.\<close>
theorem Resolve_entries_persist:
  assumes "reg_ok r" and "entry_at r i = Some e"
    and "\<forall>b. rn_entry rn = Some b \<longrightarrow> entry_at r (''le_'' @ EncodeToString b) = None"
  shows "\<exists>e'. entry_at (snd (Resolve r rn p item)) i = Some e' \<and> entry_grows e e'"
proof (cases "ValidateCatalogueItem item = None \<and> p \<noteq> []")
  case True
  then obtain it where "item = Some it" by (cases item) (simp_all add: ValidateCatalogueItem_def)
  with True resolve_entries [OF assms(1,2), of rn p it] assms(3) show ?thesis by (simp add: Resolve_def)
next
  case False
  with assms(2) show ?thesis by (auto simp: Resolve_def split: option.splits)
qed

lemma demo_entry_fresh: "entry_at demo_registry (''le_'' @ EncodeToString ''B'') = None"
proof -
  obtain st rec where pl: "placed demo_empty (demo_entropy ''A'') ''p'' (demo_film ''7'' 1979) st rec"
    and v: "row demo_registry = row demo_empty ++ map_of (rev (resolve_rows (rg_opts demo_empty) (demo_entropy ''A'')
        ''p'' (demo_film ''7'' 1979) (mapping_at demo_empty ''p'' ''7'') rec))"
  proof -
    have "needs_identity demo_empty ''p'' (demo_film ''7'' 1979)"
      by (simp add: needs_identity_def mapping_at_def demo_empty_def New_def NewInMemory_def view_def)
    then show ?thesis
      by (rule resolve_effect [OF demo_empty_ok, of "demo_entropy ''A''", rotated]) (simp, rule that, simp_all add: demo_registry_eq)
  qed
  have none: "entry_at demo_empty i = None" for i
    by (simp add: entry_at_def demo_empty_def New_def NewInMemory_def view_def)
  from pl have "er_id rec = ''le_'' @ EncodeToString ''A''"
    by cases (simp_all add: none)
  moreover have "EncodeToString ''A'' \<noteq> EncodeToString ''B''" using EncodeToString_inj by blast
  ultimately show ?thesis using none by (simp add: entry_at_def v rows_entry)
qed

theorem Resolve_entries_persist_witness:
  "\<exists>i e e'. entry_at demo_registry i = Some e
     \<and> entry_at (snd (Resolve demo_registry (demo_entropy ''B'') ''q'' (Some (demo_film ''8'' 1979)))) i = Some e'
     \<and> entry_grows e e'"
proof -
  obtain i e where "entry_at demo_registry i = Some e" using demo_mapping by blast
  moreover from Resolve_entries_persist [OF demo_registry_ok this, of "demo_entropy ''B''" "''q''"
      "Some (demo_film ''8'' 1979)"] demo_entry_fresh
  obtain e' where "entry_at (snd (Resolve demo_registry (demo_entropy ''B'') ''q'' (Some (demo_film ''8'' 1979)))) i = Some e'"
    "entry_grows e e'" unfolding demo_entropy_sel option.inject by blast
  ultimately show ?thesis by blast
qed

text \<open>A Resolve that supersedes a mapping keeps the old generation as an alias that answers with
  the entry it pointed to, starts the next generation, and leaves every other alias as it was; the
  outcome is Recycled exactly when the entry changed.\<close>
theorem Resolve_alias:
  assumes "reg_ok r" and "mapping_at r p (ci_native_id item) = Some c" and "needs_identity r p item"
    and "rn_entry rn \<noteq> None" and "ValidateCatalogueItem (Some item) = None" and "p \<noteq> []"
  shows "\<exists>out r'. Resolve r rn p (Some item) = (Inr out, r')
     \<and> Alias r' p (ci_native_id item) (mr_generation c) = Inr (Some (mr_entry c))
     \<and> map_option mr_generation (mapping_at r' p (ci_native_id item)) = Some (mr_generation c + 1)
     \<and> (\<forall>q k g. (q, k, g) \<noteq> (p, ci_native_id item, mr_generation c) \<longrightarrow> Alias r' q k g = Alias r q k g)
     \<and> (oc_recycled out \<longleftrightarrow> oc_entry out \<noteq> mr_entry c)"
proof -
  have rn: "rn_entry rn = None \<Longrightarrow> \<exists>i. merges_entry r (live_item item) i" using assms(4) by simp
  obtain rec out r' where res: "resolve_valid r rn p item = (Inr out, r')"
    and v: "row r' = row r ++ map_of (rev (resolve_rows (rg_opts r) rn p item (Some c) rec))"
    and e: "oc_entry out = er_id rec" "oc_recycled out \<longleftrightarrow> er_id rec \<noteq> mr_entry c"
    by (rule resolve_effect [OF assms(1) rn assms(3)]) (assumption, rule that, simp_all add: assms(2))
  have ok: "reg_ok r'" using resolve_valid_ok [OF assms(1), of rn p item] res by simp
  have "Alias r' q k g = (if (q, k, g) = (p, ci_native_id item, mr_generation c) then Inr (Some (mr_entry c))
      else Alias r q k g)" for q k g
    by (simp add: Alias_eq [OF ok] Alias_eq [OF assms(1)] v rows_alias)
  moreover have "map_option mr_generation (mapping_at r' p (ci_native_id item)) = Some (mr_generation c + 1)"
    by (simp add: mapping_at_def v rows_mapping)
  ultimately show ?thesis
    using res e by (intro exI [of _ out] exI [of _ r']) (simp add: Resolve_valid_eq assms(5,6))
qed

theorem Resolve_alias_witness:
  "\<exists>c out r'. mapping_at demo_registry ''p'' ''7'' = Some c
     \<and> Resolve demo_registry (demo_entropy ''B'') ''p'' (Some (demo_film ''7'' 1980)) = (Inr out, r')
     \<and> Alias r' ''p'' ''7'' (mr_generation c) = Inr (Some (mr_entry c))"
proof -
  obtain c where c: "mapping_at demo_registry ''p'' ''7'' = Some c" using demo_mapping by blast
  then have "mapping_at demo_registry ''p'' (ci_native_id (demo_film ''7'' 1980)) = Some c" by simp
  from Resolve_alias [OF demo_registry_ok this demo_needs, of "demo_entropy ''B''"] c show ?thesis
    unfolding demo_film_sel demo_film_valid by (simp only: demo_entropy_sel) blast
qed

subsection \<open>The listing of the mappings\<close>

lemma list_mappings_ok:
  assumes "reg_ok r"
  shows "\<exists>ms. list_mappings r ks = Inr ms \<and> (\<forall>m. m \<in> set ms \<longleftrightarrow>
     (\<exists>k \<in> set ks. \<exists>mr. Cut (TrimPrefix k mappingPrefix) CHR ''/'' = Some (mp_provider m, mp_native_id m)
        \<and> mapping_at r (mp_provider m) (mp_native_id m) = Some mr
        \<and> m = \<lparr>mp_provider = mp_provider m, mp_native_id = mp_native_id m, mp_entry = mr_entry mr,
               mp_generation = mr_generation mr, mp_proof = mr_proof mr\<rparr>))"
proof (induction ks)
  case Nil
  then show ?case by simp
next
  case (Cons k ks)
  then obtain ms where ms: "list_mappings r ks = Inr ms"
    and iff: "\<forall>m. m \<in> set ms \<longleftrightarrow>
     (\<exists>k \<in> set ks. \<exists>mr. Cut (TrimPrefix k mappingPrefix) CHR ''/'' = Some (mp_provider m, mp_native_id m)
        \<and> mapping_at r (mp_provider m) (mp_native_id m) = Some mr
        \<and> m = \<lparr>mp_provider = mp_provider m, mp_native_id = mp_native_id m, mp_entry = mr_entry mr,
               mp_generation = mr_generation mr, mp_proof = mr_proof mr\<rparr>)" by blast
  show ?case
  proof (cases "Cut (TrimPrefix k mappingPrefix) CHR ''/''")
    case None
    with ms iff show ?thesis by simp
  next
    case (Some pn)
    obtain p n where pn: "pn = (p, n)" by fastforce
    show ?thesis
    proof (cases "mapping_at r p n")
      case None
      with ms iff Some pn show ?thesis by (auto simp: loadMapping_ok [OF assms])
    next
      case (Some mr)
      let ?m = "\<lparr>mp_provider = p, mp_native_id = n, mp_entry = mr_entry mr,
        mp_generation = mr_generation mr, mp_proof = mr_proof mr\<rparr>"
      have "list_mappings r (k # ks) = Inr (?m # ms)"
        using Some pn ms \<open>Cut _ _ = Some pn\<close> by (simp add: loadMapping_ok [OF assms])
      moreover have "m \<in> set (?m # ms) \<longleftrightarrow>
         (\<exists>j \<in> set (k # ks). \<exists>mr. Cut (TrimPrefix j mappingPrefix) CHR ''/'' = Some (mp_provider m, mp_native_id m)
          \<and> mapping_at r (mp_provider m) (mp_native_id m) = Some mr
          \<and> m = \<lparr>mp_provider = mp_provider m, mp_native_id = mp_native_id m, mp_entry = mr_entry mr,
                 mp_generation = mr_generation mr, mp_proof = mr_proof mr\<rparr>)" for m
        using Some pn \<open>Cut _ _ = Some pn\<close> iff by (cases m) auto
      ultimately show ?thesis by blast
    qed
  qed
qed

lemma list_mappings_mem:
  assumes "reg_ok r" and "list_mappings r ks = Inr ms" and "m \<in> set ms"
  shows "\<exists>k \<in> set ks. Cut (TrimPrefix k mappingPrefix) CHR ''/'' = Some (mp_provider m, mp_native_id m)
     \<and> mapping_at r (mp_provider m) (mp_native_id m) \<noteq> None"
proof -
  obtain k mr where "k \<in> set ks" "Cut (TrimPrefix k mappingPrefix) CHR ''/'' = Some (mp_provider m, mp_native_id m)"
    "mapping_at r (mp_provider m) (mp_native_id m) = Some mr"
    using list_mappings_ok [OF assms(1), of ks] assms(2,3) by auto
  then show ?thesis by auto
qed

text \<open>A registry lists a mapping with its entry, generation and proof when its
  provider and native id need no escaping.\<close>
theorem ListMappings_plain:
  assumes "reg_ok r" and "mapping_at r p n = Some mr" and "PathEscape p = p" and "PathEscape n = n"
  shows "\<exists>ms. ListMappings r = Inr ms \<and>
     \<lparr>mp_provider = p, mp_native_id = n, mp_entry = mr_entry mr, mp_generation = mr_generation mr,
      mp_proof = mr_proof mr\<rparr> \<in> set ms"
proof -
  obtain ks where ks: "Store_List (rg_st r) mappingPrefix = Inr ks"
    using kv.lst_total [OF reg_ok_store [OF assms(1)]] by blast
  have key: "mappingKey p n = mappingPrefix @ p @ CHR ''/'' # n"
    by (simp add: mappingKey_def mappingPrefix_def assms(3,4))
  have "mappingKey p n \<in> set ks"
    using Store_List_view [OF reg_ok_store [OF assms(1)] ks] assms(2) by (simp add: mapping_at_iff key)
  moreover have "Cut (TrimPrefix (mappingKey p n) mappingPrefix) CHR ''/'' = Some (p, n)"
    using PathEscape_no_slash [of p] by (simp add: key Cut_append assms(3))
  ultimately show ?thesis
    using list_mappings_ok [OF assms(1), of ks] assms(2) by (fastforce simp: ListMappings_def ks)
qed

lemma demo_plain: "PathEscape ''p'' = ''p''" "PathEscape ''7'' = ''7''"
  by (simp_all add: PathEscape_def escape_byte_def shouldEscape_def)

theorem ListMappings_plain_witness:
  "\<exists>mr ms. mapping_at demo_registry ''p'' ''7'' = Some mr \<and> ListMappings demo_registry = Inr ms
     \<and> mr_entry mr \<in> mp_entry ` set ms"
proof -
  obtain mr where mr: "mapping_at demo_registry ''p'' ''7'' = Some mr" using demo_mapping by blast
  from ListMappings_plain [OF demo_registry_ok this demo_plain] mr show ?thesis by force
qed

text \<open>
  A mapping whose provider needs escaping is missing from the listing, though \<open>Lookup\<close> finds it:
  the escaped parts of the key are escaped once more by \<open>loadMapping\<close>.
\<close>

definition space_registry :: Registry where
  "space_registry = snd (Resolve demo_empty (demo_entropy ''A'') ''a b'' (Some (demo_film ''7'' 1979)))"

text \<open>A reachable registry whose one provider is named with a space: Lookup finds the mapping and
  ListMappings answers with an empty list.\<close>
theorem ListMappings_skips_escaped:
  "(\<exists>i. Lookup space_registry ''a b'' ''7'' = Inr (Some i)) \<and> ListMappings space_registry = Inr []"
proof -
  let ?rows = "resolve_rows plain_options (demo_entropy ''A'') ''a b'' (demo_film ''7'' 1979) None"
  have eq: "space_registry = snd (resolve_valid demo_empty (demo_entropy ''A'') ''a b'' (demo_film ''7'' 1979))"
    by (simp add: space_registry_def Resolve_valid_eq demo_film_valid)
  have ok: "reg_ok space_registry" unfolding eq by (rule resolve_valid_ok [OF demo_empty_ok])
  have none: "row demo_empty k = None" for k
    by (simp add: demo_empty_def New_def NewInMemory_def view_def)
  have no_map: "mapping_at demo_empty p n = None" for p n by (simp add: mapping_at_def none)
  then have need: "needs_identity demo_empty ''a b'' (demo_film ''7'' 1979)" by (simp add: needs_identity_def)
  obtain rec where v: "row space_registry = row demo_empty ++ map_of (rev (?rows rec))"
    by (rule resolve_effect [OF demo_empty_ok _ need, of "demo_entropy ''A''"])
      (simp, rule that, simp add: eq no_map)
  have at: "mapping_at space_registry q k = None" if "q \<noteq> ''a b'' \<or> k \<noteq> ''7''" for q k
    using that by (auto simp: mapping_at_def v rows_mapping none)
  have absent: "row space_registry key = None" if "key = ''reg/m/a b/7'' \<or> key = ''a b/7''" for key
  proof -
    have "key \<notin> fst ` set (?rows rec)"
    proof
      assume "key \<in> fst ` set (?rows rec)"
      with that have "key \<in> fst ` set (index_rows plain_options rec)"
        by (auto simp: resolve_rows_def side_rows_def entry_rows_split key_defs PathEscape_def escape_byte_def
            shouldEscape_def)
      with that show False by (auto dest!: index_rows_keys simp: key_defs)
    qed
    then show ?thesis unfolding v by (simp add: add_rows_other none)
  qed
  obtain ks where ks: "Store_List (rg_st space_registry) mappingPrefix = Inr ks"
    using kv.lst_total [OF reg_ok_store [OF ok]] by blast
  have stored: "row space_registry k \<noteq> None" if "k \<in> set ks" for k
    using kv.lst_stored [OF reg_ok_store [OF ok] ks that] reg_ok_store [OF ok]
    by (auto simp: store_simps split: option.splits)
  obtain ms where ms: "list_mappings space_registry ks = Inr ms"
    using list_mappings_ok [OF ok, of ks] by auto
  have "m \<notin> set ms" for m
  proof
    assume "m \<in> set ms"
    then obtain k where k: "k \<in> set ks"
      and cut: "Cut (TrimPrefix k mappingPrefix) CHR ''/'' = Some (mp_provider m, mp_native_id m)"
      and mapped: "mapping_at space_registry (mp_provider m) (mp_native_id m) \<noteq> None"
      using list_mappings_mem [OF ok ms] by blast
    have "\<not> (mp_provider m \<noteq> ''a b'' \<or> mp_native_id m \<noteq> ''7'')"
      by (rule contrapos_nn [OF mapped at])
    with cut have "TrimPrefix k mappingPrefix = ''a b/7''"
      by (simp add: Cut_Some_iff)
    then have "k = ''reg/m/a b/7'' \<or> k = ''a b/7''"
      by (auto simp: TrimPrefix_def mappingPrefix_def prefix_def split: if_splits)
    then have "row space_registry k = None" by (rule absent)
    with stored [OF k] show False by (rule notE)
  qed
  then have "ms = []" by (cases ms) auto
  then have "ListMappings space_registry = Inr []" by (simp add: ListMappings_def ks ms)
  moreover obtain mr where "mapping_at space_registry ''a b'' ''7'' = Some mr"
    using resolve_mapping [OF demo_empty_ok, of "demo_entropy ''A''" "''a b''" "demo_film ''7'' 1979"] by (auto simp: eq)
  ultimately show ?thesis by (simp add: Lookup_eq [OF ok])
qed

subsection \<open>Repeated calls\<close>

text \<open>Resolve is idempotent: repeating the call, with fresh randomness, is a pure lookup that
  reports the same entry as unchanged and writes nothing.\<close>
theorem Resolve_idempotent:
  assumes "reg_ok r" and "Resolve r rn p (Some item) = (Inr out, r')"
  shows "\<exists>out'. Resolve r' rn' p (Some item) = (Inr out', r') \<and> oc_status out' = StatusUnchanged
     \<and> oc_entry out' = oc_entry out \<and> oc_events out' = []"
proof -
  from assms(2) have val: "ValidateCatalogueItem (Some item) = None" "p \<noteq> []"
    and res: "resolve_valid r rn p item = (Inr out, r')"
    by (auto simp: Resolve_def split: option.splits if_splits)
  have ok: "reg_ok r'" using resolve_valid_ok [OF assms(1), of rn p item] res by simp
  have opts: "rg_opts r' = rg_opts r" using resolve_opts [OF assms(1), of rn p item] res by simp
  obtain mr where mr: "mapping_at r' p (ci_native_id item) = Some mr" "mr_entry mr = oc_entry out"
    "SameProof (rg_opts r) (mr_proof mr) (ProofOf (ci_kind item) (ci_metadata item) (ci_external_ids item))"
    using resolve_mapping_out [OF assms(1) res] by blast
  then have "\<not> needs_identity r' p item" by (simp add: needs_identity_def opts)
  with mr resolve_unchanged [OF ok this, of rn'] show ?thesis by (auto simp: Resolve_valid_eq val)
qed

theorem Resolve_idempotent_witness:
  "\<exists>out'. Resolve demo_registry (demo_entropy ''B'') ''p'' (Some (demo_film ''7'' 1979)) = (Inr out', demo_registry)
     \<and> oc_status out' = StatusUnchanged"
proof -
  obtain out where "fst (resolve_valid demo_empty (demo_entropy ''A'') ''p'' (demo_film ''7'' 1979)) = Inr out"
    using resolve_mapping [OF demo_empty_ok, of "demo_entropy ''A''"] by fastforce
  then have "Resolve demo_empty (demo_entropy ''A'') ''p'' (Some (demo_film ''7'' 1979)) = (Inr out, demo_registry)"
    by (simp add: prod_eq_iff demo_registry_eq Resolve_valid_eq demo_film_valid)
  from Resolve_idempotent [OF demo_empty_ok this] show ?thesis by blast
qed

end
