(* ===== verification/Metadata_Cache.thy ===== *)
theory Metadata_Cache
  imports Store Messages
begin

text \<open>
  The global metadata cache, \<open>core/internal/metadatacache/metadatacache.go\<close>: one record per title
  under its canonical external id, and aliases that point to it.

  A row is a value of \<open>meta_blob\<close>: a decodable record, or raw bytes (an alias, or a record that
  does not decode). The invariant \<open>cache_ok\<close> says that no alias dangles. The locale
  \<open>metadata_store\<close> is the interface \<open>MetadataStore\<close> that the enrichment engine is written against.
\<close>

datatype meta_blob = MRecord TitleMetadata | MRaw string

type_synonym Cache = "meta_blob Store"

datatype cache_error =
    CE_external_id         \<comment> \<open>not namespace:value\<close>
  | CE_nil_metadata
  | CE_no_record           \<comment> \<open>an alias to a record that is not stored\<close>
  | CE_store store_error

definition recordPrefix :: string where "recordPrefix = ''meta/record/''"
definition aliasPrefix :: string where "aliasPrefix = ''meta/alias/''"

definition validateExternalID :: "string \<Rightarrow> bool" where
  "validateExternalID i = (case Cut i CHR '':'' of None \<Rightarrow> False | Some (ns, val) \<Rightarrow> \<not> (ns = [] \<or> val = []))"

subsection \<open>Operations\<close>

definition GetRecord :: "Cache \<Rightarrow> string \<Rightarrow> cache_error + TitleMetadata option" where
  "GetRecord c ref =
     (if \<not> validateExternalID ref then Inl CE_external_id
      else case Store_Get c (recordPrefix @ ref) of
        Inl e \<Rightarrow> if e = ErrKeyNotFound then Inr None else Inl (CE_store e)
      | Inr (MRecord m) \<Rightarrow> Inr (Some m)
      | Inr (MRaw _) \<Rightarrow> Inr None)"

definition PutRecord :: "Cache \<Rightarrow> string \<Rightarrow> TitleMetadata option \<Rightarrow> (cache_error + unit) \<times> Cache" where
  "PutRecord c ref m =
     (if \<not> validateExternalID ref then (Inl CE_external_id, c)
      else case m of
        None \<Rightarrow> (Inl CE_nil_metadata, c)
      | Some md \<Rightarrow> (case Store_Put c (recordPrefix @ ref) (MRecord md) of (r, c') \<Rightarrow> (map_err CE_store r, c')))"

definition Resolve_ref :: "Cache \<Rightarrow> string \<Rightarrow> cache_error + string option" where
  "Resolve_ref c externalID =
     (if \<not> validateExternalID externalID then Inl CE_external_id
      else case Store_Get c (aliasPrefix @ externalID) of
        Inr (MRaw ref) \<Rightarrow> if validateExternalID ref then Inr (Some ref) else Inr None
      | Inr (MRecord _) \<Rightarrow> Inr None
      | Inl e \<Rightarrow>
          if e \<noteq> ErrKeyNotFound then Inl (CE_store e)
          else (case GetRecord c externalID of
             Inl e' \<Rightarrow> Inl e'
           | Inr None \<Rightarrow> Inr None
           | Inr (Some _) \<Rightarrow> Inr (Some externalID)))"

definition LinkAlias :: "Cache \<Rightarrow> string \<Rightarrow> string \<Rightarrow> (cache_error + unit) \<times> Cache" where
  "LinkAlias c a ref =
     (if \<not> validateExternalID a then (Inl CE_external_id, c)
      else if \<not> validateExternalID ref then (Inl CE_external_id, c)
      else case GetRecord c ref of
        Inl e \<Rightarrow> (Inl e, c)
      | Inr None \<Rightarrow> (Inl CE_no_record, c)
      | Inr (Some _) \<Rightarrow> (case Store_Put c (aliasPrefix @ a) (MRaw ref) of (r, c') \<Rightarrow> (map_err CE_store r, c')))"

definition ListRecords :: "Cache \<Rightarrow> cache_error + string list" where
  "ListRecords c = (case Store_List c recordPrefix of Inl e \<Rightarrow> Inl (CE_store e)
     | Inr ks \<Rightarrow> Inr (map (\<lambda>k. TrimPrefix k recordPrefix) ks))"

definition ListAliases :: "Cache \<Rightarrow> cache_error + (string \<times> string) list" where
  "ListAliases c = (case Store_List c aliasPrefix of Inl e \<Rightarrow> Inl (CE_store e)
     | Inr ks \<Rightarrow> Inr (List.map_filter (\<lambda>k. case Store_Get c k of
          Inr (MRaw ref) \<Rightarrow> Some (TrimPrefix k aliasPrefix, ref) | _ \<Rightarrow> None) ks))"

text \<open>The loop of \<open>DeleteRecord\<close> over the listed alias keys.\<close>

fun purge_aliases :: "Cache \<Rightarrow> string \<Rightarrow> string list \<Rightarrow> (cache_error + unit) \<times> Cache" where
  "purge_aliases c ref [] = (Inr (), c)"
| "purge_aliases c ref (k # ks) =
     (if Store_Get c k = Inr (MRaw ref)
      then (case Store_Delete c k of
              (Inl e, c') \<Rightarrow> (Inl (CE_store e), c')
            | (Inr _, c') \<Rightarrow> purge_aliases c' ref ks)
      else purge_aliases c ref ks)"

definition DeleteRecord :: "Cache \<Rightarrow> string \<Rightarrow> (cache_error + unit) \<times> Cache" where
  "DeleteRecord c ref =
     (if \<not> validateExternalID ref then (Inl CE_external_id, c)
      else case Store_List c aliasPrefix of
        Inl e \<Rightarrow> (Inl (CE_store e), c)
      | Inr ks \<Rightarrow> and_then (purge_aliases c ref ks)
          (\<lambda>_ c'. case Store_Delete c' (recordPrefix @ ref) of (r, c'') \<Rightarrow> (map_err CE_store r, c'')))"

subsection \<open>The invariant\<close>

definition record_at :: "Cache \<Rightarrow> string \<Rightarrow> TitleMetadata option" where
  "record_at c ref = (case view c (recordPrefix @ ref) of Some (MRecord m) \<Rightarrow> Some m | _ \<Rightarrow> None)"

definition alias_at :: "Cache \<Rightarrow> string \<Rightarrow> string option" where
  "alias_at c a = (case view c (aliasPrefix @ a) of Some (MRaw ref) \<Rightarrow> Some ref | _ \<Rightarrow> None)"

definition cache_ok :: "Cache \<Rightarrow> bool" where
  "cache_ok c \<longleftrightarrow> Store_ok c \<and> (\<forall>a b. view c (aliasPrefix @ a) = Some b \<longrightarrow>
     (\<exists>ref. b = MRaw ref \<and> validateExternalID ref \<and> record_at c ref \<noteq> None))"

lemma prefix_classes [simp]:
  "recordPrefix @ a \<noteq> aliasPrefix @ b" "aliasPrefix @ b \<noteq> recordPrefix @ a"
  by (simp_all add: recordPrefix_def aliasPrefix_def)

lemma cache_ok_store: "cache_ok c \<Longrightarrow> Store_ok c"
  by (simp add: cache_ok_def)

lemma cache_ok_new: "cache_ok NewInMemory"
  by (simp add: cache_ok_def view_def) (simp add: NewInMemory_def)

lemma GetRecord_eq:
  "Store_ok c \<Longrightarrow> GetRecord c ref = (if validateExternalID ref then Inr (record_at c ref) else Inl CE_external_id)"
  by (auto simp: GetRecord_def record_at_def store_simps split: option.splits meta_blob.splits)

lemma alias_at_record: "cache_ok c \<Longrightarrow> alias_at c a = Some ref \<Longrightarrow> validateExternalID ref \<and> record_at c ref \<noteq> None"
  by (auto simp: cache_ok_def alias_at_def split: option.splits meta_blob.splits)

lemma Resolve_ref_eq:
  assumes "cache_ok c"
  shows "Resolve_ref c i = (if \<not> validateExternalID i then Inl CE_external_id
     else Inr (case alias_at c i of Some ref \<Rightarrow> Some ref | None \<Rightarrow> if record_at c i \<noteq> None then Some i else None))"
  using assms alias_at_record [OF assms, of i]
  by (auto simp: Resolve_ref_def alias_at_def store_simps cache_ok_def GetRecord_eq split: option.splits meta_blob.splits)

lemma PutRecord_eq:
  assumes "Store_ok c" and "validateExternalID ref"
  shows "PutRecord c ref (Some m) = (Inr (), snd (Store_Put c (recordPrefix @ ref) (MRecord m)))"
  using kv.put_fst [OF assms(1), of "recordPrefix @ ref" "MRecord m"] assms(2)
  by (cases "Store_Put c (recordPrefix @ ref) (MRecord m)") (simp add: PutRecord_def)

lemma LinkAlias_eq:
  assumes "Store_ok c" and "validateExternalID a" and "validateExternalID ref" and "record_at c ref \<noteq> None"
  shows "LinkAlias c a ref = (Inr (), snd (Store_Put c (aliasPrefix @ a) (MRaw ref)))"
  using kv.put_fst [OF assms(1), of "aliasPrefix @ a" "MRaw ref"] assms
  by (cases "Store_Put c (aliasPrefix @ a) (MRaw ref)") (auto simp: LinkAlias_def GetRecord_eq)

lemma put_record_at:
  assumes "Store_ok c"
  shows "record_at (snd (Store_Put c (recordPrefix @ ref) (MRecord m))) r = (if r = ref then Some m else record_at c r)"
    and "alias_at (snd (Store_Put c (recordPrefix @ ref) (MRecord m))) a = alias_at c a"
    and "record_at (snd (Store_Put c (aliasPrefix @ b) (MRaw ref))) r = record_at c r"
    and "alias_at (snd (Store_Put c (aliasPrefix @ b) (MRaw ref))) a = (if a = b then Some ref else alias_at c a)"
  using assms by (simp_all add: record_at_def alias_at_def store_simps)

lemma PutRecord_ok: "cache_ok c \<Longrightarrow> cache_ok (snd (PutRecord c ref m))"
proof (cases "validateExternalID ref \<and> m \<noteq> None")
  case True
  assume ok: "cache_ok c"
  from True obtain md where "m = Some md" "validateExternalID ref" by auto
  with ok show ?thesis
    by (auto simp: PutRecord_eq cache_ok_def kv.put_ok put_record_at) (simp add: store_simps, metis)
next
  case False
  then show "cache_ok c \<Longrightarrow> ?thesis" by (auto simp: PutRecord_def)
qed

lemma LinkAlias_ok: "cache_ok c \<Longrightarrow> cache_ok (snd (LinkAlias c a ref))"
proof (cases "validateExternalID a \<and> validateExternalID ref \<and> record_at c ref \<noteq> None")
  case True
  assume ok: "cache_ok c"
  with True show ?thesis
    by (auto simp: LinkAlias_eq cache_ok_def kv.put_ok put_record_at) (auto simp: store_simps split: if_splits)
next
  case False
  assume "cache_ok c"
  with False show ?thesis by (auto simp: LinkAlias_def GetRecord_eq cache_ok_store)
qed

text \<open>Purging removes exactly the listed aliases of the record.\<close>

lemma purge_aliases_spec:
  assumes "Store_ok c"
  shows "fst (purge_aliases c ref ks) = Inr () \<and> Store_ok (snd (purge_aliases c ref ks))
     \<and> view (snd (purge_aliases c ref ks)) = (\<lambda>k. if k \<in> set ks \<and> view c k = Some (MRaw ref) then None else view c k)"
  using assms
proof (induction ks arbitrary: c)
  case Nil
  then show ?case by simp
next
  case (Cons k ks)
  show ?case
  proof (cases "view c k = Some (MRaw ref)")
    case True
    then have "purge_aliases c ref (k # ks) = purge_aliases (snd (Store_Delete c k)) ref ks"
      using kv.del_fst [OF Cons.prems, of k] by (cases "Store_Delete c k") (simp add: Cons.prems store_simps)
    with True Cons.IH [OF kv.del_ok [OF Cons.prems, of k]] show ?thesis
      by (auto simp: fun_eq_iff view_Delete [OF Cons.prems])
  next
    case False
    then have "purge_aliases c ref (k # ks) = purge_aliases c ref ks"
      by (simp add: Cons.prems store_simps split: option.splits)
    with False Cons.IH [OF Cons.prems] show ?thesis by (auto simp: fun_eq_iff)
  qed
qed

lemma DeleteRecord_spec:
  assumes ok: "cache_ok c" and ref: "validateExternalID ref"
  shows "fst (DeleteRecord c ref) = Inr () \<and> Store_ok (snd (DeleteRecord c ref))
     \<and> (\<forall>r. record_at (snd (DeleteRecord c ref)) r = (if r = ref then None else record_at c r))
     \<and> (\<forall>a. alias_at (snd (DeleteRecord c ref)) a = (if alias_at c a = Some ref then None else alias_at c a))
     \<and> (\<forall>a. view (snd (DeleteRecord c ref)) (aliasPrefix @ a) = map_option MRaw (alias_at (snd (DeleteRecord c ref)) a))"
proof -
  note st = cache_ok_store [OF ok]
  obtain ks where ks: "Store_List c aliasPrefix = Inr ks" using kv.lst_total [OF st] by blast
  let ?c1 = "snd (purge_aliases c ref ks)"
  note purge = purge_aliases_spec [OF st, of ref ks]
  then have st1: "Store_ok ?c1" by blast
  have del: "DeleteRecord c ref = (Inr (), snd (Store_Delete ?c1 (recordPrefix @ ref)))"
    using purge kv.del_fst [OF st1, of "recordPrefix @ ref"] ref
    by (cases "purge_aliases c ref ks"; cases "Store_Delete ?c1 (recordPrefix @ ref)") (simp add: DeleteRecord_def ks)
  have listed: "aliasPrefix @ a \<in> set ks" if "view c (aliasPrefix @ a) \<noteq> None" for a
    using that Store_List_view [OF st ks] by fastforce
  have raw: "view c (aliasPrefix @ a) = map_option MRaw (alias_at c a)" for a
    using ok by (cases "view c (aliasPrefix @ a)") (fastforce simp: cache_ok_def alias_at_def)+
  have v: "view (snd (DeleteRecord c ref)) k = (if k = recordPrefix @ ref then None
      else if k \<in> set ks \<and> view c k = Some (MRaw ref) then None else view c k)" for k
    using purge by (simp add: del view_Delete [OF st1])
  have av: "view (snd (DeleteRecord c ref)) (aliasPrefix @ a) =
      map_option MRaw (if alias_at c a = Some ref then None else alias_at c a)" for a
    using listed [of a] by (auto simp: v raw)
  have "record_at (snd (DeleteRecord c ref)) r = (if r = ref then None else record_at c r)" for r
    by (auto simp: record_at_def v split: option.splits)
  moreover have al: "alias_at (snd (DeleteRecord c ref)) a = (if alias_at c a = Some ref then None else alias_at c a)" for a
    by (simp add: alias_at_def [of "snd _"] av split: option.splits)
  ultimately show ?thesis using av kv.del_ok [OF st1] by (simp add: del)
qed

lemma DeleteRecord_ok: "cache_ok c \<Longrightarrow> cache_ok (snd (DeleteRecord c ref))"
proof (cases "validateExternalID ref")
  case True
  assume ok: "cache_ok c"
  note spec = DeleteRecord_spec [OF ok True]
  show ?thesis
    unfolding cache_ok_def
  proof (intro conjI allI impI)
    show "Store_ok (snd (DeleteRecord c ref))" using spec by blast
    fix a b assume "view (snd (DeleteRecord c ref)) (aliasPrefix @ a) = Some b"
    with spec obtain r where "b = MRaw r" "alias_at c a = Some r" "r \<noteq> ref"
      by (auto split: if_splits)
    with alias_at_record [OF ok, of a r] spec
    show "\<exists>ref'. b = MRaw ref' \<and> validateExternalID ref' \<and> record_at (snd (DeleteRecord c ref)) ref' \<noteq> None" by auto
  qed
next
  case False
  then show "cache_ok c \<Longrightarrow> ?thesis" by (simp add: DeleteRecord_def)
qed

subsection \<open>The interface of the enrichment engine\<close>

locale metadata_store =
  fixes resolve :: "'s \<Rightarrow> string \<Rightarrow> 'e + string option"
    and get_record :: "'s \<Rightarrow> string \<Rightarrow> 'e + TitleMetadata option"
    and put_record :: "'s \<Rightarrow> string \<Rightarrow> TitleMetadata option \<Rightarrow> ('e + unit) \<times> 's"
    and link :: "'s \<Rightarrow> string \<Rightarrow> string \<Rightarrow> ('e + unit) \<times> 's"
    and ok :: "'s \<Rightarrow> bool"
    and valid :: "string \<Rightarrow> bool"
  assumes put_ok: "ok s \<Longrightarrow> ok (snd (put_record s ref mo))"
    and put_total: "ok s \<Longrightarrow> valid ref \<Longrightarrow> fst (put_record s ref (Some m)) = Inr ()"
    and get_put: "ok s \<Longrightarrow> valid ref \<Longrightarrow> valid r \<Longrightarrow>
      get_record (snd (put_record s ref (Some m))) r = (if r = ref then Inr (Some m) else get_record s r)"
    and link_ok: "ok s \<Longrightarrow> ok (snd (link s a ref))"
    and link_total: "ok s \<Longrightarrow> valid a \<Longrightarrow> valid ref \<Longrightarrow> get_record s ref = Inr (Some m) \<Longrightarrow> fst (link s a ref) = Inr ()"
    and link_get: "ok s \<Longrightarrow> get_record (snd (link s a ref)) r = get_record s r"
    and link_resolve: "ok s \<Longrightarrow> fst (link s a ref) = Inr () \<Longrightarrow>
      resolve (snd (link s a ref)) b = (if b = a then Inr (Some ref) else resolve s b)"
    and resolve_get: "ok s \<Longrightarrow> resolve s i = Inr (Some ref) \<Longrightarrow> \<exists>m. get_record s ref = Inr (Some m)"
begin

text \<open>Linking a list of aliases to a stored record.\<close>

fun link_all :: "'s \<Rightarrow> string \<Rightarrow> string list \<Rightarrow> 's" where
  "link_all s ref [] = s"
| "link_all s ref (a # as) = link_all (snd (link s a ref)) ref as"

lemma link_all_ok: "ok s \<Longrightarrow> ok (link_all s ref as)"
  by (induction as arbitrary: s) (simp_all add: link_ok)

lemma link_all_get: "ok s \<Longrightarrow> get_record (link_all s ref as) r = get_record s r"
  by (induction as arbitrary: s) (simp_all add: link_ok link_get)

lemma link_all_resolve:
  assumes "ok s" and "\<forall>a \<in> set as. valid a" and "valid ref" and "get_record s ref = Inr (Some m)"
  shows "resolve (link_all s ref as) b = (if b \<in> set as then Inr (Some ref) else resolve s b)"
  using assms
proof (induction as arbitrary: s)
  case Nil
  then show ?case by simp
next
  case (Cons a as)
  have "fst (link s a ref) = Inr ()" using Cons.prems by (intro link_total) auto
  with Cons.prems Cons.IH [of "snd (link s a ref)"] show ?case
    by (simp add: link_ok link_get link_resolve)
qed

end

interpretation cache: metadata_store Resolve_ref GetRecord PutRecord LinkAlias cache_ok validateExternalID
proof unfold_locales
  fix c :: Cache and a ref i m r b
  show "cache_ok c \<Longrightarrow> cache_ok (snd (PutRecord c ref m))" by (rule PutRecord_ok)
  show "cache_ok c \<Longrightarrow> cache_ok (snd (LinkAlias c a ref))" by (rule LinkAlias_ok)
  show "cache_ok c \<Longrightarrow> Resolve_ref c i = Inr (Some ref) \<Longrightarrow> \<exists>m. GetRecord c ref = Inr (Some m)"
    using alias_at_record [of c i ref]
    by (auto simp: Resolve_ref_eq GetRecord_eq cache_ok_store split: if_splits option.splits)
  have linked: "validateExternalID a \<and> validateExternalID ref \<and> record_at c ref \<noteq> None"
    if "cache_ok c" "fst (LinkAlias c a ref) = Inr ()"
    using that by (auto simp: LinkAlias_def GetRecord_eq cache_ok_store split: if_splits option.splits)
  show "cache_ok c \<Longrightarrow> GetRecord (snd (LinkAlias c a ref)) r = GetRecord c r"
  proof (cases "validateExternalID a \<and> validateExternalID ref \<and> record_at c ref \<noteq> None")
    case True
    assume "cache_ok c"
    with True show ?thesis
      by (auto simp: LinkAlias_eq GetRecord_eq cache_ok_store kv.put_ok put_record_at)
  next
    case False
    assume "cache_ok c"
    with False show ?thesis by (auto simp: LinkAlias_def GetRecord_eq cache_ok_store)
  qed
  show "cache_ok c \<Longrightarrow> fst (LinkAlias c a ref) = Inr () \<Longrightarrow>
      Resolve_ref (snd (LinkAlias c a ref)) b = (if b = a then Inr (Some ref) else Resolve_ref c b)"
    using linked LinkAlias_ok [of c a ref]
    by (auto simp: LinkAlias_eq cache_ok_store Resolve_ref_eq put_record_at)
qed (auto simp: PutRecord_eq LinkAlias_eq GetRecord_eq cache_ok_store kv.put_ok put_record_at)

subsection \<open>Properties\<close>

inductive cache_reachable :: "Cache \<Rightarrow> bool" where
  empty: "cache_reachable NewInMemory"
| put: "cache_reachable c \<Longrightarrow> cache_reachable (snd (PutRecord c ref m))"
| link: "cache_reachable c \<Longrightarrow> cache_reachable (snd (LinkAlias c a ref))"
| delete: "cache_reachable c \<Longrightarrow> cache_reachable (snd (DeleteRecord c ref))"

lemma cache_reachable_ok: "cache_reachable c \<Longrightarrow> cache_ok c"
  by (induction rule: cache_reachable.induct) (simp_all add: cache_ok_new PutRecord_ok LinkAlias_ok DeleteRecord_ok)

text \<open>C6: In every cache reached by puts, links and deletions, whatever an external id resolves to is
  a stored record: no reader is sent to a missing one.\<close>
theorem cache_no_dangling:
  assumes "cache_reachable c" and "Resolve_ref c i = Inr (Some ref)"
  shows "\<exists>m. GetRecord c ref = Inr (Some m)"
  using cache.resolve_get [OF cache_reachable_ok [OF assms(1)] assms(2)] .

definition demo_cache :: Cache where
  "demo_cache = snd (LinkAlias (snd (PutRecord NewInMemory ''tmdb:1'' (Some empty_metadata))) ''imdb:2'' ''tmdb:1'')"

lemma demo_ids: "validateExternalID ''tmdb:1''" "validateExternalID ''imdb:2''"
  by (simp_all add: validateExternalID_def)

lemma demo_cache_reachable: "cache_reachable demo_cache"
  unfolding demo_cache_def by (intro cache_reachable.intros)

lemma demo_cache_resolves: "Resolve_ref demo_cache ''imdb:2'' = Inr (Some ''tmdb:1'')"
proof -
  let ?c = "snd (PutRecord NewInMemory ''tmdb:1'' (Some empty_metadata))"
  have ok: "cache_ok ?c" by (intro PutRecord_ok cache_ok_new)
  have get: "GetRecord ?c ''tmdb:1'' = Inr (Some empty_metadata)"
    using cache.get_put [OF cache_ok_new demo_ids(1,1)] by simp
  have "fst (LinkAlias ?c ''imdb:2'' ''tmdb:1'') = Inr ()"
    by (rule cache.link_total [OF ok demo_ids(2,1) get])
  then show ?thesis unfolding demo_cache_def by (simp add: cache.link_resolve [OF ok])
qed

theorem cache_no_dangling_witness: "\<exists>m. GetRecord demo_cache ''tmdb:1'' = Inr (Some m)"
  by (rule cache_no_dangling [OF demo_cache_reachable demo_cache_resolves])

text \<open>DeleteRecord removes the record and every alias that led to it, and leaves every other
  record and every other alias in place.\<close>
theorem DeleteRecord_purges:
  assumes "cache_ok c" and "validateExternalID ref"
  shows "fst (DeleteRecord c ref) = Inr ()
     \<and> GetRecord (snd (DeleteRecord c ref)) ref = Inr None
     \<and> (\<forall>i. Resolve_ref (snd (DeleteRecord c ref)) i \<noteq> Inr (Some ref))
     \<and> (\<forall>r. r \<noteq> ref \<longrightarrow> GetRecord (snd (DeleteRecord c ref)) r = GetRecord c r)
     \<and> (\<forall>a. alias_at c a \<noteq> Some ref \<longrightarrow> alias_at (snd (DeleteRecord c ref)) a = alias_at c a)"
  using DeleteRecord_spec [OF assms] assms(2) cache_ok_store [OF assms(1)]
  by (auto simp: GetRecord_eq Resolve_ref_eq [OF DeleteRecord_ok [OF assms(1)]] split: option.splits if_splits)

theorem DeleteRecord_purges_witness:
  "GetRecord (snd (DeleteRecord demo_cache ''tmdb:1'')) ''tmdb:1'' = Inr None
     \<and> Resolve_ref (snd (DeleteRecord demo_cache ''tmdb:1'')) ''imdb:2'' \<noteq> Inr (Some ''tmdb:1'')"
  using DeleteRecord_purges [OF cache_reachable_ok [OF demo_cache_reachable] demo_ids(1)] by blast

end
