(* ===== verification/Enrichment.thy ===== *)
theory Enrichment
  imports Metadata_Cache Identity Schema
begin

text \<open>
  Metadata enrichment, \<open>core/internal/enrichment\<close>: the field-by-field merge with its provenance
  (\<open>merge.go\<close>), the work queue (\<open>queue.go\<close>), the drain worker (\<open>worker.go\<close>), the cadence
  (\<open>cadence.go\<close>) and the engine (\<open>engine.go\<close>).

  The catalogue clients and the source of evidence are interfaces of the engine whose
  implementations are adapters and wiring: they are arguments here. The locale \<open>work_queue\<close> is the
  interface \<open>Queue\<close>, interpreted on the in-memory queue.
\<close>

subsection \<open>Merging contributions (merge.go)\<close>

datatype SourceKind = SourceProvider | SourceCatalogue

definition SourceKind_String :: "SourceKind \<Rightarrow> string" where
  "SourceKind_String k = (case k of SourceCatalogue \<Rightarrow> ''catalogue'' | _ \<Rightarrow> ''provider'')"

record Contribution =
  co_slot :: string
  co_kind :: SourceKind
  co_metadata :: "TitleMetadata option"

definition owner :: "Contribution \<Rightarrow> string" where
  "owner c = SourceKind_String (co_kind c) @ '':'' @ co_slot c"

definition stamp :: "string \<Rightarrow> Contribution \<Rightarrow> int \<Rightarrow> TitleMetadata \<Rightarrow> TitleMetadata" where
  "stamp path c now m =
     m\<lparr>md_source := AList.update path \<lparr>es_slot = owner c, es_fetched_at = now\<rparr> (md_source m)\<rparr>"

definition takeOver :: "EnrichmentSource option \<Rightarrow> Contribution \<Rightarrow> bool" where
  "takeOver ow c \<longleftrightarrow>
     (if ow = None \<or> get_or [] es_slot ow = [] then True
      else if get_or [] es_slot ow = owner c then True
      else co_kind c = SourceCatalogue \<and> HasPrefix (get_or [] es_slot ow) (SourceKind_String SourceProvider @ '':''))"

definition patchMovie :: "32 word \<Rightarrow> TitleMetadata \<Rightarrow> TitleMetadata" where
  "patchMovie runtime dst = dst\<lparr>md_kind_specific := Some (Movie runtime)\<rparr>"

definition patchSeries :: "32 word \<Rightarrow> 32 word \<Rightarrow> TitleMetadata \<Rightarrow> TitleMetadata" where
  "patchSeries totalSeasons totalEpisodes dst = dst\<lparr>md_kind_specific := Some (Series totalSeasons totalEpisodes)\<rparr>"

record typedField =
  tf_path :: string
  tf_present :: bool
  tf_write :: "TitleMetadata \<Rightarrow> TitleMetadata"

definition typedFields :: "TitleMetadata \<Rightarrow> typedField list" where
  "typedFields src =
     [\<lparr>tf_path = ''base.title'', tf_present = md_title src \<noteq> [], tf_write = md_title_update (\<lambda>_. md_title src)\<rparr>,
      \<lparr>tf_path = ''base.year'', tf_present = md_year src \<noteq> 0, tf_write = md_year_update (\<lambda>_. md_year src)\<rparr>,
      \<lparr>tf_path = ''base.description'', tf_present = md_description src \<noteq> [],
        tf_write = md_description_update (\<lambda>_. md_description src)\<rparr>,
      \<lparr>tf_path = ''base.poster_url'', tf_present = md_poster_url src \<noteq> [],
        tf_write = md_poster_url_update (\<lambda>_. md_poster_url src)\<rparr>,
      \<lparr>tf_path = ''base.rating'', tf_present = md_rating src \<noteq> 0, tf_write = md_rating_update (\<lambda>_. md_rating src)\<rparr>,
      \<lparr>tf_path = ''base.content_rating'', tf_present = md_content_rating src \<noteq> [],
        tf_write = md_content_rating_update (\<lambda>_. md_content_rating src)\<rparr>,
      \<lparr>tf_path = ''base.genres'', tf_present = md_genres src \<noteq> [],
        tf_write = md_genres_update (\<lambda>_. md_genres src)\<rparr>,
      \<lparr>tf_path = ''base.original_language'', tf_present = md_original_language src \<noteq> [],
        tf_write = md_original_language_update (\<lambda>_. md_original_language src)\<rparr>,
      \<lparr>tf_path = ''base.cast'', tf_present = md_cast src \<noteq> [], tf_write = md_cast_update (\<lambda>_. md_cast src)\<rparr>,
      \<lparr>tf_path = ''base.directors'', tf_present = md_directors src \<noteq> [],
        tf_write = md_directors_update (\<lambda>_. md_directors src)\<rparr>,
      \<lparr>tf_path = ''movie.runtime_minutes'', tf_present = runtime_minutes (Some src) \<noteq> 0,
        tf_write = patchMovie (runtime_minutes (Some src))\<rparr>,
      \<lparr>tf_path = ''series.total_seasons'', tf_present = total_seasons (Some src) \<noteq> 0,
        tf_write = (\<lambda>dst. patchSeries (total_seasons (Some src)) (total_episodes (Some dst)) dst)\<rparr>,
      \<lparr>tf_path = ''series.total_episodes'', tf_present = total_episodes (Some src) \<noteq> 0,
        tf_write = (\<lambda>dst. patchSeries (total_seasons (Some dst)) (total_episodes (Some src)) dst)\<rparr>]"

definition mergeInto :: "Contribution \<Rightarrow> int \<Rightarrow> typedField \<Rightarrow> TitleMetadata \<Rightarrow> TitleMetadata" where
  "mergeInto c now f dst =
     (if \<not> tf_present f then dst
      else if takeOver (map_of (md_source dst) (tf_path f)) c then stamp (tf_path f) c now (tf_write f dst)
      else dst)"

definition extraPath :: "string \<Rightarrow> string" where
  "extraPath key = ''extra.'' @ key"

definition mergeExtra :: "Contribution \<Rightarrow> int \<Rightarrow> string \<times> string \<Rightarrow> TitleMetadata \<Rightarrow> TitleMetadata" where
  "mergeExtra c now kv dst =
     (if \<not> takeOver (map_of (md_source dst) (extraPath (fst kv))) c then dst
      else stamp (extraPath (fst kv)) c now (dst\<lparr>md_extra := AList.update (fst kv) (snd kv) (md_extra dst)\<rparr>))"

text \<open>The keys of a map in sorted order, each with its value.\<close>

definition sorted_extra :: "(string \<times> string) list \<Rightarrow> (string \<times> string) list" where
  "sorted_extra m = map (\<lambda>k. (k, the (map_of m k))) (sort (remdups (map fst m)))"

datatype merge_error = ME_slot | ME_no_metadata

definition Merge :: "TitleMetadata option \<Rightarrow> Contribution \<Rightarrow> int \<Rightarrow> merge_error + TitleMetadata" where
  "Merge current c now =
     (if TrimSpace (co_slot c) = [] then Inl ME_slot
      else case co_metadata c of
        None \<Rightarrow> Inl ME_no_metadata
      | Some src \<Rightarrow>
          (case current of
             None \<Rightarrow>
               Inr (fold (\<lambda>kv. stamp (extraPath (fst kv)) c now) (sorted_extra (md_extra src))
                 (fold (\<lambda>f m. if tf_present f then stamp (tf_path f) c now m else m) (typedFields src)
                   (src\<lparr>md_source := []\<rparr>)))
           | Some cur \<Rightarrow>
               Inr (fold (mergeExtra c now) (sorted_extra (md_extra src))
                 (fold (mergeInto c now) (typedFields src) cur))))"

subsection \<open>The work queue (queue.go)\<close>

record InMemoryQueue =
  q_pending :: "string list"
  q_seen :: "string set"

definition NewInMemoryQueue :: InMemoryQueue where
  "NewInMemoryQueue = \<lparr>q_pending = [], q_seen = {}\<rparr>"

definition Enqueue :: "InMemoryQueue \<Rightarrow> string \<Rightarrow> InMemoryQueue" where
  "Enqueue q i =
     (if i \<in> q_seen q then q
      else q\<lparr>q_seen := insert i (q_seen q), q_pending := q_pending q @ [i]\<rparr>)"

definition TryNext :: "InMemoryQueue \<Rightarrow> string option \<times> InMemoryQueue" where
  "TryNext q =
     (case q_pending q of
        [] \<Rightarrow> (None, q)
      | i # rest \<Rightarrow> (Some i, q\<lparr>q_pending := rest, q_seen := q_seen q - {i}\<rparr>))"

definition queue_ok :: "InMemoryQueue \<Rightarrow> bool" where
  "queue_ok q \<longleftrightarrow> distinct (q_pending q) \<and> q_seen q = set (q_pending q)"

locale work_queue =
  fixes enq :: "'q \<Rightarrow> string \<Rightarrow> 'q"
    and next_of :: "'q \<Rightarrow> string option \<times> 'q"
    and pending :: "'q \<Rightarrow> string list"
    and ok :: "'q \<Rightarrow> bool"
  assumes enq_ok: "ok q \<Longrightarrow> ok (enq q i)"
    and enq_pending: "ok q \<Longrightarrow> pending (enq q i) = (if i \<in> set (pending q) then pending q else pending q @ [i])"
    and next_ok: "ok q \<Longrightarrow> ok (snd (next_of q))"
    and next_empty: "ok q \<Longrightarrow> pending q = [] \<Longrightarrow> fst (next_of q) = None \<and> pending (snd (next_of q)) = []"
    and next_pending: "ok q \<Longrightarrow> pending q = i # is \<Longrightarrow> fst (next_of q) = Some i \<and> pending (snd (next_of q)) = is"
    and pending_distinct: "ok q \<Longrightarrow> distinct (pending q)"
begin

text \<open>Enqueues coalesce and keep the order of first arrival.\<close>

lemma enq_all:
  "ok q \<Longrightarrow> ok (fold (\<lambda>i q. enq q i) is q)
     \<and> pending (fold (\<lambda>i q. enq q i) is q) = pending q @ filter (\<lambda>i. i \<notin> set (pending q)) (rev (remdups (rev is)))"
proof (induction "is" rule: rev_induct)
  case Nil
  then show ?case by simp
next
  case (snoc i "is")
  then have IH: "ok (fold (\<lambda>i q. enq q i) is q)"
    "pending (fold (\<lambda>i q. enq q i) is q) = pending q @ filter (\<lambda>i. i \<notin> set (pending q)) (rev (remdups (rev is)))"
    by simp_all
  show ?case using enq_ok [OF IH(1)] enq_pending [OF IH(1), of i] IH(2)
    by (cases "i \<in> set is"; cases "i \<in> set (pending q)") auto
qed

lemma next_cases:
  assumes "ok q"
  obtains (none) "pending q = []" "fst (next_of q) = None"
  | (some) i where "pending q = i # pending (snd (next_of q))" "fst (next_of q) = Some i"
proof (cases "pending q")
  case Nil
  with next_empty [OF assms] none show ?thesis by blast
next
  case (Cons i "is")
  with next_pending [OF assms] some show ?thesis by simp
qed

end

interpretation queue: work_queue Enqueue TryNext q_pending queue_ok
  by unfold_locales (auto simp: queue_ok_def Enqueue_def TryNext_def split: list.splits)

subsection \<open>The drain worker (worker.go)\<close>

text \<open>
  One drain tick. \<open>cancelled n\<close> is the context after \<open>n\<close> looks at it; \<open>enrich\<close> is the callback on
  a state \<open>'w\<close>, whose error is only logged. The result is the state, the queue, and the ids handed
  to the callback in order.
\<close>

function drain ::
    "('w \<Rightarrow> string \<Rightarrow> bool \<times> 'w) \<Rightarrow> (nat \<Rightarrow> bool) \<Rightarrow> nat \<Rightarrow> 'w \<Rightarrow> InMemoryQueue
     \<Rightarrow> 'w \<times> InMemoryQueue \<times> string list" where
  "drain enrich cancelled n w q =
     (case TryNext q of
        (None, q') \<Rightarrow> (w, q', [])
      | (Some i, q') \<Rightarrow>
          if cancelled n then (w, Enqueue q' i, [])
          else let w' = snd (enrich w i) in
            if cancelled (Suc n) then (w', q', [i])
            else case drain enrich cancelled (Suc (Suc n)) w' q' of (w'', q'', done) \<Rightarrow> (w'', q'', i # done))"
  by pat_completeness auto
termination
  by (relation "measure (\<lambda>(_, _, _, _, q). length (q_pending q))")
    (auto simp: TryNext_def split: list.splits)

declare drain.simps [simp del]

subsection \<open>The cadence (cadence.go)\<close>

text \<open>\<open>time.ParseDuration\<close> is a function of the library: it is the parameter \<open>parse\<close>.\<close>

definition defaultDrainCadence :: int where
  "defaultDrainCadence = 15 * 60 * 10 ^ 9"

definition DrainCadence :: "(string \<Rightarrow> int option) \<Rightarrow> string \<Rightarrow> int option" where
  "DrainCadence parse configured =
     (if configured = [] then Some defaultDrainCadence
      else case parse configured of
        None \<Rightarrow> None
      | Some d \<Rightarrow> if d \<le> 0 then None else Some d)"

subsection \<open>The engine (engine.go)\<close>

record EntryEvidence =
  ee_kind :: ItemKind
  ee_metadata :: "TitleMetadata option"
  ee_external_ids :: "ExternalId option list"

text \<open>A catalogue slot; \<^const>\<open>None\<close> is a failed call.\<close>

record Catalogue =
  cat_slot :: string
  cat_LookupTitle :: "string \<Rightarrow> ItemKind \<Rightarrow> 32 word \<Rightarrow> TitleCandidate option list option"
  cat_GetMetadata :: "string \<Rightarrow> GetMetadataResponse option"

datatype enrich_error = EN_evidence | EN_resolve cache_error | EN_details | EN_merge merge_error | EN_store cache_error

definition extKey :: "ExternalId option \<Rightarrow> string" where
  "extKey x = (if x = None \<or> GetNamespace x = [] \<or> GetValue x = [] then []
     else GetNamespace x @ '':'' @ GetValue x)"

definition claimedIDs :: "TitleCandidate option \<Rightarrow> ExternalId option list" where
  "claimedIDs c = get_or [] tc_external_ids c @
     (case Cut (get_or [] tc_ref c) CHR '':'' of
        Some (ns, val) \<Rightarrow> if ns \<noteq> [] \<and> val \<noteq> [] then [Some \<lparr>eid_namespace = ns, eid_value = val\<rparr>] else []
      | None \<Rightarrow> [])"

definition candidateItem :: "TitleCandidate option \<Rightarrow> Item" where
  "candidateItem c =
     \<lparr>it_kind = get_or IK_UNSPECIFIED tc_kind c, it_external_ids = claimedIDs c,
      it_metadata = Some (empty_metadata\<lparr>md_title := get_or [] tc_title c, md_year := get_or 0 tc_year c\<rparr>),
      it_alt_titles = (if get_or [] tc_original_title c \<noteq> [] \<and> get_or [] tc_original_title c \<noteq> get_or [] tc_title c
        then [get_or [] tc_original_title c] else [])\<rparr>"

fun already_enriched :: "Cache \<Rightarrow> ExternalId option list \<Rightarrow> enrich_error + bool" where
  "already_enriched c [] = Inr False"
| "already_enriched c (x # xs) =
     (case Resolve_ref c (extKey x) of
        Inl e \<Rightarrow> Inl (EN_resolve e)
      | Inr None \<Rightarrow> already_enriched c xs
      | Inr (Some ref) \<Rightarrow>
          (case GetRecord c ref of Inr (Some _) \<Rightarrow> Inr True | _ \<Rightarrow> already_enriched c xs))"

definition candidate_pool :: "Catalogue list \<Rightarrow> EntryEvidence \<Rightarrow> (Catalogue \<times> TitleCandidate option) list" where
  "candidate_pool cats ev = concat (map (\<lambda>cat.
     case cat_LookupTitle cat (GetTitle (ee_metadata ev)) (ee_kind ev) (GetYear (ee_metadata ev)) of
       None \<Rightarrow> [] | Some cs \<Rightarrow> map (\<lambda>c. (cat, c)) cs) cats)"

record fullItem =
  fi_cat :: Catalogue
  fi_ref :: string
  fi_response :: GetMetadataResponse
  fi_item :: Item

definition fetch_details :: "(Catalogue \<times> TitleCandidate option) list \<Rightarrow> nat list \<Rightarrow> fullItem list" where
  "fetch_details pool survivors = List.map_filter (\<lambda>i. case pool ! i of (cat, c) \<Rightarrow>
     (case cat_GetMetadata cat (get_or [] tc_ref c) of
        None \<Rightarrow> None
      | Some resp \<Rightarrow> Some \<lparr>fi_cat = cat, fi_ref = get_or [] tc_ref c, fi_response = resp,
          fi_item = \<lparr>it_kind = get_or IK_UNSPECIFIED tc_kind c,
            it_external_ids = claimedIDs c @ gm_external_ids resp,
            it_metadata = gm_metadata resp, it_alt_titles = []\<rparr>\<rparr>)) survivors"

text \<open>Links are best effort: a failed one is only logged.\<close>

fun link_aliases :: "Cache \<Rightarrow> string \<Rightarrow> string list \<Rightarrow> Cache" where
  "link_aliases c ref [] = c"
| "link_aliases c ref (a # as) = link_aliases (snd (LinkAlias c a ref)) ref as"

definition entry_item_of :: "EntryEvidence \<Rightarrow> Item" where
  "entry_item_of ev = \<lparr>it_kind = ee_kind ev, it_external_ids = ee_external_ids ev,
     it_metadata = ee_metadata ev, it_alt_titles = []\<rparr>"

definition store_win :: "Cache \<Rightarrow> fullItem \<Rightarrow> int \<Rightarrow> (enrich_error + unit) \<times> Cache" where
  "store_win c win now =
     (let cur = (case GetRecord c (fi_ref win) of Inr m \<Rightarrow> m | Inl _ \<Rightarrow> None)
      in case Merge cur \<lparr>co_slot = cat_slot (fi_cat win), co_kind = SourceCatalogue,
               co_metadata = gm_metadata (fi_response win)\<rparr> now of
        Inl e \<Rightarrow> (Inl (EN_merge e), c)
      | Inr merged \<Rightarrow>
          (case PutRecord c (fi_ref win) (Some merged) of
             (Inl e, c') \<Rightarrow> (Inl (EN_store e), c')
           | (Inr _, c') \<Rightarrow>
               (Inr (), link_aliases c' (fi_ref win)
                  (filter (\<lambda>a. a \<noteq> [] \<and> a \<noteq> fi_ref win)
                    (remdups (map extKey (gm_external_ids (fi_response win))))))))"

definition Enrich ::
    "(string \<Rightarrow> unit + EntryEvidence option) \<Rightarrow> Catalogue list \<Rightarrow> Options \<Rightarrow> int \<Rightarrow> Cache \<Rightarrow> string
     \<Rightarrow> (enrich_error + unit) \<times> Cache" where
  "Enrich evidence cats opts now c entryID =
     (case evidence entryID of
        Inl _ \<Rightarrow> (Inl EN_evidence, c)
      | Inr None \<Rightarrow> (Inr (), c)
      | Inr (Some ev) \<Rightarrow>
          (case already_enriched c (ee_external_ids ev) of
             Inl e \<Rightarrow> (Inl e, c)
           | Inr True \<Rightarrow> (Inr (), c)
           | Inr False \<Rightarrow>
               (let pool = candidate_pool cats ev;
                    survivors = Screen opts (entry_item_of ev) (map (\<lambda>p. candidateItem (snd p)) pool)
                in if survivors = [] then (Inr (), c)
                   else let full = fetch_details pool survivors
                     in if full = [] then (Inl EN_details, c)
                        else case Adopt opts (entry_item_of ev) (map fi_item full) of
                          None \<Rightarrow> (Inr (), c)
                        | Some picked \<Rightarrow> store_win c (full ! picked) now)))"

subsection \<open>Facts about the merge\<close>

datatype field_value = FStr string | FWord "32 word" | FList "string list"

definition base_paths :: "string list" where
  "base_paths = [''base.title'', ''base.year'', ''base.description'', ''base.poster_url'', ''base.rating'',
     ''base.content_rating'', ''base.genres'', ''base.original_language'', ''base.cast'', ''base.directors'']"

definition base_value :: "string \<Rightarrow> TitleMetadata \<Rightarrow> field_value" where
  "base_value p m =
     (if p = ''base.title'' then FStr (md_title m) else if p = ''base.year'' then FWord (md_year m)
      else if p = ''base.description'' then FStr (md_description m)
      else if p = ''base.poster_url'' then FStr (md_poster_url m)
      else if p = ''base.rating'' then FWord (md_rating m)
      else if p = ''base.content_rating'' then FStr (md_content_rating m)
      else if p = ''base.genres'' then FList (md_genres m)
      else if p = ''base.original_language'' then FStr (md_original_language m)
      else if p = ''base.cast'' then FList (md_cast m) else FList (md_directors m))"

definition claims_path :: "TitleMetadata \<Rightarrow> string \<Rightarrow> bool" where
  "claims_path src p \<longleftrightarrow> (\<exists>f \<in> set (typedFields src). tf_path f = p \<and> tf_present f)"

lemma base_value_update:
  "base_value p (md_title_update (\<lambda>_. md_title s) m) = (if p = ''base.title'' then base_value p s else base_value p m)"
  "base_value p (md_year_update (\<lambda>_. md_year s) m) = (if p = ''base.year'' then base_value p s else base_value p m)"
  "base_value p (md_description_update (\<lambda>_. md_description s) m) = (if p = ''base.description'' then base_value p s else base_value p m)"
  "base_value p (md_poster_url_update (\<lambda>_. md_poster_url s) m) = (if p = ''base.poster_url'' then base_value p s else base_value p m)"
  "base_value p (md_rating_update (\<lambda>_. md_rating s) m) = (if p = ''base.rating'' then base_value p s else base_value p m)"
  "base_value p (md_content_rating_update (\<lambda>_. md_content_rating s) m) = (if p = ''base.content_rating'' then base_value p s else base_value p m)"
  "base_value p (md_genres_update (\<lambda>_. md_genres s) m) = (if p = ''base.genres'' then base_value p s else base_value p m)"
  "base_value p (md_original_language_update (\<lambda>_. md_original_language s) m) =
     (if p = ''base.original_language'' then base_value p s else base_value p m)"
  "base_value p (md_cast_update (\<lambda>_. md_cast s) m) = (if p = ''base.cast'' then base_value p s else base_value p m)"
  unfolding base_value_def by simp_all

lemma base_value_directors:
  "p \<in> set base_paths \<Longrightarrow> base_value p (md_directors_update (\<lambda>_. md_directors s) m) =
     (if p = ''base.directors'' then base_value p s else base_value p m)"
  unfolding base_value_def base_paths_def by auto

lemma base_value_kind [simp]:
  "base_value p (patchMovie r m) = base_value p m" "base_value p (patchSeries x y m) = base_value p m"
  by (simp_all add: base_value_def patchMovie_def patchSeries_def)

lemma base_paths_kind:
  "p \<in> set base_paths \<Longrightarrow> p \<noteq> ''movie.runtime_minutes'' \<and> p \<noteq> ''series.total_seasons'' \<and> p \<noteq> ''series.total_episodes''"
  by (auto simp: base_paths_def)

lemma write_base:
  assumes "p \<in> set base_paths" and "f \<in> set (typedFields src)"
  shows "base_value p (tf_write f m) = (if p = tf_path f then base_value p src else base_value p m)"
proof -
  have "\<forall>f \<in> set (typedFields src). base_value p (tf_write f m) = (if p = tf_path f then base_value p src else base_value p m)"
    unfolding typedFields_def using base_paths_kind [OF assms(1)]
    by (simp only: list.set ball_simps insert_iff) (simp add: base_value_update base_value_directors [OF assms(1)])
  with assms(2) show ?thesis by blast
qed

lemma write_source: "f \<in> set (typedFields src) \<Longrightarrow> md_source (tf_write f m) = md_source m \<and> md_extra (tf_write f m) = md_extra m"
  unfolding typedFields_def by (auto simp: patchMovie_def patchSeries_def)

lemma paths_distinct: "distinct (map tf_path (typedFields src))"
  by (simp add: typedFields_def)

lemma stamp_sel [simp]:
  "base_value p (stamp q c now m) = base_value p m" "md_extra (stamp q c now m) = md_extra m"
  "map_of (md_source (stamp q c now m)) r = (if r = q then Some \<lparr>es_slot = owner c, es_fetched_at = now\<rparr> else map_of (md_source m) r)"
  "md_kind_specific (stamp q c now m) = md_kind_specific m"
  by (simp_all add: stamp_def base_value_def)

definition wins :: "typedField list \<Rightarrow> string \<Rightarrow> Contribution \<Rightarrow> TitleMetadata \<Rightarrow> bool" where
  "wins fs p c m \<longleftrightarrow> (\<exists>f \<in> set fs. tf_path f = p \<and> tf_present f) \<and> takeOver (map_of (md_source m) p) c"

lemma mergeInto_sel:
  assumes "f \<in> set (typedFields src)"
  shows "map_of (md_source (mergeInto c now f m)) p =
      (if wins [f] p c m then Some \<lparr>es_slot = owner c, es_fetched_at = now\<rparr> else map_of (md_source m) p)"
    and "p \<in> set base_paths \<Longrightarrow> base_value p (mergeInto c now f m) =
      (if wins [f] p c m then base_value p src else base_value p m)"
    and "md_extra (mergeInto c now f m) = md_extra m"
  using write_source [OF assms, of m] write_base [OF _ assms, of p m]
  by (auto simp: mergeInto_def wins_def)

lemma wins_other: "p \<notin> tf_path ` set fs \<Longrightarrow> \<not> wins fs p c m"
  by (auto simp: wins_def)

lemma fold_merge:
  assumes "set fs \<subseteq> set (typedFields src)" and "distinct (map tf_path fs)"
  shows "map_of (md_source (fold (mergeInto c now) fs m)) p =
      (if wins fs p c m then Some \<lparr>es_slot = owner c, es_fetched_at = now\<rparr> else map_of (md_source m) p)
    \<and> (p \<in> set base_paths \<longrightarrow> base_value p (fold (mergeInto c now) fs m) =
      (if wins fs p c m then base_value p src else base_value p m))
    \<and> md_extra (fold (mergeInto c now) fs m) = md_extra m"
  using assms
proof (induction fs arbitrary: m)
  case Nil
  then show ?case by (simp add: wins_def)
next
  case (Cons f fs)
  then have f: "f \<in> set (typedFields src)" and "tf_path f \<notin> tf_path ` set fs"
    and IH: "map_of (md_source (fold (mergeInto c now) fs (mergeInto c now f m))) p =
      (if wins fs p c (mergeInto c now f m) then Some \<lparr>es_slot = owner c, es_fetched_at = now\<rparr>
       else map_of (md_source (mergeInto c now f m)) p)
    \<and> (p \<in> set base_paths \<longrightarrow> base_value p (fold (mergeInto c now) fs (mergeInto c now f m)) =
      (if wins fs p c (mergeInto c now f m) then base_value p src else base_value p (mergeInto c now f m)))
    \<and> md_extra (fold (mergeInto c now) fs (mergeInto c now f m)) = md_extra (mergeInto c now f m)"
    by simp_all
  show ?case
  proof (cases "p = tf_path f")
    case True
    then have "\<not> wins fs p c (mergeInto c now f m)" using \<open>tf_path f \<notin> _\<close> wins_other by blast
    moreover have "wins (f # fs) p c m \<longleftrightarrow> wins [f] p c m"
      using True \<open>tf_path f \<notin> _\<close> by (auto simp: wins_def image_iff)
    ultimately show ?thesis using IH mergeInto_sel(1,2) [OF f, where c = c and now = now and m = m and p = p]
        mergeInto_sel(3) [OF f, of c now m] by simp
  next
    case False
    then have off: "\<not> wins [f] p c m" by (simp add: wins_def)
    then have "map_of (md_source (mergeInto c now f m)) p = map_of (md_source m) p"
      by (simp add: mergeInto_sel [OF f])
    then have "wins fs p c (mergeInto c now f m) \<longleftrightarrow> wins fs p c m" by (simp add: wins_def)
    moreover have "wins (f # fs) p c m \<longleftrightarrow> wins fs p c m" using False by (auto simp: wins_def)
    ultimately show ?thesis using IH mergeInto_sel(1,2) [OF f, where c = c and now = now and m = m and p = p]
        mergeInto_sel(3) [OF f, of c now m] off by simp
  qed
qed

lemma mergeExtra_sel:
  "map_of (md_source (mergeExtra c now (k, v) m)) p =
     (if p = extraPath k \<and> takeOver (map_of (md_source m) p) c then Some \<lparr>es_slot = owner c, es_fetched_at = now\<rparr>
      else map_of (md_source m) p)"
  "base_value p (mergeExtra c now (k, v) m) = base_value p m"
  "map_of (md_extra (mergeExtra c now (k, v) m)) j =
     (if j = k \<and> takeOver (map_of (md_source m) (extraPath k)) c then Some v else map_of (md_extra m) j)"
  by (auto simp: mergeExtra_def) (simp_all add: base_value_def stamp_def)

lemma extraPath_inj [simp]: "extraPath j = extraPath k \<longleftrightarrow> j = k"
  by (simp add: extraPath_def)

lemma fold_extra:
  assumes "distinct (map fst kvs)"
  shows "(\<forall>k. p \<noteq> extraPath k) \<Longrightarrow> map_of (md_source (fold (mergeExtra c now) kvs m)) p = map_of (md_source m) p"
    and "base_value p (fold (mergeExtra c now) kvs m) = base_value p m"
    and "map_of (md_extra (fold (mergeExtra c now) kvs m)) j =
      (case map_of kvs j of
         None \<Rightarrow> map_of (md_extra m) j
       | Some v \<Rightarrow> if takeOver (map_of (md_source m) (extraPath j)) c then Some v else map_of (md_extra m) j)"
  using assms
proof (induction kvs arbitrary: m)
  case Nil
  {
    case 1
    then show ?case by simp
  next
    case 2
    then show ?case by simp
  next
    case 3
    then show ?case by simp
  }
next
  case (Cons kv kvs)
  obtain k v where kv: "kv = (k, v)" by fastforce
  {
    case 1
    with Cons.IH(1) [of "mergeExtra c now (k, v) m"] show ?case by (simp add: kv mergeExtra_sel)
  next
    case 2
    with Cons.IH(2) [of "mergeExtra c now (k, v) m"] show ?case by (simp add: kv mergeExtra_sel)
  next
    case 3
    then have "k \<notin> fst ` set kvs" "distinct (map fst kvs)" by (simp_all add: kv)
    then have "map_of kvs k = None" by (simp add: map_of_eq_None_iff)
    with Cons.IH(3) [OF \<open>distinct (map fst kvs)\<close>, of "mergeExtra c now (k, v) m"] show ?case
      by (cases "j = k") (simp_all add: kv mergeExtra_sel split: option.split)
  }
qed

lemma sorted_extra_keys: "distinct (map fst (sorted_extra m))"
  by (simp add: sorted_extra_def comp_def)

lemma map_of_map_keys: "map_of (map (\<lambda>k. (k, f k)) ks) j = (if j \<in> set ks then Some (f j) else None)"
  by (induction ks) auto

lemma map_of_sorted_extra: "map_of (sorted_extra m) k = map_of m k"
proof (cases "map_of m k")
  case None
  then have "k \<notin> set (map fst m)" by (simp add: map_of_eq_None_iff)
  with None show ?thesis by (simp add: sorted_extra_def map_of_map_keys)
next
  case (Some v)
  then have "k \<in> set (map fst m)" by (rule map_of_Some_keys)
  with Some show ?thesis by (simp add: sorted_extra_def map_of_map_keys)
qed

lemma base_not_extra: "p \<in> set base_paths \<Longrightarrow> p \<noteq> extraPath k"
  by (auto simp: base_paths_def extraPath_def)

subsection \<open>Facts about the worker\<close>

text \<open>
  The state after the callback ran on a list of ids.
\<close>

definition run_all :: "('w \<Rightarrow> string \<Rightarrow> bool \<times> 'w) \<Rightarrow> string list \<Rightarrow> 'w \<Rightarrow> 'w" where
  "run_all enrich is w = fold (\<lambda>i w. snd (enrich w i)) is w"

lemma drain_spec:
  assumes "queue_ok q" and "drain enrich cancelled n w q = (w', q', done)"
  shows "queue_ok q' \<and> w' = run_all enrich done w
     \<and> (\<exists>rest. q_pending q = done @ rest \<and> mset (q_pending q') = mset rest)"
  using assms
proof (induction enrich cancelled n w q arbitrary: w' q' "done" rule: drain.induct)
  case (1 enrich cancelled n w q)
  show ?case
  proof (rule queue.next_cases [OF "1.prems"(1)])
    assume "q_pending q = []"
    then show ?thesis using "1.prems" by (auto simp: drain.simps TryNext_def run_all_def)
  next
    fix i
    assume some: "q_pending q = i # q_pending (snd (TryNext q))" "fst (TryNext q) = Some i"
    define q1 where "q1 = snd (TryNext q)"
    have nxt: "TryNext q = (Some i, q1)" and pend: "q_pending q = i # q_pending q1"
      using some by (simp_all add: q1_def prod_eq_iff)
    have ok1: "queue_ok q1" unfolding q1_def by (rule queue.next_ok [OF "1.prems"(1)])
    have notin: "i \<notin> set (q_pending q1)" using queue.pending_distinct [OF "1.prems"(1)] pend by simp
    consider (put_back) "cancelled n" | (stop) "\<not> cancelled n" "cancelled (Suc n)" | (go) "\<not> cancelled n" "\<not> cancelled (Suc n)"
      by blast
    then show ?thesis
    proof cases
      case put_back
      with "1.prems" nxt have "w' = w" "q' = Enqueue q1 i" "done = []" by (simp_all add: drain.simps)
      with queue.enq_ok [OF ok1, of i] queue.enq_pending [OF ok1, of i] notin pend show ?thesis
        by (simp add: run_all_def)
    next
      case stop
      with "1.prems" nxt have "w' = snd (enrich w i)" "q' = q1" "done = [i]" by (simp_all add: drain.simps Let_def)
      with ok1 pend show ?thesis by (simp add: run_all_def)
    next
      case go
      obtain w2 q2 d2 where rec: "drain enrich cancelled (Suc (Suc n)) (snd (enrich w i)) q1 = (w2, q2, d2)"
        by (metis prod_cases3)
      with go "1.prems" nxt have "w' = w2" "q' = q2" "done = i # d2"
        by (simp_all add: drain.simps [of enrich cancelled n w q] Let_def)
      with "1.IH" [OF nxt [symmetric] refl go(1) refl go(2) ok1 rec] pend show ?thesis
        by (auto simp: run_all_def)
    qed
  qed
qed

lemma drain_all:
  assumes "queue_ok q" and "\<forall>n. \<not> cancelled n"
  shows "snd (snd (drain enrich cancelled n w q)) = q_pending q"
  using assms
proof (induction enrich cancelled n w q rule: drain.induct)
  case (1 enrich cancelled n w q)
  show ?case
  proof (rule queue.next_cases [OF "1.prems"(1)])
    assume "q_pending q = []"
    then show ?thesis by (simp add: drain.simps TryNext_def)
  next
    fix i
    assume some: "q_pending q = i # q_pending (snd (TryNext q))" "fst (TryNext q) = Some i"
    define q1 where "q1 = snd (TryNext q)"
    have nxt: "TryNext q = (Some i, q1)" and pend: "q_pending q = i # q_pending q1"
      using some by (simp_all add: q1_def prod_eq_iff)
    have ok1: "queue_ok q1" unfolding q1_def by (rule queue.next_ok [OF "1.prems"(1)])
    have no: "\<not> cancelled n" "\<not> cancelled (Suc n)" using "1.prems"(2) by blast+
    from "1.IH" [OF nxt [symmetric] refl no(1) refl no(2) ok1 "1.prems"(2)] no nxt pend show ?thesis
      by (auto simp: drain.simps [of enrich cancelled n w q] Let_def split: prod.splits)
  qed
qed

subsection \<open>Facts about the engine\<close>

lemma link_aliases_ok: "cache_ok c \<Longrightarrow> cache_ok (link_aliases c ref as)"
  by (induction as arbitrary: c) (simp_all add: LinkAlias_ok)

lemma link_aliases_valid:
  "link_aliases c ref as = cache.link_all c ref (filter validateExternalID as)"
proof (induction as arbitrary: c)
  case Nil
  then show ?case by (simp add: cache.link_all.simps)
next
  case (Cons a as)
  have "\<not> validateExternalID a \<Longrightarrow> snd (LinkAlias c a ref) = c" by (simp add: LinkAlias_def)
  with Cons show ?case by (auto simp: cache.link_all.simps)
qed

lemma store_win_effect:
  assumes ok: "cache_ok c" and win: "store_win c win now = (res, c')"
  shows "c' = c \<and> res \<noteq> Inr () \<or>
     (\<exists>m. validateExternalID (fi_ref win) \<and> res = Inr ()
        \<and> Merge (record_at c (fi_ref win)) \<lparr>co_slot = cat_slot (fi_cat win), co_kind = SourceCatalogue,
               co_metadata = gm_metadata (fi_response win)\<rparr> now = Inr m
        \<and> (\<forall>r. record_at c' r = (if r = fi_ref win then Some m else record_at c r))
        \<and> (\<forall>i. validateExternalID i \<longrightarrow> Resolve_ref c' i =
             (if i \<noteq> fi_ref win \<and> i \<in> extKey ` set (gm_external_ids (fi_response win)) then Inr (Some (fi_ref win))
              else Resolve_ref (snd (PutRecord c (fi_ref win) (Some m))) i)))"
proof (cases "validateExternalID (fi_ref win)")
  case False
  with win show ?thesis
    by (auto simp: store_win_def PutRecord_def Let_def split: sum.splits)
next
  case True
  let ?co = "\<lparr>co_slot = cat_slot (fi_cat win), co_kind = SourceCatalogue, co_metadata = gm_metadata (fi_response win)\<rparr>"
  note st = cache_ok_store [OF ok]
  show ?thesis
  proof (cases "Merge (record_at c (fi_ref win)) ?co now")
    case (Inl e)
    with win True show ?thesis by (auto simp: store_win_def GetRecord_eq [OF st])
  next
    case (Inr m)
    obtain c1 where put: "PutRecord c (fi_ref win) (Some m) = (Inr (), c1)"
      using cache.put_total [OF ok True, of m] by (cases "PutRecord c (fi_ref win) (Some m)") auto
    then have snd_put: "snd (PutRecord c (fi_ref win) (Some m)) = c1" by simp
    let ?c1 = c1
    let ?as = "filter (\<lambda>a. a \<noteq> [] \<and> a \<noteq> fi_ref win) (remdups (map extKey (gm_external_ids (fi_response win))))"
    have ok1: "cache_ok ?c1" using PutRecord_ok [OF ok, of "fi_ref win" "Some m"] by (simp add: snd_put)
    have c': "c' = link_aliases ?c1 (fi_ref win) ?as" and res: "res = Inr ()"
      using win Inr True put by (auto simp: store_win_def GetRecord_eq [OF st])
    have get1: "GetRecord ?c1 (fi_ref win) = Inr (Some m)" using cache.get_put [OF ok True True, of m] by (simp add: snd_put)
    have rec: "record_at (snd (LinkAlias d a ref)) r = record_at d r" if "cache_ok d" for d a ref r
    proof (cases "validateExternalID a \<and> validateExternalID ref \<and> record_at d ref \<noteq> None")
      case linked: True
      then show ?thesis
        using LinkAlias_eq [OF cache_ok_store [OF that]] put_record_at(3) [OF cache_ok_store [OF that]] by simp
    next
      case False
      with that show ?thesis by (auto simp: LinkAlias_def GetRecord_eq cache_ok_store)
    qed
    have "record_at (link_aliases d ref as) r = record_at d r" if "cache_ok d" for d ref as r
      using that by (induction as arbitrary: d) (simp_all add: rec LinkAlias_ok)
    then have "record_at c' r = record_at ?c1 r" for r unfolding c' by (simp add: ok1)
    moreover have "record_at ?c1 r = (if r = fi_ref win then Some m else record_at c r)" for r
      using put_record_at(1) [OF st] by (simp add: snd_put [symmetric] PutRecord_eq [OF st True])
    moreover have "Resolve_ref c' i = (if i \<noteq> fi_ref win \<and> i \<in> extKey ` set (gm_external_ids (fi_response win))
        then Inr (Some (fi_ref win)) else Resolve_ref ?c1 i)" if "validateExternalID i" for i
      using cache.link_all_resolve [OF ok1 _ True get1, of "filter validateExternalID ?as" i] that
      by (auto simp: c' link_aliases_valid validateExternalID_def)
    ultimately show ?thesis using Inr True res by (simp add: snd_put)
  qed
qed

lemma already_enriched_eq:
  assumes "cache_ok c" and "\<forall>x \<in> set xs. validateExternalID (extKey x)"
  shows "already_enriched c xs = Inr (\<exists>x \<in> set xs. \<exists>ref. Resolve_ref c (extKey x) = Inr (Some ref))"
  using assms(2)
proof (induction xs)
  case Nil
  then show ?case by simp
next
  case (Cons x xs)
  then obtain res where res: "Resolve_ref c (extKey x) = Inr res"
    by (auto simp: Resolve_ref_eq [OF assms(1)])
  show ?case
  proof (cases res)
    case None
    with Cons res show ?thesis by simp
  next
    case (Some ref)
    with res obtain m where "GetRecord c ref = Inr (Some m)"
      using cache.resolve_get [OF assms(1)] by blast
    with res Some show ?thesis by simp
  qed
qed

lemma Enrich_cases:
  assumes "Enrich evidence cats opts now c i = (res, c')"
  shows "c' = c \<or> (\<exists>ev full k. evidence i = Inr (Some ev) \<and> already_enriched c (ee_external_ids ev) = Inr False
     \<and> full = fetch_details (candidate_pool cats ev)
         (Screen opts (entry_item_of ev) (map (\<lambda>p. candidateItem (snd p)) (candidate_pool cats ev)))
     \<and> Adopt opts (entry_item_of ev) (map fi_item full) = Some k \<and> store_win c (full ! k) now = (res, c'))"
proof (cases "evidence i")
  case (Inl e)
  with assms show ?thesis by (simp add: Enrich_def)
next
  case found: (Inr o')
  show ?thesis
  proof (cases o')
    case None
    with found assms show ?thesis by (simp add: Enrich_def)
  next
    case ev: (Some ev)
    show ?thesis
    proof (cases "already_enriched c (ee_external_ids ev) = Inr False")
      case False
      with found ev assms show ?thesis by (auto simp: Enrich_def split: sum.splits bool.splits)
    next
      case True
      let ?sv = "Screen opts (entry_item_of ev) (map (\<lambda>p. candidateItem (snd p)) (candidate_pool cats ev))"
      let ?full = "fetch_details (candidate_pool cats ev) ?sv"
      have eq: "(if ?sv = [] then (Inr (), c) else if ?full = [] then (Inl EN_details, c)
          else case Adopt opts (entry_item_of ev) (map fi_item ?full) of
            None \<Rightarrow> (Inr (), c) | Some picked \<Rightarrow> store_win c (?full ! picked) now) = (res, c')"
        using assms [unfolded Enrich_def Let_def] by (simp only: found ev True sum.case option.case bool.case)
      show ?thesis
      proof (cases "?sv = [] \<or> ?full = [] \<or> Adopt opts (entry_item_of ev) (map fi_item ?full) = None")
        case True
        with eq have "c' = c" by (elim disjE) (simp_all split: if_splits)
        then show ?thesis ..
      next
        case False
        then obtain k where "Adopt opts (entry_item_of ev) (map fi_item ?full) = Some k" by blast
        with False eq found ev \<open>already_enriched _ _ = _\<close> show ?thesis by simp
      qed
    qed
  qed
qed

lemma corroborated_merges: "v_corroborated (Decide opts a b) \<Longrightarrow> v_merge (Decide opts a b)"
  unfolding Decide_corroborated Decide_merge_iff by blast

lemma Adopt_merges:
  assumes "Adopt opts a cs = Some k"
  shows "k < length cs \<and> v_merge (Decide opts a (cs ! k))"
proof -
  from assms consider "hits v_corroborated 0 (Select opts a cs) = [k]" | "hits v_merge 0 (Select opts a cs) = [k]"
    unfolding Adopt_iff_hits by blast
  then show ?thesis
  proof cases
    case 1
    then have k: "k < length cs" and "v_corroborated (map (Decide opts a) cs ! k)"
      unfolding hits_single_iff Select_def length_map by blast+
    then have "v_corroborated (Decide opts a (cs ! k))" by simp
    with k show ?thesis using corroborated_merges [of opts a "cs ! k"] by simp
  next
    case 2
    then have k: "k < length cs" and "v_merge (map (Decide opts a) cs ! k)"
      unfolding hits_single_iff Select_def length_map by blast+
    then show ?thesis by simp
  qed
qed

subsection \<open>Properties\<close>


definition tmdb :: Contribution where
  "tmdb = \<lparr>co_slot = ''tmdb'', co_kind = SourceCatalogue,
     co_metadata = Some (empty_metadata\<lparr>md_title := ''Alien'', md_year := 1979\<rparr>)\<rparr>"

definition owned_record :: TitleMetadata where
  "owned_record = empty_metadata\<lparr>md_title := ''Alien!'', md_year := 1978,
     md_source := [(''base.title'', \<lparr>es_slot = ''provider:x'', es_fetched_at = 0\<rparr>),
                   (''base.year'', \<lparr>es_slot = ''catalogue:omdb'', es_fetched_at = 0\<rparr>)]\<rparr>"

lemma tmdb_slot: "TrimSpace (co_slot tmdb) = ''tmdb''"
  unfolding tmdb_def by (simp add: TrimSpace_ascii ascii_def IsSpace_def)

lemma tmdb_merges: "\<exists>out. Merge (Some owned_record) tmdb 5 = Inr out"
  by (simp add: Merge_def tmdb_slot) (simp add: tmdb_def)


text \<open>The extra map is merged key by key under the same rule: the contribution's value is taken
  exactly for the keys it carries and may take over, and no key is removed.\<close>
theorem Merge_extra:
  assumes "Merge (Some cur) c now = Inr out" and "co_metadata c = Some src"
  shows "map_of (md_extra out) k =
     (case map_of (md_extra src) k of
        Some v \<Rightarrow> if takeOver (map_of (md_source cur) (extraPath k)) c then Some v else map_of (md_extra cur) k
      | None \<Rightarrow> map_of (md_extra cur) k)"
proof -
  let ?m = "fold (mergeInto c now) (typedFields src) cur"
  from assms have out: "out = fold (mergeExtra c now) (sorted_extra (md_extra src)) ?m"
    by (simp add: Merge_def split: if_splits)
  have "extraPath k \<notin> tf_path ` set (typedFields src)"
    by (simp add: typedFields_def extraPath_def)
  then have "map_of (md_source ?m) (extraPath k) = map_of (md_source cur) (extraPath k)" "md_extra ?m = md_extra cur"
    using fold_merge [OF order_refl paths_distinct, of c now src cur "extraPath k"] wins_other by auto
  then show ?thesis
    using fold_extra(3) [OF sorted_extra_keys, of c now "md_extra src" ?m k]
    by (simp add: out map_of_sorted_extra split: option.splits)
qed

theorem Merge_extra_witness:
  "\<exists>out. Merge (Some owned_record) tmdb 5 = Inr out \<and> map_of (md_extra out) ''k'' = None"
proof -
  obtain out where out: "Merge (Some owned_record) tmdb 5 = Inr out" using tmdb_merges by blast
  from Merge_extra [OF this, of _ "''k''"] show ?thesis
    by (simp add: tmdb_def out [unfolded tmdb_def]) (simp add: empty_metadata_def owned_record_def)
qed

definition series_record :: TitleMetadata where
  "series_record = empty_metadata\<lparr>md_title := ''Alien'', md_kind_specific := Some (Series 3 30),
     md_source := [(''series.total_seasons'', \<lparr>es_slot = ''catalogue:omdb'', es_fetched_at = 0\<rparr>)]\<rparr>"

text \<open>The movie and series fields share one slot: a runtime merged into a record with series data of
  another catalogue removes those values, while their provenance still names that catalogue.\<close>
theorem Merge_oneof_overwrites:
  "\<exists>out. Merge (Some series_record) (tmdb\<lparr>co_metadata := Some (empty_metadata\<lparr>md_kind_specific := Some (Movie 90)\<rparr>)\<rparr>) 5 = Inr out
     \<and> md_kind_specific out = Some (Movie 90)
     \<and> map_of (md_source out) ''series.total_seasons'' = Some \<lparr>es_slot = ''catalogue:omdb'', es_fetched_at = 0\<rparr>"
proof -
  let ?c = "tmdb\<lparr>co_metadata := Some (empty_metadata\<lparr>md_kind_specific := Some (Movie 90)\<rparr>)\<rparr>"
  have "Merge (Some series_record) ?c 5 = Inr (fold (mergeInto ?c 5)
      (typedFields (empty_metadata\<lparr>md_kind_specific := Some (Movie 90)\<rparr>)) series_record)"
    using tmdb_slot by (simp add: Merge_def sorted_extra_def empty_metadata_def)
  moreover have "fold (mergeInto ?c 5) (typedFields (empty_metadata\<lparr>md_kind_specific := Some (Movie 90)\<rparr>)) series_record
      = stamp ''movie.runtime_minutes'' ?c 5 (patchMovie 90 series_record)"
    by (simp add: typedFields_def mergeInto_def empty_metadata_def runtime_minutes_def total_seasons_def
        total_episodes_def takeOver_def series_record_def)
  ultimately show ?thesis by (simp add: patchMovie_def) (simp add: series_record_def)
qed

text \<open>C5: A drain tick loses and repeats nothing: the ids handed to the callback are the oldest pending
  ones in order, each once, and the queue keeps exactly the others; without a cancellation every
  pending id is handled and the queue is empty.\<close>
theorem drain_exact:
  assumes "queue_ok q" and "drain enrich cancelled n w q = (w', q', done)"
  shows "(\<exists>rest. q_pending q = done @ rest \<and> mset (q_pending q') = mset rest) \<and> distinct done
     \<and> w' = run_all enrich done w
     \<and> ((\<forall>n. \<not> cancelled n) \<longrightarrow> done = q_pending q \<and> q_pending q' = [])"
proof -
  obtain rest where rest: "q_pending q = done @ rest" "mset (q_pending q') = mset rest"
    and w': "w' = run_all enrich done w"
    using drain_spec [OF assms] by blast
  have "distinct done" using queue.pending_distinct [OF assms(1)] rest by simp
  moreover have "(\<forall>n. \<not> cancelled n) \<Longrightarrow> done = q_pending q \<and> q_pending q' = []"
    using drain_all [OF assms(1), of cancelled enrich n w] assms(2) rest by auto
  ultimately show ?thesis using rest w' by blast
qed

definition demo_queue :: InMemoryQueue where
  "demo_queue = Enqueue (Enqueue (Enqueue NewInMemoryQueue ''a'') ''b'') ''a''"

theorem drain_exact_witness:
  "\<exists>w q' done. drain (\<lambda>w i. (True, i # w)) (\<lambda>_. False) 0 [] demo_queue = (w, q', done) \<and> q_pending q' = []"
proof -
  have ok: "queue_ok demo_queue"
    by (auto simp: demo_queue_def Enqueue_def NewInMemoryQueue_def queue_ok_def)
  obtain w q' d where d: "drain (\<lambda>w i. (True, i # w)) (\<lambda>_. False) 0 [] demo_queue = (w, q', d)"
    by (metis prod_cases3)
  from drain_exact [OF ok this] d show ?thesis by blast
qed


definition film_evidence :: EntryEvidence where
  "film_evidence = \<lparr>ee_kind = IK_MOVIE,
     ee_metadata = Some (empty_metadata\<lparr>md_title := ''Alien'', md_year := 1979\<rparr>),
     ee_external_ids = [Some \<lparr>eid_namespace = ''imdb'', eid_value = ''2''\<rparr>]\<rparr>"

definition film_details :: GetMetadataResponse where
  "film_details = \<lparr>gm_metadata = Some (empty_metadata\<lparr>md_title := ''Alien''\<rparr>),
     gm_external_ids = [Some \<lparr>eid_namespace = ''imdb'', eid_value = ''2''\<rparr>]\<rparr>"

definition film_candidate :: TitleCandidate where
  "film_candidate = \<lparr>tc_ref = ''tmdb:9'', tc_kind = IK_MOVIE, tc_title = ''Alien'', tc_original_title = [],
     tc_year = 1979, tc_external_ids = []\<rparr>"

definition film_catalogue :: Catalogue where
  "film_catalogue = \<lparr>cat_slot = ''tmdb'', cat_LookupTitle = (\<lambda>_ _ _. Some [Some film_candidate]),
     cat_GetMetadata = (\<lambda>_. Some film_details)\<rparr>"

lemma film_pool: "candidate_pool [film_catalogue] film_evidence = [(film_catalogue, Some film_candidate)]"
  by (simp add: candidate_pool_def film_catalogue_def)

lemma film_screen:
  "Screen plain_options (entry_item_of film_evidence) [candidateItem (Some film_candidate)] = [0]"
proof -
  have "titleEq plain_options ''Alien'' ''Alien''"
    by (simp add: titleEq_def NormalizeTitle_plain ascii_def IsSpace_def)
  then have "screens plain_options (entry_item_of film_evidence) (candidateItem (Some film_candidate))"
    by (simp add: screens_def entry_item_of_def film_evidence_def candidateItem_def film_candidate_def sameKind_def
        titlesAgree_def yearsMatch_def contradicts_def claimedIDs_def)
  then show ?thesis by (simp add: Screen_def)
qed

definition film_win :: fullItem where
  "film_win = \<lparr>fi_cat = film_catalogue, fi_ref = ''tmdb:9'', fi_response = film_details,
     fi_item = \<lparr>it_kind = IK_MOVIE, it_external_ids = claimedIDs (Some film_candidate) @ gm_external_ids film_details,
       it_metadata = gm_metadata film_details, it_alt_titles = []\<rparr>\<rparr>"

lemma film_full: "fetch_details [(film_catalogue, Some film_candidate)] [0] = [film_win]"
  by (simp add: fetch_details_def List.map_filter_simps film_win_def) (simp add: film_catalogue_def film_candidate_def)

lemma film_adopt: "Adopt plain_options (entry_item_of film_evidence) [fi_item film_win] = Some 0"
proof -
  have "v_corroborated (Decide plain_options (entry_item_of film_evidence) (fi_item film_win))"
    unfolding Decide_corroborated corroborationMatch_iff
    by (simp add: entry_item_of_def film_evidence_def film_win_def film_details_def sameKind_def)
  then show ?thesis by (simp add: Adopt_iff_hits Select_def)
qed

lemma film_enrich:
  "Enrich (\<lambda>_. Inr (Some film_evidence)) [film_catalogue] plain_options 0 NewInMemory ''e''
     = store_win NewInMemory film_win 0"
proof -
  have "record_at NewInMemory r = None" "alias_at NewInMemory r = None" for r
    by (simp_all add: record_at_def alias_at_def view_def NewInMemory_def)
  then have "already_enriched NewInMemory (ee_external_ids film_evidence) = Inr False"
    by (simp add: film_evidence_def extKey_def Resolve_ref_eq [OF cache_ok_new] validateExternalID_def)
  then show ?thesis
    by (simp add: Enrich_def film_pool film_screen film_full film_adopt Let_def)
qed


text \<open>When an asserted id of the entry already resolves in the cache, Enrich is done: no catalogue is
  asked and nothing changes.\<close>
theorem Enrich_known:
  assumes "cache_ok c" and "evidence i = Inr (Some ev)" and "\<forall>x \<in> set (ee_external_ids ev). validateExternalID (extKey x)"
    and "x \<in> set (ee_external_ids ev)" and "Resolve_ref c (extKey x) = Inr (Some ref)"
  shows "Enrich evidence cats opts now c i = (Inr (), c)"
proof -
  have "already_enriched c (ee_external_ids ev) = Inr True"
    unfolding already_enriched_eq [OF assms(1,3)] using assms(4,5) by blast
  then show ?thesis by (simp add: Enrich_def assms(2))
qed

theorem Enrich_known_witness:
  "Enrich (\<lambda>_. Inr (Some film_evidence)) [film_catalogue] plain_options 0 demo_cache ''e'' = (Inr (), demo_cache)"
proof -
  let ?x = "Some \<lparr>eid_namespace = ''imdb'', eid_value = ''2''\<rparr>"
  have key: "extKey ?x = ''imdb:2''" by (simp add: extKey_def)
  have "Resolve_ref demo_cache (extKey ?x) = Inr (Some ''tmdb:1'')"
    unfolding key by (rule demo_cache_resolves)
  then show ?thesis
    by (rule Enrich_known [OF cache_reachable_ok [OF demo_cache_reachable] refl, rotated 2])
      (simp_all add: film_evidence_def key demo_ids)
qed

end
