(* ===== verification/Policy.thy ===== *)
theory Policy
  imports Complex_Main Strconv Utf8
begin

text \<open>
  \<open>internal/policy/policy.go\<close>: the limit vocabulary. A \<open>Set\<close> is a Go map from limit keys to
  values; an operator's block is validated entry by entry, laid over the shipped defaults, and read
  back by the delivery engine as a concurrent-stream ceiling.

  \<open>strconv.ParseFloat\<close> and \<open>time.ParseDuration\<close> compute in IEEE arithmetic and are arguments of the
  model: \<open>None\<close> is their error. A \<open>float64\<close> is its exact value, with the infinities and NaN apart,
  and every comparison with NaN is false, as in Go.
\<close>

subsection \<open>Sets\<close>

type_synonym policy_set = "(string \<times> string) list"

definition KeyConcurrentStreams :: string where "KeyConcurrentStreams = ''concurrentStreams''"
definition KeyBandwidth :: string where "KeyBandwidth = ''bandwidth''"
definition KeyEncode :: string where "KeyEncode = ''encode''"
definition KeyTimeWindow :: string where "KeyTimeWindow = ''timeWindow''"
definition KeyMemberMonthlyQuota :: string where "KeyMemberMonthlyQuota = ''memberMonthlyQuotaHours''"
definition KeyPacingRequestsPerSec :: string where "KeyPacingRequestsPerSec = ''pacingRequestsPerSecond''"
definition KeyPacingMaxPulls :: string where "KeyPacingMaxPulls = ''pacingMaxConcurrentPulls''"
definition KeyPacingDelay :: string where "KeyPacingDelay = ''pacingInterRequestDelay''"
definition KeyPacingRetries :: string where "KeyPacingRetries = ''pacingRetries''"

lemmas policy_keys = KeyConcurrentStreams_def KeyBandwidth_def KeyEncode_def KeyTimeWindow_def
  KeyMemberMonthlyQuota_def KeyPacingRequestsPerSec_def KeyPacingMaxPulls_def KeyPacingDelay_def
  KeyPacingRetries_def

definition defaults :: policy_set where
  "defaults = [(KeyConcurrentStreams, ''3''), (KeyBandwidth, ''unlimited''), (KeyEncode, ''disabled'')]"

text \<open>The loop \<open>for k, v := range overlay { out[k] = v }\<close> of \<open>Clone\<close> and \<open>With\<close>.\<close>

fun set_all :: "policy_set \<Rightarrow> policy_set \<Rightarrow> policy_set" where
  "set_all out [] = out"
| "set_all out ((k, v) # m) = set_all (AList.update k v out) m"

definition Clone :: "policy_set \<Rightarrow> policy_set" where
  "Clone m = set_all [] m"

definition Defaults :: policy_set where
  "Defaults = Clone defaults"

definition With :: "policy_set \<Rightarrow> policy_set \<Rightarrow> policy_set" where
  "With s overlay = set_all (Clone s) overlay"

definition Streams :: "policy_set \<Rightarrow> int \<times> bool" where
  "Streams s =
     (case map_of s KeyConcurrentStreams of
        None \<Rightarrow> (0, False)
      | Some v \<Rightarrow> (Atoi_value v, True))"

definition EffectiveAccountLimit :: "policy_set \<Rightarrow> policy_set \<Rightarrow> int" where
  "EffectiveAccountLimit accountPolicy providerCap =
     (let (limit, hasLimit) = Streams accountPolicy;
          (capLimit, hasCap) = Streams providerCap
      in if hasCap \<and> (\<not> hasLimit \<or> capLimit < limit) then capLimit
         else if \<not> hasLimit then 0
         else limit)"

subsection \<open>Validation\<close>

datatype go_float = Finite rat | PosInf | NegInf | NaN

definition not_positive :: "go_float \<Rightarrow> bool" where
  "not_positive f = (case f of Finite q \<Rightarrow> q \<le> 0 | PosInf \<Rightarrow> False | NegInf \<Rightarrow> True | NaN \<Rightarrow> False)"

record go_parsers =
  ParseFloat :: "string \<Rightarrow> go_float option"
  ParseDuration :: "string \<Rightarrow> int option"

datatype policy_error =
    BadStreams string | BadBandwidth string | BadEncode string | EmptyValue string
  | BadRate string | BadPulls string | BadDelay string | BadRetries string
  | UnknownLimit string

definition CutSuffix :: "string \<Rightarrow> string \<Rightarrow> string \<times> bool" where
  "CutSuffix s p = (if suffix p s then (take (length s - length p) s, True) else (s, False))"

definition validBandwidth :: "string \<Rightarrow> bool" where
  "validBandwidth s =
     (let (v, found) = CutSuffix s ''Mbps''
      in if \<not> found \<or> v = [] then False
         else (case Atoi v of None \<Rightarrow> False | Some n \<Rightarrow> n > 0))"

text \<open>One pass of the loop of \<open>validate\<close>: the switch on the key.\<close>

definition validate_entry :: "go_parsers \<Rightarrow> string \<Rightarrow> string \<Rightarrow> policy_error option" where
  "validate_entry P k v =
     (if k = KeyConcurrentStreams then
        (case Atoi v of None \<Rightarrow> Some (BadStreams v) | Some n \<Rightarrow> if n < 1 then Some (BadStreams v) else None)
      else if k = KeyBandwidth then
        (if v \<noteq> ''unlimited'' \<and> \<not> validBandwidth v then Some (BadBandwidth v) else None)
      else if k = KeyEncode then
        (if v \<noteq> ''enabled'' \<and> v \<noteq> ''disabled'' then Some (BadEncode v) else None)
      else if k = KeyTimeWindow \<or> k = KeyMemberMonthlyQuota then
        (if TrimSpace v = [] then Some (EmptyValue k) else None)
      else if k = KeyPacingRequestsPerSec then
        (case ParseFloat P v of None \<Rightarrow> Some (BadRate v) | Some f \<Rightarrow> if not_positive f then Some (BadRate v) else None)
      else if k = KeyPacingMaxPulls then
        (case Atoi v of None \<Rightarrow> Some (BadPulls v) | Some n \<Rightarrow> if n < 1 then Some (BadPulls v) else None)
      else if k = KeyPacingDelay then
        (case ParseDuration P v of None \<Rightarrow> Some (BadDelay v) | Some d \<Rightarrow> if d \<le> 0 then Some (BadDelay v) else None)
      else if k = KeyPacingRetries then
        (case Atoi v of None \<Rightarrow> Some (BadRetries v) | Some n \<Rightarrow> if n < 0 then Some (BadRetries v) else None)
      else Some (UnknownLimit k))"

fun validate :: "go_parsers \<Rightarrow> policy_set \<Rightarrow> policy_error option" where
  "validate P [] = None"
| "validate P ((k, v) # raw) =
     (case validate_entry P k v of Some e \<Rightarrow> Some e | None \<Rightarrow> validate P raw)"

definition ParseInstance :: "go_parsers \<Rightarrow> policy_set \<Rightarrow> policy_error + policy_set" where
  "ParseInstance P raw =
     (case validate P raw of Some e \<Rightarrow> Inl e | None \<Rightarrow> Inr (With Defaults raw))"

definition ParseOverlay :: "go_parsers \<Rightarrow> policy_set \<Rightarrow> policy_error + policy_set" where
  "ParseOverlay P raw = (case validate P raw of Some e \<Rightarrow> Inl e | None \<Rightarrow> Inr (Clone raw))"

subsection \<open>Reading a composed set\<close>

lemma set_all_get: "distinct (map fst m) \<Longrightarrow>
    map_of (set_all out m) k = (case map_of m k of Some v \<Rightarrow> Some v | None \<Rightarrow> map_of out k)"
  by (induction out m rule: set_all.induct) (auto split: option.splits dest: map_of_Some_keys simp: rev_image_eqI)

lemma Clone_get [simp]: "distinct (map fst m) \<Longrightarrow> map_of (Clone m) k = map_of m k"
  by (simp add: Clone_def set_all_get split: option.splits)

lemma With_get: "distinct (map fst s) \<Longrightarrow> distinct (map fst m) \<Longrightarrow>
    map_of (With s m) k = (case map_of m k of Some v \<Rightarrow> Some v | None \<Rightarrow> map_of s k)"
  by (simp add: With_def set_all_get split: option.splits)

lemma set_all_distinct: "distinct (map fst out) \<Longrightarrow> distinct (map fst (set_all out m))"
  by (induction out m rule: set_all.induct) auto

lemma With_distinct [simp]: "distinct (map fst (With s m))"
  by (simp add: With_def Clone_def set_all_distinct)

lemma Clone_distinct [simp]: "distinct (map fst (Clone m))"
  by (simp add: Clone_def set_all_distinct)

lemma Defaults_distinct [simp]: "distinct (map fst Defaults)"
  by (simp add: Defaults_def)

lemma Defaults_Streams [simp]: "map_of Defaults KeyConcurrentStreams = Some ''3''"
  by (simp add: Defaults_def Clone_def defaults_def policy_keys)

lemma validate_None_iff: "validate P raw = None \<longleftrightarrow> (\<forall>(k, v) \<in> set raw. validate_entry P k v = None)"
  by (induction P raw rule: validate.induct) (auto split: option.splits)

lemma validate_Streams:
  assumes "validate P raw = None" and "map_of raw KeyConcurrentStreams = Some v"
  shows "\<exists>n. Atoi v = Some n \<and> 1 \<le> n"
proof -
  have "(KeyConcurrentStreams, v) \<in> set raw" using assms(2) by (rule map_of_SomeD)
  with assms(1) have "validate_entry P KeyConcurrentStreams v = None" by (auto simp: validate_None_iff)
  then show ?thesis by (auto simp: validate_entry_def split: option.splits if_splits)
qed

lemma validate_NaN_rate:
  "ParseFloat P v = Some NaN \<Longrightarrow> validate_entry P KeyPacingRequestsPerSec v = None"
  by (simp add: validate_entry_def not_positive_def policy_keys)

lemma validated_at_least_one:
  assumes "validate P raw = None" and "map_of raw KeyConcurrentStreams = Some v"
  shows "1 \<le> Atoi_value v"
  using validate_Streams [OF assms] Atoi_value_Some by auto

lemma Atoi_value_3: "Atoi_value ''3'' = 3"
  by (rule Atoi_value_Some) (simp add: Atoi_def char_digit_def)

lemma ParseInstance_Inr: "ParseInstance P raw = Inr s \<longleftrightarrow> validate P raw = None \<and> s = With Defaults raw"
  by (auto simp: ParseInstance_def split: option.splits)

lemma ParseOverlay_Inr: "ParseOverlay P raw = Inr s \<longleftrightarrow> validate P raw = None \<and> s = Clone raw"
  by (auto simp: ParseOverlay_def split: option.splits)

lemma EffectiveAccountLimit_eq:
  "EffectiveAccountLimit s c =
     (case (map_of s KeyConcurrentStreams, map_of c KeyConcurrentStreams) of
        (None, None) \<Rightarrow> 0
      | (Some v, None) \<Rightarrow> Atoi_value v
      | (None, Some w) \<Rightarrow> Atoi_value w
      | (Some v, Some w) \<Rightarrow> min (Atoi_value v) (Atoi_value w))"
  by (auto simp: EffectiveAccountLimit_def Streams_def Let_def split: option.splits)

lemma EffectiveAccountLimit_none [simp]: "EffectiveAccountLimit [] [] = 0"
  by (simp add: EffectiveAccountLimit_eq)

subsection \<open>Properties\<close>

definition streams_in_effect :: "policy_set \<Rightarrow> policy_set \<Rightarrow> int" where
  "streams_in_effect raw override =
     (case map_of override KeyConcurrentStreams of
        Some v \<Rightarrow> Atoi_value v
      | None \<Rightarrow> (case map_of raw KeyConcurrentStreams of Some v \<Rightarrow> Atoi_value v | None \<Rightarrow> 3))"

text \<open>For an operator block, an account override and a provider cap that all pass validation, the
  account's effective stream limit is the lesser of the number in effect (the override's, else the
  block's, else the shipped 3) and the declared cap, and it is never below one.\<close>

theorem EffectiveAccountLimit_composed:
  assumes "distinct (map fst raw)" and "distinct (map fst override)" and "distinct (map fst capraw)"
    and "ParseInstance P raw = Inr inst" and "ParseOverlay P override = Inr over"
    and "ParseOverlay P capraw = Inr cap"
  shows "EffectiveAccountLimit (With inst over) cap =
           (case map_of capraw KeyConcurrentStreams of
              None \<Rightarrow> streams_in_effect raw override
            | Some w \<Rightarrow> min (streams_in_effect raw override) (Atoi_value w))
         \<and> 1 \<le> EffectiveAccountLimit (With inst over) cap"
proof -
  have v: "validate P raw = None" "validate P override = None" "validate P capraw = None"
    and e: "inst = With Defaults raw" "over = Clone override" "cap = Clone capraw"
    using assms(4-6) by (simp_all add: ParseInstance_Inr ParseOverlay_Inr)
  have "map_of (With inst over) KeyConcurrentStreams =
      (case map_of override KeyConcurrentStreams of Some v \<Rightarrow> Some v
       | None \<Rightarrow> (case map_of raw KeyConcurrentStreams of Some v \<Rightarrow> Some v | None \<Rightarrow> Some ''3''))"
    using assms(1,2) by (simp add: e With_get split: option.splits)
  moreover have "1 \<le> streams_in_effect raw override"
    using validated_at_least_one [OF v(1)] validated_at_least_one [OF v(2)]
    by (auto simp: streams_in_effect_def split: option.splits)
  ultimately show ?thesis
    using assms(3) validated_at_least_one [OF v(3)]
    by (auto simp: EffectiveAccountLimit_eq e streams_in_effect_def Atoi_value_3 split: option.splits)
qed

lemma EffectiveAccountLimit_composed_witness:
  "EffectiveAccountLimit (With (With Defaults []) (Clone [(KeyConcurrentStreams, ''5'')]))
     (Clone [(KeyConcurrentStreams, ''2'')]) = 2"
proof -
  define P :: go_parsers where "P = \<lparr>ParseFloat = (\<lambda>_. None), ParseDuration = (\<lambda>_. None)\<rparr>"
  have a: "Atoi ''5'' = Some 5" "Atoi ''2'' = Some 2" by (simp_all add: Atoi_def char_digit_def)
  show ?thesis
    using EffectiveAccountLimit_composed [of "[]" "[(KeyConcurrentStreams, ''5'')]"
        "[(KeyConcurrentStreams, ''2'')]" P "With Defaults []" "Clone [(KeyConcurrentStreams, ''5'')]"
        "Clone [(KeyConcurrentStreams, ''2'')]"] a
    by (simp add: ParseInstance_def ParseOverlay_def validate_entry_def streams_in_effect_def Atoi_value_Some)
qed

end
