(* ===== verification/Relay.thy ===== *)
theory Relay
  imports Strconv
begin

text \<open>
  \<open>internal/delivery/relay.go\<close> and \<open>relay_handler.go\<close>: the registry of tickets through which a
  session's tracks are pulled. A ticket's fetch closure is the location and the auth context
  \<open>fetchFrom\<close> captures; the provider's HTTP answer to a request is an argument, \<open>http\<close>.

  The world the sinks share holds the tickets, the relay's clock, the byte strings \<open>rand.Read\<close>
  will deliver, and the files of the instance-local disk. The handler's \<open>http.Error\<close> texts are
  left out: an answer is its status, or the streamed response.
\<close>

subsection \<open>Tickets\<close>

record fetch_func =
  ff_location :: string
  ff_auth :: string

record ticket =
  tk_session :: string
  tk_track :: string
  tk_fetch :: fetch_func
  tk_expiry :: int

record world =
  w_tickets :: "(string \<times> ticket) list"
  w_now :: int
  w_random :: "string list"
  w_files :: "(string \<times> string) list"

datatype relay_error = RelayArguments | RelayTTL | RelayUnknownToken | RelayExpired
  | RelayFetch string | RelayBadStatus int | RelayRandPanic

definition Grant :: "string \<Rightarrow> string \<Rightarrow> fetch_func option \<Rightarrow> int \<Rightarrow> world \<Rightarrow> (relay_error + string) \<times> world" where
  "Grant sessionID trackID fetch ttl w =
     (case fetch of
        None \<Rightarrow> (Inl RelayArguments, w)
      | Some f \<Rightarrow>
          if sessionID = [] \<or> trackID = [] then (Inl RelayArguments, w)
          else if ttl \<le> 0 then (Inl RelayTTL, w)
          else (case w_random w of
                  [] \<Rightarrow> (Inl RelayRandPanic, w)
                | b # bs \<Rightarrow>
                    (Inr (EncodeToString b),
                     w\<lparr>w_random := bs,
                       w_tickets := AList.update (EncodeToString b)
                         \<lparr>tk_session = sessionID, tk_track = trackID, tk_fetch = f, tk_expiry = w_now w + ttl\<rparr>
                         (w_tickets w)\<rparr>)))"

subsection \<open>Pulls\<close>

record FetchResult =
  fr_status :: int
  fr_header :: "(string \<times> string) list"
  fr_body :: string

text \<open>\<open>http url headers\<close>: what creating and doing the GET request answers.\<close>

type_synonym http = "string \<Rightarrow> (string \<times> string) list \<Rightarrow> string + FetchResult"

definition fetchFrom :: "http \<Rightarrow> fetch_func \<Rightarrow> string \<Rightarrow> relay_error + FetchResult" where
  "fetchFrom http f rangeHeader =
     (case http (ff_location f)
             ((if ff_auth f \<noteq> [] then [(''Authorization'', ff_auth f)] else [])
              @ (if rangeHeader \<noteq> [] then [(''Range'', rangeHeader)] else [])) of
        Inl e \<Rightarrow> Inl (RelayFetch e)
      | Inr r \<Rightarrow> if fr_status r \<noteq> 200 \<and> fr_status r \<noteq> 206 then Inl (RelayBadStatus (fr_status r)) else Inr r)"

text \<open>The options of \<open>Open\<close> are the values given to \<open>WithRange\<close>; the last one counts.\<close>

definition Open :: "http \<Rightarrow> string \<Rightarrow> string list \<Rightarrow> world \<Rightarrow> relay_error + FetchResult" where
  "Open http token opts w =
     (case map_of (w_tickets w) token of
        None \<Rightarrow> Inl RelayUnknownToken
      | Some t \<Rightarrow>
          if tk_expiry t < w_now w then Inl RelayExpired
          else fetchFrom http (tk_fetch t) (fold (\<lambda>v _. v) opts []))"

definition TokenTrack :: "string \<Rightarrow> world \<Rightarrow> string \<times> string \<times> bool" where
  "TokenTrack token w =
     (case map_of (w_tickets w) token of
        None \<Rightarrow> ([], [], False)
      | Some t \<Rightarrow> (tk_session t, tk_track t, True))"

definition Revoke :: "string \<Rightarrow> world \<Rightarrow> world" where
  "Revoke sessionID w = w\<lparr>w_tickets := filter (\<lambda>(tok, t). tk_session t \<noteq> sessionID) (w_tickets w)\<rparr>"

definition relayPassthroughHeaders :: "string list" where
  "relayPassthroughHeaders = [''Accept-Ranges'', ''Cache-Control'', ''Content-Length'', ''Content-Range'', ''Content-Type'']"

datatype http_response = HttpError int | Stream int "(string \<times> string) list" string

definition header_get :: "(string \<times> string) list \<Rightarrow> string \<Rightarrow> string" where
  "header_get h k = (case map_of h k of None \<Rightarrow> [] | Some v \<Rightarrow> v)"

definition passthrough :: "(string \<times> string) list \<Rightarrow> (string \<times> string) list" where
  "passthrough h =
     fold (\<lambda>k out. if header_get h k \<noteq> [] then AList.update k (header_get h k) out else out)
       relayPassthroughHeaders []"

definition ServeHTTP :: "http \<Rightarrow> world option \<Rightarrow> string \<Rightarrow> string \<Rightarrow> http_response" where
  "ServeHTTP http relay path rng =
     (case relay of
        None \<Rightarrow> HttpError 503
      | Some w \<Rightarrow>
          let token = TrimPrefix path ''/media/relay/''
          in if token = [] \<or> Contains token ''/'' then HttpError 400
             else (case Open http token [rng] w of
                     Inl e \<Rightarrow> HttpError 403
                   | Inr res \<Rightarrow>
                       let hdrs = passthrough (fr_header res)
                       in Stream (fr_status res)
                            (if header_get hdrs ''Content-Type'' = []
                             then AList.update ''Content-Type'' ''application/octet-stream'' hdrs else hdrs)
                            (fr_body res)))"

subsection \<open>Which sessions a relay serves\<close>

definition serves :: "world \<Rightarrow> string \<Rightarrow> bool" where
  "serves w sid \<longleftrightarrow> (\<exists>(tok, t) \<in> set (w_tickets w). tk_session t = sid)"

text \<open>A relay is sound when its tokens are distinct and those still to come are new.\<close>

definition relay_ok :: "world \<Rightarrow> bool" where
  "relay_ok w \<longleftrightarrow> distinct (map fst (w_tickets w)) \<and> distinct (w_random w)
     \<and> (\<forall>b \<in> set (w_random w). EncodeToString b \<notin> set (map fst (w_tickets w)))"

lemma Revoke_not_serves [simp]: "\<not> serves (Revoke sid w) sid"
  by (auto simp: serves_def Revoke_def)

lemma Revoke_serves_iff: "serves (Revoke sid w) sid' \<longleftrightarrow> serves w sid' \<and> sid' \<noteq> sid"
  by (auto simp: serves_def Revoke_def)

lemma Revoke_relay_ok: "relay_ok w \<Longrightarrow> relay_ok (Revoke sid w)"
  by (auto simp: relay_ok_def Revoke_def distinct_map_filter)

lemma Revoke_rest [simp]:
  "w_now (Revoke sid w) = w_now w" "w_random (Revoke sid w) = w_random w" "w_files (Revoke sid w) = w_files w"
  by (simp_all add: Revoke_def)

lemma update_new_key: "k \<notin> set (map fst m) \<Longrightarrow> AList.update k v m = m @ [(k, v)]"
  by (induction m) auto

lemma Grant_Inr:
  assumes "Grant sid tid f ttl w = (Inr tok, w')"
  obtains b bs ff where "w_random w = b # bs" and "tok = EncodeToString b" and "f = Some ff"
    and "0 < ttl" and "sid \<noteq> []" and "tid \<noteq> []"
    and "w' = w\<lparr>w_random := bs, w_tickets := AList.update tok
       \<lparr>tk_session = sid, tk_track = tid, tk_fetch = ff, tk_expiry = w_now w + ttl\<rparr> (w_tickets w)\<rparr>"
  using assms by (auto simp: Grant_def split: option.splits if_splits list.splits)

lemma Grant_new:
  assumes "relay_ok w" and "Grant sid tid f ttl w = (Inr tok, w')"
  obtains t where "w_tickets w' = w_tickets w @ [(tok, t)]" and "tk_session t = sid" and "tk_track t = tid"
    and "tk_expiry t = w_now w + ttl" and "f = Some (tk_fetch t)" and "tok \<notin> set (map fst (w_tickets w))"
    and "relay_ok w'"
proof (rule Grant_Inr [OF assms(2)])
  fix b bs ff
  assume w: "w_random w = b # bs" "tok = EncodeToString b" "f = Some ff"
    "w' = w\<lparr>w_random := bs, w_tickets := AList.update tok
       \<lparr>tk_session = sid, tk_track = tid, tk_fetch = ff, tk_expiry = w_now w + ttl\<rparr> (w_tickets w)\<rparr>"
  have new: "tok \<notin> set (map fst (w_tickets w))"
    and later: "b \<notin> set bs" "distinct bs" "\<forall>b \<in> set bs. EncodeToString b \<notin> set (map fst (w_tickets w))"
    and dist: "distinct (map fst (w_tickets w))"
    using assms(1) w(1,2) by (simp_all add: relay_ok_def)
  let ?t = "\<lparr>tk_session = sid, tk_track = tid, tk_fetch = ff, tk_expiry = w_now w + ttl\<rparr>"
  have t: "w_tickets w' = w_tickets w @ [(tok, ?t)]" using w(4) update_new_key [OF new] by simp
  have r: "w_random w' = bs" using w(4) by simp
  have "relay_ok w'"
    using new later dist EncodeToString_inj [of _ b] w(2) unfolding relay_ok_def t r by auto
  with t new w(3) show thesis using that [of ?t] by simp
qed

lemma Grant_Inl: "Grant sid tid f ttl w = (Inl e, w') \<Longrightarrow> w' = w"
  by (auto simp: Grant_def split: option.splits if_splits list.splits)

lemma Grant_rest: "Grant sid tid f ttl w = (r, w') \<Longrightarrow> w_files w' = w_files w \<and> w_now w' = w_now w"
  by (auto simp: Grant_def split: option.splits if_splits list.splits)

lemma Grant_serves:
  assumes "Grant sid tid f ttl w = (r, w')" and "relay_ok w"
  shows "serves w' sid' \<longleftrightarrow> serves w sid' \<or> (sid' = sid \<and> \<not> is_err r)" and "relay_ok w'"
proof -
  have "(serves w' sid' \<longleftrightarrow> serves w sid' \<or> (sid' = sid \<and> \<not> is_err r)) \<and> relay_ok w'"
  proof (cases r)
    case (Inl e)
    then have "w' = w" using assms(1) Grant_Inl by simp
    with Inl assms(2) show ?thesis by simp
  next
    case (Inr tok)
    with assms obtain t where "w_tickets w' = w_tickets w @ [(tok, t)]" "tk_session t = sid" "relay_ok w'"
      using Grant_new by metis
    with Inr show ?thesis by (auto simp: serves_def)
  qed
  then show "serves w' sid' \<longleftrightarrow> serves w sid' \<or> (sid' = sid \<and> \<not> is_err r)" and "relay_ok w'" by auto
qed

lemma Open_Inr: "Open http tok opts w = Inr r \<Longrightarrow>
    \<exists>t. map_of (w_tickets w) tok = Some t \<and> w_now w \<le> tk_expiry t \<and> serves w (tk_session t)"
  by (force simp: Open_def serves_def split: option.splits if_splits dest: map_of_SomeD)

lemma filter_tickets_get:
  assumes "distinct (map fst m)"
  shows "map_of (filter (\<lambda>(tok, t). P t) m) k =
    (case map_of m k of Some t \<Rightarrow> if P t then Some t else None | None \<Rightarrow> None)"
  using assms
proof (induction m)
  case (Cons x m)
  obtain k' t where x: "x = (k', t)" by (cases x)
  with Cons.prems have k': "map_of m k' = None" by (simp add: map_of_eq_None_iff)
  have IH: "map_of (filter (\<lambda>(tok, t). P t) m) k =
    (case map_of m k of Some t \<Rightarrow> if P t then Some t else None | None \<Rightarrow> None)"
    using Cons by simp
  show ?case
    using IH k' by (cases "k = k'") (simp_all add: x)
qed simp

lemma Revoke_get:
  "relay_ok w \<Longrightarrow> map_of (w_tickets (Revoke sid w)) k =
    (case map_of (w_tickets w) k of Some t \<Rightarrow> if tk_session t \<noteq> sid then Some t else None | None \<Rightarrow> None)"
  by (simp add: Revoke_def relay_ok_def filter_tickets_get [where P = "\<lambda>t. tk_session t \<noteq> sid"])

lemma Open_cong: "map_of (w_tickets w) tok = map_of (w_tickets w') tok \<Longrightarrow> w_now w = w_now w' \<Longrightarrow>
    Open http tok opts w = Open http tok opts w'"
  by (auto simp: Open_def split: option.splits)

subsection \<open>Properties\<close>

text \<open>The life of a granted token. Up to its expiry it pulls exactly the location and auth context
  it was granted for, with the range the caller gave; after that it is refused as expired; once its
  session is revoked it is unknown, whatever the clock; and no other token is touched by either
  the grant or the revocation of its session.\<close>

theorem token_life:
  assumes "relay_ok w" and "Grant sid tid (Some f) ttl w = (Inr tok, w')"
  shows "Open http tok [rng] (w'\<lparr>w_now := now\<rparr>) =
           (if now \<le> w_now w + ttl then fetchFrom http f rng else Inl RelayExpired)
    \<and> Open http tok [rng] ((Revoke sid w')\<lparr>w_now := now\<rparr>) = Inl RelayUnknownToken
    \<and> (other \<noteq> tok \<longrightarrow> Open http other opts w' = Open http other opts w)
    \<and> (\<not> serves w sid \<longrightarrow> Open http other opts (Revoke sid w') = Open http other opts w)"
proof (intro conjI impI)
  obtain t where t: "w_tickets w' = w_tickets w @ [(tok, t)]" "tk_session t = sid"
      "tk_expiry t = w_now w + ttl" "f = tk_fetch t" and new: "tok \<notin> set (map fst (w_tickets w))"
    and ok: "relay_ok w'"
    using Grant_new [OF assms] by (metis option.inject)
  have now: "w_now w' = w_now w" using Grant_rest [OF assms(2)] by simp
  have none: "map_of (w_tickets w) tok = None" using new by (simp add: map_of_eq_None_iff)
  have get: "map_of (w_tickets w') k = (if k = tok then Some t else map_of (w_tickets w) k)" for k
    using none by (auto simp: t(1) map_add_def split: option.splits)
  have now': "w_tickets (v\<lparr>w_now := now\<rparr>) = w_tickets v" "w_now (v\<lparr>w_now := now\<rparr>) = now" for v by simp_all
  show "Open http tok [rng] (w'\<lparr>w_now := now\<rparr>) =
          (if now \<le> w_now w + ttl then fetchFrom http f rng else Inl RelayExpired)"
    using t(2-4) by (simp add: Open_def now' get del: world.update_convs)
  show "Open http tok [rng] ((Revoke sid w')\<lparr>w_now := now\<rparr>) = Inl RelayUnknownToken"
    using t(2) by (simp add: Open_def now' Revoke_get [OF ok] get del: world.update_convs)
  show "Open http other opts w' = Open http other opts w" if "other \<noteq> tok"
    using now that by (intro Open_cong) (simp_all add: get)
  assume idle: "\<not> serves w sid"
  have "map_of (w_tickets w) k = Some u \<Longrightarrow> tk_session u \<noteq> sid" for k u
    using idle by (force simp: serves_def dest: map_of_SomeD)
  then have "map_of (w_tickets (Revoke sid w')) other = map_of (w_tickets w) other"
    using t(2) none by (auto simp: Revoke_get [OF ok] get split: option.splits)
  then show "Open http other opts (Revoke sid w') = Open http other opts w"
    using now by (intro Open_cong) simp_all
qed

lemma token_life_witness:
  "\<exists>tok w'. Grant ''del-1'' ''v'' (Some \<lparr>ff_location = ''u'', ff_auth = []\<rparr>) 5
     \<lparr>w_tickets = [], w_now = 0, w_random = [''r''], w_files = []\<rparr> = (Inr tok, w')
   \<and> Open (\<lambda>_ _. Inl []) tok [[]] (w'\<lparr>w_now := 6\<rparr>) = Inl RelayExpired"
proof -
  let ?w = "\<lparr>w_tickets = [], w_now = 0, w_random = [''r''], w_files = []\<rparr>"
  let ?f = "\<lparr>ff_location = ''u'', ff_auth = []\<rparr>"
  obtain tok w' where g: "Grant ''del-1'' ''v'' (Some ?f) 5 ?w = (Inr tok, w')"
    by (simp add: Grant_def)
  have "relay_ok ?w" by (simp add: relay_ok_def)
  from token_life [OF this g, of "\<lambda>_ _. Inl []" "[]" 6 "[]" "[]"] g show ?thesis by auto
qed

end
