(* ===== verification/Delivery_Pipeline.thy ===== *)
theory Delivery_Pipeline
  imports Messages Utf8 Strconv
begin

text \<open>
  \<open>internal/delivery/pipeline.go\<close> and the file naming of \<open>internal/delivery/disk.go\<close>: the choice
  of a step chain for a goal and a manifest, the check that every step can run, and the name a
  deliverable gets on disk.

  Go's string types \<open>Goal\<close> and \<open>StepKind\<close> are datatypes whose last constructor holds any other
  string. The lower-case table of Unicode is an argument. \<open>filepath.Clean\<close> works on the components
  of a Unix path.
\<close>

subsection \<open>Plans\<close>

datatype Goal = GoalPlay | GoalDownload | GoalOther string

datatype StepKind = StepPassthrough | StepDecrypt | StepRemux | StepTranscode | StepCompose
  | StepRecord | StepOther string

record TrackFilter =
  tf_video :: bool
  tf_audio :: bool
  tf_subtitle :: bool

record RemuxParams =
  rp_container :: string
  rp_keep :: TrackFilter
  rp_keep_tracks :: "string list"

record EncodeProfile =
  ep_codec :: string
  ep_height :: int
  ep_max_bitrate :: string

record ComposeParams =
  cp_container :: string
  cp_attach_metadata :: bool

record StepParams =
  sp_passthrough :: "unit option"
  sp_decrypt :: "string option"             \<comment> \<open>the key reference\<close>
  sp_remux :: "RemuxParams option"
  sp_transcode :: "EncodeProfile list option"
  sp_compose :: "ComposeParams option"
  sp_record :: "unit option"

record Step =
  st_name :: string
  st_kind :: StepKind
  st_inputs :: "string list"
  st_params :: StepParams

type_synonym Plan = "Step list"

definition no_params :: StepParams where
  "no_params = \<lparr>sp_passthrough = None, sp_decrypt = None, sp_remux = None, sp_transcode = None,
     sp_compose = None, sp_record = None\<rparr>"

definition step :: "StepKind \<Rightarrow> StepParams \<Rightarrow> Step" where
  "step k p = \<lparr>st_name = [], st_kind = k, st_inputs = [], st_params = p\<rparr>"

definition remux_to :: "string \<Rightarrow> Step" where
  "remux_to container = step StepRemux (no_params\<lparr>sp_remux := Some \<lparr>rp_container = container,
     rp_keep = \<lparr>tf_video = False, tf_audio = False, tf_subtitle = False\<rparr>, rp_keep_tracks = []\<rparr>\<rparr>)"

definition compose_to :: "string \<Rightarrow> Step" where
  "compose_to container = step StepCompose (no_params\<lparr>sp_compose := Some \<lparr>cp_container = container,
     cp_attach_metadata = False\<rparr>\<rparr>)"

datatype pipeline_error = NilManifest | PerTrackWithoutContainer | PerTrackToContainer string
  | UnknownGoal Goal

definition SelectPipeline :: "Goal \<Rightarrow> MediaSource option \<Rightarrow> string \<Rightarrow> pipeline_error + Plan" where
  "SelectPipeline goal src container =
     (case src of
        None \<Rightarrow> Inl NilManifest
      | Some ms \<Rightarrow>
         (case goal of
            GoalPlay \<Rightarrow>
              if ms_addressable ms = AD_PER_TRACK then Inr [step StepPassthrough no_params]
              else if container = [] then Inr [step StepPassthrough no_params]
              else Inr [remux_to container]
          | GoalDownload \<Rightarrow>
              if ms_addressable ms = AD_PER_TRACK then
                (if container = [] then Inl PerTrackWithoutContainer else Inl (PerTrackToContainer container))
              else Inr [remux_to container, compose_to container]
          | GoalOther _ \<Rightarrow> Inl (UnknownGoal goal)))"

definition executableKinds :: "StepKind \<Rightarrow> bool" where
  "executableKinds k \<longleftrightarrow> k = StepPassthrough \<or> k = StepRemux \<or> k = StepCompose"

datatype decline_reason = NoDecryptInV1 | NoTranscodeInV1 | NoRecordInV1 | NotExecutable StepKind

definition notExecutableReason :: "StepKind \<Rightarrow> decline_reason" where
  "notExecutableReason k =
     (case k of StepDecrypt \<Rightarrow> NoDecryptInV1 | StepTranscode \<Rightarrow> NoTranscodeInV1
      | StepRecord \<Rightarrow> NoRecordInV1 | _ \<Rightarrow> NotExecutable k)"

datatype plan_error = PlanNoSteps | PlanStep string StepKind decline_reason

fun validate_steps :: "Step list \<Rightarrow> plan_error option" where
  "validate_steps [] = None"
| "validate_steps (s # ss) =
     (if \<not> executableKinds (st_kind s)
      then Some (PlanStep (st_name s) (st_kind s) (notExecutableReason (st_kind s)))
      else validate_steps ss)"

definition ValidatePlan :: "Plan \<Rightarrow> plan_error option" where
  "ValidatePlan p = (if p = [] then Some PlanNoSteps else validate_steps p)"

definition kind_string :: "StepKind \<Rightarrow> string" where
  "kind_string k =
     (case k of StepPassthrough \<Rightarrow> ''passthrough'' | StepDecrypt \<Rightarrow> ''decrypt'' | StepRemux \<Rightarrow> ''remux''
      | StepTranscode \<Rightarrow> ''transcode'' | StepCompose \<Rightarrow> ''compose'' | StepRecord \<Rightarrow> ''record''
      | StepOther s \<Rightarrow> s)"

text \<open>The separator is a space, U+2192 in UTF-8, and a space.\<close>

definition Lineage :: "Plan \<Rightarrow> string" where
  "Lineage p =
     Join (map (\<lambda>s. if st_name s \<noteq> [] then st_name s @ '':'' @ kind_string (st_kind s)
                    else kind_string (st_kind s)) p)
       [CHR '' '', CHR 0xE2, CHR 0x86, CHR 0x92, CHR '' '']"

text \<open>\<open>planContainer\<close> of \<open>app/delivery.go\<close>.\<close>

fun planContainer :: "Plan \<Rightarrow> string" where
  "planContainer [] = []"
| "planContainer (s # ss) =
     (case (st_kind s, sp_remux (st_params s)) of
        (StepRemux, Some r) \<Rightarrow> rp_container r
      | _ \<Rightarrow> planContainer ss)"

subsection \<open>Output names\<close>

definition illegal_char :: "char \<Rightarrow> bool" where
  "illegal_char c \<longleftrightarrow> c \<in> set [CHR ''/'', CHR 0x5C, CHR '':'', CHR ''*'', CHR ''?'', CHR 0x22,
     CHR ''<'', CHR ''>'', CHR ''|'', CHR 0x00]"

text \<open>\<open>ReplaceAllString\<close> of the maximal runs of illegal characters by one space.\<close>

fun replace_runs :: "bool \<Rightarrow> string \<Rightarrow> string" where
  "replace_runs inrun [] = []"
| "replace_runs inrun (c # cs) =
     (if illegal_char c then (if inrun then replace_runs True cs else CHR '' '' # replace_runs True cs)
      else c # replace_runs False cs)"

definition sanitizeName :: "string \<Rightarrow> string" where
  "sanitizeName s = TrimSpace (Join (Fields (replace_runs False s)) '' '')"

definition lower_string :: "(rune \<Rightarrow> rune) \<Rightarrow> string \<Rightarrow> string" where
  "lower_string lower s = of_runes (map lower (runes s))"

definition outputName :: "(rune \<Rightarrow> rune) \<Rightarrow> string \<Rightarrow> DeliveryContext \<Rightarrow> string \<Rightarrow> string" where
  "outputName lower sid dc container =
     (let base = (let b = sanitizeName (dc_selected_target dc) in if b = [] then sid else b)
      in if container = [] then base
         else base @ ''.'' @ TrimPrefix (lower_string lower container) ''.'')"

subsection \<open>Paths\<close>

fun split_on :: "char \<Rightarrow> string \<Rightarrow> string list" where
  "split_on c [] = [[]]"
| "split_on c (x # xs) =
     (if x = c then [] # split_on c xs
      else (case split_on c xs of [] \<Rightarrow> [[x]] | w # ws \<Rightarrow> (x # w) # ws))"

text \<open>The loop of \<open>filepath.Clean\<close>: \<open>acc\<close> holds the output components in reverse.\<close>

fun clean_components :: "bool \<Rightarrow> string list \<Rightarrow> string list \<Rightarrow> string list" where
  "clean_components rooted acc [] = rev acc"
| "clean_components rooted acc (p # ps) =
     (if p = [] \<or> p = ''.'' then clean_components rooted acc ps
      else if p = ''..'' then
        (case acc of
           q # qs \<Rightarrow> if q \<noteq> ''..'' then clean_components rooted qs ps
                     else clean_components rooted (''..'' # acc) ps
         | [] \<Rightarrow> if rooted then clean_components rooted [] ps else clean_components rooted [''..''] ps)
      else clean_components rooted (p # acc) ps)"

definition filepath_Clean :: "string \<Rightarrow> string" where
  "filepath_Clean path =
     (let rooted = (path \<noteq> [] \<and> hd path = CHR ''/'');
          out = (if rooted then ''/'' else []) @ Join (clean_components rooted [] (split_on CHR ''/'' path)) ''/''
      in if out = [] then ''.'' else out)"

definition filepath_Join :: "string list \<Rightarrow> string" where
  "filepath_Join elems =
     (let es = dropWhile (\<lambda>e. e = []) elems
      in if es = [] then [] else filepath_Clean (Join es ''/''))"

text \<open>\<open>filepath.Ext\<close>: from the last dot of the last element.\<close>

fun ext_rev :: "string \<Rightarrow> string \<Rightarrow> string" where
  "ext_rev acc [] = []"
| "ext_rev acc (c # cs) =
     (if c = CHR ''/'' then [] else if c = CHR ''.'' then c # acc else ext_rev (c # acc) cs)"

definition filepath_Ext :: "string \<Rightarrow> string" where
  "filepath_Ext path = ext_rev [] (rev path)"

definition TrimSuffix :: "string \<Rightarrow> string \<Rightarrow> string" where
  "TrimSuffix s p = (if suffix p s then take (length s - length p) s else s)"

definition dedupe_candidate :: "string \<Rightarrow> nat \<Rightarrow> string" where
  "dedupe_candidate path i =
     (let ext = filepath_Ext path
      in TrimSuffix path ext @ '' ('' @ Itoa (int i) @ '')'' @ ext)"

lemma dedupe_candidate_inj: "dedupe_candidate path i = dedupe_candidate path j \<longleftrightarrow> i = j"
  by (auto simp: dedupe_candidate_def Let_def dest: Itoa_inj)

text \<open>The loop of \<open>dedupePath\<close> over the files that exist. It ends: the candidates differ pairwise.\<close>

function dedupe_from :: "string list \<Rightarrow> string \<Rightarrow> nat \<Rightarrow> string" where
  "dedupe_from files path i =
     (if dedupe_candidate path i \<in> set files then dedupe_from files path (Suc i)
      else dedupe_candidate path i)"
  by pat_completeness auto
termination
proof (relation "measure (\<lambda>(files, path, i). card {f \<in> set files. \<exists>j \<ge> i. f = dedupe_candidate path j})")
  fix files path and i :: nat
  assume m: "dedupe_candidate path i \<in> set files"
  let ?C = "\<lambda>i. {f \<in> set files. \<exists>j \<ge> i. f = dedupe_candidate path j}"
  have "?C (Suc i) \<subseteq> ?C i" by (auto dest: Suc_leD)
  moreover have "dedupe_candidate path i \<in> ?C i" using m by auto
  moreover have "dedupe_candidate path i \<notin> ?C (Suc i)" by (auto simp: dedupe_candidate_inj)
  ultimately have "?C (Suc i) \<subset> ?C i" by blast
  then show "((files, path, Suc i), (files, path, i))
     \<in> measure (\<lambda>(files, path, i). card {f \<in> set files. \<exists>j \<ge> i. f = dedupe_candidate path j})"
    by (simp add: psubset_card_mono)
qed simp

declare dedupe_from.simps [simp del]

definition dedupePath :: "string list \<Rightarrow> string \<Rightarrow> string" where
  "dedupePath files path = dedupe_from files path 2"

subsection \<open>Selected plans\<close>

lemma validate_steps_None_iff: "validate_steps ss = None \<longleftrightarrow> (\<forall>s \<in> set ss. executableKinds (st_kind s))"
  by (induction ss) auto

lemma SelectPipeline_executable:
  "SelectPipeline goal src container = Inr p \<Longrightarrow> ValidatePlan p = None"
  by (auto simp: SelectPipeline_def ValidatePlan_def executableKinds_def step_def remux_to_def
      compose_to_def split: option.splits Goal.splits if_splits)

lemma SelectPipeline_Inr_iff:
  "(\<exists>p. SelectPipeline goal src container = Inr p) \<longleftrightarrow>
     (\<exists>ms. src = Some ms \<and> (goal = GoalPlay \<or> goal = GoalDownload \<and> ms_addressable ms \<noteq> AD_PER_TRACK))"
  by (auto simp: SelectPipeline_def split: option.splits Goal.splits)

lemma planContainer_selected:
  "SelectPipeline goal src container = Inr p \<Longrightarrow>
     planContainer p = (if p = [step StepPassthrough no_params] then [] else container)"
  by (auto simp: SelectPipeline_def step_def remux_to_def compose_to_def no_params_def
      split: option.splits Goal.splits if_splits)

subsection \<open>Free names\<close>

lemma dedupe_from_free: "dedupe_from files path i \<notin> set files"
proof (induction files path i rule: dedupe_from.induct)
  case (1 files path i)
  have "dedupe_from files path i =
      (if dedupe_candidate path i \<in> set files then dedupe_from files path (Suc i)
       else dedupe_candidate path i)" by (rule dedupe_from.simps)
  with "1.IH" show ?case by presburger
qed

lemma dedupePath_free: "dedupePath files path \<notin> set files"
  unfolding dedupePath_def by (rule dedupe_from_free)

lemma dedupe_from_candidate:
  "\<exists>j \<ge> i. dedupe_from files path i = dedupe_candidate path j
     \<and> (\<forall>k. i \<le> k \<and> k < j \<longrightarrow> dedupe_candidate path k \<in> set files)"
proof (induction files path i rule: dedupe_from.induct)
  case (1 files path i)
  show ?case
  proof (cases "dedupe_candidate path i \<in> set files")
    case False
    then show ?thesis by (subst dedupe_from.simps) (auto intro!: exI [of _ i])
  next
    case True
    from "1.IH" [OF True] obtain j where "Suc i \<le> j"
      "dedupe_from files path (Suc i) = dedupe_candidate path j"
      "\<forall>k. Suc i \<le> k \<and> k < j \<longrightarrow> dedupe_candidate path k \<in> set files" by blast
    with True show ?thesis
      by (subst dedupe_from.simps) (metis Suc_leD Suc_leI le_neq_implies_less)
  qed
qed

subsection \<open>Sanitized names\<close>

lemma illegal_char_space: "\<not> illegal_char (CHR '' '')"
  by (simp add: illegal_char_def)

lemma replace_runs_legal: "c \<in> set (replace_runs inrun s) \<Longrightarrow> \<not> illegal_char c"
  by (induction inrun s rule: replace_runs.induct) (auto simp: illegal_char_space split: if_splits)

lemma set_Join: "set (Join ws sep) \<subseteq> set sep \<union> \<Union> (set ` set ws)"
  by (induction ws sep rule: Join.induct) auto

lemma chunks_set: "c \<in> set (chunks bs) \<Longrightarrow> set (snd c) \<subseteq> set bs"
  using chunks_concat [of bs] by (metis UN_upper image_eqI set_concat set_map)

lemma unbytes_set: "set bs \<subseteq> set (bytes s) \<Longrightarrow> set (unbytes bs) \<subseteq> set s"
  by (auto simp: unbytes_def bytes_def dest!: subsetD)

lemma set_chunk_bytes:
  assumes "set cs \<subseteq> set (chunks (bytes s))"
  shows "set (unbytes (concat (map snd cs))) \<subseteq> set s"
proof (rule unbytes_set)
  show "set (concat (map snd cs)) \<subseteq> set (bytes s)"
    using assms chunks_set [of _ "bytes s"] by fastforce
qed

lemma TrimSpace_set: "set (TrimSpace s) \<subseteq> set s"
proof -
  have "set (rev (dropWhile P (rev (dropWhile P cs)))) \<subseteq> set cs" for P and cs :: "(rune \<times> nat list) list"
    by (metis (mono_tags) order_trans set_dropWhileD set_rev subsetI)
  then show ?thesis unfolding TrimSpace_def Let_def by (rule set_chunk_bytes)
qed

lemma Fields_set: "f \<in> set (Fields s) \<Longrightarrow> set f \<subseteq> set s"
proof -
  let ?parts = "split_spaces (IsSpace \<circ> fst) [] (chunks (bytes s))"
  assume "f \<in> set (Fields s)"
  then obtain cs where cs: "cs \<in> set ?parts" and f: "f = unbytes (concat (map snd cs))"
    by (auto simp: Fields_def)
  from cs have "set cs \<subseteq> set (concat ?parts)" by auto
  then have "set cs \<subseteq> set (chunks (bytes s))" by (auto simp: split_spaces_concat)
  then show ?thesis unfolding f by (rule set_chunk_bytes)
qed

lemma sanitizeName_legal: "c \<in> set (sanitizeName s) \<Longrightarrow> \<not> illegal_char c"
proof -
  assume "c \<in> set (sanitizeName s)"
  then have "c \<in> set (Join (Fields (replace_runs False s)) '' '')"
    unfolding sanitizeName_def using TrimSpace_set by blast
  then consider "c = CHR '' ''" | f where "f \<in> set (Fields (replace_runs False s))" "c \<in> set f"
    using set_Join [of "Fields (replace_runs False s)" "'' ''"] by auto
  then show ?thesis
  proof cases
    case 1
    then show ?thesis by (simp add: illegal_char_space)
  next
    case 2
    then show ?thesis using Fields_set replace_runs_legal by blast
  qed
qed

lemma sanitizeName_word:
  assumes "ascii s" and "\<forall>c \<in> set s. \<not> IsSpace (of_char c)" and "\<forall>c \<in> set s. \<not> illegal_char c"
    and "s \<noteq> []"
  shows "sanitizeName s = s"
proof -
  have "replace_runs b s = s" for b
    using assms(3) by (induction s arbitrary: b) auto
  then show ?thesis
    using Fields_word [OF assms(1,2,4)] TrimSpace_ascii [OF assms(1,2)] by (simp add: sanitizeName_def)
qed

lemma lower_string_ascii:
  "ascii s \<Longrightarrow> (\<And>c. c \<in> set s \<Longrightarrow> lower (of_char c) = of_char c) \<Longrightarrow> lower_string lower s = s"
  by (simp add: lower_string_def runes_ascii comp_def of_runes_ascii cong: map_cong)

subsection \<open>Properties\<close>

text \<open>A plan that \<open>SelectPipeline\<close> answers is always one the engine can run, and it answers one
  exactly for a manifest to be played, or to be downloaded when its tracks come in one mux.\<close>

theorem SelectPipeline_runs:
  "(\<exists>p. SelectPipeline goal src container = Inr p \<and> ValidatePlan p = None) \<longleftrightarrow>
     (\<exists>ms. src = Some ms \<and> (goal = GoalPlay \<or> goal = GoalDownload \<and> ms_addressable ms \<noteq> AD_PER_TRACK))"
  using SelectPipeline_Inr_iff [of goal src container] SelectPipeline_executable by metis

text \<open>Of the characters that are illegal in a path name, an output name has exactly those of its
  container extension: the base is sanitized, the container is not.\<close>

theorem outputName_illegal:
  assumes "\<forall>c \<in> set sid. \<not> illegal_char c"
  shows "{c \<in> set (outputName lower sid dc container). illegal_char c} =
         (if container = [] then {}
          else {c \<in> set (TrimPrefix (lower_string lower container) ''.''). illegal_char c})"
proof -
  have base: "c \<in> set (let b = sanitizeName (dc_selected_target dc) in if b = [] then sid else b)
      \<Longrightarrow> \<not> illegal_char c" for c
    using assms sanitizeName_legal by (auto simp: Let_def split: if_splits)
  moreover have "\<not> illegal_char (CHR ''.'')" by (simp add: illegal_char_def)
  ultimately show ?thesis unfolding outputName_def Let_def by auto
qed

lemma outputName_illegal_witness:
  "{c \<in> set (outputName id ''del-1'' \<lparr>dc_provider = [], dc_account_id = [], dc_member_user_id = [],
      dc_policy = [], dc_provider_cap = [], dc_sink = [], dc_selected_target = ''a/b'', dc_container = []\<rparr> []).
    illegal_char c} = {}"
  by (subst outputName_illegal) (simp_all add: illegal_char_def)

text \<open>A container with \<open>..\<close> elements takes the deliverable out of the sink's root: whatever the
  session, a download of the target "Movie" into such a container is written outside \<open>/data\<close>.\<close>

theorem container_leaves_root:
  assumes "dc_selected_target dc = ''Movie''" and "\<And>r. r < 128 \<Longrightarrow> \<not> (65 \<le> r \<and> r \<le> 90) \<Longrightarrow> lower r = r"
  shows "filepath_Join [''/data'', outputName lower sid dc ''x/../../../etc/passwd''] = ''/etc/passwd''"
proof -
  have m: "sanitizeName ''Movie'' = ''Movie''"
    by (rule sanitizeName_word) (simp_all add: ascii_def IsSpace_def illegal_char_def)
  have l: "lower_string lower ''x/../../../etc/passwd'' = ''x/../../../etc/passwd''"
    by (rule lower_string_ascii) (auto simp: ascii_def assms(2))
  have "outputName lower sid dc ''x/../../../etc/passwd'' = ''Movie.x/../../../etc/passwd''"
    by (simp add: outputName_def assms(1) m l TrimPrefix_def)
  then show ?thesis
    by (simp add: filepath_Join_def filepath_Clean_def)
qed

definition movie_context :: DeliveryContext where
  "movie_context = \<lparr>dc_provider = ''p'', dc_account_id = ''a'', dc_member_user_id = ''u'',
     dc_policy = [], dc_provider_cap = [], dc_sink = ''disk'', dc_selected_target = ''Movie'', dc_container = []\<rparr>"

lemma container_leaves_root_witness:
  "filepath_Join [''/data'', outputName id ''del-1'' movie_context ''x/../../../etc/passwd''] = ''/etc/passwd''"
  by (rule container_leaves_root) (simp_all add: movie_context_def)

end
