(* ===== verification/Sinks.thy ===== *)
theory Sinks
  imports Relay Delivery_Pipeline
begin

text \<open>
  The byte destinations of delivery sessions: the interface \<open>Sink\<close> and \<open>SinkFactory\<close> of
  \<open>delivery.go\<close>, the device sink (\<open>device.go\<close>) over the relay, the disk sink (\<open>disk.go\<close>) over the
  files of the instance, and the composite factory of \<open>slotwiring/sinks.go\<close>.

  The interface is the record \<^verbatim>\<open>sink_ops\<close>, and its contract the locale \<open>session_sinks\<close>: which
  sessions a world serves bytes for, and how each operation may change that. The engine is proved
  against the contract; the interpretation at the end gives it for the sinks of the code.

  What the operating system answers is the record \<^verbatim>\<open>os\<close>: whether a call on a path succeeds, and
  after how many bytes a copy fails. A nil body makes \<open>io.Copy\<close> call a method of a nil interface:
  \<open>SinkPanic\<close>.
\<close>

subsection \<open>The interface\<close>

datatype sink_error = NoRelayWired | TrackNoDelivery string | TrackNoLocations string
  | GrantFailed relay_error | DiskCreate string | DiskAfterFinalize | DiskWrite | DiskSync
  | DiskClose | DiskRename string | NoSinkNamed string | SinkPanic

record ('k, 'w) sink_ops =
  op_new :: "string \<Rightarrow> DeliveryContext \<Rightarrow> Track option list \<Rightarrow> 'w \<Rightarrow> (sink_error + 'k) \<times> 'w"
  op_deliver :: "'k \<Rightarrow> Track option \<Rightarrow> string option \<Rightarrow> 'w \<Rightarrow> (sink_error + nat) \<times> 'k \<times> 'w"
  op_finalize :: "'k \<Rightarrow> 'w \<Rightarrow> sink_error option \<times> 'k \<times> 'w"
  op_abort :: "'k \<Rightarrow> 'w \<Rightarrow> 'k \<times> 'w"

locale session_sinks =
  fixes ops :: "('k, 'w) sink_ops"
    and serving :: "'w \<Rightarrow> string \<Rightarrow> bool"
    and holder :: "'k \<Rightarrow> string option"
    and okw :: "'w \<Rightarrow> bool"
  assumes new_ok: "op_new ops sid dc trs w = (r, w') \<Longrightarrow> okw w \<Longrightarrow>
        okw w' \<and> (\<forall>s. serving w' s = serving w s) \<and> (\<forall>k. r = Inr k \<longrightarrow> holder k = None \<or> holder k = Some sid)"
    and deliver_ok: "op_deliver ops k tr body w = (r', k', w') \<Longrightarrow> okw w \<Longrightarrow>
        okw w' \<and> holder k' = holder k \<and> (\<forall>s. serving w' s \<longrightarrow> serving w s \<or> holder k = Some s)
        \<and> (\<forall>s. serving w s \<longrightarrow> serving w' s)"
    and finalize_ok: "op_finalize ops k w = (e, k', w') \<Longrightarrow> okw w \<Longrightarrow>
        okw w' \<and> holder k' = holder k \<and> (\<forall>s. serving w' s \<longleftrightarrow> serving w s \<and> holder k \<noteq> Some s)"
    and abort_ok: "op_abort ops k w = (k', w') \<Longrightarrow> okw w \<Longrightarrow>
        okw w' \<and> holder k' = holder k \<and> (\<forall>s. serving w' s \<longleftrightarrow> serving w s \<and> holder k \<noteq> Some s)"

subsection \<open>The device sink\<close>

record DeviceSink =
  dv_ttl :: int
  dv_session :: string
  dv_tokens :: "string list"
  dv_by_track :: "(string \<times> string) list"

definition defaultGrantTTL :: int where
  "defaultGrantTTL = 30 * 60 * 1000000000"

definition Device_NewSink :: "bool \<Rightarrow> int \<Rightarrow> string \<Rightarrow> sink_error + DeviceSink" where
  "Device_NewSink relay_wired grantTTL sid =
     (if \<not> relay_wired then Inl NoRelayWired
      else let ttl = (if grantTTL \<le> 0 then defaultGrantTTL else grantTTL)
           in Inr \<lparr>dv_ttl = ttl, dv_session = sid, dv_tokens = [], dv_by_track = []\<rparr>)"

definition Device_Deliver :: "DeviceSink \<Rightarrow> Track option \<Rightarrow> world \<Rightarrow> (sink_error + nat) \<times> DeviceSink \<times> world" where
  "Device_Deliver d track w =
     (case GetDelivery track of
        None \<Rightarrow> (Inl (TrackNoDelivery (GetTrackId track)), d, w)
      | Some dl \<Rightarrow>
         (case td_locations dl of
            [] \<Rightarrow> (Inl (TrackNoLocations (GetTrackId track)), d, w)
          | location # _ \<Rightarrow>
             (case Grant (dv_session d) (GetTrackId track)
                     (Some \<lparr>ff_location = location, ff_auth = td_auth_context dl\<rparr>) (dv_ttl d) w of
                (Inl e, w') \<Rightarrow> (Inl (if e = RelayRandPanic then SinkPanic else GrantFailed e), d, w')
              | (Inr tok, w') \<Rightarrow>
                  (Inr 0, d\<lparr>dv_tokens := dv_tokens d @ [tok],
                            dv_by_track := AList.update (GetTrackId track) tok (dv_by_track d)\<rparr>, w'))))"

definition RelayToken :: "DeviceSink \<Rightarrow> string \<Rightarrow> string option" where
  "RelayToken d trackID = map_of (dv_by_track d) trackID"

definition Device_Finalize :: "DeviceSink \<Rightarrow> world \<Rightarrow> world" where
  "Device_Finalize d w = Revoke (dv_session d) w"

definition Device_Abort :: "DeviceSink \<Rightarrow> world \<Rightarrow> world" where
  "Device_Abort d w = Revoke (dv_session d) w"

subsection \<open>The disk sink\<close>

record os =
  os_mkdir :: "string \<Rightarrow> bool"
  os_open :: "string \<Rightarrow> bool"
  os_copy :: "string \<Rightarrow> string \<Rightarrow> nat option"   \<comment> \<open>\<open>Some n\<close>: the copy fails after n bytes\<close>
  os_sync :: "string \<Rightarrow> bool"
  os_close :: "string \<Rightarrow> bool"
  os_rename :: "string \<Rightarrow> string \<Rightarrow> bool"
  os_lower :: "rune \<Rightarrow> rune"

datatype file_handle = NilFile | OpenHandle | ClosedHandle

record DiskSink =
  ds_root :: string
  ds_path :: string
  ds_tmp :: string
  ds_file :: file_handle

definition NewDiskFactory :: "os \<Rightarrow> string \<Rightarrow> bool" where
  "NewDiskFactory os root \<longleftrightarrow> root \<noteq> [] \<and> os_mkdir os root"

definition Disk_NewSink :: "os \<Rightarrow> string \<Rightarrow> string \<Rightarrow> DeliveryContext \<Rightarrow> world \<Rightarrow> (sink_error + DiskSink) \<times> world" where
  "Disk_NewSink os root sid dc w =
     (let finalName = outputName (os_lower os) sid dc (dc_container dc);
          path = filepath_Join [root, finalName];
          tmp = path @ ''.'' @ sid @ ''.part''
      in if \<not> os_open os tmp then (Inl (DiskCreate tmp), w)
         else (Inr \<lparr>ds_root = root, ds_path = path, ds_tmp = tmp, ds_file = OpenHandle\<rparr>,
               w\<lparr>w_files := AList.update tmp [] (w_files w)\<rparr>))"

definition append_file :: "string \<Rightarrow> string \<Rightarrow> world \<Rightarrow> world" where
  "append_file path bs w =
     w\<lparr>w_files := AList.update path ((case map_of (w_files w) path of None \<Rightarrow> [] | Some c \<Rightarrow> c) @ bs) (w_files w)\<rparr>"

definition Disk_Deliver :: "os \<Rightarrow> DiskSink \<Rightarrow> string option \<Rightarrow> world \<Rightarrow> (sink_error + nat) \<times> DiskSink \<times> world" where
  "Disk_Deliver os d body w =
     (if ds_file d = NilFile then (Inl DiskAfterFinalize, d, w)
      else (case body of
              None \<Rightarrow> (Inl SinkPanic, d, w)
            | Some bs \<Rightarrow>
                if ds_file d = ClosedHandle then ((if bs = [] then Inr 0 else Inl DiskWrite), d, w)
                else (case os_copy os (ds_tmp d) bs of
                        Some n \<Rightarrow> (Inl DiskWrite, d, append_file (ds_tmp d) (take n bs) w)
                      | None \<Rightarrow> (Inr (length bs), d, append_file (ds_tmp d) bs w))))"

definition rename_file :: "string \<Rightarrow> string \<Rightarrow> world \<Rightarrow> world" where
  "rename_file a b w =
     (case map_of (w_files w) a of
        None \<Rightarrow> w
      | Some c \<Rightarrow> w\<lparr>w_files := AList.update b c (AList.delete a (w_files w))\<rparr>)"

definition Disk_Finalize :: "os \<Rightarrow> DiskSink \<Rightarrow> world \<Rightarrow> sink_error option \<times> DiskSink \<times> world" where
  "Disk_Finalize os d w =
     (if ds_file d = NilFile then (Some DiskAfterFinalize, d, w)
      else if ds_file d = ClosedHandle \<or> \<not> os_sync os (ds_tmp d)
           then (Some DiskSync, d\<lparr>ds_file := ClosedHandle\<rparr>, w)
      else if \<not> os_close os (ds_tmp d) then (Some DiskClose, d\<lparr>ds_file := NilFile\<rparr>, w)
      else let d' = d\<lparr>ds_file := NilFile\<rparr>;
               files = map fst (w_files w);
               final = (if ds_path d \<in> set files then dedupePath files (ds_path d) else ds_path d)
           in if \<not> os_rename os (ds_tmp d) final \<or> map_of (w_files w) (ds_tmp d) = None
              then (Some (DiskRename final), d', w)
              else (None, d', rename_file (ds_tmp d) final w))"

definition Disk_Abort :: "DiskSink \<Rightarrow> world \<Rightarrow> DiskSink \<times> world" where
  "Disk_Abort d w =
     (d\<lparr>ds_file := NilFile\<rparr>, w\<lparr>w_files := AList.delete (ds_tmp d) (w_files w)\<rparr>)"

subsection \<open>The composite factory\<close>

datatype sink = Device DeviceSink | Disk DiskSink

datatype sink_factory = DeviceFactory bool int | DiskFactory string

record sink_entry =
  se_id :: string
  se_enabled :: bool
  se_adapter :: string
  se_options :: "(string \<times> string) list"

datatype setup_error = DiskPathRequired string | DiskMkdir string | DeviceNoRelay string
  | UnknownAdapter string string

fun SetupSinks :: "os \<Rightarrow> bool \<Rightarrow> sink_entry list \<Rightarrow> (string \<times> sink_factory) list \<Rightarrow>
    setup_error + (string \<times> sink_factory) list" where
  "SetupSinks os relay [] fs = Inr fs"
| "SetupSinks os relay (en # es) fs =
     (if \<not> se_enabled en then SetupSinks os relay es fs
      else if se_adapter en = ''disk'' then
        (let path = (case map_of (se_options en) ''path'' of None \<Rightarrow> [] | Some p \<Rightarrow> p)
         in if path = [] then Inl (DiskPathRequired (se_id en))
            else if \<not> NewDiskFactory os path then Inl (DiskMkdir (se_id en))
            else SetupSinks os relay es (AList.update (se_id en) (DiskFactory path) fs))
      else if se_adapter en = ''device'' then
        (if \<not> relay then Inl (DeviceNoRelay (se_id en))
         else SetupSinks os relay es (AList.update (se_id en) (DeviceFactory True 0) fs))
      else Inl (UnknownAdapter (se_id en) (se_adapter en)))"

definition composite_NewSink :: "os \<Rightarrow> (string \<times> sink_factory) list \<Rightarrow> string \<Rightarrow> DeliveryContext \<Rightarrow>
    Track option list \<Rightarrow> world \<Rightarrow> (sink_error + sink) \<times> world" where
  "composite_NewSink os factories sid dc tracks w =
     (case map_of factories (dc_sink dc) of
        None \<Rightarrow> (Inl (NoSinkNamed (dc_sink dc)), w)
      | Some (DeviceFactory relay ttl) \<Rightarrow>
          (case Device_NewSink relay ttl sid of Inl e \<Rightarrow> (Inl e, w) | Inr d \<Rightarrow> (Inr (Device d), w))
      | Some (DiskFactory root) \<Rightarrow>
          (case Disk_NewSink os root sid dc w of
             (Inl e, w') \<Rightarrow> (Inl e, w') | (Inr d, w') \<Rightarrow> (Inr (Disk d), w')))"

definition sink_Deliver :: "os \<Rightarrow> sink \<Rightarrow> Track option \<Rightarrow> string option \<Rightarrow> world \<Rightarrow> (sink_error + nat) \<times> sink \<times> world" where
  "sink_Deliver os k track body w =
     (case k of
        Device d \<Rightarrow> (case Device_Deliver d track w of (r, d', w') \<Rightarrow> (r, Device d', w'))
      | Disk d \<Rightarrow> (case Disk_Deliver os d body w of (r, d', w') \<Rightarrow> (r, Disk d', w')))"

definition sink_Finalize :: "os \<Rightarrow> sink \<Rightarrow> world \<Rightarrow> sink_error option \<times> sink \<times> world" where
  "sink_Finalize os k w =
     (case k of
        Device d \<Rightarrow> (None, Device d, Device_Finalize d w)
      | Disk d \<Rightarrow> (case Disk_Finalize os d w of (r, d', w') \<Rightarrow> (r, Disk d', w')))"

definition sink_Abort :: "sink \<Rightarrow> world \<Rightarrow> sink \<times> world" where
  "sink_Abort k w =
     (case k of
        Device d \<Rightarrow> (Device d, Device_Abort d w)
      | Disk d \<Rightarrow> (case Disk_Abort d w of (d', w') \<Rightarrow> (Disk d', w')))"

definition code_sinks :: "os \<Rightarrow> (string \<times> sink_factory) list \<Rightarrow> (sink, world) sink_ops" where
  "code_sinks os factories =
     \<lparr>op_new = composite_NewSink os factories, op_deliver = sink_Deliver os,
      op_finalize = sink_Finalize os, op_abort = sink_Abort\<rparr>"

definition sink_holder :: "sink \<Rightarrow> string option" where
  "sink_holder k = (case k of Device d \<Rightarrow> Some (dv_session d) | Disk d \<Rightarrow> None)"

subsection \<open>The sinks keep the contract\<close>

lemma files_only [simp]:
  "serves (w\<lparr>w_files := f\<rparr>) s = serves w s" "relay_ok (w\<lparr>w_files := f\<rparr>) = relay_ok w"
  by (simp_all add: serves_def relay_ok_def)

lemma append_file_only [simp]:
  "serves (append_file p bs w) s = serves w s" "relay_ok (append_file p bs w) = relay_ok w"
  by (simp_all add: append_file_def)

lemma rename_file_only [simp]:
  "serves (rename_file a b w) s = serves w s" "relay_ok (rename_file a b w) = relay_ok w"
  by (simp_all add: rename_file_def split: option.splits)

lemma composite_NewSink_ok:
  assumes "composite_NewSink os fs sid dc trs w = (r, w')"
  shows "(relay_ok w \<longrightarrow> relay_ok w') \<and> (\<forall>s. serves w' s = serves w s)
    \<and> (\<forall>k. r = Inr k \<longrightarrow> sink_holder k = None \<or> sink_holder k = Some sid)"
  using assms
  by (auto simp: composite_NewSink_def Device_NewSink_def Disk_NewSink_def sink_holder_def Let_def
      split: option.splits sink_factory.splits if_splits)

lemma Device_Deliver_ok:
  assumes "Device_Deliver d tr w = (r, d', w')" and "relay_ok w"
  shows "relay_ok w' \<and> dv_session d' = dv_session d
    \<and> (\<forall>s. serves w' s \<longleftrightarrow> serves w s \<or> (s = dv_session d \<and> \<not> is_err r))"
proof (cases "GetDelivery tr")
  case None
  with assms show ?thesis by (auto simp: Device_Deliver_def)
next
  case (Some dl)
  show ?thesis
  proof (cases "td_locations dl")
    case Nil
    with Some assms show ?thesis by (auto simp: Device_Deliver_def)
  next
    case (Cons loc rest)
    obtain g w1 where g: "Grant (dv_session d) (GetTrackId tr)
        (Some \<lparr>ff_location = loc, ff_auth = td_auth_context dl\<rparr>) (dv_ttl d) w = (g, w1)" by fastforce
    note law = Grant_serves [OF g assms(2)]
    from assms(1) Some Cons g law show ?thesis
      by (cases g) (auto simp: Device_Deliver_def)
  qed
qed

lemma Disk_Deliver_ok:
  "Disk_Deliver os d body w = (r, d', w') \<Longrightarrow>
     relay_ok w' = relay_ok w \<and> (\<forall>s. serves w' s = serves w s)"
  by (auto simp: Disk_Deliver_def split: if_splits option.splits)

lemma Disk_Finalize_ok:
  "Disk_Finalize os d w = (e, d', w') \<Longrightarrow>
     relay_ok w' = relay_ok w \<and> (\<forall>s. serves w' s = serves w s)"
  by (auto simp: Disk_Finalize_def Let_def split: if_splits)

interpretation code: session_sinks "code_sinks os fs" serves sink_holder relay_ok
proof unfold_locales
  fix sid dc trs w r w'
  assume "op_new (code_sinks os fs) sid dc trs w = (r, w')" and "relay_ok w"
  then show "relay_ok w' \<and> (\<forall>s. serves w' s = serves w s)
      \<and> (\<forall>k. r = Inr k \<longrightarrow> sink_holder k = None \<or> sink_holder k = Some sid)"
    using composite_NewSink_ok by (simp add: code_sinks_def)
next
  fix k tr body w r' k' w'
  assume a: "op_deliver (code_sinks os fs) k tr body w = (r', k', w')" and ok: "relay_ok w"
  show "relay_ok w' \<and> sink_holder k' = sink_holder k
      \<and> (\<forall>s. serves w' s \<longrightarrow> serves w s \<or> sink_holder k = Some s) \<and> (\<forall>s. serves w s \<longrightarrow> serves w' s)"
  proof (cases k)
    case (Device d)
    then obtain d' where "Device_Deliver d tr w = (r', d', w')" "k' = Device d'"
      using a by (auto simp: code_sinks_def sink_Deliver_def split: prod.splits)
    from Device_Deliver_ok [OF this(1) ok] this(2) Device show ?thesis by (auto simp: sink_holder_def)
  next
    case (Disk d)
    then obtain d' where "Disk_Deliver os d body w = (r', d', w')" "k' = Disk d'"
      using a by (auto simp: code_sinks_def sink_Deliver_def split: prod.splits)
    from Disk_Deliver_ok [OF this(1)] this(2) Disk ok show ?thesis by (auto simp: sink_holder_def)
  qed
next
  fix k w e k' w'
  assume a: "op_finalize (code_sinks os fs) k w = (e, k', w')" and ok: "relay_ok w"
  show "relay_ok w' \<and> sink_holder k' = sink_holder k
      \<and> (\<forall>s. serves w' s \<longleftrightarrow> serves w s \<and> sink_holder k \<noteq> Some s)"
  proof (cases k)
    case (Device d)
    with a ok show ?thesis
      by (auto simp: code_sinks_def sink_Finalize_def Device_Finalize_def sink_holder_def
          Revoke_serves_iff Revoke_relay_ok)
  next
    case (Disk d)
    then obtain d' where "Disk_Finalize os d w = (e, d', w')" "k' = Disk d'"
      using a by (auto simp: code_sinks_def sink_Finalize_def split: prod.splits)
    from Disk_Finalize_ok [OF this(1)] this(2) Disk ok show ?thesis by (auto simp: sink_holder_def)
  qed
next
  fix k w k' w'
  assume "op_abort (code_sinks os fs) k w = (k', w')" and "relay_ok w"
  then show "relay_ok w' \<and> sink_holder k' = sink_holder k
      \<and> (\<forall>s. serves w' s \<longleftrightarrow> serves w s \<and> sink_holder k \<noteq> Some s)"
    by (auto simp: code_sinks_def sink_Abort_def Device_Abort_def Disk_Abort_def sink_holder_def
        Revoke_serves_iff Revoke_relay_ok split: sink.splits)
qed

subsection \<open>A deliverable on disk\<close>

fun deliver_all :: "os \<Rightarrow> DiskSink \<Rightarrow> string list \<Rightarrow> world \<Rightarrow> (sink_error + nat) \<times> DiskSink \<times> world" where
  "deliver_all os d [] w = (Inr 0, d, w)"
| "deliver_all os d (b # bs) w =
     (case Disk_Deliver os d (Some b) w of
        (Inl e, d', w') \<Rightarrow> (Inl e, d', w')
      | (Inr n, d', w') \<Rightarrow> deliver_all os d' bs w')"

lemma Disk_Deliver_Inr:
  assumes "Disk_Deliver os d (Some b) w = (Inr n, d', w')" and "ds_file d = OpenHandle"
  shows "d' = d \<and> w' = append_file (ds_tmp d) b w"
  using assms by (auto simp: Disk_Deliver_def split: if_splits option.splits)

lemma append_file_get:
  "map_of (w_files (append_file p bs w)) q =
     (if q = p then Some ((case map_of (w_files w) p of None \<Rightarrow> [] | Some c \<Rightarrow> c) @ bs) else map_of (w_files w) q)"
  by (simp add: append_file_def)

lemma deliver_all_appends:
  assumes "deliver_all os d bodies w = (Inr n, d', w')" and "ds_file d = OpenHandle"
    and "map_of (w_files w) (ds_tmp d) = Some c"
  shows "d' = d \<and> map_of (w_files w') = (map_of (w_files w))(ds_tmp d \<mapsto> c @ concat bodies)"
  using assms
proof (induction bodies arbitrary: w c)
  case Nil
  then show ?case by auto
next
  case (Cons b bodies)
  obtain r d1 w1 where s: "Disk_Deliver os d (Some b) w = (r, d1, w1)"
    by (cases "Disk_Deliver os d (Some b) w") auto
  with Cons.prems(1) obtain k where r: "r = Inr k" by (cases r) auto
  have 1: "d1 = d" "w1 = append_file (ds_tmp d) b w"
    using Disk_Deliver_Inr s r Cons.prems(2) by auto
  then have "map_of (w_files w1) (ds_tmp d) = Some (c @ b)"
    using Cons.prems(3) by (simp add: append_file_get)
  moreover have "deliver_all os d bodies w1 = (Inr n, d', w')" using Cons.prems(1) s r 1(1) by simp
  ultimately have "d' = d \<and> map_of (w_files w') = (map_of (w_files w1))(ds_tmp d \<mapsto> (c @ b) @ concat bodies)"
    using Cons.IH Cons.prems(2) by blast
  moreover have "map_of (w_files w1) = (map_of (w_files w))(ds_tmp d \<mapsto> c @ b)"
    using Cons.prems(3) by (auto simp: 1 append_file_get)
  ultimately show ?case by auto
qed

lemma Disk_Finalize_None:
  assumes "Disk_Finalize os d w = (None, d', w')" and "map_of (w_files w) (ds_tmp d) = Some c"
  obtains final where "map_of (w_files w) final = None"
    and "map_of (w_files w') = (map_of (w_files w))(ds_tmp d := None, final \<mapsto> c)"
    and "final = ds_path d \<or> (ds_path d \<in> dom (map_of (w_files w))
           \<and> final = dedupePath (map fst (w_files w)) (ds_path d))"
proof -
  let ?files = "map fst (w_files w)"
  let ?final = "if ds_path d \<in> set ?files then dedupePath ?files (ds_path d) else ds_path d"
  have w': "w' = rename_file (ds_tmp d) ?final w"
    using assms(1) by (auto simp: Disk_Finalize_def Let_def split: if_splits)
  have free: "?final \<notin> set ?files" using dedupePath_free [of ?files "ds_path d"] by (simp del: set_map)
  then have "map_of (w_files w) ?final = None" by (simp add: map_of_eq_None_iff)
  moreover have "map_of (w_files w') = (map_of (w_files w))(ds_tmp d := None, ?final \<mapsto> c)"
    using assms(2) by (auto simp: w' rename_file_def)
  moreover have "?final = ds_path d \<or> (ds_path d \<in> dom (map_of (w_files w))
       \<and> ?final = dedupePath ?files (ds_path d))" by (auto simp: dom_map_of_conv_image_fst)
  ultimately show thesis using that by blast
qed

text \<open>A deliverable on disk: when the sink opens, every body is written and \<open>Finalize\<close> reports no
  error, exactly one file is new, it holds the bodies in order, it bears the session's output name or
  the first free numbered variant, and no file that existed is overwritten or removed but the
  session's own partial file.\<close>

theorem disk_deliverable:
  assumes "Disk_NewSink os root sid dc w = (Inr d, w0)"
    and "deliver_all os d bodies w0 = (Inr n, d1, w1)"
    and "Disk_Finalize os d1 w1 = (None, d2, w2)"
  shows "\<exists>final. map_of (w_files w) final = None
    \<and> map_of (w_files w2) = (map_of (w_files w))(ds_tmp d := None, final \<mapsto> concat bodies)
    \<and> (final = ds_path d \<or> (\<exists>i \<ge> 2. final = dedupe_candidate (ds_path d) i))"
proof -
  have d: "ds_file d = OpenHandle" and w0: "w0 = w\<lparr>w_files := AList.update (ds_tmp d) [] (w_files w)\<rparr>"
    using assms(1) by (auto simp: Disk_NewSink_def Let_def split: if_splits)
  from w0 have tmp: "map_of (w_files w0) = (map_of (w_files w))(ds_tmp d \<mapsto> [])" by auto
  from deliver_all_appends [OF assms(2) d] tmp
  have d1: "d1 = d" and w1: "map_of (w_files w1) = (map_of (w_files w))(ds_tmp d \<mapsto> concat bodies)"
    by auto
  obtain final where f: "map_of (w_files w1) final = None"
      "map_of (w_files w2) = (map_of (w_files w1))(ds_tmp d := None, final \<mapsto> concat bodies)"
      "final = ds_path d \<or> (ds_path d \<in> dom (map_of (w_files w1))
           \<and> final = dedupePath (map fst (w_files w1)) (ds_path d))"
    using Disk_Finalize_None [OF assms(3)] w1 unfolding d1 by (metis fun_upd_same)
  have "map_of (w_files w) final = None" using f(1) w1 by (auto split: if_splits)
  moreover have "map_of (w_files w2) = (map_of (w_files w))(ds_tmp d := None, final \<mapsto> concat bodies)"
    using f(2) w1 by auto
  moreover have "final = ds_path d \<or> (\<exists>i \<ge> 2. final = dedupe_candidate (ds_path d) i)"
    using f(3) dedupe_from_candidate [of 2] unfolding dedupePath_def by metis
  ultimately show ?thesis by blast
qed

definition kind_os :: os where
  "kind_os = \<lparr>os_mkdir = (\<lambda>_. True), os_open = (\<lambda>_. True), os_copy = (\<lambda>_ _. None), os_sync = (\<lambda>_. True),
     os_close = (\<lambda>_. True), os_rename = (\<lambda>_ _. True), os_lower = id\<rparr>"

definition empty_world :: world where
  "empty_world = \<lparr>w_tickets = [], w_now = 0, w_random = [], w_files = []\<rparr>"

lemma disk_deliverable_witness:
  "\<exists>d w0 w1 d2 w2 final.
     Disk_NewSink kind_os ''/data'' ''del-1'' movie_context empty_world = (Inr d, w0)
     \<and> deliver_all kind_os d [''a'', ''b''] w0 = (Inr 0, d, w1)
     \<and> Disk_Finalize kind_os d w1 = (None, d2, w2)
     \<and> map_of (w_files w2) final = Some ''ab''"
proof -
  have opens: "os_open kind_os p = True" for p by (simp add: kind_os_def)
  obtain d w0 where 0: "Disk_NewSink kind_os ''/data'' ''del-1'' movie_context empty_world = (Inr d, w0)"
    using opens by (simp only: Disk_NewSink_def Let_def not_True_eq_False if_False)
  have d: "ds_file d = OpenHandle" and tmp: "map_of (w_files w0) (ds_tmp d) = Some []"
    using 0 by (auto simp: Disk_NewSink_def Let_def split: if_splits)
  have copy: "os_copy kind_os p b = None" for p b by (simp add: kind_os_def)
  have step: "Disk_Deliver kind_os d (Some b) w = (Inr (length b), d, append_file (ds_tmp d) b w)" for b w
    using d by (simp add: Disk_Deliver_def copy)
  obtain w1 where 1: "deliver_all kind_os d [''a'', ''b''] w0 = (Inr 0, d, w1)"
    by (simp add: step)
  have "map_of (w_files w1) (ds_tmp d) \<noteq> None" using deliver_all_appends [OF 1 d tmp] by simp
  then obtain d2 w2 where 2: "Disk_Finalize kind_os d w1 = (None, d2, w2)"
    using d by (auto simp: Disk_Finalize_def kind_os_def Let_def)
  from disk_deliverable [OF 0 1 2] obtain final where
    "map_of (w_files w2) = (map_of (w_files empty_world))(ds_tmp d := None, final \<mapsto> concat [''a'', ''b''])"
    by blast
  then have "map_of (w_files w2) final = Some ''ab''" by simp
  with 0 1 2 show ?thesis by blast
qed

end
