(* ===== verification/Delivery.thy ===== *)
theory Delivery
  imports Policy Sinks Schema "HOL-Library.Product_Lexorder"
begin

text \<open>
  The delivery engine, \<open>internal/delivery/delivery.go\<close>: sessions, the index from accounts to
  sessions, admission under the concurrent-stream limits, liveness, revocation and the watchdog.

  A session is a pointer shared by its caller and the engine's map; here the engine's map holds the
  one copy and operations name a session by its id. The clock, the resolver and the account
  constraints are arguments of the operations that read them. A sink is a value of type \<^typ>\<open>'k\<close>
  acted on through \<^typ>\<open>('k, 'w) sink_ops\<close>, over a world \<^typ>\<open>'w\<close> the sinks share. The job log and
  the menu announcements are lists, the oldest first. \<open>e.seq\<close> is an \<^typ>\<open>int\<close>: it counts the sessions
  of one process and does not come near \<open>2 ^ 63\<close>. Each operation holds the engine's mutex for its
  reads and writes and is atomic here; \<open>Start\<close>, which releases it after admission, is split into
  the definitions \<open>admit\<close> and \<open>activate\<close>, so that what runs between them can be stated.
\<close>

subsection \<open>Sessions\<close>

datatype Status = StatusQueued | StatusRunning | StatusDone | StatusFailed | StatusCancelled | StatusRevoked

record 'k Session =
  s_id :: string
  s_goal :: Goal
  s_context :: DeliveryContext
  s_status :: Status
  s_error :: string
  s_plan :: Plan
  s_menu :: "Track option list"
  s_sink :: "'k option"
  s_createdAt :: int
  s_lastHeartbeat :: int
  s_lastProgress :: int

type_synonym accountKey = "string \<times> string \<times> string"

record ('k, 'w) Engine =
  e_sessions :: "(string \<times> 'k Session) list"
  e_byAccount :: "(accountKey \<times> string list) list"
  e_seq :: int
  e_jobs :: "Job list"
  e_menus :: "string list"
  e_world :: 'w

record ('k, 'w) Options =
  o_ttl :: int
  o_interval :: int
  o_grace :: int
  o_instance :: "policy_set option"
  o_sinks :: "('k, 'w) sink_ops option"
  o_menu_ready :: bool
  o_err_text :: "sink_error \<Rightarrow> string"

type_synonym constraints = "(string \<Rightarrow> string \<Rightarrow> string + policy_set \<times> policy_set) option"
type_synonym resolver = "(string \<Rightarrow> string \<Rightarrow> string \<Rightarrow> string + MediaSource option) option"

definition New :: "'w \<Rightarrow> ('k, 'w) Engine" where
  "New w = \<lparr>e_sessions = [], e_byAccount = [], e_seq = 0, e_jobs = [], e_menus = [], e_world = w\<rparr>"

definition instancePolicy :: "('k, 'w) Options \<Rightarrow> policy_set" where
  "instancePolicy opts = (case o_instance opts of None \<Rightarrow> Defaults | Some p \<Rightarrow> p)"

definition isActive :: "'k Session \<Rightarrow> bool" where
  "isActive s \<longleftrightarrow> s_status s = StatusQueued \<or> s_status s = StatusRunning"

definition key_of :: "'k Session \<Rightarrow> accountKey" where
  "key_of s = (dc_provider (s_context s), dc_account_id (s_context s), dc_member_user_id (s_context s))"

definition toJob :: "'k Session \<Rightarrow> Job" where
  "toJob s =
     (let (st, err) =
        (case s_status s of
           StatusQueued \<Rightarrow> (JS_QUEUED, [])
         | StatusRunning \<Rightarrow> (JS_RUNNING, [])
         | StatusDone \<Rightarrow> (JS_DONE, [])
         | StatusFailed \<Rightarrow> (JS_FAILED, s_error s)
         | StatusRevoked \<Rightarrow> (JS_FAILED, s_error s)
         | StatusCancelled \<Rightarrow> (JS_CANCELLED, []))
      in \<lparr>job_id = s_id s, job_kind = JK_DELIVERY, job_status = st, job_progress = None,
          job_owner_user_id = dc_member_user_id (s_context s), job_delivery = Some (s_context s),
          job_awaiting_action = None, job_error = err\<rparr>)"

subsection \<open>Errors\<close>

datatype manifest_error = ManifestNil | ManifestType | ManifestSeekable | ManifestAddressable | ManifestTracks

datatype invalid_reason = BadGoal | MissingIdentity | MissingSink | NoResolver
  | InvalidManifest manifest_error | DrmTrack string | NoPipeline pipeline_error
  | NotRunnable plan_error | BadConstraints string | CannotHeartbeat Status | CannotProgress Status
  | PercentTooLarge

datatype delivery_error = Invalid invalid_reason | NotFound string | Denied
  | MemberQuota int int | AccountQuota int int    \<comment> \<open>limit, position\<close>
  | ResolveSources string | SinkRefused sink_error | StageMenu sink_error

definition Code :: "delivery_error option \<Rightarrow> int" where
  "Code e =
     (case e of
        None \<Rightarrow> 0
      | Some (Invalid _) \<Rightarrow> 3 | Some (NotFound _) \<Rightarrow> 5 | Some Denied \<Rightarrow> 7
      | Some (MemberQuota _ _) \<Rightarrow> 8 | Some (AccountQuota _ _) \<Rightarrow> 8
      | Some _ \<Rightarrow> 2)"

definition QuotaPosition :: "delivery_error option \<Rightarrow> int" where
  "QuotaPosition e =
     (case e of Some (MemberQuota _ p) \<Rightarrow> p | Some (AccountQuota _ p) \<Rightarrow> p | _ \<Rightarrow> 0)"

definition ValidateManifest :: "MediaSource option \<Rightarrow> manifest_error option" where
  "ValidateManifest m =
     (case m of
        None \<Rightarrow> Some ManifestNil
      | Some ms \<Rightarrow>
          if ms_type ms = MST_UNSPECIFIED then Some ManifestType
          else if ms_seekable ms = SK_UNSPECIFIED then Some ManifestSeekable
          else if ms_addressable ms = AD_UNSPECIFIED then Some ManifestAddressable
          else if ms_tracks ms = [] then Some ManifestTracks
          else None)"

fun first_drm :: "Track option list \<Rightarrow> string option" where
  "first_drm [] = None"
| "first_drm (tr # trs) =
     (case GetDelivery tr of
        Some d \<Rightarrow> if td_drm d \<noteq> None then Some (GetTrackId tr) else first_drm trs
      | None \<Rightarrow> first_drm trs)"

definition RejectUnsupportedDRM :: "MediaSource \<Rightarrow> string option" where
  "RejectUnsupportedDRM ms = first_drm (ms_tracks ms)"

subsection \<open>Start\<close>

record StartRequest =
  rq_goal :: Goal
  rq_member :: string
  rq_provider :: string
  rq_account :: string
  rq_native :: string
  rq_sink :: string
  rq_target :: string
  rq_container :: string

definition resolveConstraints :: "constraints \<Rightarrow> string \<Rightarrow> string \<Rightarrow> string + policy_set \<times> policy_set" where
  "resolveConstraints con provider account =
     (case con of None \<Rightarrow> Inr ([], []) | Some f \<Rightarrow> f provider account)"

text \<open>The checks of \<open>Start\<close> up to the account constraints; they change nothing.\<close>

definition Start_checks ::
  "resolver \<Rightarrow> constraints \<Rightarrow> StartRequest \<Rightarrow> delivery_error + MediaSource \<times> Plan \<times> policy_set \<times> policy_set" where
  "Start_checks res con req =
     (if rq_goal req \<noteq> GoalPlay \<and> rq_goal req \<noteq> GoalDownload then Inl (Invalid BadGoal)
      else if rq_provider req = [] \<or> rq_account req = [] \<or> rq_member req = [] then Inl (Invalid MissingIdentity)
      else if rq_sink req = [] then Inl (Invalid MissingSink)
      else (case res of
        None \<Rightarrow> Inl (Invalid NoResolver)
      | Some produce \<Rightarrow>
        (case produce (rq_provider req) (rq_account req) (rq_native req) of
          Inl e \<Rightarrow> Inl (ResolveSources e)
        | Inr src \<Rightarrow>
          (case (ValidateManifest src, src) of
            (Some e, _) \<Rightarrow> Inl (Invalid (InvalidManifest e))
          | (None, None) \<Rightarrow> Inl (Invalid (InvalidManifest ManifestNil))
          | (None, Some ms) \<Rightarrow>
            (case RejectUnsupportedDRM ms of
              Some t \<Rightarrow> Inl (Invalid (DrmTrack t))
            | None \<Rightarrow>
              (case SelectPipeline (rq_goal req) src (rq_container req) of
                Inl e \<Rightarrow> Inl (Invalid (NoPipeline e))
              | Inr plan \<Rightarrow>
                (case ValidatePlan plan of
                  Some e \<Rightarrow> Inl (Invalid (NotRunnable e))
                | None \<Rightarrow>
                  (case resolveConstraints con (rq_provider req) (rq_account req) of
                    Inl e \<Rightarrow> Inl (Invalid (BadConstraints e))
                  | Inr (override, capSet) \<Rightarrow> Inr (ms, plan, override, capSet)))))))))"

definition session_id :: "int \<Rightarrow> string" where
  "session_id n = ''del-'' @ Itoa n"

definition newSessionID :: "('k, 'w) Engine \<Rightarrow> string \<times> ('k, 'w) Engine" where
  "newSessionID e = (session_id (e_seq e + 1), e\<lparr>e_seq := e_seq e + 1\<rparr>)"

definition new_session :: "StartRequest \<Rightarrow> Plan \<Rightarrow> policy_set \<Rightarrow> policy_set \<Rightarrow> int \<Rightarrow> string \<Rightarrow> 'k Session" where
  "new_session req plan effective capSet now sid =
     \<lparr>s_id = sid, s_goal = rq_goal req,
      s_context = \<lparr>dc_provider = rq_provider req, dc_account_id = rq_account req,
        dc_member_user_id = rq_member req, dc_policy = effective, dc_provider_cap = capSet,
        dc_sink = rq_sink req, dc_selected_target = rq_target req, dc_container = rq_container req\<rparr>,
      s_status = StatusQueued, s_error = [], s_plan = plan, s_menu = [], s_sink = None,
      s_createdAt = now, s_lastHeartbeat = now, s_lastProgress = now\<rparr>"

definition open_sink :: "('k, 'w) Options \<Rightarrow> MediaSource \<Rightarrow> 'k Session \<Rightarrow> ('k, 'w) Engine \<Rightarrow>
    (delivery_error + 'k Session) \<times> ('k, 'w) Engine" where
  "open_sink opts ms sess e =
     (case o_sinks opts of
        None \<Rightarrow> (Inr sess, e)
      | Some ops \<Rightarrow>
         (case op_new ops (s_id sess) (s_context sess) (ms_tracks ms) (e_world e) of
            (Inl err, w) \<Rightarrow> (Inl (SinkRefused err), e\<lparr>e_world := w\<rparr>)
          | (Inr k, w) \<Rightarrow> (Inr (sess\<lparr>s_sink := Some k\<rparr>), e\<lparr>e_world := w\<rparr>)))"

definition index_add :: "accountKey \<Rightarrow> string \<Rightarrow> (accountKey \<times> string list) list \<Rightarrow> (accountKey \<times> string list) list" where
  "index_add key sid m =
     AList.update key (List.insert sid (case map_of m key of None \<Rightarrow> [] | Some ids \<Rightarrow> ids)) m"

definition index_remove :: "accountKey \<Rightarrow> string \<Rightarrow> (accountKey \<times> string list) list \<Rightarrow> (accountKey \<times> string list) list" where
  "index_remove key sid m =
     (case map_of m key of None \<Rightarrow> m | Some ids \<Rightarrow> AList.update key (removeAll sid ids) m)"

definition member_active :: "string \<Rightarrow> ('k, 'w) Engine \<Rightarrow> nat" where
  "member_active member e = count_if (\<lambda>s. isActive s \<and> dc_member_user_id (s_context s) = member) (e_sessions e)"

definition account_active :: "string \<Rightarrow> string \<Rightarrow> ('k, 'w) Engine \<Rightarrow> nat" where
  "account_active provider account e =
     count_if (\<lambda>s. isActive s \<and> dc_provider (s_context s) = provider \<and> dc_account_id (s_context s) = account)
       (e_sessions e)"

text \<open>The locked section of \<open>Start\<close>: counting, refusal and insertion.\<close>

definition admit :: "'k Session \<Rightarrow> int \<Rightarrow> int \<Rightarrow> ('k, 'w) Engine \<Rightarrow> (delivery_error + unit) \<times> ('k, 'w) Engine" where
  "admit sess memberLimit accountLimit e =
     (let c = s_context sess;
          memberActive = int (member_active (dc_member_user_id c) e);
          accountActive = int (account_active (dc_provider c) (dc_account_id c) e)
      in if memberActive \<ge> memberLimit then (Inl (MemberQuota memberLimit memberActive), e)
         else if accountActive \<ge> accountLimit then (Inl (AccountQuota accountLimit accountActive), e)
         else (Inr (), e\<lparr>e_sessions := AList.update (s_id sess) sess (e_sessions e),
                        e_byAccount := index_add (key_of sess) (s_id sess) (e_byAccount e)\<rparr>))"

definition modify_session :: "string \<Rightarrow> ('k Session \<Rightarrow> 'k Session) \<Rightarrow> ('k, 'w) Engine \<Rightarrow> ('k, 'w) Engine" where
  "modify_session sid f e =
     (case map_of (e_sessions e) sid of
        None \<Rightarrow> e
      | Some s \<Rightarrow> e\<lparr>e_sessions := AList.update sid (f s) (e_sessions e)\<rparr>)"

definition activate :: "string \<Rightarrow> ('k, 'w) Engine \<Rightarrow> ('k, 'w) Engine" where
  "activate sid = modify_session sid (\<lambda>s. s\<lparr>s_status := StatusRunning\<rparr>)"

definition recordJob :: "string \<Rightarrow> ('k, 'w) Engine \<Rightarrow> ('k, 'w) Engine" where
  "recordJob sid e =
     (case map_of (e_sessions e) sid of None \<Rightarrow> e | Some s \<Rightarrow> e\<lparr>e_jobs := e_jobs e @ [toJob s]\<rparr>)"

text \<open>The staging loop: every track with a location goes to the session's sink.\<close>

fun stage_tracks :: "('k, 'w) sink_ops \<Rightarrow> string \<Rightarrow> 'k \<Rightarrow> Track option list \<Rightarrow> ('k, 'w) Engine \<Rightarrow>
    (delivery_error + unit) \<times> ('k, 'w) Engine" where
  "stage_tracks ops sid k [] e = (Inr (), e)"
| "stage_tracks ops sid k (tr # trs) e =
     (if get_or [] td_locations (GetDelivery tr) = [] then stage_tracks ops sid k trs e
      else (case op_deliver ops k tr None (e_world e) of
              (r, k', w) \<Rightarrow>
                (let e' = modify_session sid (\<lambda>s. s\<lparr>s_sink := Some k'\<rparr>) (e\<lparr>e_world := w\<rparr>)
                 in case r of
                      Inl err \<Rightarrow> (Inl (StageMenu err), e')
                    | Inr _ \<Rightarrow> stage_tracks ops sid k' trs e')))"

definition stage_menu :: "('k, 'w) Options \<Rightarrow> MediaSource \<Rightarrow> 'k Session \<Rightarrow> ('k, 'w) Engine \<Rightarrow>
    (delivery_error + unit) \<times> ('k, 'w) Engine" where
  "stage_menu opts ms sess e =
     (case (o_sinks opts, s_sink sess) of
        (Some ops, Some k) \<Rightarrow>
          if s_goal sess = GoalPlay \<and> ms_tracks ms \<noteq> [] then
            and_then
              (stage_tracks ops (s_id sess) k (ms_tracks ms)
                 (modify_session (s_id sess) (\<lambda>s. s\<lparr>s_menu := ms_tracks ms\<rparr>) e))
              (\<lambda>_ e'. (Inr (), if o_menu_ready opts then e'\<lparr>e_menus := e_menus e' @ [s_id sess]\<rparr> else e'))
          else (Inr (), e)
      | _ \<Rightarrow> (Inr (), e))"

definition Start :: "('k, 'w) Options \<Rightarrow> resolver \<Rightarrow> constraints \<Rightarrow> StartRequest \<Rightarrow> int \<Rightarrow> ('k, 'w) Engine \<Rightarrow>
    (delivery_error + string) \<times> ('k, 'w) Engine" where
  "Start opts res con req now e =
     (case Start_checks res con req of
        Inl err \<Rightarrow> (Inl err, e)
      | Inr (ms, plan, override, capSet) \<Rightarrow>
          let effective = With (instancePolicy opts) override;
              accountLimit = EffectiveAccountLimit effective capSet;
              memberLimit = fst (Streams (instancePolicy opts));
              (sid, e1) = newSessionID e
          in and_then (open_sink opts ms (new_session req plan effective capSet now sid) e1)
               (\<lambda>sess e2. and_then (admit sess memberLimit accountLimit e2)
                 (\<lambda>_ e3. and_then (stage_menu opts ms sess (activate sid e3))
                   (\<lambda>_ e4. (Inr sid, recordJob sid e4)))))"

subsection \<open>Liveness\<close>

definition Heartbeat :: "string \<Rightarrow> string \<Rightarrow> int \<Rightarrow> ('k, 'w) Engine \<Rightarrow> delivery_error option \<times> ('k, 'w) Engine" where
  "Heartbeat sid member now e =
     (case map_of (e_sessions e) sid of
        None \<Rightarrow> (Some (NotFound sid), e)
      | Some s \<Rightarrow>
          if dc_member_user_id (s_context s) \<noteq> member then (Some Denied, e)
          else if \<not> isActive s then (Some (Invalid (CannotHeartbeat (s_status s))), e)
          else (None, modify_session sid (\<lambda>s. s\<lparr>s_lastHeartbeat := now\<rparr>) e))"

definition Progress :: "string \<Rightarrow> 32 word \<Rightarrow> int \<Rightarrow> ('k, 'w) Engine \<Rightarrow> delivery_error option \<times> ('k, 'w) Engine" where
  "Progress sid percent now e =
     (case map_of (e_sessions e) sid of
        None \<Rightarrow> (Some (NotFound sid), e)
      | Some s \<Rightarrow>
          if \<not> isActive s then (Some (Invalid (CannotProgress (s_status s))), e)
          else if percent > 100 then (Some (Invalid PercentTooLarge), e)
          else (None, modify_session sid (\<lambda>s. s\<lparr>s_lastProgress := now\<rparr>) e))"

definition Get :: "string \<Rightarrow> ('k, 'w) Engine \<Rightarrow> 'k Session option" where
  "Get sid e = map_of (e_sessions e) sid"

definition LiveSessions :: "('k, 'w) Engine \<Rightarrow> nat" where
  "LiveSessions e = count_if isActive (e_sessions e)"

subsection \<open>Ending sessions\<close>

text \<open>\<open>if s.Sink != nil { s.Sink.Abort(...) }\<close>.\<close>

definition abort_sink :: "('k, 'w) Options \<Rightarrow> 'k Session \<Rightarrow> 'w \<Rightarrow> 'k Session \<times> 'w" where
  "abort_sink opts s w =
     (case (o_sinks opts, s_sink s) of
        (Some ops, Some k) \<Rightarrow> (case op_abort ops k w of (k', w') \<Rightarrow> (s\<lparr>s_sink := Some k'\<rparr>, w'))
      | _ \<Rightarrow> (s, w))"

text \<open>One session revoked: status and error, \<open>Abort\<close> of its sink, and the job record.\<close>

definition revoke_session :: "('k, 'w) Options \<Rightarrow> string \<Rightarrow> string \<Rightarrow> 'k Session \<Rightarrow> ('k, 'w) Engine \<Rightarrow> ('k, 'w) Engine" where
  "revoke_session opts why sid s e =
     (let (s', w) = abort_sink opts (s\<lparr>s_status := StatusRevoked, s_error := why\<rparr>) (e_world e)
      in e\<lparr>e_sessions := AList.update sid s' (e_sessions e), e_world := w, e_jobs := e_jobs e @ [toJob s']\<rparr>)"

text \<open>The loops over a list of ids: those that are in the map and satisfy the guard are revoked and
  counted, and with \<^verbatim>\<open>unindex\<close> they leave the index.\<close>

fun revoke_where :: "('k, 'w) Options \<Rightarrow> string \<Rightarrow> bool \<Rightarrow> ('k Session \<Rightarrow> bool) \<Rightarrow> string list \<Rightarrow> ('k, 'w) Engine \<Rightarrow>
    nat \<times> ('k, 'w) Engine" where
  "revoke_where opts why unindex P [] e = (0, e)"
| "revoke_where opts why unindex P (sid # ids) e =
     (case map_of (e_sessions e) sid of
        None \<Rightarrow> revoke_where opts why unindex P ids e
      | Some s \<Rightarrow>
          if \<not> P s then revoke_where opts why unindex P ids e
          else (let e1 = revoke_session opts why sid s e;
                    e2 = (if unindex then e1\<lparr>e_byAccount := index_remove (key_of s) sid (e_byAccount e1)\<rparr> else e1);
                    (n, e3) = revoke_where opts why unindex P ids e2
                in (Suc n, e3)))"

definition RevokeAccount :: "('k, 'w) Options \<Rightarrow> string \<Rightarrow> string \<Rightarrow> string \<Rightarrow> ('k, 'w) Engine \<Rightarrow> nat \<times> ('k, 'w) Engine" where
  "RevokeAccount opts provider account member e =
     (let key = (provider, account, member);
          ids = (case map_of (e_byAccount e) key of None \<Rightarrow> [] | Some l \<Rightarrow> l);
          (n, e1) = revoke_where opts ''account revoked'' False (\<lambda>_. True) ids e
      in (n, e1\<lparr>e_byAccount := AList.delete key (e_byAccount e1)\<rparr>))"

definition RevokeAllOnAccount :: "('k, 'w) Options \<Rightarrow> string \<Rightarrow> ('k, 'w) Engine \<Rightarrow> nat \<times> ('k, 'w) Engine" where
  "RevokeAllOnAccount opts account e =
     revoke_where opts ''account revoked'' True (\<lambda>s. dc_account_id (s_context s) = account)
       (map fst (e_sessions e)) e"

definition RevokeOthersOnAccount :: "('k, 'w) Options \<Rightarrow> string \<Rightarrow> string \<Rightarrow> string list \<Rightarrow> ('k, 'w) Engine \<Rightarrow>
    nat \<times> ('k, 'w) Engine" where
  "RevokeOthersOnAccount opts provider account keep e =
     revoke_where opts ''account sharing narrowed'' True
       (\<lambda>s. dc_provider (s_context s) = provider \<and> dc_account_id (s_context s) = account \<and> isActive s
            \<and> dc_member_user_id (s_context s) \<notin> set keep)
       (map fst (e_sessions e)) e"

definition active_on :: "string \<Rightarrow> string \<Rightarrow> ('k, 'w) Engine \<Rightarrow> (string \<times> 'k Session) list" where
  "active_on provider account e =
     filter (\<lambda>(sid, s). isActive s \<and> dc_provider (s_context s) = provider \<and> dc_account_id (s_context s) = account)
       (e_sessions e)"

text \<open>The eviction order: the oldest first, ties by id.\<close>

definition eviction_order :: "(string \<times> 'k Session) list \<Rightarrow> (string \<times> 'k Session) list" where
  "eviction_order = sort_key (\<lambda>(sid, s). (s_createdAt s, sid))"

text \<open>
  A limit is not negative where the application wires the engine: instance policy and overrides are
  validated and a declared cap is a positive number; so the slice \<open>active[:kill]\<close> is in range.
\<close>

definition ApplyAccountCap :: "('k, 'w) Options \<Rightarrow> constraints \<Rightarrow> string \<Rightarrow> string \<Rightarrow> bool \<Rightarrow> ('k, 'w) Engine \<Rightarrow>
    (string + nat) \<times> ('k, 'w) Engine" where
  "ApplyAccountCap opts con provider account enforceNow e =
     (case resolveConstraints con provider account of
        Inl err \<Rightarrow> (Inl err, e)
      | Inr (override, capSet) \<Rightarrow>
          let accountLimit = EffectiveAccountLimit (With (instancePolicy opts) override) capSet;
              active = active_on provider account e
          in if \<not> enforceNow \<or> int (length active) \<le> accountLimit then (Inr 0, e)
             else let n = nat (int (length active) - accountLimit);
                      (killed, e') = revoke_where opts ''stream limit lowered by the account owner'' True isActive
                         (map fst (take n (eviction_order active))) e
                  in (Inr killed, e'))"

definition finalize_sink :: "('k, 'w) Options \<Rightarrow> 'k Session \<Rightarrow> 'w \<Rightarrow> 'k Session \<times> 'w" where
  "finalize_sink opts s w =
     (case (o_sinks opts, s_sink s) of
        (Some ops, Some k) \<Rightarrow>
          (case op_finalize ops k w of
             (None, k', w') \<Rightarrow> (s\<lparr>s_sink := Some k'\<rparr>, w')
           | (Some err, k', w') \<Rightarrow> (s\<lparr>s_sink := Some k', s_error := o_err_text opts err\<rparr>, w'))
      | _ \<Rightarrow> (s, w))"

definition Complete :: "('k, 'w) Options \<Rightarrow> string \<Rightarrow> ('k, 'w) Engine \<Rightarrow> delivery_error option \<times> ('k, 'w) Engine" where
  "Complete opts sid e =
     (case map_of (e_sessions e) sid of
        None \<Rightarrow> (Some (NotFound sid), e)
      | Some s \<Rightarrow>
          let (s', w) = finalize_sink opts (s\<lparr>s_status := StatusDone\<rparr>) (e_world e)
          in (None, recordJob sid (e\<lparr>e_sessions := AList.update sid s' (e_sessions e), e_world := w\<rparr>)))"

subsection \<open>The watchdog\<close>

text \<open>Why \<open>sweep\<close> ends a session at time \<^verbatim>\<open>now\<close>, if it does.\<close>

definition overdue :: "('k, 'w) Options \<Rightarrow> int \<Rightarrow> 'k Session \<Rightarrow> string option" where
  "overdue opts now s =
     (if s_goal s = GoalPlay \<and> now - s_lastHeartbeat s > o_interval opts + o_grace opts
      then Some ''heartbeat timed out''
      else if s_goal s \<noteq> GoalPlay \<and> now - s_lastProgress s > o_ttl opts then Some ''download stalled''
      else if now - s_createdAt s > o_ttl opts then Some ''session TTL expired''
      else None)"

definition mark :: "('k, 'w) Options \<Rightarrow> int \<Rightarrow> 'k Session \<Rightarrow> 'k Session option" where
  "mark opts now s =
     (if \<not> isActive s then None
      else map_option (\<lambda>why. s\<lparr>s_status := StatusFailed, s_error := why\<rparr>) (overdue opts now s))"

fun collect_dead :: "('k, 'w) Options \<Rightarrow> (string \<Rightarrow> int) \<Rightarrow> (string \<times> 'k Session) list \<Rightarrow> 'k Session list" where
  "collect_dead opts clock [] = []"
| "collect_dead opts clock ((sid, s) # ss) =
     (case mark opts (clock sid) s of
        None \<Rightarrow> collect_dead opts clock ss
      | Some d \<Rightarrow> d # collect_dead opts clock ss)"

definition bury :: "'k Session \<Rightarrow> ('k, 'w) Engine \<Rightarrow> ('k, 'w) Engine" where
  "bury d e = e\<lparr>e_sessions := AList.delete (s_id d) (e_sessions e),
     e_byAccount := index_remove (key_of d) (s_id d) (e_byAccount e),
     e_jobs := e_jobs e @ [toJob d]\<rparr>"

text \<open>\<open>clock sid\<close> is what \<open>e.now()\<close> answers when the loop is at the session.\<close>

definition sweep :: "('k, 'w) Options \<Rightarrow> (string \<Rightarrow> int) \<Rightarrow> ('k, 'w) Engine \<Rightarrow> ('k, 'w) Engine" where
  "sweep opts clock e = fold bury (collect_dead opts clock (e_sessions e)) e"

end
