(* ===== verification/Delivery_Invariant.thy ===== *)
theory Delivery_Invariant
  imports Delivery
begin

text \<open>
  The invariant of the delivery engine and its reachable states.

  \<open>table_ok\<close> relates the session table, the account index and the id counter: ids are the ones
  handed out, each under its own key; the index lists sessions of its key only, and every active
  session is listed. Each operation keeps it (\<open>table_ok_Start\<close> to \<open>table_ok_sweep\<close>), hence it holds
  in every state \<open>reachable\<close> from \<open>New\<close> (\<open>reachable_table_ok\<close>).
\<close>

subsection \<open>The invariant\<close>

definition wf_session :: "'k Session \<Rightarrow> bool" where
  "wf_session s \<longleftrightarrow>
     dc_provider (s_context s) \<noteq> [] \<and> dc_account_id (s_context s) \<noteq> [] \<and> dc_member_user_id (s_context s) \<noteq> []
     \<and> dc_sink (s_context s) \<noteq> [] \<and> (s_goal s = GoalPlay \<or> s_goal s = GoalDownload)
     \<and> (s_status s = StatusFailed \<or> s_status s = StatusRevoked \<longrightarrow> s_error s \<noteq> [])"

definition issued :: "int \<Rightarrow> string \<Rightarrow> bool" where
  "issued seq sid \<longleftrightarrow> (\<exists>n. 1 \<le> n \<and> n \<le> seq \<and> sid = session_id n)"

definition listed :: "(accountKey \<times> string list) list \<Rightarrow> accountKey \<Rightarrow> string \<Rightarrow> bool" where
  "listed by key sid \<longleftrightarrow> (case map_of by key of None \<Rightarrow> False | Some ids \<Rightarrow> sid \<in> set ids)"

definition table_ok :: "(string \<times> 'k Session) list \<Rightarrow> (accountKey \<times> string list) list \<Rightarrow> int \<Rightarrow> bool" where
  "table_ok ss by seq \<longleftrightarrow>
     distinct (map fst ss) \<and> 0 \<le> seq
     \<and> (\<forall>sid s. map_of ss sid = Some s \<longrightarrow> s_id s = sid \<and> issued seq sid \<and> wf_session s)
     \<and> (\<forall>key sid. listed by key sid \<longrightarrow> (\<exists>s. map_of ss sid = Some s \<and> key_of s = key))
     \<and> (\<forall>sid s. map_of ss sid = Some s \<and> isActive s \<longrightarrow> listed by (key_of s) sid)"

abbreviation engine_ok :: "('k, 'w) Engine \<Rightarrow> bool" where
  "engine_ok e \<equiv> table_ok (e_sessions e) (e_byAccount e) (e_seq e)"

lemma table_ok_distinct: "table_ok ss by seq \<Longrightarrow> distinct (map fst ss)"
  by (simp add: table_ok_def)

lemma table_ok_session:
  "table_ok ss by seq \<Longrightarrow> map_of ss sid = Some s \<Longrightarrow> s_id s = sid \<and> issued seq sid \<and> wf_session s"
  by (simp add: table_ok_def)

lemma table_ok_listed: "table_ok ss by seq \<Longrightarrow> listed by key sid \<Longrightarrow> \<exists>s. map_of ss sid = Some s \<and> key_of s = key"
  unfolding table_ok_def by blast

lemma table_ok_active: "table_ok ss by seq \<Longrightarrow> map_of ss sid = Some s \<Longrightarrow> isActive s \<Longrightarrow> listed by (key_of s) sid"
  by (simp add: table_ok_def)

lemma session_id_inj [simp]: "session_id m = session_id n \<longleftrightarrow> m = n"
  by (auto simp: session_id_def dest: Itoa_inj)

lemma session_id_not_Nil [simp]: "session_id n \<noteq> []"
  by (simp add: session_id_def)

lemma not_issued_next: "\<not> issued seq (session_id (seq + 1))"
  by (auto simp: issued_def)

lemma issued_mono: "issued seq sid \<Longrightarrow> issued (seq + 1) sid"
  by (force simp: issued_def)

subsection \<open>The index\<close>

lemma listed_add [simp]:
  "listed (index_add key sid by) key' sid' \<longleftrightarrow> listed by key' sid' \<or> (key' = key \<and> sid' = sid)"
  by (auto simp: listed_def index_add_def split: option.splits)

lemma listed_remove [simp]:
  "listed (index_remove key sid by) key' sid' \<longleftrightarrow> listed by key' sid' \<and> \<not> (key' = key \<and> sid' = sid)"
  by (auto simp: listed_def index_remove_def split: option.splits)

lemma listed_delete [simp]:
  "listed (AList.delete key by) key' sid \<longleftrightarrow> listed by key' sid \<and> key' \<noteq> key"
  by (auto simp: listed_def split: option.splits)

subsection \<open>Steps on the table\<close>

lemma table_ok_update:
  assumes "table_ok ss by seq" and "map_of ss sid = Some s"
    and "s_id s' = s_id s" and "key_of s' = key_of s" and "wf_session s'" and "isActive s' \<longrightarrow> isActive s"
  shows "table_ok (AList.update sid s' ss) by seq"
proof -
  have "listed by key t \<Longrightarrow> \<exists>u. map_of (AList.update sid s' ss) t = Some u \<and> key_of u = key" for key t
    using table_ok_listed [OF assms(1)] assms(2,4) by (cases "t = sid") fastforce+
  moreover have "s_id s = sid \<and> issued seq sid" using table_ok_session [OF assms(1,2)] by blast
  moreover have "isActive s' \<Longrightarrow> listed by (key_of s') sid"
    using table_ok_active [OF assms(1,2)] assms(4,6) by simp
  ultimately show ?thesis
    using assms(1,3,5) unfolding table_ok_def by (simp del: update_conv')
qed

lemma table_ok_unlist:
  assumes "table_ok ss by seq" and "\<forall>s. map_of ss sid = Some s \<longrightarrow> \<not> isActive s"
  shows "table_ok ss (index_remove key sid by) seq"
  using assms unfolding table_ok_def by auto

lemma table_ok_delete_key:
  assumes "table_ok ss by seq" and "\<forall>sid s. map_of ss sid = Some s \<and> key_of s = key \<longrightarrow> \<not> isActive s"
  shows "table_ok ss (AList.delete key by) seq"
  using assms unfolding table_ok_def by auto

lemma table_ok_insert:
  assumes "table_ok ss by seq" and "map_of ss (s_id s) = None" and "wf_session s" and "issued seq (s_id s)"
  shows "table_ok (AList.update (s_id s) s ss) (index_add (key_of s) (s_id s) by) seq"
proof -
  have "listed by key t \<Longrightarrow> \<exists>u. map_of (AList.update (s_id s) s ss) t = Some u \<and> key_of u = key" for key t
    using table_ok_listed [OF assms(1)] assms(2) by (cases "t = s_id s") fastforce+
  then show ?thesis using assms unfolding table_ok_def by auto
qed

lemma table_ok_bury:
  assumes "table_ok ss by seq" and "map_of ss sid = Some s"
  shows "table_ok (AList.delete sid ss) (index_remove (key_of s) sid by) seq"
proof -
  have "listed by key t \<and> \<not> (key = key_of s \<and> t = sid) \<Longrightarrow>
      \<exists>u. map_of (AList.delete sid ss) t = Some u \<and> key_of u = key" for key t
    using table_ok_listed [OF assms(1), of key t] assms(2) by auto
  then show ?thesis using assms unfolding table_ok_def by auto
qed

lemma table_ok_seq: "table_ok ss by seq \<Longrightarrow> table_ok ss by (seq + 1)"
  unfolding table_ok_def using issued_mono by auto

lemma table_ok_fresh: "table_ok ss by seq \<Longrightarrow> map_of ss (session_id (seq + 1)) = None"
  using table_ok_session not_issued_next by (metis not_None_eq)

subsection \<open>Single operations\<close>

lemma modify_session_fields [simp]:
  "e_byAccount (modify_session sid f e) = e_byAccount e" "e_seq (modify_session sid f e) = e_seq e"
  "e_world (modify_session sid f e) = e_world e" "e_jobs (modify_session sid f e) = e_jobs e"
  "e_menus (modify_session sid f e) = e_menus e"
  by (simp_all add: modify_session_def split: option.splits)

lemma modify_session_get:
  "map_of (e_sessions (modify_session sid f e)) t =
     (if t = sid then map_option f (map_of (e_sessions e) sid) else map_of (e_sessions e) t)"
  by (simp add: modify_session_def split: option.splits)

lemma modify_session_ok:
  assumes "engine_ok e" and "\<And>s. s_id (f s) = s_id s" and "\<And>s. s_context (f s) = s_context s"
    and "\<And>s. wf_session s \<Longrightarrow> map_of (e_sessions e) sid = Some s \<Longrightarrow> wf_session (f s)"
    and "\<And>s. map_of (e_sessions e) sid = Some s \<Longrightarrow> isActive (f s) \<Longrightarrow> isActive s"
  shows "engine_ok (modify_session sid f e)"
proof (cases "map_of (e_sessions e) sid")
  case None
  then show ?thesis using assms(1) by (simp add: modify_session_def)
next
  case (Some s)
  then have "table_ok (AList.update sid (f s) (e_sessions e)) (e_byAccount e) (e_seq e)"
    using table_ok_session [OF assms(1) Some] assms
    by (intro table_ok_update [of _ _ _ _ s]) (auto simp: key_of_def)
  with Some show ?thesis by (simp add: modify_session_def)
qed

lemma recordJob_fields [simp]:
  "e_sessions (recordJob sid e) = e_sessions e" "e_byAccount (recordJob sid e) = e_byAccount e"
  "e_seq (recordJob sid e) = e_seq e" "e_world (recordJob sid e) = e_world e"
  "e_menus (recordJob sid e) = e_menus e"
  by (simp_all add: recordJob_def split: option.splits)

lemma open_sink_fields:
  assumes "open_sink opts ms sess e = (r, e')"
  shows "e_sessions e' = e_sessions e" "e_byAccount e' = e_byAccount e" "e_seq e' = e_seq e"
    "e_jobs e' = e_jobs e" "r = Inr s \<Longrightarrow> \<exists>k. s = sess\<lparr>s_sink := k\<rparr>"
  using assms by (auto simp: open_sink_def split: option.splits prod.splits sum.splits intro: exI [of _ "s_sink sess"])

lemma stage_tracks_fields:
  "stage_tracks ops sid k trs e = (r, e') \<Longrightarrow>
     e_byAccount e' = e_byAccount e \<and> e_seq e' = e_seq e \<and> e_jobs e' = e_jobs e \<and> e_menus e' = e_menus e"
  by (induction ops sid k trs e arbitrary: r e' rule: stage_tracks.induct)
     (auto simp: Let_def split: if_splits prod.splits sum.splits)

text \<open>What staging may do to a session: its sink and menu change, nothing else.\<close>

definition restaged :: "'k Session \<Rightarrow> 'k Session \<Rightarrow> bool" where
  "restaged s s' \<longleftrightarrow> (\<exists>k m. s' = s\<lparr>s_sink := k, s_menu := m\<rparr>)"

lemma restaged_refl [simp]: "restaged s s"
  unfolding restaged_def by (rule exI [of _ "s_sink s"], rule exI [of _ "s_menu s"]) simp

lemma restaged_trans: "restaged s t \<Longrightarrow> restaged t u \<Longrightarrow> restaged s u"
  unfolding restaged_def by force

lemma restaged_simps:
  "restaged s s' \<Longrightarrow> s_id s' = s_id s \<and> s_context s' = s_context s \<and> s_status s' = s_status s
     \<and> s_goal s' = s_goal s \<and> s_error s' = s_error s \<and> s_createdAt s' = s_createdAt s
     \<and> s_lastHeartbeat s' = s_lastHeartbeat s \<and> s_lastProgress s' = s_lastProgress s \<and> s_plan s' = s_plan s"
  unfolding restaged_def by force

lemma restaged_same:
  assumes "restaged s s'"
  shows "isActive s' = isActive s" and "wf_session s' = wf_session s" and "key_of s' = key_of s"
  using restaged_simps [OF assms] by (simp_all add: isActive_def wf_session_def key_of_def)

text \<open>Two tables that differ in one session, restaged.\<close>

definition one_restaged :: "string \<Rightarrow> (string \<times> 'k Session) list \<Rightarrow> (string \<times> 'k Session) list \<Rightarrow> bool" where
  "one_restaged sid ss ss' \<longleftrightarrow>
     ss' = ss \<or> (\<exists>s s'. map_of ss sid = Some s \<and> restaged s s' \<and> ss' = AList.update sid s' ss)"

lemma one_restaged_refl [simp]: "one_restaged sid ss ss"
  by (simp add: one_restaged_def)

lemma update_same_key: "AList.update k v' (AList.update k v m) = AList.update k v' m"
  by (induction m) auto

lemma one_restaged_trans: "one_restaged sid a b \<Longrightarrow> one_restaged sid b c \<Longrightarrow> one_restaged sid a c"
proof -
  assume ab: "one_restaged sid a b" and bc: "one_restaged sid b c"
  show ?thesis
  proof (cases "b = a \<or> c = b")
    case True
    with ab bc show ?thesis by auto
  next
    case False
    with ab bc obtain s t u where s: "map_of a sid = Some s" "restaged s t" "b = AList.update sid t a"
        and u: "map_of b sid = Some t" "restaged t u" "c = AList.update sid u b"
      by (auto simp: one_restaged_def)
    have "c = AList.update sid u a" using s(3) u(3) by (simp add: update_same_key)
    moreover have "restaged s u" using s(2) u(2) by (rule restaged_trans)
    ultimately show ?thesis using s(1) unfolding one_restaged_def by blast
  qed
qed

lemma one_restaged_modify:
  "(\<And>s. restaged s (f s)) \<Longrightarrow> one_restaged sid (e_sessions e) (e_sessions (modify_session sid f e))"
  by (auto simp: one_restaged_def modify_session_def split: option.splits)

lemma one_restaged_ok:
  assumes "table_ok ss by seq" and "one_restaged sid ss ss'"
  shows "table_ok ss' by seq"
proof (cases "ss' = ss")
  case True
  with assms(1) show ?thesis by simp
next
  case False
  with assms(2) obtain s s' where s: "map_of ss sid = Some s" "restaged s s'" "ss' = AList.update sid s' ss"
    by (auto simp: one_restaged_def)
  then show ?thesis
    using table_ok_session [OF assms(1) s(1)] restaged_simps [OF s(2)] restaged_same [OF s(2)]
      table_ok_update [OF assms(1) s(1), of s'] by simp
qed

lemma restaged_sink [simp]: "restaged s (s\<lparr>s_sink := k\<rparr>)"
  unfolding restaged_def by (rule exI [of _ k], rule exI [of _ "s_menu s"]) simp

lemma restaged_menu [simp]: "restaged s (s\<lparr>s_menu := m\<rparr>)"
  unfolding restaged_def by (rule exI [of _ "s_sink s"], rule exI [of _ m]) simp

lemma stage_tracks_restaged:
  "stage_tracks ops sid k trs e = (r, e') \<Longrightarrow> one_restaged sid (e_sessions e) (e_sessions e')"
proof (induction trs arbitrary: k e)
  case Nil
  then show ?case by simp
next
  case (Cons tr trs)
  show ?case
  proof (cases "get_or [] td_locations (GetDelivery tr) = []")
    case True
    with Cons show ?thesis by simp
  next
    case False
    obtain r1 k' w where d: "op_deliver ops k tr None (e_world e) = (r1, k', w)"
      by (cases "op_deliver ops k tr None (e_world e)") auto
    let ?e = "modify_session sid (\<lambda>s. s\<lparr>s_sink := Some k'\<rparr>) (e\<lparr>e_world := w\<rparr>)"
    have m: "one_restaged sid (e_sessions e) (e_sessions ?e)"
      using one_restaged_modify [of "\<lambda>s. s\<lparr>s_sink := Some k'\<rparr>" sid "e\<lparr>e_world := w\<rparr>"] by simp
    show ?thesis
    proof (cases r1)
      case (Inl err)
      with False d Cons.prems m show ?thesis by (simp add: Let_def)
    next
      case (Inr n)
      with False d Cons.prems have "stage_tracks ops sid k' trs ?e = (r, e')" by (simp add: Let_def)
      with Cons.IH have "one_restaged sid (e_sessions ?e) (e_sessions e')" .
      with m show ?thesis by (rule one_restaged_trans)
    qed
  qed
qed

lemma stage_menu_restaged:
  assumes "stage_menu opts ms sess e = (r, e')"
  shows "one_restaged (s_id sess) (e_sessions e) (e_sessions e')"
    and "e_byAccount e' = e_byAccount e" and "e_seq e' = e_seq e"
proof -
  let ?m = "modify_session (s_id sess) (\<lambda>s. s\<lparr>s_menu := ms_tracks ms\<rparr>) e"
  have m: "one_restaged (s_id sess) (e_sessions e) (e_sessions ?m)"
    by (rule one_restaged_modify) simp
  have "one_restaged (s_id sess) (e_sessions e) (e_sessions e')
    \<and> e_byAccount e' = e_byAccount e \<and> e_seq e' = e_seq e"
  proof (cases "\<exists>ops k. o_sinks opts = Some ops \<and> s_sink sess = Some k
      \<and> s_goal sess = GoalPlay \<and> ms_tracks ms \<noteq> []")
    case True
    then obtain ops k where k: "o_sinks opts = Some ops" "s_sink sess = Some k" "s_goal sess = GoalPlay"
      "ms_tracks ms \<noteq> []" by blast
    obtain r1 e1 where s: "stage_tracks ops (s_id sess) k (ms_tracks ms) ?m = (r1, e1)" by fastforce
    have "e_sessions e' = e_sessions e1 \<and> e_byAccount e' = e_byAccount e1 \<and> e_seq e' = e_seq e1"
      using assms k s by (cases r1) (auto simp: stage_menu_def)
    then show ?thesis
      using one_restaged_trans [OF m stage_tracks_restaged [OF s]] stage_tracks_fields [OF s] by simp
  next
    case False
    then have "e' = e" using assms by (auto simp: stage_menu_def split: option.splits if_splits)
    then show ?thesis by simp
  qed
  then show "one_restaged (s_id sess) (e_sessions e) (e_sessions e')"
    and "e_byAccount e' = e_byAccount e" and "e_seq e' = e_seq e" by auto
qed

subsection \<open>Start\<close>

lemma Start_checks_request:
  assumes "Start_checks res con req = Inr x"
  shows "rq_provider req \<noteq> [] \<and> rq_account req \<noteq> [] \<and> rq_member req \<noteq> [] \<and> rq_sink req \<noteq> []
    \<and> (rq_goal req = GoalPlay \<or> rq_goal req = GoalDownload)"
  using assms by (auto simp: Start_checks_def split: if_splits)

lemma new_session_simps [simp]:
  "s_id (new_session req plan eff cap now sid) = sid"
  "s_status (new_session req plan eff cap now sid) = StatusQueued"
  "s_goal (new_session req plan eff cap now sid) = rq_goal req"
  "s_sink (new_session req plan eff cap now sid) = None"
  "dc_provider (s_context (new_session req plan eff cap now sid)) = rq_provider req"
  "dc_account_id (s_context (new_session req plan eff cap now sid)) = rq_account req"
  "dc_member_user_id (s_context (new_session req plan eff cap now sid)) = rq_member req"
  "dc_sink (s_context (new_session req plan eff cap now sid)) = rq_sink req"
  by (simp_all add: new_session_def)

lemma wf_new_session:
  "Start_checks res con req = Inr x \<Longrightarrow> wf_session ((new_session req plan eff cap now sid)\<lparr>s_sink := k\<rparr>)"
  using Start_checks_request [of res con req x] by (simp add: wf_session_def)

lemma activate_fields [simp]:
  "e_byAccount (activate sid e) = e_byAccount e" "e_seq (activate sid e) = e_seq e"
  "e_world (activate sid e) = e_world e" "e_jobs (activate sid e) = e_jobs e"
  by (simp_all add: activate_def)

text \<open>The stages a \<open>Start\<close> that passes its checks goes through; each may be the last.\<close>

lemma Start_stages:
  assumes "Start_checks res con req = Inr (ms, plan, override, capSet)"
    and "Start opts res con req now e = (r, e')"
  obtains
    (refused) err e2 where "open_sink opts ms (new_session req plan (With (instancePolicy opts) override) capSet now
          (session_id (e_seq e + 1))) (e\<lparr>e_seq := e_seq e + 1\<rparr>) = (Inl err, e2)" "r = Inl err" "e' = e2"
  | (full) sess e2 err where "open_sink opts ms (new_session req plan (With (instancePolicy opts) override) capSet now
          (session_id (e_seq e + 1))) (e\<lparr>e_seq := e_seq e + 1\<rparr>) = (Inr sess, e2)"
      "admit sess (fst (Streams (instancePolicy opts)))
         (EffectiveAccountLimit (With (instancePolicy opts) override) capSet) e2 = (Inl err, e2)"
      "r = Inl err" "e' = e2"
  | (started) sess e2 e3 r4 e4 where "open_sink opts ms (new_session req plan (With (instancePolicy opts) override) capSet now
          (session_id (e_seq e + 1))) (e\<lparr>e_seq := e_seq e + 1\<rparr>) = (Inr sess, e2)"
      "admit sess (fst (Streams (instancePolicy opts)))
         (EffectiveAccountLimit (With (instancePolicy opts) override) capSet) e2 = (Inr (), e3)"
      "stage_menu opts ms sess (activate (session_id (e_seq e + 1)) e3) = (r4, e4)"
      "r = (case r4 of Inl err \<Rightarrow> Inl err | Inr _ \<Rightarrow> Inr (session_id (e_seq e + 1)))"
      "e' = (case r4 of Inl err \<Rightarrow> e4 | Inr _ \<Rightarrow> recordJob (session_id (e_seq e + 1)) e4)"
proof -
  let ?sid = "session_id (e_seq e + 1)" and ?eff = "With (instancePolicy opts) override"
  let ?new = "new_session req plan ?eff capSet now ?sid" and ?e1 = "e\<lparr>e_seq := e_seq e + 1\<rparr>"
  have S: "Start opts res con req now e =
      and_then (open_sink opts ms ?new ?e1)
        (\<lambda>sess e2. and_then (admit sess (fst (Streams (instancePolicy opts))) (EffectiveAccountLimit ?eff capSet) e2)
          (\<lambda>_ e3. and_then (stage_menu opts ms sess (activate ?sid e3)) (\<lambda>_ e4. (Inr ?sid, recordJob ?sid e4))))"
    using assms(1) by (simp add: Start_def newSessionID_def Let_def)
  obtain o1 e2 where o: "open_sink opts ms ?new ?e1 = (o1, e2)" by fastforce
  show thesis
  proof (cases o1)
    case (Inl err)
    with S o assms(2) show thesis by (intro refused [of err e2]) simp_all
  next
    case (Inr sess)
    obtain a e3 where ad: "admit sess (fst (Streams (instancePolicy opts))) (EffectiveAccountLimit ?eff capSet) e2 = (a, e3)"
      by fastforce
    show thesis
    proof (cases a)
      case (Inl err)
      then have "e3 = e2" using ad by (auto simp: admit_def Let_def split: if_splits)
      with S o Inr ad Inl assms(2) show thesis by (intro full [of sess e2 err]) simp_all
    next
      case (Inr u)
      obtain r4 e4 where st: "stage_menu opts ms sess (activate ?sid e3) = (r4, e4)" by fastforce
      show thesis
        using S o \<open>o1 = Inr sess\<close> ad Inr st assms(2)
        by (intro started [of sess e2 e3 r4 e4]) (cases r4; simp)+
    qed
  qed
qed

lemma Start_checks_Inl: "Start_checks res con req = Inl err \<Longrightarrow> Start opts res con req now e = (Inl err, e)"
  by (simp add: Start_def)

lemma admit_Inr:
  assumes "admit sess ml al e = (Inr (), e')"
  shows "e' = e\<lparr>e_sessions := AList.update (s_id sess) sess (e_sessions e),
                 e_byAccount := index_add (key_of sess) (s_id sess) (e_byAccount e)\<rparr>"
    and "int (member_active (dc_member_user_id (s_context sess)) e) < ml"
    and "int (account_active (dc_provider (s_context sess)) (dc_account_id (s_context sess)) e) < al"
  using assms by (auto simp: admit_def Let_def split: if_splits)

lemma table_ok_Start:
  assumes "engine_ok e"
  shows "engine_ok (snd (Start opts res con req now e))"
proof (cases "Start_checks res con req")
  case (Inl err)
  with assms show ?thesis by (simp add: Start_checks_Inl)
next
  case (Inr x)
  obtain ms plan override capSet where x: "x = (ms, plan, override, capSet)" by (cases x) auto
  let ?sid = "session_id (e_seq e + 1)"
  obtain r e' where S: "Start opts res con req now e = (r, e')" by fastforce
  have seq: "table_ok (e_sessions e) (e_byAccount e) (e_seq e + 1)"
    using assms by (rule table_ok_seq)
  from Inr [unfolded x] S show ?thesis
  proof (cases rule: Start_stages)
    case (refused err e2)
    with seq S show ?thesis using open_sink_fields(1-3) [OF refused(1)] by simp
  next
    case (full sess e2 err)
    with seq S show ?thesis using open_sink_fields(1-3) [OF full(1)] by simp
  next
    case (started sess e2 e3 r4 e4)
    note o = open_sink_fields [OF started(1)]
    from o(5) obtain k where sess: "sess = (new_session req plan (With (instancePolicy opts) override) capSet now ?sid)\<lparr>s_sink := k\<rparr>"
      by blast
    then have sid: "s_id sess = ?sid" by simp
    have "table_ok (AList.update (s_id sess) sess (e_sessions e)) (index_add (key_of sess) (s_id sess) (e_byAccount e))
        (e_seq e + 1)"
      using seq table_ok_fresh [OF assms] wf_new_session [OF Inr] assms
      by (intro table_ok_insert) (auto simp: sess issued_def table_ok_def intro!: exI [of _ "e_seq e + 1"])
    then have "engine_ok e3" using admit_Inr(1) [OF started(2)] o by simp
    then have "engine_ok (activate ?sid e3)"
      unfolding activate_def
      by (rule modify_session_ok) (auto simp: wf_session_def isActive_def sess admit_Inr(1) [OF started(2)])
    moreover note stage_menu_restaged [OF started(3)]
    ultimately have "engine_ok e4" using one_restaged_ok by (metis)
    then show ?thesis using started(5) S by (cases r4) simp_all
  qed
qed

subsection \<open>Ending sessions\<close>

definition ended :: "string \<Rightarrow> 'k Session \<Rightarrow> 'k Session \<Rightarrow> bool" where
  "ended why s s' \<longleftrightarrow> (\<exists>k. s' = s\<lparr>s_status := StatusRevoked, s_error := why, s_sink := k\<rparr>)"

lemma ended_simps:
  "ended why s s' \<Longrightarrow> s_id s' = s_id s \<and> s_context s' = s_context s \<and> s_goal s' = s_goal s
     \<and> s_status s' = StatusRevoked \<and> s_error s' = why \<and> s_createdAt s' = s_createdAt s
     \<and> key_of s' = key_of s \<and> \<not> isActive s'"
  by (auto simp: ended_def key_of_def isActive_def)

lemma ended_ended: "ended why s s' \<Longrightarrow> ended why s' s'' \<Longrightarrow> ended why s s''"
  by (auto simp: ended_def)

lemma wf_ended: "ended why s s' \<Longrightarrow> why \<noteq> [] \<Longrightarrow> wf_session s \<Longrightarrow> wf_session s'"
  by (auto simp: ended_def wf_session_def)

lemma abort_sink_session: "abort_sink opts s w = (s', w') \<Longrightarrow> \<exists>k. s' = s\<lparr>s_sink := k\<rparr>"
  by (auto simp: abort_sink_def split: option.splits prod.splits intro: exI [of _ "s_sink s"])

lemma revoke_session_eq:
  obtains s' w where "revoke_session opts why sid s e =
      e\<lparr>e_sessions := AList.update sid s' (e_sessions e), e_world := w, e_jobs := e_jobs e @ [toJob s']\<rparr>"
    and "ended why s s'"
    and "abort_sink opts (s\<lparr>s_status := StatusRevoked, s_error := why\<rparr>) (e_world e) = (s', w)"
proof -
  obtain s' w where a: "abort_sink opts (s\<lparr>s_status := StatusRevoked, s_error := why\<rparr>) (e_world e) = (s', w)"
    by fastforce
  then have "ended why s s'" using abort_sink_session by (fastforce simp: ended_def)
  moreover have "revoke_session opts why sid s e =
      e\<lparr>e_sessions := AList.update sid s' (e_sessions e), e_world := w, e_jobs := e_jobs e @ [toJob s']\<rparr>"
    using a by (simp add: revoke_session_def)
  ultimately show thesis using that a by blast
qed

lemma revoke_session_ok:
  assumes "engine_ok e" and "map_of (e_sessions e) sid = Some s" and "why \<noteq> []"
  shows "engine_ok (revoke_session opts why sid s e)"
proof -
  obtain s' w where r: "revoke_session opts why sid s e =
      e\<lparr>e_sessions := AList.update sid s' (e_sessions e), e_world := w, e_jobs := e_jobs e @ [toJob s']\<rparr>"
    and s': "ended why s s'" by (rule revoke_session_eq)
  have "table_ok (AList.update sid s' (e_sessions e)) (e_byAccount e) (e_seq e)"
    using table_ok_session [OF assms(1,2)] ended_simps [OF s'] wf_ended [OF s' assms(3)]
    by (intro table_ok_update [OF assms(1,2)]) auto
  with r show ?thesis by simp
qed

lemma revoke_session_unlist_ok:
  assumes "engine_ok e" and "map_of (e_sessions e) sid = Some s" and "why \<noteq> []"
  shows "engine_ok ((revoke_session opts why sid s e)
      \<lparr>e_byAccount := index_remove key sid (e_byAccount (revoke_session opts why sid s e))\<rparr>)"
proof -
  have "\<forall>t. map_of (e_sessions (revoke_session opts why sid s e)) sid = Some t \<longrightarrow> \<not> isActive t"
    by (rule revoke_session_eq [of opts why sid s e]) (auto dest: ended_simps)
  then show ?thesis using table_ok_unlist [OF revoke_session_ok [OF assms]] by simp
qed

lemma revoke_where_ok:
  "engine_ok e \<Longrightarrow> why \<noteq> [] \<Longrightarrow> engine_ok (snd (revoke_where opts why u P ids e))"
proof (induction ids arbitrary: e)
  case Nil
  then show ?case by simp
next
  case (Cons sid ids)
  show ?case
  proof (cases "map_of (e_sessions e) sid")
    case None
    with Cons show ?thesis by simp
  next
    case (Some s)
    show ?thesis
    proof (cases "P s")
      case False
      with Cons Some show ?thesis by simp
    next
      case True
      let ?e1 = "revoke_session opts why sid s e"
      let ?e2 = "if u then ?e1\<lparr>e_byAccount := index_remove (key_of s) sid (e_byAccount ?e1)\<rparr> else ?e1"
      have "engine_ok ?e2"
        using revoke_session_ok [OF Cons.prems(1) Some Cons.prems(2)]
          revoke_session_unlist_ok [OF Cons.prems(1) Some Cons.prems(2)] by simp
      with Cons.IH Cons.prems(2) have "engine_ok (snd (revoke_where opts why u P ids ?e2))" by blast
      moreover have "snd (revoke_where opts why u P (sid # ids) e) = snd (revoke_where opts why u P ids ?e2)"
        using Some True by (simp add: Let_def split: prod.splits)
      ultimately show ?thesis by simp
    qed
  qed
qed

text \<open>What the loop does to each session, and how many it ends.\<close>

lemma revoke_where_session:
  assumes "revoke_where opts why u P ids e = (n, e')"
  shows "map_of (e_sessions e) sid = None \<Longrightarrow> map_of (e_sessions e') sid = None"
    and "map_of (e_sessions e) sid = Some s \<Longrightarrow>
      \<exists>s'. map_of (e_sessions e') sid = Some s' \<and> (if sid \<in> set ids \<and> P s then ended why s s' else s' = s)"
proof -
  have "(map_of (e_sessions e) sid = None \<longrightarrow> map_of (e_sessions e') sid = None)
    \<and> (map_of (e_sessions e) sid = Some s \<longrightarrow>
      (\<exists>s'. map_of (e_sessions e') sid = Some s' \<and> (if sid \<in> set ids \<and> P s then ended why s s' else s' = s)))"
    using assms
  proof (induction ids arbitrary: e n s)
    case Nil
    then show ?case by simp
  next
    case (Cons t ids)
    show ?case
    proof (cases "\<exists>x. map_of (e_sessions e) t = Some x \<and> P x")
      case False
      then have "revoke_where opts why u P ids e = (n, e')"
        using Cons.prems by (auto split: option.splits if_splits)
      note IH = Cons.IH [OF this, of s]
      have "(sid \<in> set (t # ids) \<and> P s) = (sid \<in> set ids \<and> P s)" if "map_of (e_sessions e) sid = Some s"
        using False that by auto
      with IH show ?thesis by presburger
    next
      case True
      then obtain x where x: "map_of (e_sessions e) t = Some x" "P x" by blast
      let ?e1 = "revoke_session opts why t x e"
      let ?e2 = "if u then ?e1\<lparr>e_byAccount := index_remove (key_of x) t (e_byAccount ?e1)\<rparr> else ?e1"
      obtain x' w where x': "?e1 = e\<lparr>e_sessions := AList.update t x' (e_sessions e), e_world := w,
          e_jobs := e_jobs e @ [toJob x']\<rparr>" "ended why x x'" by (rule revoke_session_eq)
      obtain m where m: "revoke_where opts why u P ids ?e2 = (m, e')"
        using Cons.prems x by (auto simp: Let_def split: prod.splits)
      have ss: "map_of (e_sessions ?e2) sid = (if sid = t then Some x' else map_of (e_sessions e) sid)"
        using x'(1) by simp
      show ?thesis
      proof (cases "sid = t")
        case False
        with Cons.IH [OF m, of s] ss show ?thesis by auto
      next
        case True
        from Cons.IH [OF m, of x'] ss True obtain x'' where "map_of (e_sessions e') sid = Some x''"
          "if sid \<in> set ids \<and> P x' then ended why x' x'' else x'' = x'" by auto
        then have "ended why x x''" using x'(2) ended_ended by (auto split: if_splits)
        with \<open>map_of (e_sessions e') sid = Some x''\<close> x True show ?thesis by auto
      qed
    qed
  qed
  then show "map_of (e_sessions e) sid = None \<Longrightarrow> map_of (e_sessions e') sid = None"
    and "map_of (e_sessions e) sid = Some s \<Longrightarrow>
      \<exists>s'. map_of (e_sessions e') sid = Some s' \<and> (if sid \<in> set ids \<and> P s then ended why s s' else s' = s)"
    by blast+
qed

lemma revoke_where_count:
  assumes "revoke_where opts why u P ids e = (n, e')" and "distinct ids"
  shows "n = length (filter (\<lambda>sid. \<exists>s. map_of (e_sessions e) sid = Some s \<and> P s) ids)"
  using assms
proof (induction ids arbitrary: e n)
  case Nil
  then show ?case by simp
next
  case (Cons t ids)
  show ?case
  proof (cases "\<exists>x. map_of (e_sessions e) t = Some x \<and> P x")
    case False
    then have "revoke_where opts why u P ids e = (n, e')"
      using Cons.prems(1) by (auto split: option.splits if_splits)
    with Cons.IH Cons.prems(2) False show ?thesis by auto
  next
    case True
    then obtain x where x: "map_of (e_sessions e) t = Some x" "P x" by blast
    let ?e1 = "revoke_session opts why t x e"
    let ?e2 = "if u then ?e1\<lparr>e_byAccount := index_remove (key_of x) t (e_byAccount ?e1)\<rparr> else ?e1"
    obtain x' w where x': "?e1 = e\<lparr>e_sessions := AList.update t x' (e_sessions e), e_world := w,
        e_jobs := e_jobs e @ [toJob x']\<rparr>" by (rule revoke_session_eq)
    obtain m where m: "revoke_where opts why u P ids ?e2 = (m, e')" "n = Suc m"
      using Cons.prems(1) x by (auto simp: Let_def split: prod.splits)
    have "m = length (filter (\<lambda>sid. \<exists>s. map_of (e_sessions ?e2) sid = Some s \<and> P s) ids)"
      using Cons.IH [OF m(1)] Cons.prems(2) by simp
    also have "\<dots> = length (filter (\<lambda>sid. \<exists>s. map_of (e_sessions e) sid = Some s \<and> P s) ids)"
    proof -
      have "map_of (e_sessions ?e2) sid = map_of (e_sessions e) sid" if "sid \<in> set ids" for sid
        using that Cons.prems(2) x'(1) by auto
      then show ?thesis by (intro arg_cong [where f = length] filter_cong) auto
    qed
    finally show ?thesis using m(2) x by auto
  qed
qed

lemma revoke_where_seq: "revoke_where opts why u P ids e = (n, e') \<Longrightarrow> e_seq e' = e_seq e"
proof (induction ids arbitrary: e n)
  case (Cons t ids)
  then show ?case
    by (auto simp: Let_def revoke_session_def split: option.splits if_splits prod.splits)
qed simp

definition ids_of :: "(accountKey \<times> string list) list \<Rightarrow> accountKey \<Rightarrow> string list" where
  "ids_of by key = (case map_of by key of None \<Rightarrow> [] | Some l \<Rightarrow> l)"

lemma listed_ids_of: "listed by key sid \<longleftrightarrow> sid \<in> set (ids_of by key)"
  by (simp add: listed_def ids_of_def split: option.splits)

lemma RevokeAccount_eq:
  "RevokeAccount opts provider account member e =
     (let (n, e1) = revoke_where opts ''account revoked'' False (\<lambda>_. True)
            (ids_of (e_byAccount e) (provider, account, member)) e
      in (n, e1\<lparr>e_byAccount := AList.delete (provider, account, member) (e_byAccount e1)\<rparr>))"
  unfolding RevokeAccount_def ids_of_def Let_def by (rule refl)

lemma revoke_where_active:
  assumes "revoke_where opts why u P ids e = (n, e')" and "map_of (e_sessions e') sid = Some s'" and "isActive s'"
  shows "map_of (e_sessions e) sid = Some s' \<and> \<not> (sid \<in> set ids \<and> P s')"
proof -
  obtain s where s: "map_of (e_sessions e) sid = Some s"
    using revoke_where_session(1) [OF assms(1)] assms(2) by (metis not_None_eq)
  from revoke_where_session(2) [OF assms(1) s] assms(2)
  have "if sid \<in> set ids \<and> P s then ended why s s' else s' = s" by simp
  with assms(3) ended_simps have "s' = s" "\<not> (sid \<in> set ids \<and> P s)" by metis+
  with s show ?thesis by simp
qed

lemma table_ok_RevokeAccount:
  assumes "engine_ok e"
  shows "engine_ok (snd (RevokeAccount opts provider account member e))"
proof -
  let ?key = "(provider, account, member)"
  let ?ids = "ids_of (e_byAccount e) ?key"
  obtain n e1 where r: "revoke_where opts ''account revoked'' False (\<lambda>_. True) ?ids e = (n, e1)" by fastforce
  have ok: "engine_ok e1"
    using revoke_where_ok [OF assms, of "''account revoked''" opts False "\<lambda>_. True" ?ids] unfolding r by simp
  have "\<not> isActive s'" if s': "map_of (e_sessions e1) sid = Some s'" "key_of s' = ?key" for sid s'
  proof
    assume a: "isActive s'"
    from revoke_where_active [OF r s'(1) a] have s: "map_of (e_sessions e) sid = Some s'" "sid \<notin> set ?ids" by auto
    with table_ok_active [OF assms s(1) a] s'(2) show False by (simp add: listed_ids_of)
  qed
  then have "table_ok (e_sessions e1) (AList.delete ?key (e_byAccount e1)) (e_seq e1)"
    using table_ok_delete_key [OF ok] by blast
  then show ?thesis unfolding RevokeAccount_eq r by simp
qed

lemma table_ok_RevokeAllOnAccount: "engine_ok e \<Longrightarrow> engine_ok (snd (RevokeAllOnAccount opts account e))"
  unfolding RevokeAllOnAccount_def by (rule revoke_where_ok) simp_all

lemma table_ok_RevokeOthersOnAccount:
  "engine_ok e \<Longrightarrow> engine_ok (snd (RevokeOthersOnAccount opts provider account keep e))"
  unfolding RevokeOthersOnAccount_def by (rule revoke_where_ok) simp_all

lemma table_ok_ApplyAccountCap:
  assumes "engine_ok e"
  shows "engine_ok (snd (ApplyAccountCap opts con provider account now e))"
proof -
  have "engine_ok (snd (revoke_where opts ''stream limit lowered by the account owner'' True isActive ids e))" for ids
    using assms by (rule revoke_where_ok) simp
  then show ?thesis using assms
    by (auto simp: ApplyAccountCap_def Let_def split: sum.splits prod.splits) (metis snd_conv)+
qed

lemma finalize_sink_session:
  "finalize_sink opts s w = (s', w') \<Longrightarrow> \<exists>k e. s' = s\<lparr>s_sink := k, s_error := e\<rparr>"
  by (auto simp: finalize_sink_def split: option.splits prod.splits
      intro: exI [of _ "s_sink s", THEN exI [of _ "s_error s"]]) (metis Session.surjective Session.update_convs(5,8))+

lemma table_ok_Complete:
  assumes "engine_ok e"
  shows "engine_ok (snd (Complete opts sid e))"
proof (cases "map_of (e_sessions e) sid")
  case None
  with assms show ?thesis by (simp add: Complete_def)
next
  case (Some s)
  obtain s' w where f: "finalize_sink opts (s\<lparr>s_status := StatusDone\<rparr>) (e_world e) = (s', w)" by fastforce
  then obtain k err where s': "s' = s\<lparr>s_status := StatusDone, s_sink := k, s_error := err\<rparr>"
    using finalize_sink_session by fastforce
  have "wf_session s'" using table_ok_session [OF assms Some] by (simp add: s' wf_session_def)
  then have "table_ok (AList.update sid s' (e_sessions e)) (e_byAccount e) (e_seq e)"
    by (intro table_ok_update [OF assms Some]) (simp_all add: s' key_of_def isActive_def)
  with Some f show ?thesis by (simp add: Complete_def)
qed

lemma table_ok_Heartbeat: "engine_ok e \<Longrightarrow> engine_ok (snd (Heartbeat sid member now e))"
proof -
  assume ok: "engine_ok e"
  have "engine_ok (modify_session sid (\<lambda>s. s\<lparr>s_lastHeartbeat := now\<rparr>) e)"
    by (rule modify_session_ok [OF ok]) (simp_all add: wf_session_def isActive_def)
  with ok show ?thesis by (simp add: Heartbeat_def split: option.splits)
qed

lemma table_ok_Progress: "engine_ok e \<Longrightarrow> engine_ok (snd (Progress sid percent now e))"
proof -
  assume ok: "engine_ok e"
  have "engine_ok (modify_session sid (\<lambda>s. s\<lparr>s_lastProgress := now\<rparr>) e)"
    by (rule modify_session_ok [OF ok]) (simp_all add: wf_session_def isActive_def)
  with ok show ?thesis by (simp add: Progress_def split: option.splits)
qed

subsection \<open>The watchdog\<close>

lemma collect_dead_set:
  "set (collect_dead opts clock ss) = {d. \<exists>sid s. (sid, s) \<in> set ss \<and> mark opts (clock sid) s = Some d}"
  by (induction opts clock ss rule: collect_dead.induct) (auto split: option.splits)

lemma mark_Some:
  "mark opts now s = Some d \<longleftrightarrow>
     isActive s \<and> (\<exists>why. overdue opts now s = Some why \<and> d = s\<lparr>s_status := StatusFailed, s_error := why\<rparr>)"
  by (auto simp: mark_def)

lemma mark_same: "mark opts now s = Some d \<Longrightarrow> s_id d = s_id s \<and> key_of d = key_of s"
  by (auto simp: mark_Some key_of_def)

lemma collect_dead_distinct:
  "distinct (map fst ss) \<Longrightarrow> \<forall>(sid, s) \<in> set ss. s_id s = sid \<Longrightarrow> distinct (map s_id (collect_dead opts clock ss))"
proof (induction opts clock ss rule: collect_dead.induct)
  case (2 opts clock sid s ss)
  have "s_id d \<noteq> sid" if "d \<in> set (collect_dead opts clock ss)" for d
  proof -
    from that obtain t u where tu: "(t, u) \<in> set ss" "mark opts (clock t) u = Some d"
      by (auto simp: collect_dead_set)
    have "s_id d = t" using mark_same [OF tu(2)] tu(1) "2.prems"(2) by auto
    moreover have "t \<in> fst ` set ss" using tu(1) by (rule fst_imageI)
    ultimately show ?thesis using "2.prems"(1) by auto
  qed
  then have new: "sid \<notin> s_id ` set (collect_dead opts clock ss)" by auto
  have IH: "distinct (map s_id (collect_dead opts clock ss))"
    using 2 by (cases "mark opts (clock sid) s") simp_all
  show ?case
  proof (cases "mark opts (clock sid) s")
    case None
    with IH show ?thesis by simp
  next
    case (Some d)
    with IH new mark_same [OF Some] "2.prems"(2) show ?thesis by simp
  qed
qed simp

lemma fold_bury_sessions:
  "map_of (e_sessions (fold bury ds e)) sid = (if sid \<in> s_id ` set ds then None else map_of (e_sessions e) sid)"
  by (induction ds arbitrary: e) (auto simp: bury_def)

lemma fold_bury_fields [simp]:
  "e_seq (fold bury ds e) = e_seq e" "e_world (fold bury ds e) = e_world e"
  by (induction ds arbitrary: e) (simp_all add: bury_def)

lemma fold_bury_ok:
  assumes "engine_ok e" and "distinct (map s_id ds)"
    and "\<forall>d \<in> set ds. \<exists>s. map_of (e_sessions e) (s_id d) = Some s \<and> key_of s = key_of d"
  shows "engine_ok (fold bury ds e)"
  using assms
proof (induction ds arbitrary: e)
  case Nil
  then show ?case by simp
next
  case (Cons d ds)
  from Cons.prems(3) obtain s where s: "map_of (e_sessions e) (s_id d) = Some s" "key_of s = key_of d" by auto
  have "engine_ok (bury d e)" using table_ok_bury [OF Cons.prems(1) s(1)] s(2) by (simp add: bury_def)
  moreover have "\<forall>c \<in> set ds. \<exists>s. map_of (e_sessions (bury d e)) (s_id c) = Some s \<and> key_of s = key_of c"
  proof
    fix c assume c: "c \<in> set ds"
    then have "s_id c \<in> s_id ` set ds" by (rule imageI)
    moreover have "s_id d \<notin> s_id ` set ds" using Cons.prems(2) by simp
    ultimately have "s_id c \<noteq> s_id d" by metis
    with c Cons.prems(3) show "\<exists>s. map_of (e_sessions (bury d e)) (s_id c) = Some s \<and> key_of s = key_of c"
      by (simp add: bury_def)
  qed
  ultimately show ?case using Cons.IH Cons.prems(2) by simp
qed

lemma dead_in_table:
  assumes "engine_ok e" and "d \<in> set (collect_dead opts clock (e_sessions e))"
  obtains s where "map_of (e_sessions e) (s_id d) = Some s" and "mark opts (clock (s_id d)) s = Some d"
proof -
  from assms(2) obtain sid s where s: "(sid, s) \<in> set (e_sessions e)" "mark opts (clock sid) s = Some d"
    by (auto simp: collect_dead_set)
  have "map_of (e_sessions e) sid = Some s" using s(1) table_ok_distinct [OF assms(1)] by simp
  with table_ok_session [OF assms(1) this] mark_same [OF s(2)] s(2) show thesis using that by simp
qed

lemma table_entries: "engine_ok e \<Longrightarrow> \<forall>(sid, s) \<in> set (e_sessions e). s_id s = sid"
  using table_ok_session table_ok_distinct by (metis (mono_tags, lifting) case_prodI2 map_of_is_SomeI)

lemma table_ok_sweep:
  assumes "engine_ok e"
  shows "engine_ok (sweep opts clock e)"
  unfolding sweep_def
proof (rule fold_bury_ok [OF assms])
  show "distinct (map s_id (collect_dead opts clock (e_sessions e)))"
    using collect_dead_distinct table_ok_distinct [OF assms] table_entries [OF assms] by blast
  show "\<forall>d \<in> set (collect_dead opts clock (e_sessions e)).
      \<exists>s. map_of (e_sessions e) (s_id d) = Some s \<and> key_of s = key_of d"
    using dead_in_table [OF assms] mark_same by metis
qed

subsection \<open>Reachable states\<close>

text \<open>
  The steps of an engine with fixed options: every operation, and any change of the world of the
  sinks that \<^verbatim>\<open>env\<close> allows: the clock moving, another user of the relay.
\<close>

inductive engine_step :: "('k, 'w) Options \<Rightarrow> ('w \<Rightarrow> 'w \<Rightarrow> bool) \<Rightarrow> ('k, 'w) Engine \<Rightarrow> ('k, 'w) Engine \<Rightarrow> bool"
  for opts env where
  start: "engine_step opts env e (snd (Start opts res con req now e))"
| heartbeat: "engine_step opts env e (snd (Heartbeat sid member now e))"
| progress: "engine_step opts env e (snd (Progress sid percent now e))"
| revoke_account: "engine_step opts env e (snd (RevokeAccount opts provider account member e))"
| revoke_all: "engine_step opts env e (snd (RevokeAllOnAccount opts account e))"
| revoke_others: "engine_step opts env e (snd (RevokeOthersOnAccount opts provider account keep e))"
| apply_cap: "engine_step opts env e (snd (ApplyAccountCap opts con provider account enforceNow e))"
| complete: "engine_step opts env e (snd (Complete opts sid e))"
| sweep: "engine_step opts env e (sweep opts clock e)"
| world: "env (e_world e) w \<Longrightarrow> engine_step opts env e (e\<lparr>e_world := w\<rparr>)"

inductive reachable :: "('k, 'w) Options \<Rightarrow> ('w \<Rightarrow> 'w \<Rightarrow> bool) \<Rightarrow> 'w \<Rightarrow> ('k, 'w) Engine \<Rightarrow> bool"
  for opts env w0 where
  new: "reachable opts env w0 (New w0)"
| step: "reachable opts env w0 e \<Longrightarrow> engine_step opts env e e' \<Longrightarrow> reachable opts env w0 e'"

lemma table_ok_New [simp]: "engine_ok (New w)"
  by (simp add: New_def table_ok_def listed_def)

lemma engine_step_ok: "engine_step opts env e e' \<Longrightarrow> engine_ok e \<Longrightarrow> engine_ok e'"
  by (induction rule: engine_step.induct)
     (simp_all add: table_ok_Start table_ok_Heartbeat table_ok_Progress table_ok_RevokeAccount
       table_ok_RevokeAllOnAccount table_ok_RevokeOthersOnAccount table_ok_ApplyAccountCap
       table_ok_Complete table_ok_sweep)

lemma reachable_table_ok: "reachable opts env w0 e \<Longrightarrow> engine_ok e"
  by (induction rule: reachable.induct) (simp_all add: engine_step_ok)

end
