(* ===== verification/Delivery_Safety.thy ===== *)
theory Delivery_Safety
  imports Delivery_Invariant
begin

text \<open>
  What the operations of the delivery engine guarantee, on top of its invariant: the effect of
  \<open>Start\<close>, the limits, the exact effect of revocation, cap changes and the watchdog, and the job
  records. The last section states behaviours that the documentation of the code does not expect.
\<close>

subsection \<open>Counting active sessions\<close>

lemma count_if_card:
  assumes "distinct (map fst m)"
  shows "count_if P m = card {k. \<exists>v. map_of m k = Some v \<and> P v}"
  using assms
proof (induction m)
  case Nil
  then show ?case by simp
next
  case (Cons x m)
  obtain k v where x: "x = (k, v)" by (cases x)
  have new: "map_of m k = None" using Cons.prems x by (simp add: map_of_eq_None_iff)
  let ?S = "{k. \<exists>v. map_of m k = Some v \<and> P v}"
  have fin: "finite ?S" by (rule finite_subset [of _ "dom (map_of m)"]) (auto simp: finite_dom_map_of)
  have "{k'. \<exists>v. map_of (x # m) k' = Some v \<and> P v} = (if P v then insert k ?S else ?S)"
    using new by (auto simp: x)
  moreover have "k \<notin> ?S" using new by simp
  ultimately show ?case using Cons fin by (simp add: x)
qed

lemma finite_table: "finite {k. \<exists>v. map_of m k = Some v \<and> P v}"
  by (rule finite_subset [of _ "dom (map_of m)"]) (auto simp: finite_dom_map_of)

lemma count_if_le_table:
  assumes "distinct (map fst m)" and "distinct (map fst m')"
    and "\<And>k v. map_of m' k = Some v \<Longrightarrow> P v \<Longrightarrow> \<exists>u. map_of m k = Some u \<and> P u"
  shows "count_if P m' \<le> count_if P m"
  unfolding count_if_card [OF assms(1)] count_if_card [OF assms(2)]
  by (rule card_mono [OF finite_table]) (use assms(3) in auto)

lemma count_if_le_table_Suc:
  assumes "distinct (map fst m)" and "distinct (map fst m')"
    and "\<And>k v. map_of m' k = Some v \<Longrightarrow> P v \<Longrightarrow> k = c \<or> (\<exists>u. map_of m k = Some u \<and> P u)"
  shows "count_if P m' \<le> Suc (count_if P m)"
proof -
  have "count_if P m' \<le> card (insert c {k. \<exists>v. map_of m k = Some v \<and> P v})"
    unfolding count_if_card [OF assms(2)]
    by (rule card_mono) (use assms(3) finite_table in auto)
  also have "\<dots> \<le> Suc (count_if P m)"
    unfolding count_if_card [OF assms(1)] using card_insert_le_m1 by (simp add: card_insert_if finite_table)
  finally show ?thesis .
qed

text \<open>A step after which every active session was active before, in the same context.\<close>

definition no_new_active :: "('k, 'w) Engine \<Rightarrow> ('k, 'w) Engine \<Rightarrow> bool" where
  "no_new_active e e' \<longleftrightarrow>
     (\<forall>sid s'. map_of (e_sessions e') sid = Some s' \<and> isActive s' \<longrightarrow>
        (\<exists>s. map_of (e_sessions e) sid = Some s \<and> isActive s \<and> s_context s = s_context s'))"

lemma no_new_active_same: "e_sessions e' = e_sessions e \<Longrightarrow> no_new_active e e'"
  by (simp add: no_new_active_def)

lemma no_new_active_trans: "no_new_active a b \<Longrightarrow> no_new_active b c \<Longrightarrow> no_new_active a c"
  unfolding no_new_active_def by metis

lemma no_new_active_modify:
  "(\<And>s. isActive (f s) \<Longrightarrow> isActive s) \<Longrightarrow> (\<And>s. s_context (f s) = s_context s) \<Longrightarrow>
     no_new_active e (modify_session sid f e)"
  by (auto simp: no_new_active_def modify_session_get)

lemma no_new_active_one_restaged:
  "one_restaged sid (e_sessions e) (e_sessions e') \<Longrightarrow> no_new_active e e'"
proof -
  assume "one_restaged sid (e_sessions e) (e_sessions e')"
  then consider "e_sessions e' = e_sessions e"
    | s s' where "map_of (e_sessions e) sid = Some s" "restaged s s'"
        "e_sessions e' = AList.update sid s' (e_sessions e)" unfolding one_restaged_def by blast
  then show ?thesis
  proof cases
    case 1
    then show ?thesis by (rule no_new_active_same)
  next
    case 2
    with restaged_same(1) [OF 2(2)] restaged_simps [OF 2(2)] show ?thesis
      by (simp add: no_new_active_def)
  qed
qed

lemma no_new_active_revoke_where:
  "revoke_where opts why u P ids e = (n, e') \<Longrightarrow> no_new_active e e'"
  using revoke_where_active unfolding no_new_active_def by metis

lemma no_new_active_revoke_snd: "no_new_active e (snd (revoke_where opts why u P ids e))"
  using no_new_active_revoke_where [of opts why u P ids e] by (cases "revoke_where opts why u P ids e") simp

lemma no_new_active_RevokeAccount: "no_new_active e (snd (RevokeAccount opts p a m e))"
proof -
  let ?ids = "ids_of (e_byAccount e) (p, a, m)"
  obtain n e1 where r: "revoke_where opts ''account revoked'' False (\<lambda>_. True) ?ids e = (n, e1)" by fastforce
  then have "snd (RevokeAccount opts p a m e) = e1\<lparr>e_byAccount := AList.delete (p, a, m) (e_byAccount e1)\<rparr>"
    unfolding RevokeAccount_eq r by simp
  then show ?thesis using no_new_active_trans [OF no_new_active_revoke_where [OF r] no_new_active_same]
    by simp
qed

lemma no_new_active_ApplyAccountCap: "no_new_active e (snd (ApplyAccountCap opts con p a now e))"
proof -
  show ?thesis
    by (simp add: ApplyAccountCap_def Let_def split_def no_new_active_same no_new_active_revoke_snd split: sum.splits)
qed

lemma no_new_active_Complete: "no_new_active e (snd (Complete opts sid e))"
proof (cases "map_of (e_sessions e) sid")
  case None
  then show ?thesis by (simp add: Complete_def no_new_active_same)
next
  case (Some s)
  obtain s' w where f: "finalize_sink opts (s\<lparr>s_status := StatusDone\<rparr>) (e_world e) = (s', w)" by fastforce
  then have "\<not> isActive s'" using finalize_sink_session [OF f] by (auto simp: isActive_def)
  with Some f show ?thesis by (auto simp: Complete_def no_new_active_def)
qed

lemma no_new_active_sweep: "no_new_active e (sweep opts clock e)"
  by (auto simp: no_new_active_def sweep_def fold_bury_sessions)

lemma no_new_active_Heartbeat: "no_new_active e (snd (Heartbeat sid m now e))"
  using no_new_active_modify [of "\<lambda>s. s\<lparr>s_lastHeartbeat := now\<rparr>" e sid]
  by (simp add: Heartbeat_def isActive_def no_new_active_same split: option.splits)

lemma no_new_active_Progress: "no_new_active e (snd (Progress sid p now e))"
  using no_new_active_modify [of "\<lambda>s. s\<lparr>s_lastProgress := now\<rparr>" e sid]
  by (simp add: Progress_def isActive_def no_new_active_same split: option.splits)

subsection \<open>Start\<close>

text \<open>The state of a session that was admitted and activated, whatever staging then did.\<close>

definition started_session :: "StartRequest \<Rightarrow> string \<Rightarrow> ('k, 'w) Engine \<Rightarrow> ('k, 'w) Engine \<Rightarrow> bool" where
  "started_session req sid e e' \<longleftrightarrow>
     map_of (e_sessions e) sid = None
     \<and> (\<exists>s. map_of (e_sessions e') sid = Some s \<and> s_status s = StatusRunning \<and> s_goal s = rq_goal req
           \<and> key_of s = (rq_provider req, rq_account req, rq_member req))
     \<and> listed (e_byAccount e') (rq_provider req, rq_account req, rq_member req) sid
     \<and> (\<forall>t. t \<noteq> sid \<longrightarrow> map_of (e_sessions e') t = map_of (e_sessions e) t)
     \<and> (\<forall>key t. listed (e_byAccount e') key t \<longrightarrow> listed (e_byAccount e) key t \<or> t = sid)"

lemma Start_started:
  assumes "engine_ok e" and "Start_checks res con req = Inr (ms, plan, override, capSet)"
    and "open_sink opts ms (new_session req plan (With (instancePolicy opts) override) capSet now
          (session_id (e_seq e + 1))) (e\<lparr>e_seq := e_seq e + 1\<rparr>) = (Inr sess, e2)"
    and "admit sess ml al e2 = (Inr (), e3)"
    and "stage_menu opts ms sess (activate (session_id (e_seq e + 1)) e3) = (r4, e4)"
  shows "started_session req (session_id (e_seq e + 1)) e e4"
    and "int (member_active (rq_member req) e) < ml"
    and "int (account_active (rq_provider req) (rq_account req) e) < al"
proof -
  let ?sid = "session_id (e_seq e + 1)"
  note o = open_sink_fields [OF assms(3)]
  from o(5) obtain k where sess: "sess = (new_session req plan (With (instancePolicy opts) override) capSet now ?sid)\<lparr>s_sink := k\<rparr>"
    by blast
  then have sid: "s_id sess = ?sid" by simp
  note ad = admit_Inr [OF assms(4)]
  have key: "key_of sess = (rq_provider req, rq_account req, rq_member req)" by (simp add: sess key_of_def)
  have e3: "map_of (e_sessions (activate ?sid e3)) t =
      (if t = ?sid then Some (sess\<lparr>s_status := StatusRunning\<rparr>) else map_of (e_sessions e) t)" for t
    using o(1) by (simp add: activate_def modify_session_get ad(1) sid)
  have "\<exists>s. map_of (e_sessions e4) ?sid = Some s \<and> s_status s = StatusRunning \<and> s_goal s = rq_goal req
         \<and> key_of s = (rq_provider req, rq_account req, rq_member req)"
    and "\<forall>t. t \<noteq> ?sid \<longrightarrow> map_of (e_sessions e4) t = map_of (e_sessions e) t"
  proof -
    from stage_menu_restaged(1) [OF assms(5)] consider
        "e_sessions e4 = e_sessions (activate ?sid e3)"
      | s s' where "map_of (e_sessions (activate ?sid e3)) ?sid = Some s" "restaged s s'"
          "e_sessions e4 = AList.update ?sid s' (e_sessions (activate ?sid e3))"
      unfolding one_restaged_def sid by blast
    then have "(\<exists>s. map_of (e_sessions e4) ?sid = Some s \<and> restaged (sess\<lparr>s_status := StatusRunning\<rparr>) s)
        \<and> (\<forall>t. t \<noteq> ?sid \<longrightarrow> map_of (e_sessions e4) t = map_of (e_sessions e) t)"
      by cases (simp_all add: e3)
    then show "\<exists>s. map_of (e_sessions e4) ?sid = Some s \<and> s_status s = StatusRunning \<and> s_goal s = rq_goal req
         \<and> key_of s = (rq_provider req, rq_account req, rq_member req)"
      and "\<forall>t. t \<noteq> ?sid \<longrightarrow> map_of (e_sessions e4) t = map_of (e_sessions e) t"
      by (auto simp: key_of_def sess dest!: restaged_simps)
  qed
  moreover have "e_byAccount e4 = index_add (key_of sess) ?sid (e_byAccount e)"
    using stage_menu_restaged(2) [OF assms(5)] o(2) by (simp add: ad(1) sid)
  ultimately show "started_session req ?sid e e4"
    using table_ok_fresh [OF assms(1)] by (auto simp: started_session_def key)
  show "int (member_active (rq_member req) e) < ml"
    and "int (account_active (rq_provider req) (rq_account req) e) < al"
    using ad(2,3) o(1) by (simp_all add: sess member_active_def account_active_def)
qed

lemma Start_cases:
  assumes "engine_ok e" and "Start opts res con req now e = (r, e')"
  obtains (refused) err where "r = Inl err" "e_sessions e' = e_sessions e" "e_byAccount e' = e_byAccount e"
      "\<nexists>x. err = StageMenu x"
  | (started) "r = Inr (session_id (e_seq e + 1)) \<or> (\<exists>x. r = Inl (StageMenu x))"
      "started_session req (session_id (e_seq e + 1)) e e'"
      "int (member_active (rq_member req) e) < fst (Streams (instancePolicy opts))"
proof (cases "Start_checks res con req")
  case (Inl err)
  moreover have "\<nexists>x. err = StageMenu x"
    using Inl by (auto simp: Start_checks_def split: if_splits option.splits sum.splits prod.splits)
  ultimately show thesis using assms(2) refused [of err] by (simp add: Start_checks_Inl)
next
  case (Inr x)
  obtain ms plan override capSet where x: "x = (ms, plan, override, capSet)" by (cases x) auto
  from Inr [unfolded x] assms(2) show thesis
  proof (cases rule: Start_stages)
    case (refused err e2)
    moreover have "\<nexists>x. err = StageMenu x"
      using refused(1) by (auto simp: open_sink_def split: option.splits prod.splits sum.splits)
    ultimately show thesis using open_sink_fields(1-3) [OF refused(1)] that(1) [of err] by simp
  next
    case (full sess e2 err)
    moreover have "\<nexists>x. err = StageMenu x"
      using full(2) by (auto simp: admit_def Let_def split: if_splits)
    ultimately show thesis using open_sink_fields(1-3) [OF full(1)] that(1) [of err] by simp
  next
    case (started sess e2 e3 r4 e4)
    note st = Start_started [OF assms(1) Inr [unfolded x] started(1-3)]
    have e': "e_sessions e' = e_sessions e4" "e_byAccount e' = e_byAccount e4"
      using started(5) by (cases r4; simp)+
    have "\<exists>x. r = Inl (StageMenu x)" if "r4 = Inl err" for err
    proof -
      have tracks: "stage_tracks ops i k trs f = (Inl err, f') \<Longrightarrow> \<exists>x. err = StageMenu x" for ops i k trs f f'
        by (induction trs arbitrary: k f) (auto simp: Let_def split: if_splits prod.splits sum.splits)
      from started(3) that have "\<exists>x. err = StageMenu x"
        by (auto simp: stage_menu_def and_then_def split: option.splits if_splits prod.splits sum.splits
            dest: tracks)
      with started(4) that show ?thesis by auto
    qed
    then have "r = Inr (session_id (e_seq e + 1)) \<or> (\<exists>x. r = Inl (StageMenu x))"
      using started(4) by (cases r4) auto
    with st e' show thesis using that(2) by (simp add: started_session_def)
  qed
qed

lemma started_session_new_active:
  assumes "started_session req sid e e'" and "map_of (e_sessions e') t = Some s'" and "isActive s'"
  shows "(\<exists>s. map_of (e_sessions e) t = Some s \<and> isActive s \<and> s_context s = s_context s')
    \<or> (t = sid \<and> key_of s' = (rq_provider req, rq_account req, rq_member req))"
  using assms unfolding started_session_def by (cases "t = sid") auto

lemma Start_member_active:
  assumes "engine_ok e" and "Start opts res con req now e = (r, e')"
  shows "int (member_active m e') \<le> max (int (member_active m e)) (fst (Streams (instancePolicy opts)))"
  using assms
proof (cases rule: Start_cases)
  case (refused err)
  then show ?thesis by (simp add: member_active_def)
next
  case started
  have d: "distinct (map fst (e_sessions e))" "distinct (map fst (e_sessions e'))"
    using table_ok_distinct [OF assms(1)] table_ok_distinct [OF table_ok_Start [OF assms(1)], of opts res con req now]
      assms(2) by simp_all
  show ?thesis
  proof (cases "m = rq_member req")
    case True
    have "member_active m e' \<le> Suc (member_active m e)"
      unfolding member_active_def
    proof (rule count_if_le_table_Suc [OF d, of _ "session_id (e_seq e + 1)"])
      fix t s' assume "map_of (e_sessions e') t = Some s'" and "isActive s' \<and> dc_member_user_id (s_context s') = m"
      with started_session_new_active [OF started(2), of t s']
      show "t = session_id (e_seq e + 1)
        \<or> (\<exists>u. map_of (e_sessions e) t = Some u \<and> isActive u \<and> dc_member_user_id (s_context u) = m)" by auto
    qed
    with started(3) True show ?thesis by simp
  next
    case False
    have "member_active m e' \<le> member_active m e"
      unfolding member_active_def
    proof (rule count_if_le_table [OF d])
      fix t s' assume "map_of (e_sessions e') t = Some s'" and "isActive s' \<and> dc_member_user_id (s_context s') = m"
      with started_session_new_active [OF started(2), of t s'] False
      show "\<exists>u. map_of (e_sessions e) t = Some u \<and> isActive u \<and> dc_member_user_id (s_context u) = m"
        by (auto simp: key_of_def)
    qed
    then show ?thesis by simp
  qed
qed

lemma no_new_active_member:
  assumes "no_new_active e e'" and "engine_ok e" and "engine_ok e'"
  shows "member_active m e' \<le> member_active m e"
  unfolding member_active_def
proof (rule count_if_le_table [OF table_ok_distinct [OF assms(2)] table_ok_distinct [OF assms(3)]])
  fix t s' assume "map_of (e_sessions e') t = Some s'" and "isActive s' \<and> dc_member_user_id (s_context s') = m"
  with assms(1) show "\<exists>u. map_of (e_sessions e) t = Some u \<and> isActive u \<and> dc_member_user_id (s_context u) = m"
    unfolding no_new_active_def by metis
qed

text \<open>Every step but \<open>Start\<close> makes no session active.\<close>

lemma engine_step_active:
  assumes "engine_step opts env e e'"
  shows "no_new_active e e' \<or> (\<exists>res con req now. e' = snd (Start opts res con req now e))"
  using assms
proof cases
  case (revoke_all account)
  then show ?thesis by (simp add: RevokeAllOnAccount_def no_new_active_revoke_snd)
next
  case (revoke_others provider account keep)
  then show ?thesis by (simp add: RevokeOthersOnAccount_def no_new_active_revoke_snd)
next
  case (world w)
  then show ?thesis by (simp add: no_new_active_same)
next
  case (start res con req now)
  then show ?thesis by blast
qed (simp_all add: no_new_active_RevokeAccount no_new_active_ApplyAccountCap no_new_active_Complete
    no_new_active_sweep no_new_active_Heartbeat no_new_active_Progress)

lemma reachable_member_active:
  assumes "reachable opts env w0 e"
  shows "int (member_active m e) \<le> max 0 (fst (Streams (instancePolicy opts)))"
  using assms
proof (induction rule: reachable.induct)
  case new
  then show ?case by (simp add: New_def member_active_def)
next
  case (step e e')
  note ok = reachable_table_ok [OF step.hyps(1)]
  from engine_step_active [OF step.hyps(2)] show ?case
  proof (elim disjE exE)
    assume "no_new_active e e'"
    from no_new_active_member [OF this ok engine_step_ok [OF step.hyps(2) ok], of m] step.IH
    show ?case by linarith
  next
    fix res con req now assume "e' = snd (Start opts res con req now e)"
    then obtain r where "Start opts res con req now e = (r, e')" by (metis prod.collapse)
    from Start_member_active [OF ok this, of m] step.IH show ?case by linarith
  qed
qed

subsection \<open>Job records\<close>

lemma toJob_valid:
  assumes "wf_session s" and "s_id s \<noteq> []"
  shows "ValidateJob (Some (toJob s)) = None"
  using assms
  by (cases "s_status s")
     (simp_all add: ValidateJob_def toJob_def wf_session_def validateDeliveryContext_def then_check_def)

lemma issued_not_Nil: "issued seq sid \<Longrightarrow> sid \<noteq> []"
  by (auto simp: issued_def)

lemma session_job_valid:
  "engine_ok e \<Longrightarrow> map_of (e_sessions e) sid = Some s \<Longrightarrow> ValidateJob (Some (toJob s)) = None"
  using table_ok_session issued_not_Nil toJob_valid by metis

definition jobs_valid :: "('k, 'w) Engine \<Rightarrow> bool" where
  "jobs_valid e \<longleftrightarrow> (\<forall>j \<in> set (e_jobs e). ValidateJob (Some j) = None)"

lemma jobs_valid_same: "e_jobs e' = e_jobs e \<Longrightarrow> jobs_valid e \<Longrightarrow> jobs_valid e'"
  by (simp add: jobs_valid_def)

lemma jobs_valid_cong: "e_jobs e' = e_jobs e \<Longrightarrow> jobs_valid e' = jobs_valid e"
  by (simp add: jobs_valid_def)

lemma jobs_valid_recordJob: "jobs_valid e \<Longrightarrow> engine_ok e \<Longrightarrow> jobs_valid (recordJob sid e)"
  using session_job_valid by (auto simp: jobs_valid_def recordJob_def split: option.splits)

lemma jobs_valid_revoke_where:
  "jobs_valid e \<Longrightarrow> engine_ok e \<Longrightarrow> why \<noteq> [] \<Longrightarrow> jobs_valid (snd (revoke_where opts why u P ids e))"
proof (induction ids arbitrary: e)
  case Nil
  then show ?case by simp
next
  case (Cons sid ids)
  show ?case
  proof (cases "\<exists>s. map_of (e_sessions e) sid = Some s \<and> P s")
    case False
    with Cons show ?thesis by (auto split: option.splits)
  next
    case True
    then obtain s where s: "map_of (e_sessions e) sid = Some s" "P s" by blast
    let ?e1 = "revoke_session opts why sid s e"
    let ?e2 = "if u then ?e1\<lparr>e_byAccount := index_remove (key_of s) sid (e_byAccount ?e1)\<rparr> else ?e1"
    obtain s' w where r: "?e1 = e\<lparr>e_sessions := AList.update sid s' (e_sessions e), e_world := w,
        e_jobs := e_jobs e @ [toJob s']\<rparr>" by (rule revoke_session_eq)
    have ok1: "engine_ok ?e1" by (rule revoke_session_ok [OF Cons.prems(2) s(1) Cons.prems(3)])
    have "map_of (e_sessions ?e1) sid = Some s'" using r by simp
    from session_job_valid [OF ok1 this] Cons.prems(1) have "jobs_valid ?e1" by (simp add: r jobs_valid_def)
    then have "jobs_valid ?e2" by (simp add: jobs_valid_def)
    moreover have "engine_ok ?e2"
      using ok1 revoke_session_unlist_ok [OF Cons.prems(2) s(1) Cons.prems(3)] by simp
    ultimately have "jobs_valid (snd (revoke_where opts why u P ids ?e2))" using Cons.IH Cons.prems(3) by blast
    moreover have "snd (revoke_where opts why u P (sid # ids) e) = snd (revoke_where opts why u P ids ?e2)"
      using s by (simp add: Let_def split: prod.splits)
    ultimately show ?thesis by simp
  qed
qed

lemma jobs_valid_Start:
  assumes "jobs_valid e" and "engine_ok e"
  shows "jobs_valid (snd (Start opts res con req now e))"
proof (cases "Start_checks res con req")
  case (Inl err)
  with assms show ?thesis by (simp add: Start_checks_Inl)
next
  case (Inr x)
  obtain ms plan override capSet where x: "x = (ms, plan, override, capSet)" by (cases x) auto
  obtain r e' where S: "Start opts res con req now e = (r, e')" by fastforce
  have okS: "engine_ok e'" using table_ok_Start [OF assms(2)] S by (metis snd_conv)
  from Inr [unfolded x] S have "jobs_valid e'"
  proof (cases rule: Start_stages)
    case (refused err e2)
    with assms(1) open_sink_fields(4) [OF refused(1)] show ?thesis by (simp add: jobs_valid_def)
  next
    case (full sess e2 err)
    with assms(1) open_sink_fields(4) [OF full(1)] show ?thesis by (simp add: jobs_valid_def)
  next
    case (started sess e2 e3 r4 e4)
    have tracks: "stage_tracks ops i k trs f = (q, f') \<Longrightarrow> e_jobs f' = e_jobs f" for ops i k trs f q f'
      using stage_tracks_fields [of ops i k trs f q f'] by simp
    have "e_jobs e4 = e_jobs (activate (session_id (e_seq e + 1)) e3)"
      using started(3)
      by (auto simp: stage_menu_def and_then_def split: option.splits if_splits prod.splits sum.splits
          dest: tracks)
    also have "\<dots> = e_jobs e" using admit_Inr(1) [OF started(2)] open_sink_fields(4) [OF started(1)] by simp
    finally have j: "jobs_valid e4" using assms(1) by (simp add: jobs_valid_def)
    show ?thesis
    proof (cases r4)
      case (Inl err)
      with started(5) j show ?thesis by simp
    next
      case (Inr u)
      with started(5) okS have "engine_ok e4" "e' = recordJob (session_id (e_seq e + 1)) e4" by simp_all
      with jobs_valid_recordJob [OF j] show ?thesis by simp
    qed
  qed
  with S show ?thesis by simp
qed

lemma jobs_valid_Complete:
  assumes "jobs_valid e" and "engine_ok e"
  shows "jobs_valid (snd (Complete opts sid e))"
proof (cases "map_of (e_sessions e) sid")
  case None
  with assms show ?thesis by (simp add: Complete_def)
next
  case (Some s)
  obtain s' w where f: "finalize_sink opts (s\<lparr>s_status := StatusDone\<rparr>) (e_world e) = (s', w)" by fastforce
  let ?e = "e\<lparr>e_sessions := AList.update sid s' (e_sessions e), e_world := w\<rparr>"
  have c: "snd (Complete opts sid e) = recordJob sid ?e" using Some f by (simp add: Complete_def)
  have "engine_ok ?e" using table_ok_Complete [OF assms(2), of opts sid] unfolding c by simp
  moreover have "jobs_valid ?e" using assms(1) by (simp add: jobs_valid_def)
  ultimately show ?thesis unfolding c using jobs_valid_recordJob by blast
qed

lemma fold_bury_jobs: "set (e_jobs (fold bury ds e)) = set (e_jobs e) \<union> toJob ` set ds"
  by (induction ds arbitrary: e) (auto simp: bury_def)

lemma overdue_reason: "overdue opts now s = Some why \<Longrightarrow> why \<noteq> []"
  by (auto simp: overdue_def split: if_splits)

lemma jobs_valid_sweep:
  assumes "jobs_valid e" and "engine_ok e"
  shows "jobs_valid (sweep opts clock e)"
proof -
  have "ValidateJob (Some (toJob d)) = None" if d: "d \<in> set (collect_dead opts clock (e_sessions e))" for d
  proof -
    obtain s where s: "map_of (e_sessions e) (s_id d) = Some s" "mark opts (clock (s_id d)) s = Some d"
      using dead_in_table [OF assms(2) d] .
    then obtain why where why: "overdue opts (clock (s_id d)) s = Some why"
      "d = s\<lparr>s_status := StatusFailed, s_error := why\<rparr>" by (auto simp: mark_Some)
    have "wf_session d"
      using table_ok_session [OF assms(2) s(1)] overdue_reason [OF why(1)] why(2) by (simp add: wf_session_def)
    moreover have "s_id d \<noteq> []" using table_ok_session [OF assms(2) s(1)] issued_not_Nil by blast
    ultimately show ?thesis by (rule toJob_valid)
  qed
  with assms(1) show ?thesis unfolding jobs_valid_def sweep_def fold_bury_jobs by (auto simp del: not_None_eq)
qed

lemma engine_step_jobs:
  assumes "engine_step opts env e e'" and "jobs_valid e" and "engine_ok e"
  shows "jobs_valid e'"
  using assms(1)
proof cases
  case (revoke_account provider account member)
  have "jobs_valid (snd (revoke_where opts ''account revoked'' False (\<lambda>_. True) ids e))" for ids
    using assms(2,3) by (rule jobs_valid_revoke_where) simp
  moreover have "e_jobs e' = e_jobs (snd (revoke_where opts ''account revoked'' False (\<lambda>_. True)
      (ids_of (e_byAccount e) (provider, account, member)) e))"
    unfolding revoke_account RevokeAccount_eq by (simp add: split_def Let_def)
  ultimately show ?thesis using jobs_valid_cong by blast
next
  case (revoke_all account)
  then show ?thesis unfolding RevokeAllOnAccount_def using assms(2,3) by (simp add: jobs_valid_revoke_where)
next
  case (revoke_others provider account keep)
  then show ?thesis unfolding RevokeOthersOnAccount_def using assms(2,3) by (simp add: jobs_valid_revoke_where)
next
  case (apply_cap con provider account enforceNow)
  have "jobs_valid (snd (revoke_where opts ''stream limit lowered by the account owner'' True isActive ids e))" for ids
    using assms(2,3) by (rule jobs_valid_revoke_where) simp
  with apply_cap assms(2) show ?thesis
    by (simp add: ApplyAccountCap_def Let_def split_def split: sum.splits)
next
  case (heartbeat sid member now)
  then show ?thesis using assms(2) by (simp add: Heartbeat_def jobs_valid_def split: option.splits)
next
  case (progress sid percent now)
  then show ?thesis using assms(2) by (simp add: Progress_def jobs_valid_def split: option.splits)
next
  case (world w)
  then show ?thesis using assms(2) by (simp add: jobs_valid_def)
qed (simp_all add: assms jobs_valid_Start jobs_valid_Complete jobs_valid_sweep)

lemma reachable_jobs: "reachable opts env w0 e \<Longrightarrow> jobs_valid e"
proof (induction rule: reachable.induct)
  case new
  then show ?case by (simp add: jobs_valid_def New_def)
next
  case (step e e')
  then show ?case using engine_step_jobs reachable_table_ok by metis
qed

subsection \<open>A running example\<close>

definition demo_track :: Track where
  "demo_track = \<lparr>tr_id = ''v'', tr_media = None, tr_delivery = Some \<lparr>td_locations = [''u''], td_carried_in = [],
     td_auth_context = [], td_drm = None, td_refresh_path = []\<rparr>\<rparr>"

definition demo_source :: MediaSource where
  "demo_source = \<lparr>ms_type = MST_STATIC, ms_seekable = SK_FULL, ms_dvr_window = None,
     ms_addressable = AD_WHOLE_MUX, ms_tracks = [Some demo_track]\<rparr>"

definition demo_request :: StartRequest where
  "demo_request = \<lparr>rq_goal = GoalPlay, rq_member = ''u'', rq_provider = ''p'', rq_account = ''a'',
     rq_native = ''n'', rq_sink = ''dev'', rq_target = ''Movie'', rq_container = []\<rparr>"

definition demo_resolver :: resolver where
  "demo_resolver = Some (\<lambda>_ _ _. Inr (Some demo_source))"

definition demo_options :: "(sink, world) Options" where
  "demo_options = \<lparr>o_ttl = 100, o_interval = 10, o_grace = 5, o_instance = None,
     o_sinks = Some (code_sinks kind_os [(''dev'', DeviceFactory True 0)]), o_menu_ready = True,
     o_err_text = (\<lambda>_. ''error'')\<rparr>"

definition demo_world :: world where
  "demo_world = \<lparr>w_tickets = [], w_now = 0, w_random = [''r''], w_files = []\<rparr>"

definition demo_engine :: "(sink, world) Engine" where
  "demo_engine = snd (Start demo_options demo_resolver None demo_request 0 (New demo_world))"

lemma demo_checks: "Start_checks demo_resolver None demo_request =
    Inr (demo_source, [step StepPassthrough no_params], [], [])"
  by (simp add: Start_checks_def demo_resolver_def demo_request_def demo_source_def ValidateManifest_def
      RejectUnsupportedDRM_def demo_track_def SelectPipeline_def ValidatePlan_def step_def executableKinds_def
      resolveConstraints_def)

lemma demo_streams: "Streams (instancePolicy demo_options) = (3, True)"
  by (simp add: Streams_def instancePolicy_def demo_options_def Atoi_value_3)

lemma demo_limit: "EffectiveAccountLimit (With (instancePolicy demo_options) []) [] = 3"
  by (simp add: EffectiveAccountLimit_eq instancePolicy_def demo_options_def With_get Atoi_value_3)

definition demo_sink :: sink where
  "demo_sink = Device \<lparr>dv_ttl = defaultGrantTTL, dv_session = session_id 1, dv_tokens = [EncodeToString ''r''],
     dv_by_track = [(''v'', EncodeToString ''r'')]\<rparr>"

lemma demo_start:
  "fst (Start demo_options demo_resolver None demo_request 0 (New demo_world)) = Inr (session_id 1)
   \<and> (\<exists>s. map_of (e_sessions demo_engine) (session_id 1) = Some s \<and> s_status s = StatusRunning
        \<and> s_goal s = GoalPlay \<and> s_lastHeartbeat s = 0 \<and> s_createdAt s = 0
        \<and> key_of s = (''p'', ''a'', ''u'') \<and> s_sink s = Some demo_sink)
   \<and> w_tickets (e_world demo_engine) = [(EncodeToString ''r'', \<lparr>tk_session = session_id 1, tk_track = ''v'',
        tk_fetch = \<lparr>ff_location = ''u'', ff_auth = []\<rparr>, tk_expiry = defaultGrantTTL\<rparr>)]
   \<and> listed (e_byAccount demo_engine) (''p'', ''a'', ''u'') (session_id 1)"
proof -
  have sinks: "o_sinks demo_options = Some (code_sinks kind_os [(''dev'', DeviceFactory True 0)])"
      "o_menu_ready demo_options" by (simp_all add: demo_options_def)
  have goal: "rq_goal demo_request = GoalPlay" "rq_provider demo_request = ''p''" "rq_account demo_request = ''a''"
      "rq_member demo_request = ''u''" "rq_sink demo_request = ''dev''" by (simp_all add: demo_request_def)
  have limits: "fst (Streams (instancePolicy demo_options)) = 3" by (simp add: demo_streams)
  have new: "e_sessions (New demo_world) = []" "e_byAccount (New demo_world) = []" "e_seq (New demo_world) = 0"
      "e_world (New demo_world) = demo_world" "e_jobs (New demo_world) = []" "e_menus (New demo_world) = []"
    by (simp_all add: New_def)
  have tracks: "ms_tracks demo_source = [Some demo_track]" by (simp add: demo_source_def)
  have tr: "td_locations (the (tr_delivery demo_track)) = [''u'']" "tr_delivery demo_track \<noteq> None"
      "tr_id demo_track = ''v''" "td_auth_context (the (tr_delivery demo_track)) = []"
    by (simp_all add: demo_track_def)
  have positive: "0 < defaultGrantTTL" by (simp add: defaultGrantTTL_def)
  have world: "w_random demo_world = [''r'']" "w_tickets demo_world = []" "w_now demo_world = 0"
    by (simp_all add: demo_world_def)
  show ?thesis
    unfolding demo_engine_def Start_def demo_checks
    using positive tr
    by (simp add: Let_def newSessionID_def open_sink_def sinks code_sinks_def composite_NewSink_def goal new
        Device_NewSink_def admit_def member_active_def account_active_def limits demo_limit activate_def
        modify_session_def stage_menu_def tracks sink_Deliver_def Device_Deliver_def Grant_def world
        recordJob_def listed_def index_add_def key_of_def demo_sink_def new_session_def demo_track_def)
qed

lemma demo_engine_reachable: "reachable demo_options env demo_world demo_engine"
  unfolding demo_engine_def by (rule reachable.step [OF reachable.new engine_step.start])

end
