(* ===== verification/Delivery_Properties.thy ===== *)
theory Delivery_Properties
  imports Delivery_Safety
begin

text \<open>
  The properties of the delivery engine: its invariant in every reachable state, the concurrent-stream
  limit, the exact effect of \<open>Start\<close>, of the revocations, of a cap change and of the watchdog, and
  the validity of every job it records. The last section holds behaviours its documentation does not
  expect: a session revoked while \<open>Start\<close> is under way comes back to life, and a completed download
  is turned into a failed one by a later revocation.
\<close>

lemma e_seq_New [simp]: "e_seq (New w) = 0"
  by (simp add: New_def)

lemma demo_start_eq:
  "Start demo_options demo_resolver None demo_request 0 (New demo_world) = (Inr (session_id 1), demo_engine)"
  using demo_start by (simp add: demo_engine_def prod_eq_iff)

lemma demo_started: "started_session demo_request (session_id 1) (New demo_world) demo_engine"
  using table_ok_New demo_start_eq by (cases rule: Start_cases) simp_all

subsection \<open>Invariant and limits\<close>



text \<open>In every reachable state no member has more active sessions than the instance policy's
  concurrent-stream limit, whatever the accounts, overrides and caps of its starts.\<close>

theorem member_limit:
  assumes "reachable opts env w0 e"
  shows "int (member_active m e) \<le> max 0 (fst (Streams (instancePolicy opts)))"
  using reachable_member_active [OF assms] .

lemma member_limit_witness: "int (member_active ''u'' demo_engine) \<le> 3"
  using member_limit [OF demo_engine_reachable, of "''u''"] by (simp add: demo_streams)

text \<open>C14: Every job the engine ever records passes the contract's job validator.\<close>

theorem recorded_jobs_valid:
  assumes "reachable opts env w0 e" and "j \<in> set (e_jobs e)"
  shows "ValidateJob (Some j) = None"
  using reachable_jobs [OF assms(1)] assms(2) by (simp add: jobs_valid_def)

lemma recorded_jobs_valid_witness: "\<exists>j \<in> set (e_jobs demo_engine). ValidateJob (Some j) = None"
proof -
  obtain s where s: "map_of (e_sessions demo_engine) (session_id 1) = Some s" using demo_start by blast
  from demo_checks demo_start_eq have "toJob s \<in> set (e_jobs demo_engine)"
  proof (cases rule: Start_stages)
    case (started sess e2 e3 r4 e4)
    then have "demo_engine = recordJob (session_id 1) e4" by (cases r4) simp_all
    moreover from this have "e_sessions e4 = e_sessions demo_engine" by (metis recordJob_fields(1))
    ultimately have "demo_engine = e4\<lparr>e_jobs := e_jobs e4 @ [toJob s]\<rparr>" using s by (simp add: recordJob_def)
    then have "e_jobs demo_engine = e_jobs (e4\<lparr>e_jobs := e_jobs e4 @ [toJob s]\<rparr>)" by (rule arg_cong)
    then show ?thesis by simp
  qed simp_all
  with recorded_jobs_valid [OF demo_engine_reachable this] show ?thesis by blast
qed

text \<open>The effect of \<open>Start\<close>. A refusal (any error but a failed staging) leaves the sessions and the
  index as they were; otherwise exactly one session is new, under the next id: it is running for
  the requested goal and account, indexed under its key, and the member was below its limit.\<close>

theorem Start_effect:
  assumes "engine_ok e" and "Start opts res con req now e = (r, e')"
  shows "(if (\<exists>err. r = Inl err) \<and> (\<nexists>x. r = Inl (StageMenu x))
          then e_sessions e' = e_sessions e \<and> e_byAccount e' = e_byAccount e
          else started_session req (session_id (e_seq e + 1)) e e'
               \<and> int (member_active (rq_member req) e) < fst (Streams (instancePolicy opts)))"
  using assms
proof (cases rule: Start_cases)
  case (refused err)
  then show ?thesis by simp
next
  case started
  then show ?thesis by auto
qed

lemma Start_effect_witness:
  "started_session demo_request (session_id 1) (New demo_world) demo_engine"
proof -
  from Start_effect [OF table_ok_New demo_start_eq] show ?thesis by (simp add: New_def)
qed

text \<open>When the checks pass and a sink opens, the quota decides exactly: \<open>Start\<close> answers the quota
  error, code 8, with the number of sessions ahead, just when the member or the account is at its limit.\<close>

theorem Start_quota_exact:
  assumes "engine_ok e" and "Start_checks res con req = Inr (ms, plan, override, capSet)"
    and "o_sinks opts = None"
  shows "let al = EffectiveAccountLimit (With (instancePolicy opts) override) capSet;
             ml = fst (Streams (instancePolicy opts));
             ma = int (member_active (rq_member req) e);
             aa = int (account_active (rq_provider req) (rq_account req) e)
         in fst (Start opts res con req now e) =
              (if ma \<ge> ml then Inl (MemberQuota ml ma)
               else if aa \<ge> al then Inl (AccountQuota al aa)
               else Inr (session_id (e_seq e + 1)))"
  using assms(2,3)
  by (simp add: Start_def newSessionID_def open_sink_def admit_def stage_menu_def Let_def
      member_active_def account_active_def)

lemma Start_quota_exact_witness:
  "fst (Start (demo_options\<lparr>o_sinks := None\<rparr>) demo_resolver None demo_request 0 (New demo_world))
     = Inr (session_id 1)"
proof -
  let ?opts = "demo_options\<lparr>o_sinks := None\<rparr>"
  have p: "instancePolicy ?opts = instancePolicy demo_options" by (simp add: instancePolicy_def)
  have none: "member_active m (New demo_world) = 0" "account_active x y (New demo_world) = 0" for m x y
    by (simp_all add: member_active_def account_active_def New_def)
  have "o_sinks ?opts = None" by simp
  from Start_quota_exact [OF table_ok_New [of demo_world] demo_checks this, of 0]
  have "fst (Start ?opts demo_resolver None demo_request 0 (New demo_world)) =
      (if 3 \<le> int 0 then Inl (MemberQuota 3 (int 0)) else if 3 \<le> int 0 then Inl (AccountQuota 3 (int 0))
       else Inr (session_id (0 + 1)))"
    unfolding Let_def p demo_streams demo_limit none e_seq_New fst_conv .
  then show ?thesis by simp
qed

subsection \<open>Revocation\<close>

lemma filter_keys_count:
  assumes "distinct (map fst m)"
  shows "length (filter (\<lambda>k. \<exists>v. map_of m k = Some v \<and> P v) (map fst m)) = count_if P m"
proof -
  let ?F = "filter (\<lambda>k. \<exists>v. map_of m k = Some v \<and> P v) (map fst m)"
  have "length ?F = card (set ?F)" by (rule distinct_card [symmetric]) (simp add: assms)
  also have "set ?F = {k. \<exists>v. map_of m k = Some v \<and> P v}"
  proof
    show "{k. \<exists>v. map_of m k = Some v \<and> P v} \<subseteq> set ?F" using map_of_Some_keys [of m] by (auto simp del: set_map)
  qed auto
  finally show ?thesis by (simp add: count_if_card [OF assms])
qed

lemma RevokeAccount_effect:
  assumes "engine_ok e" and "RevokeAccount opts provider account member e = (n, e')"
  shows "(\<forall>sid s. map_of (e_sessions e) sid = Some s \<longrightarrow>
            (\<exists>s'. map_of (e_sessions e') sid = Some s'
              \<and> (if listed (e_byAccount e) (provider, account, member) sid
                 then ended ''account revoked'' s s' else s' = s)))
    \<and> (\<forall>sid s'. map_of (e_sessions e') sid = Some s' \<and> key_of s' = (provider, account, member) \<longrightarrow> \<not> isActive s')
    \<and> (\<forall>key sid. listed (e_byAccount e') key sid \<longleftrightarrow>
         listed (e_byAccount e) key sid \<and> key \<noteq> (provider, account, member))"
proof -
  let ?key = "(provider, account, member)"
  let ?ids = "ids_of (e_byAccount e) ?key"
  obtain m e1 where r: "revoke_where opts ''account revoked'' False (\<lambda>_. True) ?ids e = (m, e1)" by fastforce
  have e': "e' = e1\<lparr>e_byAccount := AList.delete ?key (e_byAccount e1)\<rparr>"
    using assms(2) unfolding RevokeAccount_eq r by simp
  have idx: "e_byAccount e1 = e_byAccount e" if "revoke_where opts why False P ids e = (m, e1)" for why P ids m e1
    using that
    by (induction ids arbitrary: e m) (auto simp: Let_def revoke_session_def split: option.splits if_splits prod.splits)
  have sess: "map_of (e_sessions e) sid = Some s \<Longrightarrow>
      \<exists>s'. map_of (e_sessions e') sid = Some s'
        \<and> (if listed (e_byAccount e) ?key sid then ended ''account revoked'' s s' else s' = s)" for sid s
    using revoke_where_session(2) [OF r, of sid s] by (simp add: e' listed_ids_of)
  moreover have "\<not> isActive s'" if s': "map_of (e_sessions e') sid = Some s'" "key_of s' = ?key" for sid s'
  proof
    assume a: "isActive s'"
    from s'(1) have "map_of (e_sessions e1) sid = Some s'" by (simp add: e')
    from revoke_where_active [OF r this a] have "map_of (e_sessions e) sid = Some s'" "sid \<notin> set ?ids" by auto
    with table_ok_active [OF assms(1) _ a] s'(2) show False by (metis listed_ids_of)
  qed
  moreover have "listed (e_byAccount e') key sid \<longleftrightarrow> listed (e_byAccount e) key sid \<and> key \<noteq> ?key" for key sid
    using idx [OF r] by (simp add: e')
  ultimately show ?thesis by blast
qed



lemma demo_revoked:
  "\<exists>s'. map_of (e_sessions (snd (RevokeAccount demo_options ''p'' ''a'' ''u'' demo_engine))) (session_id 1) = Some s'
     \<and> s_status s' = StatusRevoked"
proof -
  obtain s where s: "map_of (e_sessions demo_engine) (session_id 1) = Some s" using demo_start by blast
  have l: "listed (e_byAccount demo_engine) (''p'', ''a'', ''u'') (session_id 1)" using demo_start by blast
  obtain n e' where r: "RevokeAccount demo_options ''p'' ''a'' ''u'' demo_engine = (n, e')" by fastforce
  have "\<exists>s'. map_of (e_sessions e') (session_id 1) = Some s' \<and> ended ''account revoked'' s s'"
    using conjunct1 [OF RevokeAccount_effect [OF reachable_table_ok [OF demo_engine_reachable] r], rule_format, OF s] l
    by simp
  with r show ?thesis by (auto dest: ended_simps)
qed

text \<open>Narrowing an account's sharing ends exactly the active sessions on it whose member is not kept,
  and answers their number; every other session is as it was.\<close>

theorem RevokeOthersOnAccount_exact:
  assumes "engine_ok e" and "RevokeOthersOnAccount opts provider account keep e = (n, e')"
  shows "(\<forall>sid s. map_of (e_sessions e) sid = Some s \<longrightarrow>
            (\<exists>s'. map_of (e_sessions e') sid = Some s'
              \<and> (if isActive s \<and> dc_provider (s_context s) = provider \<and> dc_account_id (s_context s) = account
                    \<and> dc_member_user_id (s_context s) \<notin> set keep
                 then ended ''account sharing narrowed'' s s' else s' = s)))
    \<and> n = count_if (\<lambda>s. isActive s \<and> dc_provider (s_context s) = provider \<and> dc_account_id (s_context s) = account
                    \<and> dc_member_user_id (s_context s) \<notin> set keep) (e_sessions e)"
proof -
  define P where "P = (\<lambda>s :: 'a Session. isActive s \<and> dc_provider (s_context s) = provider
      \<and> dc_account_id (s_context s) = account \<and> dc_member_user_id (s_context s) \<notin> set keep)"
  have "(\<lambda>s. dc_provider (s_context s) = provider \<and> dc_account_id (s_context s) = account \<and> isActive s
            \<and> dc_member_user_id (s_context s) \<notin> set keep) = P" by (auto simp: P_def)
  then have r: "revoke_where opts ''account sharing narrowed'' True P (map fst (e_sessions e)) e = (n, e')"
    using assms(2) unfolding RevokeOthersOnAccount_def by simp
  have d: "distinct (map fst (e_sessions e))" by (rule table_ok_distinct [OF assms(1)])
  have n: "n = count_if P (e_sessions e)"
    unfolding revoke_where_count [OF r d] by (rule filter_keys_count [OF d])
  have "\<exists>s'. map_of (e_sessions e') sid = Some s'
      \<and> (if P s then ended ''account sharing narrowed'' s s' else s' = s)"
    if s: "map_of (e_sessions e) sid = Some s" for sid s
    using revoke_where_session(2) [OF r s] map_of_Some_keys [OF s] by (simp only: simp_thms)
  with n show ?thesis unfolding P_def by blast
qed

lemma RevokeOthersOnAccount_exact_witness:
  "\<exists>s'. map_of (e_sessions (snd (RevokeOthersOnAccount demo_options ''p'' ''a'' [''u''] demo_engine))) (session_id 1)
      = Some s' \<and> s_status s' = StatusRunning"
proof -
  obtain s where s: "map_of (e_sessions demo_engine) (session_id 1) = Some s" "s_status s = StatusRunning"
    "key_of s = (''p'', ''a'', ''u'')" using demo_start by blast
  obtain n e' where r: "RevokeOthersOnAccount demo_options ''p'' ''a'' [''u''] demo_engine = (n, e')" by fastforce
  have keep: "dc_member_user_id (s_context s) \<in> set [''u'']" using s(3) by (simp add: key_of_def)
  have "map_of (e_sessions e') (session_id 1) = Some s"
    using conjunct1 [OF RevokeOthersOnAccount_exact [OF reachable_table_ok [OF demo_engine_reachable] r], rule_format,
        OF s(1)] keep by auto
  with r s(2) show ?thesis by simp
qed

text \<open>No operation makes an ended session active again: only \<open>Start\<close> makes sessions active, and only
  under a fresh id.\<close>

theorem ended_stays_ended:
  assumes "engine_ok e" and "engine_step opts env e e'"
    and "map_of (e_sessions e) sid = Some s" and "\<not> isActive s"
    and "map_of (e_sessions e') sid = Some s'"
  shows "\<not> isActive s'"
  using engine_step_active [OF assms(2)]
proof (elim disjE exE)
  assume "no_new_active e e'"
  with assms(3-5) show ?thesis unfolding no_new_active_def by (metis option.inject)
next
  fix res con req now assume "e' = snd (Start opts res con req now e)"
  then obtain r where r: "Start opts res con req now e = (r, e')" by (metis prod.collapse)
  from assms(1) r show ?thesis
  proof (cases rule: Start_cases)
    case (refused err)
    with assms(3-5) show ?thesis by simp
  next
    case started
    have "sid \<noteq> session_id (e_seq e + 1)" using table_ok_fresh [OF assms(1)] assms(3) by auto
    with started(2) assms(3-5) show ?thesis by (auto simp: started_session_def)
  qed
qed

lemma ended_stays_ended_witness:
  "\<exists>s'. map_of (e_sessions (snd (Heartbeat (session_id 1) ''u'' 7
      (snd (RevokeAccount demo_options ''p'' ''a'' ''u'' demo_engine))))) (session_id 1) = Some s' \<and> \<not> isActive s'"
proof -
  let ?e1 = "snd (RevokeAccount demo_options ''p'' ''a'' ''u'' demo_engine)"
  let ?e2 = "snd (Heartbeat (session_id 1) ''u'' 7 ?e1)"
  have ok: "engine_ok ?e1" by (rule table_ok_RevokeAccount [OF reachable_table_ok [OF demo_engine_reachable]])
  obtain s1 where s1: "map_of (e_sessions ?e1) (session_id 1) = Some s1" "s_status s1 = StatusRevoked"
    using demo_revoked by blast
  have h: "engine_step demo_options (\<lambda>_ _. False) ?e1 ?e2" by (rule engine_step.heartbeat)
  have "e_sessions ?e2 = e_sessions ?e1"
    using s1 by (simp add: Heartbeat_def isActive_def)
  with s1 have s2: "map_of (e_sessions ?e2) (session_id 1) = Some s1" by simp
  from ended_stays_ended [OF ok h s1(1) _ s2] s1(2) s2 show ?thesis by (auto simp: isActive_def)
qed

subsection \<open>A lowered cap\<close>

abbreviation on_account :: "string \<Rightarrow> string \<Rightarrow> 'k Session \<Rightarrow> bool" where
  "on_account provider account s \<equiv>
     isActive s \<and> dc_provider (s_context s) = provider \<and> dc_account_id (s_context s) = account"

lemma set_eviction_order:
  assumes "distinct (map fst (e_sessions e))"
  shows "(sid, s) \<in> set (eviction_order (active_on provider account e)) \<longleftrightarrow>
     map_of (e_sessions e) sid = Some s \<and> on_account provider account s"
  using assms by (auto simp: eviction_order_def active_on_def)

lemma distinct_eviction_order:
  "distinct (map fst (e_sessions e)) \<Longrightarrow> distinct (map fst (eviction_order (active_on provider account e)))"
  by (simp add: eviction_order_def active_on_def distinct_map distinct_map_filter inj_on_def)

lemma length_eviction_order:
  "length (eviction_order (active_on provider account e)) = account_active provider account e"
  by (simp add: eviction_order_def active_on_def account_active_def count_if_def)

lemma eviction_order_take_drop:
  assumes "distinct (map fst (e_sessions e))"
    and "(a, s) \<in> set (take n (eviction_order (active_on provider account e)))"
    and "(b, t) \<in> set (drop n (eviction_order (active_on provider account e)))"
  shows "a \<noteq> b \<and> (s_createdAt s, a) < (s_createdAt t, b)"
proof -
  let ?f = "\<lambda>(sid, s). (s_createdAt s, sid)"
  let ?L = "eviction_order (active_on provider account e)"
  have "sorted (map ?f ?L)" unfolding eviction_order_def by (rule sorted_sort_key)
  then have "sorted (map ?f (take n ?L) @ map ?f (drop n ?L))" by (simp flip: map_append)
  then have "\<forall>x \<in> set (take n ?L). \<forall>y \<in> set (drop n ?L). ?f x \<le> ?f y"
    unfolding sorted_append by simp
  then have le: "(s_createdAt s, a) \<le> (s_createdAt t, b)" using assms(2,3) by fastforce
  have "distinct (map fst (take n ?L) @ map fst (drop n ?L))"
    using distinct_eviction_order [OF assms(1)] by (simp flip: map_append)
  then have "fst ` set (take n ?L) \<inter> fst ` set (drop n ?L) = {}" by simp
  moreover have "a \<in> fst ` set (take n ?L)" "b \<in> fst ` set (drop n ?L)"
    using assms(2,3) by (auto intro: fst_imageI)
  ultimately have "a \<noteq> b" by blast
  with le show ?thesis by (auto simp: less_le)
qed

lemma revoke_cap_account:
  assumes "engine_ok e" and "L = eviction_order (active_on provider account e)" and "n \<le> length L"
    and "revoke_where opts why True isActive (map fst (take n L)) e = (killed, e')"
  shows "{sid. \<exists>s'. map_of (e_sessions e') sid = Some s' \<and> on_account provider account s'} = fst ` set (drop n L)"
    and "killed = n"
proof -
  have d: "distinct (map fst (e_sessions e))" by (rule table_ok_distinct [OF assms(1)])
  note L = set_eviction_order [OF d, of _ _ provider account, folded assms(2)]
  have dL: "distinct (map fst (take n L) @ map fst (drop n L))"
    using distinct_eviction_order [OF d] unfolding assms(2) by (simp flip: map_append)
  have split: "set L = set (take n L) \<union> set (drop n L)" by (metis append_take_drop_id set_append)
  show "{sid. \<exists>s'. map_of (e_sessions e') sid = Some s' \<and> on_account provider account s'} = fst ` set (drop n L)"
  proof (intro equalityI subsetI)
    fix sid assume "sid \<in> {sid. \<exists>s'. map_of (e_sessions e') sid = Some s' \<and> on_account provider account s'}"
    then obtain s' where s': "map_of (e_sessions e') sid = Some s'" "on_account provider account s'" by blast
    from revoke_where_active [OF assms(4) s'(1)] s'(2)
    have s: "map_of (e_sessions e) sid = Some s'" "sid \<notin> set (map fst (take n L))" by auto
    then have "(sid, s') \<in> set L" using L s'(2) by blast
    then have "(sid, s') \<in> set (drop n L)" using split s(2) by (force simp: image_iff)
    then show "sid \<in> fst ` set (drop n L)" by (rule fst_imageI)
  next
    fix sid assume "sid \<in> fst ` set (drop n L)"
    then obtain s where s: "(sid, s) \<in> set (drop n L)" by auto
    then have "(sid, s) \<in> set L" using split by blast
    then have m: "map_of (e_sessions e) sid = Some s" "on_account provider account s" using L by blast+
    have "sid \<notin> set (map fst (take n L))" using dL s by (auto simp: disjoint_iff dest: fst_imageI)
    with revoke_where_session(2) [OF assms(4) m(1)] have "map_of (e_sessions e') sid = Some s" by auto
    with m(2) show "sid \<in> {sid. \<exists>s'. map_of (e_sessions e') sid = Some s' \<and> on_account provider account s'}" by blast
  qed
  have "killed = length (filter (\<lambda>sid. \<exists>s. map_of (e_sessions e) sid = Some s \<and> isActive s) (map fst (take n L)))"
    using revoke_where_count [OF assms(4)] dL by simp
  moreover have "\<exists>s. map_of (e_sessions e) sid = Some s \<and> isActive s" if "sid \<in> set (map fst (take n L))" for sid
  proof -
    from that obtain s where "(sid, s) \<in> set (take n L)" by auto
    then have "(sid, s) \<in> set L" using split by blast
    then show ?thesis using L by blast
  qed
  ultimately show "killed = n" using assms(3) by (simp add: filter_id_conv)
qed



subsection \<open>The watchdog\<close>

text \<open>C13: A sweep removes exactly the active sessions that are overdue by the clock read when the loop is at
  them: play sessions without a heartbeat within interval and grace, downloads without progress
  within the TTL, and any session older than the TTL. Every other session stays as it is.\<close>

theorem sweep_exact:
  assumes "engine_ok e"
  shows "map_of (e_sessions (sweep opts clock e)) sid =
    (case map_of (e_sessions e) sid of
       None \<Rightarrow> None
     | Some s \<Rightarrow>
         if isActive s
            \<and> (if s_goal s = GoalPlay then clock sid - s_lastHeartbeat s > o_interval opts + o_grace opts
                else clock sid - s_lastProgress s > o_ttl opts)
            \<or> isActive s \<and> clock sid - s_createdAt s > o_ttl opts
         then None else Some s)"
proof -
  let ?dead = "collect_dead opts clock (e_sessions e)"
  have dead: "sid \<in> s_id ` set ?dead \<longleftrightarrow>
      (\<exists>s. map_of (e_sessions e) sid = Some s \<and> isActive s \<and> overdue opts (clock sid) s \<noteq> None)"
  proof
    assume "sid \<in> s_id ` set ?dead"
    then obtain d where d: "d \<in> set ?dead" "sid = s_id d" by auto
    obtain s where "map_of (e_sessions e) (s_id d) = Some s" "mark opts (clock (s_id d)) s = Some d"
      using dead_in_table [OF assms d(1)] .
    with d(2) show "\<exists>s. map_of (e_sessions e) sid = Some s \<and> isActive s \<and> overdue opts (clock sid) s \<noteq> None"
      by (auto simp: mark_Some)
  next
    assume "\<exists>s. map_of (e_sessions e) sid = Some s \<and> isActive s \<and> overdue opts (clock sid) s \<noteq> None"
    then obtain s d where s: "map_of (e_sessions e) sid = Some s" "mark opts (clock sid) s = Some d"
      by (auto simp: mark_def)
    then have "d \<in> set ?dead" using map_of_SomeD by (fastforce simp: collect_dead_set)
    moreover have "s_id d = sid" using mark_same [OF s(2)] table_ok_session [OF assms s(1)] by simp
    ultimately show "sid \<in> s_id ` set ?dead" by force
  qed
  moreover have "overdue opts now s \<noteq> None \<longleftrightarrow>
      (if s_goal s = GoalPlay then now - s_lastHeartbeat s > o_interval opts + o_grace opts
       else now - s_lastProgress s > o_ttl opts) \<or> now - s_createdAt s > o_ttl opts" for now and s :: "'a Session"
    by (simp add: overdue_def)
  ultimately show ?thesis by (cases "map_of (e_sessions e) sid") (auto simp: sweep_def fold_bury_sessions)
qed

lemma sweep_exact_witness:
  "map_of (e_sessions (sweep demo_options (\<lambda>_. 16) demo_engine)) (session_id 1) = None"
proof -
  obtain s where s: "map_of (e_sessions demo_engine) (session_id 1) = Some s" "s_status s = StatusRunning"
    "s_goal s = GoalPlay" "s_lastHeartbeat s = 0" using demo_start by blast
  have "isActive s \<and> 16 - s_lastHeartbeat s > o_interval demo_options + o_grace demo_options"
    using s(2,4) by (simp add: isActive_def demo_options_def)
  then show ?thesis
    using sweep_exact [OF reachable_table_ok [OF demo_engine_reachable], of demo_options "\<lambda>_. 16" "session_id 1"] s(1,3) by simp
qed

subsection \<open>What the documentation does not expect\<close>

text \<open>C15: A start that is under way when its member is revoked survives the revocation: \<open>Start\<close> marks the
  admitted session running after it released the lock, so the session, already revoked and out of
  the index, is active again and no later revocation of the account's member finds it.\<close>

theorem revoked_start_revives:
  assumes "engine_ok e" and "map_of (e_sessions e) (s_id sess) = None"
    and "admit sess memberLimit accountLimit e = (Inr (), e1)"
    and "key_of sess = (provider, account, member)"
    and "RevokeAccount opts provider account member e1 = (n, e2)"
  shows "\<exists>s. map_of (e_sessions (activate (s_id sess) e2)) (s_id sess) = Some s
    \<and> s_status s = StatusRunning \<and> key_of s = (provider, account, member)
    \<and> \<not> listed (e_byAccount (activate (s_id sess) e2)) (provider, account, member) (s_id sess)
    \<and> map_of (e_sessions (snd (RevokeAccount opts provider account member (activate (s_id sess) e2)))) (s_id sess) = Some s"
proof -
  let ?key = "(provider, account, member)" and ?sid = "s_id sess"
  let ?ids = "ids_of (e_byAccount e1) ?key"
  obtain m e' where r: "revoke_where opts ''account revoked'' False (\<lambda>_. True) ?ids e1 = (m, e')" by fastforce
  have e2: "e2 = e'\<lparr>e_byAccount := AList.delete ?key (e_byAccount e')\<rparr>"
    using assms(5) unfolding RevokeAccount_eq r by simp
  have in1: "map_of (e_sessions e1) ?sid = Some sess" using admit_Inr(1) [OF assms(3)] by simp
  obtain s' where s1: "map_of (e_sessions e') ?sid = Some s'"
      "if ?sid \<in> set ?ids \<and> True then ended ''account revoked'' sess s' else s' = sess"
    using revoke_where_session(2) [OF r in1] by blast
  have "ended ''account revoked'' sess s' \<or> s' = sess" using s1(2) by (simp only: simp_thms split: if_splits)
  then have "key_of s' = key_of sess" using ended_simps by blast
  then have s': "map_of (e_sessions e2) ?sid = Some s'" "key_of s' = ?key"
    using s1(1) assms(4) by (simp_all add: e2)
  let ?e3 = "activate ?sid e2" and ?s = "s'\<lparr>s_status := StatusRunning\<rparr>"
  have run: "map_of (e_sessions ?e3) ?sid = Some ?s" using s'(1) by (simp add: activate_def modify_session_get)
  have gone: "map_of (e_byAccount ?e3) ?key = None" by (simp add: e2)
  have "ids_of (e_byAccount ?e3) ?key = []" using gone by (simp add: ids_of_def)
  then have "e_sessions (snd (RevokeAccount opts provider account member ?e3)) = e_sessions ?e3"
    unfolding RevokeAccount_eq by simp
  with run s'(2) gone show ?thesis by (auto simp: key_of_def listed_def)
qed

lemma revoked_start_revives_witness:
  "\<exists>s. map_of (e_sessions (activate (session_id 2)
        (snd (RevokeAccount demo_options ''p'' ''a'' ''u''
          (snd (admit (new_session demo_request [] [] [] 0 (session_id 2)) 3 3 demo_engine)))))) (session_id 2) = Some s
     \<and> s_status s = StatusRunning"
proof -
  let ?sess = "new_session demo_request [] [] [] 0 (session_id 2) :: sink Session"
  have ok: "engine_ok demo_engine" by (rule reachable_table_ok [OF demo_engine_reachable])
  have seq: "e_seq demo_engine = 1"
  proof -
    from demo_checks demo_start_eq show ?thesis
    proof (cases rule: Start_stages)
      case (started sess e2 e3 r4 e4)
      from stage_menu_restaged(3) [OF started(3)] admit_Inr(1) [OF started(2)] open_sink_fields(3) [OF started(1)]
      have "e_seq e4 = 1" by simp
      moreover have "demo_engine = recordJob (session_id 1) e4"
        using started(4,5) by (cases r4) simp_all
      ultimately show ?thesis by (metis recordJob_fields(3))
    qed simp_all
  qed
  have fresh: "map_of (e_sessions demo_engine) (s_id ?sess) = None"
    using table_ok_fresh [OF ok] seq by simp
  have le: "member_active m demo_engine \<le> 1" "account_active p a demo_engine \<le> 1" for m p a
  proof -
    have only: "map_of (e_sessions demo_engine) t = Some s \<Longrightarrow> t = session_id 1" for t s
      using demo_started by (auto simp: started_session_def New_def split: if_splits)
    have d: "distinct (map fst (e_sessions demo_engine))" by (rule table_ok_distinct [OF ok])
    have "card {k. \<exists>v. map_of (e_sessions demo_engine) k = Some v \<and> P v} \<le> card {session_id 1}" for P
      by (rule card_mono) (use only in auto)
    then show "member_active m demo_engine \<le> 1" "account_active p a demo_engine \<le> 1"
      unfolding member_active_def account_active_def count_if_card [OF d] by simp_all
  qed
  have "\<not> int (member_active m demo_engine) \<ge> 3" "\<not> int (account_active p a demo_engine) \<ge> 3" for m p a
    using le(1) [of m] le(2) [of p a] by linarith+
  then obtain e1 where e1: "admit ?sess 3 3 demo_engine = (Inr (), e1)"
    unfolding admit_def Let_def by simp
  obtain n e2 where e2: "RevokeAccount demo_options ''p'' ''a'' ''u'' e1 = (n, e2)" by fastforce
  have "key_of ?sess = (''p'', ''a'', ''u'')" by (simp add: key_of_def demo_request_def)
  from revoked_start_revives [OF ok fresh e1 this e2] obtain s where
    s: "map_of (e_sessions (activate (s_id ?sess) e2)) (s_id ?sess) = Some s" "s_status s = StatusRunning"
    by (elim exE conjE) (rule that)
  show ?thesis
    unfolding e1 snd_conv e2 using s unfolding new_session_simps(1) by (intro exI conjI)
qed

text \<open>A completed session stays in the table and in the index, and a later revocation of its member
  turns the finished delivery into a revoked one, recorded as a failed job.\<close>

theorem completed_then_revoked:
  assumes "engine_ok e" and "map_of (e_sessions e) sid = Some s" and "isActive s"
    and "key_of s = (provider, account, member)"
  shows "(\<exists>d. map_of (e_sessions (snd (Complete opts sid e))) sid = Some d \<and> s_status d = StatusDone)
    \<and> (\<exists>t. map_of (e_sessions (snd (RevokeAccount opts provider account member (snd (Complete opts sid e))))) sid = Some t
         \<and> s_status t = StatusRevoked \<and> job_status (toJob t) = JS_FAILED)"
proof -
  let ?c = "snd (Complete opts sid e)"
  obtain s' w where f: "finalize_sink opts (s\<lparr>s_status := StatusDone\<rparr>) (e_world e) = (s', w)" by fastforce
  have fin: "s_status s' = StatusDone" using finalize_sink_session [OF f] by auto
  have c: "map_of (e_sessions ?c) sid = Some s'" "e_byAccount ?c = e_byAccount e"
    using assms(2) f by (simp_all add: Complete_def)
  have listed: "listed (e_byAccount ?c) (provider, account, member) sid"
    using table_ok_active [OF assms(1-3)] assms(4) c(2) by simp
  obtain n e2 where r: "RevokeAccount opts provider account member ?c = (n, e2)" by fastforce
  obtain m e1 where rv: "revoke_where opts ''account revoked'' False (\<lambda>_. True)
      (ids_of (e_byAccount ?c) (provider, account, member)) ?c = (m, e1)" by fastforce
  have "e_sessions e2 = e_sessions e1" using r unfolding RevokeAccount_eq rv by auto
  moreover obtain t where "map_of (e_sessions e1) sid = Some t" "ended ''account revoked'' s' t"
    using revoke_where_session(2) [OF rv c(1)] listed by (auto simp: listed_ids_of)
  ultimately show ?thesis using r c(1) fin ended_simps by (auto simp: toJob_def)
qed

lemma completed_then_revoked_witness:
  "\<exists>t. map_of (e_sessions (snd (RevokeAccount demo_options ''p'' ''a'' ''u''
      (snd (Complete demo_options (session_id 1) demo_engine))))) (session_id 1) = Some t \<and> s_status t = StatusRevoked"
proof -
  obtain s where s: "map_of (e_sessions demo_engine) (session_id 1) = Some s" "s_status s = StatusRunning"
    "key_of s = (''p'', ''a'', ''u'')" using demo_start by blast
  have "isActive s" using s(2) by (simp add: isActive_def)
  from completed_then_revoked [OF reachable_table_ok [OF demo_engine_reachable] s(1) this s(3), of demo_options]
  show ?thesis by blast
qed

text \<open>An instance policy without the concurrent-streams key is no missing limit: the engine takes it for
  zero and refuses every start.\<close>

theorem undeclared_limit_refuses:
  assumes "engine_ok e" and "map_of (instancePolicy opts) KeyConcurrentStreams = None"
  shows "(\<exists>err. fst (Start opts res con req now e) = Inl err)
    \<and> e_sessions (snd (Start opts res con req now e)) = e_sessions e"
proof -
  obtain r e' where S: "Start opts res con req now e = (r, e')" by fastforce
  from assms(1) S show ?thesis
  proof (cases rule: Start_cases)
    case (refused err)
    with S show ?thesis by simp
  next
    case started
    with assms(2) show ?thesis by (simp add: Streams_def)
  qed
qed

lemma undeclared_limit_refuses_witness:
  "\<exists>err. fst (Start (demo_options\<lparr>o_instance := Some []\<rparr>) demo_resolver None demo_request 0 (New demo_world)) = Inl err"
proof -
  have "map_of (instancePolicy (demo_options\<lparr>o_instance := Some []\<rparr>)) KeyConcurrentStreams = None"
    by (simp add: instancePolicy_def)
  from undeclared_limit_refuses [OF table_ok_New this] show ?thesis by blast
qed

end
