(* ===== verification/Delivery_Revocation.thy ===== *)
theory Delivery_Revocation
  imports Delivery_Properties
begin

text \<open>
  The delivery engine over its sinks: what a revocation does to the bytes a session has staged. The
  engine's part is proved once against the contract \<open>session_sinks\<close>; the interpretation of the
  contract on the code's sinks turns it into a statement about relay tokens.
\<close>

subsection \<open>The engine as a client of its sinks\<close>

text \<open>Only sessions the engine issued are served, each through its own sink, and none once it is revoked
  or done.\<close>

definition sinks_ok :: "('w \<Rightarrow> string \<Rightarrow> bool) \<Rightarrow> ('k \<Rightarrow> string option) \<Rightarrow> ('w \<Rightarrow> bool) \<Rightarrow> ('k, 'w) Engine \<Rightarrow> bool" where
  "sinks_ok serving holder okw e \<longleftrightarrow>
     okw (e_world e)
     \<and> (\<forall>sid s. map_of (e_sessions e) sid = Some s \<longrightarrow>
          (\<forall>k. s_sink s = Some k \<longrightarrow> holder k = None \<or> holder k = Some sid)
          \<and> (serving (e_world e) sid \<longrightarrow> (\<exists>k. s_sink s = Some k \<and> holder k = Some sid))
          \<and> (s_status s = StatusRevoked \<or> s_status s = StatusDone \<longrightarrow> \<not> serving (e_world e) sid))
     \<and> (\<forall>sid. serving (e_world e) sid \<longrightarrow> issued (e_seq e) sid)"

context session_sinks
begin

abbreviation ok where "ok \<equiv> sinks_ok serving holder okw"

lemma ok_world: "ok e \<Longrightarrow> okw (e_world e)"
  by (simp add: sinks_ok_def)

lemma ok_session:
  assumes "ok e" and "map_of (e_sessions e) sid = Some s"
  shows "s_sink s = Some k \<Longrightarrow> holder k = None \<or> holder k = Some sid"
    and "serving (e_world e) sid \<Longrightarrow> \<exists>k. s_sink s = Some k \<and> holder k = Some sid"
    and "s_status s = StatusRevoked \<or> s_status s = StatusDone \<Longrightarrow> \<not> serving (e_world e) sid"
  using assms unfolding sinks_ok_def by blast+

lemma ok_fields:
  assumes "ok e" and "e_sessions e' = e_sessions e" and "e_world e' = e_world e" and "e_seq e' = e_seq e"
  shows "ok e'"
  using assms unfolding sinks_ok_def by simp

text \<open>One session and the world change together: the other sessions are served at most as before.\<close>

lemma ok_update:
  assumes "ok e" and "okw w" and "e_world e' = w" and "e_seq e' = e_seq e"
    and "e_sessions e' = AList.update sid s' (e_sessions e)"
    and "\<And>k. s_sink s' = Some k \<Longrightarrow> holder k = None \<or> holder k = Some sid"
    and "serving w sid \<Longrightarrow> \<exists>k. s_sink s' = Some k \<and> holder k = Some sid"
    and "s_status s' = StatusRevoked \<or> s_status s' = StatusDone \<Longrightarrow> \<not> serving w sid"
    and "\<And>t. serving w t \<Longrightarrow> t \<noteq> sid \<Longrightarrow> serving (e_world e) t"
    and "serving w sid \<Longrightarrow> issued (e_seq e) sid"
  shows "ok e'"
  unfolding sinks_ok_def
proof (intro conjI allI impI)
  show "okw (e_world e')" using assms(2,3) by simp
  fix t s assume t: "map_of (e_sessions e') t = Some s"
  then have cases: "t = sid \<and> s = s' \<or> t \<noteq> sid \<and> map_of (e_sessions e) t = Some s"
    using assms(5) by (auto split: if_splits)
  show "holder k = None \<or> holder k = Some t" if "s_sink s = Some k" for k
    using cases assms(6) ok_session(1) [OF assms(1)] that by blast
  show "\<exists>k. s_sink s = Some k \<and> holder k = Some t" if "serving (e_world e') t"
    using cases assms(3,7,9) ok_session(2) [OF assms(1)] that by blast
  show "\<not> serving (e_world e') t" if "s_status s = StatusRevoked \<or> s_status s = StatusDone"
    using cases assms(3,8,9) ok_session(3) [OF assms(1)] that by blast
next
  fix t assume "serving (e_world e') t"
  then show "issued (e_seq e') t"
    using assms(1,3,4,9,10) unfolding sinks_ok_def by (cases "t = sid") auto
qed

lemma ok_modify:
  assumes "ok e" and "\<And>s. s_sink (f s) = s_sink s"
    and "\<And>s. s_status (f s) = StatusRevoked \<or> s_status (f s) = StatusDone \<Longrightarrow> s_status (f s) = s_status s"
  shows "ok (modify_session sid f e)"
proof (cases "map_of (e_sessions e) sid")
  case None
  with assms(1) show ?thesis by (simp add: modify_session_def)
next
  case (Some s)
  note s = ok_session [OF assms(1) Some]
  have iss: "issued (e_seq e) sid" if "serving (e_world e) sid" using assms(1) that by (simp add: sinks_ok_def)
  show ?thesis
  proof (rule ok_update [OF assms(1) ok_world [OF assms(1)], of _ sid "f s"])
    show "e_sessions (modify_session sid f e) = AList.update sid (f s) (e_sessions e)"
      using Some by (simp add: modify_session_def)
    show "holder k = None \<or> holder k = Some sid" if "s_sink (f s) = Some k" for k
      using that s(1) assms(2) by simp
    show "\<exists>k. s_sink (f s) = Some k \<and> holder k = Some sid" if "serving (e_world e) sid"
      using that s(2) assms(2) by simp
    show "\<not> serving (e_world e) sid" if "s_status (f s) = StatusRevoked \<or> s_status (f s) = StatusDone"
      using s(3) assms(3) [OF that] that by metis
    show "issued (e_seq e) sid" if "serving (e_world e) sid" by (rule iss [OF that])
  qed simp_all
qed

lemma ok_revoke_session:
  assumes "ok e" and "map_of (e_sessions e) sid = Some s" and "o_sinks opts = Some ops"
  shows "ok (revoke_session opts why sid s e)"
proof -
  note s = ok_session [OF assms(1,2)]
  let ?s1 = "s\<lparr>s_status := StatusRevoked, s_error := why\<rparr>"
  obtain s' w where r: "revoke_session opts why sid s e =
      e\<lparr>e_sessions := AList.update sid s' (e_sessions e), e_world := w, e_jobs := e_jobs e @ [toJob s']\<rparr>"
    and a: "abort_sink opts ?s1 (e_world e) = (s', w)" by (rule revoke_session_eq)
  have "okw w \<and> (\<forall>t. serving w t \<longrightarrow> serving (e_world e) t) \<and> \<not> serving w sid
      \<and> (\<forall>k. s_sink s' = Some k \<longrightarrow> holder k = None \<or> holder k = Some sid)"
  proof (cases "s_sink s")
    case None
    then have "s' = ?s1" "w = e_world e" using a by (auto simp: abort_sink_def split: option.splits)
    with None s ok_world [OF assms(1)] show ?thesis by auto
  next
    case (Some k)
    obtain k' w' where ab: "op_abort ops k (e_world e) = (k', w')" by fastforce
    then have "s' = ?s1\<lparr>s_sink := Some k'\<rparr>" "w = w'"
      using a Some assms(3) by (auto simp: abort_sink_def)
    with abort_ok [OF ab ok_world [OF assms(1)]] s Some show ?thesis by auto
  qed
  then show ?thesis
    by (intro ok_update [OF assms(1), of w _ sid s']) (auto simp: r)
qed

lemma ok_revoke_where:
  "ok e \<Longrightarrow> o_sinks opts = Some ops \<Longrightarrow> ok (snd (revoke_where opts why u P ids e))"
proof (induction ids arbitrary: e)
  case Nil
  then show ?case by simp
next
  case (Cons sid ids)
  show ?case
  proof (cases "\<exists>s. map_of (e_sessions e) sid = Some s \<and> P s")
    case False
    with Cons show ?thesis by (auto split: option.splits)
  next
    case True
    then obtain s where s: "map_of (e_sessions e) sid = Some s" "P s" by blast
    let ?e1 = "revoke_session opts why sid s e"
    let ?e2 = "if u then ?e1\<lparr>e_byAccount := index_remove (key_of s) sid (e_byAccount ?e1)\<rparr> else ?e1"
    have "ok ?e2"
      by (rule ok_fields [OF ok_revoke_session [OF Cons.prems(1) s(1) Cons.prems(2)]]) simp_all
    with Cons.IH Cons.prems(2) have "ok (snd (revoke_where opts why u P ids ?e2))" by blast
    moreover have "snd (revoke_where opts why u P (sid # ids) e) = snd (revoke_where opts why u P ids ?e2)"
      using s by (simp add: Let_def split: prod.splits)
    ultimately show ?thesis by simp
  qed
qed

lemma ok_RevokeAccount:
  assumes "ok e" and "o_sinks opts = Some ops"
  shows "ok (snd (RevokeAccount opts p a m e))"
proof -
  let ?r = "revoke_where opts ''account revoked'' False (\<lambda>_. True) (ids_of (e_byAccount e) (p, a, m)) e"
  have "ok (snd ?r)" by (rule ok_revoke_where [OF assms])
  then show ?thesis
    unfolding RevokeAccount_eq by (rule ok_fields) (simp_all add: split_def Let_def)
qed

lemma ok_Complete:
  assumes "ok e" and "o_sinks opts = Some ops"
  shows "ok (snd (Complete opts sid e))"
proof (cases "map_of (e_sessions e) sid")
  case None
  with assms show ?thesis by (simp add: Complete_def)
next
  case (Some s)
  note s = ok_session [OF assms(1) Some]
  let ?s1 = "s\<lparr>s_status := StatusDone\<rparr>"
  obtain s' w where f: "finalize_sink opts ?s1 (e_world e) = (s', w)" by fastforce
  have "okw w \<and> (\<forall>t. serving w t \<longrightarrow> serving (e_world e) t) \<and> \<not> serving w sid
      \<and> (\<forall>k. s_sink s' = Some k \<longrightarrow> holder k = None \<or> holder k = Some sid)"
  proof (cases "s_sink s")
    case None
    then have "s' = ?s1" "w = e_world e" using f by (auto simp: finalize_sink_def split: option.splits)
    with None s ok_world [OF assms(1)] show ?thesis by auto
  next
    case (Some k)
    obtain er k' w' where fi: "op_finalize ops k (e_world e) = (er, k', w')"
      by (cases "op_finalize ops k (e_world e)") auto
    then have "s_sink s' = Some k'" "w = w'"
      using f Some assms(2) by (auto simp: finalize_sink_def split: option.splits)
    with finalize_ok [OF fi ok_world [OF assms(1)]] s Some show ?thesis by auto
  qed
  then have "ok (e\<lparr>e_sessions := AList.update sid s' (e_sessions e), e_world := w\<rparr>)"
    by (intro ok_update [OF assms(1), of w _ sid s']) auto
  then have "ok (recordJob sid (e\<lparr>e_sessions := AList.update sid s' (e_sessions e), e_world := w\<rparr>))"
    by (rule ok_fields) simp_all
  with Some f show ?thesis by (simp add: Complete_def)
qed

lemma ok_sweep:
  assumes "ok e"
  shows "ok (sweep opts clock e)"
  using assms unfolding sinks_ok_def sweep_def by (simp add: fold_bury_sessions)

lemma ok_stage_tracks:
  assumes "ok e" and "stage_tracks ops sid k trs e = (r, e')" and "map_of (e_sessions e) sid = Some s"
    and "s_sink s = Some k" and "s_status s = StatusRunning" and "issued (e_seq e) sid"
  shows "ok e'"
  using assms
proof (induction trs arbitrary: k e s)
  case Nil
  then show ?case by simp
next
  case (Cons tr trs)
  show ?case
  proof (cases "get_or [] td_locations (GetDelivery tr) = []")
    case True
    with Cons show ?thesis by auto
  next
    case False
    obtain r1 k' w where d: "op_deliver ops k tr None (e_world e) = (r1, k', w)"
      by (cases "op_deliver ops k tr None (e_world e)") auto
    let ?s = "s\<lparr>s_sink := Some k'\<rparr>"
    let ?e = "modify_session sid (\<lambda>s. s\<lparr>s_sink := Some k'\<rparr>) (e\<lparr>e_world := w\<rparr>)"
    note law = deliver_ok [OF d ok_world [OF Cons.prems(1)]]
    note sk = ok_session [OF Cons.prems(1,3)]
    have ses: "e_sessions ?e = AList.update sid ?s (e_sessions e)" using Cons.prems(3) by (simp add: modify_session_def)
    have h: "holder k = None \<or> holder k = Some sid" using sk(1) Cons.prems(4) by blast
    have ok1: "ok ?e"
    proof (rule ok_update [OF Cons.prems(1), of w ?e sid ?s])
      show "\<exists>k. s_sink ?s = Some k \<and> holder k = Some sid" if "serving w sid"
        using that law sk(2) Cons.prems(4) by auto
      show "serving (e_world e) t" if "serving w t" "t \<noteq> sid" for t using that law h by auto
      show "\<not> serving w sid" if "s_status ?s = StatusRevoked \<or> s_status ?s = StatusDone"
        using that Cons.prems(5) by simp
    qed (use law h ses Cons.prems(6) in auto)
    show ?thesis
    proof (cases r1)
      case (Inl err)
      with False d Cons.prems(2) ok1 show ?thesis by (simp add: Let_def)
    next
      case (Inr n)
      with False d Cons.prems(2) have st: "stage_tracks ops sid k' trs ?e = (r, e')" by (simp add: Let_def)
      show ?thesis
        by (rule Cons.IH [OF ok1 st, of ?s]) (use ses Cons.prems(5,6) in simp_all)
    qed
  qed
qed

lemma ok_insert:
  assumes "ok e" and "map_of (e_sessions e) (s_id sess) = None" and "\<not> serving (e_world e) (s_id sess)"
    and "\<And>k. s_sink sess = Some k \<Longrightarrow> holder k = None \<or> holder k = Some (s_id sess)"
    and "e_sessions e' = AList.update (s_id sess) sess (e_sessions e)" and "e_world e' = e_world e"
    and "e_seq e' = e_seq e"
  shows "ok e'"
  by (rule ok_update [OF assms(1) ok_world [OF assms(1)] assms(6,7,5)]) (use assms(3,4) in auto)

lemma ok_stage_menu:
  assumes "ok e" and "stage_menu opts ms sess e = (r, e')" and "o_sinks opts = Some ops"
    and "map_of (e_sessions e) (s_id sess) = Some s" and "s_sink s = s_sink sess" and "s_status s = StatusRunning"
    and "issued (e_seq e) (s_id sess)"
  shows "ok e'"
proof (cases "\<exists>k. s_sink sess = Some k \<and> s_goal sess = GoalPlay \<and> ms_tracks ms \<noteq> []")
  case False
  then have "e' = e" using assms(2) by (auto simp: stage_menu_def split: option.splits if_splits)
  with assms(1) show ?thesis by simp
next
  case True
  then obtain k where k: "s_sink sess = Some k" "s_goal sess = GoalPlay" "ms_tracks ms \<noteq> []" by blast
  let ?f = "\<lambda>s. s\<lparr>s_menu := ms_tracks ms\<rparr>"
  let ?m = "modify_session (s_id sess) ?f e"
  obtain r1 e1 where s: "stage_tracks ops (s_id sess) k (ms_tracks ms) ?m = (r1, e1)" by fastforce
  have "ok ?m" by (rule ok_modify [OF assms(1)]) simp_all
  moreover have "map_of (e_sessions ?m) (s_id sess) = Some (?f s)" using assms(4) by (simp add: modify_session_get)
  ultimately have ok1: "ok e1"
    by (rule ok_stage_tracks [OF _ s]) (use assms(5-7) k(1) in simp_all)
  have "e_sessions e' = e_sessions e1 \<and> e_world e' = e_world e1 \<and> e_seq e' = e_seq e1"
    using assms(2,3) k s by (cases r1) (auto simp: stage_menu_def)
  then show ?thesis using ok_fields [OF ok1] by blast
qed

lemma ok_Start:
  assumes "ok e" and "engine_ok e" and "o_sinks opts = Some ops"
  shows "ok (snd (Start opts res con req now e))"
proof (cases "Start_checks res con req")
  case (Inl err)
  with assms show ?thesis by (simp add: Start_checks_Inl)
next
  case (Inr x)
  obtain ms plan override capSet where x: "x = (ms, plan, override, capSet)" by (cases x) auto
  obtain r e' where S: "Start opts res con req now e = (r, e')" by fastforce
  let ?sid = "session_id (e_seq e + 1)"
  let ?new = "new_session req plan (With (instancePolicy opts) override) capSet now ?sid :: 'k Session"
  let ?e1 = "e\<lparr>e_seq := e_seq e + 1\<rparr>"
  have idle: "\<not> serving (e_world e) ?sid"
    using assms(1) not_issued_next unfolding sinks_ok_def by blast
  have opened: "ok e2 \<and> \<not> serving (e_world e2) ?sid
      \<and> (\<forall>sess k. o1 = Inr sess \<and> s_sink sess = Some k \<longrightarrow> holder k = None \<or> holder k = Some ?sid)"
    if o: "open_sink opts ms ?new ?e1 = (o1, e2)" for o1 e2
  proof -
    obtain q w where n: "op_new ops ?sid (s_context ?new) (ms_tracks ms) (e_world e) = (q, w)" by fastforce
    note law = new_ok [OF n ok_world [OF assms(1)]]
    have e2: "e2 = ?e1\<lparr>e_world := w\<rparr>" using o n assms(3) by (cases q) (simp_all add: open_sink_def)
    have "ok e2"
      using assms(1) law issued_mono unfolding e2 sinks_ok_def by auto
    moreover have "\<not> serving (e_world e2) ?sid" using idle law by (simp add: e2)
    moreover have "o1 = Inr sess \<and> s_sink sess = Some k \<longrightarrow> holder k = None \<or> holder k = Some ?sid" for sess k
      using o n assms(3) law by (cases q) (auto simp: open_sink_def)
    ultimately show ?thesis by blast
  qed
  from Inr [unfolded x] S have "ok e'"
  proof (cases rule: Start_stages)
    case (refused err e2)
    with opened [OF refused(1)] show ?thesis by simp
  next
    case (full sess e2 err)
    with opened [OF full(1)] show ?thesis by simp
  next
    case (started sess e2 e3 r4 e4)
    note op = opened [OF started(1)] and ad = admit_Inr(1) [OF started(2)]
    note o = open_sink_fields [OF started(1)]
    from o(5) obtain k where sess: "sess = ?new\<lparr>s_sink := k\<rparr>" by blast
    have sid: "s_id sess = ?sid" by (simp add: sess)
    have ok3: "ok e3"
    proof (rule ok_insert [of e2 sess])
      show "ok e2" using op by blast
      show "map_of (e_sessions e2) (s_id sess) = None"
        using table_ok_fresh [OF assms(2)] o(1) by (simp add: sid)
      show "\<not> serving (e_world e2) (s_id sess)" using op by (simp add: sid)
      show "holder k = None \<or> holder k = Some (s_id sess)" if "s_sink sess = Some k" for k
        using op that by (simp add: sid)
    qed (simp_all add: ad)
    have ok4: "ok (activate ?sid e3)" unfolding activate_def by (rule ok_modify [OF ok3]) simp_all
    have "ok e4"
    proof (rule ok_stage_menu [OF ok4 started(3) assms(3)])
      show "map_of (e_sessions (activate ?sid e3)) (s_id sess) = Some (sess\<lparr>s_status := StatusRunning\<rparr>)"
        by (simp add: activate_def modify_session_get ad sid)
      show "issued (e_seq (activate ?sid e3)) (s_id sess)"
        using assms(2) o(3) by (auto simp: ad sid issued_def table_ok_def intro!: exI [of _ "e_seq e + 1"])
    qed simp_all
    then show ?thesis using started(5) by (cases r4) (auto intro: ok_fields)
  qed
  with S show ?thesis by simp
qed

lemma ok_step:
  assumes "engine_step opts env e e'" and "ok e" and "engine_ok e" and "o_sinks opts = Some ops"
    and "\<And>w w'. env w w' \<Longrightarrow> okw w \<Longrightarrow> okw w' \<and> (\<forall>s. serving w' s \<longrightarrow> serving w s)"
  shows "ok e'"
  using assms(1)
proof cases
  case (heartbeat sid member now)
  have "ok (modify_session sid (\<lambda>s. s\<lparr>s_lastHeartbeat := now\<rparr>) e)" by (rule ok_modify [OF assms(2)]) simp_all
  with heartbeat assms(2) show ?thesis by (simp add: Heartbeat_def split: option.splits)
next
  case (progress sid percent now)
  have "ok (modify_session sid (\<lambda>s. s\<lparr>s_lastProgress := now\<rparr>) e)" by (rule ok_modify [OF assms(2)]) simp_all
  with progress assms(2) show ?thesis by (simp add: Progress_def split: option.splits)
next
  case (apply_cap con provider account enforceNow)
  then show ?thesis using assms(2,4)
    by (simp add: ApplyAccountCap_def Let_def split_def ok_revoke_where split: sum.splits)
next
  case (world w)
  with assms(2) assms(5) [OF world(2) ok_world [OF assms(2)]] show ?thesis
    unfolding sinks_ok_def by auto
next
  case (start res con req now)
  then show ?thesis using ok_Start [OF assms(2-4)] by simp
qed (use assms(2,4) in \<open>simp_all add: RevokeAllOnAccount_def RevokeOthersOnAccount_def ok_RevokeAccount
    ok_revoke_where ok_Complete ok_sweep\<close>)

lemma reachable_sinks:
  assumes "reachable opts env w0 e" and "o_sinks opts = Some ops" and "okw w0" and "\<And>s. \<not> serving w0 s"
    and "\<And>w w'. env w w' \<Longrightarrow> okw w \<Longrightarrow> okw w' \<and> (\<forall>s. serving w' s \<longrightarrow> serving w s)"
  shows "ok e"
  using assms(1)
proof (induction rule: reachable.induct)
  case new
  then show ?case using assms(3,4) by (simp add: sinks_ok_def New_def)
next
  case (step e e')
  show ?case by (rule ok_step [OF step.hyps(2) step.IH reachable_table_ok [OF step.hyps(1)] assms(2,5)])
qed

end

subsection \<open>Properties over the code's sinks\<close>

text \<open>What may happen to the relay beside the engine: the clock moves, tickets go, random bytes are drawn,
  files change; no ticket appears.\<close>

definition relay_env :: "world \<Rightarrow> world \<Rightarrow> bool" where
  "relay_env w w' \<longleftrightarrow> set (w_tickets w') \<subseteq> set (w_tickets w) \<and> relay_ok w'"

lemma relay_env_law: "relay_env w w' \<Longrightarrow> relay_ok w \<Longrightarrow> relay_ok w' \<and> (\<forall>s. serves w' s \<longrightarrow> serves w s)"
  by (auto simp: relay_env_def serves_def)

lemma reachable_sinks_ok:
  assumes "reachable opts relay_env w0 e" and "o_sinks opts = Some (code_sinks os fs)"
    and "relay_ok w0" and "w_tickets w0 = []"
  shows "sinks_ok serves sink_holder relay_ok e"
  by (rule code.reachable_sinks [OF assms(1-3)]) (use assms(4) relay_env_law in \<open>auto simp: serves_def\<close>)


definition demo_http :: http where
  "demo_http = (\<lambda>_ _. Inr \<lparr>fr_status = 200, fr_header = [], fr_body = ''bytes''\<rparr>)"

lemma demo_relay_ok: "relay_ok demo_world" "w_tickets demo_world = []"
  by (simp_all add: relay_ok_def demo_world_def)

lemma demo_sinks: "o_sinks demo_options = Some (code_sinks kind_os [(''dev'', DeviceFactory True 0)])"
  by (simp add: demo_options_def)

definition demo_later :: "(sink, world) Engine" where
  "demo_later = demo_engine\<lparr>e_world := (e_world demo_engine)\<lparr>w_now := 5\<rparr>\<rparr>"

lemma demo_later_reachable: "reachable demo_options relay_env demo_world demo_later"
proof -
  have "relay_ok (e_world demo_engine)"
    using reachable_sinks_ok [OF demo_engine_reachable demo_sinks demo_relay_ok] by (simp add: sinks_ok_def)
  then have "relay_env (e_world demo_engine) ((e_world demo_engine)\<lparr>w_now := 5\<rparr>)"
    by (simp add: relay_env_def relay_ok_def)
  from reachable.step [OF demo_engine_reachable engine_step.world [where env = relay_env, OF this]]
  show ?thesis by (simp add: demo_later_def)
qed

lemma demo_later_open: "Open demo_http (EncodeToString ''r'') [] (e_world demo_later)
    = Inr \<lparr>fr_status = 200, fr_header = [], fr_body = ''bytes''\<rparr>"
  using demo_start
  by (simp add: Open_def demo_later_def demo_http_def fetchFrom_def defaultGrantTTL_def)


text \<open>The watchdog removes an overdue session without aborting its sink: the engine no longer knows it,
  and each of its relay tokens opens exactly as before the sweep.\<close>

theorem swept_tokens_stay:
  assumes "engine_ok e" and "map_of (e_sessions e) sid = Some s" and "isActive s"
    and "overdue opts (clock sid) s \<noteq> None"
  shows "Get sid (sweep opts clock e) = None
    \<and> Open http tok rng (e_world (sweep opts clock e)) = Open http tok rng (e_world e)"
proof -
  have "sid \<in> s_id ` set (collect_dead opts clock (e_sessions e))"
  proof -
    obtain d where d: "mark opts (clock sid) s = Some d" using assms(3,4) by (auto simp: mark_def)
    then have "d \<in> set (collect_dead opts clock (e_sessions e))"
      using map_of_SomeD [OF assms(2)] by (auto simp: collect_dead_set)
    moreover have "s_id d = sid" using mark_same [OF d] table_ok_session [OF assms(1,2)] by simp
    ultimately show ?thesis by force
  qed
  then show ?thesis by (simp add: Get_def sweep_def fold_bury_sessions)
qed

lemma swept_tokens_stay_witness:
  "Get (session_id 1) (sweep demo_options (\<lambda>_. 16) demo_later) = None
   \<and> Open demo_http (EncodeToString ''r'') [] (e_world (sweep demo_options (\<lambda>_. 16) demo_later))
      = Inr \<lparr>fr_status = 200, fr_header = [], fr_body = ''bytes''\<rparr>"
proof -
  obtain s where s: "map_of (e_sessions demo_engine) (session_id 1) = Some s" "s_status s = StatusRunning"
    "s_goal s = GoalPlay" "s_lastHeartbeat s = 0" using demo_start by blast
  have "isActive s" "overdue demo_options 16 s \<noteq> None"
    using s(2-4) by (simp_all add: isActive_def overdue_def demo_options_def)
  moreover have "map_of (e_sessions demo_later) (session_id 1) = Some s" using s(1) by (simp add: demo_later_def)
  ultimately show ?thesis
    using swept_tokens_stay [OF reachable_table_ok [OF demo_later_reachable], of "session_id 1" s demo_options
        "\<lambda>_. 16" demo_http "EncodeToString ''r''" "[]"] demo_later_open by simp
qed

text \<open>The sink is opened before admission and a refused start does not abort it: a download turned away
  at the member's limit leaves its empty partial file on the disk.\<close>

theorem refused_start_leaves_partial:
  assumes "Start_checks res con req = Inr (ms, plan, override, capSet)"
    and "o_sinks opts = Some (code_sinks os fs)" and "map_of fs (rq_sink req) = Some (DiskFactory dir)"
    and "\<And>path. os_open os path"
    and "fst (Streams (instancePolicy opts)) \<le> int (member_active (rq_member req) e)"
  shows "\<exists>path e'. Start opts res con req now e =
        (Inl (MemberQuota (fst (Streams (instancePolicy opts))) (int (member_active (rq_member req) e))), e')
      \<and> suffix ''.part'' path \<and> map_of (w_files (e_world e')) path = Some []"
proof -
  let ?sid = "session_id (e_seq e + 1)"
  let ?new = "new_session req plan (With (instancePolicy opts) override) capSet now ?sid :: sink Session"
  let ?e1 = "e\<lparr>e_seq := e_seq e + 1\<rparr>"
  obtain d w where n: "Disk_NewSink os dir ?sid (s_context ?new) (e_world e) = (Inr d, w)"
    using assms(4) by (simp only: Disk_NewSink_def Let_def not_True_eq_False if_False)
  then have d: "map_of (w_files w) (ds_tmp d) = Some []" "suffix ''.part'' (ds_tmp d)"
    by (auto simp: Disk_NewSink_def Let_def suffix_def split: if_splits)
  have sink: "dc_sink (s_context ?new) = rq_sink req" by simp
  have o: "open_sink opts ms ?new ?e1 = (Inr (?new\<lparr>s_sink := Some (Disk d)\<rparr>), ?e1\<lparr>e_world := w\<rparr>)"
    using assms(2,3) n by (simp add: open_sink_def code_sinks_def composite_NewSink_def sink)
  have a: "admit (?new\<lparr>s_sink := Some (Disk d)\<rparr>) (fst (Streams (instancePolicy opts)))
      (EffectiveAccountLimit (With (instancePolicy opts) override) capSet) (?e1\<lparr>e_world := w\<rparr>) =
      (Inl (MemberQuota (fst (Streams (instancePolicy opts))) (int (member_active (rq_member req) e))), ?e1\<lparr>e_world := w\<rparr>)"
    using assms(5) by (simp add: admit_def Let_def member_active_def)
  have "Start opts res con req now e =
      (Inl (MemberQuota (fst (Streams (instancePolicy opts))) (int (member_active (rq_member req) e))), ?e1\<lparr>e_world := w\<rparr>)"
    using assms(1) o a by (simp add: Start_def newSessionID_def Let_def)
  with d show ?thesis by (intro exI [of _ "ds_tmp d"] exI [of _ "?e1\<lparr>e_world := w\<rparr>"]) simp
qed

lemma refused_start_leaves_partial_witness:
  "\<exists>path e'. Start (demo_options\<lparr>o_instance := Some [], o_sinks := Some (code_sinks kind_os [(''dev'', DiskFactory ''/data'')])\<rparr>)
       demo_resolver None demo_request 0 (New demo_world) = (Inl (MemberQuota 0 0), e')
     \<and> map_of (w_files (e_world e')) path = Some []"
proof -
  let ?o = "demo_options\<lparr>o_instance := Some [], o_sinks := Some (code_sinks kind_os [(''dev'', DiskFactory ''/data'')])\<rparr>"
  have s: "fst (Streams (instancePolicy ?o)) = 0" by (simp add: instancePolicy_def Streams_def)
  have m: "member_active (rq_member demo_request) (New demo_world :: (sink, world) Engine) = 0"
    by (simp add: member_active_def New_def)
  have sinks: "o_sinks ?o = Some (code_sinks kind_os [(''dev'', DiskFactory ''/data'')])" by simp
  have f: "map_of [(''dev'', DiskFactory ''/data'')] (rq_sink demo_request) = Some (DiskFactory ''/data'')"
    by (simp add: demo_request_def)
  have op: "os_open kind_os path" for path by (simp add: kind_os_def)
  have le: "fst (Streams (instancePolicy ?o)) \<le> int (member_active (rq_member demo_request) (New demo_world :: (sink, world) Engine))"
    unfolding s m by simp
  obtain path e' where "Start ?o demo_resolver None demo_request 0 (New demo_world) =
        (Inl (MemberQuota (fst (Streams (instancePolicy ?o)))
           (int (member_active (rq_member demo_request) (New demo_world :: (sink, world) Engine)))), e')"
      "map_of (w_files (e_world e')) path = Some []"
    using refused_start_leaves_partial [OF demo_checks sinks f op le, of 0] by (elim exE conjE) (rule that)
  then show ?thesis unfolding s m by (intro exI [of _ path] exI [of _ e']) simp
qed

end
