(* ===== verification/Accounts.thy ===== *)
theory Accounts
  imports Store Strconv Utf8 "HOL-Library.Product_Lexorder"
begin

text \<open>
  Linked accounts, \<open>internal/accounts/accounts.go\<close>: a record of each account under
  \<open>account/meta/<id>\<close> in the vault, and the session blob of the account under its bare id.

  The vault is a \<^verbatim>\<open>Store\<close> of byte strings \<^typ>\<open>'b\<close>. \<open>encoding/json\<close> is the value \<^verbatim>\<open>rec_json\<close>: what
  the code relies on is \<open>json_ok\<close>, that a record that was encoded decodes to itself. A time is the
  number of nanoseconds since Go's zero time. The state is the vault, and the steps of a running
  instance are the relation \<open>acc_step\<close>.
\<close>

subsection \<open>Records\<close>

definition StatusLinked :: string where "StatusLinked = ''linked''"
definition StatusExpired :: string where "StatusExpired = ''expired''"
definition VisibilityPrivate :: string where "VisibilityPrivate = ''private''"
definition VisibilityShared :: string where "VisibilityShared = ''shared''"
definition VisibilityPublic :: string where "VisibilityPublic = ''public''"
definition CapChangePolicyDefault :: string where "CapChangePolicyDefault = ''''"
definition CapChangePolicyNewSessionsOnly :: string where "CapChangePolicyNewSessionsOnly = ''new-sessions-only''"
definition CapChangePolicyEnforceNow :: string where "CapChangePolicyEnforceNow = ''enforce-now''"

lemmas visibilities = VisibilityPrivate_def VisibilityShared_def VisibilityPublic_def
lemmas cap_policies = CapChangePolicyDefault_def CapChangePolicyNewSessionsOnly_def CapChangePolicyEnforceNow_def

definition ValidPolicy :: "string \<Rightarrow> bool" where
  "ValidPolicy p \<longleftrightarrow> p \<in> {CapChangePolicyDefault, CapChangePolicyNewSessionsOnly, CapChangePolicyEnforceNow}"

record Record =
  rec_id :: string
  rec_provider :: string
  rec_base_url :: string
  rec_username :: string
  rec_owner :: string
  rec_status :: string
  rec_visibility :: string
  rec_shared_with :: "string list"
  rec_max_streams :: "32 word"
  rec_cap_change :: string
  rec_created_at :: int

datatype acc_error =
    AE_store store_error            \<comment> \<open>the vault's error, wrapped or not: \<open>errors.Is\<close> sees through\<close>
  | AE_required
  | AE_visibility string string
  | AE_members string
  | AE_linked string
  | AE_encode string
  | AE_decode string
  | AE_policy string string

abbreviation ErrNotFound :: acc_error where
  "ErrNotFound \<equiv> AE_store ErrKeyNotFound"

record 'b rec_json =
  rj_marshal :: "Record \<Rightarrow> 'b option"
  rj_unmarshal :: "'b \<Rightarrow> Record option"

definition json_ok :: "'b rec_json \<Rightarrow> bool" where
  "json_ok J \<longleftrightarrow> (\<forall>r b. rj_marshal J r = Some b \<longrightarrow> rj_unmarshal J b = Some r)"

definition metaPrefix :: string where
  "metaPrefix = ''account/meta/''"

definition metaKey :: "string \<Rightarrow> string" where
  "metaKey i = metaPrefix @ i"

lemma metaKey_eq [simp]: "metaKey i = metaKey j \<longleftrightarrow> i = j"
  by (simp add: metaKey_def)

lemma TrimPrefix_metaKey [simp]: "TrimPrefix (metaKey i) metaPrefix = i"
  by (simp add: metaKey_def)

lemma HasPrefix_metaKey [simp]: "HasPrefix (metaKey i) metaPrefix"
  by (simp add: metaKey_def)

definition NewID :: "string option \<Rightarrow> string" where
  "NewID b = (case b of None \<Rightarrow> ''lnk_<rand-failed>'' | Some bs \<Rightarrow> ''lnk_'' @ EncodeToString bs)"

subsection \<open>The members list\<close>

fun canon_loop :: "string list \<Rightarrow> string list \<Rightarrow> string list" where
  "canon_loop seen [] = []"
| "canon_loop seen (u # us) =
     (let v = TrimSpace u
      in if v = [] \<or> v \<in> set seen then canon_loop seen us
         else v # canon_loop (v # seen) us)"

definition canonUsers :: "string list \<Rightarrow> string list" where
  "canonUsers users = sort (canon_loop [] users)"

lemma set_canon_loop: "set (canon_loop seen us) = TrimSpace ` set us - {[]} - set seen"
  by (induction us arbitrary: seen) (auto simp: Let_def)

lemma distinct_canon_loop: "distinct (canon_loop seen us)"
  by (induction us arbitrary: seen) (auto simp: Let_def set_canon_loop)

lemma canonUsers_canonical:
  "set (canonUsers us) = TrimSpace ` set us - {[]}" "distinct (canonUsers us)" "sorted (canonUsers us)"
  by (simp_all add: canonUsers_def set_canon_loop distinct_canon_loop)

lemma canonUsers_set_eq: "set us = set vs \<Longrightarrow> canonUsers us = canonUsers vs"
  by (rule sorted_distinct_set_unique) (simp_all add: canonUsers_canonical)

subsection \<open>Operations\<close>

definition Account_Get :: "'b rec_json \<Rightarrow> 'b Store \<Rightarrow> string \<Rightarrow> acc_error + Record" where
  "Account_Get J s i =
     (case Store_Get s (metaKey i) of
        Inl e \<Rightarrow> Inl (AE_store e)
      | Inr blob \<Rightarrow> (case rj_unmarshal J blob of None \<Rightarrow> Inl (AE_decode i) | Some r \<Rightarrow> Inr r))"

definition put_record :: "'b rec_json \<Rightarrow> 'b Store \<Rightarrow> string \<Rightarrow> Record \<Rightarrow> (acc_error + unit) \<times> 'b Store" where
  "put_record J s i r =
     (case rj_marshal J r of
        None \<Rightarrow> (Inl (AE_encode i), s)
      | Some blob \<Rightarrow>
          (case Store_Put s (metaKey i) blob of
             (Inl e, s') \<Rightarrow> (Inl (AE_store e), s')
           | (Inr _, s') \<Rightarrow> (Inr (), s')))"

text \<open>The checks and defaults of \<open>Add\<close>, before the vault is touched.\<close>

definition Add_record :: "int \<Rightarrow> Record \<Rightarrow> acc_error + Record" where
  "Add_record now r =
     (if rec_id r = [] \<or> rec_provider r = [] \<or> rec_base_url r = [] \<or> rec_username r = [] then Inl AE_required
      else
        let r = (if rec_status r = [] then r\<lparr>rec_status := StatusLinked\<rparr> else r);
            v = (if rec_visibility r = [] then VisibilityPrivate else rec_visibility r)
        in if v \<notin> {VisibilityPrivate, VisibilityShared, VisibilityPublic} then Inl (AE_visibility (rec_id r) v)
           else if v = VisibilityShared \<and> rec_shared_with r = [] then Inl (AE_members (rec_id r))
           else let r = r\<lparr>rec_visibility := v,
                        rec_shared_with := (if v \<noteq> VisibilityShared then [] else canonUsers (rec_shared_with r))\<rparr>
                in Inr (if rec_created_at r = 0 then r\<lparr>rec_created_at := now\<rparr> else r))"

definition Account_Add :: "'b rec_json \<Rightarrow> int \<Rightarrow> Record \<Rightarrow> 'b Store \<Rightarrow> (acc_error + unit) \<times> 'b Store" where
  "Account_Add J now r s =
     (case Add_record now r of
        Inl e \<Rightarrow> (Inl e, s)
      | Inr r' \<Rightarrow>
          (case Account_Get J s (rec_id r') of
             Inr _ \<Rightarrow> (Inl (AE_linked (rec_id r')), s)
           | Inl e \<Rightarrow>
               (if e \<noteq> ErrNotFound then (Inl e, s) else put_record J s (rec_id r') r')))"

definition update_record ::
    "'b rec_json \<Rightarrow> string \<Rightarrow> (Record \<Rightarrow> acc_error + Record) \<Rightarrow> 'b Store \<Rightarrow> (acc_error + unit) \<times> 'b Store" where
  "update_record J i mutate s =
     (case Account_Get J s i of
        Inl e \<Rightarrow> (Inl e, s)
      | Inr r \<Rightarrow> (case mutate r of Inl e \<Rightarrow> (Inl e, s) | Inr r' \<Rightarrow> put_record J s i r'))"

definition SetStatus :: "'b rec_json \<Rightarrow> string \<Rightarrow> string \<Rightarrow> 'b Store \<Rightarrow> (acc_error + unit) \<times> 'b Store" where
  "SetStatus J i st = update_record J i (\<lambda>r. Inr (r\<lparr>rec_status := st\<rparr>))"

definition sharing_of :: "string \<Rightarrow> string \<Rightarrow> string list \<Rightarrow> Record \<Rightarrow> acc_error + Record" where
  "sharing_of i visibility sharedWith r =
     (if visibility = VisibilityPrivate \<or> visibility = VisibilityPublic then
        Inr (r\<lparr>rec_visibility := visibility, rec_shared_with := []\<rparr>)
      else if visibility = VisibilityShared then
        (if sharedWith = [] then Inl (AE_members i)
         else Inr (r\<lparr>rec_visibility := visibility, rec_shared_with := canonUsers sharedWith\<rparr>))
      else Inl (AE_visibility i visibility))"

definition SetSharing ::
    "'b rec_json \<Rightarrow> string \<Rightarrow> string \<Rightarrow> string list \<Rightarrow> 'b Store \<Rightarrow> (acc_error + unit) \<times> 'b Store" where
  "SetSharing J i visibility sharedWith = update_record J i (sharing_of i visibility sharedWith)"

definition SetMaxConcurrentStreams ::
    "'b rec_json \<Rightarrow> string \<Rightarrow> 32 word \<Rightarrow> 'b Store \<Rightarrow> (acc_error + unit) \<times> 'b Store" where
  "SetMaxConcurrentStreams J i n = update_record J i (\<lambda>r. Inr (r\<lparr>rec_max_streams := n\<rparr>))"

definition SetCapChangePolicy ::
    "'b rec_json \<Rightarrow> string \<Rightarrow> string \<Rightarrow> 'b Store \<Rightarrow> (acc_error + unit) \<times> 'b Store" where
  "SetCapChangePolicy J i p s =
     (if \<not> ValidPolicy p then (Inl (AE_policy i p), s)
      else update_record J i (\<lambda>r. Inr (r\<lparr>rec_cap_change := p\<rparr>)) s)"

definition Account_Delete :: "string \<Rightarrow> 'b Store \<Rightarrow> (acc_error + unit) \<times> 'b Store" where
  "Account_Delete i s =
     (case Store_Delete s (metaKey i) of
        (Inl e, s') \<Rightarrow> (Inl (AE_store e), s')
      | (Inr _, s') \<Rightarrow>
          (case Store_Delete s' i of
             (Inl e, s'') \<Rightarrow> (Inl (AE_store e), s'')
           | (Inr _, s'') \<Rightarrow> (Inr (), s'')))"

text \<open>The record listed for a key; one that cannot be read is logged and skipped.\<close>

definition listed_record :: "'b rec_json \<Rightarrow> 'b Store \<Rightarrow> string \<Rightarrow> Record option" where
  "listed_record J s k =
     (case Account_Get J s (TrimPrefix k metaPrefix) of Inl _ \<Rightarrow> None | Inr r \<Rightarrow> Some r)"

definition Account_List :: "'b rec_json \<Rightarrow> 'b Store \<Rightarrow> acc_error + Record list" where
  "Account_List J s =
     (case Store_List s metaPrefix of
        Inl e \<Rightarrow> Inl (AE_store e)
      | Inr ks \<Rightarrow>
          Inr (sort_key (\<lambda>r. (rec_created_at r, rec_id r)) (List.map_filter (listed_record J s) ks)))"

definition Session_Save :: "string \<Rightarrow> 'b \<Rightarrow> 'b Store \<Rightarrow> (acc_error + unit) \<times> 'b Store" where
  "Session_Save i blob s =
     (case Store_Put s i blob of (Inl e, s') \<Rightarrow> (Inl (AE_store e), s') | (Inr _, s') \<Rightarrow> (Inr (), s'))"

definition Session_Load :: "'b Store \<Rightarrow> string \<Rightarrow> acc_error + 'b" where
  "Session_Load s i = map_err AE_store (Store_Get s i)"

subsection \<open>The invariant\<close>

text \<open>
  A record is well formed when it carries the id it is stored under and its members are canonical:
  named only for a shared account, each once, in order and not blank.
\<close>

definition record_ok :: "string \<Rightarrow> Record \<Rightarrow> bool" where
  "record_ok i r \<longleftrightarrow> rec_id r = i \<and> rec_id r \<noteq> [] \<and> rec_provider r \<noteq> [] \<and> rec_base_url r \<noteq> [] \<and> rec_username r \<noteq> []
     \<and> rec_visibility r \<in> {VisibilityPrivate, VisibilityShared, VisibilityPublic}
     \<and> (rec_visibility r \<noteq> VisibilityShared \<longrightarrow> rec_shared_with r = [])
     \<and> sorted (rec_shared_with r) \<and> distinct (rec_shared_with r) \<and> [] \<notin> set (rec_shared_with r)"

definition accounts_ok :: "'b rec_json \<Rightarrow> 'b Store \<Rightarrow> bool" where
  "accounts_ok J s \<longleftrightarrow> Store_ok s
     \<and> (\<forall>i blob. view s (metaKey i) = Some blob \<longrightarrow> (\<exists>r. rj_unmarshal J blob = Some r \<and> record_ok i r))"

lemma accounts_ok_store: "accounts_ok J s \<Longrightarrow> Store_ok s"
  by (simp add: accounts_ok_def)

lemma accounts_ok_Get: "accounts_ok J s \<Longrightarrow> Account_Get J s i = Inr r \<Longrightarrow> record_ok i r"
  by (fastforce simp: accounts_ok_def Account_Get_def store_simps split: option.splits)

lemma accounts_ok_id: "accounts_ok J s \<Longrightarrow> Account_Get J s i = Inr r \<Longrightarrow> rec_id r = i"
  by (drule (1) accounts_ok_Get) (simp add: record_ok_def)

lemma accounts_ok_readable: "accounts_ok J s \<Longrightarrow> Account_Get J s i = Inl e \<Longrightarrow> e = ErrNotFound \<and> view s (metaKey i) = None"
  by (fastforce simp: accounts_ok_def Account_Get_def store_simps split: option.splits)

text \<open>A write of a record, in an open vault: it fails only when the record cannot be encoded.\<close>

lemma put_record_cases:
  assumes "Store_ok s"
  obtains (encode) "put_record J s i r = (Inl (AE_encode i), s)"
  | (written) blob s' where "rj_marshal J r = Some blob" "put_record J s i r = (Inr (), s')" "Store_ok s'"
      "view s' = (view s)(metaKey i \<mapsto> blob)"
proof (cases "rj_marshal J r")
  case None
  then show ?thesis by (auto simp: put_record_def intro: encode)
next
  case (Some blob)
  obtain s' where put: "Store_Put s (metaKey i) blob = (Inr (), s')"
    using kv.put_fst [OF assms, of "metaKey i" blob] by (cases "Store_Put s (metaKey i) blob") auto
  have "Store_ok s'" using kv.put_ok [OF assms, of "metaKey i" blob] put by simp
  moreover have "view s' = (view s)(metaKey i \<mapsto> blob)"
    using view_Put [OF assms, of "metaKey i" blob] put by simp
  ultimately show ?thesis using put Some by (auto simp: put_record_def intro: written)
qed

lemma put_record_ok:
  assumes "accounts_ok J s" and "json_ok J" and "record_ok i r"
  shows "accounts_ok J (snd (put_record J s i r))"
  using accounts_ok_store [OF assms(1)]
proof (cases rule: put_record_cases [where J = J and i = i and r = r])
  case encode
  then show ?thesis using assms(1) by simp
next
  case (written blob s')
  then show ?thesis using assms by (auto simp: accounts_ok_def json_ok_def)
qed

lemma put_record_Get:
  assumes "Store_ok s" and "json_ok J" and "put_record J s i r = (Inr (), s')"
  shows "Store_ok s' \<and> Account_Get J s' i = Inr r \<and> (\<forall>k. k \<noteq> metaKey i \<longrightarrow> view s' k = view s k)"
  using assms(1)
proof (cases rule: put_record_cases [where J = J and i = i and r = r])
  case encode
  then show ?thesis using assms(3) by simp
next
  case (written blob s'')
  then show ?thesis using assms(2,3) by (simp add: Account_Get_def store_simps json_ok_def)
qed

lemma put_record_Inl: "Store_ok s \<Longrightarrow> put_record J s i r = (Inl e, s') \<Longrightarrow> s' = s"
  by (erule put_record_cases [where J = J and i = i and r = r]) auto

lemma Add_record_ok: "Add_record now r = Inr r' \<Longrightarrow> record_ok (rec_id r) r' \<and> rec_id r' = rec_id r"
  unfolding Add_record_def record_ok_def Let_def
  by (auto simp: canonUsers_canonical split: if_splits)

lemma update_record_ok:
  assumes "accounts_ok J s" and "json_ok J" and "\<And>r r'. record_ok i r \<Longrightarrow> mutate r = Inr r' \<Longrightarrow> record_ok i r'"
  shows "accounts_ok J (snd (update_record J i mutate s))"
proof (cases "Account_Get J s i")
  case (Inl e)
  then show ?thesis using assms(1) by (simp add: update_record_def)
next
  case (Inr r)
  then have "mutate r = Inr r' \<Longrightarrow> accounts_ok J (snd (put_record J s i r'))" for r'
    using accounts_ok_Get [OF assms(1)] assms(3) put_record_ok [OF assms(1,2)] by blast
  then show ?thesis using Inr assms(1) by (cases "mutate r") (simp_all add: update_record_def)
qed

lemma Account_Add_ok:
  assumes "accounts_ok J s" and "json_ok J"
  shows "accounts_ok J (snd (Account_Add J now r s))"
proof (cases "Add_record now r")
  case (Inl e)
  then show ?thesis using assms(1) by (simp add: Account_Add_def)
next
  case (Inr r')
  then have "accounts_ok J (snd (put_record J s (rec_id r') r'))"
    using Add_record_ok [OF Inr] put_record_ok [OF assms] by simp
  then show ?thesis using Inr assms(1) by (simp add: Account_Add_def split: sum.split)
qed

lemma Store_Delete_eq: "Store_ok s \<Longrightarrow> Store_Delete s k = (Inr (), snd (Store_Delete s k))"
  using kv.del_fst [of s k] by (simp add: prod_eq_iff)

lemma Store_Put_eq: "Store_ok s \<Longrightarrow> Store_Put s k v = (Inr (), snd (Store_Put s k v))"
  using kv.put_fst [of s k v] by (simp add: prod_eq_iff)

lemma Account_Delete_view:
  assumes "Store_ok s"
  shows "\<exists>s'. Account_Delete i s = (Inr (), s') \<and> Store_ok s' \<and> view s' = (view s)(metaKey i := None, i := None)"
proof -
  let ?s1 = "snd (Store_Delete s (metaKey i))"
  have ok: "Store_ok ?s1" using assms by (rule kv.del_ok)
  have "Account_Delete i s = (Inr (), snd (Store_Delete ?s1 i))"
    unfolding Account_Delete_def
    by (subst Store_Delete_eq [OF assms]) (simp, subst Store_Delete_eq [OF ok], simp)
  with ok assms show ?thesis by (auto simp: store_simps kv.del_ok)
qed

lemma Account_Delete_ok:
  assumes "accounts_ok J s"
  shows "accounts_ok J (snd (Account_Delete i s))"
proof -
  obtain s' where "Account_Delete i s = (Inr (), s')" "Store_ok s'" "view s' = (view s)(metaKey i := None, i := None)"
    using Account_Delete_view [OF accounts_ok_store [OF assms], of i] by blast
  with assms show ?thesis by (auto simp: accounts_ok_def)
qed

lemma Session_Save_view:
  "Store_ok s \<Longrightarrow> \<exists>s'. Session_Save i blob s = (Inr (), s') \<and> Store_ok s' \<and> view s' = (view s)(i \<mapsto> blob)"
  by (subst Session_Save_def, subst Store_Put_eq) (auto simp: store_simps kv.put_ok)

lemma Session_Save_ok:
  assumes "accounts_ok J s" and "\<not> HasPrefix i metaPrefix"
  shows "accounts_ok J (snd (Session_Save i blob s))"
proof -
  obtain s' where s': "Session_Save i blob s = (Inr (), s')" "Store_ok s'" "view s' = (view s)(i \<mapsto> blob)"
    using Session_Save_view [OF accounts_ok_store [OF assms(1)]] by blast
  have "metaKey j \<noteq> i" for j using assms(2) by auto
  with s' assms(1) show ?thesis by (auto simp: accounts_ok_def)
qed

subsection \<open>Running\<close>

text \<open>
  The calls an instance makes. A session is saved under an account id outside the records' key
  family, as minted ids are.
\<close>

inductive acc_step :: "'b rec_json \<Rightarrow> 'b Store \<Rightarrow> 'b Store \<Rightarrow> bool" for J where
  Add: "acc_step J s (snd (Account_Add J now r s))"
| Status: "acc_step J s (snd (SetStatus J i st s))"
| Sharing: "acc_step J s (snd (SetSharing J i v us s))"
| MaxStreams: "acc_step J s (snd (SetMaxConcurrentStreams J i n s))"
| CapChange: "acc_step J s (snd (SetCapChangePolicy J i p s))"
| Delete: "acc_step J s (snd (Account_Delete i s))"
| Save: "\<not> HasPrefix i metaPrefix \<Longrightarrow> acc_step J s (snd (Session_Save i blob s))"

lemma acc_step_ok: "acc_step J s s' \<Longrightarrow> json_ok J \<Longrightarrow> accounts_ok J s \<Longrightarrow> accounts_ok J s'"
proof (induction rule: acc_step.induct)
  case (Sharing s i v us)
  show ?case unfolding SetSharing_def using Sharing.prems(2,1)
    by (rule update_record_ok)
      (auto simp: sharing_of_def record_ok_def canonUsers_canonical visibilities split: if_splits)
next
  case (CapChange s i p)
  then show ?case unfolding SetCapChangePolicy_def
    by (auto intro!: update_record_ok simp: record_ok_def)
qed (auto simp: SetStatus_def SetMaxConcurrentStreams_def record_ok_def
    intro!: Account_Add_ok Account_Delete_ok Session_Save_ok update_record_ok)

lemma acc_reachable_ok: "(acc_step J)\<^sup>*\<^sup>* s s' \<Longrightarrow> json_ok J \<Longrightarrow> accounts_ok J s \<Longrightarrow> accounts_ok J s'"
  by (induction rule: rtranclp_induct) (auto intro: acc_step_ok)

lemma NewID_not_meta: "\<not> HasPrefix (NewID b) metaPrefix"
  by (cases b) (simp_all add: NewID_def HasPrefix_def metaPrefix_def)

subsection \<open>Properties\<close>

lemma Account_Get_view:
  "Store_ok s \<Longrightarrow> Account_Get J s i =
     (case view s (metaKey i) of
        None \<Rightarrow> Inl ErrNotFound
      | Some b \<Rightarrow> (case rj_unmarshal J b of None \<Rightarrow> Inl (AE_decode i) | Some r \<Rightarrow> Inr r))"
  by (simp add: Account_Get_def store_simps split: option.split)

lemma Session_Load_view:
  "Store_ok s \<Longrightarrow> Session_Load s i = (case view s i of None \<Rightarrow> Inl ErrNotFound | Some b \<Rightarrow> Inr b)"
  by (simp add: Session_Load_def store_simps split: option.split)

text \<open>
  The accounts as their users see them: a partial map from ids to records. Each operation on the
  vault is an operation on this map.
\<close>

definition accounts_of :: "'b rec_json \<Rightarrow> 'b Store \<Rightarrow> string \<Rightarrow> Record option" where
  "accounts_of J s i = (case Account_Get J s i of Inl _ \<Rightarrow> None | Inr r \<Rightarrow> Some r)"

definition updates_to :: "'b rec_json \<Rightarrow> 'b Store \<Rightarrow> (acc_error + unit) \<times> 'b Store \<Rightarrow> string \<Rightarrow> acc_error + Record \<Rightarrow> bool" where
  "updates_to J s out i r \<longleftrightarrow>
     (case r of
        Inl e \<Rightarrow> out = (Inl e, s)
      | Inr rec \<Rightarrow>
          if rj_marshal J rec = None then out = (Inl (AE_encode i), s)
          else fst out = Inr () \<and> accounts_of J (snd out) = (accounts_of J s)(i \<mapsto> rec))"

lemma accounts_of_view: "Store_ok s \<Longrightarrow>
    accounts_of J s i = (case view s (metaKey i) of None \<Rightarrow> None | Some b \<Rightarrow> rj_unmarshal J b)"
  by (simp add: accounts_of_def Account_Get_view split: option.split)

lemma put_record_updates:
  assumes "Store_ok s" and "json_ok J"
  shows "updates_to J s (put_record J s i r) i (Inr r)"
  using assms(1)
proof (cases rule: put_record_cases [where J = J and i = i and r = r])
  case encode
  then have "rj_marshal J r = None" using Store_Put_eq [OF assms(1)] by (auto simp: put_record_def split: option.splits prod.splits sum.splits)
  with encode show ?thesis by (simp add: updates_to_def)
next
  case (written blob s')
  then show ?thesis using assms by (auto simp: updates_to_def accounts_of_view json_ok_def fun_eq_iff)
qed

lemma update_record_updates:
  assumes "Store_ok s" and "json_ok J"
  shows "updates_to J s (update_record J i mutate s) i (case Account_Get J s i of Inl e \<Rightarrow> Inl e | Inr r \<Rightarrow> mutate r)"
proof (cases "Account_Get J s i")
  case (Inl e)
  then show ?thesis by (simp add: update_record_def updates_to_def)
next
  case (Inr r)
  then show ?thesis using put_record_updates [OF assms]
    by (cases "mutate r") (simp_all add: update_record_def updates_to_def)
qed

lemma Account_Delete_updates:
  assumes "Store_ok s" and "\<not> HasPrefix i metaPrefix"
  shows "fst (Account_Delete i s) = Inr () \<and> accounts_of J (snd (Account_Delete i s)) = (accounts_of J s)(i := None)"
proof -
  obtain s' where s': "Account_Delete i s = (Inr (), s')" "Store_ok s'" "view s' = (view s)(metaKey i := None, i := None)"
    using Account_Delete_view [OF assms(1)] by blast
  have "metaKey j \<noteq> i" for j using assms(2) by auto
  with s' assms(1) show ?thesis by (simp add: accounts_of_view fun_eq_iff)
qed

lemma Session_Save_updates:
  assumes "Store_ok s" and "\<not> HasPrefix i metaPrefix"
  shows "accounts_of J (snd (Session_Save i b s)) = accounts_of J s \<and> Session_Load (snd (Session_Save i b s)) i = Inr b"
proof -
  obtain s' where s': "Session_Save i b s = (Inr (), s')" "Store_ok s'" "view s' = (view s)(i \<mapsto> b)"
    using Session_Save_view [OF assms(1)] by blast
  have "metaKey j \<noteq> i" for j using assms(2) by auto
  with s' assms(1) show ?thesis by (simp add: accounts_of_view fun_eq_iff Session_Load_view)
qed

lemma listed_record_iff: "listed_record J s k = Some r \<longleftrightarrow> Account_Get J s (TrimPrefix k metaPrefix) = Inr r"
  by (simp add: listed_record_def split: sum.split)

lemma set_map_filter_iff: "y \<in> set (List.map_filter f xs) \<longleftrightarrow> (\<exists>x \<in> set xs. f x = Some y)"
  by (induction xs) (auto simp: List.map_filter_simps split: option.splits)

lemma distinct_map_filter:
  "distinct xs \<Longrightarrow> (\<And>x y z. x \<in> set xs \<Longrightarrow> y \<in> set xs \<Longrightarrow> f x = Some z \<Longrightarrow> f y = Some z \<Longrightarrow> x = y) \<Longrightarrow>
     distinct (List.map_filter f xs)"
  by (induction xs) (auto simp: List.map_filter_simps set_map_filter_iff split: option.splits)

lemma Account_List_set:
  assumes "Store_ok s"
  obtains rs where "Account_List J s = Inr rs" "sorted (map (\<lambda>r. (rec_created_at r, rec_id r)) rs)"
    "\<And>r. r \<in> set rs \<longleftrightarrow> (\<exists>i. Account_Get J s i = Inr r)"
proof -
  obtain ks where ks: "Store_List s metaPrefix = Inr ks" using kv.lst_total [OF assms] by blast
  let ?rs = "sort_key (\<lambda>r. (rec_created_at r, rec_id r)) (List.map_filter (listed_record J s) ks)"
  have "r \<in> set ?rs \<longleftrightarrow> (\<exists>i. Account_Get J s i = Inr r)" for r
  proof
    assume "\<exists>i. Account_Get J s i = Inr r"
    then obtain i where i: "Account_Get J s i = Inr r" by blast
    then obtain b where "view s (metaKey i) = Some b" using assms
      by (auto simp: Account_Get_view split: option.splits)
    then have "metaKey i \<in> set ks" using Store_List_view [OF assms ks] by simp
    moreover have "listed_record J s (metaKey i) = Some r" using i by (simp add: listed_record_iff)
    ultimately show "r \<in> set ?rs" by (auto simp: set_map_filter_iff)
  qed (auto simp: set_map_filter_iff listed_record_iff)
  with ks show thesis by (intro that [of ?rs]) (simp_all add: Account_List_def)
qed

lemma Account_List_distinct:
  assumes "mem_ok s" and "accounts_ok J s" and "Account_List J s = Inr rs"
  shows "distinct rs"
proof -
  obtain ks where ks: "Store_List s metaPrefix = Inr ks"
    using mem.lst_total [OF assms(1)] by blast
  have "x = y" if xy: "x \<in> set ks" "y \<in> set ks" and "listed_record J s x = Some z" "listed_record J s y = Some z" for x y z
  proof -
    have "rec_id z = TrimPrefix x metaPrefix" "rec_id z = TrimPrefix y metaPrefix"
      by (rule accounts_ok_id [OF assms(2) that(3) [unfolded listed_record_iff]], rule accounts_ok_id [OF assms(2) that(4) [unfolded listed_record_iff]])
    moreover have "HasPrefix x metaPrefix" "HasPrefix y metaPrefix"
      using mem.lst_prefix [OF assms(1) ks] xy by auto
    ultimately show ?thesis by (auto elim!: HasPrefixE)
  qed
  then have "distinct (List.map_filter (listed_record J s) ks)"
    using mem.lst_distinct [OF assms(1) ks] by (intro distinct_map_filter) auto
  then show ?thesis using assms(3) ks by (auto simp: Account_List_def)
qed

text \<open>Whatever calls the instance made since its vault was well formed, every record that can be read
  carries the id it is stored under and canonical members; \<open>List\<close> answers exactly the readable
  records, ordered by creation time and id, and over a store with exact prefixes each of them once.\<close>
theorem reachable_accounts_listed:
  assumes "(acc_step J)\<^sup>*\<^sup>* s0 s" and "json_ok J" and "accounts_ok J s0"
  shows "(\<forall>i r. Account_Get J s i = Inr r \<longrightarrow> record_ok i r)
     \<and> (\<exists>rs. Account_List J s = Inr rs \<and> sorted (map (\<lambda>r. (rec_created_at r, rec_id r)) rs)
          \<and> (\<forall>r. r \<in> set rs \<longleftrightarrow> (\<exists>i. Account_Get J s i = Inr r))
          \<and> (mem_ok s \<longrightarrow> distinct rs))"
proof -
  have ok: "accounts_ok J s" using assms by (rule acc_reachable_ok)
  obtain rs where "Account_List J s = Inr rs" "sorted (map (\<lambda>r. (rec_created_at r, rec_id r)) rs)"
    "\<And>r. r \<in> set rs \<longleftrightarrow> (\<exists>i. Account_Get J s i = Inr r)"
    using Account_List_set [OF accounts_ok_store [OF ok]] by blast
  with ok show ?thesis by (blast intro: accounts_ok_Get Account_List_distinct)
qed

text \<open>Linking stores the record with its defaults under a new id and changes no other key of the vault;
  a link that is refused (a field missing, a visibility unknown, an id already linked) changes
  nothing. Unlinking removes the record and the session, and no other key.\<close>
theorem link_unlink_effect:
  assumes "accounts_ok J s" and "json_ok J"
  shows "(\<forall>e s'. Account_Add J now r s = (Inl e, s') \<longrightarrow> s' = s)
     \<and> (\<forall>s'. Account_Add J now r s = (Inr (), s') \<longrightarrow>
          view s (metaKey (rec_id r)) = None
          \<and> (\<exists>r'. Add_record now r = Inr r' \<and> Account_Get J s' (rec_id r) = Inr r')
          \<and> (\<forall>k. k \<noteq> metaKey (rec_id r) \<longrightarrow> view s' k = view s k))
     \<and> (\<exists>s'. Account_Delete i s = (Inr (), s')
          \<and> Account_Get J s' i = Inl ErrNotFound \<and> Session_Load s' i = Inl ErrNotFound
          \<and> (\<forall>k. k \<noteq> metaKey i \<and> k \<noteq> i \<longrightarrow> view s' k = view s k))"
proof -
  note ok = accounts_ok_store [OF assms(1)]
  have "s' = s" if "Account_Add J now r s = (Inl e, s')" for e s'
    using that put_record_Inl [OF ok] by (auto simp: Account_Add_def split: sum.splits if_splits)
  moreover have "view s (metaKey (rec_id r)) = None
      \<and> (\<exists>r'. Add_record now r = Inr r' \<and> Account_Get J s' (rec_id r) = Inr r')
      \<and> (\<forall>k. k \<noteq> metaKey (rec_id r) \<longrightarrow> view s' k = view s k)"
    if added: "Account_Add J now r s = (Inr (), s')" for s'
  proof -
    obtain r' where r': "Add_record now r = Inr r'" using added by (auto simp: Account_Add_def split: sum.splits)
    have i: "rec_id r' = rec_id r" using Add_record_ok [OF r'] by simp
    have none: "Account_Get J s (rec_id r) = Inl ErrNotFound" and put: "put_record J s (rec_id r) r' = (Inr (), s')"
      using added r' i by (auto simp: Account_Add_def split: sum.splits if_splits)
    show ?thesis
      using accounts_ok_readable [OF assms(1) none] put_record_Get [OF ok assms(2) put] r' by blast
  qed
  moreover obtain s' where "Account_Delete i s = (Inr (), s')" "Store_ok s'" "view s' = (view s)(metaKey i := None, i := None)"
    using Account_Delete_view [OF ok] by blast
  then have "\<exists>s'. Account_Delete i s = (Inr (), s')
      \<and> Account_Get J s' i = Inl ErrNotFound \<and> Session_Load s' i = Inl ErrNotFound
      \<and> (\<forall>k. k \<noteq> metaKey i \<and> k \<noteq> i \<longrightarrow> view s' k = view s k)"
    by (intro exI [of _ s']) (simp add: Account_Get_view Session_Load_view)
  ultimately show ?thesis by blast
qed

text \<open>C16: The vault implements a map from account ids to records: every setter replaces the record of its
  account by the mutated one or, on an error, changes nothing; unlinking removes the account from the
  map; saving a session changes no record and is what \<open>Load\<close> answers.\<close>
theorem accounts_refine_map:
  assumes "accounts_ok J s" and "json_ok J" and "\<not> HasPrefix i metaPrefix"
  shows "(let got = Account_Get J s i;
              step = (\<lambda>f. case got of Inl e \<Rightarrow> Inl e | Inr r \<Rightarrow> f r)
          in updates_to J s (SetStatus J i st s) i (step (\<lambda>r. Inr (r\<lparr>rec_status := st\<rparr>)))
           \<and> updates_to J s (SetSharing J i v us s) i (step (sharing_of i v us))
           \<and> updates_to J s (SetMaxConcurrentStreams J i n s) i (step (\<lambda>r. Inr (r\<lparr>rec_max_streams := n\<rparr>)))
           \<and> updates_to J s (SetCapChangePolicy J i p s) i
               (if ValidPolicy p then step (\<lambda>r. Inr (r\<lparr>rec_cap_change := p\<rparr>)) else Inl (AE_policy i p)))
     \<and> fst (Account_Delete i s) = Inr () \<and> accounts_of J (snd (Account_Delete i s)) = (accounts_of J s)(i := None)
     \<and> accounts_of J (snd (Session_Save i b s)) = accounts_of J s \<and> Session_Load (snd (Session_Save i b s)) i = Inr b"
proof -
  note ok = accounts_ok_store [OF assms(1)]
  have "updates_to J s (SetCapChangePolicy J i p s) i
      (if ValidPolicy p then (case Account_Get J s i of Inl e \<Rightarrow> Inl e | Inr r \<Rightarrow> Inr (r\<lparr>rec_cap_change := p\<rparr>)) else Inl (AE_policy i p))"
    using update_record_updates [OF ok assms(2)] by (auto simp: SetCapChangePolicy_def updates_to_def)
  then show ?thesis
    using update_record_updates [OF ok assms(2)] Account_Delete_updates [OF ok assms(3)] Session_Save_updates [OF ok assms(3)]
    by (auto simp: Let_def SetStatus_def SetSharing_def SetMaxConcurrentStreams_def)
qed

text \<open>The members check counts blank names: sharing an account with blank names only succeeds and leaves a
  shared account without members, which \<open>SetSharing\<close> promises to refuse.\<close>
theorem blank_members_shared:
  assumes "accounts_ok J s" and "json_ok J" and "Account_Get J s i = Inr r" and "us \<noteq> []" and "\<forall>u \<in> set us. TrimSpace u = []"
    and "rj_marshal J (r\<lparr>rec_visibility := VisibilityShared, rec_shared_with := []\<rparr>) \<noteq> None"
  shows "\<exists>s'. SetSharing J i VisibilityShared us s = (Inr (), s')
     \<and> Account_Get J s' i = Inr (r\<lparr>rec_visibility := VisibilityShared, rec_shared_with := []\<rparr>)"
proof -
  let ?r = "r\<lparr>rec_visibility := VisibilityShared, rec_shared_with := []\<rparr>"
  note ok = accounts_ok_store [OF assms(1)]
  have "set (canonUsers us) = {}" using assms(5) by (auto simp: canonUsers_canonical)
  then have "SetSharing J i VisibilityShared us s = put_record J s i ?r"
    using assms(3,4) by (simp add: SetSharing_def update_record_def sharing_of_def visibilities)
  moreover have "\<exists>s'. put_record J s i ?r = (Inr (), s')"
    using ok by (rule put_record_cases [where J = J and i = i and r = ?r]) (use assms(6) in \<open>auto simp: put_record_def split: option.splits prod.splits sum.splits\<close>)
  ultimately show ?thesis using put_record_Get [OF ok assms(2)] by fastforce
qed

subsection \<open>Examples\<close>

text \<open>A vault whose byte strings are records and blobs, and a link in it.\<close>

definition typed_json :: "(Record + string) rec_json" where
  "typed_json = \<lparr>rj_marshal = (\<lambda>r. Some (Inl r)), rj_unmarshal = (\<lambda>b. case b of Inl r \<Rightarrow> Some r | Inr _ \<Rightarrow> None)\<rparr>"

lemma typed_json_ok: "json_ok typed_json"
  by (simp add: json_ok_def typed_json_def)

lemma accounts_ok_new: "accounts_ok J NewInMemory"
  by (simp add: accounts_ok_def) (simp add: view_def NewInMemory_def)

definition demo_record :: Record where
  "demo_record = \<lparr>rec_id = ''lnk_01'', rec_provider = ''p'', rec_base_url = ''u'', rec_username = ''n'', rec_owner = ''o'',
     rec_status = [], rec_visibility = [], rec_shared_with = [], rec_max_streams = 0, rec_cap_change = [], rec_created_at = 0\<rparr>"

definition demo_linked :: Record where
  "demo_linked = demo_record\<lparr>rec_status := StatusLinked, rec_visibility := VisibilityPrivate, rec_created_at := 7\<rparr>"

lemma demo_link: "\<exists>s. Account_Add typed_json 7 demo_record NewInMemory = (Inr (), s) \<and> mem_ok s
    \<and> accounts_ok typed_json s \<and> Account_Get typed_json s ''lnk_01'' = Inr demo_linked"
proof -
  let ?s = "snd (Store_Put NewInMemory (metaKey ''lnk_01'') (Inl demo_linked :: Record + string))"
  have "Account_Add typed_json 7 demo_record NewInMemory = (Inr (), ?s)"
    by (simp add: Account_Add_def Add_record_def put_record_def typed_json_def demo_record_def demo_linked_def
        Account_Get_def Store_Get_def Store_Put_def NewInMemory_def visibilities)
  moreover have "accounts_ok typed_json ?s"
    using Account_Add_ok [OF accounts_ok_new typed_json_ok, of 7 demo_record] calculation by simp
  moreover have "mem_ok ?s" by (simp add: mem.put_ok)
  moreover have "Account_Get typed_json ?s ''lnk_01'' = Inr demo_linked"
    by (simp add: Account_Get_def Store_Get_def Store_Put_def NewInMemory_def typed_json_def)
  ultimately show ?thesis by blast
qed

theorem reachable_accounts_listed_witness:
  "\<exists>rs. Account_List typed_json (snd (Account_Add typed_json 7 demo_record NewInMemory)) = Inr rs \<and> demo_linked \<in> set rs"
proof -
  obtain s where s: "Account_Add typed_json 7 demo_record NewInMemory = (Inr (), s)"
    "Account_Get typed_json s ''lnk_01'' = Inr demo_linked" using demo_link by blast
  have "(acc_step typed_json)\<^sup>*\<^sup>* NewInMemory s"
    using acc_step.Add [of typed_json NewInMemory 7 demo_record] s(1) by simp
  then show ?thesis
    using reachable_accounts_listed [OF _ typed_json_ok accounts_ok_new, of s] s by auto
qed

theorem link_unlink_effect_witness:
  "\<exists>s s'. Account_Add typed_json 7 demo_record NewInMemory = (Inr (), s) \<and> Account_Delete ''lnk_01'' s = (Inr (), s')
     \<and> Account_Get typed_json s' ''lnk_01'' = Inl ErrNotFound"
proof -
  obtain s where s: "Account_Add typed_json 7 demo_record NewInMemory = (Inr (), s)" "accounts_ok typed_json s"
    using demo_link by blast
  then show ?thesis
    using link_unlink_effect [OF s(2) typed_json_ok, of 7 demo_record "''lnk_01''"] by blast
qed

theorem accounts_refine_map_witness:
  "\<exists>s. Account_Add typed_json 7 demo_record NewInMemory = (Inr (), s)
     \<and> accounts_of typed_json (snd (SetStatus typed_json ''lnk_01'' StatusExpired s)) ''lnk_01''
        = Some (demo_linked\<lparr>rec_status := StatusExpired\<rparr>)"
proof -
  obtain s where s: "Account_Add typed_json 7 demo_record NewInMemory = (Inr (), s)" "accounts_ok typed_json s"
    "Account_Get typed_json s ''lnk_01'' = Inr demo_linked"
    using demo_link by blast
  have "updates_to typed_json s (SetStatus typed_json ''lnk_01'' StatusExpired s) ''lnk_01''
      (Inr (demo_linked\<lparr>rec_status := StatusExpired\<rparr>))"
    using accounts_refine_map [OF s(2) typed_json_ok, of "''lnk_01''" StatusExpired "[]" "[]" 0 "[]" "Inr []"] s(3)
    by (simp add: HasPrefix_def metaPrefix_def Let_def)
  then show ?thesis using s(1) by (auto simp: updates_to_def typed_json_def)
qed

theorem blank_members_shared_witness:
  "\<exists>s s'. Account_Add typed_json 7 demo_record NewInMemory = (Inr (), s)
     \<and> SetSharing typed_json ''lnk_01'' VisibilityShared ['' ''] s = (Inr (), s')
     \<and> Account_Get typed_json s' ''lnk_01'' = Inr (demo_linked\<lparr>rec_visibility := VisibilityShared, rec_shared_with := []\<rparr>)"
proof -
  obtain s where s: "Account_Add typed_json 7 demo_record NewInMemory = (Inr (), s)" "accounts_ok typed_json s"
    "Account_Get typed_json s ''lnk_01'' = Inr demo_linked"
    using demo_link by blast
  have "TrimSpace '' '' = []"
    by (simp add: TrimSpace_def bytes_def chunks.simps [of "[_]"] DecodeRune_def IsSpace_def unbytes_def)
  then show ?thesis
    using blank_members_shared [OF s(2) typed_json_ok s(3), of "['' '']"] s(1) by (auto simp: typed_json_def)
qed

end
