(* ===== verification/Backoff.thy ===== *)
theory Backoff
  imports "HOL-Library.Word"
begin

text \<open>
  The doubling of a wait in a signed 64-bit integer, as \<open>internal/scheduler\<close> and
  \<open>internal/pacing\<close> both compute it: \<open>base << (failures - 1)\<close>, replaced by the ceiling when the
  result is above it or not positive, which is meant to catch the overflow.

  A shift in Go drops the bits above the width and reads the rest as a signed number. The guard
  does not catch every overflow: the bits that remain may form a small positive number. It does for
  the two bases the program uses, and there the capped shift is the capped power of two.
\<close>

definition shl64 :: "int \<Rightarrow> nat \<Rightarrow> int" where
  "shl64 d n = sint (push_bit n (word_of_int d :: 64 word))"

definition capped_shift :: "int \<Rightarrow> int \<Rightarrow> nat \<Rightarrow> int" where
  "capped_shift base mx failures =
     (let d = shl64 base (failures - 1)
      in if d > mx \<or> d \<le> 0 then mx else d)"

lemma shl64_eq: "shl64 d n = signed_take_bit 63 (d * 2 ^ n)"
  unfolding shl64_def by transfer (simp add: push_bit_eq_mult)

lemma capped_shift_le: "capped_shift base mx n \<le> mx"
  by (simp add: capped_shift_def Let_def)

lemma capped_shift_pos: "0 < mx \<Longrightarrow> 0 < capped_shift base mx n"
  by (simp add: capped_shift_def Let_def)

lemma signed_take_bit_multiple: "signed_take_bit 63 (b * 2 ^ (k + 64)) = (0 :: int)"
proof -
  have eq: "b * 2 ^ (k + 64) = (b * 2 ^ k) * 2 ^ Suc 63" by (simp add: power_add)
  show ?thesis
    unfolding signed_take_bit_eq_take_bit_shift take_bit_eq_mod eq
    by (simp only: add.commute [of "_ * _"] mod_mult_self1) simp
qed

text \<open>Beyond 63 doublings nothing is left; up to there the cases are finitely many.\<close>

lemma capped_shift_by_cases:
  assumes "0 < mx" and "mx < base * 2 ^ 64"
    and "list_all (\<lambda>k. let d = (base * 2 ^ k + 2 ^ 63) mod 2 ^ 64 - 2 ^ 63
           in (if d > mx \<or> d \<le> 0 then mx else d) = min (base * 2 ^ k) mx) [0..<64]"
  shows "capped_shift base mx n = min (base * 2 ^ (n - 1)) mx"
proof (cases "n - 1 < 64")
  case True
  then have "n - 1 \<in> set [0..<64]" by simp
  with assms(3) show ?thesis
    unfolding list_all_iff capped_shift_def shl64_eq signed_take_bit_eq_take_bit_shift take_bit_eq_mod Let_def
    by (simp only: Suc_numeral semiring_norm)
next
  case False
  then obtain k where k: "n - 1 = k + 64" by (metis add.commute le_add_diff_inverse not_less)
  have "0 < base"
  proof (rule ccontr)
    assume "\<not> 0 < base"
    then have "base * 2 ^ 64 \<le> 0" by (intro mult_nonpos_nonneg) auto
    with assms(1,2) show False by linarith
  qed
  then have "base * 2 ^ 64 * 1 \<le> base * 2 ^ 64 * 2 ^ k" by (intro mult_left_mono) auto
  then have "mx < base * 2 ^ (n - 1)" using assms(2) k by (simp add: power_add mult.assoc mult.commute)
  then show ?thesis
    unfolding capped_shift_def shl64_eq k signed_take_bit_multiple by simp
qed

lemma minute_capped:
  "capped_shift 60000000000 86400000000000 n = min (60000000000 * 2 ^ (n - 1)) 86400000000000"
  by (rule capped_shift_by_cases) (simp, simp, simp add: upt_conv_Cons)

lemma second_capped:
  "capped_shift 1000000000 30000000000 n = min (1000000000 * 2 ^ (n - 1)) 30000000000"
  by (rule capped_shift_by_cases) (simp, simp, simp add: upt_conv_Cons)

end
