(* ===== verification/Scheduler.thy ===== *)
theory Scheduler
  imports Prelude Backoff
begin

text \<open>
  Recurring jobs, \<open>internal/scheduler/scheduler.go\<close>: the table of jobs and their workers, and the
  wait a worker sets before it fires again.

  Durations are nanoseconds. The product \<open>float64(d) * jitterFraction\<close> and the random draw are
  arguments: \<open>spread\<close> is the truncated product, of which the code needs \<open>spread_ok\<close>, and \<open>draw n\<close> is
  a number below \<open>n\<close>. A worker is a goroutine; what the table knows of it is whether its context was
  cancelled. \<open>Run\<close> copies the jobs under the lock and then starts the workers one by one, taking the
  lock for each, so that other calls fall between: its jobs still to start are part of the state.
\<close>

subsection \<open>Waits\<close>

definition defaultCadence :: int where "defaultCadence = 6 * 3600 * 1000000000"
definition backoffBase :: int where "backoffBase = 60000000000"
definition backoffMax :: int where "backoffMax = 86400000000000"
definition minWait :: int where "minWait = 1000000000"

lemmas cadence_params = defaultCadence_def backoffBase_def backoffMax_def minWait_def

definition spread_ok :: "(int \<Rightarrow> int) \<Rightarrow> bool" where
  "spread_ok spread \<longleftrightarrow> (\<forall>d. 0 \<le> d \<and> d \<le> 2 ^ 50 \<longrightarrow> 0 \<le> spread d \<and> 10 * spread d \<le> d)"

definition draw_ok :: "(int \<Rightarrow> int) \<Rightarrow> bool" where
  "draw_ok draw \<longleftrightarrow> (\<forall>n > 0. 0 \<le> draw n \<and> draw n < n)"

definition jittered :: "(int \<Rightarrow> int) \<Rightarrow> (int \<Rightarrow> int) \<Rightarrow> int \<Rightarrow> int" where
  "jittered spread draw d =
     (let sp = spread d
      in if sp \<le> 0 then d else d - sp + draw (2 * sp + 1))"

definition backoff :: "(int \<Rightarrow> int) \<Rightarrow> (int \<Rightarrow> int) \<Rightarrow> nat \<Rightarrow> int" where
  "backoff spread draw failures =
     (let d = shl64 backoffBase (failures - 1)
      in if d > backoffMax \<or> d \<le> 0 then backoffMax
         else if d < minWait then minWait
         else jittered spread draw d)"

lemma jittered_bounds:
  assumes "spread_ok spread" and "draw_ok draw" and "0 \<le> d" and "d \<le> 2 ^ 50"
  shows "9 * d \<le> 10 * jittered spread draw d \<and> 10 * jittered spread draw d \<le> 11 * d"
proof -
  have sp: "0 \<le> spread d" "10 * spread d \<le> d" using assms(1,3,4) by (auto simp: spread_ok_def)
  moreover have "0 < spread d \<Longrightarrow> 0 \<le> draw (2 * spread d + 1) \<and> draw (2 * spread d + 1) < 2 * spread d + 1"
    using assms(2) unfolding draw_ok_def by (elim allE [of _ "2 * spread d + 1"]) simp
  ultimately show ?thesis using assms(3) by (auto simp: jittered_def Let_def)
qed

lemma backoff_cases:
  assumes "0 < n"
  shows "backoff spread draw n =
    (if 12 \<le> n then backoffMax else jittered spread draw (backoffBase * 2 ^ (n - 1)))"
proof -
  define d where "d = shl64 backoffBase (n - 1)"
  have c: "(if d > backoffMax \<or> d \<le> 0 then backoffMax else d) = min (backoffBase * 2 ^ (n - 1)) backoffMax"
    using minute_capped [of n] by (simp only: capped_shift_def Let_def d_def backoffBase_def backoffMax_def)
  show ?thesis
  proof (cases "12 \<le> n")
    case True
    then have "(2 :: int) ^ 11 \<le> 2 ^ (n - 1)" by (intro power_increasing) auto
    then have "backoffMax \<le> backoffBase * 2 ^ (n - 1)" by (simp add: cadence_params)
    with c have "d \<ge> backoffMax \<or> d \<le> 0" by (auto split: if_splits)
    moreover have "d \<noteq> backoffMax"
    proof
      assume eq: "d = backoffMax"
      have "n - 1 = 11 + (n - 12)" using True by simp
      then have "(2 :: int) ^ (n - 1) = 2 ^ 11 * 2 ^ (n - 12)" by (simp only: power_add)
      then have "backoffBase * 2 ^ (n - 1) = 2 ^ 20 * (117187500 * 2 ^ (n - 12))" by (simp add: backoffBase_def)
      then have "2 ^ 20 dvd backoffBase * 2 ^ (n - 1) + 2 ^ 63" by (simp add: dvd_add)
      then have "(2 :: int) ^ 20 dvd (backoffBase * 2 ^ (n - 1) + 2 ^ 63) mod 2 ^ 64 - 2 ^ 63"
        by (intro dvd_diff) (simp_all add: dvd_mod_iff)
      then have "2 ^ 20 dvd d"
        unfolding d_def shl64_eq signed_take_bit_eq_take_bit_shift take_bit_eq_mod
        by (simp only: Suc_numeral semiring_norm)
      then show False by (simp add: eq backoffMax_def)
    qed
    ultimately show ?thesis using True unfolding backoff_def d_def [symmetric] Let_def by auto
  next
    case False
    then have "(2 :: int) ^ (n - 1) \<le> 2 ^ 10" by (intro power_increasing) auto
    then have small: "backoffBase * 2 ^ (n - 1) < backoffMax" by (simp add: cadence_params)
    have pos: "backoffBase \<le> backoffBase * 2 ^ (n - 1)" by (simp add: backoffBase_def)
    have "d = backoffBase * 2 ^ (n - 1)" using c small by (auto split: if_splits)
    moreover have "minWait \<le> backoffBase" "0 < minWait" by (simp_all add: cadence_params)
    then have "\<not> backoffBase * 2 ^ (n - 1) < minWait" "\<not> backoffBase * 2 ^ (n - 1) \<le> 0" using pos by linarith+
    ultimately show ?thesis
      unfolding backoff_def d_def [symmetric] Let_def using False small by (simp only: if_False simp_thms) simp
  qed
qed

text \<open>
  One pass of \<open>loop\<close> after the timer fired and the job ran: the count of consecutive failures and the
  wait the timer is reset to.
\<close>

definition loop_pass :: "(int \<Rightarrow> int) \<Rightarrow> int \<Rightarrow> nat \<Rightarrow> bool \<times> (int \<Rightarrow> int) \<Rightarrow> nat \<times> int" where
  "loop_pass spread cadence failures run =
     (case run of (ok, draw) \<Rightarrow>
        if \<not> ok then (failures + 1, backoff spread draw (failures + 1))
        else (0, jittered spread draw cadence))"

text \<open>The count and the wait after a sequence of runs, each with its result and its random draw.\<close>

fun loop_runs :: "(int \<Rightarrow> int) \<Rightarrow> int \<Rightarrow> nat \<times> int \<Rightarrow> (bool \<times> (int \<Rightarrow> int)) list \<Rightarrow> nat \<times> int" where
  "loop_runs spread cadence st [] = st"
| "loop_runs spread cadence st (r # rs) = loop_runs spread cadence (loop_pass spread cadence (fst st) r) rs"

definition loop_start :: "(int \<Rightarrow> int) \<Rightarrow> (int \<Rightarrow> int) \<Rightarrow> int \<Rightarrow> nat \<times> int" where
  "loop_start spread draw cadence = (0, jittered spread draw cadence)"

lemma loop_runs_append: "loop_runs sp c st (rs @ [r]) = loop_pass sp c (fst (loop_runs sp c st rs)) r"
  by (induction rs arbitrary: st) simp_all

text \<open>The number of failures at the end of a history.\<close>

definition trailing_failures :: "(bool \<times> (int \<Rightarrow> int)) list \<Rightarrow> nat" where
  "trailing_failures rs = length (takeWhile (\<lambda>r. \<not> fst r) (rev rs))"

lemma loop_runs_count: "fst (loop_runs sp c (0, w) rs) = trailing_failures rs"
proof (induction rs rule: rev_induct)
  case Nil
  then show ?case by (simp add: trailing_failures_def)
next
  case (snoc r rs)
  then show ?case by (cases r) (simp add: loop_runs_append loop_pass_def trailing_failures_def)
qed

lemma loop_runs_wait: "rs \<noteq> [] \<Longrightarrow> snd (loop_runs sp c (0, w) rs) =
    (if fst (last rs) then jittered sp (snd (last rs)) c else backoff sp (snd (last rs)) (trailing_failures rs))"
proof (induction rs rule: rev_induct)
  case (snoc r rs)
  then show ?case
    by (cases r) (simp add: loop_runs_append loop_pass_def loop_runs_count, simp add: trailing_failures_def)
qed simp

subsection \<open>The table of jobs\<close>

record Job =
  j_name :: string
  j_cadence :: int

record worker =
  wk_job :: Job
  wk_cancelled :: bool

text \<open>
  \<open>sc_running\<close> maps a name to the worker whose cancel function it holds; workers are numbered in the
  order they were started. \<open>sc_starting\<close> holds the jobs \<open>Run\<close> has copied and not started yet.
\<close>

record Scheduler =
  sc_cadence :: int
  sc_jobs :: "Job list"
  sc_started :: bool
  sc_running :: "(string \<times> nat) list"
  sc_workers :: "worker list"
  sc_starting :: "Job list"

definition Scheduler_New :: "int \<Rightarrow> Scheduler" where
  "Scheduler_New cadence =
     \<lparr>sc_cadence = (if cadence = 0 then defaultCadence else cadence), sc_jobs = [], sc_started = False,
      sc_running = [], sc_workers = [], sc_starting = []\<rparr>"

definition job_cadence :: "Scheduler \<Rightarrow> Job \<Rightarrow> int" where
  "job_cadence s j = (if j_cadence j = 0 then sc_cadence s else j_cadence j)"

definition startJob :: "Job \<Rightarrow> Scheduler \<Rightarrow> Scheduler" where
  "startJob j s =
     s\<lparr>sc_running := AList.update (j_name j) (length (sc_workers s)) (sc_running s),
       sc_workers := sc_workers s @ [\<lparr>wk_job = j, wk_cancelled = False\<rparr>]\<rparr>"

definition Register :: "Job \<Rightarrow> Scheduler \<Rightarrow> Scheduler" where
  "Register j s =
     (let s = s\<lparr>sc_jobs := sc_jobs s @ [j]\<rparr>
      in if sc_started s then startJob j s else s)"

definition cancel :: "nat \<Rightarrow> Scheduler \<Rightarrow> Scheduler" where
  "cancel w s = s\<lparr>sc_workers := (sc_workers s)[w := (sc_workers s ! w)\<lparr>wk_cancelled := True\<rparr>]\<rparr>"

fun remove_first :: "string \<Rightarrow> Job list \<Rightarrow> Job list" where
  "remove_first n [] = []"
| "remove_first n (j # js) = (if j_name j = n then js else j # remove_first n js)"

definition Remove :: "string \<Rightarrow> Scheduler \<Rightarrow> Scheduler" where
  "Remove n s =
     (let s1 = (case map_of (sc_running s) n of
                  None \<Rightarrow> s
                | Some w \<Rightarrow> (cancel w s)\<lparr>sc_running := AList.delete n (sc_running s)\<rparr>)
      in s1\<lparr>sc_jobs := remove_first n (sc_jobs s1)\<rparr>)"

definition Run_begin :: "Scheduler \<Rightarrow> Scheduler" where
  "Run_begin s = s\<lparr>sc_started := True, sc_starting := sc_jobs s\<rparr>"

definition Run_next :: "Scheduler \<Rightarrow> Scheduler" where
  "Run_next s =
     (case sc_starting s of
        [] \<Rightarrow> s
      | j # js \<Rightarrow> startJob j (s\<lparr>sc_starting := js\<rparr>))"

text \<open>The jobs that fire: those of the workers that were not cancelled.\<close>

definition live_jobs :: "Scheduler \<Rightarrow> Job list" where
  "live_jobs s = map wk_job (filter (\<lambda>w. \<not> wk_cancelled w) (sc_workers s))"

subsection \<open>The invariant\<close>

text \<open>
  With each name registered once, as the wiring names its jobs after their accounts, the running
  map and the live workers are each other's inverse, and every registered job is live or about to
  be started.
\<close>

definition sched_ok :: "Scheduler \<Rightarrow> bool" where
  "sched_ok s \<longleftrightarrow>
     distinct (map fst (sc_running s)) \<and> distinct (map j_name (sc_jobs s)) \<and> distinct (map j_name (sc_starting s))
     \<and> (\<forall>n w. map_of (sc_running s) n = Some w \<longrightarrow>
          w < length (sc_workers s) \<and> j_name (wk_job (sc_workers s ! w)) = n \<and> \<not> wk_cancelled (sc_workers s ! w))
     \<and> (\<forall>w < length (sc_workers s). \<not> wk_cancelled (sc_workers s ! w) \<longrightarrow>
          map_of (sc_running s) (j_name (wk_job (sc_workers s ! w))) = Some w)
     \<and> (\<forall>j \<in> set (sc_starting s). map_of (sc_running s) (j_name j) = None)
     \<and> (\<not> sc_started s \<longrightarrow> sc_running s = [] \<and> sc_starting s = [])
     \<and> (sc_started s \<longrightarrow> (\<forall>j \<in> set (sc_jobs s). j \<in> set (sc_starting s) \<or> j \<in> set (live_jobs s)))"

definition fresh_name :: "string \<Rightarrow> Scheduler \<Rightarrow> bool" where
  "fresh_name n s \<longleftrightarrow> (\<forall>j \<in> set (sc_jobs s). j_name j \<noteq> n) \<and> (\<forall>j \<in> set (sc_starting s). j_name j \<noteq> n) \<and> map_of (sc_running s) n = None"

inductive sched_step :: "Scheduler \<Rightarrow> Scheduler \<Rightarrow> bool" where
  register: "fresh_name (j_name j) s \<Longrightarrow> sched_step s (Register j s)"
| remove: "sched_step s (Remove n s)"
| run_begin: "\<not> sc_started s \<Longrightarrow> sched_step s (Run_begin s)"
| run_next: "sched_step s (Run_next s)"

lemma live_jobs_iff: "j \<in> set (live_jobs s) \<longleftrightarrow>
    (\<exists>w < length (sc_workers s). \<not> wk_cancelled (sc_workers s ! w) \<and> wk_job (sc_workers s ! w) = j)"
  by (force simp: live_jobs_def in_set_conv_nth)

lemma live_jobs_startJob [simp]: "live_jobs (startJob j s) = live_jobs s @ [j]"
  by (simp add: live_jobs_def startJob_def)

lemma set_remove_first: "distinct (map j_name js) \<Longrightarrow> set (remove_first n js) = {j \<in> set js. j_name j \<noteq> n}"
  by (induction js) (auto simp: rev_image_eqI)

lemma remove_first_distinct: "distinct (map j_name js) \<Longrightarrow> distinct (map j_name (remove_first n js))"
  by (induction js) (auto simp: set_remove_first)

lemma startJob_ok:
  assumes "sched_ok s" and "map_of (sc_running s) (j_name j) = None" and "\<forall>k \<in> set (sc_starting s). j_name k \<noteq> j_name j" and "sc_started s"
  shows "sched_ok (startJob j s)"
proof -
  have old: "w < length (sc_workers s) \<and> j_name (wk_job (sc_workers s ! w)) = n" if "map_of (sc_running s) n = Some w" for n w
    using assms(1) that by (simp add: sched_ok_def)
  show ?thesis
    using assms unfolding sched_ok_def
    by (auto simp: startJob_def live_jobs_def nth_append less_Suc_eq split: if_splits)
qed

lemma Register_ok:
  assumes "sched_ok s" and "fresh_name (j_name j) s"
  shows "sched_ok (Register j s)"
proof (cases "sc_started s")
  case False
  then show ?thesis using assms by (auto simp: Register_def sched_ok_def fresh_name_def live_jobs_def)
next
  case True
  have "sched_ok (startJob j s)" using startJob_ok assms True by (auto simp: fresh_name_def)
  then show ?thesis using assms True
    by (auto simp: Register_def Let_def sched_ok_def startJob_def fresh_name_def live_jobs_def)
qed

lemma Run_next_ok:
  assumes "sched_ok s"
  shows "sched_ok (Run_next s)"
proof (cases "sc_starting s")
  case Nil
  then show ?thesis using assms by (simp add: Run_next_def)
next
  case (Cons j js)
  then have "sc_started s" and fresh: "map_of (sc_running s) (j_name j) = None" "\<forall>k \<in> set js. j_name k \<noteq> j_name j"
    using assms by (auto simp: sched_ok_def rev_image_eqI)
  then show ?thesis using assms Cons unfolding sched_ok_def Run_next_def
    by (auto simp: startJob_def live_jobs_def nth_append less_Suc_eq split: if_splits)
qed

lemma Run_begin_ok: "sched_ok s \<Longrightarrow> \<not> sc_started s \<Longrightarrow> sched_ok (Run_begin s)"
  by (auto simp: sched_ok_def Run_begin_def live_jobs_def)

lemma live_jobs_Remove:
  assumes "sched_ok s"
  shows "set (live_jobs (Remove n s)) = {j \<in> set (live_jobs s). j_name j \<noteq> n}"
proof -
  have inv: "map_of (sc_running s) (j_name (wk_job (sc_workers s ! w))) = Some w"
    if "w < length (sc_workers s)" "\<not> wk_cancelled (sc_workers s ! w)" for w
    using assms that by (simp add: sched_ok_def)
  show ?thesis
  proof (cases "map_of (sc_running s) n")
    case None
    then have same: "live_jobs (Remove n s) = live_jobs s" by (simp add: Remove_def live_jobs_def)
    have "j_name j \<noteq> n" if "j \<in> set (live_jobs s)" for j
      using that inv None by (auto simp: live_jobs_iff)
    then show ?thesis by (auto simp: same)
  next
    case (Some w)
    then have w: "w < length (sc_workers s)" "j_name (wk_job (sc_workers s ! w)) = n"
      using assms by (auto simp: sched_ok_def)
    have workers: "sc_workers (Remove n s) = (sc_workers s)[w := (sc_workers s ! w)\<lparr>wk_cancelled := True\<rparr>]"
      using Some by (simp add: Remove_def cancel_def)
    have other: "j_name (wk_job (sc_workers s ! v)) = n \<longleftrightarrow> v = w" if "v < length (sc_workers s)" "\<not> wk_cancelled (sc_workers s ! v)" for v
      using inv [OF that] Some w(2) by (metis option.inject)
    show ?thesis
    proof (intro set_eqI iffI)
      fix j assume "j \<in> set (live_jobs (Remove n s))"
      then obtain v where v: "v < length (sc_workers s)" "\<not> wk_cancelled (sc_workers (Remove n s) ! v)"
        "wk_job (sc_workers (Remove n s) ! v) = j" unfolding live_jobs_iff workers by auto
      then have "v \<noteq> w" unfolding workers by auto
      with v show "j \<in> {j \<in> set (live_jobs s). j_name j \<noteq> n}"
        unfolding workers using other [of v] by (auto simp: live_jobs_iff)
    next
      fix j assume "j \<in> {j \<in> set (live_jobs s). j_name j \<noteq> n}"
      then obtain v where "v < length (sc_workers s)" "\<not> wk_cancelled (sc_workers s ! v)" "wk_job (sc_workers s ! v) = j" "v \<noteq> w"
        using w(2) by (auto simp: live_jobs_iff)
      then show "j \<in> set (live_jobs (Remove n s))"
        unfolding live_jobs_iff workers by (intro exI [of _ v]) simp
    qed
  qed
qed

lemma Remove_ok:
  assumes "sched_ok s"
  shows "sched_ok (Remove n s)"
proof -
  have rest: "sc_jobs (Remove n s) = remove_first n (sc_jobs s)" "sc_starting (Remove n s) = sc_starting s"
    "sc_started (Remove n s) = sc_started s" "sc_running (Remove n s) = AList.delete n (sc_running s)"
    by (auto simp: Remove_def cancel_def delete_idem rev_image_eqI map_of_eq_None_iff split: option.splits)
  have workers: "sc_workers (Remove n s) =
      (case map_of (sc_running s) n of None \<Rightarrow> sc_workers s
       | Some w \<Rightarrow> (sc_workers s)[w := (sc_workers s ! w)\<lparr>wk_cancelled := True\<rparr>])"
    by (simp add: Remove_def cancel_def split: option.split)
  have inv: "map_of (sc_running s) (j_name (wk_job (sc_workers s ! w))) = Some w"
    if "w < length (sc_workers s)" "\<not> wk_cancelled (sc_workers s ! w)" for w
    using assms that by (simp add: sched_ok_def)
  have run: "w < length (sc_workers s) \<and> j_name (wk_job (sc_workers s ! w)) = k \<and> \<not> wk_cancelled (sc_workers s ! w)"
    if "map_of (sc_running s) k = Some w" for k w
    using assms that by (simp add: sched_ok_def)
  have 1: "w < length (sc_workers (Remove n s)) \<and> j_name (wk_job (sc_workers (Remove n s) ! w)) = k \<and> \<not> wk_cancelled (sc_workers (Remove n s) ! w)"
    if "map_of (sc_running (Remove n s)) k = Some w" for k w
  proof -
    have k: "k \<noteq> n" "map_of (sc_running s) k = Some w" using that by (simp_all add: rest split: if_splits)
    have "v \<noteq> w" if "map_of (sc_running s) n = Some v" for v using run [OF k(2)] run [OF that] k(1) by auto
    with run [OF k(2)] show ?thesis by (simp add: workers split: option.split)
  qed
  have 2: "map_of (sc_running (Remove n s)) (j_name (wk_job (sc_workers (Remove n s) ! w))) = Some w"
    if "w < length (sc_workers (Remove n s))" "\<not> wk_cancelled (sc_workers (Remove n s) ! w)" for w
  proof -
    have w: "w < length (sc_workers s)" "\<not> wk_cancelled (sc_workers s ! w)" "map_of (sc_running s) n \<noteq> Some w"
      "sc_workers (Remove n s) ! w = sc_workers s ! w"
      using that by (cases "map_of (sc_running s) n"; cases "map_of (sc_running s) n = Some w"; simp add: workers nth_list_update split: if_splits)+
    then have "j_name (wk_job (sc_workers s ! w)) \<noteq> n" using inv [OF w(1,2)] by auto
    then show ?thesis using inv [OF w(1,2)] by (simp add: rest w(4))
  qed
  have 3: "\<forall>j \<in> set (remove_first n (sc_jobs s)). sc_started s \<longrightarrow> j \<in> set (sc_starting s) \<or> j \<in> set (live_jobs (Remove n s))"
    unfolding live_jobs_Remove [OF assms] using assms by (auto simp: sched_ok_def set_remove_first)
  show ?thesis
  proof -
    have "distinct (map fst (sc_running (Remove n s)))" "distinct (map j_name (sc_jobs (Remove n s)))"
      "distinct (map j_name (sc_starting (Remove n s)))"
      "\<forall>j \<in> set (sc_starting (Remove n s)). map_of (sc_running (Remove n s)) (j_name j) = None"
      "\<not> sc_started (Remove n s) \<longrightarrow> sc_running (Remove n s) = [] \<and> sc_starting (Remove n s) = []"
      using assms by (simp_all add: rest remove_first_distinct sched_ok_def)
    with 1 2 3 show ?thesis unfolding sched_ok_def rest by blast
  qed
qed

lemma sched_step_ok: "sched_step s s' \<Longrightarrow> sched_ok s \<Longrightarrow> sched_ok s'"
  by (induction rule: sched_step.induct) (auto intro: Register_ok Remove_ok Run_begin_ok Run_next_ok)

lemma Scheduler_New_ok: "sched_ok (Scheduler_New c)"
  by (simp add: sched_ok_def Scheduler_New_def)

lemma sched_reachable_ok: "sched_step\<^sup>*\<^sup>* (Scheduler_New c) s \<Longrightarrow> sched_ok s"
  by (induction rule: rtranclp_induct) (blast intro: sched_step_ok Scheduler_New_ok)+

subsection \<open>Properties\<close>

text \<open>After any history of runs, a worker whose last run failed waits for as many failures as ended the
  history: from 54 to 66 seconds after the first, twice that after each further one with ten percent of
  jitter, and exactly a day from the twelfth on; the overflow guard never lets a shorter wait through.
  A worker whose last run succeeded waits its cadence within ten percent.\<close>
theorem worker_wait_bounds:
  assumes "spread_ok spread" and "\<forall>r \<in> set runs. draw_ok (snd r)" and "runs \<noteq> []" and "0 \<le> cadence" and "cadence \<le> 2 ^ 50"
  shows "let k = trailing_failures runs; wait = snd (loop_runs spread cadence (loop_start spread draw cadence) runs)
     in if fst (last runs) then 9 * cadence \<le> 10 * wait \<and> 10 * wait \<le> 11 * cadence
        else 0 < k \<and> (if 12 \<le> k then wait = backoffMax
               else 9 * (backoffBase * 2 ^ (k - 1)) \<le> 10 * wait \<and> 10 * wait \<le> 11 * (backoffBase * 2 ^ (k - 1)) \<and> wait < backoffMax)"
proof -
  let ?k = "trailing_failures runs" and ?draw = "snd (last runs)"
  have draw: "draw_ok ?draw" using assms(2,3) by simp
  have wait: "snd (loop_runs spread cadence (loop_start spread draw cadence) runs) =
      (if fst (last runs) then jittered spread ?draw cadence else backoff spread ?draw ?k)"
    using loop_runs_wait [OF assms(3)] by (simp add: loop_start_def)
  show ?thesis
  proof (cases "fst (last runs)")
    case True
    then show ?thesis
      using jittered_bounds [OF assms(1) draw assms(4,5)] by (simp only: wait Let_def if_True simp_thms)
  next
    case False
    then have pos: "0 < ?k"
      using assms(3) by (cases runs rule: rev_cases) (auto simp: trailing_failures_def)
    show ?thesis
    proof (cases "12 \<le> ?k")
      case True
      with False pos show ?thesis by (simp add: wait backoff_cases Let_def)
    next
      case small: False
      let ?d = "backoffBase * 2 ^ (?k - 1)"
      have "(2 :: int) ^ (?k - 1) \<le> 2 ^ 10" using small by (intro power_increasing) auto
      then have "0 \<le> ?d" "?d \<le> 2 ^ 50" "11 * ?d < 10 * backoffMax" by (simp_all add: cadence_params)
      then have "9 * ?d \<le> 10 * jittered spread ?draw ?d \<and> 10 * jittered spread ?draw ?d \<le> 11 * ?d \<and> jittered spread ?draw ?d < backoffMax"
        using jittered_bounds [OF assms(1) draw, of ?d] by linarith
      with False small pos show ?thesis by (simp only: wait backoff_cases [OF pos] Let_def if_False simp_thms)
    qed
  qed
qed

text \<open>In every state the scheduler reaches when names are registered once, each registered job is live or about
  to be started, no two live jobs share a name, and removing a name leaves every live job but that one.\<close>
theorem Remove_retires:
  assumes "sched_step\<^sup>*\<^sup>* (Scheduler_New c) s"
  shows "set (live_jobs (Remove n s)) = {j \<in> set (live_jobs s). j_name j \<noteq> n}
     \<and> (\<forall>j \<in> set (live_jobs s). \<forall>k \<in> set (live_jobs s). j_name j = j_name k \<longrightarrow> j = k)
     \<and> (\<forall>j \<in> set (sc_jobs s). sc_started s \<longrightarrow> j \<in> set (sc_starting s) \<or> j \<in> set (live_jobs s))"
proof -
  have ok: "sched_ok s" using assms by (rule sched_reachable_ok)
  have "j = k" if "j \<in> set (live_jobs s)" "k \<in> set (live_jobs s)" "j_name j = j_name k" for j k
  proof -
    from that(1,2) obtain v w where "v < length (sc_workers s)" "\<not> wk_cancelled (sc_workers s ! v)" "wk_job (sc_workers s ! v) = j"
      "w < length (sc_workers s)" "\<not> wk_cancelled (sc_workers s ! w)" "wk_job (sc_workers s ! w) = k"
      unfolding live_jobs_iff by blast
    then have "map_of (sc_running s) (j_name j) = Some v" "map_of (sc_running s) (j_name k) = Some w"
      using ok unfolding sched_ok_def by blast+
    with that(3) \<open>wk_job (sc_workers s ! v) = j\<close> \<open>wk_job (sc_workers s ! w) = k\<close> show ?thesis by simp
  qed
  with ok show ?thesis by (auto simp: live_jobs_Remove sched_ok_def)
qed

text \<open>\<open>Run\<close> copies the jobs before it starts them one by one: a job removed in between is started all the
  same, although it is no longer registered, and fires on its cadence.\<close>
theorem removed_before_start_fires:
  assumes "sc_starting s = j # js"
  shows "j \<in> set (live_jobs (Run_next (Remove (j_name j) s)))"
  using assms by (auto simp: Run_next_def Remove_def cancel_def split: option.splits)

definition demo_sched :: Scheduler where
  "demo_sched = Run_begin (Register \<lparr>j_name = ''a'', j_cadence = 0\<rparr> (Scheduler_New 0))"

lemma demo_sched_reachable: "sched_step\<^sup>*\<^sup>* (Scheduler_New 0) demo_sched"
proof -
  let ?r = "Register \<lparr>j_name = ''a'', j_cadence = 0\<rparr> (Scheduler_New 0)"
  have "sched_step (Scheduler_New 0) ?r"
    by (rule sched_step.register) (simp add: fresh_name_def Scheduler_New_def)
  moreover have "sched_step ?r demo_sched" unfolding demo_sched_def
    by (rule sched_step.run_begin) (simp add: Register_def Scheduler_New_def)
  ultimately show ?thesis by (meson rtranclp.simps)
qed

theorem Remove_retires_witness:
  "set (live_jobs (Remove ''a'' (Run_next demo_sched))) = {}"
proof -
  have "sched_step\<^sup>*\<^sup>* (Scheduler_New 0) (Run_next demo_sched)"
    using demo_sched_reachable sched_step.run_next by (rule rtranclp.rtrancl_into_rtrancl)
  from Remove_retires [OF this, of "''a''"] show ?thesis
    by (simp add: demo_sched_def Register_def Scheduler_New_def Run_begin_def Run_next_def live_jobs_def startJob_def)
qed

theorem removed_before_start_fires_witness:
  "\<lparr>j_name = ''a'', j_cadence = 0\<rparr> \<in> set (live_jobs (Run_next (Remove ''a'' demo_sched)))"
  using removed_before_start_fires [of demo_sched "\<lparr>j_name = ''a'', j_cadence = 0\<rparr>" "[]"]
  by (simp add: demo_sched_def Register_def Scheduler_New_def Run_begin_def)

theorem worker_wait_bounds_witness:
  "snd (loop_runs (\<lambda>d. d div 10) 1000 (loop_start (\<lambda>d. d div 10) (\<lambda>n. 0) 1000) (replicate 70 (False, \<lambda>n. 0))) = backoffMax"
proof -
  let ?runs = "replicate 70 (False, \<lambda>n :: int. 0 :: int)"
  have "trailing_failures ?runs = 70"
    by (simp only: trailing_failures_def rev_replicate takeWhile_replicate) simp
  moreover have "spread_ok (\<lambda>d. d div 10)" by (auto simp: spread_ok_def)
  ultimately show ?thesis
    using worker_wait_bounds [of "\<lambda>d. d div 10" ?runs 1000 "\<lambda>n. 0"]
    by (simp only: Let_def draw_ok_def last_replicate) (simp add: numeral_eq_Suc)
qed

end
