(* ===== verification/Pacing.thy ===== *)
theory Pacing
  imports Policy Backoff
begin

text \<open>
  Request pacing: the limiter of an account, the governor of a provider and the gate that runs a
  request under both (\<open>internal/pacing/pacing.go\<close>), and the paced client that holds them for a slot
  (\<open>internal/slotwiring/pacing.go\<close>).

  Times and durations are nanoseconds; \<open>period rps\<close> stands for \<open>time.Duration(float64(time.Second) / rps)\<close>.
  A call of \<open>Gate\<close> is a machine that takes a step whenever it holds a mutex, its timer fires, its
  context ends or the provider answers; calls that run at the same time interleave these steps. The
  steps of one call are \<open>gate_step\<close>, those of a slot \<open>paced_step\<close>.
\<close>

subsection \<open>Budgets and limiters\<close>

record Budget =
  bd_rps :: go_float
  bd_max_concurrent :: int
  bd_spacing :: int
  bd_retries :: int

definition zero_budget :: Budget where
  "zero_budget = \<lparr>bd_rps = Finite 0, bd_max_concurrent = 0, bd_spacing = 0, bd_retries = 0\<rparr>"

definition positive :: "go_float \<Rightarrow> bool" where
  "positive f = (case f of Finite q \<Rightarrow> 0 < q | PosInf \<Rightarrow> True | NegInf \<Rightarrow> False | NaN \<Rightarrow> False)"

record Limiter =
  lm_budget :: Budget
  lm_inflight :: int
  lm_nextOK :: int

definition NewLimiter :: "Budget \<Rightarrow> Limiter" where
  "NewLimiter b = \<lparr>lm_budget = b, lm_inflight = 0, lm_nextOK = 0\<rparr>"

text \<open>Reserving a slot: the wait until it, and the time the next one may start.\<close>

definition reserve :: "int \<Rightarrow> int \<Rightarrow> int \<Rightarrow> int \<times> int" where
  "reserve now nextOK interval =
     (if now < nextOK then (nextOK - now, nextOK + interval) else (0, now + interval))"

datatype admission = Busy | Admitted | Sleep int

definition limiter_busy :: "Limiter \<Rightarrow> bool" where
  "limiter_busy l \<longleftrightarrow> bd_max_concurrent (lm_budget l) > 0 \<and> lm_inflight l \<ge> bd_max_concurrent (lm_budget l)"

text \<open>One pass of the loop of \<open>Limiter.Allow\<close> up to its wait.\<close>

definition Allow_try :: "(go_float \<Rightarrow> int) \<Rightarrow> int \<Rightarrow> Limiter \<Rightarrow> admission \<times> Limiter" where
  "Allow_try period now l =
     (if limiter_busy l then (Busy, l)
      else
        let b = lm_budget l;
            (wait, nextOK) =
              (if positive (bd_rps b) then reserve now (lm_nextOK l) (period (bd_rps b))
               else if bd_spacing b > 0 then reserve now (lm_nextOK l) (bd_spacing b)
               else (0, lm_nextOK l))
        in if wait \<le> 0 then (Admitted, l\<lparr>lm_nextOK := nextOK, lm_inflight := lm_inflight l + 1\<rparr>)
           else (Sleep wait, l\<lparr>lm_nextOK := nextOK\<rparr>))"

text \<open>The end of the wait in \<open>Limiter.Allow\<close>.\<close>

definition Allow_wake :: "Limiter \<Rightarrow> Limiter" where
  "Allow_wake l = l\<lparr>lm_inflight := lm_inflight l + 1\<rparr>"

definition Release :: "Limiter \<Rightarrow> Limiter" where
  "Release l = (if lm_inflight l > 0 then l\<lparr>lm_inflight := lm_inflight l - 1\<rparr> else l)"

subsection \<open>The governor\<close>

record Governor =
  gv_rps :: go_float
  gv_nextOK :: int
  gv_fails :: nat
  gv_backoff :: int
  gv_base :: int
  gv_max :: int
  gv_waiters :: int

definition NewGovernor :: "go_float \<Rightarrow> int \<Rightarrow> int \<Rightarrow> Governor" where
  "NewGovernor rps base mx =
     \<lparr>gv_rps = rps, gv_nextOK = 0, gv_fails = 0, gv_backoff = 0, gv_base = base, gv_max = mx, gv_waiters = 0\<rparr>"

datatype gov_admission = Degraded int | Pass | Park int

definition Governor_try :: "(go_float \<Rightarrow> int) \<Rightarrow> int \<Rightarrow> Governor \<Rightarrow> gov_admission \<times> Governor" where
  "Governor_try period now g =
     (if now < gv_backoff g then (Degraded (gv_waiters g), g)
      else
        let (wait, nextOK) =
              (if positive (gv_rps g) then reserve now (gv_nextOK g) (period (gv_rps g)) else (0, gv_nextOK g))
        in if wait \<le> 0 then (Pass, g\<lparr>gv_nextOK := nextOK\<rparr>)
           else (Park wait, g\<lparr>gv_nextOK := nextOK, gv_waiters := gv_waiters g + 1\<rparr>))"

definition Governor_wake :: "Governor \<Rightarrow> Governor" where
  "Governor_wake g = g\<lparr>gv_waiters := gv_waiters g - 1\<rparr>"

definition NoteError :: "int \<Rightarrow> Governor \<Rightarrow> Governor" where
  "NoteError now g =
     (let fails = gv_fails g + 1;
          d = shl64 (gv_base g) (fails - 1);
          d = (if d > gv_max g \<or> d \<le> 0 then gv_max g else d)
      in g\<lparr>gv_fails := fails, gv_backoff := now + d\<rparr>)"

lemma NoteError_backoff: "gv_backoff (NoteError now g) = now + capped_shift (gv_base g) (gv_max g) (gv_fails g + 1)"
  by (simp add: NoteError_def capped_shift_def Let_def)

definition NoteSuccess :: "Governor \<Rightarrow> Governor" where
  "NoteSuccess g = g\<lparr>gv_fails := 0, gv_backoff := 0\<rparr>"

subsection \<open>The gate\<close>

datatype call_error = Canceled | DeadlineExceeded | ProviderError string

datatype gate_error =
    ContextDone
  | BusyError int
  | CallFailed call_error
  | ExhaustedRetries int "call_error option"

text \<open>
  Where a call of \<open>Gate\<close> is; the number is the attempt, and the time that of its timer. It returns
  \<^const>\<open>None\<close> for a nil error.
\<close>

datatype pc =
    LimiterAllow int | LimiterSleep int int
  | GovernorAllow int | GovernorPark int int
  | Calling int | Noting int "call_error option"
  | Returned "gate_error option"

datatype event = At int | CtxDone | Return "call_error option"

definition attempt_at :: "Budget \<Rightarrow> int \<Rightarrow> call_error option \<Rightarrow> pc" where
  "attempt_at b k lst =
     (if k \<le> bd_retries b then LimiterAllow k else Returned (Some (ExhaustedRetries (bd_retries b) lst)))"

fun gate_step :: "(go_float \<Rightarrow> int) \<Rightarrow> Budget \<Rightarrow> event \<Rightarrow> pc \<times> Limiter \<times> Governor \<Rightarrow> (pc \<times> Limiter \<times> Governor) option" where
  "gate_step period b (At now) (LimiterAllow k, l, g) =
     (case Allow_try period now l of
        (Busy, l') \<Rightarrow> Some (LimiterAllow k, l', g)
      | (Admitted, l') \<Rightarrow> Some (GovernorAllow k, l', g)
      | (Sleep w, l') \<Rightarrow> Some (LimiterSleep k (now + w), l', g))"
| "gate_step period b CtxDone (LimiterAllow k, l, g) =
     (if limiter_busy l then Some (Returned (Some ContextDone), l, g) else None)"
| "gate_step period b (At now) (LimiterSleep k t, l, g) =
     (if t \<le> now then Some (GovernorAllow k, Allow_wake l, g) else None)"
| "gate_step period b CtxDone (LimiterSleep k t, l, g) = Some (Returned (Some ContextDone), l, g)"
| "gate_step period b (At now) (GovernorAllow k, l, g) =
     (case Governor_try period now g of
        (Degraded p, g') \<Rightarrow> Some (Returned (Some (BusyError p)), Release l, g')
      | (Pass, g') \<Rightarrow> Some (Calling k, l, g')
      | (Park w, g') \<Rightarrow> Some (GovernorPark k (now + w), l, g'))"
| "gate_step period b (At now) (GovernorPark k t, l, g) =
     (if t \<le> now then Some (Calling k, l, Governor_wake g) else None)"
| "gate_step period b CtxDone (GovernorPark k t, l, g) =
     Some (Returned (Some ContextDone), Release l, Governor_wake g)"
| "gate_step period b (Return r) (Calling k, l, g) = Some (Noting k r, Release l, g)"
| "gate_step period b (At now) (Noting k r, l, g) =
     (case r of
        None \<Rightarrow> Some (Returned None, l, NoteSuccess g)
      | Some e \<Rightarrow>
          Some (if e = Canceled \<or> e = DeadlineExceeded then Returned (Some (CallFailed e))
                else attempt_at b (k + 1) (Some e), l, NoteError now g))"
| "gate_step period b _ _ = None"

definition gate_start :: "Budget \<Rightarrow> pc" where
  "gate_start b = attempt_at b 0 None"

text \<open>A run of one call that no other call touches.\<close>

fun gate_run :: "(go_float \<Rightarrow> int) \<Rightarrow> Budget \<Rightarrow> event list \<Rightarrow> pc \<times> Limiter \<times> Governor \<Rightarrow> (pc \<times> Limiter \<times> Governor) option" where
  "gate_run period b [] st = Some st"
| "gate_run period b (ev # evs) st =
     (case gate_step period b ev st of None \<Rightarrow> None | Some st' \<Rightarrow> gate_run period b evs st')"

subsection \<open>Spacing\<close>

lemma reserve_bounds:
  "reserve now n iv = (w, n') \<Longrightarrow> 0 \<le> w \<and> n \<le> now + w \<and> n' = now + w + iv"
  by (auto simp: reserve_def split: if_splits)

text \<open>
  The start times that a governor grants over a sequence of events: a request at a time, an error, a
  success, or the end of a wait.
\<close>

datatype gov_event = Ask int | Err int | Success | Wake

fun gov_grants :: "(go_float \<Rightarrow> int) \<Rightarrow> gov_event list \<Rightarrow> Governor \<Rightarrow> int list" where
  "gov_grants period [] g = []"
| "gov_grants period (Ask now # evs) g =
     (case Governor_try period now g of
        (Degraded _, g') \<Rightarrow> gov_grants period evs g'
      | (Pass, g') \<Rightarrow> now # gov_grants period evs g'
      | (Park w, g') \<Rightarrow> (now + w) # gov_grants period evs g')"
| "gov_grants period (Err now # evs) g = gov_grants period evs (NoteError now g)"
| "gov_grants period (Success # evs) g = gov_grants period evs (NoteSuccess g)"
| "gov_grants period (Wake # evs) g = gov_grants period evs (Governor_wake g)"

datatype lim_event = LAsk int | LWake | LRelease

fun lim_grants :: "(go_float \<Rightarrow> int) \<Rightarrow> lim_event list \<Rightarrow> Limiter \<Rightarrow> int list" where
  "lim_grants period [] l = []"
| "lim_grants period (LAsk now # evs) l =
     (case Allow_try period now l of
        (Busy, l') \<Rightarrow> lim_grants period evs l'
      | (Admitted, l') \<Rightarrow> now # lim_grants period evs l'
      | (Sleep w, l') \<Rightarrow> (now + w) # lim_grants period evs l')"
| "lim_grants period (LWake # evs) l = lim_grants period evs (Allow_wake l)"
| "lim_grants period (LRelease # evs) l = lim_grants period evs (Release l)"

definition lim_interval :: "(go_float \<Rightarrow> int) \<Rightarrow> Budget \<Rightarrow> int" where
  "lim_interval period b = (if positive (bd_rps b) then period (bd_rps b) else bd_spacing b)"

lemma Governor_try_cases:
  assumes "positive (gv_rps g)"
  obtains (degraded) p where "Governor_try period now g = (Degraded p, g)"
  | (granted) w a g' where "Governor_try period now g = (a, g')" "a = Pass \<and> w = 0 \<or> a = Park w" "gv_nextOK g \<le> now + w"
      "gv_nextOK g' = now + w + period (gv_rps g)" "gv_rps g' = gv_rps g"
proof (cases "now < gv_backoff g")
  case True
  then show ?thesis by (intro degraded) (simp add: Governor_try_def)
next
  case False
  obtain w n' where r: "reserve now (gv_nextOK g) (period (gv_rps g)) = (w, n')" by fastforce
  show ?thesis
  proof (cases "w \<le> 0")
    case True
    with False r assms reserve_bounds [OF r] show ?thesis
      by (intro granted [of Pass "g\<lparr>gv_nextOK := n'\<rparr>" 0]) (simp_all add: Governor_try_def)
  next
    case wait: False
    with False r assms reserve_bounds [OF r] show ?thesis
      by (intro granted [of "Park w" "g\<lparr>gv_nextOK := n', gv_waiters := gv_waiters g + 1\<rparr>" w]) (simp_all add: Governor_try_def)
  qed
qed

lemma gov_grants_spaced:
  assumes "positive (gv_rps g)" and "0 \<le> period (gv_rps g)"
  shows "(\<forall>x \<in> set (gov_grants period evs g). gv_nextOK g \<le> x)
     \<and> sorted_wrt (\<lambda>x y. x + period (gv_rps g) \<le> y) (gov_grants period evs g)"
  using assms
proof (induction evs arbitrary: g)
  case Nil
  then show ?case by simp
next
  case (Cons ev evs)
  show ?case
  proof (cases ev)
    case (Ask now)
    show ?thesis using Cons.prems(1)
    proof (cases rule: Governor_try_cases [where period = period and now = now])
      case (degraded p)
      then show ?thesis using Cons.IH [OF Cons.prems] by (simp add: Ask)
    next
      case (granted w a g')
      have "\<forall>x \<in> set (gov_grants period evs g'). now + w + period (gv_rps g) \<le> x"
        "sorted_wrt (\<lambda>x y. x + period (gv_rps g) \<le> y) (gov_grants period evs g')"
        using Cons.IH [of g'] Cons.prems granted by simp_all
      with granted Cons.prems(2) show ?thesis by (fastforce simp: Ask)
    qed
  next
    case (Err now)
    then show ?thesis using Cons.IH [of "NoteError now g"] Cons.prems by (simp add: NoteError_def Let_def)
  next
    case Success
    then show ?thesis using Cons.IH [of "NoteSuccess g"] Cons.prems by (simp add: NoteSuccess_def)
  next
    case Wake
    then show ?thesis using Cons.IH [of "Governor_wake g"] Cons.prems by (simp add: Governor_wake_def)
  qed
qed

lemma Allow_try_cases:
  assumes "positive (bd_rps (lm_budget l)) \<or> bd_spacing (lm_budget l) > 0"
  obtains (busy) "Allow_try period now l = (Busy, l)"
  | (granted) w a l' where "Allow_try period now l = (a, l')" "a = Admitted \<and> w = 0 \<or> a = Sleep w" "lm_nextOK l \<le> now + w"
      "lm_nextOK l' = now + w + lim_interval period (lm_budget l)" "lm_budget l' = lm_budget l"
proof (cases "limiter_busy l")
  case True
  then show ?thesis by (intro busy) (simp add: Allow_try_def)
next
  case False
  obtain w n' where r: "reserve now (lm_nextOK l) (lim_interval period (lm_budget l)) = (w, n')" by fastforce
  have step: "Allow_try period now l =
      (if w \<le> 0 then (Admitted, l\<lparr>lm_nextOK := n', lm_inflight := lm_inflight l + 1\<rparr>) else (Sleep w, l\<lparr>lm_nextOK := n'\<rparr>))"
    using False r assms by (auto simp: Allow_try_def lim_interval_def Let_def split: if_splits)
  show ?thesis
  proof (cases "w \<le> 0")
    case True
    with step reserve_bounds [OF r] show ?thesis
      by (intro granted [of Admitted "l\<lparr>lm_nextOK := n', lm_inflight := lm_inflight l + 1\<rparr>" 0]) simp_all
  next
    case wait: False
    with step reserve_bounds [OF r] show ?thesis by (intro granted [of "Sleep w" "l\<lparr>lm_nextOK := n'\<rparr>" w]) simp_all
  qed
qed

lemma lim_grants_spaced:
  assumes "positive (bd_rps (lm_budget l)) \<or> bd_spacing (lm_budget l) > 0" and "0 \<le> lim_interval period (lm_budget l)"
  shows "(\<forall>x \<in> set (lim_grants period evs l). lm_nextOK l \<le> x)
     \<and> sorted_wrt (\<lambda>x y. x + lim_interval period (lm_budget l) \<le> y) (lim_grants period evs l)"
  using assms
proof (induction evs arbitrary: l)
  case Nil
  then show ?case by simp
next
  case (Cons ev evs)
  show ?case
  proof (cases ev)
    case (LAsk now)
    show ?thesis using Cons.prems(1)
    proof (cases rule: Allow_try_cases [where period = period and now = now])
      case busy
      then show ?thesis using Cons.IH [OF Cons.prems] by (simp add: LAsk)
    next
      case (granted w a l')
      have "\<forall>x \<in> set (lim_grants period evs l'). now + w + lim_interval period (lm_budget l) \<le> x"
        "sorted_wrt (\<lambda>x y. x + lim_interval period (lm_budget l) \<le> y) (lim_grants period evs l')"
        using Cons.IH [of l'] Cons.prems granted by simp_all
      with granted Cons.prems(2) show ?thesis by (fastforce simp: LAsk)
    qed
  next
    case LWake
    then show ?thesis using Cons.IH [of "Allow_wake l"] Cons.prems by (simp add: Allow_wake_def)
  next
    case LRelease
    then show ?thesis using Cons.IH [of "Release l"] Cons.prems by (cases "0 < lm_inflight l") (simp_all add: Release_def)
  qed
qed

subsection \<open>The steps of one call\<close>

text \<open>
  Every step but a poll of a busy limiter lowers \<open>rank\<close>, and a call that has not returned can always
  take such a step: it returns.
\<close>

fun rank :: "Budget \<Rightarrow> pc \<Rightarrow> nat" where
  "rank b (LimiterAllow k) = 6 * nat (bd_retries b - k) + 6"
| "rank b (LimiterSleep k t) = 6 * nat (bd_retries b - k) + 5"
| "rank b (GovernorAllow k) = 6 * nat (bd_retries b - k) + 4"
| "rank b (GovernorPark k t) = 6 * nat (bd_retries b - k) + 3"
| "rank b (Calling k) = 6 * nat (bd_retries b - k) + 2"
| "rank b (Noting k r) = 6 * nat (bd_retries b - k) + 1"
| "rank b (Returned r) = 0"

lemma rank_attempt: "rank b (attempt_at b (k + 1) e) \<le> 6 * nat (bd_retries b - k)"
  by (auto simp: attempt_at_def)

lemma gate_step_rank:
  assumes "gate_step period b ev (p, l, g) = Some (p', l', g')"
  shows "(p', l', g') = (p, l, g) \<and> limiter_busy l \<or> rank b p' < rank b p"
proof -
  have again: "rank b (attempt_at b (k + 1) e) < 6 * nat (bd_retries b - k) + 1" for k e
    using rank_attempt [of b k e] by linarith
  show ?thesis
    using assms again
    by (cases "(period, b, ev, p, l, g)" rule: gate_step.cases)
      (auto simp: Allow_try_def Let_def split: if_splits option.splits admission.splits gov_admission.splits prod.splits)
qed

text \<open>The steps of a run that change where the call is, and the calls it makes to the provider.\<close>

fun gate_moves :: "(go_float \<Rightarrow> int) \<Rightarrow> Budget \<Rightarrow> event list \<Rightarrow> pc \<times> Limiter \<times> Governor \<Rightarrow> nat" where
  "gate_moves period b [] st = 0"
| "gate_moves period b (ev # evs) st =
     (case gate_step period b ev st of
        None \<Rightarrow> 0
      | Some st' \<Rightarrow> (if fst st' = fst st then 0 else 1) + gate_moves period b evs st')"

lemma gate_moves_rank: "gate_moves period b evs st \<le> rank b (fst st)"
proof (induction evs arbitrary: st)
  case Nil
  then show ?case by simp
next
  case (Cons ev evs)
  obtain p l g where st: "st = (p, l, g)" by (metis surj_pair)
  show ?case
  proof (cases "gate_step period b ev st")
    case None
    then show ?thesis by simp
  next
    case (Some st')
    obtain p' l' g' where st': "st' = (p', l', g')" by (metis surj_pair)
    from gate_step_rank [of period b ev p l g p' l' g'] Some Cons.IH [of st'] show ?thesis
      by (auto simp: st st')
  qed
qed

fun attempt_of :: "pc \<Rightarrow> int option" where
  "attempt_of (LimiterAllow k) = Some k"
| "attempt_of (LimiterSleep k t) = Some k"
| "attempt_of (GovernorAllow k) = Some k"
| "attempt_of (GovernorPark k t) = Some k"
| "attempt_of (Calling k) = Some k"
| "attempt_of (Noting k r) = Some (k + 1)"
| "attempt_of (Returned r) = None"

definition provider_calls :: "event list \<Rightarrow> nat" where
  "provider_calls evs = length (filter (\<lambda>ev. case ev of Return _ \<Rightarrow> True | _ \<Rightarrow> False) evs)"

definition calls_left :: "Budget \<Rightarrow> pc \<Rightarrow> nat" where
  "calls_left b p = (case attempt_of p of None \<Rightarrow> 0 | Some k \<Rightarrow> nat (bd_retries b + 1 - k))"

lemma gate_step_calls:
  assumes "gate_step period b ev (p, l, g) = Some (p', l', g')" and "\<forall>k. p = Calling k \<longrightarrow> k \<le> bd_retries b"
  shows "provider_calls [ev] + calls_left b p' \<le> calls_left b p"
  using assms
  by (cases "(period, b, ev, p, l, g)" rule: gate_step.cases)
    (auto simp: calls_left_def provider_calls_def attempt_at_def
      split: if_splits option.splits admission.splits gov_admission.splits prod.splits)

definition within_retries :: "Budget \<Rightarrow> pc \<Rightarrow> bool" where
  "within_retries b p \<longleftrightarrow> (case p of Noting k _ \<Rightarrow> k \<le> bd_retries b | _ \<Rightarrow> (\<forall>k. attempt_of p = Some k \<longrightarrow> k \<le> bd_retries b))"

lemma within_attempt: "within_retries b (attempt_at b k e)"
  by (simp add: within_retries_def attempt_at_def)

lemma gate_step_within:
  assumes "gate_step period b ev (p, l, g) = Some (p', l', g')" and "within_retries b p"
  shows "within_retries b p'"
proof -
  have ret: "within_retries b (Returned r)" for r by (simp add: within_retries_def)
  show ?thesis using assms within_attempt ret
    by (cases "(period, b, ev, p, l, g)" rule: gate_step.cases)
      (auto simp: within_retries_def split: if_splits option.splits admission.splits gov_admission.splits prod.splits)
qed

lemma gate_run_calls:
  "gate_run period b evs (p, l, g) = Some st' \<Longrightarrow> within_retries b p \<Longrightarrow>
     provider_calls evs + calls_left b (fst st') \<le> calls_left b p"
proof (induction evs arbitrary: p l g)
  case Nil
  then show ?case by (auto simp: provider_calls_def)
next
  case (Cons ev evs)
  then obtain p1 l1 g1 where s: "gate_step period b ev (p, l, g) = Some (p1, l1, g1)" "gate_run period b evs (p1, l1, g1) = Some st'"
    by (auto split: option.splits)
  have "\<forall>k. p = Calling k \<longrightarrow> k \<le> bd_retries b" using Cons.prems(2) by (auto simp: within_retries_def)
  from gate_step_calls [OF s(1) this] Cons.IH [OF s(2) gate_step_within [OF s(1) Cons.prems(2)]] show ?case
    by (simp add: provider_calls_def split: if_splits)
qed

lemma gate_progress:
  assumes "\<nexists>r. p = Returned r"
  shows "\<exists>ev st'. gate_step period b ev (p, l, g) = Some st' \<and> fst st' \<noteq> p"
proof (cases p)
  case (LimiterAllow k)
  show ?thesis
  proof (cases "limiter_busy l")
    case True
    then show ?thesis by (intro exI [of _ CtxDone]) (simp add: LimiterAllow)
  next
    case False
    then show ?thesis
      by (intro exI [of _ "At 0"]) (auto simp: LimiterAllow Allow_try_def Let_def split: prod.split)
  qed
next
  case (LimiterSleep k t)
  then show ?thesis by (intro exI [of _ "At t"]) simp
next
  case (GovernorAllow k)
  then show ?thesis
    by (intro exI [of _ "At 0"]) (auto split: prod.split gov_admission.split)
next
  case (GovernorPark k t)
  then show ?thesis by (intro exI [of _ "At t"]) simp
next
  case (Calling k)
  then show ?thesis by (intro exI [of _ "Return None"]) simp
next
  case (Noting k r)
  then show ?thesis by (intro exI [of _ "At 0"]) (auto simp: attempt_at_def split: option.split)
qed (use assms in simp)

subsection \<open>The paced client\<close>

text \<open>
  A slot's client: limiters and budgets by account, one governor, and the gate calls under way. A
  call holds the limiter that was the account's when it began, which nothing replaces.
\<close>

record call =
  ca_account :: string
  ca_budget :: Budget
  ca_pc :: pc

record pacedClient =
  pa_byAccount :: "(string \<times> Limiter) list"
  pa_budgetAccount :: "(string \<times> Budget) list"
  pa_governor :: Governor
  pa_calls :: "call list"

definition paced_limiter :: "string \<Rightarrow> pacedClient \<Rightarrow> Limiter \<times> pacedClient" where
  "paced_limiter a p =
     (case map_of (pa_byAccount p) a of
        Some l \<Rightarrow> (l, p)
      | None \<Rightarrow>
          let l = NewLimiter (case map_of (pa_budgetAccount p) a of Some b \<Rightarrow> b | None \<Rightarrow> zero_budget)
          in (l, p\<lparr>pa_byAccount := AList.update a l (pa_byAccount p)\<rparr>))"

definition paced_budget :: "string \<Rightarrow> pacedClient \<Rightarrow> Budget" where
  "paced_budget a p = (case map_of (pa_budgetAccount p) a of Some b \<Rightarrow> b | None \<Rightarrow> zero_budget)"

definition setBudget :: "string \<Rightarrow> Budget \<Rightarrow> pacedClient \<Rightarrow> pacedClient" where
  "setBudget a b p = p\<lparr>pa_budgetAccount := AList.update a b (pa_budgetAccount p)\<rparr>"

text \<open>A request for an account: \<open>pacing.Gate(ctx, p.limiter(id), p.governor, p.budget(id), fn)\<close>.\<close>

definition begin_call :: "string \<Rightarrow> pacedClient \<Rightarrow> pacedClient" where
  "begin_call a p =
     (let p' = snd (paced_limiter a p); b = paced_budget a p'
      in p'\<lparr>pa_calls := pa_calls p' @ [\<lparr>ca_account = a, ca_budget = b, ca_pc = gate_start b\<rparr>]\<rparr>)"

definition call_step :: "(go_float \<Rightarrow> int) \<Rightarrow> nat \<Rightarrow> event \<Rightarrow> pacedClient \<Rightarrow> pacedClient option" where
  "call_step period i ev p =
     (if i \<ge> length (pa_calls p) then None
      else
        let c = pa_calls p ! i
        in (case map_of (pa_byAccount p) (ca_account c) of
              None \<Rightarrow> None
            | Some l \<Rightarrow>
                (case gate_step period (ca_budget c) ev (ca_pc c, l, pa_governor p) of
                   None \<Rightarrow> None
                 | Some (q, l', g') \<Rightarrow>
                     Some (p\<lparr>pa_byAccount := AList.update (ca_account c) l' (pa_byAccount p), pa_governor := g',
                             pa_calls := (pa_calls p)[i := c\<lparr>ca_pc := q\<rparr>]\<rparr>))))"

inductive paced_step :: "(go_float \<Rightarrow> int) \<Rightarrow> pacedClient \<Rightarrow> pacedClient \<Rightarrow> bool" for period where
  begins: "paced_step period p (begin_call a p)"
| moves: "call_step period i ev p = Some p' \<Longrightarrow> paced_step period p p'"
| budgets: "paced_step period p (setBudget a b p)"

text \<open>Which calls hold a limiter slot, and which are parked at the governor.\<close>

definition holding :: "pc \<Rightarrow> bool" where
  "holding q \<longleftrightarrow> (case q of GovernorAllow _ \<Rightarrow> True | GovernorPark _ _ \<Rightarrow> True | Calling _ \<Rightarrow> True | _ \<Rightarrow> False)"

definition parked :: "pc \<Rightarrow> bool" where
  "parked q \<longleftrightarrow> (case q of GovernorPark _ _ \<Rightarrow> True | _ \<Rightarrow> False)"

definition holders :: "string \<Rightarrow> call list \<Rightarrow> int" where
  "holders a cs = int (length (filter (\<lambda>c. ca_account c = a \<and> holding (ca_pc c)) cs))"

definition parked_calls :: "call list \<Rightarrow> int" where
  "parked_calls cs = int (length (filter (\<lambda>c. parked (ca_pc c)) cs))"

definition paced_ok :: "pacedClient \<Rightarrow> bool" where
  "paced_ok p \<longleftrightarrow>
     (\<forall>a l. map_of (pa_byAccount p) a = Some l \<longrightarrow> lm_inflight l = holders a (pa_calls p))
     \<and> (\<forall>c \<in> set (pa_calls p). map_of (pa_byAccount p) (ca_account c) \<noteq> None)
     \<and> gv_waiters (pa_governor p) = parked_calls (pa_calls p)"

lemma length_filter_update:
  assumes "i < length xs"
  shows "int (length (filter P (xs[i := y]))) =
     int (length (filter P xs)) - (if P (xs ! i) then 1 else 0) + (if P y then 1 else 0)"
proof -
  have "length (filter P xs) = length (filter P (take i xs @ xs ! i # drop (Suc i) xs))"
    using id_take_nth_drop [OF assms] by (rule arg_cong)
  then show ?thesis by (simp add: upd_conv_take_nth_drop [OF assms])
qed

lemma holders_update: "i < length cs \<Longrightarrow> ca_account y = ca_account (cs ! i) \<Longrightarrow>
    holders a (cs[i := y]) = holders a cs
      + (if ca_account y = a then (if holding (ca_pc y) then 1 else 0) - (if holding (ca_pc (cs ! i)) then 1 else 0) else 0)"
  unfolding holders_def by (subst length_filter_update) auto

lemma parked_update: "i < length cs \<Longrightarrow>
    parked_calls (cs[i := y]) = parked_calls cs + (if parked (ca_pc y) then 1 else 0) - (if parked (ca_pc (cs ! i)) then 1 else 0)"
  unfolding parked_calls_def by (subst length_filter_update) auto

text \<open>One step changes the in-flight count by what it does to the call's hold, and the waiters likewise.\<close>

lemma gate_step_counts:
  assumes "gate_step period b ev (q, l, g) = Some (q', l', g')" and "holding q \<longrightarrow> 0 < lm_inflight l"
  shows "lm_inflight l' = lm_inflight l + (if holding q' then 1 else 0) - (if holding q then 1 else 0)
     \<and> gv_waiters g' = gv_waiters g + (if parked q' then 1 else 0) - (if parked q then 1 else 0)
     \<and> lm_budget l' = lm_budget l"
  using assms
  by (cases "(period, b, ev, q, l, g)" rule: gate_step.cases)
    (auto simp: holding_def parked_def Allow_try_def Governor_try_def Allow_wake_def Governor_wake_def Release_def
      NoteError_def NoteSuccess_def attempt_at_def Let_def
      split: if_splits option.splits admission.splits gov_admission.splits prod.splits)

lemma holders_pos: "i < length cs \<Longrightarrow> holding (ca_pc (cs ! i)) \<Longrightarrow> 0 < holders (ca_account (cs ! i)) cs"
  unfolding holders_def by (auto simp: length_greater_0_conv filter_empty_conv)

lemma not_holding_start [simp]: "\<not> holding (gate_start b)" "\<not> parked (gate_start b)"
  by (simp_all add: gate_start_def attempt_at_def holding_def parked_def)

lemma begin_call_ok: "paced_ok p \<Longrightarrow> paced_ok (begin_call a p)"
proof -
  assume ok: "paced_ok p"
  have none: "holders a (pa_calls p) = 0" if "map_of (pa_byAccount p) a = None"
    using ok that by (auto simp: paced_ok_def holders_def filter_empty_conv)
  have old: "map_of (pa_byAccount p) x = Some l \<Longrightarrow> lm_inflight l = holders x (pa_calls p)" for x l
    using ok by (simp add: paced_ok_def)
  have add: "holders x (pa_calls p @ [\<lparr>ca_account = a, ca_budget = b, ca_pc = gate_start b\<rparr>]) = holders x (pa_calls p)"
    "parked_calls (pa_calls p @ [\<lparr>ca_account = a, ca_budget = b, ca_pc = gate_start b\<rparr>]) = parked_calls (pa_calls p)" for x b
    by (simp_all add: holders_def parked_calls_def)
  show ?thesis
  proof (cases "map_of (pa_byAccount p) a")
    case None
    then show ?thesis using ok none old add
      by (auto simp: begin_call_def paced_limiter_def paced_ok_def Let_def NewLimiter_def)
  next
    case (Some l)
    then show ?thesis using ok old add
      by (auto simp: begin_call_def paced_limiter_def paced_ok_def Let_def)
  qed
qed

lemma call_step_ok:
  assumes "paced_ok p" and "call_step period i ev p = Some p'"
  shows "paced_ok p'"
proof -
  obtain c l q l' g' where i: "i < length (pa_calls p)" and c: "c = pa_calls p ! i"
    and l: "map_of (pa_byAccount p) (ca_account c) = Some l"
    and s: "gate_step period (ca_budget c) ev (ca_pc c, l, pa_governor p) = Some (q, l', g')"
    and p': "p' = p\<lparr>pa_byAccount := AList.update (ca_account c) l' (pa_byAccount p), pa_governor := g',
        pa_calls := (pa_calls p)[i := c\<lparr>ca_pc := q\<rparr>]\<rparr>"
    using assms(2) by (auto simp: call_step_def Let_def split: if_splits option.splits prod.splits)
  have inflight: "lm_inflight l = holders (ca_account c) (pa_calls p)" using assms(1) l by (simp add: paced_ok_def)
  then have "holding (ca_pc c) \<longrightarrow> 0 < lm_inflight l" using holders_pos [OF i] c by simp
  note counts = gate_step_counts [OF s this]
  have h: "holders a ((pa_calls p)[i := c\<lparr>ca_pc := q\<rparr>]) = holders a (pa_calls p)
      + (if ca_account c = a then (if holding q then 1 else 0) - (if holding (ca_pc c) then 1 else 0) else 0)" for a
    using holders_update [OF i, of "c\<lparr>ca_pc := q\<rparr>" a] c by simp
  have "\<forall>d \<in> set ((pa_calls p)[i := c\<lparr>ca_pc := q\<rparr>]). map_of (pa_byAccount p) (ca_account d) \<noteq> None"
    using assms(1) l c i by (auto simp: paced_ok_def dest!: subsetD [OF set_update_subset_insert])
  moreover have "lm_inflight l' = holders (ca_account c) ((pa_calls p)[i := c\<lparr>ca_pc := q\<rparr>])"
    using counts inflight by (simp add: h)
  moreover have "\<forall>a k. map_of (pa_byAccount p) a = Some k \<longrightarrow> a \<noteq> ca_account c \<longrightarrow>
      lm_inflight k = holders a ((pa_calls p)[i := c\<lparr>ca_pc := q\<rparr>])"
    using assms(1) by (auto simp: h paced_ok_def)
  moreover have "gv_waiters g' = parked_calls ((pa_calls p)[i := c\<lparr>ca_pc := q\<rparr>])"
    using counts assms(1) parked_update [OF i, of "c\<lparr>ca_pc := q\<rparr>"] c by (simp add: paced_ok_def)
  ultimately show ?thesis by (simp add: p' paced_ok_def)
qed

lemma paced_step_ok: "paced_step period p p' \<Longrightarrow> paced_ok p \<Longrightarrow> paced_ok p'"
  by (induction rule: paced_step.induct) (auto intro: begin_call_ok call_step_ok simp: setBudget_def, simp_all add: paced_ok_def)

lemma paced_reachable_ok: "(paced_step period)\<^sup>*\<^sup>* p p' \<Longrightarrow> paced_ok p \<Longrightarrow> paced_ok p'"
  by (induction rule: rtranclp_induct) (blast intro: paced_step_ok)+

subsection \<open>The concurrent-pull cap\<close>

definition capped :: "Budget \<Rightarrow> bool" where
  "capped b \<longleftrightarrow> bd_max_concurrent b > 0 \<and> \<not> positive (bd_rps b) \<and> bd_spacing b \<le> 0"

definition asleep :: "pc \<Rightarrow> bool" where
  "asleep q \<longleftrightarrow> (case q of LimiterSleep _ _ \<Rightarrow> True | _ \<Rightarrow> False)"

definition cap_ok :: "pacedClient \<Rightarrow> bool" where
  "cap_ok p \<longleftrightarrow> (\<forall>a l. map_of (pa_byAccount p) a = Some l \<and> capped (lm_budget l) \<longrightarrow>
     lm_inflight l \<le> bd_max_concurrent (lm_budget l) \<and> (\<forall>c \<in> set (pa_calls p). ca_account c = a \<longrightarrow> \<not> asleep (ca_pc c)))"

lemma gate_step_capped:
  assumes "gate_step period b ev (q, l, g) = Some (q', l', g')" and "capped (lm_budget l)" and "\<not> asleep q"
    and "lm_inflight l \<le> bd_max_concurrent (lm_budget l)"
  shows "\<not> asleep q' \<and> lm_inflight l' \<le> bd_max_concurrent (lm_budget l') \<and> lm_budget l' = lm_budget l"
  using assms
  by (cases "(period, b, ev, q, l, g)" rule: gate_step.cases)
    (auto simp: asleep_def capped_def Allow_try_def limiter_busy_def Release_def attempt_at_def Let_def
      split: if_splits option.splits admission.splits gov_admission.splits prod.splits)

lemma call_stepE:
  assumes "call_step period i ev p = Some p'"
  obtains c l q l' g' where "i < length (pa_calls p)" "c = pa_calls p ! i"
    "map_of (pa_byAccount p) (ca_account c) = Some l"
    "gate_step period (ca_budget c) ev (ca_pc c, l, pa_governor p) = Some (q, l', g')"
    "p' = p\<lparr>pa_byAccount := AList.update (ca_account c) l' (pa_byAccount p), pa_governor := g',
        pa_calls := (pa_calls p)[i := c\<lparr>ca_pc := q\<rparr>]\<rparr>"
  using assms by (auto simp: call_step_def Let_def split: if_splits option.splits prod.splits)

lemma gate_step_budget: "gate_step period b ev (q, l, g) = Some (q', l', g') \<Longrightarrow> lm_budget l' = lm_budget l"
  by (cases "(period, b, ev, q, l, g)" rule: gate_step.cases)
    (auto simp: Allow_try_def Allow_wake_def Release_def Let_def
      split: if_splits option.splits admission.splits gov_admission.splits prod.splits)

lemma call_step_cap:
  assumes "cap_ok p" and "call_step period i ev p = Some p'"
  shows "cap_ok p'"
  using assms(2)
proof (cases rule: call_stepE)
  case (1 c l q l' g')
  have old: "lm_inflight k \<le> bd_max_concurrent (lm_budget k) \<and> (\<forall>d \<in> set (pa_calls p). ca_account d = a \<longrightarrow> \<not> asleep (ca_pc d))"
    if "map_of (pa_byAccount p) a = Some k" "capped (lm_budget k)" for a k
    using assms(1) that by (simp add: cap_ok_def)
  have mem: "c \<in> set (pa_calls p)" using 1 by simp
  have new: "lm_inflight l' \<le> bd_max_concurrent (lm_budget l') \<and> \<not> asleep q" if "capped (lm_budget l')"
  proof -
    have "capped (lm_budget l)" using that gate_step_budget [OF 1(4)] by simp
    moreover from old [OF 1(3) this] mem have "\<not> asleep (ca_pc c)" "lm_inflight l \<le> bd_max_concurrent (lm_budget l)" by auto
    ultimately show ?thesis using gate_step_capped [OF 1(4)] by blast
  qed
  have calls: "d \<in> set (pa_calls p') \<Longrightarrow> d = c\<lparr>ca_pc := q\<rparr> \<or> d \<in> set (pa_calls p)" for d
    using set_update_subset_insert [of "pa_calls p" i "c\<lparr>ca_pc := q\<rparr>"] by (auto simp: 1(5))
  show ?thesis
    unfolding cap_ok_def
  proof (intro allI impI, elim conjE)
    fix a k assume k: "map_of (pa_byAccount p') a = Some k" "capped (lm_budget k)"
    show "lm_inflight k \<le> bd_max_concurrent (lm_budget k) \<and> (\<forall>d \<in> set (pa_calls p'). ca_account d = a \<longrightarrow> \<not> asleep (ca_pc d))"
    proof (cases "a = ca_account c")
      case True
      then have kl: "k = l'" using k(1) by (simp add: 1(5))
      then have "capped (lm_budget l)" using k(2) gate_step_budget [OF 1(4)] by simp
      with old [OF 1(3)] new k(2) kl True show ?thesis by (auto dest!: calls)
    next
      case False
      then have "map_of (pa_byAccount p) a = Some k" using k(1) by (simp add: 1(5))
      from old [OF this k(2)] False show ?thesis by (auto dest!: calls)
    qed
  qed
qed

lemma begin_call_cap: "cap_ok p \<Longrightarrow> paced_ok p \<Longrightarrow> cap_ok (begin_call a p)"
proof -
  assume cap: "cap_ok p" and ok: "paced_ok p"
  have start: "\<not> asleep (gate_start b)" for b by (simp add: asleep_def gate_start_def attempt_at_def)
  have none: "map_of (pa_byAccount p) a = None \<Longrightarrow> c \<in> set (pa_calls p) \<Longrightarrow> ca_account c \<noteq> a" for c
    using ok by (auto simp: paced_ok_def)
  show ?thesis using cap start none
    by (auto simp: begin_call_def paced_limiter_def cap_ok_def Let_def NewLimiter_def capped_def split: option.splits if_splits)
qed

lemma paced_reachable_cap: "(paced_step period)\<^sup>*\<^sup>* p p' \<Longrightarrow> paced_ok p \<Longrightarrow> cap_ok p \<Longrightarrow> cap_ok p'"
proof (induction rule: rtranclp_induct)
  case (step y z)
  have ok: "paced_ok y" using step.hyps(1) step.prems(1) by (rule paced_reachable_ok)
  have cap: "cap_ok y" using step by blast
  from step.hyps(2) show ?case
  proof (cases rule: paced_step.cases)
    case (begins a)
    then show ?thesis using begin_call_cap [OF cap ok] by simp
  next
    case (moves i ev)
    then show ?thesis using call_step_cap [OF cap] by blast
  next
    case (budgets a b)
    then show ?thesis using cap unfolding cap_ok_def setBudget_def by simp blast
  qed
qed simp

subsection \<open>Budgets from the policy vocabulary\<close>

definition budgetFromPolicy :: "go_parsers \<Rightarrow> policy_set \<Rightarrow> Budget" where
  "budgetFromPolicy P m =
     (if m = [] then zero_budget
      else
        let get = (\<lambda>k. case map_of m k of None \<Rightarrow> [] | Some v \<Rightarrow> v);
            atoi = (\<lambda>k. if get k = [] then 0 else (case Atoi (get k) of None \<Rightarrow> 0 | Some n \<Rightarrow> n))
        in \<lparr>bd_rps = (let v = get ''pacingRequestsPerSecond'' in if v = [] then Finite 0
                      else (case ParseFloat P v of None \<Rightarrow> Finite 0 | Some f \<Rightarrow> f)),
            bd_max_concurrent = atoi ''pacingMaxConcurrentPulls'',
            bd_spacing = (let v = get ''pacingInterRequestDelay'' in if v = [] then 0
                          else (case ParseDuration P v of None \<Rightarrow> 0 | Some d \<Rightarrow> d)),
            bd_retries = atoi ''pacingRetries''\<rparr>)"

definition governorFromOptions :: "go_parsers \<Rightarrow> (string \<times> string) list \<Rightarrow> Governor" where
  "governorFromOptions P options =
     (let v = (case map_of options ''pacingRequestsPerSecond'' of None \<Rightarrow> [] | Some v \<Rightarrow> v);
          rps = (if v = [] then Finite 0 else (case ParseFloat P v of None \<Rightarrow> Finite 0 | Some f \<Rightarrow> f))
      in NewGovernor rps 1000000000 30000000000)"

text \<open>
  The loop over the operator's accounts; an overlay that does not parse keeps the instance budget.
  The inner surfaces of the client are not part of the model.
\<close>

fun account_budgets :: "go_parsers \<Rightarrow> policy_set \<Rightarrow> (string \<times> policy_set) list \<Rightarrow> (string \<times> Budget) list \<Rightarrow> (string \<times> Budget) list" where
  "account_budgets P inst [] bs = bs"
| "account_budgets P inst ((i, pol) # as) bs =
     account_budgets P inst as
       (AList.update i
          (case ParseOverlay P pol of
             Inl _ \<Rightarrow> budgetFromPolicy P inst
           | Inr overlay \<Rightarrow> budgetFromPolicy P (With inst overlay)) bs)"

definition newPacedClient ::
    "go_parsers \<Rightarrow> (string \<times> string) list \<Rightarrow> (string \<times> policy_set) list \<Rightarrow> policy_set \<Rightarrow> bool \<Rightarrow> pacedClient option" where
  "newPacedClient P options accts inst produces =
     (if \<not> produces then None
      else Some \<lparr>pa_byAccount = [], pa_budgetAccount = account_budgets P inst accts [],
                 pa_governor = governorFromOptions P options, pa_calls = []\<rparr>)"

lemma account_budgets_other: "i \<notin> fst ` set as \<Longrightarrow> map_of (account_budgets P inst as bs) i = map_of bs i"
  by (induction P inst as bs rule: account_budgets.induct) auto

lemma fresh_paced_ok: "newPacedClient P options accts inst pr = Some p \<Longrightarrow> paced_ok p \<and> cap_ok p"
  by (auto simp: newPacedClient_def paced_ok_def cap_ok_def governorFromOptions_def NewGovernor_def Let_def
      holders_def parked_calls_def split: if_splits)

subsection \<open>Properties\<close>

text \<open>C20: However the calls of a slot interleave, with budgets set in between: the in-flight count of an account's
  limiter is the number of its calls that hold a slot, the governor counts exactly the parked calls, and
  so both are zero when every call has returned. Every path out of \<open>Gate\<close> releases what it took.\<close>
theorem slots_accounted:
  assumes "newPacedClient P options accts inst True = Some p0" and "(paced_step period)\<^sup>*\<^sup>* p0 p"
  shows "(\<forall>a l. map_of (pa_byAccount p) a = Some l \<longrightarrow> lm_inflight l = holders a (pa_calls p))
     \<and> gv_waiters (pa_governor p) = parked_calls (pa_calls p)
     \<and> ((\<forall>c \<in> set (pa_calls p). \<exists>r. ca_pc c = Returned r) \<longrightarrow>
          gv_waiters (pa_governor p) = 0 \<and> (\<forall>a l. map_of (pa_byAccount p) a = Some l \<longrightarrow> lm_inflight l = 0))"
proof -
  have ok: "paced_ok p" using paced_reachable_ok [OF assms(2)] fresh_paced_ok [OF assms(1)] by blast
  have "holders a (pa_calls p) = 0 \<and> parked_calls (pa_calls p) = 0"
    if "\<forall>c \<in> set (pa_calls p). \<exists>r. ca_pc c = Returned r" for a
    using that by (auto simp: holders_def parked_calls_def filter_empty_conv holding_def parked_def)
  with ok show ?thesis by (auto simp: paced_ok_def)
qed

text \<open>With a pull cap and neither a rate nor a spacing, no interleaving has more requests of the account in
  flight than the cap allows.\<close>
theorem pulls_within_cap:
  assumes "newPacedClient P options accts inst True = Some p0" and "(paced_step period)\<^sup>*\<^sup>* p0 p"
    and "map_of (pa_byAccount p) a = Some l" and "capped (lm_budget l)"
  shows "lm_inflight l \<le> bd_max_concurrent (lm_budget l)"
  using paced_reachable_cap [OF assms(2)] fresh_paced_ok [OF assms(1)] assms(3,4) by (auto simp: cap_ok_def)

text \<open>C21: The starts a limiter with a rate or a spacing grants are an interval apart, whatever requests, releases and
  wake-ups it sees, and so are those of a governor with a rate, whatever errors and successes it is told of.\<close>
theorem grants_spaced:
  assumes "positive (bd_rps (lm_budget l)) \<or> bd_spacing (lm_budget l) > 0" and "0 \<le> lim_interval period (lm_budget l)"
    and "positive (gv_rps g)" and "0 \<le> period (gv_rps g)"
  shows "sorted_wrt (\<lambda>x y. x + lim_interval period (lm_budget l) \<le> y) (lim_grants period evs l)
     \<and> sorted_wrt (\<lambda>x y. x + period (gv_rps g) \<le> y) (gov_grants period evs' g)"
  using lim_grants_spaced [where period = period, OF assms(1,2)] gov_grants_spaced [where period = period, OF assms(3,4)] by blast

text \<open>C22: A call of \<open>Gate\<close> returns: it makes at most \<open>6 (retries + 1)\<close> moves and \<open>retries + 1\<close> calls to the provider,
  and until it has returned some event moves it on.\<close>
theorem gate_returns:
  assumes "gate_run period b evs (gate_start b, l, g) = Some (p, l', g')"
  shows "gate_moves period b evs (gate_start b, l, g) \<le> 6 * nat (bd_retries b + 1)
     \<and> provider_calls evs \<le> nat (bd_retries b + 1)
     \<and> ((\<exists>r. p = Returned r) \<or> (\<exists>ev st'. gate_step period b ev (p, l', g') = Some st' \<and> fst st' \<noteq> p))"
proof -
  have "rank b (gate_start b) \<le> 6 * nat (bd_retries b + 1)" by (simp add: gate_start_def attempt_at_def nat_add_distrib)
  then have "gate_moves period b evs (gate_start b, l, g) \<le> 6 * nat (bd_retries b + 1)"
    using gate_moves_rank [of period b evs "(gate_start b, l, g)"] by simp
  moreover have "within_retries b (gate_start b)" unfolding gate_start_def by (rule within_attempt)
  then have "provider_calls evs \<le> calls_left b (gate_start b)" using gate_run_calls [OF assms] by simp
  moreover have "calls_left b (gate_start b) \<le> nat (bd_retries b + 1)"
    by (simp add: gate_start_def attempt_at_def calls_left_def)
  ultimately show ?thesis using gate_progress [of p period b l' g'] by (meson le_trans)
qed

text \<open>Under the governor the wiring builds, an error answers the account's next attempt itself: a retry that
  reaches the governor within a second of the failure is refused as degraded, without a call to the
  provider and without the provider's error, however many retries the budget allows.\<close>
theorem retry_fails_fast:
  assumes "gv_base g = 1000000000" and "gv_max g = 30000000000" and "e \<noteq> Canceled" and "e \<noteq> DeadlineExceeded"
    and "k < bd_retries b" and "\<not> limiter_busy l" and "\<not> positive (bd_rps (lm_budget l))" and "bd_spacing (lm_budget l) \<le> 0"
    and "t2 < t + 1000000000"
  shows "\<exists>l' g'. gate_run period b [At t, At t1, At t2] (Noting k (Some e), l, g)
     = Some (Returned (Some (BusyError (gv_waiters g))), l', g')"
proof -
  let ?g = "NoteError t g"
  have "1000000000 * (2 :: int) ^ gv_fails g \<ge> 1000000000" by simp
  then have "min (1000000000 * (2 :: int) ^ gv_fails g) 30000000000 \<ge> 1000000000" by simp
  moreover have "gv_backoff ?g = t + min (1000000000 * 2 ^ gv_fails g) 30000000000"
    using assms(1,2) second_capped [of "gv_fails g + 1"] by (simp add: NoteError_backoff)
  ultimately have "t2 < gv_backoff ?g" using assms(9) by linarith
  moreover have "gv_waiters ?g = gv_waiters g" by (simp add: NoteError_def Let_def)
  ultimately show ?thesis using assms(3-8)
    by (simp add: attempt_at_def Allow_try_def Governor_try_def)
qed

text \<open>An account that no operator entry declares, as a linked account, gets no budget when the slot is built:
  whatever the instance policy says, its limiter admits every request at once. A budget set after the
  account's first request does not reach the limiter either.\<close>
theorem linked_account_unpaced:
  assumes "newPacedClient P options accts inst True = Some p" and "a \<notin> fst ` set accts"
  shows "paced_budget a p = zero_budget
     \<and> fst (Allow_try period now (fst (paced_limiter a p))) = Admitted
     \<and> fst (paced_limiter a (setBudget a b (snd (paced_limiter a p)))) = NewLimiter zero_budget"
proof -
  have "map_of (pa_budgetAccount p) a = None" and "pa_byAccount p = []"
    using assms by (auto simp: newPacedClient_def account_budgets_other)
  then show ?thesis
    by (simp add: paced_budget_def paced_limiter_def setBudget_def NewLimiter_def Allow_try_def limiter_busy_def
        zero_budget_def positive_def Let_def)
qed

subsection \<open>Examples\<close>

definition demo_parsers :: go_parsers where
  "demo_parsers = \<lparr>ParseFloat = (\<lambda>_. None), ParseDuration = (\<lambda>_. None)\<rparr>"

definition demo_client :: pacedClient where
  "demo_client = the (newPacedClient demo_parsers [] [(''a'', [(''pacingMaxConcurrentPulls'', ''1'')])] [] True)"

lemma demo_client_new: "newPacedClient demo_parsers [] [(''a'', [(''pacingMaxConcurrentPulls'', ''1'')])] [] True = Some demo_client"
  by (simp add: demo_client_def newPacedClient_def)

text \<open>Runs of a client as lists of calls begun and steps made.\<close>

fun paced_acts :: "(go_float \<Rightarrow> int) \<Rightarrow> (string + nat \<times> event) list \<Rightarrow> pacedClient \<Rightarrow> pacedClient option" where
  "paced_acts period [] p = Some p"
| "paced_acts period (Inl a # as) p = paced_acts period as (begin_call a p)"
| "paced_acts period (Inr (i, ev) # as) p =
     (case call_step period i ev p of None \<Rightarrow> None | Some p' \<Rightarrow> paced_acts period as p')"

lemma paced_acts_reachable: "paced_acts period as p = Some p' \<Longrightarrow> (paced_step period)\<^sup>*\<^sup>* p p'"
proof (induction period as p rule: paced_acts.induct)
  case (2 period a as p)
  then have "(paced_step period)\<^sup>*\<^sup>* (begin_call a p) p'" by simp
  with paced_step.begins show ?case by (rule converse_rtranclp_into_rtranclp)
next
  case (3 period i ev as p)
  then obtain q where q: "call_step period i ev p = Some q" "paced_acts period as q = Some p'" by (auto split: option.splits)
  from "3.IH" [OF q] paced_step.moves [OF q(1)] show ?case by (rule converse_rtranclp_into_rtranclp [rotated])
qed simp

definition pull_budget :: Budget where
  "pull_budget = \<lparr>bd_rps = NaN, bd_max_concurrent = 1, bd_spacing = 100, bd_retries = 0\<rparr>"

definition pull_client :: pacedClient where
  "pull_client = \<lparr>pa_byAccount = [], pa_budgetAccount = [(''a'', pull_budget)],
     pa_governor = NewGovernor NaN 1000000000 30000000000, pa_calls = []\<rparr>"

definition pull_run :: "(string + nat \<times> event) list" where
  "pull_run = [Inl ''a'', Inr (0, At 0), Inr (0, At 0), Inr (0, Return None), Inl ''a'', Inl ''a'',
     Inr (1, At 10), Inr (2, At 20), Inr (1, At 100), Inr (2, At 200), Inr (1, At 200), Inr (2, At 200)]"

text \<open>Callers asleep in a limiter are not counted as in flight: with a spacing as well as a cap of one pull, two
  requests that slept are both in flight, and both call the provider.\<close>
theorem pulls_cap_exceeded:
  "\<exists>p l. (paced_step (\<lambda>_. 0))\<^sup>*\<^sup>* pull_client p \<and> map_of (pa_byAccount p) ''a'' = Some l
     \<and> bd_max_concurrent (lm_budget l) = 1 \<and> lm_inflight l = 2
     \<and> length (filter (\<lambda>c. ca_pc c = Calling 0) (pa_calls p)) = 2"
proof -
  have ev: "paced_acts (\<lambda>_. 0) pull_run pull_client =
      Some (the (paced_acts (\<lambda>_. 0) pull_run pull_client))
    \<and> map_of (pa_byAccount (the (paced_acts (\<lambda>_. 0) pull_run pull_client))) ''a'' =
      Some \<lparr>lm_budget = pull_budget, lm_inflight = 2, lm_nextOK = 300\<rparr>
    \<and> length (filter (\<lambda>c. ca_pc c = Calling 0) (pa_calls (the (paced_acts (\<lambda>_. 0) pull_run pull_client)))) = 2"
    by (simp add: pull_run_def pull_client_def pull_budget_def begin_call_def paced_limiter_def paced_budget_def
        NewLimiter_def NewGovernor_def gate_start_def attempt_at_def call_step_def Allow_try_def limiter_busy_def
        Governor_try_def reserve_def positive_def Allow_wake_def Release_def Let_def)
  then show ?thesis using paced_acts_reachable by (fastforce simp: pull_budget_def)
qed

theorem slots_accounted_witness:
  "gv_waiters (pa_governor (begin_call ''b'' demo_client)) = parked_calls (pa_calls (begin_call ''b'' demo_client))"
  using slots_accounted [OF demo_client_new, of "\<lambda>_. 0" "begin_call ''b'' demo_client"] paced_step.begins by blast

lemma demo_client_budget: "pa_budgetAccount demo_client = [(''a'', \<lparr>bd_rps = Finite 0, bd_max_concurrent = 1, bd_spacing = 0, bd_retries = 0\<rparr>)]"
  by (simp add: demo_client_def newPacedClient_def ParseOverlay_def validate_entry_def policy_keys Atoi_def char_digit_def
      budgetFromPolicy_def With_def Clone_def demo_parsers_def)

theorem pulls_within_cap_witness:
  "\<exists>p l. (paced_step (\<lambda>_. 0))\<^sup>*\<^sup>* demo_client p \<and> map_of (pa_byAccount p) ''a'' = Some l \<and> lm_inflight l = 1
     \<and> lm_inflight l \<le> bd_max_concurrent (lm_budget l)"
proof -
  let ?p = "the (paced_acts (\<lambda>_. 0) [Inl ''a'', Inr (0, At 0)] demo_client)"
  let ?l = "\<lparr>lm_budget = \<lparr>bd_rps = Finite 0, bd_max_concurrent = 1, bd_spacing = 0, bd_retries = 0\<rparr>, lm_inflight = 1, lm_nextOK = 0\<rparr>"
  have "pa_byAccount demo_client = []" "pa_calls demo_client = []"
    by (simp_all add: demo_client_def newPacedClient_def)
  then have "paced_acts (\<lambda>_. 0) [Inl ''a'', Inr (0, At 0)] demo_client = Some ?p \<and> map_of (pa_byAccount ?p) ''a'' = Some ?l"
    by (simp add: begin_call_def paced_limiter_def paced_budget_def demo_client_budget NewLimiter_def gate_start_def
        attempt_at_def call_step_def Allow_try_def limiter_busy_def positive_def Let_def)
  then have r: "(paced_step (\<lambda>_. 0))\<^sup>*\<^sup>* demo_client ?p" "map_of (pa_byAccount ?p) ''a'' = Some ?l"
    using paced_acts_reachable by blast+
  from pulls_within_cap [OF demo_client_new r] have "lm_inflight ?l \<le> bd_max_concurrent (lm_budget ?l)"
    by (simp add: capped_def positive_def)
  with r show ?thesis by (intro exI [of _ ?p] exI [of _ ?l]) simp
qed

theorem grants_spaced_witness:
  "sorted_wrt (\<lambda>x y. x + 100 \<le> y) (lim_grants (\<lambda>_. 100) [LAsk 5, LAsk 6, LRelease, LAsk 7] (NewLimiter pull_budget))"
  using grants_spaced [of "NewLimiter pull_budget" "\<lambda>_. 100" "NewGovernor PosInf 1 1" "[LAsk 5, LAsk 6, LRelease, LAsk 7]" "[]"]
  by (simp add: NewLimiter_def pull_budget_def lim_interval_def positive_def NewGovernor_def)

theorem gate_returns_witness:
  "\<exists>l g. gate_run (\<lambda>_. 0) zero_budget [At 0, At 0, Return None, At 0] (gate_start zero_budget, NewLimiter zero_budget, NewGovernor NaN 1 1)
     = Some (Returned None, l, g) \<and> provider_calls [At 0, At 0, Return None, At 0] \<le> 1"
proof -
  have "\<exists>l g. gate_run (\<lambda>_. 0) zero_budget [At 0, At 0, Return None, At 0] (gate_start zero_budget, NewLimiter zero_budget, NewGovernor NaN 1 1)
      = Some (Returned None, l, g)"
    by (simp add: gate_start_def attempt_at_def zero_budget_def NewLimiter_def NewGovernor_def Allow_try_def limiter_busy_def
        Governor_try_def positive_def Let_def)
  then obtain l g where run: "gate_run (\<lambda>_. 0) zero_budget [At 0, At 0, Return None, At 0]
      (gate_start zero_budget, NewLimiter zero_budget, NewGovernor NaN 1 1) = Some (Returned None, l, g)" by blast
  have "nat (bd_retries zero_budget + 1) = 1" by (simp add: zero_budget_def)
  with gate_returns [OF run] have "provider_calls [At 0, At 0, Return None, At 0] \<le> 1" by simp
  with run show ?thesis by blast
qed

theorem retry_fails_fast_witness:
  "\<exists>l' g'. gate_run (\<lambda>_. 0) (zero_budget\<lparr>bd_retries := 5\<rparr>) [At 0, At 1, At 2]
     (Noting 0 (Some (ProviderError ''503'')), NewLimiter zero_budget, governorFromOptions demo_parsers [])
     = Some (Returned (Some (BusyError 0)), l', g')"
  using retry_fails_fast [of "governorFromOptions demo_parsers []" "ProviderError ''503''" 0 "zero_budget\<lparr>bd_retries := 5\<rparr>"
      "NewLimiter zero_budget" 2 0 "\<lambda>_. 0" 1]
  by (simp add: governorFromOptions_def NewGovernor_def NewLimiter_def zero_budget_def limiter_busy_def positive_def Let_def)

theorem linked_account_unpaced_witness:
  "paced_budget ''lnk_1'' (the (newPacedClient demo_parsers [] [] [(''pacingMaxConcurrentPulls'', ''1'')] True)) = zero_budget"
  using linked_account_unpaced [of demo_parsers "[]" "[]" "[(''pacingMaxConcurrentPulls'', ''1'')]"
      "the (newPacedClient demo_parsers [] [] [(''pacingMaxConcurrentPulls'', ''1'')] True)" "''lnk_1''"]
  by (simp add: newPacedClient_def)

end
