(* ===== verification/Source_Cache.thy ===== *)
theory Source_Cache
  imports Item_Resolution Enrichment
begin

text \<open>
  The account source cache, \<open>internal/sourcecache/sourcecache.go\<close>: the items a provider reported for
  each linked account, under \<open><provider>/<account>/<native id>\<close>, with a manifest that says when the
  account was last synced as a whole.

  A synchronizer works on a cache it shares, on the state \<^typ>\<open>'r\<close> of the identity registry behind its
  optional resolver and entry lookup, and on the events it published. The provider's answers are
  arguments: \<open>sy_client account page token\<close> and \<open>sy_refresh account ids\<close>. \<open>protojson.Marshal\<close> refuses
  some items, those that are not valid UTF-8: \<open>sy_encodes\<close>. \<open>sy_stamp n\<close> holds the random bytes and
  the time of the \<open>n\<close>th event. The rows of the cache are typed; a manifest row does not decode as
  an item.

  What the synchronizer needs of a registry is the locale \<open>item_identity\<close>; the item registry of
  \<open>Item_Registry\<close> provides it, through the adapter of \<open>internal/slotwiring/jellyfin.go\<close>.
\<close>

subsection \<open>State\<close>

definition maxPages :: nat where "maxPages = 10000"

definition manifestSuffix :: string where "manifestSuffix = ''/_sync-manifest''"

record manifest =
  mf_last_complete_sync :: int
  mf_items :: nat

datatype cache_row = ItemRow CatalogueItem | ManifestRow manifest

record Stats =
  sa_items :: nat
  sa_pages :: nat
  sa_removed :: nat

definition no_stats :: Stats where
  "no_stats = \<lparr>sa_items = 0, sa_pages = 0, sa_removed = 0\<rparr>"

record ('r, 'e) Synchronizer =
  sy_provider :: string
  sy_client :: "string \<Rightarrow> nat \<Rightarrow> string \<Rightarrow> string + CatalogueSyncResponse option"
  sy_refresh :: "(string \<Rightarrow> string list \<Rightarrow> string + CatalogueItem option list) option"
  sy_resolver :: "(string \<Rightarrow> CatalogueItem \<Rightarrow> 'r \<Rightarrow> ('e + unit) \<times> 'r) option"
  sy_entries :: "('r \<Rightarrow> string \<Rightarrow> string \<Rightarrow> 'e + string option) option"
  sy_sink :: bool
  sy_encodes :: "CatalogueItem \<Rightarrow> bool"
  sy_stamp :: "nat \<Rightarrow> string \<times> int"

record 'r sync_state =
  ss_cache :: "cache_row Store"
  ss_reg :: 'r
  ss_events :: "EventEnvelope list"

datatype 'e sync_error =
    SE_store store_error | SE_pages | SE_client string | SE_contract string
  | SE_encode string | SE_resolve 'e | SE_no_refresh | SE_decode string

definition item_prefix :: "('r, 'e) Synchronizer \<Rightarrow> string \<Rightarrow> string" where
  "item_prefix sy account = sy_provider sy @ ''/'' @ account @ ''/''"

definition manifestKey :: "('r, 'e) Synchronizer \<Rightarrow> string \<Rightarrow> string" where
  "manifestKey sy account = sy_provider sy @ ''/'' @ account @ manifestSuffix"

lemma manifestKey_item: "manifestKey sy account = item_prefix sy account @ ''_sync-manifest''"
  by (simp add: manifestKey_def item_prefix_def manifestSuffix_def)

lemma manifestKey_suffix: "HasSuffix (manifestKey sy account) manifestSuffix"
  by (simp add: manifestKey_def HasSuffix_def suffix_def)

subsection \<open>Events\<close>

definition availability_event :: "('r, 'e) Synchronizer \<Rightarrow> nat \<Rightarrow> string \<Rightarrow> string \<Rightarrow> bool \<Rightarrow> EventEnvelope" where
  "availability_event sy n account entry present =
     \<lparr>ev_id = EncodeToString (fst (sy_stamp sy n)), ev_type = ET_AVAILABILITY_CHANGED, ev_audience = EA_ACCOUNT,
      ev_user_id = [], ev_account_id = account,
      ev_payload = Some (AvailabilityEvent account (sy_provider sy) entry present),
      ev_emitted_at = snd (sy_stamp sy n)\<rparr>"

definition notifyAvailability ::
    "('r, 'e) Synchronizer \<Rightarrow> string \<Rightarrow> string \<Rightarrow> bool \<Rightarrow> 'r sync_state \<Rightarrow> 'r sync_state" where
  "notifyAvailability sy account nativeID present st =
     (case sy_entries sy of
        None \<Rightarrow> st
      | Some lookup \<Rightarrow>
          if \<not> sy_sink sy then st
          else (case lookup (ss_reg st) (sy_provider sy) nativeID of
             Inr (Some entry) \<Rightarrow>
               (let env = availability_event sy (length (ss_events st)) account entry present
                in if ValidateEventEnvelope (Some env) \<noteq> None then st
                   else st\<lparr>ss_events := ss_events st @ [env]\<rparr>)
           | _ \<Rightarrow> st))"

subsection \<open>Landing items\<close>

text \<open>One item: encoded, written under its key, and resolved when a resolver is wired.\<close>

definition land_item ::
    "('r, 'e) Synchronizer \<Rightarrow> string \<Rightarrow> CatalogueItem \<Rightarrow> 'r sync_state \<Rightarrow> 'e sync_error option \<times> 'r sync_state" where
  "land_item sy account item st =
     (if \<not> sy_encodes sy item then (Some (SE_encode (ci_native_id item)), st)
      else
        (case Store_Put (ss_cache st) (item_prefix sy account @ ci_native_id item) (ItemRow item) of
           (Inl e, c) \<Rightarrow> (Some (SE_store e), st\<lparr>ss_cache := c\<rparr>)
         | (Inr _, c) \<Rightarrow>
             (case sy_resolver sy of
                None \<Rightarrow> (None, st\<lparr>ss_cache := c\<rparr>)
              | Some resolve \<Rightarrow>
                  (case resolve (sy_provider sy) item (ss_reg st) of
                     (Inl e, r) \<Rightarrow> (Some (SE_resolve e), st\<lparr>ss_cache := c, ss_reg := r\<rparr>)
                   | (Inr _, r) \<Rightarrow> (None, st\<lparr>ss_cache := c, ss_reg := r\<rparr>)))))"

text \<open>The items of a page; \<open>seen\<close> lists the native ids seen in the run, each once.\<close>

definition see :: "string list \<Rightarrow> string \<Rightarrow> string list" where
  "see seen n = (if n \<in> set seen then seen else seen @ [n])"

fun land_page ::
    "('r, 'e) Synchronizer \<Rightarrow> string \<Rightarrow> CatalogueItem list \<Rightarrow> string list \<Rightarrow> nat \<Rightarrow> 'r sync_state
     \<Rightarrow> 'e sync_error option \<times> string list \<times> nat \<times> 'r sync_state" where
  "land_page sy account [] seen n st = (None, seen, n, st)"
| "land_page sy account (item # items) seen n st =
     (case land_item sy account item st of
        (Some e, st') \<Rightarrow> (Some e, seen, n, st')
      | (None, st') \<Rightarrow> land_page sy account items (see seen (ci_native_id item)) (n + 1) st')"

text \<open>The items of a validated answer: none of them is nil.\<close>

definition page_items :: "CatalogueItem option list \<Rightarrow> CatalogueItem list" where
  "page_items xs = List.map_filter (\<lambda>x. x) xs"

function sync_pages ::
    "('r, 'e) Synchronizer \<Rightarrow> string \<Rightarrow> string \<Rightarrow> nat \<Rightarrow> string list \<Rightarrow> nat \<Rightarrow> 'r sync_state
     \<Rightarrow> 'e sync_error option \<times> string list \<times> nat \<times> nat \<times> 'r sync_state" where
  "sync_pages sy account token pages seen n st =
     (if pages \<ge> maxPages then (Some SE_pages, seen, n, pages, st)
      else
        (case sy_client sy account pages token of
           Inl e \<Rightarrow> (Some (SE_client e), seen, n, pages, st)
         | Inr resp \<Rightarrow>
             (case ValidateCatalogueSyncResponse resp of
                Some v \<Rightarrow> (Some (SE_contract v), seen, n, pages, st)
              | None \<Rightarrow>
                  (case land_page sy account (page_items (get_or [] csr_items resp)) seen n st of
                     (Some e, seen', n', st') \<Rightarrow> (Some e, seen', n', pages, st')
                   | (None, seen', n', st') \<Rightarrow>
                       (let token' = get_or [] csr_next_page_token resp
                        in if token' = [] then (None, seen', n', pages + 1, st')
                           else sync_pages sy account token' (pages + 1) seen' n' st')))))"
  by pat_completeness auto
termination
  by (relation "measure (\<lambda>(sy, a, t, pages, s, n, st). maxPages - pages)") auto

declare sync_pages.simps [simp del]

subsection \<open>Reconciliation\<close>

text \<open>The native ids of the rows listed before the run, without the manifest, each once.\<close>

definition prev_ids :: "('r, 'e) Synchronizer \<Rightarrow> string \<Rightarrow> string list \<Rightarrow> string list" where
  "prev_ids sy account ks =
     remdups (map (\<lambda>k. TrimPrefix k (item_prefix sy account)) (filter (\<lambda>k. \<not> HasSuffix k manifestSuffix) ks))"

fun drop_departed ::
    "('r, 'e) Synchronizer \<Rightarrow> string \<Rightarrow> string list \<Rightarrow> nat \<Rightarrow> 'r sync_state
     \<Rightarrow> 'e sync_error option \<times> nat \<times> 'r sync_state" where
  "drop_departed sy account [] removed st = (None, removed, st)"
| "drop_departed sy account (n # ns) removed st =
     (case Store_Delete (ss_cache st) (item_prefix sy account @ n) of
        (Inl e, c) \<Rightarrow> (Some (SE_store e), removed, st\<lparr>ss_cache := c\<rparr>)
      | (Inr _, c) \<Rightarrow>
          drop_departed sy account ns (removed + 1) (notifyAvailability sy account n False (st\<lparr>ss_cache := c\<rparr>)))"

fun announce :: "('r, 'e) Synchronizer \<Rightarrow> string \<Rightarrow> string list \<Rightarrow> 'r sync_state \<Rightarrow> 'r sync_state" where
  "announce sy account [] st = st"
| "announce sy account (n # ns) st = announce sy account ns (notifyAvailability sy account n True st)"

definition reconcile ::
    "('r, 'e) Synchronizer \<Rightarrow> string \<Rightarrow> string list \<Rightarrow> string list \<Rightarrow> 'r sync_state
     \<Rightarrow> 'e sync_error option \<times> nat \<times> 'r sync_state" where
  "reconcile sy account prevKeys seen st =
     (let prev = prev_ids sy account prevKeys
      in (case drop_departed sy account (filter (\<lambda>n. n \<notin> set seen) prev) 0 st of
            (Some e, removed, st') \<Rightarrow> (Some e, removed, st')
          | (None, removed, st') \<Rightarrow>
              (None, removed, announce sy account (filter (\<lambda>n. n \<notin> set prev) seen) st')))"

definition SyncAccount ::
    "('r, 'e) Synchronizer \<Rightarrow> int \<Rightarrow> string \<Rightarrow> 'r sync_state \<Rightarrow> 'e sync_error option \<times> Stats \<times> 'r sync_state" where
  "SyncAccount sy now account st =
     (case Store_List (ss_cache st) (item_prefix sy account) of
        Inl e \<Rightarrow> (Some (SE_store e), no_stats, st)
      | Inr prevKeys \<Rightarrow>
          (case sync_pages sy account [] 0 [] 0 st of
             (Some e, seen, n, pages, st1) \<Rightarrow> (Some e, \<lparr>sa_items = n, sa_pages = pages, sa_removed = 0\<rparr>, st1)
           | (None, seen, n, pages, st1) \<Rightarrow>
               (case reconcile sy account prevKeys seen st1 of
                  (Some e, removed, st2) \<Rightarrow> (Some e, \<lparr>sa_items = n, sa_pages = pages, sa_removed = 0\<rparr>, st2)
                | (None, removed, st2) \<Rightarrow>
                    (let stats = \<lparr>sa_items = n, sa_pages = pages, sa_removed = removed\<rparr>
                     in (case Store_Put (ss_cache st2) (manifestKey sy account)
                                (ManifestRow \<lparr>mf_last_complete_sync = now, mf_items = n\<rparr>) of
                           (Inl e, c) \<Rightarrow> (Some (SE_store e), stats, st2\<lparr>ss_cache := c\<rparr>)
                         | (Inr _, c) \<Rightarrow> (None, stats, st2\<lparr>ss_cache := c\<rparr>))))))"

subsection \<open>Lazy providers\<close>

fun ingest_items ::
    "('r, 'e) Synchronizer \<Rightarrow> string \<Rightarrow> CatalogueItem list \<Rightarrow> nat \<Rightarrow> 'r sync_state
     \<Rightarrow> 'e sync_error option \<times> nat \<times> 'r sync_state" where
  "ingest_items sy account [] n st = (None, n, st)"
| "ingest_items sy account (item # items) n st =
     (let absent = is_err (Store_Get (ss_cache st) (item_prefix sy account @ ci_native_id item))
      in (case land_item sy account item st of
            (Some e, st') \<Rightarrow> (Some e, n, st')
          | (None, st') \<Rightarrow>
              ingest_items sy account items (n + 1)
                (if absent then notifyAvailability sy account (ci_native_id item) True st' else st')))"

definition IngestItems ::
    "('r, 'e) Synchronizer \<Rightarrow> string \<Rightarrow> CatalogueItem option list \<Rightarrow> 'r sync_state
     \<Rightarrow> 'e sync_error option \<times> Stats \<times> 'r sync_state" where
  "IngestItems sy account items st =
     (case first_err ValidateCatalogueItem items of
        Some v \<Rightarrow> (Some (SE_contract v), no_stats, st)
      | None \<Rightarrow>
          (case ingest_items sy account (page_items items) 0 st of
             (e, n, st') \<Rightarrow> (e, no_stats\<lparr>sa_items := n\<rparr>, st')))"

text \<open>
  The loop of \<open>RefreshItems\<close> over the answer: each item is validated when its turn comes. \<open>present\<close>
  lists the ids seen, and \<open>arrived\<close> says of each whether it was absent when it was last written.
\<close>

fun refresh_items ::
    "('r, 'e) Synchronizer \<Rightarrow> string \<Rightarrow> CatalogueItem option list \<Rightarrow> (string \<times> bool) list \<Rightarrow> nat \<Rightarrow> 'r sync_state
     \<Rightarrow> 'e sync_error option \<times> (string \<times> bool) list \<times> nat \<times> 'r sync_state" where
  "refresh_items sy account [] arrived n st = (None, arrived, n, st)"
| "refresh_items sy account (x # xs) arrived n st =
     (case ValidateCatalogueItem x of
        Some v \<Rightarrow> (Some (SE_contract v), arrived, n, st)
      | None \<Rightarrow>
          (let item = the x;
               absent = is_err (Store_Get (ss_cache st) (item_prefix sy account @ ci_native_id item))
           in (case land_item sy account item st of
                 (Some e, st') \<Rightarrow> (Some e, arrived, n, st')
               | (None, st') \<Rightarrow>
                   refresh_items sy account xs (AList.update (ci_native_id item) absent arrived) (n + 1) st')))"

definition RefreshItems ::
    "('r, 'e) Synchronizer \<Rightarrow> string \<Rightarrow> string list \<Rightarrow> 'r sync_state \<Rightarrow> 'e sync_error option \<times> Stats \<times> 'r sync_state" where
  "RefreshItems sy account nativeIDs st =
     (case sy_refresh sy of
        None \<Rightarrow> (Some SE_no_refresh, no_stats, st)
      | Some refresh \<Rightarrow>
          if nativeIDs = [] then (None, no_stats, st)
          else (case refresh account nativeIDs of
             Inl e \<Rightarrow> (Some (SE_client e), no_stats, st)
           | Inr xs \<Rightarrow>
               (case refresh_items sy account xs [] 0 st of
                  (Some e, arrived, n, st1) \<Rightarrow> (Some e, no_stats\<lparr>sa_items := n\<rparr>, st1)
                | (None, arrived, n, st1) \<Rightarrow>
                    (case drop_departed sy account (filter (\<lambda>i. map_of arrived i = None) nativeIDs) 0 st1 of
                       (Some e, removed, st2) \<Rightarrow> (Some e, \<lparr>sa_items = n, sa_pages = 0, sa_removed = removed\<rparr>, st2)
                     | (None, removed, st2) \<Rightarrow>
                         (None, \<lparr>sa_items = n, sa_pages = 0, sa_removed = removed\<rparr>,
                          announce sy account
                            (filter (\<lambda>i. map_of arrived i = Some True) (map ci_native_id (page_items xs))) st2)))))"

subsection \<open>Reading\<close>

fun list_items :: "cache_row Store \<Rightarrow> string list \<Rightarrow> 'e sync_error + CatalogueItem list" where
  "list_items c [] = Inr []"
| "list_items c (k # ks) =
     (if HasSuffix k manifestSuffix then list_items c ks
      else (case Store_Get c k of
         Inl e \<Rightarrow> Inl (SE_store e)
       | Inr (ManifestRow _) \<Rightarrow> Inl (SE_decode k)
       | Inr (ItemRow item) \<Rightarrow> (case list_items c ks of Inl e \<Rightarrow> Inl e | Inr out \<Rightarrow> Inr (item # out))))"

definition ListItems :: "('r, 'e) Synchronizer \<Rightarrow> cache_row Store \<Rightarrow> string \<Rightarrow> 'e sync_error + CatalogueItem list" where
  "ListItems sy c account =
     (case Store_List c (item_prefix sy account) of
        Inl e \<Rightarrow> Inl (SE_store e)
      | Inr ks \<Rightarrow> list_items c ks)"

text \<open>A row that holds an item reads as an empty manifest: its fields are unknown to the decoder.\<close>

definition Manifest :: "('r, 'e) Synchronizer \<Rightarrow> cache_row Store \<Rightarrow> string \<Rightarrow> 'e sync_error + manifest option" where
  "Manifest sy c account =
     (case Store_Get c (manifestKey sy account) of
        Inl e \<Rightarrow> if e = ErrKeyNotFound then Inr None else Inl (SE_store e)
      | Inr (ManifestRow m) \<Rightarrow> Inr (Some m)
      | Inr (ItemRow _) \<Rightarrow> Inr (Some \<lparr>mf_last_complete_sync = 0, mf_items = 0\<rparr>))"

fun account_ids :: "string \<Rightarrow> string list \<Rightarrow> string list \<Rightarrow> string list" where
  "account_ids p seen [] = []"
| "account_ids p seen (k # ks) =
     (case Cut (TrimPrefix k p) CHR ''/'' of
        None \<Rightarrow> account_ids p seen ks
      | Some (acc, _) \<Rightarrow>
          if acc = [] \<or> acc \<in> set seen then account_ids p seen ks
          else acc # account_ids p (acc # seen) ks)"

definition ListAccounts :: "('r, 'e) Synchronizer \<Rightarrow> cache_row Store \<Rightarrow> 'e sync_error + string list" where
  "ListAccounts sy c =
     (let p = sy_provider sy @ ''/''
      in (case Store_List c p of Inl e \<Rightarrow> Inl (SE_store e) | Inr ks \<Rightarrow> Inr (account_ids p [] ks)))"

text \<open>The payload of the event about an item, if the item is known to the registry.\<close>

definition news :: "(string \<Rightarrow> string \<Rightarrow> 'e + string option) \<Rightarrow> string \<Rightarrow> string \<Rightarrow> string \<times> bool \<Rightarrow> Payload option list" where
  "news lookup p account c =
     (case lookup p (fst c) of
        Inr (Some e) \<Rightarrow> [Some (AvailabilityEvent account p e (snd c))]
      | _ \<Rightarrow> [])"

lemma EncodeToString_nonempty: "bs \<noteq> [] \<Longrightarrow> EncodeToString bs \<noteq> []"
  by (cases bs) (simp_all add: EncodeToString_def)

lemma availability_event_valid:
  "ValidateEventEnvelope (Some (availability_event sy n account e b)) = None \<longleftrightarrow>
     fst (sy_stamp sy n) \<noteq> [] \<and> account \<noteq> [] \<and> sy_provider sy \<noteq> [] \<and> e \<noteq> []"
  by (cases "fst (sy_stamp sy n)")
    (auto simp: ValidateEventEnvelope_def availability_event_def EncodeToString_nonempty EncodeToString_def then_check_def
      validate_audience_def validate_payload_def split: option.splits)

subsection \<open>The reported catalogue\<close>

text \<open>
  What a provider reports in a run, as a function of its answers: the items of its pages in order, up
  to a page that fails or is invalid or comes beyond the bound, and whether the last page was reached.
\<close>

function catalogue :: "('r, 'e) Synchronizer \<Rightarrow> string \<Rightarrow> string \<Rightarrow> nat \<Rightarrow> CatalogueItem list \<times> bool" where
  "catalogue sy account token pages =
     (if pages \<ge> maxPages then ([], False)
      else
        (case sy_client sy account pages token of
           Inl _ \<Rightarrow> ([], False)
         | Inr resp \<Rightarrow>
             (if ValidateCatalogueSyncResponse resp \<noteq> None then ([], False)
              else
                let items = page_items (get_or [] csr_items resp); token' = get_or [] csr_next_page_token resp
                in if token' = [] then (items, True)
                   else apfst (\<lambda>rest. items @ rest) (catalogue sy account token' (pages + 1)))))"
  by pat_completeness auto
termination
  by (relation "measure (\<lambda>(sy, a, t, pages). maxPages - pages)") auto

declare catalogue.simps [simp del]

text \<open>The last item a catalogue reports under a native id, and the rows of a cache after a complete run.\<close>

definition reported :: "CatalogueItem list \<Rightarrow> string \<Rightarrow> CatalogueItem option" where
  "reported its n = map_of (rev (map (\<lambda>i. (ci_native_id i, i)) its)) n"

definition prev_natives :: "('r, 'e) Synchronizer \<Rightarrow> string \<Rightarrow> cache_row Store \<Rightarrow> string set" where
  "prev_natives sy account c =
     {n. view c (item_prefix sy account @ n) \<noteq> None \<and> \<not> HasSuffix (item_prefix sy account @ n) manifestSuffix}"

definition synced_rows ::
    "('r, 'e) Synchronizer \<Rightarrow> string \<Rightarrow> int \<Rightarrow> CatalogueItem list \<Rightarrow> cache_row Store \<Rightarrow> string \<Rightarrow> cache_row option" where
  "synced_rows sy account now its c k =
     (if k = manifestKey sy account then Some (ManifestRow \<lparr>mf_last_complete_sync = now, mf_items = length its\<rparr>)
      else if HasPrefix k (item_prefix sy account)
      then (case reported its (TrimPrefix k (item_prefix sy account)) of
              Some i \<Rightarrow> Some (ItemRow i)
            | None \<Rightarrow> if HasSuffix k manifestSuffix then view c k else None)
      else view c k)"

lemma reported_None_iff: "reported its n = None \<longleftrightarrow> n \<notin> ci_native_id ` set its"
  by (force simp: reported_def map_of_eq_None_iff)

lemma landed_rows:
  "map_of (rev (map (\<lambda>i. (p @ ci_native_id i, ItemRow i)) its)) (p @ n) = map_option ItemRow (reported its n)"
proof (induction its rule: rev_induct)
  case (snoc i its)
  then show ?case by (simp add: reported_def)
qed (simp add: reported_def)

lemma landed_rows_other: "\<not> HasPrefix k p \<Longrightarrow> map_of (rev (map (\<lambda>i. (p @ ci_native_id i, ItemRow i)) its)) k = None"
  by (auto simp: map_of_eq_None_iff)

lemma foldl_see: "set (foldl see seen ns) = set seen \<union> set ns \<and> (distinct seen \<longrightarrow> distinct (foldl see seen ns))"
  by (induction ns arbitrary: seen) (simp_all add: see_def insert_absorb Un_insert_right)

lemma prev_ids_listed:
  assumes "mem_ok c" and "Store_List c (item_prefix sy account) = Inr ks"
  shows "set (prev_ids sy account ks) = prev_natives sy account c \<and> distinct (prev_ids sy account ks)"
proof -
  let ?p = "item_prefix sy account"
  have iff: "k \<in> set ks \<longleftrightarrow> HasPrefix k ?p \<and> view c k \<noteq> None" for k
    using mem.lst_iff [OF assms, of k] assms(1) by (auto simp: mem_ok_def Store_Get_view split: option.splits)
  show ?thesis
  proof (intro conjI set_eqI iffI)
    fix n
    assume "n \<in> set (prev_ids sy account ks)"
    then obtain k where "k \<in> set ks" "\<not> HasSuffix k manifestSuffix" "n = TrimPrefix k ?p" by (auto simp: prev_ids_def)
    then show "n \<in> prev_natives sy account c"
      by (auto simp: iff prev_natives_def elim!: HasPrefixE)
  next
    fix n
    assume "n \<in> prev_natives sy account c"
    then have "?p @ n \<in> set (filter (\<lambda>k. \<not> HasSuffix k manifestSuffix) ks)" by (simp add: iff prev_natives_def)
    then show "n \<in> set (prev_ids sy account ks)"
      unfolding prev_ids_def set_remdups set_map by (rule rev_image_eqI) simp
  qed (simp add: prev_ids_def)
qed

lemma map_filter_Some_iff: "x \<in> set (List.map_filter (\<lambda>y. y) xs) \<longleftrightarrow> Some x \<in> set xs"
  by (induction xs) (auto simp: List.map_filter_simps split: option.splits)

lemma Store_Put_backend: "st_backend (snd (Store_Put m k v)) = st_backend m"
  by (simp add: Store_Put_def)

lemma Store_Delete_backend: "st_backend (snd (Store_Delete m k)) = st_backend m"
  by (simp add: Store_Delete_def)

subsection \<open>The identity registry behind a synchronizer\<close>

text \<open>
  What a synchronizer needs of its resolver and its entry lookup: a valid item resolves, its lookup
  then answers, and no other item's lookup changes.
\<close>

locale item_identity =
  fixes resolve :: "string \<Rightarrow> CatalogueItem \<Rightarrow> 'r \<Rightarrow> ('e + unit) \<times> 'r"
    and lookup :: "'r \<Rightarrow> string \<Rightarrow> string \<Rightarrow> 'e + string option"
    and ok :: "'r \<Rightarrow> bool"
  assumes resolves: "ok r \<Longrightarrow> p \<noteq> [] \<Longrightarrow> ValidateCatalogueItem (Some it) = None \<Longrightarrow>
      \<exists>r' e. resolve p it r = (Inr (), r') \<and> ok r' \<and> lookup r' p (ci_native_id it) = Inr (Some e) \<and> e \<noteq> []"
    and resolve_other: "ok r \<Longrightarrow> p \<noteq> [] \<Longrightarrow> ValidateCatalogueItem (Some it) = None \<Longrightarrow> k \<noteq> ci_native_id it \<Longrightarrow>
      lookup (snd (resolve p it r)) p k = lookup r p k"
    and lookup_id: "ok r \<Longrightarrow> lookup r p n \<noteq> Inr (Some [])"
begin

text \<open>A synchronizer wired with this registry, a sink, and an encoder that accepts every item.\<close>

definition wired :: "('r, 'e) Synchronizer \<Rightarrow> bool" where
  "wired sy \<longleftrightarrow> sy_resolver sy = Some resolve \<and> sy_entries sy = Some lookup \<and> sy_sink sy
     \<and> sy_provider sy \<noteq> [] \<and> (\<forall>it. sy_encodes sy it) \<and> (\<forall>n. fst (sy_stamp sy n) \<noteq> [])"

text \<open>What is known after \<open>its\<close> were landed.\<close>

definition landed :: "('r, 'e) Synchronizer \<Rightarrow> string \<Rightarrow> CatalogueItem list \<Rightarrow> 'r sync_state \<Rightarrow> 'r sync_state \<Rightarrow> bool" where
  "landed sy account its st st' \<longleftrightarrow>
     Store_ok (ss_cache st') \<and> st_backend (ss_cache st') = st_backend (ss_cache st)
     \<and> ok (ss_reg st') \<and> ss_events st' = ss_events st
     \<and> view (ss_cache st') = view (ss_cache st) ++ map_of (rev (map (\<lambda>i. (item_prefix sy account @ ci_native_id i, ItemRow i)) its))
     \<and> (\<forall>i \<in> set its. \<exists>e. lookup (ss_reg st') (sy_provider sy) (ci_native_id i) = Inr (Some e))
     \<and> (\<forall>k. k \<notin> ci_native_id ` set its \<longrightarrow> lookup (ss_reg st') (sy_provider sy) k = lookup (ss_reg st) (sy_provider sy) k)"

lemma landed_Nil: "Store_ok (ss_cache st) \<Longrightarrow> ok (ss_reg st) \<Longrightarrow> landed sy account [] st st"
  by (simp add: landed_def)

lemma landed_append:
  assumes a: "landed sy account xs s1 s2" and b: "landed sy account ys s2 s3"
  shows "landed sy account (xs @ ys) s1 s3"
proof -
  let ?look = "\<lambda>s k. lookup (ss_reg s) (sy_provider sy) k"
  have same: "k \<notin> ci_native_id ` set ys \<Longrightarrow> ?look s3 k = ?look s2 k" for k using b by (simp add: landed_def)
  have "\<exists>e. ?look s3 (ci_native_id i) = Inr (Some e)" if "i \<in> set (xs @ ys)" for i
  proof (cases "ci_native_id i \<in> ci_native_id ` set ys")
    case True
    then obtain j where "j \<in> set ys" "ci_native_id i = ci_native_id j" by auto
    then show ?thesis using b by (simp add: landed_def)
  next
    case False
    then have "i \<in> set xs" using that by auto
    then show ?thesis using a same [OF False] by (simp add: landed_def)
  qed
  moreover have "?look s3 k = ?look s1 k" if "k \<notin> ci_native_id ` set (xs @ ys)" for k
    using that same [of k] a by (simp add: landed_def image_Un)
  ultimately show ?thesis using a b by (simp add: landed_def)
qed

lemma land_item_wired:
  assumes "wired sy" and "Store_ok (ss_cache st)" and "ok (ss_reg st)" and "ValidateCatalogueItem (Some it) = None"
  obtains st' where "land_item sy account it st = (None, st')" "landed sy account [it] st st'"
proof -
  have sy: "sy_resolver sy = Some resolve" "sy_provider sy \<noteq> []" "sy_encodes sy it"
    using assms(1) by (auto simp: wired_def)
  let ?k = "item_prefix sy account @ ci_native_id it"
  obtain c where c: "Store_Put (ss_cache st) ?k (ItemRow it) = (Inr (), c)" "Store_ok c" "view c = (view (ss_cache st))(?k \<mapsto> ItemRow it)"
      "st_backend c = st_backend (ss_cache st)"
    using kv.put_fst [OF assms(2), of ?k "ItemRow it"] kv.put_ok [OF assms(2), of ?k "ItemRow it"]
      view_Put [OF assms(2), of ?k "ItemRow it"] Store_Put_backend [of "ss_cache st" ?k "ItemRow it"]
    by (cases "Store_Put (ss_cache st) ?k (ItemRow it)") auto
  obtain r e where r: "resolve (sy_provider sy) it (ss_reg st) = (Inr (), r)" "ok r"
    "lookup r (sy_provider sy) (ci_native_id it) = Inr (Some e)"
    using resolves [OF assms(3) sy(2) assms(4)] by blast
  have other: "lookup r (sy_provider sy) k = lookup (ss_reg st) (sy_provider sy) k" if "k \<noteq> ci_native_id it" for k
    using resolve_other [OF assms(3) sy(2) assms(4) that] r(1) by simp
  show thesis
  proof (rule that)
    show "land_item sy account it st = (None, st\<lparr>ss_cache := c, ss_reg := r\<rparr>)"
      using sy c r by (simp add: land_item_def)
    show "landed sy account [it] st (st\<lparr>ss_cache := c, ss_reg := r\<rparr>)"
      using c r other by (simp add: landed_def map_add_def fun_eq_iff)
  qed
qed

lemma land_page_wired:
  assumes "wired sy" and "Store_ok (ss_cache st)" and "ok (ss_reg st)" and "\<forall>it \<in> set its. ValidateCatalogueItem (Some it) = None"
  shows "\<exists>st'. land_page sy account its seen n st = (None, foldl see seen (map ci_native_id its), n + length its, st')
     \<and> landed sy account its st st'"
  using assms(2-4)
proof (induction its arbitrary: seen n st)
  case Nil
  then show ?case by (simp add: landed_Nil)
next
  case (Cons it its)
  then have "ValidateCatalogueItem (Some it) = None" by simp
  with land_item_wired [OF assms(1) Cons.prems(1,2)] obtain s1 where
    s1: "land_item sy account it st = (None, s1)" "landed sy account [it] st s1" by metis
  then have "Store_ok (ss_cache s1)" "ok (ss_reg s1)" by (simp_all add: landed_def)
  from Cons.IH [OF this, of "see seen (ci_native_id it)" "n + 1"] Cons.prems(3) obtain s2 where
    "land_page sy account its (see seen (ci_native_id it)) (n + 1) s1
       = (None, foldl see (see seen (ci_native_id it)) (map ci_native_id its), n + 1 + length its, s2)"
    "landed sy account its s1 s2" by auto
  with s1 landed_append [OF s1(2), of its s2] show ?case by auto
qed

lemma notify_wired:
  assumes "wired sy" and "account \<noteq> []" and "ok (ss_reg st)"
  shows "\<exists>evs. notifyAvailability sy account n b st = st\<lparr>ss_events := ss_events st @ evs\<rparr>
     \<and> map ev_payload evs = news (lookup (ss_reg st)) (sy_provider sy) account (n, b)"
proof -
  have sy: "sy_entries sy = Some lookup" "sy_sink sy" "sy_provider sy \<noteq> []" "\<And>n. fst (sy_stamp sy n) \<noteq> []"
    using assms(1) by (auto simp: wired_def)
  show ?thesis
  proof (cases "\<exists>e. lookup (ss_reg st) (sy_provider sy) n = Inr (Some e)")
    case False
    then show ?thesis using sy
      by (intro exI [of _ "[]"]) (auto simp: notifyAvailability_def news_def split: sum.splits option.splits)
  next
    case True
    then obtain e where e: "lookup (ss_reg st) (sy_provider sy) n = Inr (Some e)" by blast
    then have "e \<noteq> []" using lookup_id [OF assms(3)] by metis
    let ?ev = "availability_event sy (length (ss_events st)) account e b"
    have "ValidateEventEnvelope (Some ?ev) = None"
      using e \<open>e \<noteq> []\<close> sy assms(2) by (simp add: availability_event_valid)
    then show ?thesis using e sy
      by (intro exI [of _ "[?ev]"]) (simp add: notifyAvailability_def news_def Let_def, simp add: availability_event_def)
  qed
qed

lemma page_valid:
  "ValidateCatalogueSyncResponse resp = None \<Longrightarrow> it \<in> set (page_items (get_or [] csr_items resp)) \<Longrightarrow>
     ValidateCatalogueItem (Some it) = None"
  by (auto simp: ValidateCatalogueSyncResponse_iff page_items_def map_filter_Some_iff)

text \<open>The paging loop lands exactly the items of the pages before the first that fails.\<close>

lemma sync_pages_wired:
  assumes "wired sy" and "Store_ok (ss_cache st)" and "ok (ss_reg st)"
    and "sync_pages sy account token pages seen n st = (err, seen', n', pages', st')"
  shows "\<exists>its. landed sy account its st st' \<and> seen' = foldl see seen (map ci_native_id its) \<and> n' = n + length its
     \<and> catalogue sy account token pages = (its, err = None)"
  using assms
proof (induction sy account token pages seen n st rule: sync_pages.induct)
  case (1 sy account token pages seen n st)
  show ?case
  proof (cases "pages \<ge> maxPages")
    case True
    then show ?thesis using "1.prems"
      by (intro exI [of _ "[]"]) (auto simp: sync_pages.simps [of sy] catalogue.simps [of sy] landed_Nil)
  next
    case more: False
    show ?thesis
    proof (cases "sy_client sy account pages token")
      case (Inl e)
      then show ?thesis using "1.prems" more
        by (intro exI [of _ "[]"]) (auto simp: sync_pages.simps [of sy] catalogue.simps [of sy] landed_Nil)
    next
      case (Inr resp)
      show ?thesis
      proof (cases "ValidateCatalogueSyncResponse resp")
        case (Some v)
        then show ?thesis using "1.prems" more Inr
          by (intro exI [of _ "[]"]) (auto simp: sync_pages.simps [of sy] catalogue.simps [of sy] landed_Nil)
      next
        case None
        let ?its = "page_items (get_or [] csr_items resp)" and ?tok = "get_or [] csr_next_page_token resp"
        let ?seen = "foldl see seen (map ci_native_id ?its)"
        obtain s1 where s1: "land_page sy account ?its seen n st = (None, ?seen, n + length ?its, s1)" "landed sy account ?its st s1"
          using land_page_wired [OF "1.prems"(1,2,3), of ?its account seen n] page_valid [OF None] by metis
        show ?thesis
        proof (cases "?tok = []")
          case True
          then show ?thesis using "1.prems"(4) more Inr None s1
            by (intro exI [of _ ?its]) (auto simp: sync_pages.simps [of sy] catalogue.simps [of sy])
        next
          case False
          have ok1: "Store_ok (ss_cache s1)" "ok (ss_reg s1)" using s1(2) by (simp_all add: landed_def)
          have rec: "sync_pages sy account ?tok (pages + 1) ?seen (n + length ?its) s1 = (err, seen', n', pages', st')"
            using "1.prems"(4) more Inr None s1(1) False by (simp add: sync_pages.simps [of sy account token])
          from "1.IH" [OF more Inr None s1(1) [symmetric] refl refl refl refl False "1.prems"(1) ok1 rec] obtain its where
            its: "landed sy account its s1 st'" "seen' = foldl see ?seen (map ci_native_id its)"
              "n' = n + length ?its + length its" "catalogue sy account ?tok (pages + 1) = (its, err = None)" by blast
          show ?thesis
            using its landed_append [OF s1(2) its(1)] more Inr None False
            by (intro exI [of _ "?its @ its"]) (auto simp: catalogue.simps [of sy account token])
        qed
      qed
    qed
  qed
qed

text \<open>Reconciliation drops exactly the departed rows, and reports each change of a known item.\<close>

lemma announce_wired:
  assumes "wired sy" and "account \<noteq> []" and "ok (ss_reg st)"
  shows "\<exists>evs. announce sy account ns st = st\<lparr>ss_events := ss_events st @ evs\<rparr>
     \<and> map ev_payload evs = concat (map (\<lambda>n. news (lookup (ss_reg st)) (sy_provider sy) account (n, True)) ns)"
  using assms(3)
proof (induction ns arbitrary: st)
  case Nil
  then show ?case by (intro exI [of _ "[]"]) simp
next
  case (Cons n ns)
  from notify_wired [OF assms(1,2) Cons.prems, of n True] obtain e1 where
    e1: "notifyAvailability sy account n True st = st\<lparr>ss_events := ss_events st @ e1\<rparr>"
      "map ev_payload e1 = news (lookup (ss_reg st)) (sy_provider sy) account (n, True)" by blast
  from Cons.IH [of "st\<lparr>ss_events := ss_events st @ e1\<rparr>"] Cons.prems obtain e2 where
    "announce sy account ns (st\<lparr>ss_events := ss_events st @ e1\<rparr>)
       = st\<lparr>ss_events := (ss_events st @ e1) @ e2\<rparr>"
    "map ev_payload e2 = concat (map (\<lambda>n. news (lookup (ss_reg st)) (sy_provider sy) account (n, True)) ns)" by auto
  with e1 show ?case by (intro exI [of _ "e1 @ e2"]) simp
qed

lemma drop_departed_wired:
  assumes "wired sy" and "account \<noteq> []" and "ok (ss_reg st)" and "Store_ok (ss_cache st)"
  shows "\<exists>c evs. drop_departed sy account ns removed st
       = (None, removed + length ns, st\<lparr>ss_cache := c, ss_events := ss_events st @ evs\<rparr>)
     \<and> Store_ok c \<and> st_backend c = st_backend (ss_cache st) \<and> view c = view (ss_cache st) |` (- (\<lambda>n. item_prefix sy account @ n) ` set ns)
     \<and> map ev_payload evs = concat (map (\<lambda>n. news (lookup (ss_reg st)) (sy_provider sy) account (n, False)) ns)"
  using assms(3,4)
proof (induction ns arbitrary: removed st)
  case Nil
  then show ?case by (intro exI [of _ "ss_cache st"] exI [of _ "[]"]) simp
next
  case (Cons n ns)
  let ?k = "item_prefix sy account @ n"
  obtain c where c: "Store_Delete (ss_cache st) ?k = (Inr (), c)" "Store_ok c" "view c = (view (ss_cache st))(?k := None)"
      "st_backend c = st_backend (ss_cache st)"
    using kv.del_pair [OF Cons.prems(2), of ?k] kv.del_ok [OF Cons.prems(2), of ?k] view_Delete [OF Cons.prems(2), of ?k]
      Store_Delete_backend [of "ss_cache st" ?k] by metis
  from notify_wired [OF assms(1,2), of "st\<lparr>ss_cache := c\<rparr>" n False] Cons.prems obtain e1 where
    e1: "notifyAvailability sy account n False (st\<lparr>ss_cache := c\<rparr>) = st\<lparr>ss_cache := c, ss_events := ss_events st @ e1\<rparr>"
      "map ev_payload e1 = news (lookup (ss_reg st)) (sy_provider sy) account (n, False)" by auto
  from Cons.IH [of "st\<lparr>ss_cache := c, ss_events := ss_events st @ e1\<rparr>" "removed + 1"] Cons.prems c(2)
  obtain c2 e2 where
    2: "drop_departed sy account ns (removed + 1) (st\<lparr>ss_cache := c, ss_events := ss_events st @ e1\<rparr>)
       = (None, removed + 1 + length ns, st\<lparr>ss_cache := c2, ss_events := (ss_events st @ e1) @ e2\<rparr>)"
      "Store_ok c2" "st_backend c2 = st_backend c" "view c2 = view c |` (- (\<lambda>n. item_prefix sy account @ n) ` set ns)"
      "map ev_payload e2 = concat (map (\<lambda>n. news (lookup (ss_reg st)) (sy_provider sy) account (n, False)) ns)" by auto
  then show ?case using c(1,3,4) e1
    by (intro exI [of _ c2] exI [of _ "e1 @ e2"]) (auto simp: fun_eq_iff restrict_map_def)
qed

text \<open>A complete run: the rows, the statistics, and one event per change of a known item.\<close>

lemma sync_exact:
  assumes sy: "wired sy" and "account \<noteq> []" and ok: "ok (ss_reg st)" and mem: "mem_ok (ss_cache st)"
    and cat: "catalogue sy account [] 0 = (its, True)"
  shows "\<exists>stats st' changes evs. SyncAccount sy now account st = (None, stats, st')
     \<and> sa_items stats = length its \<and> sa_removed stats = card (prev_natives sy account (ss_cache st) - ci_native_id ` set its)
     \<and> mem_ok (ss_cache st') \<and> view (ss_cache st') = synced_rows sy account now its (ss_cache st)
     \<and> (\<forall>i \<in> set its. \<exists>e. lookup (ss_reg st') (sy_provider sy) (ci_native_id i) = Inr (Some e))
     \<and> ss_events st' = ss_events st @ evs
     \<and> map ev_payload evs = concat (map (news (lookup (ss_reg st')) (sy_provider sy) account) changes) \<and> distinct changes
     \<and> set changes = (prev_natives sy account (ss_cache st) - ci_native_id ` set its) \<times> {False}
         \<union> (ci_native_id ` set its - prev_natives sy account (ss_cache st)) \<times> {True}"
proof -
  let ?p = "item_prefix sy account" and ?nat = "ci_native_id ` set its"
  have st_ok: "Store_ok (ss_cache st)" using mem by (rule mem_ok_Store_ok)
  obtain ks where ks: "Store_List (ss_cache st) ?p = Inr ks" using kv.lst_total [OF st_ok] by blast
  obtain err seen n pages s1 where run: "sync_pages sy account [] 0 [] 0 st = (err, seen, n, pages, s1)" by (metis prod_cases5)
  from sync_pages_wired [OF sy st_ok ok run] cat have
    s1: "landed sy account its st s1" "seen = foldl see [] (map ci_native_id its)" "n = length its" "err = None"
    by (auto split: if_splits)
  have seen: "set seen = ?nat" "distinct seen" using foldl_see [of "[]" "map ci_native_id its"] s1(2) by auto
  let ?prev = "prev_ids sy account ks"
  have prev: "set ?prev = prev_natives sy account (ss_cache st)" "distinct ?prev"
    using prev_ids_listed [OF mem ks] by auto
  let ?gone = "filter (\<lambda>n. n \<notin> set seen) ?prev" and ?new = "filter (\<lambda>n. n \<notin> set ?prev) seen"
  have ok1: "ok (ss_reg s1)" "Store_ok (ss_cache s1)" "ss_events s1 = ss_events st"
    and rows1: "view (ss_cache s1) = view (ss_cache st) ++ map_of (rev (map (\<lambda>i. (?p @ ci_native_id i, ItemRow i)) its))"
    and known: "\<forall>i \<in> set its. \<exists>e. lookup (ss_reg s1) (sy_provider sy) (ci_native_id i) = Inr (Some e)"
    using s1(1) by (simp_all add: landed_def)
  obtain c2 e2 where 2: "drop_departed sy account ?gone 0 s1
       = (None, length ?gone, s1\<lparr>ss_cache := c2, ss_events := ss_events st @ e2\<rparr>)"
      "Store_ok c2" "st_backend c2 = st_backend (ss_cache s1)" "view c2 = view (ss_cache s1) |` (- (\<lambda>n. ?p @ n) ` set ?gone)"
      "map ev_payload e2 = concat (map (\<lambda>n. news (lookup (ss_reg s1)) (sy_provider sy) account (n, False)) ?gone)"
    using drop_departed_wired [OF sy assms(2) ok1(1,2), of ?gone 0] ok1(3) by auto
  let ?s2 = "s1\<lparr>ss_cache := c2, ss_events := ss_events st @ e2\<rparr>"
  obtain e3 where 3: "announce sy account ?new ?s2 = ?s2\<lparr>ss_events := (ss_events st @ e2) @ e3\<rparr>"
      "map ev_payload e3 = concat (map (\<lambda>n. news (lookup (ss_reg s1)) (sy_provider sy) account (n, True)) ?new)"
    using announce_wired [OF sy assms(2), of ?s2 ?new] ok1(1) by auto
  let ?m = "ManifestRow \<lparr>mf_last_complete_sync = now, mf_items = length its\<rparr>"
  obtain c3 where c3: "Store_Put c2 (manifestKey sy account) ?m = (Inr (), c3)" "view c3 = (view c2)(manifestKey sy account \<mapsto> ?m)"
    using kv.put_pair [OF 2(2)] view_Put [OF 2(2)] by metis
  then have mem3: "mem_ok c3"
    using mem s1(1) 2(2,3) kv.put_ok [OF 2(2), of "manifestKey sy account" ?m] Store_Put_backend [of c2 "manifestKey sy account" ?m]
    by (simp add: mem_ok_def landed_def)
  have rows: "view c3 k = synced_rows sy account now its (ss_cache st) k" for k
  proof (cases "k = manifestKey sy account")
    case True
    then show ?thesis by (simp add: c3(2) synced_rows_def)
  next
    case other: False
    show ?thesis
    proof (cases "HasPrefix k ?p")
      case False
      then have "k \<notin> (\<lambda>n. ?p @ n) ` set ?gone" by auto
      with False other show ?thesis
        by (simp add: c3(2) 2(4) rows1 synced_rows_def map_add_def landed_rows_other)
    next
      case True
      then obtain m where k: "k = ?p @ m" by (auto elim: HasPrefixE)
      have gone: "k \<in> (\<lambda>n. ?p @ n) ` set ?gone \<longleftrightarrow> m \<in> prev_natives sy account (ss_cache st) \<and> reported its m = None"
        by (auto simp: k prev(1) seen(1) reported_None_iff)
      have "view c2 k = (if m \<in> prev_natives sy account (ss_cache st) \<and> reported its m = None then None else view (ss_cache s1) k)"
        unfolding 2(4) restrict_map_def using gone by simp
      then show ?thesis
        using other by (cases "reported its m")
          (auto simp: c3(2) rows1 map_add_def k landed_rows synced_rows_def prev_natives_def)
    qed
  qed
  have result: "SyncAccount sy now account st
      = (None, \<lparr>sa_items = length its, sa_pages = pages, sa_removed = length ?gone\<rparr>,
         ?s2\<lparr>ss_events := (ss_events st @ e2) @ e3, ss_cache := c3\<rparr>)"
    using run s1 2(1) 3(1) c3(1) ks by (simp add: SyncAccount_def reconcile_def Let_def)
  have len: "length ?gone = card (prev_natives sy account (ss_cache st) - ?nat)"
    using prev seen(1) distinct_card [of ?gone] by (simp add: set_diff_eq)
  let ?changes = "map (\<lambda>n. (n, False)) ?gone @ map (\<lambda>n. (n, True)) ?new"
  have evs: "map ev_payload (e2 @ e3) = concat (map (news (lookup (ss_reg s1)) (sy_provider sy) account) ?changes)"
    using 2(5) 3(2) by (simp add: comp_def)
  have dist: "distinct ?changes" using prev(2) seen(2) by (auto simp: distinct_map inj_on_def)
  have set: "set ?changes = (prev_natives sy account (ss_cache st) - ?nat) \<times> {False} \<union> (?nat - prev_natives sy account (ss_cache st)) \<times> {True}"
    using prev(1) seen(1) by auto
  have rows': "view c3 = synced_rows sy account now its (ss_cache st)" using rows by (rule ext)
  show ?thesis
    by (rule exI [of _ "\<lparr>sa_items = length its, sa_pages = pages, sa_removed = length ?gone\<rparr>"],
      rule exI [of _ "?s2\<lparr>ss_events := (ss_events st @ e2) @ e3, ss_cache := c3\<rparr>"],
      rule exI [of _ ?changes], rule exI [of _ "e2 @ e3"])
     (intro conjI; (rule result | rule set | rule dist | simp add: rows' mem3 len known evs del: set_append map_append filter_append set_map set_filter))
qed

text \<open>An aborted run reports an error, deletes nothing and announces nothing.\<close>

lemma sync_abort:
  assumes sy: "wired sy" and ok: "ok (ss_reg st)" and st_ok: "Store_ok (ss_cache st)"
    and cat: "catalogue sy account [] 0 = (its, False)"
  shows "\<exists>e stats st'. SyncAccount sy now account st = (Some e, stats, st') \<and> landed sy account its st st'
     \<and> sa_items stats = length its"
proof -
  obtain ks where ks: "Store_List (ss_cache st) (item_prefix sy account) = Inr ks" using kv.lst_total [OF st_ok] by blast
  obtain err seen n pages s1 where run: "sync_pages sy account [] 0 [] 0 st = (err, seen, n, pages, s1)" by (metis prod_cases5)
  from sync_pages_wired [OF sy st_ok ok run] cat obtain e where
    "landed sy account its st s1" "n = length its" "err = Some e" by auto
  then show ?thesis using run ks by (auto simp: SyncAccount_def)
qed


end

subsection \<open>The item registry behind a synchronizer\<close>

text \<open>
  \<open>registryResolver\<close> of \<open>internal/slotwiring/jellyfin.go\<close>: every item is resolved, and an outcome
  other than unchanged enqueues its entry for enrichment. The events of the outcome are dropped. The
  state holds the registry, the queue behind the notification, if one is wired, and the random draws.
\<close>

record identity_state =
  id_reg :: Registry
  id_queue :: "InMemoryQueue option"
  id_rand :: "nat \<Rightarrow> entropy"
  id_draw :: nat

definition registryResolver_Resolve ::
    "string \<Rightarrow> CatalogueItem \<Rightarrow> identity_state \<Rightarrow> (reg_error + unit) \<times> identity_state" where
  "registryResolver_Resolve provider item s =
     (case Resolve (id_reg s) (id_rand s (id_draw s)) provider (Some item) of
        (Inl e, r) \<Rightarrow> (Inl e, s\<lparr>id_reg := r, id_draw := id_draw s + 1\<rparr>)
      | (Inr out, r) \<Rightarrow>
          (Inr (), s\<lparr>id_reg := r, id_draw := id_draw s + 1,
             id_queue := (if oc_status out \<noteq> StatusUnchanged
               then map_option (\<lambda>q. Enqueue q (oc_entry out)) (id_queue s) else id_queue s)\<rparr>))"

definition identity_Lookup :: "identity_state \<Rightarrow> string \<Rightarrow> string \<Rightarrow> reg_error + string option" where
  "identity_Lookup s = Lookup (id_reg s)"

definition identity_ok :: "identity_state \<Rightarrow> bool" where
  "identity_ok s \<longleftrightarrow> reg_ok (id_reg s) \<and> (\<forall>n. rn_entry (id_rand s n) \<noteq> None)"

lemma Lookup_id:
  assumes "reg_ok r"
  shows "Lookup r p n \<noteq> Inr (Some [])"
proof
  assume l: "Lookup r p n = Inr (Some [])"
  then have "p \<noteq> []" "n \<noteq> []" by (auto simp: Lookup_def split: if_splits)
  with l Lookup_eq [OF assms] obtain mr where "mapping_at r p n = Some mr" "mr_entry mr = []" by fastforce
  with mapping_at_entry [OF assms] entry_at_ok [OF assms] show False by (fastforce simp: entry_ok_def)
qed

lemma registryResolver_effect:
  assumes "identity_ok s" and "p \<noteq> []" and "ValidateCatalogueItem (Some item) = None"
  shows "\<exists>s' out. registryResolver_Resolve p item s = (Inr (), s') \<and> identity_ok s'
     \<and> mapping_at (id_reg s') p (ci_native_id item) = Some out
     \<and> (\<forall>k. k \<noteq> ci_native_id item \<longrightarrow> mapping_at (id_reg s') p k = mapping_at (id_reg s) p k)"
proof -
  have ok: "reg_ok (id_reg s)" and rn: "rn_entry (id_rand s (id_draw s)) \<noteq> None"
    using assms(1) by (simp_all add: identity_ok_def)
  let ?res = "resolve_valid (id_reg s) (id_rand s (id_draw s)) p item"
  have eq: "Resolve (id_reg s) (id_rand s (id_draw s)) p (Some item) = ?res"
    using assms(3,2) by (rule Resolve_valid_eq)
  obtain out mr where "fst ?res = Inr out" "mapping_at (snd ?res) p (ci_native_id item) = Some mr"
    using resolve_mapping [OF ok rn] by blast
  moreover have "reg_ok (snd ?res)" using ok by (rule resolve_valid_ok)
  moreover have "mapping_at (snd ?res) p k = mapping_at (id_reg s) p k" if "k \<noteq> ci_native_id item" for k
    using resolve_other_mapping [OF ok] that by blast
  ultimately show ?thesis
    using assms(1) by (cases ?res) (auto simp: registryResolver_Resolve_def eq identity_ok_def)
qed

interpretation ident: item_identity registryResolver_Resolve identity_Lookup identity_ok
proof unfold_locales
  fix r and p :: string and it :: CatalogueItem
  assume a: "identity_ok r" "p \<noteq> []" "ValidateCatalogueItem (Some it) = None"
  have n: "ci_native_id it \<noteq> []" using a(3) by (simp add: ValidateCatalogueItem_iff)
  obtain s' mr where s': "registryResolver_Resolve p it r = (Inr (), s')" "identity_ok s'"
    "mapping_at (id_reg s') p (ci_native_id it) = Some mr"
    "\<And>k. k \<noteq> ci_native_id it \<Longrightarrow> mapping_at (id_reg s') p k = mapping_at (id_reg r) p k"
    using registryResolver_effect [OF a] by blast
  have ok: "reg_ok (id_reg r)" "reg_ok (id_reg s')" using a(1) s'(2) by (simp_all add: identity_ok_def)
  have l: "identity_Lookup s' p (ci_native_id it) = Inr (Some (mr_entry mr))"
    using s'(3) by (simp add: identity_Lookup_def Lookup_eq [OF ok(2) a(2) n])
  then have "mr_entry mr \<noteq> []" using Lookup_id [OF ok(2)] by (metis identity_Lookup_def)
  then show "\<exists>r' e. registryResolver_Resolve p it r = (Inr (), r') \<and> identity_ok r'
      \<and> identity_Lookup r' p (ci_native_id it) = Inr (Some e) \<and> e \<noteq> []"
    using s' l by blast
  show "k \<noteq> ci_native_id it \<Longrightarrow> identity_Lookup (snd (registryResolver_Resolve p it r)) p k = identity_Lookup r p k" for k
    using s'(1,4) Lookup_frame [OF ok] by (simp add: identity_Lookup_def)
next
  fix r and p n :: string
  assume "identity_ok r"
  then show "identity_Lookup r p n \<noteq> Inr (Some [])" by (simp add: identity_ok_def identity_Lookup_def Lookup_id)
qed

text \<open>A synchronizer as \<open>accountSyncMachine\<close> builds it, over items that all encode.\<close>

definition synchronizer_wired :: "(identity_state, reg_error) Synchronizer \<Rightarrow> bool" where
  "synchronizer_wired sy \<longleftrightarrow> sy_resolver sy = Some registryResolver_Resolve \<and> sy_entries sy = Some identity_Lookup
     \<and> sy_sink sy \<and> sy_provider sy \<noteq> [] \<and> (\<forall>it. sy_encodes sy it) \<and> (\<forall>n. fst (sy_stamp sy n) \<noteq> [])"

lemma synchronizer_wired_iff: "synchronizer_wired sy \<longleftrightarrow> ident.wired sy"
  by (simp add: synchronizer_wired_def ident.wired_def)

lemma landed_view:
  assumes "ident.landed sy account its st st'"
  shows "view (ss_cache st') (item_prefix sy account @ n)
      = (case reported its n of Some i \<Rightarrow> Some (ItemRow i) | None \<Rightarrow> view (ss_cache st) (item_prefix sy account @ n))"
    and "\<not> HasPrefix k (item_prefix sy account) \<Longrightarrow> view (ss_cache st') k = view (ss_cache st) k"
proof -
  have rows: "view (ss_cache st') = view (ss_cache st)
      ++ map_of (rev (map (\<lambda>i. (item_prefix sy account @ ci_native_id i, ItemRow i)) its))"
    using assms by (simp add: ident.landed_def)
  show "view (ss_cache st') (item_prefix sy account @ n)
      = (case reported its n of Some i \<Rightarrow> Some (ItemRow i) | None \<Rightarrow> view (ss_cache st) (item_prefix sy account @ n))"
    by (simp add: rows map_add_def landed_rows split: option.split)
  show "\<not> HasPrefix k (item_prefix sy account) \<Longrightarrow> view (ss_cache st') k = view (ss_cache st) k"
    by (simp add: rows map_add_def landed_rows_other)
qed

subsection \<open>Properties\<close>


text \<open>A provider that answers with one film, then with nothing.\<close>

definition demo_pages :: "(CatalogueItem list \<times> string) list \<Rightarrow> string \<Rightarrow> nat \<Rightarrow> string \<Rightarrow> string + CatalogueSyncResponse option" where
  "demo_pages ps account n token =
     (if n < length ps then Inr (Some \<lparr>csr_items = map Some (fst (ps ! n)), csr_next_page_token = snd (ps ! n)\<rparr>)
      else Inl ''unavailable'')"

definition demo_sync :: "(CatalogueItem list \<times> string) list \<Rightarrow> (identity_state, reg_error) Synchronizer" where
  "demo_sync ps = \<lparr>sy_provider = ''p'', sy_client = demo_pages ps, sy_refresh = None,
     sy_resolver = Some registryResolver_Resolve, sy_entries = Some identity_Lookup, sy_sink = True,
     sy_encodes = (\<lambda>_. True), sy_stamp = (\<lambda>_. (''E'', 0))\<rparr>"

definition demo_sync_state :: "identity_state sync_state" where
  "demo_sync_state = \<lparr>ss_cache = NewInMemory,
     ss_reg = \<lparr>id_reg = demo_empty, id_queue = None, id_rand = (\<lambda>_. demo_entropy ''A''), id_draw = 0\<rparr>, ss_events = []\<rparr>"

lemma demo_sync_wired: "synchronizer_wired (demo_sync ps)"
  by (simp add: synchronizer_wired_def demo_sync_def)

lemma demo_provider: "sy_provider (demo_sync ps) = ''p''"
  by (simp add: demo_sync_def)

lemma demo_sync_ok: "identity_ok (ss_reg demo_sync_state)" "mem_ok (ss_cache demo_sync_state)"
  by (simp_all add: demo_sync_state_def identity_ok_def demo_empty_ok)

lemma demo_page_valid:
  "ValidateCatalogueSyncResponse (Some \<lparr>csr_items = [Some (demo_film ''7'' 1979)], csr_next_page_token = t\<rparr>) = None"
  by (simp add: ValidateCatalogueSyncResponse_iff demo_film_valid)

lemma demo_catalogue_whole: "catalogue (demo_sync [([demo_film ''7'' 1979], [])]) a [] 0 = ([demo_film ''7'' 1979], True)"
  by (subst catalogue.simps)
    (simp add: demo_sync_def demo_pages_def demo_page_valid maxPages_def page_items_def List.map_filter_simps)

lemma demo_catalogue_broken: "catalogue (demo_sync [([demo_film ''7'' 1979], ''t'')]) a [] 0 = ([demo_film ''7'' 1979], False)"
  by (subst catalogue.simps, subst catalogue.simps)
    (simp add: demo_sync_def demo_pages_def demo_page_valid maxPages_def page_items_def List.map_filter_simps)


text \<open>A run over a catalogue with a page that fails or is invalid, or with too many pages, answers an
  error. It deletes no row and publishes nothing; what the pages before landed stays in the cache,
  and the marker is left alone unless an item has its name as its native id.\<close>
theorem SyncAccount_abort:
  assumes "synchronizer_wired sy" and "identity_ok (ss_reg st)" and "Store_ok (ss_cache st)"
    and "catalogue sy account [] 0 = (its, False)"
  shows "\<exists>e stats st'. SyncAccount sy now account st = (Some e, stats, st') \<and> ss_events st' = ss_events st
     \<and> sa_items stats = length its
     \<and> (\<forall>n. view (ss_cache st') (item_prefix sy account @ n)
            = (case reported its n of Some i \<Rightarrow> Some (ItemRow i) | None \<Rightarrow> view (ss_cache st) (item_prefix sy account @ n)))
     \<and> (\<forall>k. \<not> HasPrefix k (item_prefix sy account) \<longrightarrow> view (ss_cache st') k = view (ss_cache st) k)
     \<and> (''_sync-manifest'' \<notin> ci_native_id ` set its \<longrightarrow>
          view (ss_cache st') (manifestKey sy account) = view (ss_cache st) (manifestKey sy account))"
proof -
  obtain e stats st' where r: "SyncAccount sy now account st = (Some e, stats, st')" "ident.landed sy account its st st'"
    "sa_items stats = length its"
    using ident.sync_abort [OF assms(1) [unfolded synchronizer_wired_iff] assms(2-4)] by blast
  have evs: "ss_events st' = ss_events st" using r(2) by (simp add: ident.landed_def)
  note rows = landed_view [OF r(2)]
  have "view (ss_cache st') (manifestKey sy account) = view (ss_cache st) (manifestKey sy account)"
    if "''_sync-manifest'' \<notin> ci_native_id ` set its"
    using that by (simp add: manifestKey_item rows reported_None_iff [THEN iffD2])
  then show ?thesis using r(1,3) evs rows by auto
qed

theorem SyncAccount_abort_witness:
  "\<exists>e stats st'. SyncAccount (demo_sync [([demo_film ''7'' 1979], ''t'')]) 5 ''a'' demo_sync_state = (Some e, stats, st')
     \<and> ss_events st' = []"
  using SyncAccount_abort [OF demo_sync_wired demo_sync_ok(1) mem_ok_Store_ok [OF demo_sync_ok(2)] demo_catalogue_broken,
      of 5 "''a''"] by (auto simp: demo_sync_state_def)

text \<open>The rows of a list of keys, the marker left out.\<close>

lemma list_items_rows:
  assumes "Store_ok c" and "\<forall>k \<in> set ks. HasSuffix k manifestSuffix \<or> (\<exists>i. view c k = Some (ItemRow i))"
  shows "\<exists>out. list_items c ks = Inr out
     \<and> map ItemRow out = map (\<lambda>k. the (view c k)) (filter (\<lambda>k. \<not> HasSuffix k manifestSuffix) ks)"
  using assms(2)
proof (induction ks)
  case (Cons k ks)
  then show ?case using assms(1) by (auto simp: Store_Get_view)
qed simp

lemma map_inverse: "map f xs = map g ks \<Longrightarrow> (\<And>k x. k \<in> set ks \<Longrightarrow> g k = f x \<Longrightarrow> k = h x) \<Longrightarrow> map h xs = ks"
proof (induction ks arbitrary: xs)
  case (Cons k ks)
  then obtain x xs' where xs: "xs = x # xs'" by (cases xs) auto
  have "k = h x" using Cons.prems xs by simp
  moreover have "map h xs' = ks" using Cons.prems xs by (intro Cons.IH) simp_all
  ultimately show ?case using xs by simp
qed simp

text \<open>After a complete run, ListItems answers with exactly the reported items, one per native id,
  when no native id looks like the marker.\<close>
theorem sync_then_ListItems:
  assumes "synchronizer_wired sy" and "account \<noteq> []" and "identity_ok (ss_reg st)" and "mem_ok (ss_cache st)"
    and "catalogue sy account [] 0 = (its, True)"
    and plain: "\<And>n. HasSuffix (item_prefix sy account @ n) manifestSuffix \<Longrightarrow> n \<notin> ci_native_id ` set its
      \<and> (n = ''_sync-manifest'' \<or> view (ss_cache st) (item_prefix sy account @ n) = None)"
  shows "\<exists>stats st' out. SyncAccount sy now account st = (None, stats, st') \<and> ListItems sy (ss_cache st') account = Inr out
     \<and> distinct (map ci_native_id out) \<and> set out = {i. reported its (ci_native_id i) = Some i}"
proof -
  let ?p = "item_prefix sy account"
  obtain stats st' where r: "SyncAccount sy now account st = (None, stats, st')" "mem_ok (ss_cache st')"
    "view (ss_cache st') = synced_rows sy account now its (ss_cache st)"
    using ident.sync_exact [OF assms(1) [unfolded synchronizer_wired_iff] assms(2-5)] by blast
  let ?c = "ss_cache st'"
  have c_ok: "Store_ok ?c" using r(2) by (rule mem_ok_Store_ok)
  obtain ks where ks: "Store_List ?c ?p = Inr ks" using kv.lst_total [OF c_ok] by blast
  have listed: "k \<in> set ks \<longleftrightarrow> HasPrefix k ?p \<and> view ?c k \<noteq> None" for k
    using mem.lst_iff [OF r(2) ks, of k] c_ok by (auto simp: Store_Get_view split: option.splits)
  have suffix: "HasSuffix (?p @ ''_sync-manifest'') manifestSuffix"
    using manifestKey_suffix [of sy account] by (simp add: manifestKey_item)
  have row: "view ?c (?p @ n) = map_option ItemRow (reported its n)" if "\<not> HasSuffix (?p @ n) manifestSuffix" for n
    using that suffix by (auto simp: r(3) synced_rows_def manifestKey_item split: option.split)
  have nid: "reported its n = Some i \<Longrightarrow> ci_native_id i = n" for n i
    by (auto simp: reported_def dest!: map_of_SomeD)
  have plain': "reported its n = Some i \<Longrightarrow> \<not> HasSuffix (?p @ n) manifestSuffix" for n i
    using plain [of n] reported_None_iff [of its n] by auto
  let ?fs = "filter (\<lambda>k. \<not> HasSuffix k manifestSuffix) ks"
  have fs: "set ?fs = {?p @ n | n. reported its n \<noteq> None}"
    using row plain' by (fastforce simp: listed elim!: HasPrefixE)
  have "\<forall>k \<in> set ks. HasSuffix k manifestSuffix \<or> (\<exists>i. view ?c k = Some (ItemRow i))"
    using row by (fastforce simp: listed elim!: HasPrefixE)
  from list_items_rows [OF c_ok this] obtain out where
    out: "(list_items ?c ks :: reg_error sync_error + _) = Inr out" "map ItemRow out = map (\<lambda>k. the (view ?c k)) ?fs" by blast
  have key: "k = ?p @ ci_native_id i \<and> reported its (ci_native_id i) = Some i"
    if "k \<in> set ?fs" "the (view ?c k) = ItemRow i" for k i
  proof -
    from that(1) obtain n j where n: "k = ?p @ n" "reported its n = Some j" unfolding fs by auto
    then have "i = j" using that(2) row [OF plain' [OF n(2)]] by simp
    then show ?thesis using n nid [OF n(2)] by simp
  qed
  have keys: "map (\<lambda>i. ?p @ ci_native_id i) out = ?fs"
    by (rule map_inverse [OF out(2)]) (rule key [THEN conjunct1])
  have "distinct ?fs" using kv.lst_distinct [OF c_ok ks] by simp
  then have "distinct (map (\<lambda>i. ?p @ ci_native_id i) out)" by (simp only: keys)
  then have dist: "distinct (map ci_native_id out)" by (simp add: distinct_map inj_on_def)
  have "reported its (ci_native_id i) = Some i" if "i \<in> set out" for i
  proof -
    from that have "ItemRow i \<in> set (map ItemRow out)" by simp
    then obtain k where "k \<in> set ?fs" "the (view ?c k) = ItemRow i" unfolding out(2) by auto
    then show ?thesis using key by blast
  qed
  moreover have "i \<in> set out" if "reported its (ci_native_id i) = Some i" for i
  proof -
    have "?p @ ci_native_id i \<in> set ?fs" using that unfolding fs by auto
    then have "the (view ?c (?p @ ci_native_id i)) \<in> set (map ItemRow out)" unfolding out(2) by (simp del: set_filter)
    then show ?thesis using row [OF plain' [OF that]] that by auto
  qed
  ultimately have "set out = {i. reported its (ci_native_id i) = Some i}" by blast
  then show ?thesis using r(1) ks out(1) dist by (auto simp: ListItems_def)
qed

theorem sync_then_ListItems_witness:
  "\<exists>stats st'. SyncAccount (demo_sync [([demo_film ''7'' 1979], [])]) 5 ''a'' demo_sync_state = (None, stats, st')
     \<and> ListItems (demo_sync [([demo_film ''7'' 1979], [])]) (ss_cache st') ''a'' = Inr [demo_film ''7'' 1979]"
proof -
  let ?sy = "demo_sync [([demo_film ''7'' 1979], [])]"
  have plain: "n \<notin> ci_native_id ` set [demo_film ''7'' 1979]
      \<and> (n = ''_sync-manifest'' \<or> view (ss_cache demo_sync_state) (item_prefix ?sy ''a'' @ n) = None)"
    if "HasSuffix (item_prefix ?sy ''a'' @ n) manifestSuffix" for n
    using that by (auto simp: demo_sync_state_def view_def NewInMemory_def HasSuffix_def item_prefix_def demo_sync_def
        manifestSuffix_def suffix_def)
  obtain stats st' out where r: "SyncAccount ?sy 5 ''a'' demo_sync_state = (None, stats, st')"
    "ListItems ?sy (ss_cache st') ''a'' = Inr out" "distinct (map ci_native_id out)"
    "set out = {i. reported [demo_film ''7'' 1979] (ci_native_id i) = Some i}"
    using sync_then_ListItems [OF demo_sync_wired _ demo_sync_ok demo_catalogue_whole plain, of 5] by auto
  have "set out = {demo_film ''7'' 1979}"
    unfolding r(4) by (auto simp: reported_def split: if_splits)
  moreover have "distinct out" using r(3) by (simp add: distinct_map)
  ultimately have "length out = 1" using distinct_card [of out] by simp
  with \<open>set out = {demo_film ''7'' 1979}\<close> have "out = [demo_film ''7'' 1979]" by (cases out) simp_all
  with r(1,2) show ?thesis by auto
qed

text \<open>Items that an aborted run landed are lost to its listeners: the aborted run publishes nothing,
  and the complete run after it announces none of them as new.\<close>
theorem aborted_arrivals_unannounced:
  assumes "synchronizer_wired sy" and "synchronizer_wired sy'" and "sy_provider sy' = sy_provider sy" and "account \<noteq> []"
    and "identity_ok (ss_reg st)" and "mem_ok (ss_cache st)"
    and "catalogue sy account [] 0 = (its, False)" and "catalogue sy' account [] 0 = (its', True)"
    and "set its' \<subseteq> set its" and "\<And>i. i \<in> set its \<Longrightarrow> \<not> HasSuffix (item_prefix sy account @ ci_native_id i) manifestSuffix"
  shows "\<exists>e stats st1 stats' st2 evs. SyncAccount sy now account st = (Some e, stats, st1)
     \<and> SyncAccount sy' now' account st1 = (None, stats', st2) \<and> ss_events st2 = ss_events st @ evs
     \<and> (\<forall>ev \<in> set evs. \<exists>e. ev_payload ev = Some (AvailabilityEvent account (sy_provider sy) e False))"
proof -
  obtain e stats st1 where 0: "SyncAccount sy now account st = (Some e, stats, st1)" "ident.landed sy account its st st1"
    using ident.sync_abort [OF assms(1) [unfolded synchronizer_wired_iff] assms(5) mem_ok_Store_ok [OF assms(6)] assms(7)] by blast
  then have 1: "identity_ok (ss_reg st1)" "mem_ok (ss_cache st1)" "ss_events st1 = ss_events st"
    using assms(6) by (simp_all add: ident.landed_def mem_ok_def)
  have pre: "item_prefix sy' account = item_prefix sy account" using assms(3) by (simp add: item_prefix_def)
  obtain stats' st2 changes evs where 2: "SyncAccount sy' now' account st1 = (None, stats', st2)" "ss_events st2 = ss_events st1 @ evs"
    "map ev_payload evs = concat (map (news (identity_Lookup (ss_reg st2)) (sy_provider sy') account) changes)"
    "set changes = (prev_natives sy' account (ss_cache st1) - ci_native_id ` set its') \<times> {False}
       \<union> (ci_native_id ` set its' - prev_natives sy' account (ss_cache st1)) \<times> {True}"
    using ident.sync_exact [OF assms(2) [unfolded synchronizer_wired_iff] assms(4) 1(1,2) assms(8), of now']
    by (elim exE conjE) (rule that)
  have "ci_native_id i \<in> prev_natives sy' account (ss_cache st1)" if "i \<in> set its'" for i
  proof -
    have "i \<in> set its" using that assms(9) by blast
    then have "reported its (ci_native_id i) \<noteq> None" by (simp add: reported_None_iff)
    then show ?thesis
      using assms(10) [OF \<open>i \<in> set its\<close>] by (auto simp: prev_natives_def pre landed_view(1) [OF 0(2)])
  qed
  then have gone: "snd c = False" if "c \<in> set changes" for c using that by (auto simp: 2(4))
  have "\<exists>e. ev_payload ev = Some (AvailabilityEvent account (sy_provider sy) e False)" if "ev \<in> set evs" for ev
  proof -
    from that have "ev_payload ev \<in> set (map ev_payload evs)" by simp
    then obtain c where "c \<in> set changes" "ev_payload ev \<in> set (news (identity_Lookup (ss_reg st2)) (sy_provider sy') account c)"
      unfolding 2(3) by auto
    with gone assms(3) show ?thesis by (auto simp: news_def split: sum.splits option.splits)
  qed
  with 0(1) 2(1,2) 1(3) show ?thesis by auto
qed

theorem aborted_arrivals_unannounced_witness:
  "\<exists>e stats st1 stats' st2. SyncAccount (demo_sync [([demo_film ''7'' 1979], ''t'')]) 5 ''a'' demo_sync_state = (Some e, stats, st1)
     \<and> SyncAccount (demo_sync [([demo_film ''7'' 1979], [])]) 6 ''a'' st1 = (None, stats', st2)
     \<and> (\<forall>ev \<in> set (ss_events st2). \<exists>e. ev_payload ev = Some (AvailabilityEvent ''a'' ''p'' e False))"
proof -
  have "\<not> HasSuffix (item_prefix (demo_sync [([demo_film ''7'' 1979], ''t'')]) ''a'' @ ''7'') manifestSuffix"
    by (simp add: item_prefix_def demo_sync_def HasSuffix_def manifestSuffix_def suffix_def Cons_eq_append_conv)
  then obtain e stats st1 stats' st2 evs where
    "SyncAccount (demo_sync [([demo_film ''7'' 1979], ''t'')]) 5 ''a'' demo_sync_state = (Some e, stats, st1)"
    "SyncAccount (demo_sync [([demo_film ''7'' 1979], [])]) 6 ''a'' st1 = (None, stats', st2)"
    "ss_events st2 = ss_events demo_sync_state @ evs"
    "\<forall>ev \<in> set evs. \<exists>e. ev_payload ev = Some (AvailabilityEvent ''a'' (sy_provider (demo_sync [([demo_film ''7'' 1979], ''t'')])) e False)"
    using aborted_arrivals_unannounced [OF demo_sync_wired demo_sync_wired _ _ demo_sync_ok
        demo_catalogue_broken demo_catalogue_whole, of "''a''" 5 6] by (auto simp: demo_provider)
  then show ?thesis by (auto simp: demo_sync_state_def demo_provider)
qed

text \<open>An answer of a refresh whose later item breaks the contract is rejected only after the items
  before it have landed.\<close>
theorem refresh_lands_before_rejecting:
  assumes "synchronizer_wired sy" and "identity_ok (ss_reg st)" and "Store_ok (ss_cache st)"
    and "sy_refresh sy = Some refresh" and "ids \<noteq> []" and "refresh account ids = Inr (Some good # bad # xs)"
    and "ValidateCatalogueItem (Some good) = None" and "ValidateCatalogueItem bad = Some msg"
  shows "\<exists>st'. RefreshItems sy account ids st = (Some (SE_contract msg), no_stats\<lparr>sa_items := 1\<rparr>, st')
     \<and> view (ss_cache st') (item_prefix sy account @ ci_native_id good) = Some (ItemRow good)"
proof -
  obtain st' where "land_item sy account good st = (None, st')" "ident.landed sy account [good] st st'"
    using ident.land_item_wired [OF assms(1) [unfolded synchronizer_wired_iff] assms(3,2,7)] by blast
  then show ?thesis using assms(4-8)
    by (auto simp: RefreshItems_def ident.landed_def map_add_def)
qed

theorem refresh_lands_before_rejecting_witness:
  "\<exists>msg st'. RefreshItems ((demo_sync [])\<lparr>sy_refresh := Some (\<lambda>_ _. Inr [Some (demo_film ''7'' 1979), None])\<rparr>) ''a'' [''7'', ''8''] demo_sync_state
       = (Some (SE_contract msg), no_stats\<lparr>sa_items := 1\<rparr>, st')
     \<and> view (ss_cache st') ''p/a/7'' = Some (ItemRow (demo_film ''7'' 1979))"
proof -
  let ?sy = "(demo_sync [])\<lparr>sy_refresh := Some (\<lambda>_ _. Inr [Some (demo_film ''7'' 1979), None])\<rparr>"
  obtain msg where msg: "ValidateCatalogueItem None = Some msg" by (auto simp: ValidateCatalogueItem_def)
  have "synchronizer_wired ?sy" by (simp add: synchronizer_wired_def demo_sync_def)
  from refresh_lands_before_rejecting [OF this demo_sync_ok(1) mem_ok_Store_ok [OF demo_sync_ok(2)] _ _ _ demo_film_valid msg]
  have "\<exists>st'. RefreshItems ?sy ''a'' [''7'', ''8''] demo_sync_state = (Some (SE_contract msg), no_stats\<lparr>sa_items := 1\<rparr>, st')
     \<and> view (ss_cache st') (item_prefix ?sy ''a'' @ ''7'') = Some (ItemRow (demo_film ''7'' 1979))"
    by (fastforce simp: demo_sync_def)
  then show ?thesis by (auto simp: item_prefix_def demo_sync_def)
qed

text \<open>Over a SQLite cache the listing of an account whose id holds an underscore returns the items of
  another account.\<close>
theorem ListItems_other_account:
  "ListItems (demo_sync []) (NewSQLite sql_like [(''p/my-tv/7'', ItemRow (demo_film ''7'' 1979))]) ''my_tv'' = Inr [demo_film ''7'' 1979]"
proof -
  have like: "sql_like (''p/my_tv/'' @ ''%'') ''p/my-tv/7''" by (simp add: fold_case_def)
  have "\<not> HasSuffix ''p/my-tv/7'' manifestSuffix" by (simp add: HasSuffix_def manifestSuffix_def suffix_def Cons_eq_append_conv)
  with like show ?thesis
    by (simp add: ListItems_def Store_List_def SQLite_List_def NewSQLite_def Store_Get_def item_prefix_def demo_sync_def
        del: append.simps sql_like.simps) simp
qed

end
