(* ===== verification/Library.thy ===== *)
theory Library
  imports Source_Cache Metadata_Cache Accounts
begin

text \<open>
  The derived library, \<open>internal/library/library.go\<close>: per user, the entries that the cached items of
  the accounts the user may use map to, with the coverage that says which accounts observe them.

  A service holds the registered reaches by account id, the item registry, the metadata cache and the
  queue behind the enrichment seams, if wired, the source cache that the synchronizers of its reaches
  share, and the cache of derived libraries, whose rows are typed: \<^const>\<open>None\<close> stands for bytes that
  do not decode. The clock is read once for each new coverage row: \<open>clk e k\<close> is the reading for the
  row \<open>k\<close> of the entry \<open>e\<close>.
\<close>

subsection \<open>State\<close>

record Reach =
  rc_sync :: "(identity_state, reg_error) Synchronizer option"
  rc_account :: string
  rc_owner :: string
  rc_visibility :: string
  rc_members :: "string list"

definition authorized :: "Reach \<Rightarrow> string \<Rightarrow> bool" where
  "authorized r userID =
     (if rc_visibility r = VisibilityPublic then True
      else if rc_visibility r = VisibilityShared
      then (if rc_owner r \<noteq> [] \<and> rc_owner r = userID then True else userID \<in> set (rc_members r))
      else rc_owner r \<noteq> [] \<and> rc_owner r = userID)"

record Service =
  lb_reaches :: "(string \<times> Reach) list"
  lb_reg :: Registry
  lb_cache :: "LibraryEntry list option Store"
  lb_meta :: "Cache option"
  lb_mark :: "InMemoryQueue option"
  lb_source :: "cache_row Store"

datatype lib_error =
    LE_reach | LE_duplicate | LE_unregistered | LE_nil_sync
  | LE_store store_error | LE_list "reg_error sync_error" | LE_reg reg_error | LE_decode

definition library_userPrefix :: string where "library_userPrefix = ''lib/u/''"

definition userKey :: "string \<Rightarrow> string" where
  "userKey userID = library_userPrefix @ PathEscape userID"

lemma userKey_inj [simp]: "userKey u = userKey v \<longleftrightarrow> u = v"
  by (simp add: userKey_def)

subsection \<open>Reaches\<close>

definition AddReach :: "Service \<Rightarrow> Reach \<Rightarrow> lib_error option \<times> Service" where
  "AddReach s r =
     (if rc_account r = [] \<or> rc_sync r = None then (Some LE_reach, s)
      else if map_of (lb_reaches s) (rc_account r) \<noteq> None then (Some LE_duplicate, s)
      else (None, s\<lparr>lb_reaches := AList.update (rc_account r) r (lb_reaches s)\<rparr>))"

definition RemoveReach :: "Service \<Rightarrow> string \<Rightarrow> Service" where
  "RemoveReach s accountID = s\<lparr>lb_reaches := AList.delete accountID (lb_reaches s)\<rparr>"

definition snapshot :: "Service \<Rightarrow> Reach list" where
  "snapshot s = sort_key rc_account (map snd (lb_reaches s))"

definition derivable :: "Service \<Rightarrow> string \<Rightarrow> Reach list" where
  "derivable s userID = filter (\<lambda>r. authorized r userID) (snapshot s)"

definition ReachAuthorized :: "Service \<Rightarrow> string \<Rightarrow> string \<Rightarrow> Reach option \<times> bool" where
  "ReachAuthorized s accountID userID =
     (case map_of (lb_reaches s) accountID of
        None \<Rightarrow> (None, False)
      | Some r \<Rightarrow> (Some r, authorized r userID))"

fun sweep_keys :: "(string \<Rightarrow> bool) \<Rightarrow> LibraryEntry list option Store \<Rightarrow> string list
    \<Rightarrow> lib_error option \<times> LibraryEntry list option Store" where
  "sweep_keys invalidate c [] = (None, c)"
| "sweep_keys invalidate c (k # ks) =
     (let uid = TrimPrefix k library_userPrefix;
          unescaped = (case PathUnescape uid of Some u \<Rightarrow> u | None \<Rightarrow> uid)
      in if \<not> invalidate unescaped then sweep_keys invalidate c ks
         else (case Store_Delete c k of
            (Inl e, c') \<Rightarrow> (Some (LE_store e), c')
          | (Inr _, c') \<Rightarrow> sweep_keys invalidate c' ks))"

definition sweepUserCaches :: "Service \<Rightarrow> (string \<Rightarrow> bool) \<Rightarrow> lib_error option \<times> Service" where
  "sweepUserCaches s invalidate =
     (case Store_List (lb_cache s) library_userPrefix of
        Inl e \<Rightarrow> (Some (LE_store e), s)
      | Inr ks \<Rightarrow> apsnd (\<lambda>c. s\<lparr>lb_cache := c\<rparr>) (sweep_keys invalidate (lb_cache s) ks))"

definition SetReachSharing :: "Service \<Rightarrow> string \<Rightarrow> string \<Rightarrow> string list \<Rightarrow> lib_error option \<times> Service" where
  "SetReachSharing s accountID visibility members =
     (case map_of (lb_reaches s) accountID of
        None \<Rightarrow> (Some LE_unregistered, s)
      | Some before \<Rightarrow>
          (let r = before\<lparr>rc_visibility := visibility, rc_members := members\<rparr>
           in sweepUserCaches (s\<lparr>lb_reaches := AList.update accountID r (lb_reaches s)\<rparr>)
                (\<lambda>userID. authorized before userID \<or> authorized r userID)))"

fun delete_keys :: "LibraryEntry list option Store \<Rightarrow> string list \<Rightarrow> lib_error option \<times> LibraryEntry list option Store" where
  "delete_keys c [] = (None, c)"
| "delete_keys c (k # ks) =
     (case Store_Delete c k of
        (Inl e, c') \<Rightarrow> (Some (LE_store e), c')
      | (Inr _, c') \<Rightarrow> delete_keys c' ks)"

definition invalidateAll :: "Service \<Rightarrow> lib_error option \<times> Service" where
  "invalidateAll s =
     (case Store_List (lb_cache s) library_userPrefix of
        Inl e \<Rightarrow> (Some (LE_store e), s)
      | Inr ks \<Rightarrow> apsnd (\<lambda>c. s\<lparr>lb_cache := c\<rparr>) (delete_keys (lb_cache s) ks))"

definition reach_provider :: "Reach \<Rightarrow> string option" where
  "reach_provider r = map_option sy_provider (rc_sync r)"

definition InvalidateAccount :: "Service \<Rightarrow> string \<Rightarrow> string \<Rightarrow> lib_error option \<times> Service" where
  "InvalidateAccount s provider accountID =
     (let reaches = filter (\<lambda>r. rc_account r = accountID \<and> reach_provider r = Some provider) (map snd (lb_reaches s))
      in if reaches = [] then invalidateAll s
         else sweepUserCaches s (\<lambda>userID. \<exists>r \<in> set reaches. authorized r userID))"

text \<open>The event sink: an availability event invalidates; a failure is logged.\<close>

definition Library_Publish :: "Service \<Rightarrow> EventEnvelope \<Rightarrow> Service" where
  "Library_Publish s env =
     (case ev_payload env of
        Some (AvailabilityEvent account provider entry present) \<Rightarrow> snd (InvalidateAccount s provider account)
      | _ \<Rightarrow> s)"

definition Library_RefreshAvailability ::
    "Service \<Rightarrow> string \<Rightarrow> string list \<Rightarrow> identity_state sync_state
     \<Rightarrow> lib_error option \<times> reg_error sync_error option \<times> Stats \<times> identity_state sync_state" where
  "Library_RefreshAvailability s accountID nativeIDs st =
     (case map_of (lb_reaches s) accountID of
        None \<Rightarrow> (Some LE_unregistered, None, no_stats, st)
      | Some r \<Rightarrow>
          (case rc_sync r of
             None \<Rightarrow> (Some LE_unregistered, None, no_stats, st)
           | Some sy \<Rightarrow> (None, RefreshItems sy accountID nativeIDs st)))"

subsection \<open>Derivation\<close>

record build =
  bd_entry :: LibraryEntry
  bd_claimKeys :: "string list"
  bd_observers :: "(string \<times> string list) list"

definition entryKind :: "ItemKind \<Rightarrow> EntryKind" where
  "entryKind k = (if k = IK_SERIES then EK_SERIES else EK_MOVIE)"

definition library_claimKey :: "string \<Rightarrow> string \<Rightarrow> string" where
  "library_claimKey namespace val = namespace @ [CHR 0x00] @ val"

definition external_identity :: "IdentityClaim \<Rightarrow> ExternalIdentity option" where
  "external_identity c =
     Some \<lparr>xi_namespace = ic_namespace c, xi_value = ic_value c, xi_provenance = Join (ic_suppliers c) '','',
      xi_verdict = IV_CORROBORATED\<rparr>"

fun meta_ref :: "Cache option \<Rightarrow> string \<Rightarrow> IdentityClaim list \<Rightarrow> string" where
  "meta_ref meta metaRef [] = metaRef"
| "meta_ref meta metaRef (c # cs) =
     meta_ref meta
       (case meta of
          None \<Rightarrow> metaRef
        | Some m \<Rightarrow>
            if metaRef \<noteq> [] then metaRef
            else (case Resolve_ref m (ic_namespace c @ '':'' @ ic_value c) of
               Inr (Some ref) \<Rightarrow> ref
             | _ \<Rightarrow> metaRef)) cs"

definition new_build :: "Service \<Rightarrow> string \<Rightarrow> Canonical_view \<Rightarrow> build" where
  "new_build s entryID canon =
     \<lparr>bd_entry = \<lparr>le_id = entryID, le_kind = entryKind (cn_kind canon),
        le_coverage = [],
        le_external_identities = map external_identity (cn_claims canon),
        le_metadata_ref = meta_ref (lb_meta s) [] (cn_claims canon)\<rparr>,
      bd_claimKeys = map (\<lambda>c. library_claimKey (ic_namespace c) (ic_value c)) (cn_claims canon),
      bd_observers = []\<rparr>"

definition corroborated_by :: "string list \<Rightarrow> CatalogueItem \<Rightarrow> bool" where
  "corroborated_by claimKeys item =
     list_ex (\<lambda>x. library_claimKey (GetNamespace x) (GetValue x) \<in> set claimKeys) (ci_external_ids item)"

definition cover_key :: "string \<Rightarrow> string \<Rightarrow> string" where
  "cover_key provider nativeID = provider @ '':'' @ nativeID"

definition via_of :: "string \<Rightarrow> string \<Rightarrow> string" where
  "via_of accountID provider = accountID @ '':'' @ provider @ '':host''"

text \<open>One observation: the account \<open>accountID\<close> of \<open>provider\<close> carries \<open>item\<close>.\<close>

definition row_observers :: "build \<Rightarrow> string \<Rightarrow> string list" where
  "row_observers b k = (case map_of (bd_observers b) k of None \<Rightarrow> [] | Some vs \<Rightarrow> vs)"

definition observe :: "(string \<Rightarrow> int) \<Rightarrow> string \<Rightarrow> string \<Rightarrow> CatalogueItem \<Rightarrow> build \<Rightarrow> build" where
  "observe clk accountID provider item b =
     (let verdict = (if corroborated_by (bd_claimKeys b) item then CV_CORROBORATED else CV_PRESENCE_ONLY);
          coverKey = cover_key provider (ci_native_id item);
          via = via_of accountID provider;
          seen = row_observers b coverKey;
          b' = (if via \<in> set seen then b else b\<lparr>bd_observers := AList.update coverKey (seen @ [via]) (bd_observers b)\<rparr>);
          e = bd_entry b'
      in if map_of (le_coverage e) coverKey \<noteq> None then b'
         else b'\<lparr>bd_entry := e\<lparr>le_coverage := AList.update coverKey
                (Some \<lparr>cr_present = True, cr_seasons = [], cr_verdict = verdict, cr_via = [], cr_last_verified = clk coverKey\<rparr>) (le_coverage e)\<rparr>\<rparr>)"

text \<open>The builds by entry id, in the order they were made.\<close>

definition derive_item ::
    "Service \<Rightarrow> (string \<Rightarrow> string \<Rightarrow> int) \<Rightarrow> string \<Rightarrow> string \<Rightarrow> CatalogueItem \<Rightarrow> (string \<times> build) list
     \<Rightarrow> lib_error + (string \<times> build) list" where
  "derive_item s clk accountID provider item bs =
     (case Lookup (lb_reg s) provider (ci_native_id item) of
        Inl e \<Rightarrow> Inl (LE_reg e)
      | Inr None \<Rightarrow> Inr bs
      | Inr (Some entryID) \<Rightarrow>
          (case Canonical (lb_reg s) entryID of
             Inl e \<Rightarrow> Inl (LE_reg e)
           | Inr None \<Rightarrow> Inr bs
           | Inr (Some canon) \<Rightarrow>
               (let b = (case map_of bs entryID of Some b \<Rightarrow> b | None \<Rightarrow> new_build s entryID canon)
                in Inr (AList.update entryID (observe (clk entryID) accountID provider item b) bs))))"

fun derive_items ::
    "Service \<Rightarrow> (string \<Rightarrow> string \<Rightarrow> int) \<Rightarrow> string \<Rightarrow> string \<Rightarrow> CatalogueItem list \<Rightarrow> (string \<times> build) list
     \<Rightarrow> lib_error + (string \<times> build) list" where
  "derive_items s clk accountID provider [] bs = Inr bs"
| "derive_items s clk accountID provider (item # items) bs =
     (case derive_item s clk accountID provider item bs of
        Inl e \<Rightarrow> Inl e
      | Inr bs' \<Rightarrow> derive_items s clk accountID provider items bs')"

fun derive_reaches ::
    "Service \<Rightarrow> (string \<Rightarrow> string \<Rightarrow> int) \<Rightarrow> Reach list \<Rightarrow> (string \<times> build) list \<Rightarrow> lib_error + (string \<times> build) list" where
  "derive_reaches s clk [] bs = Inr bs"
| "derive_reaches s clk (r # rs) bs =
     (case rc_sync r of
        None \<Rightarrow> Inl LE_nil_sync
      | Some sy \<Rightarrow>
          (case ListItems sy (lb_source s) (rc_account r) of
             Inl e \<Rightarrow> Inl (LE_list e)
           | Inr items \<Rightarrow>
               (case derive_items s clk (rc_account r) (sy_provider sy) items bs of
                  Inl e \<Rightarrow> Inl e
                | Inr bs' \<Rightarrow> derive_reaches s clk rs bs')))"

text \<open>The observers of each row, sorted.\<close>

definition finish_build :: "build \<Rightarrow> LibraryEntry" where
  "finish_build b =
     (bd_entry b)\<lparr>le_coverage :=
        map (\<lambda>(k, row). (k, map_option (\<lambda>r. r\<lparr>cr_via := sort (row_observers b k)\<rparr>) row))
          (le_coverage (bd_entry b))\<rparr>"

fun mark_missing :: "InMemoryQueue \<Rightarrow> LibraryEntry list \<Rightarrow> InMemoryQueue" where
  "mark_missing q [] = q"
| "mark_missing q (e # es) = mark_missing (if le_metadata_ref e = [] then Enqueue q (le_id e) else q) es"

definition RebuildUser :: "Service \<Rightarrow> (string \<Rightarrow> string \<Rightarrow> int) \<Rightarrow> string \<Rightarrow> lib_error option \<times> Service" where
  "RebuildUser s clk userID =
     (case derive_reaches s clk (derivable s userID) [] of
        Inl e \<Rightarrow> (Some e, s)
      | Inr bs \<Rightarrow>
          (let out = map (\<lambda>i. finish_build (the (map_of bs i))) (sort (map fst bs))
           in (case Store_Put (lb_cache s) (userKey userID) (Some out) of
                 (Inl e, c) \<Rightarrow> (Some (LE_store e), s\<lparr>lb_cache := c\<rparr>)
               | (Inr _, c) \<Rightarrow> (None, s\<lparr>lb_cache := c, lb_mark := map_option (\<lambda>q. mark_missing q out) (lb_mark s)\<rparr>))))"

definition Library :: "Service \<Rightarrow> (string \<Rightarrow> string \<Rightarrow> int) \<Rightarrow> string \<Rightarrow> (lib_error + LibraryEntry list) \<times> Service" where
  "Library s clk userID =
     (let rebuild =
        (case RebuildUser s clk userID of
           (Some e, s') \<Rightarrow> (Inl e, s')
         | (None, s') \<Rightarrow>
             (case Store_Get (lb_cache s') (userKey userID) of
                Inl e \<Rightarrow> (Inl (LE_store e), s')
              | Inr None \<Rightarrow> (Inl LE_decode, s')
              | Inr (Some es) \<Rightarrow> (Inr es, s')))
      in (case Store_Get (lb_cache s) (userKey userID) of
            Inr (Some es) \<Rightarrow> (Inr es, s)
          | Inr None \<Rightarrow> rebuild
          | Inl e \<Rightarrow> if e \<noteq> ErrKeyNotFound then (Inl (LE_store e), s) else rebuild))"

definition Library_Metadata :: "Service \<Rightarrow> string \<Rightarrow> cache_error + TitleMetadata option" where
  "Library_Metadata s ref =
     (case lb_meta s of
        None \<Rightarrow> Inr None
      | Some m \<Rightarrow> if ref = [] then Inr None else GetRecord m ref)"

subsection \<open>What a derivation observes\<close>

text \<open>The observations a user's library is made of: an account the user may use carries an item that
  the registry maps to an entry.\<close>

definition observed :: "Service \<Rightarrow> string \<Rightarrow> (string \<times> string \<times> string \<times> CatalogueItem) set" where
  "observed s userID =
     {(rc_account r, sy_provider sy, e, i) | r sy items e i. r \<in> set (derivable s userID) \<and> rc_sync r = Some sy
        \<and> ListItems sy (lb_source s) (rc_account r) = Inr items \<and> i \<in> set items
        \<and> Lookup (lb_reg s) (sy_provider sy) (ci_native_id i) = Inr (Some e)}"

text \<open>What holds of an entry derived from a set of observations.\<close>

definition entry_derived :: "Service \<Rightarrow> (string \<times> string \<times> string \<times> CatalogueItem) set \<Rightarrow> LibraryEntry \<Rightarrow> bool" where
  "entry_derived s obs e \<longleftrightarrow>
     (\<exists>cn. Canonical (lb_reg s) (le_id e) = Inr (Some cn) \<and> le_kind e = entryKind (cn_kind cn)
        \<and> le_external_identities e = map external_identity (cn_claims cn) \<and> le_metadata_ref e = meta_ref (lb_meta s) [] (cn_claims cn))
     \<and> distinct (map fst (le_coverage e))
     \<and> set (map fst (le_coverage e)) = {cover_key p (ci_native_id i) | a p i. (a, p, le_id e, i) \<in> obs}
     \<and> (\<forall>k x. (k, x) \<in> set (le_coverage e) \<longrightarrow> (\<exists>row. x = Some row \<and> cr_present row \<and> cr_seasons row = []
          \<and> cr_verdict row \<noteq> CV_UNSPECIFIED \<and> sorted (cr_via row) \<and> distinct (cr_via row)
          \<and> set (cr_via row) = {via_of a p | a p i. (a, p, le_id e, i) \<in> obs \<and> cover_key p (ci_native_id i) = k}))"

text \<open>A service whose source cache is readable.\<close>

definition reaches_listed :: "Service \<Rightarrow> string \<Rightarrow> bool" where
  "reaches_listed s userID \<longleftrightarrow>
     (\<forall>r \<in> set (derivable s userID). \<exists>sy items. rc_sync r = Some sy \<and> sy_provider sy \<noteq> []
        \<and> ListItems sy (lb_source s) (rc_account r) = Inr items \<and> (\<forall>i \<in> set items. ci_native_id i \<noteq> []))"

subsection \<open>The loops as folds\<close>

definition canon_of :: "Service \<Rightarrow> string \<Rightarrow> Canonical_view" where
  "canon_of s e = (case Canonical (lb_reg s) e of Inr (Some cn) \<Rightarrow> cn)"

definition item_obs :: "Service \<Rightarrow> string \<Rightarrow> string \<Rightarrow> CatalogueItem \<Rightarrow> (string \<times> string \<times> string \<times> CatalogueItem) list" where
  "item_obs s a p i = (case Lookup (lb_reg s) p (ci_native_id i) of Inr (Some e) \<Rightarrow> [(a, p, e, i)] | _ \<Rightarrow> [])"

definition reach_items :: "Service \<Rightarrow> Reach \<Rightarrow> (string \<times> string \<times> string \<times> CatalogueItem) list" where
  "reach_items s r =
     (case rc_sync r of None \<Rightarrow> []
      | Some sy \<Rightarrow> (case ListItems sy (lb_source s) (rc_account r) of
            Inl _ \<Rightarrow> [] | Inr items \<Rightarrow> concat (map (item_obs s (rc_account r) (sy_provider sy)) items)))"

definition obs_step ::
    "Service \<Rightarrow> (string \<Rightarrow> string \<Rightarrow> int) \<Rightarrow> (string \<times> build) list \<Rightarrow> string \<times> string \<times> string \<times> CatalogueItem
     \<Rightarrow> (string \<times> build) list" where
  "obs_step s clk bs o' =
     (case o' of (a, p, e, i) \<Rightarrow>
        AList.update e (observe (clk e) a p i (case map_of bs e of Some b \<Rightarrow> b | None \<Rightarrow> new_build s e (canon_of s e))) bs)"

lemma Lookup_known:
  assumes "reg_ok r" and "Lookup r p n = Inr (Some e)"
  shows "\<exists>cn. Canonical r e = Inr (Some cn)"
proof -
  from assms(2) have "p \<noteq> []" "n \<noteq> []" by (auto simp: Lookup_def split: if_splits)
  with assms Lookup_eq [OF assms(1)] obtain mr where "mapping_at r p n = Some mr" "e = mr_entry mr" by fastforce
  then obtain rec where rec: "entry_at r e = Some rec" using mapping_at_entry [OF assms(1)] by fastforce
  moreover have "e \<noteq> []" using assms Lookup_id by blast
  ultimately show ?thesis by (simp add: Canonical_def getEntry_ok [OF assms(1)])
qed

lemma derive_item_fold:
  assumes "reg_ok (lb_reg s)"
  shows "derive_item s clk a p i bs = (case Lookup (lb_reg s) p (ci_native_id i) of
      Inl e \<Rightarrow> Inl (LE_reg e) | Inr _ \<Rightarrow> Inr (foldl (obs_step s clk) bs (item_obs s a p i)))"
proof (cases "Lookup (lb_reg s) p (ci_native_id i)")
  case (Inr x)
  show ?thesis
  proof (cases x)
    case (Some e)
    then obtain cn where "Canonical (lb_reg s) e = Inr (Some cn)" using Lookup_known [OF assms] Inr by blast
    with Inr Some show ?thesis by (simp add: derive_item_def item_obs_def obs_step_def canon_of_def cong: option.case_cong)
  qed (simp add: derive_item_def item_obs_def Inr)
qed (simp add: derive_item_def)

lemma derive_items_fold:
  assumes "reg_ok (lb_reg s)" and "derive_items s clk a p items bs = Inr bs'"
  shows "bs' = foldl (obs_step s clk) bs (concat (map (item_obs s a p) items))"
  using assms(2) by (induction items arbitrary: bs) (auto simp: derive_item_fold [OF assms(1)] split: sum.splits)

lemma derive_reaches_fold:
  assumes "reg_ok (lb_reg s)" and "derive_reaches s clk rs bs = Inr bs'"
  shows "bs' = foldl (obs_step s clk) bs (concat (map (reach_items s) rs))"
  using assms(2)
proof (induction rs arbitrary: bs)
  case (Cons r rs)
  then obtain sy items bs1 where r: "rc_sync r = Some sy" "ListItems sy (lb_source s) (rc_account r) = Inr items"
    "derive_items s clk (rc_account r) (sy_provider sy) items bs = Inr bs1" "derive_reaches s clk rs bs1 = Inr bs'"
    by (auto split: option.splits sum.splits)
  with Cons.IH [OF r(4)] derive_items_fold [OF assms(1) r(3)] show ?case by (simp add: reach_items_def)
qed simp

lemma derive_items_total:
  assumes "reg_ok (lb_reg s)" and "p \<noteq> []" and "\<forall>i \<in> set items. ci_native_id i \<noteq> []"
  shows "\<exists>bs'. derive_items s clk a p items bs = Inr bs'"
  using assms(3)
  by (induction items arbitrary: bs) (simp_all add: derive_item_fold [OF assms(1)] Lookup_eq [OF assms(1,2)])

lemma derive_reaches_total:
  assumes "reg_ok (lb_reg s)" and "\<forall>r \<in> set rs. \<exists>sy items. rc_sync r = Some sy \<and> sy_provider sy \<noteq> []
      \<and> ListItems sy (lb_source s) (rc_account r) = Inr items \<and> (\<forall>i \<in> set items. ci_native_id i \<noteq> [])"
  shows "\<exists>bs'. derive_reaches s clk rs bs = Inr bs'"
  using assms(2)
proof (induction rs arbitrary: bs)
  case (Cons r rs)
  then obtain sy items where r: "rc_sync r = Some sy" "sy_provider sy \<noteq> []"
    "ListItems sy (lb_source s) (rc_account r) = Inr items" "\<forall>i \<in> set items. ci_native_id i \<noteq> []" by auto
  with Cons derive_items_total [OF assms(1) r(2,4), of clk "rc_account r" bs] show ?case by auto
qed simp

lemma reach_items_observed:
  "set (concat (map (reach_items s) (derivable s u))) = observed s u"
proof -
  have "set (reach_items s r) = {(rc_account r, sy_provider sy, e, i) | sy items e i. rc_sync r = Some sy
        \<and> ListItems sy (lb_source s) (rc_account r) = Inr items \<and> i \<in> set items
        \<and> Lookup (lb_reg s) (sy_provider sy) (ci_native_id i) = Inr (Some e)}" for r
  proof (cases "rc_sync r")
    case (Some sy)
    have item: "x \<in> set (item_obs s a p i) \<longleftrightarrow> (\<exists>e. x = (a, p, e, i) \<and> Lookup (lb_reg s) p (ci_native_id i) = Inr (Some e))" for x a p i
      by (auto simp: item_obs_def split: option.splits sum.splits)
    show ?thesis
    proof (cases "ListItems sy (lb_source s) (rc_account r)")
      case (Inr items)
      with Some show ?thesis by (auto simp: reach_items_def item)
    qed (simp add: reach_items_def Some)
  qed (simp add: reach_items_def)
  then show ?thesis unfolding observed_def by (simp add: set_eq_iff) blast
qed

text \<open>The builds after a fold: one per observed entry, each the fold of its own observations.\<close>

definition own_obs :: "string \<Rightarrow> (string \<times> string \<times> string \<times> CatalogueItem) list \<Rightarrow> (string \<times> string \<times> CatalogueItem) list" where
  "own_obs e os = map (\<lambda>(a, p, e, i). (a, p, i)) (filter (\<lambda>(a, p, e', i). e' = e) os)"

definition build_of ::
    "Service \<Rightarrow> (string \<Rightarrow> string \<Rightarrow> int) \<Rightarrow> string \<Rightarrow> (string \<times> string \<times> CatalogueItem) list \<Rightarrow> build" where
  "build_of s clk e os = foldl (\<lambda>b (a, p, i). observe (clk e) a p i b) (new_build s e (canon_of s e)) os"

lemma own_obs_snoc: "own_obs e (os @ [(a, p, e', i)]) = own_obs e os @ (if e' = e then [(a, p, i)] else [])"
  by (simp add: own_obs_def)

lemma builds_fold:
  "distinct (map fst (foldl (obs_step s clk) [] os)) \<and> set (map fst (foldl (obs_step s clk) [] os)) = (\<lambda>(a, p, e, i). e) ` set os
   \<and> (\<forall>e. map_of (foldl (obs_step s clk) [] os) e = (if own_obs e os = [] then None else Some (build_of s clk e (own_obs e os))))"
proof (induction os rule: rev_induct)
  case Nil
  then show ?case by (simp add: own_obs_def)
next
  case (snoc o' os)
  obtain a p e' i where o': "o' = (a, p, e', i)" by (cases o')
  let ?bs = "foldl (obs_step s clk) [] os"
  let ?b = "case map_of ?bs e' of Some b \<Rightarrow> b | None \<Rightarrow> new_build s e' (canon_of s e')"
  have "?b = build_of s clk e' (own_obs e' os)"
    using snoc by (simp add: build_of_def)
  then have step: "foldl (obs_step s clk) [] (os @ [o']) = AList.update e' (build_of s clk e' (own_obs e' (os @ [o']))) ?bs"
    by (simp add: obs_step_def o' own_obs_snoc build_of_def)
  show ?case
    unfolding step
    using snoc by (simp add: o' own_obs_snoc keys_update_set [unfolded set_map])
qed

text \<open>A build after its observations.\<close>

definition fresh_row :: "CoverageRow option \<Rightarrow> bool" where
  "fresh_row x \<longleftrightarrow> (\<exists>row. x = Some row \<and> cr_present row \<and> cr_seasons row = [] \<and> cr_verdict row \<noteq> CV_UNSPECIFIED)"

definition build_inv :: "build \<Rightarrow> build \<Rightarrow> (string \<times> string \<times> CatalogueItem) list \<Rightarrow> bool" where
  "build_inv b0 b os \<longleftrightarrow>
     (bd_entry b)\<lparr>le_coverage := []\<rparr> = bd_entry b0 \<and> bd_claimKeys b = bd_claimKeys b0
     \<and> distinct (map fst (le_coverage (bd_entry b)))
     \<and> set (map fst (le_coverage (bd_entry b))) = {cover_key p (ci_native_id i) | a p i. (a, p, i) \<in> set os}
     \<and> (\<forall>k x. (k, x) \<in> set (le_coverage (bd_entry b)) \<longrightarrow> fresh_row x)
     \<and> (\<forall>k. distinct (row_observers b k) \<and> set (row_observers b k)
              = {via_of a p | a p i. (a, p, i) \<in> set os \<and> cover_key p (ci_native_id i) = k})"

lemma set_update_row: "(k', v') \<in> set (AList.update k v m) \<Longrightarrow> v' = v \<or> (k', v') \<in> set m"
  by (induction m) (auto split: if_splits)

lemma observe_inv:
  assumes "build_inv b0 b os"
  shows "build_inv b0 (observe clk a p i b) (os @ [(a, p, i)])"
proof -
  let ?k = "cover_key p (ci_native_id i)" and ?v = "via_of a p"
  let ?b = "observe clk a p i b"
  have seen: "row_observers ?b k = (if k = ?k \<and> ?v \<notin> set (row_observers b k) then row_observers b k @ [?v] else row_observers b k)" for k
    by (simp add: observe_def Let_def row_observers_def)
  have cov: "le_coverage (bd_entry ?b) = (if map_of (le_coverage (bd_entry b)) ?k \<noteq> None then le_coverage (bd_entry b)
      else AList.update ?k (Some \<lparr>cr_present = True, cr_seasons = [], cr_verdict = (if corroborated_by (bd_claimKeys b) i then CV_CORROBORATED else CV_PRESENCE_ONLY),
        cr_via = [], cr_last_verified = clk ?k\<rparr>) (le_coverage (bd_entry b)))"
    by (auto simp: observe_def Let_def)
  have same: "(bd_entry ?b)\<lparr>le_coverage := []\<rparr> = (bd_entry b)\<lparr>le_coverage := []\<rparr>" "bd_claimKeys ?b = bd_claimKeys b"
    by (auto simp: observe_def Let_def)
  show ?thesis
    unfolding build_inv_def
  proof (intro conjI allI impI)
    show "(bd_entry ?b)\<lparr>le_coverage := []\<rparr> = bd_entry b0" "bd_claimKeys ?b = bd_claimKeys b0"
      using assms same by (simp_all add: build_inv_def)
    show "distinct (map fst (le_coverage (bd_entry ?b)))"
      using assms by (simp add: build_inv_def cov)
    have "set (map fst (le_coverage (bd_entry ?b))) = insert ?k (set (map fst (le_coverage (bd_entry b))))"
    proof (cases "map_of (le_coverage (bd_entry b)) ?k = None")
      case True
      then show ?thesis unfolding cov by (simp add: keys_update_set del: set_map)
    next
      case False
      with in_keys_iff [of ?k "le_coverage (bd_entry b)"] show ?thesis unfolding cov by (simp add: insert_absorb del: set_map)
    qed
    then show "set (map fst (le_coverage (bd_entry ?b)))
        = {cover_key p' (ci_native_id i') | a' p' i'. (a', p', i') \<in> set (os @ [(a, p, i)])}"
      using assms by (auto simp: build_inv_def)
  next
    fix k' row
    assume "(k', row) \<in> set (le_coverage (bd_entry ?b))"
    then have "fresh_row row \<or> (k', row) \<in> set (le_coverage (bd_entry b))"
      unfolding cov by (cases "map_of (le_coverage (bd_entry b)) ?k") (auto simp: fresh_row_def dest!: set_update_row)
    then show "fresh_row row" using assms unfolding build_inv_def by blast
  next
    fix k
    have "distinct (row_observers b k)" using assms by (simp add: build_inv_def)
    then show "distinct (row_observers ?b k)" unfolding seen by auto
    let ?vs = "\<lambda>os. {via_of a' p' | a' p' i'. (a', p', i') \<in> set os \<and> cover_key p' (ci_native_id i') = k}"
    have old: "set (row_observers b k) = ?vs os" using assms by (simp add: build_inv_def)
    have "?vs (os @ [(a, p, i)]) = ?vs os \<union> (if k = ?k then {?v} else {})" by auto
    moreover have "set (row_observers ?b k) = set (row_observers b k) \<union> (if k = ?k then {?v} else {})"
      unfolding seen by auto
    ultimately show "set (row_observers ?b k) = ?vs (os @ [(a, p, i)])" using old by simp
  qed
qed

lemma build_of_inv: "build_inv (new_build s e cn) (foldl (\<lambda>b (a, p, i). observe clk a p i b) (new_build s e cn) os) os"
proof (induction os rule: rev_induct)
  case Nil
  then show ?case by (simp add: build_inv_def new_build_def row_observers_def)
next
  case (snoc o' os)
  then show ?case by (cases o') (simp add: observe_inv)
qed

lemma own_obs_iff: "(a, p, i) \<in> set (own_obs e os) \<longleftrightarrow> (a, p, e, i) \<in> set os"
  by (force simp: own_obs_def)

lemma finish_derived:
  assumes "Canonical (lb_reg s) e = Inr (Some cn)"
  shows "entry_derived s (set os) (finish_build (build_of s clk e (own_obs e os)))
     \<and> le_id (finish_build (build_of s clk e (own_obs e os))) = e"
proof -
  let ?b = "build_of s clk e (own_obs e os)"
  let ?e = "finish_build ?b"
  have inv: "build_inv (new_build s e cn) ?b (own_obs e os)"
    using build_of_inv [of s e cn "clk e" "own_obs e os"] assms by (simp add: build_of_def canon_of_def)
  have "(bd_entry ?b)\<lparr>le_coverage := []\<rparr> = bd_entry (new_build s e cn)" using inv by (simp add: build_inv_def)
  then have base: "le_id (bd_entry ?b) = e" "le_kind (bd_entry ?b) = entryKind (cn_kind cn)"
    "le_external_identities (bd_entry ?b) = map external_identity (cn_claims cn)"
    "le_metadata_ref (bd_entry ?b) = meta_ref (lb_meta s) [] (cn_claims cn)"
    by (cases "bd_entry ?b"; simp add: new_build_def)+
  have fst: "map fst (le_coverage ?e) = map fst (le_coverage (bd_entry ?b))"
    by (simp add: finish_build_def comp_def split_def)
  have same: "le_id ?e = e" "le_kind ?e = entryKind (cn_kind cn)" "le_metadata_ref ?e = meta_ref (lb_meta s) [] (cn_claims cn)"
    "le_external_identities ?e = map external_identity (cn_claims cn)"
    using base by (simp_all add: finish_build_def)
  have keys: "set (map fst (le_coverage ?e)) = {cover_key p (ci_native_id i) | a p i. (a, p, e, i) \<in> set os}"
    unfolding fst using inv by (simp add: build_inv_def own_obs_iff)
  have row: "\<exists>row. x = Some row \<and> cr_present row \<and> cr_seasons row = [] \<and> cr_verdict row \<noteq> CV_UNSPECIFIED
      \<and> sorted (cr_via row) \<and> distinct (cr_via row)
      \<and> set (cr_via row) = {via_of a p | a p i. (a, p, e, i) \<in> set os \<and> cover_key p (ci_native_id i) = k}"
    if "(k, x) \<in> set (le_coverage ?e)" for k x
  proof -
    from that obtain y where y: "(k, y) \<in> set (le_coverage (bd_entry ?b))"
      "x = map_option (\<lambda>r. r\<lparr>cr_via := sort (row_observers ?b k)\<rparr>) y"
      by (auto simp: finish_build_def)
    have "fresh_row y" "distinct (row_observers ?b k)"
      "set (row_observers ?b k) = {via_of a p | a p i. (a, p, e, i) \<in> set os \<and> cover_key p (ci_native_id i) = k}"
      using inv y(1) by (auto simp: build_inv_def own_obs_iff)
    with y(2) show ?thesis by (auto simp: fresh_row_def)
  qed
  show ?thesis
    unfolding entry_derived_def same(1) using assms same inv keys row fst by (auto simp: build_inv_def)
qed

subsection \<open>A rebuild\<close>

definition derived_library :: "Service \<Rightarrow> string \<Rightarrow> LibraryEntry list \<Rightarrow> bool" where
  "derived_library s u out \<longleftrightarrow>
     sorted (map le_id out) \<and> distinct (map le_id out)
     \<and> set (map le_id out) = {e | a p e i. (a, p, e, i) \<in> observed s u}
     \<and> (\<forall>x \<in> set out. entry_derived s (observed s u) x)"

lemma derived_from_builds:
  assumes "reg_ok (lb_reg s)" and "derive_reaches s clk (derivable s u) [] = Inr bs"
  shows "derived_library s u (map (\<lambda>i. finish_build (the (map_of bs i))) (sort (map fst bs)))"
proof -
  let ?os = "concat (map (reach_items s) (derivable s u))"
  have bs: "bs = foldl (obs_step s clk) [] ?os" using derive_reaches_fold [OF assms] .
  note obs = reach_items_observed [of s u]
  note folds = builds_fold [of s clk ?os, folded bs]
  have keys: "set (map fst bs) = {e | a p e i. (a, p, e, i) \<in> observed s u}"
  proof -
    have "set (map fst bs) = (\<lambda>(a, p, e, i). e) ` set ?os" using folds by simp
    also have "\<dots> = (\<lambda>(a, p, e, i). e) ` observed s u" by (simp only: obs)
    also have "\<dots> = {e | a p e i. (a, p, e, i) \<in> observed s u}" by force
    finally show ?thesis .
  qed
  have built: "entry_derived s (observed s u) (finish_build (the (map_of bs e))) \<and> le_id (finish_build (the (map_of bs e))) = e"
    if "e \<in> set (map fst bs)" for e
  proof -
    from that keys obtain a p i where o': "(a, p, e, i) \<in> observed s u" by auto
    then have "own_obs e ?os \<noteq> []" using obs own_obs_iff [of a p i e ?os] by auto
    then have "map_of bs e = Some (build_of s clk e (own_obs e ?os))" using folds by simp
    moreover obtain cn where "Canonical (lb_reg s) e = Inr (Some cn)"
      using o' by (auto simp: observed_def dest!: Lookup_known [OF assms(1)])
    ultimately show ?thesis using finish_derived [of s e cn ?os clk] obs by simp
  qed
  have ids: "map le_id (map (\<lambda>i. finish_build (the (map_of bs i))) (sort (map fst bs))) = sort (map fst bs)"
    unfolding map_map by (rule map_idI) (use built in simp)
  show ?thesis
    unfolding derived_library_def ids using folds keys built by auto
qed

lemma rebuild_cases:
  assumes "Store_ok (lb_cache s)"
  shows "(\<exists>e. derive_reaches s clk (derivable s u) [] = Inl e \<and> RebuildUser s clk u = (Some e, s))
     \<or> (\<exists>bs c. derive_reaches s clk (derivable s u) [] = Inr bs
          \<and> Store_Put (lb_cache s) (userKey u) (Some (map (\<lambda>i. finish_build (the (map_of bs i))) (sort (map fst bs)))) = (Inr (), c)
          \<and> RebuildUser s clk u = (None, s\<lparr>lb_cache := c,
              lb_mark := map_option (\<lambda>q. mark_missing q (map (\<lambda>i. finish_build (the (map_of bs i))) (sort (map fst bs)))) (lb_mark s)\<rparr>))"
proof (cases "derive_reaches s clk (derivable s u) []")
  case (Inr bs)
  let ?out = "map (\<lambda>i. finish_build (the (map_of bs i))) (sort (map fst bs))"
  obtain c where "Store_Put (lb_cache s) (userKey u) (Some ?out) = (Inr (), c)" using kv.put_pair [OF assms] by metis
  with Inr show ?thesis by (simp add: RebuildUser_def)
qed (simp add: RebuildUser_def)

lemma rebuild_ok:
  assumes "reg_ok (lb_reg s)" and ok: "Store_ok (lb_cache s)" and "RebuildUser s clk u = (None, s')"
  shows "\<exists>out c q. s' = s\<lparr>lb_cache := c, lb_mark := q\<rparr> \<and> Store_ok c \<and> st_backend c = st_backend (lb_cache s)
     \<and> view c = (view (lb_cache s))(userKey u \<mapsto> Some out) \<and> derived_library s u out"
proof -
  from rebuild_cases [OF ok, of clk u] assms(3) obtain bs c where
    bs: "derive_reaches s clk (derivable s u) [] = Inr bs" and
    put: "Store_Put (lb_cache s) (userKey u) (Some (map (\<lambda>i. finish_build (the (map_of bs i))) (sort (map fst bs)))) = (Inr (), c)" and
    s': "s' = s\<lparr>lb_cache := c, lb_mark := map_option (\<lambda>q. mark_missing q (map (\<lambda>i. finish_build (the (map_of bs i))) (sort (map fst bs)))) (lb_mark s)\<rparr>"
    by auto
  let ?out = "map (\<lambda>i. finish_build (the (map_of bs i))) (sort (map fst bs))"
  have c: "c = snd (Store_Put (lb_cache s) (userKey u) (Some ?out))" using put by simp
  have "Store_ok c" "st_backend c = st_backend (lb_cache s)" "view c = (view (lb_cache s))(userKey u \<mapsto> Some ?out)"
    unfolding c by (rule kv.put_ok [OF ok] Store_Put_backend view_Put [OF ok])+
  with s' derived_from_builds [OF assms(1) bs] show ?thesis by blast
qed

lemma rebuild_total:
  assumes "reg_ok (lb_reg s)" and "Store_ok (lb_cache s)" and "reaches_listed s u"
  shows "\<exists>s'. RebuildUser s clk u = (None, s')"
proof -
  obtain bs where "derive_reaches s clk (derivable s u) [] = Inr bs"
    using derive_reaches_total [OF assms(1) assms(3) [unfolded reaches_listed_def]] by blast
  with rebuild_cases [OF assms(2), of clk u] show ?thesis by auto
qed

subsection \<open>Sweeps\<close>

text \<open>The user a cache key belongs to, as the sweep reads it.\<close>

definition key_user :: "string \<Rightarrow> string" where
  "key_user k = (case PathUnescape (TrimPrefix k library_userPrefix) of
      Some u \<Rightarrow> u | None \<Rightarrow> TrimPrefix k library_userPrefix)"

lemma key_user_userKey [simp]: "key_user (userKey u) = u"
  by (simp add: key_user_def userKey_def)

definition swept_view :: "(string \<Rightarrow> bool) \<Rightarrow> (string \<Rightarrow> 'v option) \<Rightarrow> string \<Rightarrow> 'v option" where
  "swept_view P m k = (if HasPrefix k library_userPrefix \<and> P (key_user k) then None else m k)"

lemma sweep_keys_ok:
  assumes "mem_ok c"
  shows "\<exists>c'. sweep_keys P c ks = (None, c') \<and> mem_ok c' \<and> view c' = (\<lambda>k. if k \<in> set ks \<and> P (key_user k) then None else view c k)"
  using assms
proof (induction ks arbitrary: c)
  case (Cons k ks)
  show ?case
  proof (cases "P (key_user k)")
    case False
    then have "sweep_keys P c (k # ks) = sweep_keys P c ks" by (simp add: key_user_def Let_def)
    with Cons.IH [OF Cons.prems] False show ?thesis by (auto simp: fun_eq_iff)
  next
    case True
    let ?c = "snd (Store_Delete c k)"
    have "sweep_keys P c (k # ks) = sweep_keys P ?c ks"
      using True kv.del_pair [OF mem_ok_Store_ok [OF Cons.prems], of k] by (cases "Store_Delete c k") (simp add: key_user_def Let_def)
    with Cons.IH [OF mem.del_ok [OF Cons.prems], of k] True show ?thesis
      by (auto simp: fun_eq_iff view_Delete [OF mem_ok_Store_ok [OF Cons.prems]])
  qed
qed auto

lemma sweepUserCaches_ok:
  assumes "mem_ok (lb_cache s)"
  shows "\<exists>c. sweepUserCaches s P = (None, s\<lparr>lb_cache := c\<rparr>) \<and> mem_ok c \<and> view c = swept_view P (view (lb_cache s))"
proof -
  obtain ks where ks: "Store_List (lb_cache s) library_userPrefix = Inr ks" using mem.lst_total [OF assms] by blast
  obtain c where c: "sweep_keys P (lb_cache s) ks = (None, c)" "mem_ok c"
    "view c = (\<lambda>k. if k \<in> set ks \<and> P (key_user k) then None else view (lb_cache s) k)"
    using sweep_keys_ok [OF assms] by blast
  have "k \<in> set ks \<longleftrightarrow> HasPrefix k library_userPrefix \<and> view (lb_cache s) k \<noteq> None" for k
    using mem.lst_iff [OF assms ks, of k] mem_ok_Store_ok [OF assms] by (auto simp: Store_Get_view split: option.splits)
  then have "view c = swept_view P (view (lb_cache s))" by (auto simp: c(3) swept_view_def fun_eq_iff)
  with c(1,2) ks show ?thesis unfolding sweepUserCaches_def by (intro exI [of _ c] conjI) simp_all
qed

lemma delete_keys_sweep: "delete_keys = sweep_keys (\<lambda>_. True)"
proof (intro ext)
  show "delete_keys c ks = sweep_keys (\<lambda>_. True) c ks" for c ks
    by (induction ks arbitrary: c) (simp_all add: Let_def split: prod.splits sum.splits)
qed

lemma invalidateAll_sweep: "invalidateAll s = sweepUserCaches s (\<lambda>_. True)"
  unfolding invalidateAll_def sweepUserCaches_def delete_keys_sweep ..

text \<open>Who can derive an account: anyone, when no reach of the provider has its id.\<close>

definition may_derive :: "Service \<Rightarrow> string \<Rightarrow> string \<Rightarrow> string \<Rightarrow> bool" where
  "may_derive s provider accountID u \<longleftrightarrow>
     (let rs = filter (\<lambda>r. rc_account r = accountID \<and> reach_provider r = Some provider) (map snd (lb_reaches s))
      in rs = [] \<or> (\<exists>r \<in> set rs. authorized r u))"

lemma InvalidateAccount_sweep: "InvalidateAccount s provider accountID = sweepUserCaches s (may_derive s provider accountID)"
proof (cases "filter (\<lambda>r. rc_account r = accountID \<and> reach_provider r = Some provider) (map snd (lb_reaches s)) = []")
  case True
  then have "may_derive s provider accountID = (\<lambda>_. True)" by (simp add: may_derive_def fun_eq_iff)
  with True show ?thesis by (simp add: InvalidateAccount_def Let_def invalidateAll_sweep)
next
  case False
  let ?rs = "filter (\<lambda>r. rc_account r = accountID \<and> reach_provider r = Some provider) (map snd (lb_reaches s))"
  have "may_derive s provider accountID = (\<lambda>u. \<exists>r \<in> set ?rs. authorized r u)"
    unfolding may_derive_def Let_def using False by simp
  with False show ?thesis by (simp only: InvalidateAccount_def Let_def if_False)
qed

subsection \<open>The life of a service\<close>

definition reaches_ok :: "Service \<Rightarrow> bool" where
  "reaches_ok s \<longleftrightarrow> distinct (map fst (lb_reaches s)) \<and> (\<forall>k r. map_of (lb_reaches s) k = Some r \<longrightarrow> rc_account r = k \<and> rc_sync r \<noteq> None)"

lemma derivable_iff: "distinct (map fst (lb_reaches s)) \<Longrightarrow>
    r \<in> set (derivable s u) \<longleftrightarrow> (\<exists>k. map_of (lb_reaches s) k = Some r) \<and> authorized r u"
  by (force simp: derivable_def snapshot_def)

text \<open>The accounts an entry names as its observers.\<close>

definition entry_vias :: "LibraryEntry \<Rightarrow> string set" where
  "entry_vias e = {v. \<exists>k row. (k, Some row) \<in> set (le_coverage e) \<and> v \<in> set (cr_via row)}"

definition user_vias :: "Service \<Rightarrow> string \<Rightarrow> string set" where
  "user_vias s u = {via_of (rc_account r) (sy_provider sy) | r sy. r \<in> set (derivable s u) \<and> rc_sync r = Some sy}"

definition caches_scoped :: "Service \<Rightarrow> bool" where
  "caches_scoped s \<longleftrightarrow> mem_ok (lb_cache s) \<and> reg_ok (lb_reg s) \<and> reaches_ok s
     \<and> (\<forall>u es. view (lb_cache s) (userKey u) = Some (Some es) \<longrightarrow> (\<forall>e \<in> set es. entry_vias e \<subseteq> user_vias s u))"

lemma derived_vias: "derived_library s u out \<Longrightarrow> e \<in> set out \<Longrightarrow> entry_vias e \<subseteq> user_vias s u"
proof -
  assume "derived_library s u out" "e \<in> set out"
  then have "entry_derived s (observed s u) e" by (simp add: derived_library_def)
  then show ?thesis
    unfolding entry_vias_def entry_derived_def user_vias_def by (fastforce simp: observed_def)
qed

text \<open>
  The operations of a service other than the removal of an account. The world outside changes the
  source cache, the registry, the metadata cache and the queue at any time.
\<close>

inductive lib_step :: "Service \<Rightarrow> Service \<Rightarrow> bool" where
  add: "lib_step s (snd (AddReach s r))"
| share: "lib_step s (snd (SetReachSharing s a v ms))"
| invalidate: "lib_step s (snd (InvalidateAccount s p a))"
| event: "lib_step s (Library_Publish s env)"
| rebuild: "lib_step s (snd (RebuildUser s clk u))"
| read: "lib_step s (snd (Library s clk u))"
| world: "reg_ok reg \<Longrightarrow> lib_step s (s\<lparr>lb_reg := reg, lb_meta := meta, lb_mark := q, lb_source := src\<rparr>)"

lemma caches_scopedI:
  assumes "caches_scoped s" and "mem_ok (lb_cache s')" and "reg_ok (lb_reg s')" and "reaches_ok s'"
    and "\<And>u es. view (lb_cache s') (userKey u) = Some (Some es) \<Longrightarrow>
      view (lb_cache s) (userKey u) = Some (Some es) \<and> user_vias s u \<subseteq> user_vias s' u \<or> derived_library s' u es"
  shows "caches_scoped s'"
  unfolding caches_scoped_def
proof (intro conjI allI impI ballI assms(2-4))
  fix u es e
  assume "view (lb_cache s') (userKey u) = Some (Some es)" "e \<in> set es"
  then show "entry_vias e \<subseteq> user_vias s' u"
    using assms(5) [of u es] assms(1) derived_vias [of s' u es e] unfolding caches_scoped_def by blast
qed

lemma derived_same:
  assumes "lb_reaches s' = lb_reaches s" and "lb_reg s' = lb_reg s" and "lb_meta s' = lb_meta s" and "lb_source s' = lb_source s"
  shows "derived_library s' u = derived_library s u"
  by (simp add: derived_library_def entry_derived_def observed_def derivable_def snapshot_def assms fun_eq_iff)

lemma user_vias_same: "lb_reaches s' = lb_reaches s \<Longrightarrow> user_vias s' = user_vias s"
  by (simp add: user_vias_def derivable_def snapshot_def fun_eq_iff)

lemma sweep_scoped:
  assumes "mem_ok (lb_cache s)" and "reg_ok (lb_reg s)" and "reaches_ok s"
    and "\<And>u es e. \<not> P u \<Longrightarrow> view (lb_cache s) (userKey u) = Some (Some es) \<Longrightarrow> e \<in> set es \<Longrightarrow> entry_vias e \<subseteq> user_vias s u"
  shows "caches_scoped (snd (sweepUserCaches s P))"
proof -
  obtain c where c: "sweepUserCaches s P = (None, s\<lparr>lb_cache := c\<rparr>)" "mem_ok c" "view c = swept_view P (view (lb_cache s))"
    using sweepUserCaches_ok [OF assms(1)] by blast
  have "view c (userKey u) = Some (Some es) \<Longrightarrow> \<not> P u \<and> view (lb_cache s) (userKey u) = Some (Some es)" for u es
    by (auto simp: c(3) swept_view_def userKey_def split: if_splits) (simp add: key_user_def)
  then show ?thesis
    using assms c(1,2) unfolding caches_scoped_def by (auto simp: reaches_ok_def user_vias_same [of "s\<lparr>lb_cache := c\<rparr>" s])
qed

lemma rebuild_scoped:
  assumes "caches_scoped s"
  shows "caches_scoped (snd (RebuildUser s clk u))"
proof (cases "fst (RebuildUser s clk u)")
  case (Some e)
  have "Store_ok (lb_cache s)" using assms by (simp add: caches_scoped_def mem_ok_Store_ok)
  with rebuild_cases [of s clk u] Some show ?thesis using assms by auto
next
  case None
  have ok: "reg_ok (lb_reg s)" "mem_ok (lb_cache s)" using assms by (simp_all add: caches_scoped_def)
  obtain s' where s': "RebuildUser s clk u = (None, s')" using None by (cases "RebuildUser s clk u") simp
  from rebuild_ok [OF ok(1) mem_ok_Store_ok [OF ok(2)] s'] obtain out c q where
    r: "s' = s\<lparr>lb_cache := c, lb_mark := q\<rparr>" "Store_ok c" "st_backend c = st_backend (lb_cache s)"
      "view c = (view (lb_cache s))(userKey u \<mapsto> Some out)" "derived_library s u out" by blast
  show ?thesis
  proof (rule caches_scopedI [OF assms])
    show "mem_ok (lb_cache (snd (RebuildUser s clk u)))" using r ok(2) by (simp add: s' mem_ok_def)
    show "reg_ok (lb_reg (snd (RebuildUser s clk u)))" "reaches_ok (snd (RebuildUser s clk u))"
      using r(1) assms by (simp_all add: s' caches_scoped_def reaches_ok_def)
  next
    fix v es
    assume "view (lb_cache (snd (RebuildUser s clk u))) (userKey v) = Some (Some es)"
    then have view: "view c (userKey v) = Some (Some es)" by (simp add: s' r(1))
    have "derived_library s' = derived_library s" by (rule ext, rule derived_same) (simp_all add: r(1))
    moreover have "user_vias s' = user_vias s" by (rule user_vias_same) (simp add: r(1))
    ultimately have same: "derived_library (snd (RebuildUser s clk u)) = derived_library s"
      "user_vias (snd (RebuildUser s clk u)) = user_vias s" by (simp_all add: s')
    show "view (lb_cache s) (userKey v) = Some (Some es) \<and> user_vias s v \<subseteq> user_vias (snd (RebuildUser s clk u)) v
        \<or> derived_library (snd (RebuildUser s clk u)) v es"
      unfolding same
    proof (cases "v = u")
      case True
      then have "es = out" using view r(4) by simp
      with True r(5) show "view (lb_cache s) (userKey v) = Some (Some es) \<and> user_vias s v \<subseteq> user_vias s v \<or> derived_library s v es" by simp
    next
      case False
      with view r(4) show "view (lb_cache s) (userKey v) = Some (Some es) \<and> user_vias s v \<subseteq> user_vias s v \<or> derived_library s v es" by simp
    qed
  qed
qed

lemma Library_state: "snd (Library s clk u) = s \<or> snd (Library s clk u) = snd (RebuildUser s clk u)"
  by (auto simp: Library_def Let_def split: sum.splits option.splits prod.splits)

lemma Store_Get_Inr: "Store_ok m \<Longrightarrow> Store_Get m k = Inr v \<longleftrightarrow> view m k = Some v"
  by (simp add: Store_Get_view split: option.splits)

lemma Library_answer:
  assumes "Library s clk u = (Inr es, s')" and "Store_ok (lb_cache s)" and "Store_ok (lb_cache s')"
  shows "view (lb_cache s') (userKey u) = Some (Some es)"
proof (cases "Store_Get (lb_cache s) (userKey u)")
  case (Inr x)
  show ?thesis
  proof (cases x)
    case (Some es')
    with Inr assms(1) have "s' = s" "es' = es" by (auto simp: Library_def Let_def)
    with Inr Some assms(2) show ?thesis by (simp add: Store_Get_Inr)
  next
    case None
    with Inr assms(1,3) show ?thesis
      by (auto simp: Library_def Let_def Store_Get_Inr split: sum.splits option.splits prod.splits)
  qed
next
  case (Inl e)
  with assms(1,3) show ?thesis
    by (auto simp: Library_def Let_def Store_Get_Inr split: sum.splits option.splits prod.splits if_splits)
qed

lemma AddReach_scoped:
  assumes "caches_scoped s"
  shows "caches_scoped (snd (AddReach s r))"
proof (cases "rc_account r = [] \<or> rc_sync r = None \<or> map_of (lb_reaches s) (rc_account r) \<noteq> None")
  case True
  then have "snd (AddReach s r) = s" by (auto simp: AddReach_def)
  with assms show ?thesis by simp
next
  case False
  let ?s = "s\<lparr>lb_reaches := AList.update (rc_account r) r (lb_reaches s)\<rparr>"
  have eq: "snd (AddReach s r) = ?s" using False by (auto simp: AddReach_def)
  have ok: "distinct (map fst (lb_reaches s))" "reaches_ok s" using assms by (simp_all add: caches_scoped_def reaches_ok_def)
  then have ok': "distinct (map fst (lb_reaches ?s))" by simp
  have "set (derivable s u) \<subseteq> set (derivable ?s u)" for u
  proof
    fix x
    assume "x \<in> set (derivable s u)"
    then obtain k where k: "map_of (lb_reaches s) k = Some x" "authorized x u" using derivable_iff [OF ok(1)] by blast
    then have "map_of (lb_reaches ?s) k = Some x" using False by auto
    then show "x \<in> set (derivable ?s u)" using derivable_iff [OF ok'] k(2) by blast
  qed
  then have vias: "user_vias s u \<subseteq> user_vias ?s u" for u unfolding user_vias_def by blast
  have "reaches_ok ?s" using False ok(2) by (auto simp: reaches_ok_def)
  with assms vias show ?thesis unfolding eq caches_scoped_def by (auto; blast)
qed

lemma SetReachSharing_scoped:
  assumes "caches_scoped s"
  shows "caches_scoped (snd (SetReachSharing s a v ms))"
proof (cases "map_of (lb_reaches s) a")
  case None
  then show ?thesis using assms by (simp add: SetReachSharing_def)
next
  case (Some b)
  let ?r = "b\<lparr>rc_visibility := v, rc_members := ms\<rparr>"
  let ?s = "s\<lparr>lb_reaches := AList.update a ?r (lb_reaches s)\<rparr>"
  have ok: "distinct (map fst (lb_reaches s))" "reaches_ok s" "mem_ok (lb_cache s)" "reg_ok (lb_reg s)"
    using assms by (simp_all add: caches_scoped_def reaches_ok_def)
  then have ok': "distinct (map fst (lb_reaches ?s))" by simp
  have "reaches_ok ?s" using ok(2) Some by (auto simp: reaches_ok_def)
  have vias: "user_vias s u \<subseteq> user_vias ?s u" if "\<not> (authorized b u \<or> authorized ?r u)" for u
  proof -
    have "set (derivable s u) \<subseteq> set (derivable ?s u)"
    proof
      fix x
      assume "x \<in> set (derivable s u)"
      then obtain k where k: "map_of (lb_reaches s) k = Some x" "authorized x u" using derivable_iff [OF ok(1)] by blast
      then have "k \<noteq> a" using that Some by auto
      then have "map_of (lb_reaches ?s) k = Some x" using k(1) by simp
      then show "x \<in> set (derivable ?s u)" using derivable_iff [OF ok'] k(2) by blast
    qed
    then show ?thesis unfolding user_vias_def by blast
  qed
  have "caches_scoped (snd (sweepUserCaches ?s (\<lambda>u. authorized b u \<or> authorized ?r u)))"
  proof (intro sweep_scoped)
    fix u es e
    assume "\<not> (authorized b u \<or> authorized ?r u)" "view (lb_cache ?s) (userKey u) = Some (Some es)" "e \<in> set es"
    moreover from this(2,3) have "entry_vias e \<subseteq> user_vias s u" using assms unfolding caches_scoped_def by simp
    ultimately show "entry_vias e \<subseteq> user_vias ?s u" using vias by blast
  qed (use ok \<open>reaches_ok ?s\<close> in simp_all)
  then show ?thesis using Some by (simp add: SetReachSharing_def Let_def)
qed

lemma InvalidateAccount_scoped:
  assumes "caches_scoped s"
  shows "caches_scoped (snd (InvalidateAccount s p a))"
  unfolding InvalidateAccount_sweep
  by (rule sweep_scoped) (use assms in \<open>auto simp: caches_scoped_def\<close>)

lemma lib_step_scoped: "lib_step s s' \<Longrightarrow> caches_scoped s \<Longrightarrow> caches_scoped s'"
proof (induction rule: lib_step.induct)
  case (event s env)
  then show ?case
    by (auto simp: Library_Publish_def InvalidateAccount_scoped split: option.splits Payload.splits)
next
  case (read s clk u)
  then show ?case using Library_state [of s clk u] rebuild_scoped by metis
next
  case (world reg s meta q src)
  then show ?case by (auto simp: caches_scoped_def reaches_ok_def user_vias_def derivable_def snapshot_def)
qed (simp_all add: AddReach_scoped SetReachSharing_scoped InvalidateAccount_scoped rebuild_scoped)

subsection \<open>Properties\<close>


text \<open>A service with one linked account, which carries the film of the demonstration registry.\<close>

definition demo_reach :: Reach where
  "demo_reach = \<lparr>rc_sync = Some (demo_sync []), rc_account = ''a'', rc_owner = ''ann'', rc_visibility = VisibilityShared, rc_members = [''bob'']\<rparr>"

definition demo_service :: Service where
  "demo_service = \<lparr>lb_reaches = [(''a'', demo_reach)], lb_reg = demo_registry, lb_cache = NewInMemory, lb_meta = None,
     lb_mark = None, lb_source = NewInMemory\<lparr>st_data := [(''p/a/7'', ItemRow (demo_film ''7'' 1979))]\<rparr>\<rparr>"

lemma demo_list: "ListItems (demo_sync []) (lb_source demo_service) ''a'' = Inr [demo_film ''7'' 1979]"
proof -
  have "\<not> HasSuffix ''p/a/7'' manifestSuffix" by (simp add: HasSuffix_def manifestSuffix_def suffix_def Cons_eq_append_conv)
  then show ?thesis
    by (simp add: ListItems_def Store_List_def InMemory_List_def Store_Get_def item_prefix_def demo_sync_def demo_service_def
        NewInMemory_def HasPrefix_def)
qed

lemma demo_derivable: "derivable demo_service u = (if u = ''ann'' \<or> u = ''bob'' then [demo_reach] else [])"
  by (auto simp: derivable_def snapshot_def demo_service_def demo_reach_def authorized_def visibilities)

lemma demo_service_ok: "reg_ok (lb_reg demo_service)" "mem_ok (lb_cache demo_service)" "reaches_listed demo_service u"
proof -
  show "reg_ok (lb_reg demo_service)" "mem_ok (lb_cache demo_service)"
    by (simp_all add: demo_service_def demo_registry_ok)
  show "reaches_listed demo_service u"
    using demo_list by (simp add: reaches_listed_def demo_derivable demo_reach_def demo_provider)
qed

lemma demo_scoped: "caches_scoped demo_service"
  using demo_service_ok(1,2)
  by (simp add: caches_scoped_def) (simp add: demo_service_def reaches_ok_def demo_reach_def view_def NewInMemory_def)

lemma demo_observed: "\<exists>e. observed demo_service ''bob'' = {(''a'', ''p'', e, demo_film ''7'' 1979)}"
proof -
  obtain mr where "mapping_at demo_registry ''p'' ''7'' = Some mr" using demo_mapping by blast
  then have "Lookup (lb_reg demo_service) ''p'' ''7'' = Inr (Some (mr_entry mr))"
    by (simp add: demo_service_def Lookup_eq [OF demo_registry_ok])
  then have "observed demo_service ''bob'' = {(''a'', ''p'', mr_entry mr, demo_film ''7'' 1979)}"
    using demo_list by (auto simp: observed_def demo_derivable demo_reach_def demo_provider)
  then show ?thesis by blast
qed

lemma entry_derived_row:
  assumes "entry_derived s obs e" and "(k, x) \<in> set (le_coverage e)"
  shows "\<exists>row. x = Some row \<and> set (cr_via row) = {via_of a p | a p i. (a, p, le_id e, i) \<in> obs \<and> cover_key p (ci_native_id i) = k}"
  using assms(1) [unfolded entry_derived_def, THEN conjunct2, THEN conjunct2, THEN conjunct2, rule_format, OF assms(2)]
  by (elim exE conjE) (intro exI conjI)

lemma demo_library:
  "\<exists>x s'. Library demo_service clk ''bob'' = (Inr [x], s') \<and> mem_ok (lb_cache s') \<and> lb_reaches s' = lb_reaches demo_service
     \<and> view (lb_cache s') (userKey ''bob'') = Some (Some [x]) \<and> entry_vias x = {''a:p:host''}"
proof -
  obtain e where e: "observed demo_service ''bob'' = {(''a'', ''p'', e, demo_film ''7'' 1979)}" using demo_observed by blast
  obtain s' where s': "RebuildUser demo_service clk ''bob'' = (None, s')"
    using rebuild_total [OF demo_service_ok(1) mem_ok_Store_ok [OF demo_service_ok(2)] demo_service_ok(3)] by blast
  from rebuild_ok [OF demo_service_ok(1) mem_ok_Store_ok [OF demo_service_ok(2)] s'] obtain out c q where
    r: "s' = demo_service\<lparr>lb_cache := c, lb_mark := q\<rparr>" "Store_ok c" "st_backend c = st_backend (lb_cache demo_service)"
      "view c = (view (lb_cache demo_service))(userKey ''bob'' \<mapsto> Some out)" "derived_library demo_service ''bob'' out" by blast
  have d: "distinct (map le_id out)" "set (map le_id out) = {e' | a p e' i. (a, p, e', i) \<in> observed demo_service ''bob''}"
    "\<forall>x \<in> set out. entry_derived demo_service (observed demo_service ''bob'') x"
    using r(5) by (simp_all add: derived_library_def)
  have "set (map le_id out) = {e}" using d(2) by (simp add: e)
  then have "length (map le_id out) = 1" using distinct_card [OF d(1)] by simp
  then obtain x where x: "out = [x]" by (cases out) auto
  with \<open>set (map le_id out) = {e}\<close> have "le_id x = e" by simp
  have ent: "entry_derived demo_service {(''a'', ''p'', e, demo_film ''7'' 1979)} x" using d(3) by (simp add: x e)
  have keys: "set (map fst (le_coverage x)) = {''p:7''}"
    using ent by (simp add: entry_derived_def \<open>le_id x = e\<close> cover_key_def)
  have rows: "\<exists>row. y = Some row \<and> set (cr_via row) = {''a:p:host''}" if "(k, y) \<in> set (le_coverage x)" for k y
  proof -
    have "k \<in> set (map fst (le_coverage x))" using that by force
    then have "k = ''p:7''" by (simp only: keys) simp
    from entry_derived_row [OF ent that] obtain row where "y = Some row"
      "set (cr_via row) = {via_of a p | a p i. (a, p, le_id x, i) \<in> {(''a'', ''p'', e, demo_film ''7'' 1979)} \<and> cover_key p (ci_native_id i) = k}"
      by (elim exE conjE) (rule that)
    with \<open>k = ''p:7''\<close> show ?thesis by (simp add: \<open>le_id x = e\<close> cover_key_def via_of_def)
  qed
  have "''p:7'' \<in> set (map fst (le_coverage x))" by (simp only: keys) simp
  then obtain y where y: "(''p:7'', y) \<in> set (le_coverage x)" by auto
  have "entry_vias x = {''a:p:host''}"
  proof
    show "entry_vias x \<subseteq> {''a:p:host''}" using rows by (force simp: entry_vias_def)
    from rows [OF y] y show "{''a:p:host''} \<subseteq> entry_vias x" by (auto simp: entry_vias_def)
  qed
  moreover have "Store_Get (lb_cache demo_service) (userKey ''bob'') = Inl ErrKeyNotFound"
    by (simp add: demo_service_def NewInMemory_def Store_Get_def)
  moreover have "Store_Get c (userKey ''bob'') = Inr (Some [x])" using r(2,4) x by (simp add: Store_Get_Inr)
  moreover have "mem_ok c" using r(2,3) demo_service_ok(2) by (simp add: mem_ok_def)
  ultimately show ?thesis using s' r(1,4) x by (auto simp: Library_def Let_def)
qed




text \<open>A change of sharing drops the cached libraries of exactly the users who could use the account
  before it or can after it, and no other row of the cache.\<close>
theorem SetReachSharing_exact:
  assumes "mem_ok (lb_cache s)" and "map_of (lb_reaches s) a = Some before"
  shows "\<exists>s'. SetReachSharing s a v ms = (None, s')
     \<and> lb_reaches s' = AList.update a (before\<lparr>rc_visibility := v, rc_members := ms\<rparr>) (lb_reaches s)
     \<and> (\<forall>u. view (lb_cache s') (userKey u)
            = (if authorized before u \<or> authorized (before\<lparr>rc_visibility := v, rc_members := ms\<rparr>) u then None
               else view (lb_cache s) (userKey u)))
     \<and> (\<forall>k. \<not> HasPrefix k ''lib/u/'' \<longrightarrow> view (lb_cache s') k = view (lb_cache s) k)"
proof -
  let ?r = "before\<lparr>rc_visibility := v, rc_members := ms\<rparr>"
  let ?s = "s\<lparr>lb_reaches := AList.update a ?r (lb_reaches s)\<rparr>"
  have "mem_ok (lb_cache ?s)" using assms(1) by simp
  from sweepUserCaches_ok [OF this, of "\<lambda>u. authorized before u \<or> authorized ?r u"] obtain c where
    c: "sweepUserCaches ?s (\<lambda>u. authorized before u \<or> authorized ?r u) = (None, ?s\<lparr>lb_cache := c\<rparr>)"
      "view c = swept_view (\<lambda>u. authorized before u \<or> authorized ?r u) (view (lb_cache s))" by auto
  have "HasPrefix (userKey u) library_userPrefix" for u by (simp add: userKey_def)
  then show ?thesis
    using assms(2) c by (intro exI [of _ "?s\<lparr>lb_cache := c\<rparr>"])
      (simp add: SetReachSharing_def Let_def swept_view_def, simp add: library_userPrefix_def)
qed

theorem SetReachSharing_exact_witness:
  "\<exists>s'. SetReachSharing demo_service ''a'' VisibilityPrivate [] = (None, s') \<and> view (lb_cache s') (userKey ''bob'') = None"
  using SetReachSharing_exact [OF demo_service_ok(2), of "''a''" demo_reach VisibilityPrivate "[]"]
  by (auto simp: demo_service_def demo_reach_def authorized_def visibilities)

text \<open>An availability event drops the cached libraries of exactly the users who may use the account, or
  all of them when no account of the provider has its id.\<close>
theorem availability_invalidates:
  assumes "mem_ok (lb_cache s)" and "ev_payload env = Some (AvailabilityEvent account provider entry present)"
  shows "view (lb_cache (Library_Publish s env)) (userKey u)
     = (if (\<forall>r \<in> snd ` set (lb_reaches s). rc_account r = account \<longrightarrow> reach_provider r \<noteq> Some provider)
          \<or> (\<exists>r \<in> snd ` set (lb_reaches s). rc_account r = account \<and> reach_provider r = Some provider \<and> authorized r u)
        then None else view (lb_cache s) (userKey u))"
proof -
  obtain c where c: "sweepUserCaches s (may_derive s provider account) = (None, s\<lparr>lb_cache := c\<rparr>)"
      "view c = swept_view (may_derive s provider account) (view (lb_cache s))"
    using sweepUserCaches_ok [OF assms(1)] by blast
  have "HasPrefix (userKey u) library_userPrefix" by (simp add: userKey_def)
  moreover have "may_derive s provider account u
      \<longleftrightarrow> (\<forall>r \<in> snd ` set (lb_reaches s). rc_account r = account \<longrightarrow> reach_provider r \<noteq> Some provider)
          \<or> (\<exists>r \<in> snd ` set (lb_reaches s). rc_account r = account \<and> reach_provider r = Some provider \<and> authorized r u)"
    by (auto simp: may_derive_def Let_def filter_empty_conv)
  ultimately show ?thesis
    using assms(2) c by (simp add: Library_Publish_def InvalidateAccount_sweep swept_view_def)
qed

theorem availability_invalidates_witness:
  "view (lb_cache (Library_Publish demo_service (availability_event (demo_sync []) 0 ''a'' ''e'' True))) (userKey ''bob'') = None"
  using availability_invalidates [OF demo_service_ok(2), of "availability_event (demo_sync []) 0 ''a'' ''e'' True" "''a''" "''p''" "''e''" True "''bob''"]
  by (auto simp: availability_event_def demo_provider demo_service_def demo_reach_def authorized_def visibilities reach_provider_def)

text \<open>Removing an account leaves the cached libraries: the next read still answers with the entries of
  the account, which nobody may use any more.\<close>
theorem removed_account_still_listed:
  assumes "Store_ok (lb_cache s)" and "reaches_ok s" and "view (lb_cache s) (userKey u) = Some (Some es)"
  shows "fst (Library (RemoveReach s a) clk u) = Inr es \<and> ReachAuthorized (RemoveReach s a) a v = (None, False)
     \<and> a \<notin> rc_account ` set (derivable (RemoveReach s a) v)"
proof -
  have "distinct (map fst (lb_reaches (RemoveReach s a)))" using assms(2) by (simp add: RemoveReach_def reaches_ok_def)
  from derivable_iff [OF this] assms(2) have "a \<notin> rc_account ` set (derivable (RemoveReach s a) v)"
    by (auto simp: RemoveReach_def reaches_ok_def split: if_splits)
  moreover have "Store_Get (lb_cache s) (userKey u) = Inr (Some es)" using assms(1,3) by (simp add: Store_Get_Inr)
  ultimately show ?thesis by (simp add: Library_def RemoveReach_def ReachAuthorized_def)
qed

theorem removed_account_still_listed_witness:
  "\<exists>s x. entry_vias x = {''a:p:host''} \<and> fst (Library (RemoveReach s ''a'') (\<lambda>_ _. 0) ''bob'') = Inr [x]"
proof -
  obtain x s' where "Library demo_service (\<lambda>_ _. 0) ''bob'' = (Inr [x], s')"
    and r: "mem_ok (lb_cache s')" "lb_reaches s' = lb_reaches demo_service"
    "view (lb_cache s') (userKey ''bob'') = Some (Some [x])" "entry_vias x = {''a:p:host''}"
    using demo_library [of "\<lambda>_ _. 0"] by (elim exE conjE) (rule that)
  have "reaches_ok s'" using demo_scoped r(2) by (simp add: caches_scoped_def reaches_ok_def)
  from removed_account_still_listed [OF mem_ok_Store_ok [OF r(1)] this r(3), of "''a''" "\<lambda>_ _. 0"] r(4)
  show ?thesis by (intro exI [of _ s'] exI [of _ x]) simp
qed

end
