(* ===== verification/Auth.thy ===== *)
theory Auth
  imports Store Strconv
begin

text \<open>
  Sign-up, login and sessions: \<open>internal/auth\<close> (\<open>auth.go\<close>, \<open>session.go\<close>, \<open>store.go\<close>), the
  interceptors of \<open>internal/apiserver/auth.go\<close> that turn a bearer token into the identity of a
  request, and the two handlers of \<open>internal/apiserver/server.go\<close> that hand tokens out.

  The cryptography is a parameter, \<open>crypto\<close>: Argon2id (password, salt, time, memory in KiB, key
  length), the AES-GCM cipher of a key, SHA-256, and the JSON codec of a user record. Its documented
  behaviour is \<open>crypto_ok\<close>. Random bytes are arguments; \<^const>\<open>None\<close> stands for a failing source. The
  users are kept in a sealed store (\<open>Store.Sealed_Get\<close>), as \<open>config.BuildStores\<close> composes it.

  Times are nanoseconds. RFC 3339 keeps whole seconds: \<open>time_ok\<close> is what the code relies on of
  \<open>Format\<close> and \<open>Parse\<close>.
\<close>

subsection \<open>Parameters\<close>

record UserData =
  ud_salt :: string
  ud_hash :: string
  ud_wrappedDEK :: string
  ud_wrappedRecovery :: string

record crypto =
  cy_argon :: "string \<Rightarrow> string \<Rightarrow> nat \<Rightarrow> nat \<Rightarrow> nat \<Rightarrow> string"
  cy_gcm :: "string \<Rightarrow> aead option"
  cy_sha :: "string \<Rightarrow> string"
  cy_marshal :: "UserData \<Rightarrow> string"
  cy_unmarshal :: "string \<Rightarrow> UserData option"

definition argon2Memory :: nat where "argon2Memory = 19 * 1024"
definition argon2Time :: nat where "argon2Time = 2"
definition argon2KeyLen :: nat where "argon2KeyLen = 32"

definition crypto_ok :: "crypto \<Rightarrow> bool" where
  "crypto_ok c \<longleftrightarrow>
     (\<forall>p s t m n. length (cy_argon c p s t m n) = n)
     \<and> (\<forall>k. length k = 32 \<longrightarrow> (\<exists>a. cy_gcm c k = Some a \<and> aead_ok a))
     \<and> (\<forall>d. cy_unmarshal c (cy_marshal c d) = Some d)"

datatype auth_error =
    AU_username | AU_password | AU_exists | AU_random | AU_cipher | AU_short | AU_open
  | AU_store store_error | AU_credentials | AU_user | AU_panic | AU_method string

subsection \<open>Keys\<close>

definition wrapKey :: "crypto \<Rightarrow> string option \<Rightarrow> string \<Rightarrow> string \<Rightarrow> auth_error + string" where
  "wrapKey c nonce key wrappingKey =
     (case cy_gcm c wrappingKey of
        None \<Rightarrow> Inl AU_cipher
      | Some a \<Rightarrow> (case nonce of None \<Rightarrow> Inl AU_random | Some n \<Rightarrow> Inr (n @ seal a n key)))"

definition unwrapKey :: "crypto \<Rightarrow> string \<Rightarrow> string \<Rightarrow> auth_error + string" where
  "unwrapKey c wrapped unwrappingKey =
     (case cy_gcm c unwrappingKey of
        None \<Rightarrow> Inl AU_cipher
      | Some a \<Rightarrow>
          if length wrapped < nonce_size a then Inl AU_short
          else (case open_ct a (take (nonce_size a) wrapped) (drop (nonce_size a) wrapped) of
             None \<Rightarrow> Inl AU_open
           | Some k \<Rightarrow> Inr k))"

definition bytesEqual :: "string \<Rightarrow> string \<Rightarrow> bool" where
  "bytesEqual a b \<longleftrightarrow> length a = length b \<and> (\<forall>i \<in> set [0..<length a]. a ! i = b ! i)"

lemma bytesEqual_iff: "bytesEqual a b \<longleftrightarrow> a = b"
  unfolding bytesEqual_def list_eq_iff_nth_eq [of a b] by (simp add: Ball_def)

text \<open>\<open>base32Encode\<close>: chunks of five bytes, the last one padded with zeros, eight characters each.\<close>

definition base32Alphabet :: string where
  "base32Alphabet = ''ABCDEFGHIJKLMNOPQRSTUVWXYZ234567''"

definition base32_char :: "8 word \<Rightarrow> char" where
  "base32_char w = base32Alphabet ! unat (and w 0x1F)"

definition base32_chunk :: "8 word list \<Rightarrow> string" where
  "base32_chunk bs =
     (let ch = (\<lambda>i. if i < length bs then bs ! i else 0) in
      map base32_char
        [drop_bit 3 (ch 0), or (push_bit 2 (ch 0)) (drop_bit 6 (ch 1)), drop_bit 1 (ch 1),
         or (push_bit 4 (ch 1)) (drop_bit 4 (ch 2)), or (push_bit 1 (ch 2)) (drop_bit 7 (ch 3)),
         drop_bit 2 (ch 3), or (push_bit 3 (ch 3)) (drop_bit 5 (ch 4)), ch 4])"

function base32Encode :: "8 word list \<Rightarrow> string" where
  "base32Encode bs = (if bs = [] then [] else base32_chunk (take 5 bs) @ base32Encode (drop 5 bs))"
  by pat_completeness auto
termination
  by (relation "measure length") auto

declare base32Encode.simps [simp del]

definition string_bytes :: "string \<Rightarrow> 8 word list" where
  "string_bytes s = map (\<lambda>c. of_nat (of_char c)) s"

definition generateRecoveryKey :: "string option \<Rightarrow> auth_error + string" where
  "generateRecoveryKey b = (case b of None \<Rightarrow> Inl AU_panic | Some bs \<Rightarrow> Inr (base32Encode (string_bytes bs)))"

definition deriveRecoveryKEK :: "crypto \<Rightarrow> string \<Rightarrow> string" where
  "deriveRecoveryKEK c recoveryKey = cy_argon c recoveryKey [] 1 (64 * 1024) 32"

subsection \<open>Users\<close>

text \<open>\<open>StoreUserStore\<close> over the sealed users store, whose cipher is \<open>a\<close>.\<close>

definition userRowKey :: "string \<Rightarrow> string" where "userRowKey username = ''user:'' @ username"

lemma userRowKey_inj: "userRowKey u = userRowKey v \<longleftrightarrow> u = v"
  by (simp add: userRowKey_def)

definition GetUser :: "crypto \<Rightarrow> aead \<Rightarrow> string Store \<Rightarrow> string \<Rightarrow> auth_error + UserData" where
  "GetUser c a users username =
     (case Sealed_Get a users (userRowKey username) of
        Inl _ \<Rightarrow> Inl AU_user
      | Inr raw \<Rightarrow> (case cy_unmarshal c raw of None \<Rightarrow> Inl AU_user | Some d \<Rightarrow> Inr d))"

definition PutUser ::
    "crypto \<Rightarrow> aead \<Rightarrow> string \<Rightarrow> string Store \<Rightarrow> string \<Rightarrow> UserData \<Rightarrow> (auth_error + unit) \<times> string Store" where
  "PutUser c a nonce users username data =
     (case Sealed_Put a nonce users (userRowKey username) (cy_marshal c data) of
        (Inl e, s) \<Rightarrow> (Inl (AU_store e), s)
      | (Inr _, s) \<Rightarrow> (Inr (), s))"

record SignUpResult =
  su_user :: string
  su_recovery :: string
  su_dek :: string

record LoginResult =
  lr_user :: string
  lr_dek :: string

text \<open>What a sign-up draws at random: the last nonce seals the stored record.\<close>

record signup_draws =
  dr_salt :: "string option"
  dr_dek :: "string option"
  dr_nonce :: "string option"
  dr_recovery :: "string option"
  dr_nonce' :: "string option"
  dr_seal :: string

definition auth_SignUp ::
    "crypto \<Rightarrow> aead \<Rightarrow> signup_draws \<Rightarrow> string Store \<Rightarrow> string \<Rightarrow> string \<Rightarrow> (auth_error + SignUpResult) \<times> string Store" where
  "auth_SignUp c a d users username password =
     (if username = [] then (Inl AU_username, users)
      else if password = [] then (Inl AU_password, users)
      else if \<not> is_err (GetUser c a users username) then (Inl AU_exists, users)
      else
        (case dr_salt d of
           None \<Rightarrow> (Inl AU_random, users)
         | Some salt \<Rightarrow>
             (let kek = cy_argon c password salt argon2Time argon2Memory argon2KeyLen in
              (case dr_dek d of
                 None \<Rightarrow> (Inl AU_random, users)
               | Some dek \<Rightarrow>
                   (case wrapKey c (dr_nonce d) dek kek of
                      Inl e \<Rightarrow> (Inl e, users)
                    | Inr wrapped \<Rightarrow>
                        (case generateRecoveryKey (dr_recovery d) of
                           Inl e \<Rightarrow> (Inl e, users)
                         | Inr recoveryKey \<Rightarrow>
                             (case wrapKey c (dr_nonce' d) dek (deriveRecoveryKEK c recoveryKey) of
                                Inl e \<Rightarrow> (Inl e, users)
                              | Inr wrappedRecovery \<Rightarrow>
                                  and_then
                                    (PutUser c a (dr_seal d) users username
                                       \<lparr>ud_salt = salt, ud_hash = kek, ud_wrappedDEK = wrapped,
                                        ud_wrappedRecovery = wrappedRecovery\<rparr>)
                                    (\<lambda>_ users'. (Inr \<lparr>su_user = ''user:'' @ username, su_recovery = recoveryKey,
                                                     su_dek = dek\<rparr>, users')))))))))"

definition auth_Login :: "crypto \<Rightarrow> aead \<Rightarrow> string Store \<Rightarrow> string \<Rightarrow> string \<Rightarrow> auth_error + LoginResult" where
  "auth_Login c a users username password =
     (if username = [] then Inl AU_username
      else if password = [] then Inl AU_password
      else
        (case GetUser c a users username of
           Inl _ \<Rightarrow> Inl AU_credentials
         | Inr d \<Rightarrow>
             (let kek = cy_argon c password (ud_salt d) argon2Time argon2Memory argon2KeyLen
              in if \<not> bytesEqual kek (ud_hash d) then Inl AU_credentials
                 else (case unwrapKey c (ud_wrappedDEK d) kek of
                    Inl e \<Rightarrow> Inl e
                  | Inr dek \<Rightarrow> Inr \<lparr>lr_user = ''user:'' @ username, lr_dek = dek\<rparr>))))"

text \<open>\<open>NewAuthenticators\<close>: the only method is \<open>password\<close>. \<open>Methods\<close> lists the names, sorted.\<close>

fun auth_methods :: "string list \<Rightarrow> string list \<Rightarrow> auth_error + string list" where
  "auth_methods ms [] = Inr ms"
| "auth_methods ms (n # ns) =
     (if n = ''password'' then auth_methods (if n \<in> set ms then ms else ms @ [n]) ns
      else Inl (AU_method n))"

definition NewAuthenticators :: "string list \<Rightarrow> auth_error + string list" where
  "NewAuthenticators methods = auth_methods [] methods"

definition Authenticator_Methods :: "string list \<Rightarrow> string list" where
  "Authenticator_Methods ms = sort ms"

text \<open>\<open>HasUser\<close> of \<open>internal/apiserver/server.go\<close>: any failing lookup reads as no such user.\<close>

definition HasUser :: "crypto \<Rightarrow> aead \<Rightarrow> string Store \<Rightarrow> string \<Rightarrow> bool" where
  "HasUser c a users userID =
     (if \<not> HasPrefix userID ''user:'' \<or> TrimPrefix userID ''user:'' = [] then False
      else \<not> is_err (GetUser c a users (TrimPrefix userID ''user:'')))"

subsection \<open>Sessions\<close>

record clock_format =
  cf_format :: "int \<Rightarrow> string"
  cf_parse :: "string \<Rightarrow> int option"

definition second :: int where "second = 1000000000"

definition time_ok :: "clock_format \<Rightarrow> int \<Rightarrow> bool" where
  "time_ok f t \<longleftrightarrow> cf_parse f (cf_format f t) = Some (t div second * second) \<and> cf_format f t \<noteq> []"

text \<open>
  The data-encryption keys of the live sessions are kept in memory, or sealed in the sessions store
  beside the tokens. The nonce of a sealed entry is drawn when it is stored.
\<close>

datatype DEKCache = MemoryDEKCache | SealedDEKCache aead

record session_state =
  se_tokens :: "string Store"
  se_deks :: "(string \<times> string) list"

definition StoreDEK_entry ::
    "DEKCache \<Rightarrow> string option \<Rightarrow> string \<Rightarrow> string \<Rightarrow> session_state \<Rightarrow> (auth_error + unit) \<times> session_state" where
  "StoreDEK_entry dc nonce key dek st =
     (case dc of
        MemoryDEKCache \<Rightarrow> (Inr (), st\<lparr>se_deks := AList.update key dek (se_deks st)\<rparr>)
      | SealedDEKCache a \<Rightarrow>
          (case nonce of
             None \<Rightarrow> (Inl AU_random, st)
           | Some n \<Rightarrow>
               (case Store_Put (se_tokens st) (''dek:'' @ key) (n @ seal a n dek) of
                  (Inl e, s) \<Rightarrow> (Inl (AU_store e), st\<lparr>se_tokens := s\<rparr>)
                | (Inr _, s) \<Rightarrow> (Inr (), st\<lparr>se_tokens := s\<rparr>))))"

definition GetDEK_entry :: "DEKCache \<Rightarrow> string \<Rightarrow> session_state \<Rightarrow> string option" where
  "GetDEK_entry dc key st =
     (case dc of
        MemoryDEKCache \<Rightarrow> map_of (se_deks st) key
      | SealedDEKCache a \<Rightarrow>
          (case Store_Get (se_tokens st) (''dek:'' @ key) of
             Inl _ \<Rightarrow> None
           | Inr blob \<Rightarrow>
               if length blob < nonce_size a then None
               else open_ct a (take (nonce_size a) blob) (drop (nonce_size a) blob)))"

definition DeleteDEK_entry :: "DEKCache \<Rightarrow> string \<Rightarrow> session_state \<Rightarrow> (auth_error + unit) \<times> session_state" where
  "DeleteDEK_entry dc key st =
     (case dc of
        MemoryDEKCache \<Rightarrow> (Inr (), st\<lparr>se_deks := AList.delete key (se_deks st)\<rparr>)
      | SealedDEKCache a \<Rightarrow>
          (case Store_Delete (se_tokens st) (''dek:'' @ key) of
             (Inl e, s) \<Rightarrow> (Inl (AU_store e), st\<lparr>se_tokens := s\<rparr>)
           | (Inr _, s) \<Rightarrow> (Inr (), st\<lparr>se_tokens := s\<rparr>)))"

definition sessionKey :: "crypto \<Rightarrow> string \<Rightarrow> string" where
  "sessionKey c token = ''session:'' @ EncodeToString (cy_sha c token)"

definition dekKey :: "crypto \<Rightarrow> string \<Rightarrow> string" where
  "dekKey c token = ''dek:'' @ EncodeToString (cy_sha c token)"

record SessionHandler =
  sh_crypto :: crypto
  sh_clock :: clock_format
  sh_deks :: DEKCache
  sh_ttl :: int

definition Mint ::
    "SessionHandler \<Rightarrow> int \<Rightarrow> string option \<Rightarrow> string \<Rightarrow> session_state \<Rightarrow> (auth_error + string) \<times> session_state" where
  "Mint h now b userID st =
     (case b of
        None \<Rightarrow> (Inl AU_random, st)
      | Some bs \<Rightarrow>
          (let token = EncodeToString bs;
               val = userID @ [CHR 0x0A] @ cf_format (sh_clock h) (now + sh_ttl h)
           in (case Store_Put (se_tokens st) (sessionKey (sh_crypto h) token) val of
                 (Inl e, s) \<Rightarrow> (Inl (AU_store e), st\<lparr>se_tokens := s\<rparr>)
               | (Inr _, s) \<Rightarrow> (Inr token, st\<lparr>se_tokens := s\<rparr>))))"

datatype session_error = SX_invalid | SX_corrupt_entry | SX_corrupt_expiry | SX_expired

definition Validate :: "SessionHandler \<Rightarrow> int \<Rightarrow> string \<Rightarrow> session_state \<Rightarrow> (session_error + string) \<times> session_state" where
  "Validate h now token st =
     (case Store_Get (se_tokens st) (sessionKey (sh_crypto h) token) of
        Inl _ \<Rightarrow> (Inl SX_invalid, st)
      | Inr val \<Rightarrow>
          (let (userID, expiryStr) = (case Cut val (CHR 0x0A) of None \<Rightarrow> ([], []) | Some p \<Rightarrow> p)
           in if userID = [] \<or> expiryStr = [] then (Inl SX_corrupt_entry, st)
              else (case cf_parse (sh_clock h) expiryStr of
                 None \<Rightarrow> (Inl SX_corrupt_expiry, st)
               | Some expiry \<Rightarrow>
                   if now > expiry
                   then (Inl SX_expired,
                         snd (DeleteDEK_entry (sh_deks h) (dekKey (sh_crypto h) token)
                           (st\<lparr>se_tokens := snd (Store_Delete (se_tokens st) (sessionKey (sh_crypto h) token))\<rparr>)))
                   else (Inr userID, st))))"

definition Session_Revoke :: "SessionHandler \<Rightarrow> string \<Rightarrow> session_state \<Rightarrow> (auth_error + unit) \<times> session_state" where
  "Session_Revoke h token st =
     (case Store_Delete (se_tokens st) (sessionKey (sh_crypto h) token) of
        (Inl e, s) \<Rightarrow> (Inl (AU_store e), st\<lparr>se_tokens := s\<rparr>)
      | (Inr _, s) \<Rightarrow> DeleteDEK_entry (sh_deks h) (dekKey (sh_crypto h) token) (st\<lparr>se_tokens := s\<rparr>))"

definition StoreDEK ::
    "SessionHandler \<Rightarrow> string option \<Rightarrow> string \<Rightarrow> string \<Rightarrow> session_state \<Rightarrow> (auth_error + unit) \<times> session_state" where
  "StoreDEK h nonce token dek st = StoreDEK_entry (sh_deks h) nonce (dekKey (sh_crypto h) token) dek st"

definition GetDEK :: "SessionHandler \<Rightarrow> string \<Rightarrow> session_state \<Rightarrow> string option" where
  "GetDEK h token st = GetDEK_entry (sh_deks h) (dekKey (sh_crypto h) token) st"

definition mintSession ::
    "SessionHandler \<Rightarrow> int \<Rightarrow> string option \<Rightarrow> string option \<Rightarrow> string \<Rightarrow> string \<Rightarrow> session_state
     \<Rightarrow> (auth_error + string) \<times> session_state" where
  "mintSession h now b nonce uid dek st =
     and_then (Mint h now b uid st) (\<lambda>token st'. and_then (StoreDEK h nonce token dek st') (\<lambda>_ st''. (Inr token, st'')))"

subsection \<open>The identity of a request\<close>

datatype rpc_error = Unauthenticated string

record request_ctx =
  rq_user :: "string option"
  rq_dek :: "string option"
  rq_blob :: "blob_ctx option"

definition publicMethods :: "string list" where
  "publicMethods = [''/abcmovies.api.v1.CoreService/SignUp'', ''/abcmovies.api.v1.CoreService/Login'',
     ''/abcmovies.api.v1.CoreService/GetInstanceInfo'']"

definition AuthContext :: "SessionHandler \<Rightarrow> string \<Rightarrow> string \<Rightarrow> session_state \<Rightarrow> request_ctx" where
  "AuthContext h uid token st =
     (case GetDEK h token st of
        None \<Rightarrow> \<lparr>rq_user = Some uid, rq_dek = None, rq_blob = None\<rparr>
      | Some dek \<Rightarrow> \<lparr>rq_user = Some uid, rq_dek = Some dek, rq_blob = Some \<lparr>ub_user = uid, ub_dek = Some dek\<rparr>\<rparr>)"

definition bearerPrefix :: string where "bearerPrefix = ''Bearer ''"

text \<open>\<open>authenticate\<close>: \<open>md\<close> is the metadata of the request, the values of its authorization header.\<close>

definition authenticate ::
    "SessionHandler \<Rightarrow> int \<Rightarrow> string list option \<Rightarrow> session_state \<Rightarrow> (rpc_error + string \<times> string) \<times> session_state" where
  "authenticate h now md st =
     (case md of
        None \<Rightarrow> (Inl (Unauthenticated ''missing metadata''), st)
      | Some [] \<Rightarrow> (Inl (Unauthenticated ''missing authorization''), st)
      | Some (v # vs) \<Rightarrow>
          if \<not> HasPrefix v bearerPrefix then (Inl (Unauthenticated ''invalid token format''), st)
          else
            (let rawToken = drop (length bearerPrefix) v
             in (case Validate h now rawToken st of
                   (Inl _, st') \<Rightarrow> (Inl (Unauthenticated ''invalid or expired token''), st')
                 | (Inr uid, st') \<Rightarrow> (Inr (rawToken, uid), st'))))"

text \<open>The unary and the stream interceptor: the handler's context, or the refusal.\<close>

definition AuthInterceptor ::
    "SessionHandler \<Rightarrow> int \<Rightarrow> string \<Rightarrow> string list option \<Rightarrow> session_state \<Rightarrow> (rpc_error + request_ctx) \<times> session_state" where
  "AuthInterceptor h now fullMethod md st =
     (if fullMethod \<in> set publicMethods then (Inr \<lparr>rq_user = None, rq_dek = None, rq_blob = None\<rparr>, st)
      else (case authenticate h now md st of
         (Inl e, st') \<Rightarrow> (Inl e, st')
       | (Inr (rawToken, uid), st') \<Rightarrow> (Inr (AuthContext h uid rawToken st'), st')))"

subsection \<open>Users: lemmas\<close>

lemma crypto_key: "crypto_ok c \<Longrightarrow> \<exists>a. cy_gcm c (cy_argon c p s t m 32) = Some a \<and> aead_ok a"
  by (simp add: crypto_ok_def)

lemma unwrap_wrap:
  assumes "cy_gcm c k = Some a" and "aead_ok a" and "length n = nonce_size a"
  shows "wrapKey c (Some n) key k = Inr (n @ seal a n key)" and "unwrapKey c (n @ seal a n key) k = Inr key"
  using assms by (simp_all add: wrapKey_def unwrapKey_def aead_ok_def)

lemma Sealed_read_back:
  assumes "aead_ok a" and "length n = nonce_size a" and "Store_ok s"
  shows "Sealed_Get a (snd (Sealed_Put a n s k v)) k' = (if k' = k then Inr v else Sealed_Get a s k')"
    and "fst (Sealed_Put a n s k v) = Inr ()" and "Store_ok (snd (Sealed_Put a n s k v))"
  using assms by (simp_all add: Sealed_Put_def Sealed_Get_def kv.put_fst kv.get_put kv.put_ok aead_ok_def)

lemma PutUser_effect:
  assumes "crypto_ok c" and "aead_ok a" and "length n = nonce_size a" and "Store_ok users"
  shows "\<exists>s. PutUser c a n users u d = (Inr (), s) \<and> Store_ok s
     \<and> (\<forall>v. GetUser c a s v = (if v = u then Inr d else GetUser c a users v))"
proof -
  let ?put = "Sealed_Put a n users (userRowKey u) (cy_marshal c d)"
  have fst: "fst ?put = Inr ()" and ok: "Store_ok (snd ?put)"
    and get: "\<And>k. Sealed_Get a (snd ?put) k = (if k = userRowKey u then Inr (cy_marshal c d) else Sealed_Get a users k)"
    using Sealed_read_back [OF assms(2-4)] by blast+
  have "GetUser c a (snd ?put) v = (if v = u then Inr d else GetUser c a users v)" for v
    using assms(1) by (simp add: GetUser_def get userRowKey_inj crypto_ok_def)
  with fst ok show ?thesis by (cases ?put) (simp add: PutUser_def)
qed

text \<open>The random draws of a sign-up that succeed: the nonces have the length the cipher wants.\<close>

definition draws_ok :: "crypto \<Rightarrow> aead \<Rightarrow> signup_draws \<Rightarrow> bool" where
  "draws_ok c a d \<longleftrightarrow> dr_salt d \<noteq> None \<and> dr_dek d \<noteq> None \<and> dr_recovery d \<noteq> None \<and> length (dr_seal d) = nonce_size a
     \<and> (\<exists>n n'. dr_nonce d = Some n \<and> dr_nonce' d = Some n'
          \<and> (\<forall>k b. length k = 32 \<longrightarrow> cy_gcm c k = Some b \<longrightarrow> length n = nonce_size b \<and> length n' = nonce_size b))"

text \<open>A sign-up that finds no readable record of the name stores one that opens with the password.\<close>

lemma SignUp_effect:
  assumes c: "crypto_ok c" and a: "aead_ok a" and "Store_ok users" and d: "draws_ok c a d"
    and u: "username \<noteq> []" and p: "password \<noteq> []" and free: "is_err (GetUser c a users username)"
  shows "\<exists>res users' data. auth_SignUp c a d users username password = (Inr res, users') \<and> Store_ok users'
     \<and> su_user res = ''user:'' @ username \<and> dr_dek d = Some (su_dek res) \<and> dr_salt d = Some (ud_salt data)
     \<and> (\<exists>b. dr_recovery d = Some b \<and> su_recovery res = base32Encode (string_bytes b))
     \<and> (\<forall>v. GetUser c a users' v = (if v = username then Inr data else GetUser c a users v))
     \<and> ud_hash data = cy_argon c password (ud_salt data) argon2Time argon2Memory argon2KeyLen
     \<and> unwrapKey c (ud_wrappedDEK data) (ud_hash data) = Inr (su_dek res)
     \<and> unwrapKey c (ud_wrappedRecovery data) (deriveRecoveryKEK c (su_recovery res)) = Inr (su_dek res)"
proof -
  obtain salt dek rec n n' where dr: "dr_salt d = Some salt" "dr_dek d = Some dek" "dr_recovery d = Some rec"
    "dr_nonce d = Some n" "dr_nonce' d = Some n'" "length (dr_seal d) = nonce_size a"
    "\<And>k b. length k = 32 \<Longrightarrow> cy_gcm c k = Some b \<Longrightarrow> length n = nonce_size b \<and> length n' = nonce_size b"
    using d unfolding draws_ok_def by blast
  let ?kek = "cy_argon c password salt argon2Time argon2Memory argon2KeyLen"
  let ?rk = "base32Encode (string_bytes rec)"
  have len: "length ?kek = 32" "length (deriveRecoveryKEK c ?rk) = 32"
    using c by (simp_all add: crypto_ok_def argon2KeyLen_def deriveRecoveryKEK_def)
  obtain b1 where b1: "cy_gcm c ?kek = Some b1" "aead_ok b1" using c len(1) unfolding crypto_ok_def by blast
  obtain b2 where b2: "cy_gcm c (deriveRecoveryKEK c ?rk) = Some b2" "aead_ok b2" using c len(2) unfolding crypto_ok_def by blast
  have l1: "length n = nonce_size b1" and l2: "length n' = nonce_size b2" using dr(7) len b1(1) b2(1) by blast+
  let ?w1 = "n @ seal b1 n dek" and ?w2 = "n' @ seal b2 n' dek"
  let ?data = "\<lparr>ud_salt = salt, ud_hash = ?kek, ud_wrappedDEK = ?w1, ud_wrappedRecovery = ?w2\<rparr>"
  obtain s where s: "PutUser c a (dr_seal d) users username ?data = (Inr (), s)" "Store_ok s"
    "\<forall>v. GetUser c a s v = (if v = username then Inr ?data else GetUser c a users v)"
    using PutUser_effect [OF c a dr(6) assms(3), of username ?data] by blast
  have run: "auth_SignUp c a d users username password = (Inr \<lparr>su_user = ''user:'' @ username, su_recovery = ?rk, su_dek = dek\<rparr>, s)"
    using u p free s(1) dr(1-5) unwrap_wrap(1) [OF b1 l1, of dek] unwrap_wrap(1) [OF b2 l2, of dek]
    by (simp add: auth_SignUp_def Let_def generateRecoveryKey_def)
  show ?thesis
    using run s(2,3) dr(1-3) unwrap_wrap(2) [OF b1 l1, of dek] unwrap_wrap(2) [OF b2 l2, of dek]
    by (intro exI [of _ "\<lparr>su_user = ''user:'' @ username, su_recovery = ?rk, su_dek = dek\<rparr>"] exI [of _ s] exI [of _ ?data])
      (simp del: append.simps)
qed

text \<open>What a login does with a record.\<close>

lemma Login_known:
  assumes "username \<noteq> []" and "password \<noteq> []" and "GetUser c a users username = Inr data"
  shows "auth_Login c a users username password =
     (let kek = cy_argon c password (ud_salt data) argon2Time argon2Memory argon2KeyLen
      in if kek \<noteq> ud_hash data then Inl AU_credentials
         else (case unwrapKey c (ud_wrappedDEK data) kek of Inl e \<Rightarrow> Inl e
            | Inr dek \<Rightarrow> Inr \<lparr>lr_user = ''user:'' @ username, lr_dek = dek\<rparr>))"
  using assms by (simp add: auth_Login_def bytesEqual_iff)

subsection \<open>Recovery keys: lemmas\<close>

lemma base32_length: "length (base32Encode bs) = 8 * ((length bs + 4) div 5)"
proof (induction bs rule: base32Encode.induct)
  case (1 bs)
  show ?case
  proof (cases "bs = []")
    case True
    then show ?thesis by (simp add: base32Encode.simps)
  next
    case False
    have "length (base32Encode bs) = 8 + length (base32Encode (drop 5 bs))"
      using False by (subst base32Encode.simps) (simp add: base32_chunk_def Let_def)
    moreover have "(length bs + 4) div 5 = Suc ((length bs - 5 + 4) div 5)"
    proof (cases "length bs \<ge> 5")
      case True
      then have "length bs + 4 = (length bs - 5 + 4) + 5" by simp
      then show ?thesis by (metis One_nat_def add.right_neutral add_Suc_right div_add_self2 plus_nat.add_0 zero_neq_numeral)
    next
      case less: False
      moreover have "length bs > 0" using False by simp
      ultimately have "length bs = 1 \<or> length bs = 2 \<or> length bs = 3 \<or> length bs = 4" by linarith
      then show ?thesis by auto
    qed
    ultimately show ?thesis using 1 [OF False] by simp
  qed
qed

subsection \<open>Sessions: lemmas\<close>

text \<open>The tokens and the entries of the key cache live under different prefixes.\<close>

lemma EncodeToString_eq_iff [simp]: "EncodeToString a = EncodeToString b \<longleftrightarrow> a = b"
  by (auto dest: EncodeToString_inj)

lemma session_keys [simp]:
  "sessionKey c t = sessionKey c u \<longleftrightarrow> cy_sha c t = cy_sha c u"
  "dekKey c t = dekKey c u \<longleftrightarrow> cy_sha c t = cy_sha c u"
  "sessionKey c t \<noteq> ''dek:'' @ k" "''dek:'' @ k \<noteq> sessionKey c t"
  by (simp_all add: sessionKey_def dekKey_def)

definition session_ok :: "SessionHandler \<Rightarrow> session_state \<Rightarrow> bool" where
  "session_ok h st \<longleftrightarrow> Store_ok (se_tokens st) \<and> (\<forall>a. sh_deks h = SealedDEKCache a \<longrightarrow> aead_ok a)"

text \<open>The record of a token and its cached key: what the operations on sessions change.\<close>

definition token_row :: "SessionHandler \<Rightarrow> string \<Rightarrow> session_state \<Rightarrow> string option" where
  "token_row h token st = view (se_tokens st) (sessionKey (sh_crypto h) token)"

lemma Validate_row:
  "Store_ok (se_tokens st) \<Longrightarrow> Validate h now token st =
     (case token_row h token st of
        None \<Rightarrow> (Inl SX_invalid, st)
      | Some val \<Rightarrow>
          (let (userID, expiryStr) = (case Cut val (CHR 0x0A) of None \<Rightarrow> ([], []) | Some p \<Rightarrow> p)
           in if userID = [] \<or> expiryStr = [] then (Inl SX_corrupt_entry, st)
              else (case cf_parse (sh_clock h) expiryStr of
                 None \<Rightarrow> (Inl SX_corrupt_expiry, st)
               | Some expiry \<Rightarrow>
                   if now > expiry
                   then (Inl SX_expired,
                         snd (DeleteDEK_entry (sh_deks h) (dekKey (sh_crypto h) token)
                           (st\<lparr>se_tokens := snd (Store_Delete (se_tokens st) (sessionKey (sh_crypto h) token))\<rparr>)))
                   else (Inr userID, st))))"
  by (simp add: Validate_def token_row_def Store_Get_view split: option.split)

lemma DeleteDEK_effect:
  assumes "session_ok h st"
  shows "\<exists>st'. DeleteDEK_entry (sh_deks h) (dekKey (sh_crypto h) t) st = (Inr (), st') \<and> session_ok h st'
     \<and> (\<forall>u. token_row h u st' = token_row h u st)
     \<and> (\<forall>u. GetDEK h u st' = (if cy_sha (sh_crypto h) u = cy_sha (sh_crypto h) t then None else GetDEK h u st))"
proof (cases "sh_deks h")
  case MemoryDEKCache
  then show ?thesis using assms
    by (simp add: DeleteDEK_entry_def GetDEK_def GetDEK_entry_def session_ok_def token_row_def)
next
  case (SealedDEKCache a)
  have ok: "Store_ok (se_tokens st)" using assms by (simp add: session_ok_def)
  let ?k = "''dek:'' @ dekKey (sh_crypto h) t"
  obtain s where s: "Store_Delete (se_tokens st) ?k = (Inr (), s)" "Store_ok s" "view s = (view (se_tokens st))(?k := None)"
    using kv.del_pair [OF ok, of ?k] kv.del_ok [OF ok, of ?k] view_Delete [OF ok, of ?k] by metis
  have "GetDEK h u (st\<lparr>se_tokens := s\<rparr>) = (if cy_sha (sh_crypto h) u = cy_sha (sh_crypto h) t then None else GetDEK h u st)" for u
    by (simp add: GetDEK_def GetDEK_entry_def SealedDEKCache Store_Get_view [OF s(2)] Store_Get_view [OF ok] s(3) del: append.simps)
  with s assms SealedDEKCache show ?thesis
    by (simp add: DeleteDEK_entry_def session_ok_def token_row_def del: append.simps)
qed

lemma StoreDEK_effect:
  assumes "session_ok h st" and "\<forall>a. sh_deks h = SealedDEKCache a \<longrightarrow> (\<exists>n. nonce = Some n \<and> length n = nonce_size a)"
  shows "\<exists>st'. StoreDEK h nonce t dek st = (Inr (), st') \<and> session_ok h st'
     \<and> (\<forall>u. token_row h u st' = token_row h u st)
     \<and> (\<forall>u. GetDEK h u st' = (if cy_sha (sh_crypto h) u = cy_sha (sh_crypto h) t then Some dek else GetDEK h u st))"
proof (cases "sh_deks h")
  case MemoryDEKCache
  then show ?thesis using assms
    by (simp add: StoreDEK_def StoreDEK_entry_def GetDEK_def GetDEK_entry_def session_ok_def token_row_def)
next
  case (SealedDEKCache a)
  then obtain n where n: "nonce = Some n" "length n = nonce_size a" using assms(2) by blast
  have ok: "Store_ok (se_tokens st)" and a: "aead_ok a" using assms(1) SealedDEKCache by (simp_all add: session_ok_def)
  let ?k = "''dek:'' @ dekKey (sh_crypto h) t" and ?v = "n @ seal a n dek"
  obtain s where s: "Store_Put (se_tokens st) ?k ?v = (Inr (), s)" "Store_ok s" "view s = (view (se_tokens st))(?k \<mapsto> ?v)"
    using kv.put_pair [OF ok, of ?k ?v] kv.put_ok [OF ok, of ?k ?v] view_Put [OF ok, of ?k ?v] by metis
  have opens: "take (nonce_size a) ?v = n" "drop (nonce_size a) ?v = seal a n dek" "open_ct a n (seal a n dek) = Some dek"
    "\<not> length ?v < nonce_size a"
    using n(2) a by (simp_all add: aead_ok_def)
  have "GetDEK h u (st\<lparr>se_tokens := s\<rparr>) = (if cy_sha (sh_crypto h) u = cy_sha (sh_crypto h) t then Some dek else GetDEK h u st)" for u
    by (simp add: GetDEK_def GetDEK_entry_def SealedDEKCache Store_Get_view [OF s(2)] Store_Get_view [OF ok] s(3) opens
        del: append.simps take_append drop_append length_append)
  with s assms SealedDEKCache n(1) show ?thesis
    by (simp add: StoreDEK_def StoreDEK_entry_def session_ok_def token_row_def del: append.simps)
qed

lemma Mint_effect:
  assumes "session_ok h st"
  shows "\<exists>st'. Mint h now (Some b) uid st = (Inr (EncodeToString b), st') \<and> session_ok h st'
     \<and> (\<forall>u. token_row h u st' = (if cy_sha (sh_crypto h) u = cy_sha (sh_crypto h) (EncodeToString b)
            then Some (uid @ [CHR 0x0A] @ cf_format (sh_clock h) (now + sh_ttl h)) else token_row h u st))
     \<and> (\<forall>u. GetDEK h u st' = GetDEK h u st)"
proof -
  have ok: "Store_ok (se_tokens st)" using assms by (simp add: session_ok_def)
  let ?k = "sessionKey (sh_crypto h) (EncodeToString b)" and ?v = "uid @ [CHR 0x0A] @ cf_format (sh_clock h) (now + sh_ttl h)"
  obtain s where s: "Store_Put (se_tokens st) ?k ?v = (Inr (), s)" "Store_ok s" "view s = (view (se_tokens st))(?k \<mapsto> ?v)"
    using kv.put_pair [OF ok, of ?k ?v] kv.put_ok [OF ok, of ?k ?v] view_Put [OF ok, of ?k ?v] by metis
  have "GetDEK h u (st\<lparr>se_tokens := s\<rparr>) = GetDEK h u st" for u
    by (simp add: GetDEK_def GetDEK_entry_def Store_Get_view [OF s(2)] Store_Get_view [OF ok] s(3) split: DEKCache.split del: append.simps)
  with s assms show ?thesis by (simp add: Mint_def Let_def session_ok_def token_row_def)
qed

lemma Revoke_effect:
  assumes "session_ok h st"
  shows "\<exists>st'. Session_Revoke h t st = (Inr (), st') \<and> session_ok h st'
     \<and> (\<forall>u. token_row h u st' = (if cy_sha (sh_crypto h) u = cy_sha (sh_crypto h) t then None else token_row h u st))
     \<and> (\<forall>u. GetDEK h u st' = (if cy_sha (sh_crypto h) u = cy_sha (sh_crypto h) t then None else GetDEK h u st))"
proof -
  have ok: "Store_ok (se_tokens st)" using assms by (simp add: session_ok_def)
  let ?k = "sessionKey (sh_crypto h) t"
  obtain s where s: "Store_Delete (se_tokens st) ?k = (Inr (), s)" "Store_ok s" "view s = (view (se_tokens st))(?k := None)"
    using kv.del_pair [OF ok, of ?k] kv.del_ok [OF ok, of ?k] view_Delete [OF ok, of ?k] by metis
  let ?st = "st\<lparr>se_tokens := s\<rparr>"
  have "session_ok h ?st" using assms s(2) by (simp add: session_ok_def)
  from DeleteDEK_effect [OF this, of t] obtain st' where
    st': "DeleteDEK_entry (sh_deks h) (dekKey (sh_crypto h) t) ?st = (Inr (), st')" "session_ok h st'"
      "\<forall>u. token_row h u st' = token_row h u ?st"
      "\<forall>u. GetDEK h u st' = (if cy_sha (sh_crypto h) u = cy_sha (sh_crypto h) t then None else GetDEK h u ?st)" by blast
  have "GetDEK h u ?st = GetDEK h u st" for u
    by (simp add: GetDEK_def GetDEK_entry_def Store_Get_view [OF s(2)] Store_Get_view [OF ok] s(3) split: DEKCache.split del: append.simps)
  moreover have "token_row h u ?st = (if cy_sha (sh_crypto h) u = cy_sha (sh_crypto h) t then None else token_row h u st)" for u
    by (simp add: token_row_def s(3))
  ultimately show ?thesis using st' s(1) by (simp add: Session_Revoke_def)
qed

text \<open>A token minted for a user id without a line break is read back.\<close>

lemma Validate_minted:
  assumes "Store_ok (se_tokens st)" and "token_row h t st = Some (uid @ [CHR 0x0A] @ cf_format (sh_clock h) e)"
    and "time_ok (sh_clock h) e" and "uid \<noteq> []" and "CHR 0x0A \<notin> set uid"
  shows "fst (Validate h now t st) = (if now > e div second * second then Inl SX_expired else Inr uid)"
    and "now \<le> e div second * second \<Longrightarrow> snd (Validate h now t st) = st"
proof -
  have cut: "Cut (uid @ [CHR 0x0A] @ cf_format (sh_clock h) e) (CHR 0x0A) = Some (uid, cf_format (sh_clock h) e)"
    using assms(5) by (simp add: Cut_append)
  show "fst (Validate h now t st) = (if now > e div second * second then Inl SX_expired else Inr uid)"
    "now \<le> e div second * second \<Longrightarrow> snd (Validate h now t st) = st"
    using assms(3,4) by (simp_all add: Validate_row [OF assms(1)] assms(2) cut time_ok_def del: append.simps append_Cons)
qed

text \<open>The result of a validation depends on the row of the token alone.\<close>

lemma Validate_fst_cong:
  assumes "Store_ok (se_tokens st)" and "Store_ok (se_tokens st')" and "token_row h t st' = token_row h t st"
  shows "fst (Validate h now t st') = fst (Validate h now t st)"
  by (simp add: Validate_row [OF assms(1)] Validate_row [OF assms(2)] assms(3) Let_def split: option.split prod.split)

subsection \<open>Properties\<close>

text \<open>C28: A sign-up under a free name stores a record with which the same password, and no password with
  another derived key, logs in: the login gives the user id of the sign-up and the same data key, and
  no other user's login changes.\<close>
theorem SignUp_then_Login:
  assumes "crypto_ok c" and "aead_ok a" and "Store_ok users" and "draws_ok c a d"
    and "username \<noteq> []" and "password \<noteq> []" and "is_err (GetUser c a users username)"
  shows "\<exists>res users' salt. auth_SignUp c a d users username password = (Inr res, users') \<and> dr_salt d = Some salt
     \<and> su_user res = ''user:'' @ username
     \<and> auth_Login c a users' username password = Inr \<lparr>lr_user = su_user res, lr_dek = su_dek res\<rparr>
     \<and> (\<forall>p. p \<noteq> [] \<longrightarrow> cy_argon c p salt 2 19456 32 \<noteq> cy_argon c password salt 2 19456 32 \<longrightarrow>
          auth_Login c a users' username p = Inl AU_credentials)
     \<and> (\<forall>v p. v \<noteq> username \<longrightarrow> auth_Login c a users' v p = auth_Login c a users v p)"
proof -
  obtain res users' data where r: "auth_SignUp c a d users username password = (Inr res, users')"
    "su_user res = ''user:'' @ username" "dr_salt d = Some (ud_salt data)"
    "\<forall>v. GetUser c a users' v = (if v = username then Inr data else GetUser c a users v)"
    "ud_hash data = cy_argon c password (ud_salt data) argon2Time argon2Memory argon2KeyLen"
    "unwrapKey c (ud_wrappedDEK data) (ud_hash data) = Inr (su_dek res)"
    using SignUp_effect [OF assms] by (elim exE conjE) (rule that)
  have get: "GetUser c a users' username = Inr data" using r(4) by simp
  have own: "auth_Login c a users' username password = Inr \<lparr>lr_user = su_user res, lr_dek = su_dek res\<rparr>"
    using r(2,5,6) by (simp add: Login_known [OF assms(5,6) get] Let_def)
  have wrong: "auth_Login c a users' username p = Inl AU_credentials"
    if "p \<noteq> []" "cy_argon c p (ud_salt data) 2 19456 32 \<noteq> cy_argon c password (ud_salt data) 2 19456 32" for p
    using that r(5) by (simp add: Login_known [OF assms(5) that(1) get] Let_def argon2Time_def argon2Memory_def argon2KeyLen_def)
  have other: "auth_Login c a users' v p = auth_Login c a users v p" if "v \<noteq> username" for v p
    using that r(4) by (simp add: auth_Login_def)
  show ?thesis
    by (intro exI [of _ res] exI [of _ users'] exI [of _ "ud_salt data"]) (use r(1-3) own wrong other in simp)
qed

text \<open>A record that cannot be read counts as absent. After a change of the instance key, a sign-up under
  the name of an existing user succeeds with any password and overwrites the record.\<close>
theorem unreadable_user_taken_over:
  assumes "crypto_ok c" and "aead_ok a" and "Store_ok users" and "draws_ok c a d"
    and "username \<noteq> []" and "password \<noteq> []"
    and "Store_Get users (''user:'' @ username) = Inr row" and "nonce_size a \<le> length row"
    and "open_ct a (take (nonce_size a) row) (drop (nonce_size a) row) = None"
  shows "\<exists>res users'. auth_SignUp c a d users username password = (Inr res, users')
     \<and> auth_Login c a users' username password = Inr \<lparr>lr_user = ''user:'' @ username, lr_dek = su_dek res\<rparr>
     \<and> Store_Get users' (''user:'' @ username) \<noteq> Inr row"
proof -
  have "GetUser c a users username = Inl AU_user"
    using assms(7-9) by (simp add: GetUser_def Sealed_Get_def userRowKey_def)
  then have "is_err (GetUser c a users username)" by simp
  from SignUp_effect [OF assms(1-6) this] obtain res users' data where
    r: "auth_SignUp c a d users username password = (Inr res, users')"
    "su_user res = ''user:'' @ username" "\<forall>v. GetUser c a users' v = (if v = username then Inr data else GetUser c a users v)"
    "ud_hash data = cy_argon c password (ud_salt data) argon2Time argon2Memory argon2KeyLen"
    "unwrapKey c (ud_wrappedDEK data) (ud_hash data) = Inr (su_dek res)"
    by (elim exE conjE) (rule that)
  have get: "GetUser c a users' username = Inr data" using r(3) by simp
  have "auth_Login c a users' username password = Inr \<lparr>lr_user = ''user:'' @ username, lr_dek = su_dek res\<rparr>"
    using r(4,5) by (simp add: Login_known [OF assms(5,6) get] Let_def)
  moreover have "Store_Get users' (''user:'' @ username) \<noteq> Inr row"
  proof
    assume "Store_Get users' (''user:'' @ username) = Inr row"
    then have "GetUser c a users' username = Inl AU_user"
      using assms(8,9) by (simp add: GetUser_def Sealed_Get_def userRowKey_def)
    with get show False by simp
  qed
  ultimately show ?thesis using r(1) by blast
qed

text \<open>A minted token authenticates the user it was minted for until the whole second in which its
  lifetime ends, and not after; minting it changes neither the outcome for other tokens nor their keys.\<close>
theorem Mint_then_Validate:
  assumes "session_ok h st" and "time_ok (sh_clock h) (now + sh_ttl h)" and "uid \<noteq> []" and "CHR 0x0A \<notin> set uid"
  shows "\<exists>st'. Mint h now (Some b) uid st = (Inr (EncodeToString b), st')
     \<and> (\<forall>t. fst (Validate h t (EncodeToString b) st')
          = (if t > (now + sh_ttl h) div 1000000000 * 1000000000 then Inl SX_expired else Inr uid))
     \<and> (\<forall>u t. cy_sha (sh_crypto h) u \<noteq> cy_sha (sh_crypto h) (EncodeToString b) \<longrightarrow>
          fst (Validate h t u st') = fst (Validate h t u st) \<and> GetDEK h u st' = GetDEK h u st)"
proof -
  from Mint_effect [OF assms(1), of now b uid] obtain st' where
    m: "Mint h now (Some b) uid st = (Inr (EncodeToString b), st')" "session_ok h st'"
      "\<forall>u. token_row h u st' = (if cy_sha (sh_crypto h) u = cy_sha (sh_crypto h) (EncodeToString b)
            then Some (uid @ [CHR 0x0A] @ cf_format (sh_clock h) (now + sh_ttl h)) else token_row h u st)"
      "\<forall>u. GetDEK h u st' = GetDEK h u st" by blast
  have ok: "Store_ok (se_tokens st)" "Store_ok (se_tokens st')" using assms(1) m(2) by (simp_all add: session_ok_def)
  have "token_row h (EncodeToString b) st' = Some (uid @ [CHR 0x0A] @ cf_format (sh_clock h) (now + sh_ttl h))" using m(3) by simp
  from Validate_minted(1) [OF ok(2) this assms(2-4)]
  have own: "fst (Validate h t (EncodeToString b) st')
      = (if t > (now + sh_ttl h) div 1000000000 * 1000000000 then Inl SX_expired else Inr uid)" for t
    by (simp add: second_def)
  have "fst (Validate h t u st') = fst (Validate h t u st)"
    if "cy_sha (sh_crypto h) u \<noteq> cy_sha (sh_crypto h) (EncodeToString b)" for u t
    using that m(3) by (intro Validate_fst_cong ok) simp
  with m(1,4) own show ?thesis by blast
qed


text \<open>A session for a user whose name has a line break never validates: sign-up accepts the name, and
  every request of that user is refused.\<close>
theorem newline_user_locked_out:
  assumes "session_ok h st" and "a @ CHR 0x0A # r = uid" and "CHR 0x0A \<notin> set a"
    and "cf_parse (sh_clock h) (r @ [CHR 0x0A] @ cf_format (sh_clock h) (now + sh_ttl h)) = None"
  shows "\<exists>st'. Mint h now (Some b) uid st = (Inr (EncodeToString b), st') \<and> is_err (fst (Validate h t (EncodeToString b) st'))"
proof -
  from Mint_effect [OF assms(1), of now b uid] obtain st' where
    m: "Mint h now (Some b) uid st = (Inr (EncodeToString b), st')" "session_ok h st'"
      "token_row h (EncodeToString b) st' = Some (uid @ [CHR 0x0A] @ cf_format (sh_clock h) (now + sh_ttl h))" by auto
  have "Cut (uid @ [CHR 0x0A] @ cf_format (sh_clock h) (now + sh_ttl h)) (CHR 0x0A)
      = Some (a, r @ [CHR 0x0A] @ cf_format (sh_clock h) (now + sh_ttl h))"
    using assms(2,3) Cut_append [of "CHR 0x0A" a "r @ [CHR 0x0A] @ cf_format (sh_clock h) (now + sh_ttl h)"] by auto
  then have "is_err (fst (Validate h t (EncodeToString b) st'))"
    using m(2,3) assms(4) by (simp add: Validate_row session_ok_def Let_def)
  with m(1) show ?thesis by blast
qed

text \<open>Recovery keys are 32 characters long, not the 26 their documentation promises: the encoder pads the
  16 bytes to 20 and keeps the padding.\<close>
theorem recovery_key_length:
  assumes "generateRecoveryKey (Some b) = Inr k" and "length b = 16"
  shows "length k = 32"
  using assms by (auto simp: generateRecoveryKey_def base32_length string_bytes_def)

subsection \<open>Witnesses\<close>

text \<open>A cryptography that satisfies the documented behaviour, with a codec of length-free fields.\<close>

fun enc_field :: "string \<Rightarrow> string" where
  "enc_field [] = ''e''"
| "enc_field (c # cs) = CHR ''c'' # c # enc_field cs"

fun dec_field :: "string \<Rightarrow> (string \<times> string) option" where
  "dec_field (x # c # r) = (if x = CHR ''e'' then Some ([], c # r) else map_option (apfst ((#) c)) (dec_field r))"
| "dec_field [x] = (if x = CHR ''e'' then Some ([], []) else None)"
| "dec_field [] = None"

lemma dec_enc: "dec_field (enc_field s @ r) = Some (s, r)"
  by (induction s) (auto simp: neq_Nil_conv, cases r, simp_all)

definition demo_crypto :: crypto where
  "demo_crypto = \<lparr>cy_argon = (\<lambda>p s t m n. take n (p @ s @ replicate n (CHR ''k''))),
     cy_gcm = (\<lambda>k. if length k = 32 then Some null_aead else None), cy_sha = (\<lambda>s. s),
     cy_marshal = (\<lambda>d. enc_field (ud_salt d) @ enc_field (ud_hash d) @ enc_field (ud_wrappedDEK d) @ enc_field (ud_wrappedRecovery d)),
     cy_unmarshal = (\<lambda>s. Option.bind (dec_field s) (\<lambda>(a, s). Option.bind (dec_field s) (\<lambda>(b, s).
        Option.bind (dec_field s) (\<lambda>(w, s). Option.bind (dec_field s) (\<lambda>(r, s).
          Some \<lparr>ud_salt = a, ud_hash = b, ud_wrappedDEK = w, ud_wrappedRecovery = r\<rparr>)))))\<rparr>"

lemma demo_crypto_ok: "crypto_ok demo_crypto"
  using null_aead_ok dec_enc [of _ "[]"] by (auto simp: crypto_ok_def demo_crypto_def dec_enc min_def)

definition demo_draws :: signup_draws where
  "demo_draws = \<lparr>dr_salt = Some ''s'', dr_dek = Some ''dek'', dr_nonce = Some ''n'', dr_recovery = Some (replicate 16 (CHR ''r'')),
     dr_nonce' = Some ''m'', dr_seal = ''z''\<rparr>"

lemma demo_draws_ok: "draws_ok demo_crypto null_aead demo_draws"
  by (simp add: draws_ok_def demo_draws_def demo_crypto_def null_aead_def)

lemma demo_free: "is_err (GetUser demo_crypto null_aead NewInMemory ''ann'')"
  by (simp add: GetUser_def Sealed_Get_def NewInMemory_def Store_Get_def)

theorem SignUp_then_Login_witness:
  "\<exists>res users'. auth_SignUp demo_crypto null_aead demo_draws NewInMemory ''ann'' ''pw'' = (Inr res, users')
     \<and> auth_Login demo_crypto null_aead users' ''ann'' ''pw'' = Inr \<lparr>lr_user = su_user res, lr_dek = su_dek res\<rparr>
     \<and> auth_Login demo_crypto null_aead users' ''ann'' ''no'' = Inl AU_credentials"
proof -
  obtain res users' salt where r: "auth_SignUp demo_crypto null_aead demo_draws NewInMemory ''ann'' ''pw'' = (Inr res, users')"
    "dr_salt demo_draws = Some salt"
    "auth_Login demo_crypto null_aead users' ''ann'' ''pw'' = Inr \<lparr>lr_user = su_user res, lr_dek = su_dek res\<rparr>"
    "\<forall>p. p \<noteq> [] \<longrightarrow> cy_argon demo_crypto p salt 2 19456 32 \<noteq> cy_argon demo_crypto ''pw'' salt 2 19456 32 \<longrightarrow>
          auth_Login demo_crypto null_aead users' ''ann'' p = Inl AU_credentials"
    using SignUp_then_Login [OF demo_crypto_ok null_aead_ok Store_ok_new demo_draws_ok _ _ demo_free, of "''pw''"] by auto
  have "cy_argon demo_crypto ''no'' salt 2 19456 32 \<noteq> cy_argon demo_crypto ''pw'' salt 2 19456 32"
    by (simp add: demo_crypto_def)
  with r(1,3) r(4) [rule_format, of "''no''"] show ?thesis by simp
qed

theorem unreadable_user_taken_over_witness:
  "\<exists>res users'. auth_SignUp demo_crypto null_aead demo_draws (NewInMemory\<lparr>st_data := [(''user:ann'', ''other'')]\<rparr>) ''ann'' ''pw'' = (Inr res, users')
     \<and> auth_Login demo_crypto null_aead users' ''ann'' ''pw'' = Inr \<lparr>lr_user = ''user:ann'', lr_dek = su_dek res\<rparr>"
proof -
  let ?users = "NewInMemory\<lparr>st_data := [(''user:ann'', ''other'')]\<rparr> :: string Store"
  have get: "Store_Get ?users (''user:'' @ ''ann'') = Inr ''other''" by (simp add: Store_Get_def NewInMemory_def)
  have ok: "Store_ok ?users" by (simp add: Store_ok_def NewInMemory_def)
  have size: "nonce_size null_aead \<le> length ''other''" "open_ct null_aead (take (nonce_size null_aead) ''other'') (drop (nonce_size null_aead) ''other'') = None"
    by (simp_all add: null_aead_def)
  obtain res users' where r: "auth_SignUp demo_crypto null_aead demo_draws ?users ''ann'' ''pw'' = (Inr res, users')"
    "auth_Login demo_crypto null_aead users' ''ann'' ''pw'' = Inr \<lparr>lr_user = ''user:'' @ ''ann'', lr_dek = su_dek res\<rparr>"
    using unreadable_user_taken_over [OF demo_crypto_ok null_aead_ok ok demo_draws_ok _ _ get size, of "''pw''"] by auto
  then show ?thesis by (intro exI [of _ res] exI [of _ users']) simp
qed

definition demo_clock :: clock_format where
  "demo_clock = \<lparr>cf_format = (\<lambda>t. replicate (nat (t div second)) (CHR ''1'') @ ''Z''),
     cf_parse = (\<lambda>s. if CHR 0x0A \<in> set s then None else Some (int (length s - 1) * second))\<rparr>"

lemma demo_clock_ok: "0 \<le> t \<Longrightarrow> time_ok demo_clock t"
  by (simp add: time_ok_def demo_clock_def second_def)

definition demo_handler :: SessionHandler where
  "demo_handler = \<lparr>sh_crypto = demo_crypto, sh_clock = demo_clock, sh_deks = SealedDEKCache null_aead, sh_ttl = 5000000000\<rparr>"

definition demo_sessions :: session_state where
  "demo_sessions = \<lparr>se_tokens = NewInMemory, se_deks = []\<rparr>"

lemma demo_session_ok: "session_ok demo_handler demo_sessions"
  by (simp add: session_ok_def demo_handler_def demo_sessions_def null_aead_ok)

lemma demo_handler_sel [simp]: "sh_clock demo_handler = demo_clock" "sh_ttl demo_handler = 5000000000"
  "sh_crypto demo_handler = demo_crypto" "sh_deks demo_handler = SealedDEKCache null_aead"
  by (simp_all add: demo_handler_def)

theorem Mint_then_Validate_witness:
  "\<exists>st'. Mint demo_handler 7 (Some ''t'') ''user:ann'' demo_sessions = (Inr (EncodeToString ''t''), st')
     \<and> fst (Validate demo_handler 5000000000 (EncodeToString ''t'') st') = Inr ''user:ann''
     \<and> fst (Validate demo_handler 5000000001 (EncodeToString ''t'') st') = Inl SX_expired"
  using Mint_then_Validate [OF demo_session_ok, of 7 "''user:ann''" "''t''"] by (auto simp: demo_clock_ok)


theorem newline_user_locked_out_witness:
  "\<exists>st'. Mint demo_handler 7 (Some ''t'') (''a'' @ CHR 0x0A # ''b'') demo_sessions = (Inr (EncodeToString ''t''), st')
     \<and> is_err (fst (Validate demo_handler 8 (EncodeToString ''t'') st'))"
  by (rule newline_user_locked_out [OF demo_session_ok refl]) (simp_all add: demo_clock_def)

theorem recovery_key_length_witness:
  "length (base32Encode (string_bytes (replicate 16 (CHR ''r'')))) = 32"
  by (rule recovery_key_length [of "replicate 16 (CHR ''r'')"]) (simp_all add: generateRecoveryKey_def)


end
