(* ===== verification/Config.thy ===== *)
theory Config
  imports Policy Accounts Auth Identity
begin

text \<open>
  The operator's configuration, \<open>internal/config/config.go\<close>: the defaults, what refuses to start, and
  the stores that are built from it.

  Decoding YAML is an argument of \<open>Load\<close>: the file is absent, or unreadable, or does not parse, or
  decodes onto the defaults. Opening a database file is an argument too: \<open>op_sqlite path\<close> is the store
  behind a path, \<^const>\<open>None\<close> when SQLite refuses it; \<open>op_vault\<close> likewise. The cipher of a key is
  \<open>op_gcm\<close>, as in \<open>Auth\<close>. A Go map of options is an association list; the theorems hold for each order.
\<close>

subsection \<open>The configuration\<close>

record StoreConfig =
  sc_backend :: string
  sc_path :: string

record AccountConfig =
  ac_id :: string
  ac_username :: string
  ac_password_env :: string
  ac_max_streams :: "32 word"
  ac_policy :: policy_set

record SlotEntry =
  sl_adapter :: string
  sl_id :: string
  sl_transport :: string
  sl_enabled :: bool
  sl_sync_cadence :: string
  sl_token_env :: string
  sl_server :: string
  sl_accounts :: "AccountConfig list"
  sl_options :: "(string \<times> string) list"

record SlotsConfig =
  sg_builtin :: bool
  sg_providers :: "SlotEntry list"
  sg_catalogue :: "SlotEntry list"
  sg_sinks :: "SlotEntry list"
  sg_subtitle_sources :: "SlotEntry list"
  sg_drm :: "SlotEntry list"

record StoresConfig =
  st_caches :: StoreConfig
  st_vault :: StoreConfig
  st_vault_key :: string
  st_watch_history :: StoreConfig
  st_jobs :: StoreConfig
  st_sessions :: StoreConfig
  st_users :: StoreConfig
  st_source_cache :: StoreConfig
  st_metadata_cache :: StoreConfig

record DeliveryConfig =
  dl_on_cap_change :: string
  dl_session_ttl :: string
  dl_interval :: string
  dl_grace :: string

record Config =
  cg_bind :: string
  cg_methods :: "string list"
  cg_token_ttl :: string
  cg_dek_cache :: string
  cg_stores :: StoresConfig
  cg_policy :: policy_set
  cg_slots :: SlotsConfig
  cg_drain_cadence :: string
  cg_delivery :: DeliveryConfig
  cg_articles :: "string list"

definition in_memory :: StoreConfig where
  "in_memory = \<lparr>sc_backend = ''in-memory'', sc_path = []\<rparr>"

definition Default :: Config where
  "Default =
     \<lparr>cg_bind = ''127.0.0.1:8443'', cg_methods = [''password''], cg_token_ttl = ''168h'', cg_dek_cache = ''memory'',
      cg_stores = \<lparr>st_caches = in_memory, st_vault = in_memory, st_vault_key = ''generated'', st_watch_history = in_memory,
        st_jobs = in_memory, st_sessions = in_memory, st_users = in_memory, st_source_cache = in_memory,
        st_metadata_cache = in_memory\<rparr>,
      cg_policy = [],
      cg_slots = \<lparr>sg_builtin = True, sg_providers = [], sg_catalogue = [], sg_sinks = [], sg_subtitle_sources = [], sg_drm = []\<rparr>,
      cg_drain_cadence = [],
      cg_delivery = \<lparr>dl_on_cap_change = [], dl_session_ttl = [], dl_interval = [], dl_grace = []\<rparr>,
      cg_articles = []\<rparr>"

subsection \<open>What refuses to start\<close>

datatype config_error =
    CF_read | CF_parse | CF_id string | CF_duplicate string string | CF_adapter string | CF_transport string string
  | CF_server string | CF_account string | CF_option string string | CF_policy policy_error
  | CF_account_policy string string policy_error | CF_duration string | CF_article string | CF_cap_change string
  | CF_backend string | CF_open string | CF_key_length nat | CF_key_hex nat | CF_random | CF_cipher | CF_dek_cache string

definition validateSlotOption :: "go_parsers \<Rightarrow> string \<Rightarrow> string \<times> string \<Rightarrow> config_error option" where
  "validateSlotOption P slot kv =
     (let (k, v) = kv; bad = Some (CF_option slot k) in
      if k = KeyPacingRequestsPerSec then
        (case ParseFloat P v of None \<Rightarrow> bad | Some f \<Rightarrow> if not_positive f then bad else None)
      else if k = KeyPacingMaxPulls then
        (case Atoi v of None \<Rightarrow> bad | Some n \<Rightarrow> if n < 1 then bad else None)
      else if k = KeyPacingDelay then
        (case ParseDuration P v of None \<Rightarrow> bad | Some d \<Rightarrow> if d \<le> 0 then bad else None)
      else if k = KeyPacingRetries then
        (case Atoi v of None \<Rightarrow> bad | Some n \<Rightarrow> if n < 0 then bad else None)
      else None)"

fun first_bad :: "('a \<Rightarrow> 'e option) \<Rightarrow> 'a list \<Rightarrow> 'e option" where
  "first_bad f [] = None"
| "first_bad f (x # xs) = (case f x of Some e \<Rightarrow> Some e | None \<Rightarrow> first_bad f xs)"

lemma first_bad_None_iff: "first_bad f xs = None \<longleftrightarrow> (\<forall>x \<in> set xs. f x = None)"
  by (induction xs) (auto split: option.splits)

definition validateSlotOptions :: "go_parsers \<Rightarrow> SlotEntry \<Rightarrow> config_error option" where
  "validateSlotOptions P e = first_bad (validateSlotOption P (sl_id e)) (sl_options e)"

text \<open>One entry of a list of the kind; \<open>seen\<close> maps the ids met before to their kind.\<close>

definition validate_slot ::
    "go_parsers \<Rightarrow> string \<Rightarrow> SlotEntry \<Rightarrow> (string \<times> string) list \<Rightarrow> config_error + (string \<times> string) list" where
  "validate_slot P kind e seen =
     (if sl_id e = [] then Inl (CF_id kind)
      else case map_of seen (sl_id e) of
        Some prev \<Rightarrow> Inl (CF_duplicate (sl_id e) prev)
      | None \<Rightarrow>
          if sl_adapter e = [] then Inl (CF_adapter (sl_id e))
          else if sl_transport e \<notin> {[], ''in-process''} then Inl (CF_transport (sl_id e) (sl_transport e))
          else if kind = ''providers'' \<and> sl_server e = [] then Inl (CF_server (sl_id e))
          else if kind = ''providers'' \<and> list_ex (\<lambda>a. ac_id a = []) (sl_accounts e) then Inl (CF_account (sl_id e))
          else (case validateSlotOptions P e of
             Some err \<Rightarrow> Inl err
           | None \<Rightarrow> Inr (AList.update (sl_id e) kind seen)))"

fun validate_entries ::
    "go_parsers \<Rightarrow> (string \<times> SlotEntry) list \<Rightarrow> (string \<times> string) list \<Rightarrow> config_error option" where
  "validate_entries P [] seen = None"
| "validate_entries P ((kind, e) # es) seen =
     (case validate_slot P kind e seen of Inl err \<Rightarrow> Some err | Inr seen' \<Rightarrow> validate_entries P es seen')"

definition all_slots :: "SlotsConfig \<Rightarrow> (string \<times> SlotEntry) list" where
  "all_slots s = map (Pair ''providers'') (sg_providers s) @ map (Pair ''catalogue'') (sg_catalogue s)
     @ map (Pair ''sinks'') (sg_sinks s) @ map (Pair ''subtitle-sources'') (sg_subtitle_sources s)
     @ map (Pair ''drm'') (sg_drm s)"

definition validateSlots :: "go_parsers \<Rightarrow> SlotsConfig \<Rightarrow> config_error option" where
  "validateSlots P s = validate_entries P (all_slots s) []"

definition validatePolicies :: "go_parsers \<Rightarrow> Config \<Rightarrow> config_error option" where
  "validatePolicies P c =
     (case ParseInstance P (cg_policy c) of
        Inl e \<Rightarrow> Some (CF_policy e)
      | Inr _ \<Rightarrow>
          first_bad (\<lambda>e. first_bad (\<lambda>a.
              (case ParseOverlay P (ac_policy a) of
                 Inl err \<Rightarrow> Some (CF_account_policy (ac_id a) (sl_id e) err)
               | Inr _ \<Rightarrow> None)) (sl_accounts e))
            (sg_providers (cg_slots c) @ sg_catalogue (cg_slots c) @ sg_sinks (cg_slots c)))"

definition DefaultSessionTTL :: int where "DefaultSessionTTL = 24 * 3600 * 1000000000"
definition DefaultHeartbeatInterval :: int where "DefaultHeartbeatInterval = 30 * 1000000000"
definition DefaultHeartbeatGrace :: int where "DefaultHeartbeatGrace = 90 * 1000000000"

record DeliveryTiming =
  dt_session_ttl :: int
  dt_interval :: int
  dt_grace :: int

definition durationOr :: "go_parsers \<Rightarrow> string \<Rightarrow> int \<Rightarrow> string \<Rightarrow> config_error + int" where
  "durationOr P raw fallback key =
     (if raw = [] then Inr fallback
      else case ParseDuration P raw of
        None \<Rightarrow> Inl (CF_duration key)
      | Some d \<Rightarrow> if d \<le> 0 then Inl (CF_duration key) else Inr d)"

definition ParseDeliveryTiming :: "go_parsers \<Rightarrow> DeliveryConfig \<Rightarrow> config_error + DeliveryTiming" where
  "ParseDeliveryTiming P c =
     (case durationOr P (dl_session_ttl c) DefaultSessionTTL ''delivery.session-ttl'' of
        Inl e \<Rightarrow> Inl e
      | Inr ttl \<Rightarrow>
          (case durationOr P (dl_interval c) DefaultHeartbeatInterval ''delivery.heartbeat.interval'' of
             Inl e \<Rightarrow> Inl e
           | Inr i \<Rightarrow>
               (case durationOr P (dl_grace c) DefaultHeartbeatGrace ''delivery.heartbeat.grace'' of
                  Inl e \<Rightarrow> Inl e
                | Inr g \<Rightarrow> Inr \<lparr>dt_session_ttl = ttl, dt_interval = i, dt_grace = g\<rparr>)))"

text \<open>\<open>strings.ToLower\<close> over the Unicode tables is a parameter.\<close>

definition ValidateArticle :: "(string \<Rightarrow> string) \<Rightarrow> string \<Rightarrow> config_error option" where
  "ValidateArticle lower a =
     (if a = [] \<or> list_ex (\<lambda>c. c \<in> set [CHR '' '', CHR 0x09, CHR 0x0A]) a \<or> a \<noteq> lower a then Some (CF_article a) else None)"

definition ValidateArticles :: "(string \<Rightarrow> string) \<Rightarrow> string list \<Rightarrow> config_error option" where
  "ValidateArticles lower as = first_bad (ValidateArticle lower) as"

datatype config_file = NoPath | Missing | Unreadable | Unparsable | Decoded Config

definition Load :: "go_parsers \<Rightarrow> (string \<Rightarrow> string) \<Rightarrow> config_file \<Rightarrow> config_error + Config" where
  "Load P lower f =
     (case f of
        NoPath \<Rightarrow> Inr Default
      | Missing \<Rightarrow> Inr Default
      | Unreadable \<Rightarrow> Inl CF_read
      | Unparsable \<Rightarrow> Inl CF_parse
      | Decoded c \<Rightarrow>
          (case validateSlots P (cg_slots c) of
             Some e \<Rightarrow> Inl e
           | None \<Rightarrow>
               (case validatePolicies P c of
                  Some e \<Rightarrow> Inl e
                | None \<Rightarrow>
                    (case ParseDeliveryTiming P (cg_delivery c) of
                       Inl e \<Rightarrow> Inl e
                     | Inr _ \<Rightarrow>
                         (case ValidateArticles lower (cg_articles c) of Some e \<Rightarrow> Inl e | None \<Rightarrow> Inr c)))))"

definition ParseCapChangeDefault :: "string \<Rightarrow> config_error + string" where
  "ParseCapChangeDefault raw =
     (let s = TrimSpace raw in
      if s = [] \<or> s = ''new-sessions-only'' then Inr CapChangePolicyNewSessionsOnly
      else if s = ''enforce-now'' then Inr CapChangePolicyEnforceNow
      else Inl (CF_cap_change raw))"

definition ParseTokenTTL :: "go_parsers \<Rightarrow> string \<Rightarrow> int" where
  "ParseTokenTTL P val =
     (let defaultTTL = 168 * 3600 * 1000000000 in
      if val = [] then defaultTTL
      else case ParseDuration P val of None \<Rightarrow> defaultTTL | Some d \<Rightarrow> d)"

subsection \<open>The instance key\<close>

text \<open>
  \<open>fmt.Sscanf\<close> with \<open>%02x\<close> on two bytes: white space before the number is skipped, a line break is an
  error, and the number ends at the first byte that is no hexadecimal digit; what follows is ignored.
\<close>

definition scan_space :: "char \<Rightarrow> bool" where
  "scan_space c \<longleftrightarrow> c \<in> set [CHR 0x09, CHR 0x0B, CHR 0x0C, CHR 0x0D, CHR '' '']"

definition scan_hex :: "char \<Rightarrow> char \<Rightarrow> char option" where
  "scan_hex c d =
     (if scan_space c then map_option (\<lambda>x. char_of x) (unhex d)
      else case unhex c of
        None \<Rightarrow> None
      | Some x \<Rightarrow> (case unhex d of None \<Rightarrow> Some (char_of x) | Some y \<Rightarrow> Some (char_of (16 * x + y))))"

fun scan_key :: "nat \<Rightarrow> string \<Rightarrow> config_error + string" where
  "scan_key i (c # d # r) =
     (case scan_hex c d of
        None \<Rightarrow> Inl (CF_key_hex i)
      | Some b \<Rightarrow> (case scan_key (i + 1) r of Inl e \<Rightarrow> Inl e | Inr bs \<Rightarrow> Inr (b # bs)))"
| "scan_key i _ = Inr []"

definition loadOrGenerateVaultKey :: "(string \<Rightarrow> aead option) \<Rightarrow> string option \<Rightarrow> string \<Rightarrow> config_error + aead" where
  "loadOrGenerateVaultKey gcm rand val =
     (let key =
        (if val = ''generated'' \<or> val = [] then (case rand of None \<Rightarrow> Inl CF_random | Some k \<Rightarrow> Inr k)
         else if length val \<noteq> 64 then Inl (CF_key_length (length val))
         else scan_key 0 val)
      in (case key of
            Inl e \<Rightarrow> Inl e
          | Inr k \<Rightarrow> (case gcm k of None \<Rightarrow> Inl CF_cipher | Some a \<Rightarrow> Inr a)))"

subsection \<open>The stores\<close>

datatype vault_store = PlainVault "string Store" | SealedVault "(string \<times> string) Store"

record Stores =
  bs_cache :: "string Store"
  bs_vault :: vault_store
  bs_watch_history :: "string Store"
  bs_jobs :: "string Store"
  bs_sessions :: "string Store"
  bs_users :: "string Store"
  bs_source_cache :: "string Store"
  bs_metadata_cache :: "string Store"
  bs_aead :: aead

datatype durability_warning = NoInstanceKey | LostClasses "string list" | JobsInMemory

definition is_in_memory :: "StoreConfig \<Rightarrow> bool" where
  "is_in_memory c \<longleftrightarrow> sc_backend c = ''in-memory''"

definition auditDurability :: "StoresConfig \<Rightarrow> durability_warning list" where
  "auditDurability c =
     (let lost = (if is_in_memory (st_users c) then [''logins (users)''] else [])
            @ (if is_in_memory (st_vault c) then [''account sessions (vault)''] else [])
            @ (if is_in_memory (st_watch_history c) then [''watch history''] else [])
      in (if st_vault_key c = [] \<or> st_vault_key c = ''generated'' then [NoInstanceKey] else [])
         @ (if lost \<noteq> [] then [LostClasses lost] else [])
         @ (if is_in_memory (st_jobs c) then [JobsInMemory] else []))"

record openers =
  op_sqlite :: "string \<Rightarrow> string Store option"
  op_vault :: "string \<Rightarrow> (string \<times> string) Store option"
  op_gcm :: "string \<Rightarrow> aead option"
  op_random :: "string option"

definition path_or :: "StoreConfig \<Rightarrow> string \<Rightarrow> string" where
  "path_or c defaultPath = (if sc_path c = [] then defaultPath else sc_path c)"

definition buildStore :: "openers \<Rightarrow> StoreConfig \<Rightarrow> string \<Rightarrow> config_error + string Store" where
  "buildStore os c defaultPath =
     (if sc_backend c = ''in-memory'' then Inr NewInMemory
      else if sc_backend c = ''local-file''
      then (case op_sqlite os (path_or c defaultPath) of None \<Rightarrow> Inl (CF_open (path_or c defaultPath)) | Some s \<Rightarrow> Inr s)
      else Inl (CF_backend (sc_backend c)))"

definition buildVault :: "openers \<Rightarrow> StoreConfig \<Rightarrow> config_error + vault_store" where
  "buildVault os c =
     (if sc_backend c = ''in-memory'' then Inr (PlainVault NewInMemory)
      else if sc_backend c = ''local-file''
      then (case op_vault os (path_or c ''data/vault.db'') of
              None \<Rightarrow> Inl (CF_open (path_or c ''data/vault.db'')) | Some s \<Rightarrow> Inr (SealedVault s))
      else Inl (CF_backend (sc_backend c)))"

definition bindE :: "'e + 'a \<Rightarrow> ('a \<Rightarrow> 'e + 'b) \<Rightarrow> 'e + 'b" where
  "bindE r f = (case r of Inl e \<Rightarrow> Inl e | Inr a \<Rightarrow> f a)"

lemma bindE_Inr_iff: "bindE r f = Inr b \<longleftrightarrow> (\<exists>a. r = Inr a \<and> f a = Inr b)"
  by (cases r) (simp_all add: bindE_def)

text \<open>The wrappers of the users store and of the watch history keep the rows they wrap: they are the
  operations \<open>Sealed_Get\<close> and \<open>UserBlob_Get\<close> of \<open>Store\<close> on the store below.\<close>

definition BuildStores :: "openers \<Rightarrow> StoresConfig \<Rightarrow> config_error + Stores \<times> durability_warning list" where
  "BuildStores os c =
     bindE (buildStore os (st_caches c) ''data/caches.db'') (\<lambda>caches.
     bindE (buildStore os (st_watch_history c) ''data/watch-history.db'') (\<lambda>watch.
     bindE (buildStore os (st_jobs c) ''data/jobs.db'') (\<lambda>jobs.
     bindE (buildStore os (st_sessions c) ''data/sessions.db'') (\<lambda>sessions.
     bindE (buildStore os (st_users c) ''data/users.db'') (\<lambda>users.
     bindE (buildStore os (st_source_cache c) ''data/source-cache.db'') (\<lambda>source.
     bindE (buildStore os (st_metadata_cache c) ''data/metadata-cache.db'') (\<lambda>metadata.
     bindE (loadOrGenerateVaultKey (op_gcm os) (op_random os) (st_vault_key c)) (\<lambda>aead.
     bindE (buildVault os (st_vault c)) (\<lambda>vault.
       Inr (\<lparr>bs_cache = caches, bs_vault = vault, bs_watch_history = watch, bs_jobs = jobs, bs_sessions = sessions,
             bs_users = users, bs_source_cache = source, bs_metadata_cache = metadata, bs_aead = aead\<rparr>,
            auditDurability c))))))))))"

text \<open>\<open>CloseStores\<close>: every store is closed; the first error wins.\<close>

definition close_vault :: "vault_store \<Rightarrow> (store_error + unit) \<times> vault_store" where
  "close_vault v = (case v of PlainVault s \<Rightarrow> apsnd PlainVault (Store_Close s) | SealedVault s \<Rightarrow> apsnd SealedVault (Store_Close s))"

fun first_err_of :: "(store_error + unit) list \<Rightarrow> store_error option" where
  "first_err_of [] = None"
| "first_err_of (Inl e # rs) = Some e"
| "first_err_of (Inr _ # rs) = first_err_of rs"

definition CloseStores :: "Stores \<Rightarrow> store_error option \<times> Stores" where
  "CloseStores s =
     (let (r1, c1) = Store_Close (bs_cache s); (r2, c2) = close_vault (bs_vault s);
          (r3, c3) = Store_Close (bs_watch_history s); (r4, c4) = Store_Close (bs_jobs s);
          (r5, c5) = Store_Close (bs_sessions s); (r6, c6) = Store_Close (bs_users s);
          (r7, c7) = Store_Close (bs_source_cache s); (r8, c8) = Store_Close (bs_metadata_cache s)
      in (first_err_of [r1, r2, r3, r4, r5, r6, r7, r8],
          s\<lparr>bs_cache := c1, bs_vault := c2, bs_watch_history := c3, bs_jobs := c4, bs_sessions := c5, bs_users := c6,
            bs_source_cache := c7, bs_metadata_cache := c8\<rparr>))"

definition BuildAuth :: "aead \<Rightarrow> string \<Rightarrow> config_error + DEKCache" where
  "BuildAuth a mode =
     (if mode = [] \<or> mode = ''memory'' then Inr MemoryDEKCache
      else if mode = ''encrypted-store'' then Inr (SealedDEKCache a)
      else Inl (CF_dek_cache mode))"

subsection \<open>Lemmas\<close>

definition transport_ok :: "string \<Rightarrow> bool" where
  "transport_ok t \<longleftrightarrow> t \<in> {[], ''in-process''}"

definition entry_ok :: "go_parsers \<Rightarrow> bool \<Rightarrow> SlotEntry \<Rightarrow> bool" where
  "entry_ok P provider e \<longleftrightarrow>
     sl_id e \<noteq> [] \<and> sl_adapter e \<noteq> [] \<and> transport_ok (sl_transport e)
     \<and> (provider \<longrightarrow> sl_server e \<noteq> [] \<and> (\<forall>a \<in> set (sl_accounts e). ac_id a \<noteq> []))
     \<and> validateSlotOptions P e = None"

lemma validate_slot_Inr_iff:
  "validate_slot P kind e seen = Inr s \<longleftrightarrow>
     entry_ok P (kind = ''providers'') e \<and> map_of seen (sl_id e) = None \<and> s = AList.update (sl_id e) kind seen"
proof -
  obtain b where b: "b \<longleftrightarrow> kind = ''providers''" by blast
  have t: "sl_transport e \<notin> {[], ''in-process''} \<longleftrightarrow> \<not> transport_ok (sl_transport e)" by (simp only: transport_ok_def)
  show ?thesis
    unfolding validate_slot_def t entry_ok_def b [symmetric]
    by (cases "sl_id e = []"; cases "map_of seen (sl_id e)"; cases "validateSlotOptions P e"; cases b)
      (auto simp: list_ex_iff)
qed

lemma validate_slot_total: "(\<nexists>s. validate_slot P kind e seen = Inr s) \<Longrightarrow> \<exists>err. validate_slot P kind e seen = Inl err"
  by (cases "validate_slot P kind e seen") simp_all

lemma fresh_step:
  assumes A and B
  shows "((\<forall>x \<in> S. Q x \<and> f x \<noteq> i \<and> R x) \<and> D) = (((A \<and> B) \<and> (\<forall>x \<in> S. Q x \<and> R x)) \<and> \<not> (\<exists>x \<in> S. i = f x) \<and> D)"
  using assms by auto

lemma validate_entries_None_iff:
  "validate_entries P es seen = None \<longleftrightarrow>
     (\<forall>x \<in> set es. entry_ok P (fst x = ''providers'') (snd x) \<and> map_of seen (sl_id (snd x)) = None)
     \<and> distinct (map (sl_id \<circ> snd) es)"
proof (induction P es seen rule: validate_entries.induct)
  case (2 P kind e es seen)
  show ?case
  proof (cases "validate_slot P kind e seen")
    case (Inl err)
    then have "\<not> (entry_ok P (kind = ''providers'') e \<and> map_of seen (sl_id e) = None)"
      using validate_slot_Inr_iff [of P kind e seen "AList.update (sl_id e) kind seen"] by simp
    then show ?thesis using Inl by simp
  next
    case (Inr seen')
    then have ok: "entry_ok P (kind = ''providers'') e" "map_of seen (sl_id e) = None"
      and s: "seen' = AList.update (sl_id e) kind seen"
      by (simp_all only: validate_slot_Inr_iff)
    have fresh: "map_of seen' i = None \<longleftrightarrow> i \<noteq> sl_id e \<and> map_of seen i = None" for i
      using ok(2) by (simp add: s update_conv')
    have e: "validate_entries P ((kind, e) # es) seen = validate_entries P es seen'" using Inr by simp
    show ?thesis
      unfolding e 2 [OF Inr] fresh list.set list.map distinct.simps ball_simps fst_conv snd_conv o_apply set_map image_iff
      by (rule fresh_step [OF ok])
  qed
qed simp

definition option_ok :: "go_parsers \<Rightarrow> string \<times> string \<Rightarrow> bool" where
  "option_ok P kv \<longleftrightarrow>
     (fst kv = KeyPacingRequestsPerSec \<longrightarrow> (\<exists>f. ParseFloat P (snd kv) = Some f \<and> \<not> not_positive f))
     \<and> (fst kv = KeyPacingMaxPulls \<longrightarrow> (\<exists>n. Atoi (snd kv) = Some n \<and> n \<ge> 1))
     \<and> (fst kv = KeyPacingDelay \<longrightarrow> (\<exists>d. ParseDuration P (snd kv) = Some d \<and> d > 0))
     \<and> (fst kv = KeyPacingRetries \<longrightarrow> (\<exists>n. Atoi (snd kv) = Some n \<and> n \<ge> 0))"

lemma validateSlotOption_None_iff: "validateSlotOption P slot kv = None \<longleftrightarrow> option_ok P kv"
  by (cases kv) (auto simp: validateSlotOption_def option_ok_def Let_def policy_keys split: option.splits)

lemma validateSlotOptions_None_iff: "validateSlotOptions P e = None \<longleftrightarrow> (\<forall>kv \<in> set (sl_options e). option_ok P kv)"
  by (simp add: validateSlotOptions_def first_bad_None_iff validateSlotOption_None_iff)


lemma validateSlots_None_iff:
  "validateSlots P s = None \<longleftrightarrow>
     (\<forall>x \<in> set (all_slots s). entry_ok P (fst x = ''providers'') (snd x)) \<and> distinct (map (sl_id \<circ> snd) (all_slots s))"
  by (simp add: validateSlots_def validate_entries_None_iff)

definition policies_ok :: "go_parsers \<Rightarrow> Config \<Rightarrow> bool" where
  "policies_ok P c \<longleftrightarrow>
     Policy.validate P (cg_policy c) = None
     \<and> (\<forall>e \<in> set (sg_providers (cg_slots c) @ sg_catalogue (cg_slots c) @ sg_sinks (cg_slots c)).
          \<forall>a \<in> set (sl_accounts e). Policy.validate P (ac_policy a) = None)"

lemma validatePolicies_None_iff: "validatePolicies P c = None \<longleftrightarrow> policies_ok P c"
proof (cases "Policy.validate P (cg_policy c)")
  case None
  have a: "(case ParseOverlay P (ac_policy a) of
        Inl err \<Rightarrow> Some (CF_account_policy (ac_id a) (sl_id e) err) | Inr _ \<Rightarrow> None) = None
      \<longleftrightarrow> Policy.validate P (ac_policy a) = None" for a e
    by (simp add: ParseOverlay_def split: option.splits)
  show ?thesis by (simp only: validatePolicies_def ParseInstance_def None option.case sum.case first_bad_None_iff a policies_ok_def simp_thms)
qed (simp add: validatePolicies_def ParseInstance_def policies_ok_def)

definition knob_ok :: "go_parsers \<Rightarrow> string \<Rightarrow> bool" where
  "knob_ok P raw \<longleftrightarrow> raw = [] \<or> (\<exists>d. ParseDuration P raw = Some d \<and> d > 0)"

lemma durationOr_Inr_iff:
  "durationOr P raw f k = Inr d \<longleftrightarrow> (if raw = [] then d = f else ParseDuration P raw = Some d \<and> d > 0)"
  by (auto simp: durationOr_def split: option.splits)

lemma durationOr_ok: "(\<exists>d. durationOr P raw f k = Inr d) \<longleftrightarrow> knob_ok P raw"
  by (auto simp: durationOr_Inr_iff knob_ok_def)

definition delivery_ok :: "go_parsers \<Rightarrow> DeliveryConfig \<Rightarrow> bool" where
  "delivery_ok P c \<longleftrightarrow> knob_ok P (dl_session_ttl c) \<and> knob_ok P (dl_interval c) \<and> knob_ok P (dl_grace c)"

lemma Inl_or_Inr: "(\<nexists>d. r = Inr d) \<longleftrightarrow> (\<exists>e. r = Inl e)"
  by (cases r) simp_all

lemma ParseDeliveryTiming_ok: "(\<exists>t. ParseDeliveryTiming P c = Inr t) \<longleftrightarrow> delivery_ok P c"
proof -
  have "(\<exists>t. ParseDeliveryTiming P c = Inr t) \<longleftrightarrow>
      (\<exists>d. durationOr P (dl_session_ttl c) DefaultSessionTTL ''delivery.session-ttl'' = Inr d)
      \<and> (\<exists>d. durationOr P (dl_interval c) DefaultHeartbeatInterval ''delivery.heartbeat.interval'' = Inr d)
      \<and> (\<exists>d. durationOr P (dl_grace c) DefaultHeartbeatGrace ''delivery.heartbeat.grace'' = Inr d)"
    unfolding ParseDeliveryTiming_def
    by (cases "durationOr P (dl_session_ttl c) DefaultSessionTTL ''delivery.session-ttl''";
        cases "durationOr P (dl_interval c) DefaultHeartbeatInterval ''delivery.heartbeat.interval''";
        cases "durationOr P (dl_grace c) DefaultHeartbeatGrace ''delivery.heartbeat.grace''") (simp_all only: sum.case sum.simps simp_thms ex_simps)
  then show ?thesis by (simp only: durationOr_ok delivery_ok_def)
qed

definition article_ok :: "(string \<Rightarrow> string) \<Rightarrow> string \<Rightarrow> bool" where
  "article_ok lower a \<longleftrightarrow> a \<noteq> [] \<and> CHR '' '' \<notin> set a \<and> CHR 0x09 \<notin> set a \<and> CHR 0x0A \<notin> set a \<and> a = lower a"

lemma ValidateArticles_None_iff: "ValidateArticles lower as = None \<longleftrightarrow> (\<forall>a \<in> set as. article_ok lower a)"
proof -
  have "ValidateArticle lower a = None \<longleftrightarrow> article_ok lower a" for a
    by (auto simp: ValidateArticle_def article_ok_def list_ex_iff)
  then show ?thesis by (simp add: ValidateArticles_def first_bad_None_iff)
qed

text \<open>What a configuration must satisfy: the conditions the file's comments state, over the whole of it.\<close>

definition slots_ok :: "go_parsers \<Rightarrow> SlotsConfig \<Rightarrow> bool" where
  "slots_ok P s \<longleftrightarrow>
     distinct (map sl_id (sg_providers s @ sg_catalogue s @ sg_sinks s @ sg_subtitle_sources s @ sg_drm s))
     \<and> (\<forall>e \<in> set (sg_providers s @ sg_catalogue s @ sg_sinks s @ sg_subtitle_sources s @ sg_drm s).
          sl_id e \<noteq> [] \<and> sl_adapter e \<noteq> [] \<and> transport_ok (sl_transport e) \<and> (\<forall>kv \<in> set (sl_options e). option_ok P kv))
     \<and> (\<forall>e \<in> set (sg_providers s). sl_server e \<noteq> [] \<and> (\<forall>a \<in> set (sl_accounts e). ac_id a \<noteq> []))"

lemma entry_ok_kind: "(\<forall>x \<in> set (map (Pair k) es). entry_ok P (fst x = ''providers'') (snd x)) \<longleftrightarrow>
    (\<forall>e \<in> set es. entry_ok P (k = ''providers'') e)"
  by (simp only: list.set_map ball_simps fst_conv snd_conv)

lemma entry_ok_other: "entry_ok P False e \<longleftrightarrow> sl_id e \<noteq> [] \<and> sl_adapter e \<noteq> [] \<and> transport_ok (sl_transport e)
    \<and> (\<forall>kv \<in> set (sl_options e). option_ok P kv)"
  by (simp add: entry_ok_def validateSlotOptions_None_iff)

lemma entry_ok_provider: "entry_ok P True e \<longleftrightarrow>
    entry_ok P False e \<and> sl_server e \<noteq> [] \<and> (\<forall>a \<in> set (sl_accounts e). ac_id a \<noteq> [])"
  by (auto simp: entry_ok_def)

lemma validateSlots_slots_ok: "validateSlots P s = None \<longleftrightarrow> slots_ok P s"
proof -
  have k: "(''providers'' = ''providers'') = True" "(''catalogue'' = ''providers'') = False" "(''sinks'' = ''providers'') = False"
    "(''subtitle-sources'' = ''providers'') = False" "(''drm'' = ''providers'') = False" by simp_all
  have ids: "map (sl_id \<circ> snd) (map (Pair k) es) = map sl_id es" for k es by simp
  have "validateSlots P s = None \<longleftrightarrow>
     ((\<forall>e \<in> set (sg_providers s). entry_ok P True e) \<and> (\<forall>e \<in> set (sg_catalogue s). entry_ok P False e)
      \<and> (\<forall>e \<in> set (sg_sinks s). entry_ok P False e) \<and> (\<forall>e \<in> set (sg_subtitle_sources s). entry_ok P False e)
      \<and> (\<forall>e \<in> set (sg_drm s). entry_ok P False e))
     \<and> distinct (map sl_id (sg_providers s @ sg_catalogue s @ sg_sinks s @ sg_subtitle_sources s @ sg_drm s))"
    by (simp only: validateSlots_None_iff all_slots_def set_append ball_Un entry_ok_kind map_append ids k conj_assoc)
  then show ?thesis
    by (simp only: slots_ok_def entry_ok_provider entry_ok_other set_append ball_Un ball_conj_distrib) (simp only: conj_ac)
qed


lemma unhex_hex_lower: "n < 16 \<Longrightarrow> unhex (hex_lower n) = Some n"
  by (auto simp: unhex_def hex_lower_def Let_def)

lemma hex_lower_no_space: "n < 16 \<Longrightarrow> \<not> scan_space (hex_lower n)"
  using unhex_hex_lower [of n] by (auto simp: scan_space_def unhex_def)

lemma scan_hex_pair: "a < 16 \<Longrightarrow> b < 16 \<Longrightarrow> scan_hex (hex_lower a) (hex_lower b) = Some (char_of (16 * a + b))"
  by (simp add: scan_hex_def hex_lower_no_space unhex_hex_lower)

definition hex_pairs :: "string \<Rightarrow> string" where
  "hex_pairs k = concat (map (\<lambda>c. [hex_lower (of_char c div 16), hex_lower (of_char c mod 16)]) k)"

lemma scan_key_hex: "scan_key i (hex_pairs k) = Inr k"
proof (induction k arbitrary: i)
  case (Cons c k)
  have "of_char c < (256 :: nat)" by (rule nat_of_char_less_256)
  then have "scan_hex (hex_lower (of_char c div 16)) (hex_lower (of_char c mod 16)) = Some c"
    by (subst scan_hex_pair) (simp_all add: less_mult_imp_div_less mult.commute)
  then show ?case using Cons [of "i + 1"] by (simp add: hex_pairs_def)
qed (simp add: hex_pairs_def)

lemma hex_pairs_length: "length (hex_pairs k) = 2 * length k"
  by (induction k) (simp_all add: hex_pairs_def)

lemma scan_key_replicate: "scan_hex c d = Some b \<Longrightarrow> scan_key i (concat (replicate n [c, d])) = Inr (replicate n b)"
  by (induction n arbitrary: i) simp_all

definition half_hex :: string where "half_hex = concat (replicate 32 ''fz'')"

lemma not_generated: "length val = 64 \<Longrightarrow> val \<noteq> ''generated'' \<and> val \<noteq> []"
  by auto

text \<open>A pinned key of sixty-four hexadecimal digits is decoded to its thirty-two bytes. But the check that
  it is one does not hold: each pair is read up to the first byte that is no digit, so sixty-four
  characters half of which are the letter z are accepted, and give the key of thirty-two bytes 0x0f,
  with four bits of each byte lost.\<close>
theorem pinned_key:
  assumes "length k = 32"
  shows "loadOrGenerateVaultKey gcm rand (hex_pairs k) = (case gcm k of None \<Rightarrow> Inl CF_cipher | Some a \<Rightarrow> Inr a)"
    and "loadOrGenerateVaultKey gcm rand half_hex
      = loadOrGenerateVaultKey gcm rand (hex_pairs (replicate 32 CHR 0x0F))"
proof -
  have k: "loadOrGenerateVaultKey gcm rand v = (case gcm k of None \<Rightarrow> Inl CF_cipher | Some a \<Rightarrow> Inr a)"
    if "length v = 64" "scan_key 0 v = Inr k" for v k
    using not_generated [OF that(1)] that by (simp add: loadOrGenerateVaultKey_def)
  show "loadOrGenerateVaultKey gcm rand (hex_pairs k) = (case gcm k of None \<Rightarrow> Inl CF_cipher | Some a \<Rightarrow> Inr a)"
    by (rule k) (simp_all add: hex_pairs_length scan_key_hex assms)
  have "scan_hex (CHR ''f'') (CHR ''z'') = Some CHR 0x0F" by (simp add: scan_hex_def scan_space_def unhex_def char_of_def bit_0)
  then have f: "scan_key 0 half_hex = Inr (replicate 32 CHR 0x0F)" unfolding half_hex_def by (rule scan_key_replicate)
  have l: "length half_hex = 64" by (simp add: half_hex_def length_concat sum_list_replicate)
  show "loadOrGenerateVaultKey gcm rand half_hex
      = loadOrGenerateVaultKey gcm rand (hex_pairs (replicate 32 CHR 0x0F))"
    by (simp only: k [OF l f] k [OF _ scan_key_hex, of "replicate 32 CHR 0x0F"] hex_pairs_length length_replicate)
qed

theorem pinned_key_witness:
  "loadOrGenerateVaultKey (\<lambda>k. if k = replicate 32 CHR 0x0F then Some null_aead else None) None half_hex = Inr null_aead"
  by (simp add: pinned_key(2) [OF length_replicate] pinned_key(1))

text \<open>Every default path is its own: with all classes on disk and no paths given, no two stores share a file.\<close>

definition default_paths :: "string list" where
  "default_paths = [''data/caches.db'', ''data/watch-history.db'', ''data/jobs.db'', ''data/sessions.db'',
     ''data/users.db'', ''data/source-cache.db'', ''data/metadata-cache.db'', ''data/vault.db'']"

lemma default_paths_distinct: "distinct default_paths"
  by (simp add: default_paths_def)

lemma buildStore_file: "sc_backend c = ''local-file'' \<Longrightarrow> sc_path c = [] \<Longrightarrow>
    buildStore os c d = (case op_sqlite os d of None \<Rightarrow> Inl (CF_open d) | Some s \<Rightarrow> Inr s)"
  by (simp add: buildStore_def path_or_def split: option.splits)

lemma buildStore_backend: "buildStore os c d = Inr s \<Longrightarrow> sc_backend c = ''in-memory'' \<or> sc_backend c = ''local-file''"
  by (simp add: buildStore_def split: if_splits)

lemma buildVault_backend: "buildVault os c = Inr s \<Longrightarrow> sc_backend c = ''in-memory'' \<or> sc_backend c = ''local-file''"
  by (simp add: buildVault_def split: if_splits)

text \<open>A boot that built its stores names every class it may lose, and the instance key.\<close>

lemma audit_exact:
  "auditDurability c = [] \<longleftrightarrow>
     st_vault_key c \<noteq> [] \<and> st_vault_key c \<noteq> ''generated''
     \<and> \<not> is_in_memory (st_users c) \<and> \<not> is_in_memory (st_vault c) \<and> \<not> is_in_memory (st_watch_history c)
     \<and> \<not> is_in_memory (st_jobs c)"
  unfolding auditDurability_def Let_def by simp

text \<open>The shipped defaults build: every store in memory, the instance key generated, the data keys in
  process memory; and the boot says so, naming the key, each class a restart loses, and the jobs.\<close>
theorem defaults_boot:
  assumes "op_random os = Some k" and "op_gcm os k = Some a"
  shows "Load P lower NoPath = Inr Default"
    and "\<exists>s. BuildStores os (cg_stores Default)
       = Inr (s, [NoInstanceKey, LostClasses [''logins (users)'', ''account sessions (vault)'', ''watch history''], JobsInMemory])
     \<and> bs_aead s = a \<and> bs_users s = NewInMemory \<and> BuildAuth (bs_aead s) (cg_dek_cache Default) = Inr MemoryDEKCache"
proof -
  have mem: "buildStore os in_memory d = Inr NewInMemory" for d by (simp add: buildStore_def in_memory_def)
  have v: "buildVault os in_memory = Inr (PlainVault NewInMemory)" by (simp add: buildVault_def in_memory_def)
  have key: "loadOrGenerateVaultKey (op_gcm os) (op_random os) ''generated'' = Inr a"
    by (simp add: loadOrGenerateVaultKey_def assms)
  show "Load P lower NoPath = Inr Default" by (simp add: Load_def)
  show "\<exists>s. BuildStores os (cg_stores Default)
       = Inr (s, [NoInstanceKey, LostClasses [''logins (users)'', ''account sessions (vault)'', ''watch history''], JobsInMemory])
     \<and> bs_aead s = a \<and> bs_users s = NewInMemory \<and> BuildAuth (bs_aead s) (cg_dek_cache Default) = Inr MemoryDEKCache"
    by (simp add: BuildStores_def Default_def mem v key bindE_def auditDurability_def is_in_memory_def BuildAuth_def)
      (simp add: in_memory_def)
qed

subsection \<open>Witnesses\<close>

definition demo_parsers :: go_parsers where
  "demo_parsers = \<lparr>ParseFloat = (\<lambda>_. Some (Finite 1)), ParseDuration = (\<lambda>_. Some 1)\<rparr>"

definition demo_slot :: SlotEntry where
  "demo_slot = \<lparr>sl_adapter = ''jellyfin'', sl_id = ''home'', sl_transport = [], sl_enabled = True, sl_sync_cadence = [],
     sl_token_env = [], sl_server = ''https://s'',
     sl_accounts = [\<lparr>ac_id = ''ann'', ac_username = ''ann'', ac_password_env = ''P'', ac_max_streams = 0, ac_policy = []\<rparr>],
     sl_options = [(''pacingRetries'', ''2'')]\<rparr>"

definition demo_config :: Config where
  "demo_config = Default\<lparr>cg_slots := (cg_slots Default)\<lparr>sg_providers := [demo_slot]\<rparr>, cg_articles := [''the'']\<rparr>"

definition twice :: Config where
  "twice = demo_config\<lparr>cg_slots := (cg_slots demo_config)\<lparr>sg_sinks := [demo_slot]\<rparr>\<rparr>"


theorem defaults_boot_witness:
  "\<exists>s. BuildStores \<lparr>op_sqlite = (\<lambda>_. None), op_vault = (\<lambda>_. None), op_gcm = (\<lambda>_. Some null_aead), op_random = Some ''k''\<rparr>
         (cg_stores Default)
       = Inr (s, [NoInstanceKey, LostClasses [''logins (users)'', ''account sessions (vault)'', ''watch history''], JobsInMemory])"
  using defaults_boot(2) [of "\<lparr>op_sqlite = (\<lambda>_. None), op_vault = (\<lambda>_. None), op_gcm = (\<lambda>_. Some null_aead), op_random = Some ''k''\<rparr>" "''k''" null_aead]
  by auto

end
