(* ===== verification/Event_Bus.thy ===== *)
theory Event_Bus
  imports Library Schema
begin

text \<open>
  The event bus, \<open>internal/apiserver/bus.go\<close>, and the jobs of the API, \<open>recordJob\<close>, \<open>RecordJobStatus\<close>,
  \<open>CreateJob\<close> and \<open>GetJob\<close> of \<open>server.go\<close>.

  A subscriber's channel is the list of the events it has not read, the oldest first; sending to a full
  channel drops the event. The mutex makes each operation atomic. The rows of the jobs store are typed:
  \<^const>\<open>None\<close> stands for bytes that do not decode. A job with text that is not UTF-8 does not encode:
  the predicate \<open>marshals\<close> is an argument. So are the stamps of events.
\<close>

subsection \<open>The bus\<close>

record busSubscriber =
  sb_uid :: string
  sb_ch :: "EventEnvelope list"

record InMemoryBus =
  bu_subscribers :: "(string \<times> busSubscriber) list"
  bu_entiter :: "(string \<Rightarrow> string \<Rightarrow> bool) option"

definition busBuffer :: nat where "busBuffer = 64"

definition NewInMemoryBus :: InMemoryBus where
  "NewInMemoryBus = \<lparr>bu_subscribers = [], bu_entiter = None\<rparr>"

definition SetAccountEntiter :: "(string \<Rightarrow> string \<Rightarrow> bool) option \<Rightarrow> InMemoryBus \<Rightarrow> InMemoryBus" where
  "SetAccountEntiter fn b = b\<lparr>bu_entiter := fn\<rparr>"

text \<open>The \<open>select\<close> with a default: the event is sent if there is room.\<close>

definition offer :: "EventEnvelope \<Rightarrow> busSubscriber \<Rightarrow> busSubscriber" where
  "offer ev sub = (if length (sb_ch sub) < busBuffer then sub\<lparr>sb_ch := sb_ch sub @ [ev]\<rparr> else sub)"

definition offer_where :: "(string \<Rightarrow> bool) \<Rightarrow> EventEnvelope \<Rightarrow> InMemoryBus \<Rightarrow> InMemoryBus" where
  "offer_where P ev b =
     b\<lparr>bu_subscribers := map (\<lambda>(i, sub). (i, if \<not> P (sb_uid sub) then sub else offer ev sub)) (bu_subscribers b)\<rparr>"

definition Publish :: "EventEnvelope option \<Rightarrow> InMemoryBus \<Rightarrow> InMemoryBus" where
  "Publish event b =
     (case event of
        None \<Rightarrow> b
      | Some ev \<Rightarrow>
          if ev_audience ev = EA_USER \<or> ev_audience ev = EA_OWNER then
            (if ev_user_id ev = [] then b else offer_where (\<lambda>uid. uid = ev_user_id ev) ev b)
          else if ev_audience ev = EA_ACCOUNT then
            (case bu_entiter b of
               None \<Rightarrow> b
             | Some f \<Rightarrow> if ev_account_id ev = [] then b else offer_where (f (ev_account_id ev)) ev b)
          else b)"

definition Subscribe :: "string \<Rightarrow> string \<Rightarrow> InMemoryBus \<Rightarrow> InMemoryBus" where
  "Subscribe i uid b = b\<lparr>bu_subscribers := AList.update i \<lparr>sb_uid = uid, sb_ch = []\<rparr> (bu_subscribers b)\<rparr>"

definition Unsubscribe :: "string \<Rightarrow> InMemoryBus \<Rightarrow> InMemoryBus" where
  "Unsubscribe i b = b\<lparr>bu_subscribers := AList.delete i (bu_subscribers b)\<rparr>"

text \<open>The receive of the loop in \<open>Server.Subscribe\<close>: the oldest event, if there is one.\<close>

definition Receive :: "string \<Rightarrow> InMemoryBus \<Rightarrow> EventEnvelope option \<times> InMemoryBus" where
  "Receive i b =
     (case map_of (bu_subscribers b) i of
        None \<Rightarrow> (None, b)
      | Some sub \<Rightarrow>
          (case sb_ch sub of
             [] \<Rightarrow> (None, b)
           | ev # evs \<Rightarrow> (Some ev, b\<lparr>bu_subscribers := AList.update i (sub\<lparr>sb_ch := evs\<rparr>) (bu_subscribers b)\<rparr>)))"

definition Bus_Close :: "InMemoryBus \<Rightarrow> InMemoryBus" where
  "Bus_Close b = b\<lparr>bu_subscribers := []\<rparr>"

subsection \<open>Jobs\<close>

record api_state =
  as_jobs :: "Job option Store"
  as_bus :: InMemoryBus

datatype code = OK | InvalidArgument | NotFoundCode | PermissionDenied | Internal | UnauthenticatedCode | Unavailable
  | EngineCode int

datatype api_error = Status code string | Panicked

definition jobKey :: "string \<Rightarrow> string" where "jobKey i = ''job:'' @ i"

definition job_event :: "string \<Rightarrow> int \<Rightarrow> Job \<Rightarrow> EventEnvelope" where
  "job_event idPrefix now job =
     \<lparr>ev_id = idPrefix @ job_id job, ev_type = ET_JOB_STATUS, ev_audience = EA_USER,
      ev_user_id = job_owner_user_id job, ev_account_id = [],
      ev_payload = Some (JobStatusEvent (job_id job) (job_status job)), ev_emitted_at = now\<rparr>"

text \<open>\<open>Server.recordJob\<close>, and \<open>RecordJobStatus\<close>, which announces the transition whether or not the row was written.\<close>

definition api_recordJob :: "(Job \<Rightarrow> bool) \<Rightarrow> Job option \<Rightarrow> api_state \<Rightarrow> api_state" where
  "api_recordJob marshals job s =
     (case job of
        None \<Rightarrow> s
      | Some j \<Rightarrow>
          if \<not> marshals j then s
          else s\<lparr>as_jobs := snd (Store_Put (as_jobs s) (jobKey (job_id j)) (Some j))\<rparr>)"

definition RecordJobStatus :: "(Job \<Rightarrow> bool) \<Rightarrow> int \<Rightarrow> Job option \<Rightarrow> api_state \<Rightarrow> api_state" where
  "RecordJobStatus marshals now job s =
     (case job of
        None \<Rightarrow> s
      | Some j \<Rightarrow>
          if \<not> marshals j then s
          else s\<lparr>as_jobs := snd (Store_Put (as_jobs s) (jobKey (job_id j)) (Some j)),
                 as_bus := Publish (Some (job_event ''evt-delivery-'' now j)) (as_bus s)\<rparr>)"

datatype create_error = BadJob string | MarshalJob | JobStore store_error

definition CreateJob :: "(Job \<Rightarrow> bool) \<Rightarrow> int \<Rightarrow> Job option \<Rightarrow> api_state \<Rightarrow> (create_error + unit) \<times> api_state" where
  "CreateJob marshals now job s =
     (case (ValidateJob job, job) of
        (Some e, _) \<Rightarrow> (Inl (BadJob e), s)
      | (None, None) \<Rightarrow> (Inl MarshalJob, s)
      | (None, Some j) \<Rightarrow>
          if \<not> marshals j then (Inl MarshalJob, s)
          else (case Store_Put (as_jobs s) (jobKey (job_id j)) (Some j) of
             (Inl e, st) \<Rightarrow> (Inl (JobStore e), s\<lparr>as_jobs := st\<rparr>)
           | (Inr _, st) \<Rightarrow>
               (Inr (), s\<lparr>as_jobs := st, as_bus := Publish (Some (job_event ''evt-job-'' now j)) (as_bus s)\<rparr>)))"

definition ValidateGetJobRequest :: "string option \<Rightarrow> verdict" where
  "ValidateGetJobRequest r =
     (case r of
        None \<Rightarrow> Some ''get_job_request: nil''
      | Some i \<Rightarrow> if i = [] then Some ''get_job_request: job_id is required'' else None)"

definition GetJob :: "string \<Rightarrow> string option \<Rightarrow> api_state \<Rightarrow> api_error + Job" where
  "GetJob uid req s =
     (case ValidateGetJobRequest req of
        Some e \<Rightarrow> Inl (Status InvalidArgument e)
      | None \<Rightarrow>
          (case Store_Get (as_jobs s) (jobKey (get_or [] id req)) of
             Inl e \<Rightarrow>
               if e = ErrKeyNotFound then Inl (Status NotFoundCode ''job not found'')
               else Inl (Status Internal ''failed to read job'')
           | Inr None \<Rightarrow> Inl (Status Internal ''corrupted job data'')
           | Inr (Some job) \<Rightarrow>
               if job_owner_user_id job \<noteq> [] \<and> job_owner_user_id job \<noteq> uid
               then Inl (Status PermissionDenied ''job belongs to another user'')
               else Inr job))"

subsection \<open>What the bus routes\<close>

text \<open>Who an event is for, by its audience.\<close>

definition entitled :: "(string \<Rightarrow> string \<Rightarrow> bool) option \<Rightarrow> string \<Rightarrow> EventEnvelope \<Rightarrow> bool" where
  "entitled fn uid ev \<longleftrightarrow>
     (ev_audience ev = EA_USER \<or> ev_audience ev = EA_OWNER) \<and> ev_user_id ev \<noteq> [] \<and> ev_user_id ev = uid
     \<or> ev_audience ev = EA_ACCOUNT \<and> ev_account_id ev \<noteq> [] \<and> (\<exists>f. fn = Some f \<and> f (ev_account_id ev) uid)"

lemma map_of_offer: "map_of (bu_subscribers (offer_where P ev b)) i
    = map_option (\<lambda>sub. if P (sb_uid sub) then offer ev sub else sub) (map_of (bu_subscribers b) i)"
proof -
  have "map_of (map (\<lambda>(i, sub). (i, if \<not> P (sb_uid sub) then sub else offer ev sub)) m) i
      = map_option (\<lambda>sub. if P (sb_uid sub) then offer ev sub else sub) (map_of m i)" for m
    by (induction m) auto
  then show ?thesis by (simp add: offer_where_def)
qed

lemma Publish_subscriber: "map_of (bu_subscribers (Publish (Some ev) b)) i
    = map_option (\<lambda>sub. if entitled (bu_entiter b) (sb_uid sub) ev then offer ev sub else sub) (map_of (bu_subscribers b) i)"
  by (cases "bu_entiter b"; cases "map_of (bu_subscribers b) i")
    (auto simp: Publish_def map_of_offer entitled_def)

lemma Publish_entiter [simp]: "bu_entiter (Publish ev b) = bu_entiter b"
  by (simp add: Publish_def offer_where_def split: option.splits)

text \<open>The operations that may run while a subscription \<open>i\<close> is open, and what it reads.\<close>

datatype bus_op = OpPublish "EventEnvelope option" | OpReceive string | OpSubscribe string string | OpUnsubscribe string
  | OpEntiter "(string \<Rightarrow> string \<Rightarrow> bool) option"

fun bus_step :: "bus_op \<Rightarrow> InMemoryBus \<Rightarrow> EventEnvelope option \<times> InMemoryBus" where
  "bus_step (OpPublish ev) b = (None, Publish ev b)"
| "bus_step (OpReceive i) b = Receive i b"
| "bus_step (OpSubscribe i uid) b = (None, Subscribe i uid b)"
| "bus_step (OpUnsubscribe i) b = (None, Unsubscribe i b)"
| "bus_step (OpEntiter fn) b = (None, SetAccountEntiter fn b)"

fun bus_run :: "string \<Rightarrow> bus_op list \<Rightarrow> InMemoryBus \<Rightarrow> EventEnvelope list \<times> InMemoryBus" where
  "bus_run i [] b = ([], b)"
| "bus_run i (p # ps) b =
     (let (r, b1) = bus_step p b; (got, b2) = bus_run i ps b1
      in ((case r of Some ev \<Rightarrow> if p = OpReceive i then [ev] else [] | None \<Rightarrow> []) @ got, b2))"

text \<open>The events a run publishes for the user.\<close>

fun addressed :: "(string \<Rightarrow> string \<Rightarrow> bool) option \<Rightarrow> string \<Rightarrow> bus_op list \<Rightarrow> EventEnvelope list" where
  "addressed fn uid [] = []"
| "addressed fn uid (OpPublish (Some ev) # ps) = (if entitled fn uid ev then ev # addressed fn uid ps else addressed fn uid ps)"
| "addressed fn uid (OpEntiter fn' # ps) = addressed fn' uid ps"
| "addressed fn uid (p # ps) = addressed fn uid ps"

definition keeps_open :: "string \<Rightarrow> bus_op \<Rightarrow> bool" where
  "keeps_open i p \<longleftrightarrow> p \<noteq> OpUnsubscribe i \<and> (\<forall>uid. p \<noteq> OpSubscribe i uid)"

definition queued :: "string \<Rightarrow> InMemoryBus \<Rightarrow> EventEnvelope list" where
  "queued i b = (case map_of (bu_subscribers b) i of None \<Rightarrow> [] | Some sub \<Rightarrow> sb_ch sub)"

definition open_for :: "string \<Rightarrow> string \<Rightarrow> InMemoryBus \<Rightarrow> bool" where
  "open_for i uid b \<longleftrightarrow> (\<exists>sub. map_of (bu_subscribers b) i = Some sub \<and> sb_uid sub = uid \<and> length (sb_ch sub) \<le> busBuffer)"

text \<open>One step: what was read and what is queued is what was queued and, if there was room, the event
  of the step.\<close>

lemma bus_step_queue:
  assumes "open_for i uid b" and "keeps_open i p" and "bus_step p b = (r, b')"
  shows "open_for i uid b'"
    and "(case r of Some ev \<Rightarrow> if p = OpReceive i then [ev] else [] | None \<Rightarrow> []) @ queued i b'
        = queued i b @ (if length (queued i b) < busBuffer then addressed (bu_entiter b) uid [p] else [])"
    and "addressed (bu_entiter b) uid (p # ps) = addressed (bu_entiter b) uid [p] @ addressed (bu_entiter b') uid ps"
proof -
  obtain sub where sub: "map_of (bu_subscribers b) i = Some sub" "sb_uid sub = uid" "length (sb_ch sub) \<le> busBuffer"
    using assms(1) by (auto simp: open_for_def)
  have "open_for i uid b' \<and> (case r of Some ev \<Rightarrow> if p = OpReceive i then [ev] else [] | None \<Rightarrow> []) @ queued i b'
        = queued i b @ (if length (queued i b) < busBuffer then addressed (bu_entiter b) uid [p] else [])
     \<and> addressed (bu_entiter b) uid (p # ps) = addressed (bu_entiter b) uid [p] @ addressed (bu_entiter b') uid ps"
  proof (cases p)
    case (OpPublish e)
    show ?thesis
    proof (cases e)
      case None
      then show ?thesis using assms(1,3) OpPublish by (auto simp: Publish_def)
    next
      case (Some ev)
      have b': "r = None" "b' = Publish (Some ev) b" using assms(3) OpPublish Some by auto
      show ?thesis
        using sub OpPublish Some by (auto simp: b' open_for_def queued_def Publish_subscriber offer_def)
    qed
  next
    case (OpReceive j)
    then show ?thesis using assms(3) sub
      by (auto simp: Receive_def open_for_def queued_def split: option.splits list.splits)
  next
    case (OpSubscribe j u)
    then have "j \<noteq> i" using assms(2) by (auto simp: keeps_open_def)
    then show ?thesis using OpSubscribe assms(3) sub
      by (auto simp: Subscribe_def open_for_def queued_def)
  next
    case (OpUnsubscribe j)
    then have "j \<noteq> i" using assms(2) by (auto simp: keeps_open_def)
    then show ?thesis using OpUnsubscribe assms(3) sub
      by (auto simp: Unsubscribe_def open_for_def queued_def delete_conv')
  next
    case (OpEntiter fn)
    then show ?thesis using assms(3) sub by (auto simp: SetAccountEntiter_def open_for_def queued_def)
  qed
  then show "open_for i uid b'"
    and "(case r of Some ev \<Rightarrow> if p = OpReceive i then [ev] else [] | None \<Rightarrow> []) @ queued i b'
        = queued i b @ (if length (queued i b) < busBuffer then addressed (bu_entiter b) uid [p] else [])"
    and "addressed (bu_entiter b) uid (p # ps) = addressed (bu_entiter b) uid [p] @ addressed (bu_entiter b') uid ps"
    by blast+
qed

text \<open>C27: What a subscription reads, followed by what waits in its channel, is a subsequence of what waited
  before followed by the events published for its user: in the order of publication, none twice, and
  none that the audience did not entitle the user to when it was published. As long as they fit in the
  channel together, none is lost.\<close>
theorem bus_routing:
  assumes "open_for i uid b" and "\<forall>p \<in> set ps. keeps_open i p"
  shows "\<exists>got b'. bus_run i ps b = (got, b') \<and> open_for i uid b'
     \<and> subseq (got @ queued i b') (queued i b @ addressed (bu_entiter b) uid ps)
     \<and> (length (queued i b) + length (addressed (bu_entiter b) uid ps) \<le> busBuffer \<longrightarrow>
          got @ queued i b' = queued i b @ addressed (bu_entiter b) uid ps)"
  using assms
proof (induction ps arbitrary: b)
  case (Cons p ps)
  obtain r b1 where st: "bus_step p b = (r, b1)" by fastforce
  let ?now = "case r of Some ev \<Rightarrow> if p = OpReceive i then [ev] else [] | None \<Rightarrow> []"
  let ?a = "addressed (bu_entiter b) uid [p]"
  note s = bus_step_queue [OF Cons.prems(1) _ st]
  have k: "keeps_open i p" using Cons.prems(2) by simp
  obtain got b2 where ih: "bus_run i ps b1 = (got, b2)" "open_for i uid b2"
    "subseq (got @ queued i b2) (queued i b1 @ addressed (bu_entiter b1) uid ps)"
    "length (queued i b1) + length (addressed (bu_entiter b1) uid ps) \<le> busBuffer \<Longrightarrow>
        got @ queued i b2 = queued i b1 @ addressed (bu_entiter b1) uid ps"
    using Cons.IH [OF s(1) [OF k]] Cons.prems(2) by auto
  have run: "bus_run i (p # ps) b = (?now @ got, b2)" using st ih(1) by simp
  have "subseq (?now @ got @ queued i b2) (?now @ queued i b1 @ addressed (bu_entiter b1) uid ps)"
    by (rule list_emb_append_mono [OF subseq_order.order_refl ih(3)])
  also have "?now @ queued i b1 @ addressed (bu_entiter b1) uid ps
      = queued i b @ (if length (queued i b) < busBuffer then ?a else []) @ addressed (bu_entiter b1) uid ps"
    using s(2) [OF k] by (metis append.assoc)
  also have "subseq \<dots> (queued i b @ ?a @ addressed (bu_entiter b1) uid ps)" by (auto intro: list_emb_append_mono)
  finally have sub: "subseq ((?now @ got) @ queued i b2) (queued i b @ addressed (bu_entiter b) uid (p # ps))"
    using s(3) [OF k, of ps] by simp
  have all: "(?now @ got) @ queued i b2 = queued i b @ addressed (bu_entiter b) uid (p # ps)"
    if l: "length (queued i b) + length (addressed (bu_entiter b) uid (p # ps)) \<le> busBuffer"
  proof -
    have room: "length (queued i b) < busBuffer \<or> ?a = []" using l s(3) [OF k, of ps] by (cases ?a) auto
    then have q: "?now @ queued i b1 = queued i b @ ?a" using s(2) [OF k] by auto
    then have "length (queued i b1) \<le> length (queued i b) + length ?a" by (metis le_add2 length_append)
    then have "length (queued i b1) + length (addressed (bu_entiter b1) uid ps) \<le> busBuffer" using l s(3) [OF k, of ps] by simp
    then show ?thesis using ih(4) q s(3) [OF k, of ps] by (metis append.assoc)
  qed
  show ?case by (intro exI [of _ "?now @ got"] exI [of _ b2]) (use run ih(2) sub all in blast)
qed simp

subsection \<open>Jobs\<close>

lemma jobKey_inj [simp]: "jobKey i = jobKey j \<longleftrightarrow> i = j"
  by (simp add: jobKey_def)

lemma GetJob_row:
  assumes "Store_ok (as_jobs s)" and "i \<noteq> []"
  shows "GetJob uid (Some i) s =
    (case view (as_jobs s) (jobKey i) of
       None \<Rightarrow> Inl (Status NotFoundCode ''job not found'')
     | Some None \<Rightarrow> Inl (Status Internal ''corrupted job data'')
     | Some (Some j) \<Rightarrow> if job_owner_user_id j \<noteq> [] \<and> job_owner_user_id j \<noteq> uid
         then Inl (Status PermissionDenied ''job belongs to another user'') else Inr j)"
  using assms
  by (cases "view (as_jobs s) (jobKey i)") (simp_all add: GetJob_def ValidateGetJobRequest_def store_simps split: option.split)

text \<open>A job that the engine records is answered to its owner as recorded, and to nobody else, by the next
  GetJob; the other jobs are answered as before. Its status is announced to the open subscriptions
  of the owner that have room, and to no other.\<close>
theorem job_reaches_owner:
  assumes "Store_ok (as_jobs s)" and "marshals j" and "job_id j \<noteq> []" and "job_owner_user_id j \<noteq> []"
  shows "\<exists>s'. RecordJobStatus marshals now (Some j) s = s'
     \<and> GetJob (job_owner_user_id j) (Some (job_id j)) s' = Inr j
     \<and> (\<forall>uid. uid \<noteq> job_owner_user_id j \<longrightarrow>
          GetJob uid (Some (job_id j)) s' = Inl (Status PermissionDenied ''job belongs to another user''))
     \<and> (\<forall>uid i. i \<noteq> job_id j \<longrightarrow> GetJob uid (Some i) s' = GetJob uid (Some i) s)
     \<and> (\<forall>i sub. map_of (bu_subscribers (as_bus s)) i = Some sub \<longrightarrow>
          map_of (bu_subscribers (as_bus s')) i
            = Some (if sb_uid sub = job_owner_user_id j \<and> length (sb_ch sub) < busBuffer
                    then sub\<lparr>sb_ch := sb_ch sub @ [job_event ''evt-delivery-'' now j]\<rparr> else sub))"
proof -
  let ?s = "RecordJobStatus marshals now (Some j) s"
  have jobs: "as_jobs ?s = snd (Store_Put (as_jobs s) (jobKey (job_id j)) (Some j))"
    and bus: "as_bus ?s = Publish (Some (job_event ''evt-delivery-'' now j)) (as_bus s)"
    using assms(2) by (simp_all add: RecordJobStatus_def)
  have ok: "Store_ok (as_jobs ?s)" unfolding jobs by (rule kv.put_ok [OF assms(1)])
  have view: "view (as_jobs ?s) = (view (as_jobs s))(jobKey (job_id j) \<mapsto> Some j)"
    unfolding jobs by (rule view_Put [OF assms(1)])
  have own: "GetJob uid (Some (job_id j)) ?s = (if job_owner_user_id j \<noteq> uid
      then Inl (Status PermissionDenied ''job belongs to another user'') else Inr j)" for uid
    using assms(4) by (simp add: GetJob_row [OF ok assms(3)] view)
  have other: "GetJob uid (Some i) ?s = GetJob uid (Some i) s" if "i \<noteq> job_id j" for uid i
  proof (cases "i = []")
    case False
    show ?thesis unfolding GetJob_row [OF ok False] GetJob_row [OF assms(1) False] view using that by simp
  qed (simp add: GetJob_def ValidateGetJobRequest_def)
  have e: "entitled fn uid (job_event ''evt-delivery-'' now j) \<longleftrightarrow> uid = job_owner_user_id j" for fn uid
    using assms(4) by (auto simp: entitled_def job_event_def)
  have sub: "map_of (bu_subscribers (as_bus ?s)) i
      = Some (if sb_uid sub = job_owner_user_id j \<and> length (sb_ch sub) < busBuffer
              then sub\<lparr>sb_ch := sb_ch sub @ [job_event ''evt-delivery-'' now j]\<rparr> else sub)"
    if "map_of (bu_subscribers (as_bus s)) i = Some sub" for i sub
    using that by (simp add: bus Publish_subscriber e offer_def)
  show ?thesis by (intro exI [of _ ?s] conjI allI impI refl) (simp_all add: own other sub)
qed

subsection \<open>Witnesses\<close>

definition demo_job :: Job where
  "demo_job = \<lparr>job_id = ''del-1'', job_kind = JK_DELIVERY, job_status = JS_RUNNING, job_progress = None,
     job_owner_user_id = ''user:ann'', job_delivery = None, job_awaiting_action = None, job_error = []\<rparr>"

definition demo_bus :: InMemoryBus where
  "demo_bus = Subscribe ''sub-2'' ''user:bob'' (Subscribe ''sub-1'' ''user:ann'' NewInMemoryBus)"

theorem job_reaches_owner_witness:
  "GetJob ''user:ann'' (Some ''del-1'') (RecordJobStatus (\<lambda>_. True) 5 (Some demo_job) \<lparr>as_jobs = NewInMemory, as_bus = demo_bus\<rparr>)
     = Inr demo_job"
  using job_reaches_owner [of "\<lparr>as_jobs = NewInMemory, as_bus = demo_bus\<rparr>" "\<lambda>_. True" demo_job 5]
  by (simp add: demo_job_def)

theorem bus_routing_witness:
  "\<exists>got b'. bus_run ''sub-1'' [OpPublish (Some (job_event ''e-'' 5 demo_job)), OpReceive ''sub-1''] demo_bus = (got, b')
     \<and> got @ queued ''sub-1'' b' = [job_event ''e-'' 5 demo_job]"
proof -
  have "open_for ''sub-1'' ''user:ann'' demo_bus"
    by (simp add: open_for_def demo_bus_def Subscribe_def NewInMemoryBus_def)
  from bus_routing [OF this, of "[OpPublish (Some (job_event ''e-'' 5 demo_job)), OpReceive ''sub-1'']"]
  show ?thesis
    by (simp add: keeps_open_def queued_def demo_bus_def Subscribe_def NewInMemoryBus_def entitled_def job_event_def
        demo_job_def busBuffer_def) blast
qed

end
