(* ===== verification/Api_Library.thy ===== *)
theory Api_Library
  imports Event_Bus Strconv
begin

text \<open>
  The library handlers of the API, \<open>internal/apiserver/library.go\<close>: the pages of a user's library,
  the free-text query, and the availability re-check. \<^const>\<open>Panicked\<close> is a run-time panic of
  the handler, which no interceptor recovers. The text of an error and \<open>strings.ToLower\<close> are arguments.
\<close>

record GetLibraryRequest =
  gl_query :: string
  gl_page_token :: string

record GetLibraryResponse =
  gr_items :: "(LibraryEntry \<times> TitleMetadata option) list"
  gr_next :: string

definition libraryPageSize :: nat where "libraryPageSize = 100"

definition ValidateGetLibraryRequest :: "GetLibraryRequest option \<Rightarrow> verdict" where
  "ValidateGetLibraryRequest r = (case r of None \<Rightarrow> Some ''get_library_request: nil'' | Some _ \<Rightarrow> None)"

definition identity_matches :: "(string \<Rightarrow> string) \<Rightarrow> string \<Rightarrow> ExternalIdentity option \<Rightarrow> bool" where
  "identity_matches lower q x =
     (case x of
        None \<Rightarrow> False
      | Some i \<Rightarrow> Contains (lower (xi_value i)) q \<or> Contains (lower (xi_namespace i @ '':'' @ xi_value i)) q)"

definition entryMatchesQuery :: "(string \<Rightarrow> string) \<Rightarrow> Service \<Rightarrow> LibraryEntry \<Rightarrow> string \<Rightarrow> bool" where
  "entryMatchesQuery lower s e q =
     (if Contains (lower (le_id e)) q then True
      else if list_ex (identity_matches lower q) (le_external_identities e) then True
      else (case Library_Metadata s (le_metadata_ref e) of
         Inr (Some m) \<Rightarrow> Contains (lower (md_title m)) q
       | _ \<Rightarrow> False))"

definition page_token :: "string \<Rightarrow> nat \<Rightarrow> nat option" where
  "page_token t n =
     (if t = [] then Some 0
      else case Atoi t of
        None \<Rightarrow> None
      | Some i \<Rightarrow> if i < 0 \<or> i > int n then None else Some (nat i))"

text \<open>The loop over a page: an entry whose metadata cannot be read is left out.\<close>

fun page_items :: "Service \<Rightarrow> LibraryEntry list \<Rightarrow> (LibraryEntry \<times> TitleMetadata option) list" where
  "page_items s [] = []"
| "page_items s (e # es) =
     (case Library_Metadata s (le_metadata_ref e) of
        Inl _ \<Rightarrow> page_items s es
      | Inr m \<Rightarrow> (e, m) # page_items s es)"

definition GetLibrary ::
    "(lib_error \<Rightarrow> string) \<Rightarrow> (string \<Rightarrow> string) \<Rightarrow> (string \<Rightarrow> string \<Rightarrow> int) \<Rightarrow> string \<Rightarrow> GetLibraryRequest option
     \<Rightarrow> Service option \<Rightarrow> (api_error + GetLibraryResponse) \<times> Service option" where
  "GetLibrary err_text lower clk uid req lib =
     (case (ValidateGetLibraryRequest req, lib) of
        (Some e, _) \<Rightarrow> (Inl (Status InvalidArgument e), lib)
      | (None, None) \<Rightarrow> (Inl (Status Unavailable ''library engine not configured''), lib)
      | (None, Some s) \<Rightarrow>
          (case Library s clk uid of
             (Inl e, s') \<Rightarrow> (Inl (Status Internal (err_text e)), Some s')
           | (Inr entries, s') \<Rightarrow>
               (case page_token (get_or [] gl_page_token req) (length entries) of
                  None \<Rightarrow> (Inl (Status InvalidArgument ''invalid page token''), Some s')
                | Some start \<Rightarrow>
                    (let q = lower (TrimSpace (get_or [] gl_query req));
                         es = (if q = [] then entries else filter (\<lambda>e. entryMatchesQuery lower s' e q) entries);
                         stop = min (start + libraryPageSize) (length es)
                     in if stop < start then (Inl Panicked, Some s')
                        else (Inr \<lparr>gr_items = page_items s' (take (stop - start) (drop start es)),
                                   gr_next = (if stop < length es then Itoa (int stop) else [])\<rparr>, Some s')))))"

record RefreshAvailabilityRequest =
  ra_account :: string
  ra_native_ids :: "string list"

definition api_RefreshAvailability ::
    "(lib_error + reg_error sync_error \<Rightarrow> string) \<Rightarrow> string \<Rightarrow> RefreshAvailabilityRequest \<Rightarrow> Service option
     \<Rightarrow> identity_state sync_state \<Rightarrow> (api_error + 32 word \<times> 32 word) \<times> identity_state sync_state" where
  "api_RefreshAvailability err_text uid req lib st =
     (if ra_account req = [] then (Inl (Status InvalidArgument ''account_id is required''), st)
      else if ra_native_ids req = [] then (Inl (Status InvalidArgument ''native_ids must be non-empty''), st)
      else case lib of
        None \<Rightarrow> (Inl (Status Unavailable ''library engine not configured''), st)
      | Some s \<Rightarrow>
          if \<not> snd (ReachAuthorized s (ra_account req) uid)
          then (Inl (Status PermissionDenied ''account not reachable by this caller''), st)
          else (case Library_RefreshAvailability s (ra_account req) (ra_native_ids req) st of
             (Some e, _, _, st') \<Rightarrow> (Inl (Status Internal (err_text (Inl e))), st')
           | (None, Some e, _, st') \<Rightarrow> (Inl (Status Internal (err_text (Inr e))), st')
           | (None, None, stats, st') \<Rightarrow> (Inr (of_nat (sa_items stats), of_nat (sa_removed stats)), st')))"

subsection \<open>Paging\<close>

text \<open>What the caller asked for, over the entries of the library.\<close>

definition selected :: "(string \<Rightarrow> string) \<Rightarrow> Service \<Rightarrow> string \<Rightarrow> LibraryEntry list \<Rightarrow> LibraryEntry list" where
  "selected lower s query entries =
     (let q = lower (TrimSpace query) in if q = [] then entries else filter (\<lambda>e. entryMatchesQuery lower s e q) entries)"

lemma page_items_append: "page_items s (xs @ ys) = page_items s xs @ page_items s ys"
  by (induction xs) (auto split: sum.splits)

lemma page_token_Itoa: "start \<le> n \<Longrightarrow> n < 2 ^ 63 \<Longrightarrow> start \<noteq> 0 \<Longrightarrow> page_token (Itoa (int start)) n = Some start"
proof -
  assume a: "start \<le> n" "n < 2 ^ 63" "start \<noteq> 0"
  then have "Atoi (Itoa (int start)) = Some (int start)" by (intro Atoi_Itoa) auto
  moreover have "Itoa (int start) \<noteq> []" using calculation by (auto simp: Atoi_def)
  ultimately show ?thesis using a by (simp add: page_token_def)
qed

text \<open>A user whose library is in the cache.\<close>

definition cached :: "Service \<Rightarrow> string \<Rightarrow> LibraryEntry list \<Rightarrow> bool" where
  "cached s uid entries \<longleftrightarrow> Store_Get (lb_cache s) (userKey uid) = Inr (Some entries)"

lemma Library_cached: "cached s uid entries \<Longrightarrow> Library s clk uid = (Inr entries, s)"
  by (simp add: Library_def cached_def)

lemma selected_length: "length (selected lower s query entries) \<le> length entries"
  by (simp add: selected_def Let_def)

lemma GetLibrary_cached:
  assumes "cached s uid entries" and "page_token t (length entries) = Some start"
  shows "GetLibrary err_text lower clk uid (Some \<lparr>gl_query = query, gl_page_token = t\<rparr>) (Some s)
    = (let es = selected lower s query entries; stop = min (start + libraryPageSize) (length es)
       in if stop < start then (Inl Panicked, Some s)
          else (Inr \<lparr>gr_items = page_items s (take (stop - start) (drop start es)),
                     gr_next = (if stop < length es then Itoa (int stop) else [])\<rparr>, Some s))"
  using assms by (simp add: GetLibrary_def ValidateGetLibraryRequest_def Library_cached selected_def Let_def)

text \<open>A client that follows the page tokens, up to a number of requests.\<close>

fun follow ::
    "(lib_error \<Rightarrow> string) \<Rightarrow> (string \<Rightarrow> string) \<Rightarrow> (string \<Rightarrow> string \<Rightarrow> int) \<Rightarrow> string \<Rightarrow> string \<Rightarrow> nat \<Rightarrow> string \<Rightarrow> Service option
     \<Rightarrow> (api_error + (LibraryEntry \<times> TitleMetadata option) list) option" where
  "follow err_text lower clk uid query 0 t lib = None"
| "follow err_text lower clk uid query (Suc n) t lib =
     (case GetLibrary err_text lower clk uid (Some \<lparr>gl_query = query, gl_page_token = t\<rparr>) lib of
        (Inl e, _) \<Rightarrow> Some (Inl e)
      | (Inr r, lib') \<Rightarrow>
          if gr_next r = [] then Some (Inr (gr_items r))
          else map_option (map_sum id ((@) (gr_items r))) (follow err_text lower clk uid query n (gr_next r) lib'))"

lemma follow_from:
  assumes c: "cached s uid entries" and small: "length entries < 2 ^ 63"
    and t: "page_token t (length entries) = Some start" and le: "start \<le> length (selected lower s query entries)"
    and fuel: "length (selected lower s query entries) < start + libraryPageSize * n"
  shows "follow err_text lower clk uid query n t (Some s)
    = Some (Inr (page_items s (drop start (selected lower s query entries))))"
  using t le fuel
proof (induction n arbitrary: t start)
  case 0
  then show ?case by simp
next
  case (Suc n)
  let ?es = "selected lower s query entries"
  define stop where "stop = min (start + libraryPageSize) (length ?es)"
  have st: "\<not> stop < start" using Suc.prems(2) by (simp add: stop_def)
  have get: "GetLibrary err_text lower clk uid (Some \<lparr>gl_query = query, gl_page_token = t\<rparr>) (Some s)
      = (Inr \<lparr>gr_items = page_items s (take (stop - start) (drop start ?es)),
              gr_next = (if stop < length ?es then Itoa (int stop) else [])\<rparr>, Some s)"
    using st by (simp add: GetLibrary_cached [OF c Suc.prems(1)] Let_def stop_def)
  show ?case
  proof (cases "stop < length ?es")
    case False
    then have "take (stop - start) (drop start ?es) = drop start ?es" by (simp add: stop_def)
    with False get show ?thesis by simp
  next
    case True
    have ps: "0 < libraryPageSize" by (simp add: libraryPageSize_def)
    have stop: "stop = start + libraryPageSize" "stop \<noteq> 0" using True ps by (auto simp: stop_def)
    have tok: "page_token (Itoa (int stop)) (length entries) = Some stop"
      using True selected_length [of lower s query entries] small stop(2) by (intro page_token_Itoa) linarith+
    have next_ne: "Itoa (int stop) \<noteq> []" using tok stop(2) by (auto simp: page_token_def split: if_splits)
    have "follow err_text lower clk uid query n (Itoa (int stop)) (Some s) = Some (Inr (page_items s (drop stop ?es)))"
      using Suc.prems(3) stop(1) True by (intro Suc.IH [OF tok]) simp_all
    moreover have "drop start ?es = take (stop - start) (drop start ?es) @ drop stop ?es"
      using st by (metis append_take_drop_id drop_drop le_add_diff_inverse2 not_less)
    ultimately show ?thesis
      using get True next_ne by (simp add: page_items_append [symmetric])
  qed
qed


text \<open>A page token is checked against the library before the query is applied to it. A token within the
  library but beyond the entries the query selects makes the handler slice past its end, and the
  server process panics: any signed-in user can send it.\<close>
theorem query_token_panics:
  assumes "cached s uid entries" and "length entries < 2 ^ 63"
    and "length (selected lower s query entries) < start" and "start \<le> length entries"
  shows "GetLibrary err_text lower clk uid (Some \<lparr>gl_query = query, gl_page_token = Itoa (int start)\<rparr>) (Some s)
    = (Inl Panicked, Some s)"
proof -
  have "page_token (Itoa (int start)) (length entries) = Some start"
    using assms by (intro page_token_Itoa) auto
  then show ?thesis using assms(3) by (simp add: GetLibrary_cached [OF assms(1)] Let_def)
qed

text \<open>The availability re-check runs only for a caller who reaches the account.\<close>

lemma RefreshAvailability_authorized:
  assumes "\<not> snd (ReachAuthorized s (ra_account req) uid)"
  shows "\<exists>e. api_RefreshAvailability err_text uid req (Some s) st = (Inl e, st)"
  using assms by (simp add: api_RefreshAvailability_def)

subsection \<open>Witnesses\<close>

definition demo_entry :: "string \<Rightarrow> LibraryEntry" where
  "demo_entry i = \<lparr>le_id = i, le_kind = EK_MOVIE, le_coverage = [], le_external_identities = [], le_metadata_ref = []\<rparr>"

definition cached_service :: Service where
  "cached_service = demo_service\<lparr>lb_cache := NewInMemory\<lparr>st_data := [(userKey ''ann'', Some [demo_entry ''x'', demo_entry ''y''])]\<rparr>\<rparr>"

lemma demo_cached: "cached cached_service ''ann'' [demo_entry ''x'', demo_entry ''y'']"
  by (simp add: cached_def cached_service_def Store_Get_def NewInMemory_def)

lemma demo_meta: "Library_Metadata cached_service [] = Inr None"
  by (simp add: Library_Metadata_def cached_service_def demo_service_def)

lemma demo_select:
  "selected (\<lambda>s. s) cached_service [] [demo_entry ''x'', demo_entry ''y''] = [demo_entry ''x'', demo_entry ''y'']"
  "selected (\<lambda>s. s) cached_service ''y'' [demo_entry ''x'', demo_entry ''y''] = [demo_entry ''y'']"
  "selected (\<lambda>s. s) cached_service ''z'' [demo_entry ''x'', demo_entry ''y''] = []"
proof -
  have t: "TrimSpace ''y'' = ''y''" "TrimSpace ''z'' = ''z''" "TrimSpace [] = []"
    by (simp_all add: TrimSpace_ascii ascii_def IsSpace_def)
  show "selected (\<lambda>s. s) cached_service [] [demo_entry ''x'', demo_entry ''y''] = [demo_entry ''x'', demo_entry ''y'']"
    by (simp add: selected_def t)
  show "selected (\<lambda>s. s) cached_service ''y'' [demo_entry ''x'', demo_entry ''y''] = [demo_entry ''y'']"
    by (simp add: selected_def t entryMatchesQuery_def demo_entry_def demo_meta)
  show "selected (\<lambda>s. s) cached_service ''z'' [demo_entry ''x'', demo_entry ''y''] = []"
    by (simp add: selected_def t entryMatchesQuery_def demo_entry_def demo_meta)
qed


theorem query_token_panics_witness:
  "fst (GetLibrary (\<lambda>_. []) (\<lambda>s. s) (\<lambda>_ _. 0) ''ann'' (Some \<lparr>gl_query = ''z'', gl_page_token = Itoa (int 1)\<rparr>) (Some cached_service))
     = Inl Panicked"
  using query_token_panics [OF demo_cached, of "\<lambda>s. s" "''z''" 1 "\<lambda>_. []" "\<lambda>_ _. 0"] by (simp add: demo_select)

end
