(* ===== verification/Api_Accounts.thy ===== *)
theory Api_Accounts
  imports Event_Bus Delivery_Properties Config
begin

text \<open>
  The accounts handlers of the API, \<open>internal/apiserver/accounts.go\<close> and \<open>sharing.go\<close>, with their request
  validators of \<open>schema/api.go\<close> and the account constraints of \<open>core/app/delivery.go\<close>.

  A server holds the accounts store, the library, the delivery engine and the bus; what the composition
  arms once is the record \<^verbatim>\<open>wiring\<close>. The probers, the attacher and the dropper are arguments:
  a prober answers with the session blob or refuses, an attacher with the text of its error. Members are
  looked up in a directory whose answer is a truth value; the one of the code never fails. A request is
  never nil: the transport decodes it.
\<close>

subsection \<open>Messages\<close>

datatype AccountVisibility = AV_UNSPECIFIED | AV_PRIVATE | AV_SHARED | AV_PUBLIC | AV_OTHER int
datatype CapChangePolicy = CP_UNSPECIFIED | CP_NEW_SESSIONS_ONLY | CP_ENFORCE_NOW | CP_OTHER int
datatype AccountStatus = AS_LINKED | AS_EXPIRED

record PasswordLink =
  pl_username :: string
  pl_password :: string

record LinkAccountRequest =
  la_provider :: string
  la_base_url :: string
  la_password :: "PasswordLink option"
  la_visibility :: AccountVisibility
  la_shared_with :: "string list"
  la_max_streams :: "32 word"

record AccountSharing =
  sh_visibility :: AccountVisibility
  sh_shared_with :: "string list"

record UpdateAccountRequest =
  ua_account :: string
  ua_sharing :: "AccountSharing option"
  ua_max_streams :: "32 word option"
  ua_cap_change :: "CapChangePolicy option"

record Account =
  acc_id :: string
  acc_provider :: string
  acc_base_url :: string
  acc_caller_linked :: bool
  acc_status :: AccountStatus
  acc_visibility :: AccountVisibility
  acc_shared_with :: "string list"
  acc_owner :: string
  acc_max_streams :: "32 word"
  acc_cap_change :: CapChangePolicy
  acc_effective_cap_change :: CapChangePolicy

definition ValidateLinkAccountRequest :: "LinkAccountRequest \<Rightarrow> verdict" where
  "ValidateLinkAccountRequest r =
     (if la_provider r = [] then Some ''link_account_request: provider is required''
      else if la_base_url r = [] then Some ''link_account_request: base_url is required''
      else (case la_password r of
         None \<Rightarrow> Some ''link_account_request: password auth method is required''
       | Some pw \<Rightarrow>
           if pl_username pw = [] then Some ''link_account_request: username is required''
           else if pl_password pw = [] then Some ''link_account_request: password is required''
           else if la_visibility r = AV_SHARED \<and> la_shared_with r = []
           then Some ''link_account_request: shared visibility requires shared_with users'' else None))"

definition ValidateAccountSharing :: "AccountSharing \<Rightarrow> verdict" where
  "ValidateAccountSharing s =
     (case sh_visibility s of
        AV_PRIVATE \<Rightarrow> if sh_shared_with s \<noteq> [] then Some ''account_sharing: shared_with is only meaningful with shared visibility'' else None
      | AV_PUBLIC \<Rightarrow> if sh_shared_with s \<noteq> [] then Some ''account_sharing: shared_with is only meaningful with shared visibility'' else None
      | AV_SHARED \<Rightarrow> if sh_shared_with s = [] then Some ''account_sharing: shared visibility requires shared_with users'' else None
      | _ \<Rightarrow> Some ''account_sharing: visibility is required'')"

definition unknown_cap_change :: "CapChangePolicy \<Rightarrow> int option" where
  "unknown_cap_change p = (case p of CP_OTHER n \<Rightarrow> Some n | _ \<Rightarrow> None)"

definition ValidateUpdateAccountRequest :: "UpdateAccountRequest \<Rightarrow> verdict" where
  "ValidateUpdateAccountRequest r =
     (if ua_account r = [] then Some ''update_account_request: account_id is required''
      else then_check (case ua_sharing r of None \<Rightarrow> None
          | Some sh \<Rightarrow> map_option (\<lambda>e. ''update_account_request: '' @ e) (ValidateAccountSharing sh))
        (if ua_max_streams r = None \<and> ua_sharing r = None \<and> ua_cap_change r = None
         then Some ''update_account_request: at least one setting must change''
         else (case ua_cap_change r of
            None \<Rightarrow> None
          | Some p \<Rightarrow> map_option (\<lambda>n. ''update_account_request: unknown cap_change_policy '' @ Itoa n) (unknown_cap_change p))))"

definition ValidateRemoveAccountRequest :: "string \<Rightarrow> verdict" where
  "ValidateRemoveAccountRequest i = (if i = [] then Some ''remove_account_request: account_id is required'' else None)"

subsection \<open>The enums of the API and of the store\<close>

definition apiVisibility :: "AccountVisibility \<Rightarrow> string" where
  "apiVisibility v = (case v of AV_SHARED \<Rightarrow> VisibilityShared | AV_PUBLIC \<Rightarrow> VisibilityPublic | _ \<Rightarrow> VisibilityPrivate)"

definition apiVisibilityAPI :: "string \<Rightarrow> AccountVisibility" where
  "apiVisibilityAPI v = (if v = VisibilityShared then AV_SHARED else if v = VisibilityPublic then AV_PUBLIC else AV_PRIVATE)"

definition apiStatus :: "string \<Rightarrow> AccountStatus" where
  "apiStatus v = (if v = StatusExpired then AS_EXPIRED else AS_LINKED)"

definition apiCapChangePolicy :: "CapChangePolicy \<Rightarrow> string" where
  "apiCapChangePolicy p =
     (case p of CP_NEW_SESSIONS_ONLY \<Rightarrow> CapChangePolicyNewSessionsOnly | CP_ENFORCE_NOW \<Rightarrow> CapChangePolicyEnforceNow
      | _ \<Rightarrow> CapChangePolicyDefault)"

definition accountCapChangePolicy :: "string \<Rightarrow> CapChangePolicy" where
  "accountCapChangePolicy p =
     (if p = CapChangePolicyNewSessionsOnly then CP_NEW_SESSIONS_ONLY
      else if p = CapChangePolicyEnforceNow then CP_ENFORCE_NOW else CP_UNSPECIFIED)"

subsection \<open>Sharing checks\<close>

fun checkMembers :: "(string \<Rightarrow> bool) option \<Rightarrow> string list \<Rightarrow> api_error option" where
  "checkMembers None ms = None"
| "checkMembers (Some d) [] = None"
| "checkMembers (Some d) (m # ms) =
     (if \<not> d m then Some (Status InvalidArgument (''no such user: '' @ m)) else checkMembers (Some d) ms)"

definition validateSharing :: "(string \<Rightarrow> bool) option \<Rightarrow> string \<Rightarrow> string list \<Rightarrow> api_error option" where
  "validateSharing dir v members =
     (if v = VisibilityPrivate \<or> v = VisibilityPublic then
        (if members \<noteq> [] then Some (Status InvalidArgument ''shared_with is only meaningful with shared visibility'') else None)
      else if v = VisibilityShared then
        (if members = [] then Some (Status InvalidArgument ''shared visibility requires shared_with users'')
         else checkMembers dir members)
      else Some (Status InvalidArgument (''unknown visibility '' @ CHR 0x22 # v @ [CHR 0x22])))"

definition validateCapChangePolicyValue :: "CapChangePolicy \<Rightarrow> api_error option" where
  "validateCapChangePolicyValue p =
     map_option (\<lambda>n. Status InvalidArgument (''unknown cap_change_policy '' @ Itoa n)) (unknown_cap_change p)"

subsection \<open>The server\<close>

record ('b, 'k, 'w) server =
  sv_accounts :: "'b Store"
  sv_library :: "Service option"
  sv_engine :: "('k, 'w) Engine option"
  sv_bus :: InMemoryBus

record ('b, 'k, 'w) wiring =
  wr_json :: "'b rec_json"
  wr_options :: "('k, 'w) Options"
  wr_constraints :: "'b Store \<Rightarrow> constraints"
  wr_directory :: "(string \<Rightarrow> bool) option"
  wr_probers :: "(string \<times> (string \<Rightarrow> string \<Rightarrow> string \<Rightarrow> 'b option)) list"
  wr_attacher :: "(Record \<Rightarrow> ('b, 'k, 'w) server \<Rightarrow> string option \<times> ('b, 'k, 'w) server) option"
  wr_dropper :: "(Record \<Rightarrow> ('b, 'k, 'w) server \<Rightarrow> string option \<times> ('b, 'k, 'w) server) option"
  wr_cap_default :: string

definition SetCapChangeDefault :: "string \<Rightarrow> string" where
  "SetCapChangeDefault p = (if p = CapChangePolicyDefault then CapChangePolicyNewSessionsOnly else p)"

definition account_event :: "string \<Rightarrow> string \<Rightarrow> string \<Rightarrow> EventType \<Rightarrow> int \<Rightarrow> EventEnvelope" where
  "account_event uid account provider typ now =
     \<lparr>ev_id = ''evt-account-'' @ account @ ''-'' @ Itoa now, ev_type = typ, ev_audience = EA_OWNER, ev_user_id = uid,
      ev_account_id = [], ev_payload = Some (AccountSessionEvent account provider), ev_emitted_at = now\<rparr>"

definition emitAccountEvent ::
    "string \<Rightarrow> string \<Rightarrow> string \<Rightarrow> EventType \<Rightarrow> int \<Rightarrow> ('b, 'k, 'w) server \<Rightarrow> ('b, 'k, 'w) server" where
  "emitAccountEvent uid account provider typ now s =
     s\<lparr>sv_bus := Publish (Some (account_event uid account provider typ now)) (sv_bus s)\<rparr>"

definition reachableFor :: "string \<Rightarrow> string \<Rightarrow> ('b, 'k, 'w) server \<Rightarrow> bool" where
  "reachableFor userID accountID s =
     (case sv_library s of None \<Rightarrow> False | Some l \<Rightarrow> snd (ReachAuthorized l accountID userID))"

definition reachesFor :: "string \<Rightarrow> ('b, 'k, 'w) server \<Rightarrow> Reach list" where
  "reachesFor userID s = (case sv_library s of None \<Rightarrow> [] | Some l \<Rightarrow> derivable l userID)"

definition providerOf :: "Reach \<Rightarrow> string" where
  "providerOf r = (case rc_sync r of None \<Rightarrow> [] | Some sy \<Rightarrow> sy_provider sy)"

text \<open>\<open>declaredCap\<close> and \<open>resolveAccountConstraints\<close> of \<open>core/app/delivery.go\<close>.\<close>

definition declaredCap :: "32 word \<Rightarrow> policy_set" where
  "declaredCap n = (if n = 0 then [] else [(KeyConcurrentStreams, Itoa (uint n))])"

fun find_declared :: "string \<Rightarrow> AccountConfig list \<Rightarrow> AccountConfig option" where
  "find_declared i [] = None"
| "find_declared i (a # as) = (if ac_id a \<noteq> i then find_declared i as else Some a)"

fun declared_account :: "string \<Rightarrow> SlotEntry list \<Rightarrow> AccountConfig option" where
  "declared_account i [] = None"
| "declared_account i (sl # sls) =
     (case find_declared i (sl_accounts sl) of Some a \<Rightarrow> Some a | None \<Rightarrow> declared_account i sls)"

definition resolveAccountConstraints ::
    "'b rec_json \<Rightarrow> go_parsers \<Rightarrow> (policy_error \<Rightarrow> string) \<Rightarrow> SlotEntry list \<Rightarrow> 'b Store \<Rightarrow> constraints" where
  "resolveAccountConstraints J P err_text slots a = Some (\<lambda>provider accountID.
     (case Account_Get J a accountID of
        Inr rec \<Rightarrow> Inr ([], declaredCap (rec_max_streams rec))
      | Inl _ \<Rightarrow>
          (case declared_account accountID slots of
             None \<Rightarrow> Inr ([], [])
           | Some acct \<Rightarrow>
               (case ParseOverlay P (ac_policy acct) of
                  Inl e \<Rightarrow> Inl (''policy: '' @ err_text e)
                | Inr override \<Rightarrow> Inr (override, declaredCap (ac_max_streams acct))))))"

subsection \<open>Linking\<close>

definition new_record :: "string \<Rightarrow> string \<Rightarrow> string \<Rightarrow> string \<Rightarrow> LinkAccountRequest \<Rightarrow> PasswordLink \<Rightarrow> int \<Rightarrow> Record" where
  "new_record i uid baseURL vis req pw now =
     \<lparr>rec_id = i, rec_provider = la_provider req, rec_base_url = baseURL, rec_username = pl_username pw, rec_owner = uid,
      rec_status = StatusLinked, rec_visibility = vis, rec_shared_with = la_shared_with req,
      rec_max_streams = la_max_streams req, rec_cap_change = CapChangePolicyDefault, rec_created_at = now\<rparr>"

text \<open>The steps after the probe: session, record, slot; each failure takes back what was stored.\<close>

definition store_link ::
    "('b, 'k, 'w) wiring \<Rightarrow> int \<Rightarrow> 'b \<Rightarrow> Record \<Rightarrow> ('b, 'k, 'w) server \<Rightarrow> api_error option \<times> ('b, 'k, 'w) server" where
  "store_link W now blob rec s =
     (case Session_Save (rec_id rec) blob (sv_accounts s) of
        (Inl _, a) \<Rightarrow> (Some (Status Internal ''failed to store the account session''), s\<lparr>sv_accounts := a\<rparr>)
      | (Inr _, a) \<Rightarrow>
          (case Account_Add (wr_json W) now rec a of
             (Inl _, a') \<Rightarrow>
               (Some (Status Internal ''failed to persist the account record''),
                s\<lparr>sv_accounts := snd (Account_Delete (rec_id rec) a')\<rparr>)
           | (Inr _, a') \<Rightarrow>
               (case wr_attacher W of
                  None \<Rightarrow> (None, s\<lparr>sv_accounts := a'\<rparr>)
                | Some attach \<Rightarrow>
                    (case attach rec (s\<lparr>sv_accounts := a'\<rparr>) of
                       (Some e, s') \<Rightarrow>
                         (Some (Status Internal (''failed to wire the account into its slot: '' @ e)),
                          s'\<lparr>sv_accounts := snd (Account_Delete (rec_id rec) (sv_accounts s'))\<rparr>)
                     | (None, s') \<Rightarrow> (None, s')))))"

definition LinkAccount ::
    "('b, 'k, 'w) wiring \<Rightarrow> string \<Rightarrow> LinkAccountRequest \<Rightarrow> string option \<Rightarrow> int \<Rightarrow> ('b, 'k, 'w) server
     \<Rightarrow> (api_error + string) \<times> ('b, 'k, 'w) server" where
  "LinkAccount W uid req rand now s =
     (case (ValidateLinkAccountRequest req, la_password req) of
        (Some e, _) \<Rightarrow> (Inl (Status InvalidArgument e), s)
      | (None, None) \<Rightarrow> (Inl Panicked, s)
      | (None, Some pw) \<Rightarrow>
          (case map_of (wr_probers W) (la_provider req) of
             None \<Rightarrow> (Inl (Status Unavailable (''no live provider slot to probe: '' @ la_provider req)), s)
           | Some probe \<Rightarrow>
               (let baseURL = TrimRight_slash (la_base_url req); vis = apiVisibility (la_visibility req)
                in (case validateSharing (wr_directory W) vis (la_shared_with req) of
                      Some e \<Rightarrow> (Inl e, s)
                    | None \<Rightarrow>
                        (case probe baseURL (pl_username pw) (pl_password pw) of
                           None \<Rightarrow> (Inl (Status UnauthenticatedCode ''provider rejected the credentials''), s)
                         | Some blob \<Rightarrow>
                             (let i = NewID rand; rec = new_record i uid baseURL vis req pw now
                              in (case store_link W now blob rec s of
                                    (Some e, s') \<Rightarrow> (Inl e, s')
                                  | (None, s') \<Rightarrow> (Inr i, emitAccountEvent uid i (rec_provider rec) ET_ACCOUNT_SESSION_LINKED now s'))))))))"

subsection \<open>Updating\<close>

definition effectiveCapPolicy :: "Record \<Rightarrow> string \<Rightarrow> string" where
  "effectiveCapPolicy rec defaultPolicy =
     (if rec_cap_change rec \<noteq> CapChangePolicyDefault then rec_cap_change rec else defaultPolicy)"

text \<open>\<open>sameMembers\<close> counts; two lists are the same members when each name occurs as often in both.\<close>

fun uncount :: "string list \<Rightarrow> string list \<Rightarrow> bool" where
  "uncount counts [] = True"
| "uncount counts (m # ms) = (if m \<notin> set counts then False else uncount (remove1 m counts) ms)"

definition sameMembers :: "string list \<Rightarrow> string list \<Rightarrow> bool" where
  "sameMembers a b = (if length a \<noteq> length b then False else uncount a b)"

definition rosterFor :: "Record \<Rightarrow> string \<Rightarrow> string list" where
  "rosterFor rec uid = (if rec_owner rec \<noteq> [] \<and> rec_owner rec = uid then rec_shared_with rec else [])"

definition accountView :: "Record \<Rightarrow> string \<Rightarrow> string \<Rightarrow> Account" where
  "accountView rec uid defaultPolicy =
     (let own = (rec_owner rec = uid) in
      \<lparr>acc_id = rec_id rec, acc_provider = rec_provider rec, acc_base_url = rec_base_url rec, acc_caller_linked = own,
       acc_status = apiStatus (rec_status rec), acc_visibility = apiVisibilityAPI (rec_visibility rec),
       acc_shared_with = rosterFor rec uid, acc_owner = rec_owner rec,
       acc_max_streams = (if own then rec_max_streams rec else 0),
       acc_cap_change = (if own then accountCapChangePolicy (rec_cap_change rec) else CP_UNSPECIFIED),
       acc_effective_cap_change =
         (if own then accountCapChangePolicy (effectiveCapPolicy rec defaultPolicy) else CP_UNSPECIFIED)\<rparr>)"

text \<open>The checks before anything changes.\<close>

definition update_checks :: "(string \<Rightarrow> bool) option \<Rightarrow> UpdateAccountRequest \<Rightarrow> api_error option" where
  "update_checks dir req =
     (case (case ua_sharing req of
              None \<Rightarrow> None
            | Some sh \<Rightarrow> validateSharing dir (apiVisibility (sh_visibility sh)) (sh_shared_with sh)) of
        Some e \<Rightarrow> Some e
      | None \<Rightarrow> (case ua_cap_change req of None \<Rightarrow> None | Some p \<Rightarrow> validateCapChangePolicyValue p))"

text \<open>The writes to the record, with what is put back when one fails.\<close>

definition write_sharing ::
    "'b rec_json \<Rightarrow> Record \<Rightarrow> UpdateAccountRequest \<Rightarrow> 'b Store \<Rightarrow> (acc_error + unit) \<times> 'b Store" where
  "write_sharing J rec req a =
     (case ua_sharing req of
        None \<Rightarrow> (Inr (), a)
      | Some sh \<Rightarrow> SetSharing J (rec_id rec) (apiVisibility (sh_visibility sh)) (sh_shared_with sh) a)"

definition write_cap ::
    "'b rec_json \<Rightarrow> Record \<Rightarrow> UpdateAccountRequest \<Rightarrow> 'b Store \<Rightarrow> (acc_error + unit) \<times> 'b Store" where
  "write_cap J rec req a =
     (case ua_max_streams req of None \<Rightarrow> (Inr (), a) | Some n \<Rightarrow> SetMaxConcurrentStreams J (rec_id rec) n a)"

definition write_policy ::
    "'b rec_json \<Rightarrow> Record \<Rightarrow> UpdateAccountRequest \<Rightarrow> 'b Store \<Rightarrow> (acc_error + unit) \<times> 'b Store" where
  "write_policy J rec req a =
     (case ua_cap_change req of
        None \<Rightarrow> (Inr (), a)
      | Some p \<Rightarrow> SetCapChangePolicy J (rec_id rec) (apiCapChangePolicy p) a)"

definition apply_settings ::
    "'b rec_json \<Rightarrow> Record \<Rightarrow> UpdateAccountRequest \<Rightarrow> 'b Store \<Rightarrow> api_error option \<times> 'b Store" where
  "apply_settings J rec req a =
     (let restore = (\<lambda>a. snd (SetSharing J (rec_id rec) (rec_visibility rec) (rec_shared_with rec) a))
      in (case write_sharing J rec req a of
            (Inl _, a1) \<Rightarrow> (Some (Status Internal ''failed to update sharing''), a1)
          | (Inr _, a1) \<Rightarrow>
              (case write_cap J rec req a1 of
                 (Inl _, a2) \<Rightarrow> (Some (Status Internal ''failed to update the stream cap''), restore a2)
               | (Inr _, a2) \<Rightarrow>
                   (case write_policy J rec req a2 of
                      (Inl _, a3) \<Rightarrow>
                        (Some (Status Internal ''failed to update the cap policy''),
                         snd (SetMaxConcurrentStreams J (rec_id rec) (rec_max_streams rec) (restore a3)))
                    | (Inr _, a3) \<Rightarrow> (None, a3)))))"

definition sharing_edited :: "UpdateAccountRequest \<Rightarrow> Record \<Rightarrow> Record \<Rightarrow> bool" where
  "sharing_edited req old rec \<longleftrightarrow>
     ua_sharing req \<noteq> None
     \<and> (rec_visibility rec \<noteq> rec_visibility old \<or> \<not> sameMembers (rec_shared_with old) (rec_shared_with rec))"

text \<open>The live side: the reach, the sessions that lost access, and the lowered cap.\<close>

definition live_sharing ::
    "('b, 'k, 'w) wiring \<Rightarrow> bool \<Rightarrow> Record \<Rightarrow> Record \<Rightarrow> ('b, 'k, 'w) server \<Rightarrow> api_error option \<times> ('b, 'k, 'w) server" where
  "live_sharing W edited old rec s =
     (case sv_library s of
        None \<Rightarrow> (None, s)
      | Some l \<Rightarrow>
          if \<not> edited then (None, s)
          else (case SetReachSharing l (rec_id rec) (rec_visibility rec) (rec_shared_with rec) of
             (Some _, l') \<Rightarrow>
               (Some (Status Internal ''failed to update account sharing live''),
                s\<lparr>sv_library := Some l',
                  sv_accounts := snd (SetSharing (wr_json W) (rec_id rec) (rec_visibility old) (rec_shared_with old) (sv_accounts s))\<rparr>)
           | (None, l') \<Rightarrow> (None, s\<lparr>sv_library := Some l'\<rparr>)))"

definition live_revoke :: "('b, 'k, 'w) wiring \<Rightarrow> bool \<Rightarrow> Record \<Rightarrow> ('b, 'k, 'w) server \<Rightarrow> ('b, 'k, 'w) server" where
  "live_revoke W edited rec s =
     (if edited \<and> rec_visibility rec \<noteq> VisibilityPublic
      then s\<lparr>sv_engine := map_option
               (\<lambda>e. snd (RevokeOthersOnAccount (wr_options W) (rec_provider rec) (rec_id rec) (rec_owner rec # rec_shared_with rec) e))
               (sv_engine s)\<rparr>
      else s)"

definition enforce_now :: "('b, 'k, 'w) wiring \<Rightarrow> Record \<Rightarrow> bool" where
  "enforce_now W rec =
     (if rec_cap_change rec = CapChangePolicyDefault then wr_cap_default W = CapChangePolicyEnforceNow
      else rec_cap_change rec = CapChangePolicyEnforceNow)"

definition live_cap :: "('b, 'k, 'w) wiring \<Rightarrow> UpdateAccountRequest \<Rightarrow> Record \<Rightarrow> ('b, 'k, 'w) server \<Rightarrow> ('b, 'k, 'w) server" where
  "live_cap W req rec s =
     (if ua_max_streams req \<noteq> None
      then s\<lparr>sv_engine := map_option
               (\<lambda>e. snd (ApplyAccountCap (wr_options W) (wr_constraints W (sv_accounts s)) (rec_provider rec) (rec_id rec)
                          (enforce_now W rec) e)) (sv_engine s)\<rparr>
      else s)"

text \<open>The account the caller names, if it is the caller's to change.\<close>

definition owned_account ::
    "('b, 'k, 'w) wiring \<Rightarrow> string \<Rightarrow> string \<Rightarrow> string \<Rightarrow> string \<Rightarrow> ('b, 'k, 'w) server \<Rightarrow> api_error + Record" where
  "owned_account W uid declared foreign i s =
     (case Account_Get (wr_json W) (sv_accounts s) i of
        Inl e \<Rightarrow>
          if e \<noteq> ErrNotFound then Inl (Status Internal ''failed to read the account'')
          else if reachableFor uid i s then Inl (Status PermissionDenied declared)
          else Inl (Status NotFoundCode ''account not found'')
      | Inr rec \<Rightarrow> if rec_owner rec \<noteq> uid then Inl (Status PermissionDenied foreign) else Inr rec)"

definition UpdateAccount ::
    "('b, 'k, 'w) wiring \<Rightarrow> string \<Rightarrow> UpdateAccountRequest \<Rightarrow> ('b, 'k, 'w) server \<Rightarrow> (api_error + Account) \<times> ('b, 'k, 'w) server" where
  "UpdateAccount W uid req s =
     (case ValidateUpdateAccountRequest req of
        Some e \<Rightarrow> (Inl (Status InvalidArgument e), s)
      | None \<Rightarrow>
     (case owned_account W uid ''operator-declared accounts cannot be updated through the API''
             ''only the account owner may update a linked account'' (ua_account req) s of
        Inl e \<Rightarrow> (Inl e, s)
      | Inr old \<Rightarrow>
     (case update_checks (wr_directory W) req of
        Some e \<Rightarrow> (Inl e, s)
      | None \<Rightarrow>
     (case apply_settings (wr_json W) old req (sv_accounts s) of
        (Some e, a) \<Rightarrow> (Inl e, s\<lparr>sv_accounts := a\<rparr>)
      | (None, a) \<Rightarrow>
     (case Account_Get (wr_json W) a (rec_id old) of
        Inl _ \<Rightarrow> (Inl (Status Internal ''failed to re-read the account''), s\<lparr>sv_accounts := a\<rparr>)
      | Inr rec \<Rightarrow>
     (let edited = sharing_edited req old rec
      in (case live_sharing W edited old rec (s\<lparr>sv_accounts := a\<rparr>) of
        (Some e, s1) \<Rightarrow> (Inl e, s1)
      | (None, s1) \<Rightarrow>
          (Inr (accountView rec uid (wr_cap_default W)), live_cap W req rec (live_revoke W edited rec s1)))))))))"

subsection \<open>Listing and removing\<close>

fun containsAccount :: "Account list \<Rightarrow> string \<Rightarrow> bool" where
  "containsAccount [] i = False"
| "containsAccount (a # as) i = (if acc_id a = i then True else containsAccount as i)"

definition reach_view :: "Reach \<Rightarrow> Account" where
  "reach_view r =
     \<lparr>acc_id = rc_account r, acc_provider = providerOf r, acc_base_url = [], acc_caller_linked = False,
      acc_status = AS_LINKED, acc_visibility = apiVisibilityAPI (rc_visibility r), acc_shared_with = [], acc_owner = [],
      acc_max_streams = 0, acc_cap_change = CP_UNSPECIFIED, acc_effective_cap_change = CP_UNSPECIFIED\<rparr>"

fun add_reaches :: "Account list \<Rightarrow> Reach list \<Rightarrow> Account list" where
  "add_reaches out [] = out"
| "add_reaches out (r # rs) =
     (if containsAccount out (rc_account r) then add_reaches out rs else add_reaches (out @ [reach_view r]) rs)"

definition ListAccounts :: "('b, 'k, 'w) wiring \<Rightarrow> string \<Rightarrow> ('b, 'k, 'w) server \<Rightarrow> api_error + Account list" where
  "ListAccounts W uid s =
     (case Account_List (wr_json W) (sv_accounts s) of
        Inl _ \<Rightarrow> Inl (Status Internal ''failed to read linked accounts'')
      | Inr records \<Rightarrow>
          (let own = map (\<lambda>rec. accountView rec uid (wr_cap_default W))
                 (filter (\<lambda>rec. \<not> (rec_owner rec \<noteq> uid \<and> \<not> reachableFor uid (rec_id rec) s)) records)
           in Inr (sort_key acc_id (add_reaches own (reachesFor uid s)))))"

definition RemoveAccount ::
    "('b, 'k, 'w) wiring \<Rightarrow> string \<Rightarrow> string \<Rightarrow> int \<Rightarrow> ('b, 'k, 'w) server \<Rightarrow> (api_error + unit) \<times> ('b, 'k, 'w) server" where
  "RemoveAccount W uid i now s =
     (case ValidateRemoveAccountRequest i of
        Some e \<Rightarrow> (Inl (Status InvalidArgument e), s)
      | None \<Rightarrow>
     (case owned_account W uid ''operator-declared accounts cannot be removed through the API''
             ''only the account owner may remove a linked account'' i s of
        Inl e \<Rightarrow> (Inl e, s)
      | Inr rec \<Rightarrow>
     (case Account_Delete (rec_id rec) (sv_accounts s) of
        (Inl _, a) \<Rightarrow> (Inl (Status Internal ''failed to remove the account''), s\<lparr>sv_accounts := a\<rparr>)
      | (Inr _, a) \<Rightarrow>
          (let s1 = s\<lparr>sv_accounts := a, sv_library := map_option (\<lambda>l. RemoveReach l (rec_id rec)) (sv_library s)\<rparr>;
               s2 = (case wr_dropper W of None \<Rightarrow> s1 | Some d \<Rightarrow> snd (d rec s1));
               s3 = s2\<lparr>sv_engine := map_option (\<lambda>e. snd (RevokeAllOnAccount (wr_options W) (rec_id rec) e)) (sv_engine s2)\<rparr>
           in (Inr (), emitAccountEvent uid (rec_id rec) (rec_provider rec) ET_ACCOUNT_SESSION_REVOKED now s3)))))"

subsection \<open>Who may change an account\<close>

lemma owned_account_Inr:
  "owned_account W uid d f i s = Inr rec \<longleftrightarrow> Account_Get (wr_json W) (sv_accounts s) i = Inr rec \<and> rec_owner rec = uid"
  by (auto simp: owned_account_def split: sum.splits)

text \<open>Only the owner of a linked account changes or removes it: a request of anybody else, or for an account
  that is not linked, is refused and leaves the records, the library, the sessions and the bus alone.\<close>
theorem owner_only:
  assumes "\<nexists>rec. Account_Get (wr_json W) (sv_accounts s) i = Inr rec \<and> rec_owner rec = uid"
  shows "\<exists>e. RemoveAccount W uid i now s = (Inl e, s)"
    and "ua_account req = i \<Longrightarrow> \<exists>e. UpdateAccount W uid req s = (Inl e, s)"
proof -
  have no: "\<exists>e. owned_account W uid d f i s = Inl e" for d f
    using assms owned_account_Inr [of W uid d f i s] by (cases "owned_account W uid d f i s") auto
  obtain e where e: "owned_account W uid ''operator-declared accounts cannot be removed through the API''
      ''only the account owner may remove a linked account'' i s = Inl e" using no by blast
  show "\<exists>e. RemoveAccount W uid i now s = (Inl e, s)"
    by (cases "ValidateRemoveAccountRequest i") (simp_all add: RemoveAccount_def e)
  assume "ua_account req = i"
  obtain e where e: "owned_account W uid ''operator-declared accounts cannot be updated through the API''
      ''only the account owner may update a linked account'' i s = Inl e" using no by blast
  show "\<exists>e. UpdateAccount W uid req s = (Inl e, s)"
    by (cases "ValidateUpdateAccountRequest req")
      (simp_all add: UpdateAccount_def \<open>ua_account req = i\<close> e)
qed

subsection \<open>The settings of a record\<close>

definition same_account :: "Record \<Rightarrow> Record \<Rightarrow> bool" where
  "same_account r r' \<longleftrightarrow> rec_id r' = rec_id r \<and> rec_provider r' = rec_provider r \<and> rec_owner r' = rec_owner r"

lemma same_account_trans: "same_account r r' \<Longrightarrow> same_account r' r'' \<Longrightarrow> same_account r r''"
  by (simp add: same_account_def)

lemma same_account_refl [simp]: "same_account r r"
  by (simp add: same_account_def)

definition setting :: "'b rec_json \<Rightarrow> string \<Rightarrow> 'b Store \<Rightarrow> 'b Store \<Rightarrow> bool" where
  "setting J i a a' \<longleftrightarrow>
     (\<forall>r. accounts_ok J a \<longrightarrow> Account_Get J a i = Inr r \<longrightarrow>
        accounts_ok J a' \<and> (\<exists>r'. Account_Get J a' i = Inr r' \<and> same_account r r'))"

lemma setting_refl [simp]: "setting J i a a"
  by (simp add: setting_def)

lemma setting_trans: "setting J i a b \<Longrightarrow> setting J i b c \<Longrightarrow> setting J i a c"
  unfolding setting_def by (meson same_account_trans)

lemma update_record_setting:
  assumes "json_ok J" and "\<And>r r'. record_ok i r \<Longrightarrow> mutate r = Inr r' \<Longrightarrow> record_ok i r' \<and> same_account r r'"
  shows "setting J i a (snd (update_record J i mutate a))"
  unfolding setting_def
proof (intro allI impI conjI)
  fix r assume ok: "accounts_ok J a" and get: "Account_Get J a i = Inr r"
  show "accounts_ok J (snd (update_record J i mutate a))" using update_record_ok [OF ok assms(1)] assms(2) by blast
  have st: "Store_ok a" by (rule accounts_ok_store [OF ok])
  show "\<exists>r'. Account_Get J (snd (update_record J i mutate a)) i = Inr r' \<and> same_account r r'"
  proof (cases "mutate r")
    case (Inl e)
    then show ?thesis using get by (simp add: update_record_def)
  next
    case (Inr r')
    have same: "same_account r r'" using assms(2) [OF accounts_ok_Get [OF ok get] Inr] by blast
    show ?thesis
    proof (cases "put_record J a i r'")
      case (Pair x a')
      then show ?thesis
        using put_record_Get [OF st assms(1), of i r' a'] put_record_Inl [OF st, of J i r' _ a'] get Inr same
        by (cases x) (auto simp: update_record_def)
    qed
  qed
qed

lemma SetSharing_setting: "json_ok J \<Longrightarrow> setting J i a (snd (SetSharing J i v us a))"
  unfolding SetSharing_def
  by (rule update_record_setting)
    (auto simp: sharing_of_def record_ok_def same_account_def canonUsers_canonical visibilities split: if_splits)

lemma SetMax_setting: "json_ok J \<Longrightarrow> setting J i a (snd (SetMaxConcurrentStreams J i n a))"
  unfolding SetMaxConcurrentStreams_def by (rule update_record_setting) (auto simp: record_ok_def same_account_def)

lemma SetCap_setting:
  assumes "json_ok J"
  shows "setting J i a (snd (SetCapChangePolicy J i p a))"
proof -
  have "setting J i a (snd (update_record J i (\<lambda>r. Inr (r\<lparr>rec_cap_change := p\<rparr>)) a))"
    by (rule update_record_setting [OF assms]) (auto simp: record_ok_def same_account_def)
  then show ?thesis by (simp add: SetCapChangePolicy_def)
qed

lemma apply_settings_setting:
  assumes "json_ok J"
  shows "setting J (rec_id rec) a (snd (apply_settings J rec req a))"
proof -
  let ?i = "rec_id rec"
  have w1: "setting J ?i a (snd (write_sharing J rec req a))" for a
    using SetSharing_setting [OF assms] by (simp add: write_sharing_def split: option.split)
  have w2: "setting J ?i a (snd (write_cap J rec req a))" for a
    using SetMax_setting [OF assms] by (simp add: write_cap_def split: option.split)
  have w3: "setting J ?i a (snd (write_policy J rec req a))" for a
    using SetCap_setting [OF assms] by (simp add: write_policy_def split: option.split)
  obtain x1 a1 where s1: "write_sharing J rec req a = (x1, a1)" by fastforce
  obtain x2 a2 where s2: "write_cap J rec req a1 = (x2, a2)" by fastforce
  obtain x3 a3 where s3: "write_policy J rec req a2 = (x3, a3)" by fastforce
  have t1: "setting J ?i a a1" using w1 [of a] s1 by simp
  have t2: "setting J ?i a a2" using setting_trans [OF t1] w2 [of a1] s2 by simp
  have t3: "setting J ?i a a3" using setting_trans [OF t2] w3 [of a2] s3 by simp
  show ?thesis
    using t1 setting_trans [OF t2 SetSharing_setting [OF assms]]
      setting_trans [OF setting_trans [OF t3 SetSharing_setting [OF assms]] SetMax_setting [OF assms]] t3
    by (cases x1; cases x2; cases x3) (simp_all add: apply_settings_def s1 s2 s3 Let_def)
qed

subsection \<open>The live side\<close>

lemma sweepUserCaches_reaches: "sweepUserCaches s P = (r, s') \<Longrightarrow> lb_reaches s' = lb_reaches s"
  by (auto simp: sweepUserCaches_def apsnd_def map_prod_def split: sum.splits prod.splits)

lemma SetReachSharing_reaches:
  assumes "SetReachSharing l i v ms = (r, l')" and "map_of (lb_reaches l) i = Some b"
  shows "lb_reaches l' = AList.update i (b\<lparr>rc_visibility := v, rc_members := ms\<rparr>) (lb_reaches l)"
  using assms sweepUserCaches_reaches by (fastforce simp: SetReachSharing_def Let_def)

lemma ApplyAccountCap_active:
  assumes "map_of (e_sessions (snd (ApplyAccountCap opts con p i en e))) sid = Some t" and "isActive t"
  shows "map_of (e_sessions e) sid = Some t"
proof (cases "resolveConstraints con p i")
  case (Inl err)
  then show ?thesis using assms by (simp add: ApplyAccountCap_def)
next
  case (Inr oc)
  obtain ov cap where oc: "oc = (ov, cap)" by fastforce
  let ?why = "''stream limit lowered by the account owner''"
  let ?lim = "EffectiveAccountLimit (With (instancePolicy opts) ov) cap"
  let ?ids = "map fst (take (nat (int (length (active_on p i e)) - ?lim)) (eviction_order (active_on p i e)))"
  obtain n e' where r: "revoke_where opts ?why True isActive ?ids e = (n, e')" by fastforce
  have "snd (ApplyAccountCap opts con p i en e) = e \<or> snd (ApplyAccountCap opts con p i en e) = e'"
    by (simp add: ApplyAccountCap_def Inr oc Let_def r)
  then show ?thesis using assms revoke_where_active [OF r] by auto
qed

lemma RevokeOthers_active:
  assumes "map_of (e_sessions (snd (RevokeOthersOnAccount opts p i keep e))) sid = Some t" and "isActive t"
  shows "map_of (e_sessions e) sid = Some t"
    and "dc_provider (s_context t) = p \<Longrightarrow> dc_account_id (s_context t) = i \<Longrightarrow> dc_member_user_id (s_context t) \<in> set keep"
proof -
  let ?P = "\<lambda>s. dc_provider (s_context s) = p \<and> dc_account_id (s_context s) = i \<and> isActive s \<and> dc_member_user_id (s_context s) \<notin> set keep"
  obtain n e' where r: "revoke_where opts ''account sharing narrowed'' True ?P (map fst (e_sessions e)) e = (n, e')" by fastforce
  have a: "map_of (e_sessions e) sid = Some t \<and> \<not> (sid \<in> set (map fst (e_sessions e)) \<and> ?P t)"
    using assms revoke_where_active [OF r, of sid t] by (simp add: RevokeOthersOnAccount_def r)
  then show "map_of (e_sessions e) sid = Some t" by blast
  have "sid \<in> set (map fst (e_sessions e))" using a by (metis in_keys_iff not_None_eq)
  then show "dc_provider (s_context t) = p \<Longrightarrow> dc_account_id (s_context t) = i \<Longrightarrow> dc_member_user_id (s_context t) \<in> set keep"
    using a assms(2) by blast
qed

subsection \<open>Sharing\<close>

text \<open>The record of a linked account and its reach say the same about who may use it.\<close>

definition reach_agrees :: "'b rec_json \<Rightarrow> string \<Rightarrow> ('b, 'k, 'w) server \<Rightarrow> bool" where
  "reach_agrees J i s \<longleftrightarrow>
     (\<exists>rec l r. Account_Get J (sv_accounts s) i = Inr rec \<and> sv_library s = Some l \<and> map_of (lb_reaches l) i = Some r
        \<and> rc_owner r = rec_owner rec \<and> rc_visibility r = rec_visibility rec \<and> rc_members r = rec_shared_with rec)"

text \<open>The running sessions of a provider's account are of members who reach it.\<close>

definition sessions_entitled :: "string \<Rightarrow> string \<Rightarrow> ('b, 'k, 'w) server \<Rightarrow> bool" where
  "sessions_entitled p i s \<longleftrightarrow>
     (\<forall>e sid t. sv_engine s = Some e \<longrightarrow> map_of (e_sessions e) sid = Some t \<longrightarrow> isActive t \<longrightarrow>
        dc_provider (s_context t) = p \<longrightarrow> dc_account_id (s_context t) = i \<longrightarrow>
        reachableFor (dc_member_user_id (s_context t)) i s)"

lemma reachableFor_reach:
  "sv_library s = Some l \<Longrightarrow> map_of (lb_reaches l) i = Some r \<Longrightarrow> reachableFor u i s \<longleftrightarrow> authorized r u"
  by (simp add: reachableFor_def ReachAuthorized_def)

lemma uncount_mset: "uncount xs ys \<Longrightarrow> mset ys \<subseteq># mset xs"
proof (induction xs ys rule: uncount.induct)
  case (2 xs m ms)
  then have m: "m \<in># mset xs" "mset ms \<subseteq># mset xs - {#m#}" by (auto split: if_splits)
  then show ?case by (simp add: insert_subset_eq_iff)
qed simp

lemma sameMembers_eq:
  assumes "sameMembers xs ys" and "sorted xs" and "sorted ys"
  shows "xs = ys"
proof -
  have l: "length xs = length ys" "uncount xs ys" using assms(1) by (auto simp: sameMembers_def split: if_splits)
  have "mset ys = mset xs"
    using uncount_mset [OF l(2)] l(1) by (metis size_mset subset_mset.order_refl mset_subset_size subset_mset.le_less nless_le)
  then show ?thesis using assms(2,3) by (metis properties_for_sort)
qed

lemma authorized_public: "rc_visibility r = VisibilityPublic \<Longrightarrow> authorized r u"
  by (simp add: authorized_def)

lemma authorized_roster:
  "rc_visibility r = VisibilityShared \<or> rc_members r = [] \<Longrightarrow> rc_owner r \<noteq> [] \<Longrightarrow> u \<in> set (rc_owner r # rc_members r) \<Longrightarrow>
     authorized r u"
  by (cases "u = rc_owner r") (auto simp: authorized_def)

text \<open>What a successful update did, step by step.\<close>

lemma UpdateAccount_steps:
  assumes "UpdateAccount W uid req s = (Inr v, s')"
  obtains old a rec s1 where
    "Account_Get (wr_json W) (sv_accounts s) (ua_account req) = Inr old" "rec_owner old = uid"
    "apply_settings (wr_json W) old req (sv_accounts s) = (None, a)"
    "Account_Get (wr_json W) a (rec_id old) = Inr rec"
    "live_sharing W (sharing_edited req old rec) old rec (s\<lparr>sv_accounts := a\<rparr>) = (None, s1)"
    "s' = live_cap W req rec (live_revoke W (sharing_edited req old rec) rec s1)"
    "v = accountView rec uid (wr_cap_default W)"
proof -
  have val: "ValidateUpdateAccountRequest req = None"
    using assms by (cases "ValidateUpdateAccountRequest req") (simp_all add: UpdateAccount_def)
  obtain old where old: "owned_account W uid ''operator-declared accounts cannot be updated through the API''
      ''only the account owner may update a linked account'' (ua_account req) s = Inr old"
    using assms val by (cases "owned_account W uid ''operator-declared accounts cannot be updated through the API''
      ''only the account owner may update a linked account'' (ua_account req) s") (simp_all add: UpdateAccount_def)
  have chk: "update_checks (wr_directory W) req = None"
    using assms val old by (cases "update_checks (wr_directory W) req") (simp_all add: UpdateAccount_def)
  obtain a where a: "apply_settings (wr_json W) old req (sv_accounts s) = (None, a)"
    using assms val old chk
    by (cases "apply_settings (wr_json W) old req (sv_accounts s)"; cases "fst (apply_settings (wr_json W) old req (sv_accounts s))")
      (simp_all add: UpdateAccount_def)
  obtain rec where rec: "Account_Get (wr_json W) a (rec_id old) = Inr rec"
    using assms val old chk a by (cases "Account_Get (wr_json W) a (rec_id old)") (simp_all add: UpdateAccount_def)
  obtain x s1 where l: "live_sharing W (sharing_edited req old rec) old rec (s\<lparr>sv_accounts := a\<rparr>) = (x, s1)" by fastforce
  have x: "x = None" using assms val old chk a rec l by (cases x) (simp_all add: UpdateAccount_def Let_def)
  have "s' = live_cap W req rec (live_revoke W (sharing_edited req old rec) rec s1) \<and> v = accountView rec uid (wr_cap_default W)"
    using assms val old chk a rec l x by (simp add: UpdateAccount_def Let_def)
  then show ?thesis using that old a rec l x unfolding owned_account_Inr by blast
qed

lemma live_cap_keeps [simp]:
  "sv_accounts (live_cap W req rec s) = sv_accounts s" "sv_library (live_cap W req rec s) = sv_library s"
  by (simp_all add: live_cap_def)

lemma live_revoke_keeps [simp]:
  "sv_accounts (live_revoke W ed rec s) = sv_accounts s" "sv_library (live_revoke W ed rec s) = sv_library s"
  by (simp_all add: live_revoke_def)

lemma live_session:
  assumes "sv_engine (live_cap W req rec (live_revoke W ed rec s)) = Some e'" and "map_of (e_sessions e') sid = Some t" and "isActive t"
  shows "\<exists>e. sv_engine s = Some e \<and> map_of (e_sessions e) sid = Some t"
    and "ed \<Longrightarrow> rec_visibility rec \<noteq> VisibilityPublic \<Longrightarrow> dc_provider (s_context t) = rec_provider rec \<Longrightarrow>
      dc_account_id (s_context t) = rec_id rec \<Longrightarrow> dc_member_user_id (s_context t) \<in> set (rec_owner rec # rec_shared_with rec)"
proof -
  obtain e1 where e0: "sv_engine (live_revoke W ed rec s) = Some e1"
    "e' = e1 \<or> e' = snd (ApplyAccountCap (wr_options W) (wr_constraints W (sv_accounts s)) (rec_provider rec) (rec_id rec) (enforce_now W rec) e1)"
    using assms(1) by (auto simp: live_cap_def split: if_splits)
  have e1: "sv_engine (live_revoke W ed rec s) = Some e1" "map_of (e_sessions e1) sid = Some t"
    using e0 assms(2) ApplyAccountCap_active [OF _ assms(3)] by blast+
  show "\<exists>e. sv_engine s = Some e \<and> map_of (e_sessions e) sid = Some t"
    using e1 RevokeOthers_active(1) [OF _ assms(3)] by (auto simp: live_revoke_def split: if_splits)
  assume "ed" "rec_visibility rec \<noteq> VisibilityPublic" and p: "dc_provider (s_context t) = rec_provider rec"
    "dc_account_id (s_context t) = rec_id rec"
  then obtain e where "sv_engine s = Some e" and
    e: "e1 = snd (RevokeOthersOnAccount (wr_options W) (rec_provider rec) (rec_id rec) (rec_owner rec # rec_shared_with rec) e)"
    using e1(1) by (auto simp: live_revoke_def)
  show "dc_member_user_id (s_context t) \<in> set (rec_owner rec # rec_shared_with rec)"
    by (rule RevokeOthers_active(2) [OF _ assms(3) p]) (use e1(2) e in simp)
qed

lemma update_record_keeps:
  assumes "json_ok J" and "Store_ok a" and "update_record J i mutate a = (Inr (), a')" and "Account_Get J a i = Inr r"
    and "mutate r = Inr r'"
  shows "Store_ok a' \<and> Account_Get J a' i = Inr r'"
  using assms put_record_Get [OF assms(2,1), of i r' a'] by (simp add: update_record_def)

text \<open>Without a sharing in the request the record keeps its own.\<close>

lemma write_settings_sharing:
  assumes J: "json_ok J" and ok: "accounts_ok J a" and set: "apply_settings J old req a = (None, a')" and no: "ua_sharing req = None"
    and old: "Account_Get J a (rec_id old) = Inr old" and rec: "Account_Get J a' (rec_id old) = Inr rec"
  shows "rec_visibility rec = rec_visibility old \<and> rec_shared_with rec = rec_shared_with old"
proof -
  let ?i = "rec_id old"
  have st: "Store_ok a" by (rule accounts_ok_store [OF ok])
  obtain a2 where a2: "write_cap J old req a = (Inr (), a2)" "write_policy J old req a2 = (Inr (), a')"
    using set no by (auto simp: apply_settings_def write_sharing_def Let_def split: prod.splits sum.splits)
  obtain r2 where r2: "Store_ok a2" "Account_Get J a2 ?i = Inr r2" "rec_visibility r2 = rec_visibility old" "rec_shared_with r2 = rec_shared_with old"
  proof (cases "ua_max_streams req")
    case None
    then have "a2 = a" using a2(1) by (simp add: write_cap_def)
    then show ?thesis using that [of old] st old by simp
  next
    case (Some n)
    have "update_record J ?i (\<lambda>r. Inr (r\<lparr>rec_max_streams := n\<rparr>)) a = (Inr (), a2)"
      using a2(1) Some by (simp add: write_cap_def SetMaxConcurrentStreams_def)
    from update_record_keeps [OF J st this old, of "old\<lparr>rec_max_streams := n\<rparr>"] show ?thesis
      using that [of "old\<lparr>rec_max_streams := n\<rparr>"] by simp
  qed
  show ?thesis
  proof (cases "ua_cap_change req")
    case None
    then have "a' = a2" using a2(2) by (simp add: write_policy_def)
    then show ?thesis using rec r2 by simp
  next
    case (Some p)
    let ?p = "apiCapChangePolicy p"
    have "update_record J ?i (\<lambda>r. Inr (r\<lparr>rec_cap_change := ?p\<rparr>)) a2 = (Inr (), a')"
      using a2(2) Some by (auto simp: write_policy_def SetCapChangePolicy_def split: if_splits)
    from update_record_keeps [OF J r2(1) this r2(2), of "r2\<lparr>rec_cap_change := ?p\<rparr>"]
    have "rec = r2\<lparr>rec_cap_change := ?p\<rparr>" using rec by simp
    then show ?thesis using r2(3,4) by simp
  qed
qed

text \<open>The records and the reach before and after a successful update.\<close>

lemma update_reach:
  assumes J: "json_ok (wr_json W)" and ok: "accounts_ok (wr_json W) (sv_accounts s)"
    and upd: "UpdateAccount W uid req s = (Inr v, s')" and agree: "reach_agrees (wr_json W) (ua_account req) s"
  obtains l r l' r' rec s1 ed where
    "sv_library s = Some l" "map_of (lb_reaches l) (ua_account req) = Some r"
    "sv_library s' = Some l'" "map_of (lb_reaches l') (ua_account req) = Some r'"
    "rc_owner r' = uid" "rc_visibility r' = rec_visibility rec" "rc_members r' = rec_shared_with rec"
    "Account_Get (wr_json W) (sv_accounts s') (ua_account req) = Inr rec" "rec_owner rec = uid" "rec_id rec = ua_account req"
    "record_ok (ua_account req) rec" "v = accountView rec uid (wr_cap_default W)"
    "sv_engine s1 = sv_engine s" "s' = live_cap W req rec (live_revoke W ed rec s1)" "ed \<or> r' = r"
proof -
  let ?J = "wr_json W" and ?i = "ua_account req"
  from UpdateAccount_steps [OF upd] obtain old a rec s1 where st:
    "Account_Get ?J (sv_accounts s) ?i = Inr old" "rec_owner old = uid"
    "apply_settings ?J old req (sv_accounts s) = (None, a)"
    "Account_Get ?J a (rec_id old) = Inr rec"
    "live_sharing W (sharing_edited req old rec) old rec (s\<lparr>sv_accounts := a\<rparr>) = (None, s1)"
    "s' = live_cap W req rec (live_revoke W (sharing_edited req old rec) rec s1)"
    "v = accountView rec uid (wr_cap_default W)" .
  let ?ed = "sharing_edited req old rec"
  have oid: "rec_id old = ?i" and ook: "record_ok ?i old"
    using accounts_ok_id [OF ok st(1)] accounts_ok_Get [OF ok st(1)] by blast+
  have "setting ?J ?i (sv_accounts s) a" using apply_settings_setting [OF J, of old "sv_accounts s" req] st(3) oid by simp
  then have aok: "accounts_ok ?J a" and same: "same_account old rec"
    using ok st(1,4) oid unfolding setting_def by fastforce+
  have rok: "record_ok ?i rec" using accounts_ok_Get [OF aok st(4)] oid by simp
  have rid: "rec_id rec = ?i" "rec_owner rec = uid"
    using same oid st(2,7) by (simp_all add: same_account_def accountView_def Let_def)
  obtain l r where lr: "sv_library s = Some l" "map_of (lb_reaches l) ?i = Some r" "rc_owner r = rec_owner old"
    "rc_visibility r = rec_visibility old" "rc_members r = rec_shared_with old"
    using agree st(1) by (auto simp: reach_agrees_def)
  obtain l' r' where lr': "sv_library s1 = Some l'" "map_of (lb_reaches l') ?i = Some r'" "rc_owner r' = uid"
      "rc_visibility r' = rec_visibility rec" "rc_members r' = rec_shared_with rec"
    and s1: "sv_accounts s1 = a" "sv_engine s1 = sv_engine s" and keep: "\<not> ?ed \<Longrightarrow> r' = r"
  proof (cases ?ed)
    case True
    obtain y l2 where l2: "SetReachSharing l ?i (rec_visibility rec) (rec_shared_with rec) = (y, l2)" by fastforce
    have y: "y = None" using st(5) True lr(1) l2 rid by (cases y) (simp_all add: live_sharing_def)
    have "s1 = s\<lparr>sv_accounts := a, sv_library := Some l2\<rparr>" using st(5) True lr(1) l2 y rid by (simp add: live_sharing_def)
    moreover have "map_of (lb_reaches l2) ?i = Some (r\<lparr>rc_visibility := rec_visibility rec, rc_members := rec_shared_with rec\<rparr>)"
      using SetReachSharing_reaches [OF l2 lr(2)] by simp
    ultimately show ?thesis using that [of l2] lr(3) st(2) True by simp
  next
    case False
    have s1: "s1 = s\<lparr>sv_accounts := a\<rparr>" using st(5) False lr(1) by (simp add: live_sharing_def)
    have "rec_visibility rec = rec_visibility old \<and> rec_shared_with rec = rec_shared_with old"
    proof (cases "ua_sharing req")
      case None
      then show ?thesis using write_settings_sharing [OF J ok st(3) None] st(1,4) oid by simp
    next
      case (Some sh)
      then have "rec_visibility rec = rec_visibility old" "sameMembers (rec_shared_with old) (rec_shared_with rec)"
        using False by (auto simp: sharing_edited_def)
      then show ?thesis using sameMembers_eq ook rok by (metis record_ok_def)
    qed
    then show ?thesis using that [of l r] s1 lr st(2) by simp
  qed
  have "sv_library s' = Some l'" "Account_Get ?J (sv_accounts s') ?i = Inr rec"
    using st(4,6) lr'(1) s1(1) oid by simp_all
  then show ?thesis using that [of l r l' r' rec s1 ?ed] lr(1,2) lr'(2-5) rid rok st(6,7) s1(2) keep by blast
qed

text \<open>C17: A successful update of an account keeps its record and its reach in agreement, and after it every
  session that still runs on the account under the record's provider is of a member who may use the
  account now: the sessions of members it was taken from have ended.\<close>
theorem update_keeps_sharing:
  assumes "json_ok (wr_json W)" and "accounts_ok (wr_json W) (sv_accounts s)" and "uid \<noteq> []"
    and "UpdateAccount W uid req s = (Inr v, s')"
    and "reach_agrees (wr_json W) (ua_account req) s" and "sessions_entitled (acc_provider v) (ua_account req) s"
  shows "reach_agrees (wr_json W) (ua_account req) s' \<and> sessions_entitled (acc_provider v) (ua_account req) s'"
proof
  let ?J = "wr_json W" and ?i = "ua_account req"
  from update_reach [OF assms(1,2,4,5)] obtain l r l' r' rec s1 ed where st:
    "sv_library s = Some l" "map_of (lb_reaches l) ?i = Some r"
    "sv_library s' = Some l'" "map_of (lb_reaches l') ?i = Some r'"
    "rc_owner r' = uid" "rc_visibility r' = rec_visibility rec" "rc_members r' = rec_shared_with rec"
    "Account_Get ?J (sv_accounts s') ?i = Inr rec" "rec_owner rec = uid" "rec_id rec = ?i"
    "record_ok ?i rec" "v = accountView rec uid (wr_cap_default W)"
    "sv_engine s1 = sv_engine s" "s' = live_cap W req rec (live_revoke W ed rec s1)" and keep: "ed \<or> r' = r" .
  have prov: "rec_provider rec = acc_provider v" using st(12) by (simp add: accountView_def Let_def)
  show "reach_agrees ?J ?i s'" unfolding reach_agrees_def using st by auto
  show "sessions_entitled (acc_provider v) ?i s'"
    unfolding sessions_entitled_def
  proof (intro allI impI)
    fix e' sid t
    assume t: "sv_engine s' = Some e'" "map_of (e_sessions e') sid = Some t" "isActive t"
      "dc_provider (s_context t) = acc_provider v" "dc_account_id (s_context t) = ?i"
    let ?u = "dc_member_user_id (s_context t)"
    have new: "reachableFor ?u ?i s' \<longleftrightarrow> authorized r' ?u" by (rule reachableFor_reach [OF st(3,4)])
    have t1: "sv_engine (live_cap W req rec (live_revoke W ed rec s1)) = Some e'" using t(1) st(14) by simp
    obtain e where "sv_engine s = Some e" "map_of (e_sessions e) sid = Some t"
      using live_session(1) [OF t1 t(2,3)] st(13) by auto
    then have "reachableFor ?u ?i s" using assms(6) t(3-5) unfolding sessions_entitled_def by blast
    then have old: "authorized r ?u" using reachableFor_reach [OF st(1,2)] by blast
    show "reachableFor ?u ?i s'"
    proof (cases "ed \<and> rec_visibility rec \<noteq> VisibilityPublic")
      case True
      then have "?u \<in> set (rec_owner rec # rec_shared_with rec)"
        using live_session(2) [OF t1 t(2,3)] t(4,5) prov st(10) by simp
      moreover have "rc_visibility r' = VisibilityShared \<or> rc_members r' = []" using st(11) unfolding st(6,7) record_ok_def by blast
      ultimately have "authorized r' ?u"
        using authorized_roster [of r' ?u] st(5-7,9) assms(3) True by simp
      then show ?thesis using new by simp
    next
      case False
      then have "authorized r' ?u"
        using old keep st(6) authorized_public [of r' ?u] by (cases ed) simp_all
      then show ?thesis using new by simp
    qed
  qed
qed

text \<open>The sessions that a narrowed sharing ends are looked up under the provider of the account's record,
  which is the name of an adapter; a session is started under the id of a provider slot. Where the two
  differ, an update that makes the account private takes it from everybody but the owner and yet
  leaves every session of the others on it running.\<close>
theorem narrowing_misses_slot_sessions:
  assumes "json_ok (wr_json W)" and "accounts_ok (wr_json W) (sv_accounts s)" and "uid \<noteq> []"
    and "UpdateAccount W uid req s = (Inr v, s')" and "reach_agrees (wr_json W) (ua_account req) s"
    and "ua_max_streams req = None" and "acc_visibility v = AV_PRIVATE"
    and "sv_engine s = Some e" and "map_of (e_sessions e) sid = Some t"
    and "dc_member_user_id (s_context t) \<noteq> uid" and "dc_provider (s_context t) \<noteq> acc_provider v"
  shows "\<not> reachableFor (dc_member_user_id (s_context t)) (ua_account req) s'
     \<and> (\<exists>e'. sv_engine s' = Some e' \<and> map_of (e_sessions e') sid = Some t)"
proof
  from update_reach [OF assms(1,2,4,5)] obtain l r l' r' rec s1 ed where st:
    "sv_library s' = Some l'" "map_of (lb_reaches l') (ua_account req) = Some r'"
    "rc_owner r' = uid" "rc_visibility r' = rec_visibility rec" "v = accountView rec uid (wr_cap_default W)"
    "sv_engine s1 = sv_engine s" "s' = live_cap W req rec (live_revoke W ed rec s1)" .
  have "rec_visibility rec \<noteq> VisibilityPublic \<and> rec_visibility rec \<noteq> VisibilityShared"
    using assms(7) by (auto simp: st(5) accountView_def Let_def apiVisibilityAPI_def split: if_splits)
  then have "\<not> authorized r' (dc_member_user_id (s_context t))" using assms(10) st(3,4) by (auto simp: authorized_def)
  then show "\<not> reachableFor (dc_member_user_id (s_context t)) (ua_account req) s'"
    using reachableFor_reach [OF st(1,2)] by blast
  have p: "dc_provider (s_context t) \<noteq> rec_provider rec" using assms(11) st(5) by (simp add: accountView_def Let_def)
  obtain n e' where r: "RevokeOthersOnAccount (wr_options W) (rec_provider rec) (rec_id rec) (rec_owner rec # rec_shared_with rec) e = (n, e')"
    by fastforce
  have t: "map_of (e_sessions e') sid = Some t"
    using revoke_where_session(2) [OF r [unfolded RevokeOthersOnAccount_def] assms(9)] p by simp
  have "sv_engine s' = Some e \<or> sv_engine s' = Some e'"
    using st(6) assms(8) r by (simp add: st(7) live_cap_def assms(6) live_revoke_def)
  then show "\<exists>e'. sv_engine s' = Some e' \<and> map_of (e_sessions e') sid = Some t" using assms(9) t by blast
qed

subsection \<open>An update that fails halfway\<close>

lemma update_record_total:
  assumes "json_ok J" and "\<forall>r. rj_marshal J r \<noteq> None" and "Store_ok a" and "Account_Get J a i = Inr r" and "mutate r = Inr r'"
  obtains a' where "update_record J i mutate a = (Inr (), a')" "Store_ok a'" "Account_Get J a' i = Inr r'"
proof -
  obtain x a' where u: "put_record J a i r' = (x, a')" by fastforce
  have "x = Inr ()"
    using assms(3)
  proof (cases rule: put_record_cases [where J = J and i = i and r = r'])
    case encode
    then have "rj_marshal J r' = None" using Store_Put_eq [OF assms(3)] by (auto simp: put_record_def split: option.splits prod.splits sum.splits)
    with assms(2) show ?thesis by blast
  next
    case (written blob s')
    then show ?thesis using u by simp
  qed
  with u put_record_Get [OF assms(3,1), of i r' a'] that show ?thesis
    by (simp add: update_record_def assms(4,5))
qed

text \<open>An update that fails on the live side is half applied. When the account has no reach, a request that
  publishes the account and sets its cap is answered with an internal error and the sharing is put
  back, but the new cap stays in the record; the code promises that a failed update is never half
  applied.\<close>
theorem failed_update_half_applied:
  assumes J: "json_ok (wr_json W)" "\<forall>r. rj_marshal (wr_json W) r \<noteq> None" and ok: "accounts_ok (wr_json W) (sv_accounts s)"
    and old: "Account_Get (wr_json W) (sv_accounts s) i = Inr old" "rec_owner old = uid" "rec_visibility old = VisibilityPrivate"
    and lib: "sv_library s = Some l" "map_of (lb_reaches l) i = None"
  shows "\<exists>s'. UpdateAccount W uid \<lparr>ua_account = i, ua_sharing = Some \<lparr>sh_visibility = AV_PUBLIC, sh_shared_with = []\<rparr>,
             ua_max_streams = Some n, ua_cap_change = None\<rparr> s
           = (Inl (Status Internal ''failed to update account sharing live''), s')
     \<and> Account_Get (wr_json W) (sv_accounts s') i = Inr (old\<lparr>rec_max_streams := n\<rparr>)"
proof -
  let ?J = "wr_json W"
  let ?req = "\<lparr>ua_account = i, ua_sharing = Some \<lparr>sh_visibility = AV_PUBLIC, sh_shared_with = []\<rparr>,
             ua_max_streams = Some n, ua_cap_change = None\<rparr>"
  have rok: "record_ok i old" by (rule accounts_ok_Get [OF ok old(1)])
  then have id: "rec_id old = i" "i \<noteq> []" "rec_shared_with old = []" using old(3) by (auto simp: record_ok_def visibilities)
  have pub: "VisibilityPublic \<noteq> VisibilityPrivate" "VisibilityPrivate \<noteq> VisibilityPublic" by (simp_all add: visibilities)
  let ?r1 = "old\<lparr>rec_visibility := VisibilityPublic, rec_shared_with := []\<rparr>"
  let ?r2 = "?r1\<lparr>rec_max_streams := n\<rparr>"
  have shr: "sharing_of i VisibilityPublic [] old = Inr ?r1" by (simp add: sharing_of_def)
  from update_record_total [where mutate = "sharing_of i VisibilityPublic []", OF J accounts_ok_store [OF ok] old(1) shr] obtain a1
    where a1: "SetSharing ?J i VisibilityPublic [] (sv_accounts s) = (Inr (), a1)" "Store_ok a1" "Account_Get ?J a1 i = Inr ?r1"
    unfolding SetSharing_def by blast
  from update_record_total [where mutate = "\<lambda>r. Inr (r\<lparr>rec_max_streams := n\<rparr>)", OF J a1(2,3) refl] obtain a2
    where a2: "SetMaxConcurrentStreams ?J i n a1 = (Inr (), a2)" "Store_ok a2" "Account_Get ?J a2 i = Inr ?r2"
    unfolding SetMaxConcurrentStreams_def by blast
  have shr3: "sharing_of i VisibilityPrivate [] ?r2 = Inr (?r2\<lparr>rec_visibility := VisibilityPrivate, rec_shared_with := []\<rparr>)"
    by (simp add: sharing_of_def)
  from update_record_total [where mutate = "sharing_of i VisibilityPrivate []", OF J a2(2,3) shr3] obtain a3
    where a3: "SetSharing ?J i VisibilityPrivate [] a2 = (Inr (), a3)"
      "Account_Get ?J a3 i = Inr (?r2\<lparr>rec_visibility := VisibilityPrivate, rec_shared_with := []\<rparr>)"
    unfolding SetSharing_def by blast
  have last: "?r2\<lparr>rec_visibility := VisibilityPrivate, rec_shared_with := []\<rparr> = old\<lparr>rec_max_streams := n\<rparr>"
    using old(3) id(3) by (cases old) simp
  have v: "ValidateUpdateAccountRequest ?req = None"
    using id(2) by (simp add: ValidateUpdateAccountRequest_def ValidateAccountSharing_def then_check_def)
  have o: "owned_account W uid d f i s = Inr old" for d f using owned_account_Inr old(1,2) by blast
  have c: "update_checks (wr_directory W) ?req = None"
    by (simp add: update_checks_def validateSharing_def apiVisibility_def)
  have set: "apply_settings ?J old ?req (sv_accounts s) = (None, a2)"
    by (simp add: apply_settings_def write_sharing_def write_cap_def write_policy_def apiVisibility_def id(1) a1(1) a2(1))
  have ed: "sharing_edited ?req old ?r2" by (simp add: sharing_edited_def old(3) pub)
  have live: "live_sharing W True old ?r2 (s\<lparr>sv_accounts := a2\<rparr>)
      = (Some (Status Internal ''failed to update account sharing live''), s\<lparr>sv_accounts := a3, sv_library := Some l\<rparr>)"
    using lib by (simp add: live_sharing_def SetReachSharing_def id old(3) a3(1))
  have "UpdateAccount W uid ?req s = (Inl (Status Internal ''failed to update account sharing live''),
      s\<lparr>sv_accounts := a3, sv_library := Some l\<rparr>)"
    unfolding UpdateAccount_def v option.case
    by (simp add: o c set id(1) a2(3) ed live)
  then show ?thesis using a3(2) last by simp
qed

subsection \<open>Removing\<close>

text \<open>C18: When its owner removes a linked account, its record and its vaulted session are gone and no other
  record changes, nobody reaches it, every session on it has ended, under whatever provider, and no
  other session is touched.\<close>
theorem RemoveAccount_exact:
  assumes ok: "accounts_ok (wr_json W) (sv_accounts s)" and rec: "Account_Get (wr_json W) (sv_accounts s) i = Inr rec" "rec_owner rec = uid"
    and i: "\<not> HasPrefix i metaPrefix"
    and drop: "\<forall>d t. wr_dropper W = Some d \<longrightarrow> sv_accounts (snd (d rec t)) = sv_accounts t
        \<and> sv_library (snd (d rec t)) = sv_library t \<and> sv_engine (snd (d rec t)) = sv_engine t"
  shows "\<exists>s'. RemoveAccount W uid i now s = (Inr (), s')
     \<and> accounts_of (wr_json W) (sv_accounts s') = (accounts_of (wr_json W) (sv_accounts s))(i := None)
     \<and> Session_Load (sv_accounts s') i = Inl ErrNotFound
     \<and> (\<forall>u. \<not> reachableFor u i s')
     \<and> (\<forall>e. sv_engine s = Some e \<longrightarrow> (\<exists>e'. sv_engine s' = Some e' \<and> (\<forall>sid t. map_of (e_sessions e) sid = Some t \<longrightarrow>
          (\<exists>t'. map_of (e_sessions e') sid = Some t'
            \<and> (if dc_account_id (s_context t) = i then ended ''account revoked'' t t' else t' = t)))))"
proof -
  let ?J = "wr_json W"
  have id: "rec_id rec = i" "i \<noteq> []" using accounts_ok_Get [OF ok rec(1)] by (auto simp: record_ok_def)
  have st: "Store_ok (sv_accounts s)" by (rule accounts_ok_store [OF ok])
  obtain a where a: "Account_Delete i (sv_accounts s) = (Inr (), a)" "Store_ok a" "view a = (view (sv_accounts s))(metaKey i := None, i := None)"
    using Account_Delete_view [OF st] by blast
  have o: "owned_account W uid d f i s = Inr rec" for d f using owned_account_Inr rec by blast
  define s1 where "s1 = s\<lparr>sv_accounts := a, sv_library := map_option (\<lambda>l. RemoveReach l i) (sv_library s)\<rparr>"
  define s2 where "s2 = (case wr_dropper W of None \<Rightarrow> s1 | Some d \<Rightarrow> snd (d rec s1))"
  define s3 where "s3 = s2\<lparr>sv_engine := map_option (\<lambda>e. snd (RevokeAllOnAccount (wr_options W) i e)) (sv_engine s2)\<rparr>"
  define s' where "s' = emitAccountEvent uid i (rec_provider rec) ET_ACCOUNT_SESSION_REVOKED now s3"
  have run: "RemoveAccount W uid i now s = (Inr (), s')"
    using id(2) unfolding RemoveAccount_def
    by (cases "wr_dropper W") (simp_all add: ValidateRemoveAccountRequest_def o id(1) a(1) Let_def s1_def s2_def s3_def s'_def)
  have s2: "sv_accounts s2 = a" "sv_library s2 = map_option (\<lambda>l. RemoveReach l i) (sv_library s)" "sv_engine s2 = sv_engine s"
    using drop by (simp_all add: s2_def s1_def split: option.split)
  have s': "sv_accounts s' = a" "sv_library s' = map_option (\<lambda>l. RemoveReach l i) (sv_library s)"
    "sv_engine s' = map_option (\<lambda>e. snd (RevokeAllOnAccount (wr_options W) i e)) (sv_engine s)"
    by (simp_all add: s'_def emitAccountEvent_def s3_def s2)
  have acc: "accounts_of ?J a = (accounts_of ?J (sv_accounts s))(i := None)"
    using Account_Delete_updates [OF st i, of ?J] a(1) by simp
  have load: "Session_Load a i = Inl ErrNotFound" by (simp add: Session_Load_view [OF a(2)] a(3))
  have reach: "\<not> reachableFor u i s'" for u
    by (simp add: reachableFor_def s' RemoveReach_def ReachAuthorized_def delete_conv' split: option.split)
  have eng: "\<exists>e'. sv_engine s' = Some e' \<and> (\<forall>sid t. map_of (e_sessions e) sid = Some t \<longrightarrow>
          (\<exists>t'. map_of (e_sessions e') sid = Some t'
            \<and> (if dc_account_id (s_context t) = i then ended ''account revoked'' t t' else t' = t)))"
    if e: "sv_engine s = Some e" for e
  proof -
    obtain n e' where r: "RevokeAllOnAccount (wr_options W) i e = (n, e')" by fastforce
    have "\<exists>t'. map_of (e_sessions e') sid = Some t'
        \<and> (if dc_account_id (s_context t) = i then ended ''account revoked'' t t' else t' = t)"
      if t: "map_of (e_sessions e) sid = Some t" for sid t
    proof -
      have "sid \<in> set (map fst (e_sessions e))" using t by (metis in_keys_iff not_None_eq)
      then show ?thesis using revoke_where_session(2) [OF r [unfolded RevokeAllOnAccount_def] t] by simp
    qed
    then show ?thesis using e r by (simp add: s')
  qed
  show ?thesis by (intro exI [of _ s'] conjI allI impI) (use run acc load reach eng s'(1) in simp_all)
qed

subsection \<open>Listing\<close>

lemma set_containsAccount: "containsAccount as i \<longleftrightarrow> i \<in> acc_id ` set as"
  by (induction as) auto

lemma add_reaches_ids:
  "acc_id ` set (add_reaches out rs) = acc_id ` set out \<union> rc_account ` set rs"
  "set (add_reaches out rs) \<subseteq> set out \<union> reach_view ` set rs"
  "distinct (map acc_id out) \<Longrightarrow> distinct (map acc_id (add_reaches out rs))"
  by (induction out rs rule: add_reaches.induct) (auto simp: set_containsAccount reach_view_def)

text \<open>The reaches of the library, keyed by their account.\<close>

lemma reachesFor_accounts:
  assumes "\<forall>l. sv_library s = Some l \<longrightarrow> reaches_ok l"
  shows "rc_account ` set (reachesFor uid s) = {i. reachableFor uid i s}"
proof (cases "sv_library s")
  case None
  then show ?thesis by (simp add: reachesFor_def reachableFor_def)
next
  case (Some l)
  then have ok: "distinct (map fst (lb_reaches l))" "\<And>k r. map_of (lb_reaches l) k = Some r \<Longrightarrow> rc_account r = k"
    using assms by (auto simp: reaches_ok_def)
  have iff: "i \<in> rc_account ` set (derivable l uid) \<longleftrightarrow> (\<exists>r. map_of (lb_reaches l) i = Some r \<and> authorized r uid)" for i
  proof
    assume "i \<in> rc_account ` set (derivable l uid)"
    then obtain r where "i = rc_account r" "r \<in> set (derivable l uid)" by blast
    then show "\<exists>r. map_of (lb_reaches l) i = Some r \<and> authorized r uid" using ok(2) unfolding derivable_iff [OF ok(1)] by blast
  next
    assume "\<exists>r. map_of (lb_reaches l) i = Some r \<and> authorized r uid"
    then obtain r where "map_of (lb_reaches l) i = Some r" "authorized r uid" by blast
    then show "i \<in> rc_account ` set (derivable l uid)" using ok(2) derivable_iff [OF ok(1), of r uid] by (metis image_eqI)
  qed
  have "reachableFor uid i s \<longleftrightarrow> (\<exists>r. map_of (lb_reaches l) i = Some r \<and> authorized r uid)" for i
    using Some by (simp add: reachableFor_def ReachAuthorized_def split: option.split)
  then show ?thesis using iff Some unfolding reachesFor_def by (simp add: set_eq_iff)
qed

text \<open>A caller's list of accounts holds exactly the linked accounts the caller owns and the accounts the
  caller reaches, each once and in order of their ids; the members and the limits of an account are
  shown to its owner only.\<close>
theorem ListAccounts_scope:
  assumes "mem_ok (sv_accounts s)" and "accounts_ok (wr_json W) (sv_accounts s)" and "\<forall>l. sv_library s = Some l \<longrightarrow> reaches_ok l"
  shows "\<exists>as. ListAccounts W uid s = Inr as \<and> sorted (map acc_id as) \<and> distinct (map acc_id as)
     \<and> acc_id ` set as = {i. reachableFor uid i s}
         \<union> {i. \<exists>rec. Account_Get (wr_json W) (sv_accounts s) i = Inr rec \<and> rec_owner rec = uid}
     \<and> (\<forall>a \<in> set as. acc_shared_with a \<noteq> [] \<or> acc_max_streams a \<noteq> 0 \<or> acc_cap_change a \<noteq> CP_UNSPECIFIED \<longrightarrow>
          (\<exists>rec. Account_Get (wr_json W) (sv_accounts s) (acc_id a) = Inr rec \<and> rec_owner rec = uid))"
proof -
  let ?J = "wr_json W" and ?v = "\<lambda>rec. accountView rec uid (wr_cap_default W)"
  obtain rs where rs: "Account_List ?J (sv_accounts s) = Inr rs" "\<And>r. r \<in> set rs \<longleftrightarrow> (\<exists>i. Account_Get ?J (sv_accounts s) i = Inr r)"
    using Account_List_set [OF accounts_ok_store [OF assms(2)]] by metis
  have drs: "distinct rs" by (rule Account_List_distinct [OF assms(1,2) rs(1)])
  have rid: "Account_Get ?J (sv_accounts s) (rec_id r) = Inr r" if "r \<in> set rs" for r
    using that rs(2) accounts_ok_id [OF assms(2)] by metis
  define keep where "keep = (\<lambda>rec :: Record. \<not> (rec_owner rec \<noteq> uid \<and> \<not> reachableFor uid (rec_id rec) s))"
  define out where "out = add_reaches (map ?v (filter keep rs)) (reachesFor uid s)"
  have run: "ListAccounts W uid s = Inr (sort_key acc_id out)"
    by (simp add: ListAccounts_def rs(1) Let_def out_def keep_def)
  have vid: "acc_id (?v r) = rec_id r" for r by (simp add: accountView_def Let_def)
  have "inj_on rec_id (set rs)" by (rule inj_onI) (metis rid sum.inject(2))
  then have "distinct (map acc_id (map ?v (filter keep rs)))"
    using drs by (simp add: o_def vid distinct_map inj_on_subset)
  then have d: "distinct (map acc_id (sort_key acc_id out))"
    using add_reaches_ids(3) [of "map ?v (filter keep rs)" "reachesFor uid s"]
    by (simp add: out_def distinct_map)
  have own: "acc_id ` set (map ?v (filter keep rs)) = {i. \<exists>rec. Account_Get ?J (sv_accounts s) i = Inr rec \<and> keep rec}"
  proof -
    have "acc_id ` set (map ?v (filter keep rs)) = {rec_id r | r. r \<in> set rs \<and> keep r}" by (auto simp: vid image_iff)
    also have "\<dots> = {i. \<exists>rec. Account_Get ?J (sv_accounts s) i = Inr rec \<and> keep rec}"
      using rid rs(2) accounts_ok_id [OF assms(2)] by blast
    finally show ?thesis .
  qed
  have ids: "acc_id ` set (sort_key acc_id out) = {i. reachableFor uid i s}
      \<union> {i. \<exists>rec. Account_Get ?J (sv_accounts s) i = Inr rec \<and> rec_owner rec = uid}"
  proof -
    have "acc_id ` set (sort_key acc_id out) = {i. \<exists>rec. Account_Get ?J (sv_accounts s) i = Inr rec \<and> keep rec} \<union> {i. reachableFor uid i s}"
      by (simp only: out_def set_sort add_reaches_ids(1) own reachesFor_accounts [OF assms(3)])
    also have "\<dots> = {i. reachableFor uid i s}
        \<union> {i. \<exists>rec. Account_Get ?J (sv_accounts s) i = Inr rec \<and> rec_owner rec = uid}"
      unfolding keep_def using accounts_ok_id [OF assms(2)] by blast
    finally show ?thesis .
  qed
  have shown: "\<exists>rec. Account_Get ?J (sv_accounts s) (acc_id a) = Inr rec \<and> rec_owner rec = uid"
    if a: "a \<in> set (sort_key acc_id out)" "acc_shared_with a \<noteq> [] \<or> acc_max_streams a \<noteq> 0 \<or> acc_cap_change a \<noteq> CP_UNSPECIFIED" for a
  proof -
    have "a \<in> set (map ?v (filter keep rs)) \<union> reach_view ` set (reachesFor uid s)"
      using a(1) add_reaches_ids(2) [of "map ?v (filter keep rs)" "reachesFor uid s"] unfolding out_def set_sort by blast
    moreover have "a \<notin> reach_view ` set (reachesFor uid s)" using a(2) by (auto simp: reach_view_def)
    ultimately obtain r where r: "r \<in> set rs" "a = ?v r" by auto
    then have "rec_owner r = uid" using a(2) by (auto simp: accountView_def Let_def rosterFor_def split: if_splits)
    then show ?thesis using rid [OF r(1)] r(2) vid by auto
  qed
  show ?thesis
    by (intro exI [of _ "sort_key acc_id out"] conjI ballI impI) (use run d ids shown in simp_all)
qed

subsection \<open>Linking\<close>

lemma Add_record_owner: "Add_record now r = Inr r' \<Longrightarrow> rec_owner r' = rec_owner r"
  unfolding Add_record_def Let_def by (auto split: if_splits)

lemma link_unlink_add:
  assumes "accounts_ok J s" and "json_ok J"
  shows "(\<forall>e s'. Account_Add J now r s = (Inl e, s') \<longrightarrow> s' = s)
     \<and> (\<forall>s'. Account_Add J now r s = (Inr (), s') \<longrightarrow>
          (\<exists>r'. Add_record now r = Inr r' \<and> Account_Get J s' (rec_id r) = Inr r')
          \<and> (\<forall>k. k \<noteq> metaKey (rec_id r) \<longrightarrow> view s' k = view s k))"
  using link_unlink_effect [OF assms, of now r "[]"] by blast

lemma store_link_view:
  assumes "json_ok (wr_json W)" and "accounts_ok (wr_json W) (sv_accounts s)" and "\<not> HasPrefix (rec_id rec) metaPrefix"
    and "view (sv_accounts s) (metaKey (rec_id rec)) = None" and "view (sv_accounts s) (rec_id rec) = None"
    and "\<forall>att t. wr_attacher W = Some att \<longrightarrow> sv_accounts (snd (att rec t)) = sv_accounts t"
    and "store_link W now blob rec s = (x, s')"
  shows "case x of Some e \<Rightarrow> view (sv_accounts s') = view (sv_accounts s)
     | None \<Rightarrow> Session_Load (sv_accounts s') (rec_id rec) = Inr blob
         \<and> (\<exists>r'. Add_record now rec = Inr r' \<and> Account_Get (wr_json W) (sv_accounts s') (rec_id rec) = Inr r')"
proof -
  let ?i = "rec_id rec" and ?J = "wr_json W"
  have m: "metaKey ?i \<noteq> ?i" using assms(3) HasPrefix_metaKey by metis
  obtain a where a: "Session_Save ?i blob (sv_accounts s) = (Inr (), a)" "Store_ok a" "view a = (view (sv_accounts s))(?i \<mapsto> blob)"
    using Session_Save_view [OF accounts_ok_store [OF assms(2)]] by blast
  have aok: "accounts_ok ?J a" using Session_Save_ok [OF assms(2,3), of blob] a(1) by simp
  have del: "view (snd (Account_Delete ?i b)) = view (sv_accounts s)"
    if "Store_ok b" "\<And>k. k \<noteq> metaKey ?i \<Longrightarrow> view b k = view a k" for b
  proof -
    note b = that
    obtain c where "Account_Delete ?i b = (Inr (), c)" "view c = (view b)(metaKey ?i := None, ?i := None)"
      using Account_Delete_view [OF b(1)] by blast
    then show ?thesis using b(2) a(3) assms(4,5) by (auto simp: fun_eq_iff)
  qed
  obtain y b where b: "Account_Add ?J now rec a = (y, b)" by fastforce
  have add: "(\<forall>e. y = Inl e \<longrightarrow> b = a) \<and> (y = Inr () \<longrightarrow> (\<exists>r'. Add_record now rec = Inr r' \<and> Account_Get ?J b ?i = Inr r')
      \<and> (\<forall>k. k \<noteq> metaKey ?i \<longrightarrow> view b k = view a k))"
    using link_unlink_add [OF aok assms(1), of now rec] b by auto
  have bok: "Store_ok b" using Account_Add_ok [OF aok assms(1), of now rec] b accounts_ok_store by force
  show ?thesis
  proof (cases y)
    case (Inl e)
    then have "s' = s\<lparr>sv_accounts := snd (Account_Delete ?i a)\<rparr> \<and> x \<noteq> None"
      using assms(7) a(1) b add by (auto simp: store_link_def)
    then show ?thesis using del [OF a(2)] by auto
  next
    case (Inr u)
    then have y: "y = Inr ()" by simp
    then have keep: "\<And>k. k \<noteq> metaKey ?i \<Longrightarrow> view b k = view a k" using add by blast
    have load: "Session_Load b ?i = Inr blob" using keep [of ?i] m a(3) by (simp add: Session_Load_view [OF bok])
    show ?thesis
    proof (cases "wr_attacher W")
      case None
      then have "x = None" "s' = s\<lparr>sv_accounts := b\<rparr>" using assms(7) a(1) b y by (simp_all add: store_link_def)
      then show ?thesis using load add y by simp
    next
      case (Some att)
      obtain z s2 where z: "att rec (s\<lparr>sv_accounts := b\<rparr>) = (z, s2)" by fastforce
      then have acc: "sv_accounts s2 = b" using assms(6) [rule_format, OF Some, of "s\<lparr>sv_accounts := b\<rparr>"] by simp
      show ?thesis
      proof (cases z)
        case None
        then have "x = None" "s' = s2" using assms(7) a(1) b y Some z by (simp_all add: store_link_def)
        then show ?thesis using load add y acc by simp
      next
        case (Some e)
        then have "s' = s2\<lparr>sv_accounts := snd (Account_Delete ?i b)\<rparr> \<and> x \<noteq> None"
          using assms(7) a(1) b y \<open>wr_attacher W = Some att\<close> z acc by (auto simp: store_link_def)
        then show ?thesis using del [OF bok keep] by auto
      qed
    qed
  qed
qed


subsection \<open>Examples\<close>

text \<open>A server whose only account was linked by one member and lent to another, who watches something on it.\<close>

definition demo_vault :: "(Record + string) Store" where
  "demo_vault = snd (SetSharing typed_json ''lnk_01'' VisibilityShared [''u'']
     (snd (Account_Add typed_json 7 demo_record NewInMemory)))"

definition demo_lent :: Record where
  "demo_lent = demo_linked\<lparr>rec_visibility := VisibilityShared, rec_shared_with := [''u'']\<rparr>"

lemma demo_lent_sel [simp]:
  "rec_owner demo_lent = ''o''" "rec_visibility demo_lent = VisibilityShared" "rec_shared_with demo_lent = [''u'']"
  "rec_id demo_lent = ''lnk_01''" "rec_provider demo_lent = ''p''"
  by (simp_all add: demo_lent_def demo_linked_def demo_record_def)

lemma typed_json_total: "\<forall>r. rj_marshal typed_json r \<noteq> None"
  by (simp add: typed_json_def)

lemma demo_vault: "accounts_ok typed_json demo_vault" "Account_Get typed_json demo_vault ''lnk_01'' = Inr demo_lent"
proof -
  obtain s where s: "Account_Add typed_json 7 demo_record NewInMemory = (Inr (), s)" "accounts_ok typed_json s"
    "Account_Get typed_json s ''lnk_01'' = Inr demo_linked" using demo_link by blast
  have v: "demo_vault = snd (SetSharing typed_json ''lnk_01'' VisibilityShared [''u''] s)" by (simp add: demo_vault_def s(1))
  show "accounts_ok typed_json demo_vault"
    using SetSharing_setting [OF typed_json_ok, of "''lnk_01''" s VisibilityShared "[''u'']"] s(2,3) unfolding v setting_def by blast
  have "canonUsers [''u''] = [''u'']" by (simp add: canonUsers_def TrimSpace_ascii ascii_def IsSpace_def)
  then have m: "sharing_of ''lnk_01'' VisibilityShared [''u''] demo_linked = Inr demo_lent"
    by (simp add: sharing_of_def visibilities demo_lent_def)
  show "Account_Get typed_json demo_vault ''lnk_01'' = Inr demo_lent"
    using update_record_total [where mutate = "sharing_of ''lnk_01'' VisibilityShared [''u'']", OF typed_json_ok typed_json_total
        accounts_ok_store [OF s(2)] s(3) m] unfolding v SetSharing_def by (metis snd_conv)
qed

definition lent_reach :: Reach where
  "lent_reach = \<lparr>rc_sync = Some (demo_sync []), rc_account = ''lnk_01'', rc_owner = ''o'', rc_visibility = VisibilityShared, rc_members = [''u'']\<rparr>"

definition lent_session :: "string \<Rightarrow> sink Session" where
  "lent_session slot = (new_session (demo_request\<lparr>rq_provider := slot, rq_account := ''lnk_01''\<rparr>) [] [] [] 0 ''s'')\<lparr>s_status := StatusRunning\<rparr>"

definition demo_server :: "string \<Rightarrow> (Record + string, sink, world) server" where
  "demo_server slot = \<lparr>sv_accounts = demo_vault, sv_library = Some (demo_service\<lparr>lb_reaches := [(''lnk_01'', lent_reach)]\<rparr>),
     sv_engine = Some (New demo_world\<lparr>e_sessions := [(''s'', lent_session slot)]\<rparr>), sv_bus = NewInMemoryBus\<rparr>"

definition demo_wiring :: "(Record + string, sink, world) wiring" where
  "demo_wiring = \<lparr>wr_json = typed_json, wr_options = demo_options, wr_constraints = (\<lambda>_. None), wr_directory = None,
     wr_probers = [(''p'', \<lambda>_ _ _. Some (Inr ''blob''))], wr_attacher = None, wr_dropper = None,
     wr_cap_default = CapChangePolicyNewSessionsOnly\<rparr>"

lemma demo_server_sel [simp]:
  "sv_accounts (demo_server slot) = demo_vault" "sv_library (demo_server slot) = Some (demo_service\<lparr>lb_reaches := [(''lnk_01'', lent_reach)]\<rparr>)"
  "sv_engine (demo_server slot) = Some (New demo_world\<lparr>e_sessions := [(''s'', lent_session slot)]\<rparr>)"
  by (simp_all add: demo_server_def)

lemma demo_wiring_sel [simp]:
  "wr_json demo_wiring = typed_json" "wr_dropper demo_wiring = None" "wr_attacher demo_wiring = None"
  "wr_probers demo_wiring = [(''p'', \<lambda>_ _ _. Some (Inr ''blob''))]" "wr_directory demo_wiring = None"
  by (simp_all add: demo_wiring_def)

lemma demo_lnk_id: "\<not> HasPrefix ''lnk_01'' metaPrefix"
  by (simp add: HasPrefix_def metaPrefix_def)

theorem RemoveAccount_exact_witness:
  "\<exists>s'. RemoveAccount demo_wiring ''o'' ''lnk_01'' 9 (demo_server ''p'') = (Inr (), s')
     \<and> Session_Load (sv_accounts s') ''lnk_01'' = Inl ErrNotFound \<and> \<not> reachableFor ''u'' ''lnk_01'' s'"
  using RemoveAccount_exact [of demo_wiring "demo_server ''p''" "''lnk_01''" demo_lent "''o''" 9] demo_vault demo_lnk_id by auto

lemma demo_vault_mem: "mem_ok demo_vault"
proof -
  obtain s where s: "Account_Add typed_json 7 demo_record NewInMemory = (Inr (), s)" "mem_ok s" using demo_link by blast
  have "mem_ok (snd (update_record typed_json i f s))" for i f
    using s(2) by (auto simp: update_record_def put_record_def mem.put_ok split: sum.splits option.splits prod.splits)
      (metis mem.put_ok snd_conv)+
  then show ?thesis by (simp add: demo_vault_def s(1) SetSharing_def)
qed

theorem ListAccounts_scope_witness:
  "\<exists>as. ListAccounts demo_wiring ''u'' (demo_server ''p'') = Inr as \<and> sorted (map acc_id as) \<and> ''lnk_01'' \<in> acc_id ` set as"
proof -
  have "reaches_ok (demo_service\<lparr>lb_reaches := [(''lnk_01'', lent_reach)]\<rparr>)"
    by (simp add: reaches_ok_def lent_reach_def)
  then have l: "\<forall>l. sv_library (demo_server ''p'') = Some l \<longrightarrow> reaches_ok l" by simp
  have r: "reachableFor ''u'' ''lnk_01'' (demo_server ''p'')"
    by (simp add: reachableFor_def ReachAuthorized_def lent_reach_def authorized_def visibilities)
  obtain as where "ListAccounts demo_wiring ''u'' (demo_server ''p'') = Inr as" "sorted (map acc_id as)"
    "acc_id ` set as = {i. reachableFor ''u'' i (demo_server ''p'')}
       \<union> {i. \<exists>rec. Account_Get typed_json demo_vault i = Inr rec \<and> rec_owner rec = ''u''}"
    using ListAccounts_scope [of "demo_server ''p''" demo_wiring "''u''"] demo_vault_mem demo_vault(1) l by auto
  with r show ?thesis by (intro exI [of _ as]) blast
qed

text \<open>The owner takes the account back.\<close>

definition demo_withdraw :: UpdateAccountRequest where
  "demo_withdraw = \<lparr>ua_account = ''lnk_01'', ua_sharing = Some \<lparr>sh_visibility = AV_PRIVATE, sh_shared_with = []\<rparr>,
     ua_max_streams = None, ua_cap_change = None\<rparr>"

lemma demo_withdraw_sel [simp]: "ua_account demo_withdraw = ''lnk_01''" "ua_max_streams demo_withdraw = None"
  by (simp_all add: demo_withdraw_def)

lemma demo_withdrawn:
  "\<exists>v s'. UpdateAccount demo_wiring ''o'' demo_withdraw (demo_server slot) = (Inr v, s') \<and> acc_visibility v = AV_PRIVATE
     \<and> acc_provider v = ''p''"
proof -
  let ?r = "demo_lent\<lparr>rec_visibility := VisibilityPrivate, rec_shared_with := []\<rparr>"
  let ?l = "demo_service\<lparr>lb_reaches := [(''lnk_01'', lent_reach)]\<rparr>"
  have m: "sharing_of ''lnk_01'' VisibilityPrivate [] demo_lent = Inr ?r" by (simp add: sharing_of_def)
  from update_record_total [where mutate = "sharing_of ''lnk_01'' VisibilityPrivate []", OF typed_json_ok typed_json_total
      accounts_ok_store [OF demo_vault(1)] demo_vault(2) m] obtain a
    where a: "SetSharing typed_json ''lnk_01'' VisibilityPrivate [] demo_vault = (Inr (), a)"
      "Account_Get typed_json a ''lnk_01'' = Inr ?r" unfolding SetSharing_def by blast
  let ?b = "lent_reach\<lparr>rc_visibility := VisibilityPrivate, rc_members := []\<rparr>"
  have "mem_ok (lb_cache (?l\<lparr>lb_reaches := AList.update ''lnk_01'' ?b (lb_reaches ?l)\<rparr>))" using demo_service_ok(2) by simp
  from sweepUserCaches_ok [OF this, of "\<lambda>u. authorized lent_reach u \<or> authorized ?b u"]
  have "\<exists>l'. SetReachSharing ?l ''lnk_01'' VisibilityPrivate [] = (None, l')"
    by (auto simp: SetReachSharing_def Let_def)
  then obtain l' where l': "SetReachSharing ?l ''lnk_01'' VisibilityPrivate [] = (None, l')" by blast
  have own: "owned_account demo_wiring ''o'' d f ''lnk_01'' (demo_server slot) = Inr demo_lent" for d f
    by (simp add: owned_account_def demo_vault(2))
  have v: "ValidateUpdateAccountRequest demo_withdraw = None" "update_checks None demo_withdraw = None"
    "apply_settings typed_json demo_lent demo_withdraw demo_vault = (None, a)"
    by (simp_all add: ValidateUpdateAccountRequest_def demo_withdraw_def ValidateAccountSharing_def update_checks_def
        validateSharing_def apiVisibility_def apply_settings_def write_sharing_def write_cap_def write_policy_def a(1) Let_def)
  have ed: "sharing_edited demo_withdraw demo_lent ?r" by (simp add: sharing_edited_def demo_withdraw_def visibilities)
  have live: "live_sharing demo_wiring True demo_lent ?r (demo_server slot\<lparr>sv_accounts := a\<rparr>)
      = (None, demo_server slot\<lparr>sv_accounts := a, sv_library := Some l'\<rparr>)"
    by (simp add: live_sharing_def l')
  have "\<exists>s'. UpdateAccount demo_wiring ''o'' demo_withdraw (demo_server slot)
      = (Inr (accountView ?r ''o'' (wr_cap_default demo_wiring)), s')"
    by (simp add: UpdateAccount_def own v a(2) ed live Let_def)
  moreover have "acc_visibility (accountView ?r ''o'' c) = AV_PRIVATE \<and> acc_provider (accountView ?r ''o'' c) = ''p''" for c
    by (simp add: accountView_def Let_def apiVisibilityAPI_def visibilities)
  ultimately show ?thesis by blast
qed

lemma demo_agrees: "reach_agrees typed_json ''lnk_01'' (demo_server slot)"
  by (simp add: reach_agrees_def demo_vault(2) lent_reach_def)

lemma lent_session_sel [simp]:
  "dc_member_user_id (s_context (lent_session slot)) = ''u''" "dc_provider (s_context (lent_session slot)) = slot"
  by (simp_all add: lent_session_def new_session_def demo_request_def)

theorem update_keeps_sharing_witness:
  "\<exists>v s'. UpdateAccount demo_wiring ''o'' demo_withdraw (demo_server ''p'') = (Inr v, s') \<and> sessions_entitled ''p'' ''lnk_01'' s'"
proof -
  obtain v s' where u: "UpdateAccount demo_wiring ''o'' demo_withdraw (demo_server ''p'') = (Inr v, s')" "acc_provider v = ''p''"
    using demo_withdrawn by blast
  have "sessions_entitled ''p'' ''lnk_01'' (demo_server ''p'')"
    by (auto simp: sessions_entitled_def reachableFor_def ReachAuthorized_def lent_reach_def authorized_def visibilities)
  then show ?thesis
    using update_keeps_sharing [of demo_wiring "demo_server ''p''" "''o''" demo_withdraw v s'] u demo_vault(1) demo_agrees typed_json_ok
    by auto
qed

theorem narrowing_misses_slot_sessions_witness:
  "\<exists>v s' e. UpdateAccount demo_wiring ''o'' demo_withdraw (demo_server ''home'') = (Inr v, s') \<and> \<not> reachableFor ''u'' ''lnk_01'' s'
     \<and> sv_engine s' = Some e \<and> map_of (e_sessions e) ''s'' = Some (lent_session ''home'')"
proof -
  obtain v s' where u: "UpdateAccount demo_wiring ''o'' demo_withdraw (demo_server ''home'') = (Inr v, s')"
    "acc_visibility v = AV_PRIVATE" "acc_provider v = ''p''" using demo_withdrawn by blast
  then show ?thesis
    using narrowing_misses_slot_sessions [of demo_wiring "demo_server ''home''" "''o''" demo_withdraw v s'
        "New demo_world\<lparr>e_sessions := [(''s'', lent_session ''home'')]\<rparr>" "''s''" "lent_session ''home''"]
      demo_vault(1) demo_agrees typed_json_ok by auto
qed

definition demo_link_request :: LinkAccountRequest where
  "demo_link_request = \<lparr>la_provider = ''p'', la_base_url = ''http://h/'', la_password = Some \<lparr>pl_username = ''n'', pl_password = ''w''\<rparr>,
     la_visibility = AV_PRIVATE, la_shared_with = [], la_max_streams = 2\<rparr>"


end
