(* ===== verification/Jellyfin.thy ===== *)
theory Jellyfin
  imports Accounts Source_Cache Strconv
begin

text \<open>
  The Jellyfin adapter, \<open>adapters/jellyfin/jellyfin.go\<close>: the accounts a slot serves with their cached sessions,
  the requests it makes, and the mapping of pages and of playback information to the contract.

  The server is an argument: \<open>ad_http\<close> answers the last of the requests sent so far, so that a server whose
  answers change is covered. Encoding and decoding of JSON, \<open>%q\<close>, the environment and the roster
  that resolves an account are arguments as well; \<open>json.Unmarshal\<close> into a struct answers \<^const>\<open>None\<close> for an
  error. A \<^verbatim>\<open>Slot\<close> keeps its sessions, the vault it shares with the core, and the requests it has sent. Each
  method holds the lock while it works with a session, so it is one step. A failed write to the vault
  after a login is only logged. The range of a video track and the role of an audio track, which no
  modelled code reads, are not part of the messages.
\<close>

subsection \<open>Data\<close>

definition pageSize :: nat where "pageSize = 500"

record Account =
  ja_id :: string
  ja_url :: string
  ja_username :: string
  ja_password_env :: string

definition no_account :: Account where
  "no_account = \<lparr>ja_id = [], ja_url = [], ja_username = [], ja_password_env = []\<rparr>"

record session =
  js_account :: Account
  js_token :: string
  js_userID :: string

record authResult =
  au_AccessToken :: string
  au_UserID :: string

record mediaItem =
  mi_Id :: string
  mi_Type :: string
  mi_Name :: string
  mi_ProductionYear :: int
  mi_ProviderIds :: "(string \<times> string) list"

record itemsPage =
  ip_Items :: "mediaItem list"
  ip_TotalRecordCount :: int

record playbackStream =
  ps_Type :: string
  ps_Codec :: string
  ps_Width :: int
  ps_Height :: int
  ps_BitRate :: int
  ps_Language :: string
  ps_ChannelLayout :: string
  ps_IsForced :: bool

record mediaSource =
  mo_Id :: string
  mo_Container :: string
  mo_Streams :: "playbackStream list"

record playbackInfoResult =
  pb_Container :: string
  pb_StreamURL :: string
  pb_Streams :: "playbackStream list"

text \<open>Requests, replies and errors.\<close>

datatype http_method = GET | POST

record request =
  hr_method :: http_method
  hr_url :: string
  hr_authorization :: string
  hr_body :: string

datatype reply = NetError string | Reply int string

datatype login_error = LE_http string | LE_rejected | LE_status int | LE_decode | LE_incomplete

datatype jf_error =
    JE_none_declared | JE_missing_id | JE_duplicate string | JE_resolve string string | JE_incomplete string
  | JE_unknown string | NoSessionError string string string | JE_login string login_error
  | JE_http string | JE_status int | JE_decode | JE_unauthorized | JE_page_token | JE_request | JE_no_sources | JE_probe login_error

record 'b adapter =
  ad_src :: "'b Store \<Rightarrow> string \<Rightarrow> string + Account"
  ad_vault :: bool
  ad_deviceID :: string
  ad_quote :: "string \<Rightarrow> string"
  ad_getenv :: "string \<Rightarrow> string"
  ad_http :: "request list \<Rightarrow> reply"
  ad_decode_auth :: "string \<Rightarrow> authResult option"
  ad_decode_items :: "string \<Rightarrow> itemsPage option"
  ad_decode_playback :: "string \<Rightarrow> mediaSource list option"
  ad_marshal :: "authResult \<Rightarrow> 'b option"
  ad_unmarshal :: "'b \<Rightarrow> authResult option"
  ad_len :: "'b \<Rightarrow> nat"
  ad_nil :: 'b

record 'b Slot =
  jf_ids :: "string list"
  jf_sessions :: "(string \<times> session) list"
  jf_vault :: "'b Store"
  jf_sent :: "request list"

subsection \<open>Accounts\<close>

definition resolve_account :: "'b adapter \<Rightarrow> 'b Store \<Rightarrow> string \<Rightarrow> jf_error option" where
  "resolve_account A vault i =
     (case ad_src A vault i of
        Inl e \<Rightarrow> Some (JE_resolve i e)
      | Inr a \<Rightarrow> if ja_id a = [] \<or> ja_url a = [] \<or> ja_username a = [] then Some (JE_incomplete i) else None)"

fun new_ids :: "'b adapter \<Rightarrow> 'b Store \<Rightarrow> string list \<Rightarrow> string list \<Rightarrow> jf_error + string list" where
  "new_ids A vault seen [] = Inr seen"
| "new_ids A vault seen (i # is) =
     (if i = [] then Inl JE_missing_id
      else if i \<in> set seen then Inl (JE_duplicate i)
      else (case resolve_account A vault i of
         Some e \<Rightarrow> Inl e
       | None \<Rightarrow> new_ids A vault (seen @ [i]) is))"

definition Slot_New :: "'b adapter \<Rightarrow> string list \<Rightarrow> 'b Store \<Rightarrow> jf_error + 'b Slot" where
  "Slot_New A is vault =
     (if is = [] then Inl JE_none_declared
      else (case new_ids A vault [] is of
         Inl e \<Rightarrow> Inl e
       | Inr seen \<Rightarrow> Inr \<lparr>jf_ids = seen, jf_sessions = [], jf_vault = vault, jf_sent = []\<rparr>))"

definition AddAccount :: "'b adapter \<Rightarrow> string \<Rightarrow> 'b Slot \<Rightarrow> jf_error option \<times> 'b Slot" where
  "AddAccount A i s =
     (if i \<in> set (jf_ids s) then (None, s)
      else (case resolve_account A (jf_vault s) i of
         Some e \<Rightarrow> (Some e, s)
       | None \<Rightarrow> (None, s\<lparr>jf_ids := jf_ids s @ [i]\<rparr>)))"

definition DropAccount :: "string \<Rightarrow> 'b Slot \<Rightarrow> 'b Slot" where
  "DropAccount i s = s\<lparr>jf_ids := filter (\<lambda>j. j \<noteq> i) (jf_ids s), jf_sessions := AList.delete i (jf_sessions s)\<rparr>"

subsection \<open>Sessions\<close>

definition send :: "'b adapter \<Rightarrow> request \<Rightarrow> 'b Slot \<Rightarrow> reply \<times> 'b Slot" where
  "send A r s = (ad_http A (jf_sent s @ [r]), s\<lparr>jf_sent := jf_sent s @ [r]\<rparr>)"

definition quote_char :: char where "quote_char = CHR 0x22"

definition login_request :: "'b adapter \<Rightarrow> string \<Rightarrow> string \<Rightarrow> string \<Rightarrow> request" where
  "login_request A url username password =
     \<lparr>hr_method = POST, hr_url = TrimRight_slash url @ ''/Users/AuthenticateByName'',
      hr_authorization = ''MediaBrowser Client='' @ [quote_char] @ ''ABCMovies'' @ [quote_char] @ '', Device='' @ [quote_char]
        @ ''abcmovies-core'' @ [quote_char] @ '', DeviceId='' @ ad_quote A (ad_deviceID A)
        @ '', Version='' @ [quote_char] @ ''0.0.1'' @ [quote_char],
      hr_body = ''{'' @ [quote_char] @ ''Username'' @ [quote_char] @ '':'' @ ad_quote A username
        @ '','' @ [quote_char] @ ''Pw'' @ [quote_char] @ '':'' @ ad_quote A password @ ''}''\<rparr>"

definition authenticate ::
    "'b adapter \<Rightarrow> string \<Rightarrow> string \<Rightarrow> string \<Rightarrow> 'b Slot \<Rightarrow> (login_error + authResult) \<times> 'b Slot" where
  "authenticate A url username password s =
     (case send A (login_request A url username password) s of
        (NetError e, s') \<Rightarrow> (Inl (LE_http e), s')
      | (Reply st body, s') \<Rightarrow>
          if st = 401 then (Inl LE_rejected, s')
          else if st \<noteq> 200 then (Inl (LE_status st), s')
          else (case ad_decode_auth A body of
             None \<Rightarrow> (Inl LE_decode, s')
           | Some out \<Rightarrow>
               if au_AccessToken out = [] \<or> au_UserID out = [] then (Inl LE_incomplete, s') else (Inr out, s')))"

definition put_session :: "string \<Rightarrow> session \<Rightarrow> 'b Slot \<Rightarrow> 'b Slot" where
  "put_session i x s = s\<lparr>jf_sessions := AList.update i x (jf_sessions s)\<rparr>"

text \<open>The session read back from the vault, when the cache holds no token.\<close>

definition restore :: "'b adapter \<Rightarrow> 'b Slot \<Rightarrow> string \<Rightarrow> session \<Rightarrow> session" where
  "restore A s i x =
     (if js_token x = [] \<and> ad_vault A then
        (case Session_Load (jf_vault s) i of
           Inl _ \<Rightarrow> x
         | Inr blob \<Rightarrow>
             if ad_len A blob = 0 then x
             else (case ad_unmarshal A blob of
                None \<Rightarrow> x
              | Some r \<Rightarrow>
                  if au_AccessToken r \<noteq> [] \<and> au_UserID r \<noteq> []
                  then x\<lparr>js_token := au_AccessToken r, js_userID := au_UserID r\<rparr> else x))
      else x)"

definition save_session :: "'b adapter \<Rightarrow> string \<Rightarrow> authResult \<Rightarrow> 'b Slot \<Rightarrow> 'b Slot" where
  "save_session A i r s =
     (if ad_vault A then
        (case ad_marshal A r of None \<Rightarrow> s | Some blob \<Rightarrow> s\<lparr>jf_vault := snd (Session_Save i blob (jf_vault s))\<rparr>)
      else s)"

text \<open>A login with the password of the environment, for an account that names one.\<close>

definition login :: "'b adapter \<Rightarrow> string \<Rightarrow> session \<Rightarrow> 'b Slot \<Rightarrow> (jf_error + session) \<times> 'b Slot" where
  "login A i x s =
     (let a = js_account x
      in if ja_password_env a = [] then (Inl (NoSessionError (ja_id a) (ja_username a) (ja_url a)), s)
         else (case authenticate A (ja_url a) (ja_username a) (ad_getenv A (ja_password_env a)) s of
            (Inl e, s') \<Rightarrow> (Inl (JE_login i e), s')
          | (Inr r, s') \<Rightarrow>
              (let y = x\<lparr>js_token := au_AccessToken r, js_userID := au_UserID r\<rparr>
               in (Inr y, save_session A i r (put_session i y s')))))"

definition ensure_with :: "'b adapter \<Rightarrow> string \<Rightarrow> session \<Rightarrow> 'b Slot \<Rightarrow> (jf_error + session) \<times> 'b Slot" where
  "ensure_with A i x s =
     (case (if ja_id (js_account x) = [] then map_err (JE_resolve i) (ad_src A (jf_vault s) i) else Inr (js_account x)) of
        Inl e \<Rightarrow> (Inl e, put_session i x s)
      | Inr a \<Rightarrow>
          (let y = x\<lparr>js_account := a\<rparr>
           in if js_token y = [] then login A i y (put_session i y s) else (Inr y, put_session i y s)))"

definition ensureSession :: "'b adapter \<Rightarrow> string \<Rightarrow> 'b Slot \<Rightarrow> (jf_error + session) \<times> 'b Slot" where
  "ensureSession A i s =
     (case map_of (jf_sessions s) i of
        None \<Rightarrow>
          if i \<notin> set (jf_ids s) then (Inl (JE_unknown i), s)
          else ensure_with A i (restore A s i \<lparr>js_account = no_account, js_token = [], js_userID = []\<rparr>) s
      | Some x \<Rightarrow> ensure_with A i (restore A s i x) s)"

definition invalidate :: "'b adapter \<Rightarrow> string \<Rightarrow> 'b Slot \<Rightarrow> 'b Slot" where
  "invalidate A i s =
     (case map_of (jf_sessions s) i of
        None \<Rightarrow> s
      | Some x \<Rightarrow>
          (let s1 = put_session i (x\<lparr>js_token := []\<rparr>) s
           in if ad_vault A then s1\<lparr>jf_vault := snd (Session_Save i (ad_nil A) (jf_vault s1))\<rparr> else s1))"

text \<open>\<open>Authenticate\<close>, over the ids in any order.\<close>

fun Authenticate :: "'b adapter \<Rightarrow> string list \<Rightarrow> 'b Slot \<Rightarrow> jf_error option \<times> 'b Slot" where
  "Authenticate A [] s = (None, s)"
| "Authenticate A (i # is) s =
     (case ensureSession A i s of
        (Inl e, s') \<Rightarrow> (Some e, s')
      | (Inr _, s') \<Rightarrow> Authenticate A is s')"

definition ProbeCredentials :: "'b adapter \<Rightarrow> string \<Rightarrow> string \<Rightarrow> string \<Rightarrow> (jf_error + 'b) \<times> request list" where
  "ProbeCredentials A url username password =
     (if url = [] \<or> username = [] \<or> password = [] then (Inl JE_request, [])
      else
        let A = A\<lparr>ad_src := \<lambda>_ _. Inr \<lparr>ja_id = ''probe'', ja_url = url, ja_username = username, ja_password_env = []\<rparr>,
                 ad_vault := False\<rparr>
        in (case Slot_New A [''probe''] NewInMemory of
              Inl e \<Rightarrow> (Inl e, [])
            | Inr s \<Rightarrow>
                (case authenticate A url username password s of
                   (Inl e, s') \<Rightarrow> (Inl (JE_probe e), jf_sent s')
                 | (Inr r, s') \<Rightarrow>
                     (case ad_marshal A r of None \<Rightarrow> (Inl JE_decode, jf_sent s') | Some blob \<Rightarrow> (Inr blob, jf_sent s')))))"

subsection \<open>Pages of the catalogue\<close>

definition session_header :: "'b adapter \<Rightarrow> session \<Rightarrow> string" where
  "session_header A x =
     ''MediaBrowser Token='' @ ad_quote A (js_token x) @ '', Client='' @ [quote_char] @ ''ABCMovies'' @ [quote_char]
       @ '', Device='' @ [quote_char] @ ''abcmovies-core'' @ [quote_char] @ '', DeviceId='' @ ad_quote A (ad_deviceID A)
       @ '', Version='' @ [quote_char] @ ''0.0.1'' @ [quote_char]"

definition items_request :: "'b adapter \<Rightarrow> session \<Rightarrow> int \<Rightarrow> request" where
  "items_request A x offset =
     \<lparr>hr_method = GET,
      hr_url = TrimRight_slash (ja_url (js_account x)) @ ''/Items?userId='' @ js_userID x
        @ ''&includeItemTypes=Movie,Series&recursive=true&sortBy=SortName&sortOrder=Ascending&startIndex='' @ Itoa offset
        @ ''&limit='' @ Itoa (int pageSize) @ ''&fields=ProviderIds'',
      hr_authorization = session_header A x, hr_body = []\<rparr>"

definition getItems :: "'b adapter \<Rightarrow> session \<Rightarrow> int \<Rightarrow> 'b Slot \<Rightarrow> (jf_error + itemsPage) \<times> 'b Slot" where
  "getItems A x offset s =
     (case send A (items_request A x offset) s of
        (NetError e, s') \<Rightarrow> (Inl (JE_http e), s')
      | (Reply st body, s') \<Rightarrow>
          if st = 401 then (Inl JE_unauthorized, s')
          else if st \<noteq> 200 then (Inl (JE_status st), s')
          else (case ad_decode_items A body of None \<Rightarrow> (Inl JE_decode, s') | Some p \<Rightarrow> (Inr p, s')))"

text \<open>\<open>fmt.Sscanf\<close> with the format \<open>offset=%d\<close>: spaces before the number are skipped, a line break is an error,
  and what follows the number is not read.\<close>

definition scan_int :: "string \<Rightarrow> int option" where
  "scan_int s =
     (let cs = dropWhile (\<lambda>c. IsSpace (fst c) \<and> fst c \<noteq> 10) (chunks (bytes s)); t = unbytes (concat (map snd cs));
          (sign, ds) = (case t of [] \<Rightarrow> ([], []) | c # r \<Rightarrow> if c = CHR ''-'' \<or> c = CHR ''+'' then ([c], r) else ([], t))
      in Atoi (sign @ takeWhile (\<lambda>c. char_digit c \<noteq> None) ds))"

definition decodePageToken :: "string \<Rightarrow> int option" where
  "decodePageToken token =
     (if token = [] then Some 0
      else if \<not> HasPrefix token ''offset='' then None
      else (case scan_int (TrimPrefix token ''offset='') of
         None \<Rightarrow> None
       | Some n \<Rightarrow> if n < 0 then None else Some n))"

definition provider_ids :: "(string \<Rightarrow> string) \<Rightarrow> (string \<times> string) list \<Rightarrow> ExternalId option list" where
  "provider_ids lower ps =
     map (\<lambda>(ns, v). Some \<lparr>eid_namespace = lower ns, eid_value = v\<rparr>) (filter (\<lambda>(ns, v). v \<noteq> []) ps)"

definition item_kind :: "string \<Rightarrow> ItemKind option" where
  "item_kind t = (if t = ''Movie'' then Some IK_MOVIE else if t = ''Series'' then Some IK_SERIES else None)"

definition to_item :: "(string \<Rightarrow> string) \<Rightarrow> mediaItem \<Rightarrow> CatalogueItem option" where
  "to_item lower it =
     (case item_kind (mi_Type it) of
        None \<Rightarrow> None
      | Some k \<Rightarrow> Some \<lparr>ci_native_id = mi_Id it, ci_kind = k, ci_external_ids = provider_ids lower (mi_ProviderIds it),
          ci_metadata = Some (empty_metadata\<lparr>md_title := mi_Name it,
            md_year := (if mi_ProductionYear it > 0 then of_int (mi_ProductionYear it) else 0)\<rparr>)\<rparr>)"

definition encodePage :: "(string \<Rightarrow> string) \<Rightarrow> int \<Rightarrow> itemsPage \<Rightarrow> CatalogueSyncResponse" where
  "encodePage lower offset page =
     (let items = List.map_filter (to_item lower) (ip_Items page); stop = offset + int (length (ip_Items page))
      in \<lparr>csr_items = map Some items,
          csr_next_page_token = (if stop < ip_TotalRecordCount page \<and> items \<noteq> [] then ''offset='' @ Itoa stop else [])\<rparr>)"

definition syncOnce :: "'b adapter \<Rightarrow> string \<Rightarrow> int \<Rightarrow> 'b Slot \<Rightarrow> (jf_error + itemsPage) \<times> 'b Slot" where
  "syncOnce A i offset s =
     (case ensureSession A i s of
        (Inl e, s') \<Rightarrow> (Inl e, s')
      | (Inr x, s') \<Rightarrow> getItems A x offset s')"

definition CatalogueSync ::
    "'b adapter \<Rightarrow> (string \<Rightarrow> string) \<Rightarrow> string \<Rightarrow> string \<Rightarrow> 'b Slot \<Rightarrow> (jf_error + CatalogueSyncResponse) \<times> 'b Slot" where
  "CatalogueSync A lower i token s =
     (case decodePageToken token of
        None \<Rightarrow> (Inl JE_page_token, s)
      | Some offset \<Rightarrow>
          (case syncOnce A i offset s of
             (Inr page, s1) \<Rightarrow> (Inr (encodePage lower offset page), s1)
           | (Inl e, s1) \<Rightarrow>
               if e \<noteq> JE_unauthorized then (Inl e, s1)
               else (case syncOnce A i offset (invalidate A i s1) of
                  (Inl e', s2) \<Rightarrow> (Inl e', s2)
                | (Inr page, s2) \<Rightarrow> (Inr (encodePage lower offset page), s2))))"

subsection \<open>Playback\<close>

definition playback_request :: "'b adapter \<Rightarrow> session \<Rightarrow> string \<Rightarrow> request" where
  "playback_request A x item =
     \<lparr>hr_method = POST, hr_url = TrimRight_slash (ja_url (js_account x)) @ ''/Items/'' @ item @ ''/PlaybackInfo'',
      hr_authorization = session_header A x,
      hr_body = ''{'' @ [quote_char] @ ''UserId'' @ [quote_char] @ '':'' @ ad_quote A (js_userID x)
        @ '','' @ [quote_char] @ ''DeviceId'' @ [quote_char] @ '':'' @ ad_quote A (ad_deviceID A)
        @ '','' @ [quote_char] @ ''StartTimeTicks'' @ [quote_char] @ '':0}''\<rparr>"

definition stream_url :: "'b adapter \<Rightarrow> session \<Rightarrow> string \<Rightarrow> string \<Rightarrow> string" where
  "stream_url A x item source =
     TrimRight_slash (ja_url (js_account x)) @ ''/Videos/'' @ item @ ''/stream?Static=true&MediaSourceId='' @ source
       @ ''&DeviceId='' @ ad_deviceID A @ ''&api_key='' @ js_token x"

definition playbackInfo :: "'b adapter \<Rightarrow> string \<Rightarrow> string \<Rightarrow> 'b Slot \<Rightarrow> (jf_error + playbackInfoResult) \<times> 'b Slot" where
  "playbackInfo A i item s =
     (case ensureSession A i s of
        (Inl e, s1) \<Rightarrow> (Inl e, s1)
      | (Inr x, s1) \<Rightarrow>
          (case send A (playback_request A x item) s1 of
             (NetError e, s2) \<Rightarrow> (Inl (JE_http e), s2)
           | (Reply st body, s2) \<Rightarrow>
               if st = 401 then (Inl JE_unauthorized, s2)
               else if st \<noteq> 200 then (Inl (JE_status st), s2)
               else (case ad_decode_playback A body of
                  None \<Rightarrow> (Inl JE_decode, s2)
                | Some [] \<Rightarrow> (Inl JE_no_sources, s2)
                | Some (src # _) \<Rightarrow>
                    (Inr \<lparr>pb_Container = mo_Container src, pb_StreamURL = stream_url A x item (mo_Id src),
                          pb_Streams = mo_Streams src\<rparr>, s2))))"

definition carrierID :: string where "carrierID = ''container''"

definition carried :: TrackDelivery where
  "carried = \<lparr>td_locations = [], td_carried_in = carrierID, td_auth_context = [], td_drm = None, td_refresh_path = []\<rparr>"

definition video_of :: "playbackStream \<Rightarrow> VideoTrack" where
  "video_of st = \<lparr>vt_codec = ps_Codec st, vt_bitrate = (if ps_BitRate st > 0 then of_int (ps_BitRate st) else 0),
     vt_width = of_int (ps_Width st), vt_height = of_int (ps_Height st)\<rparr>"

definition language_of :: "playbackStream \<Rightarrow> string" where
  "language_of st = (if ps_Language st = [] then ''und'' else ps_Language st)"

text \<open>The streams from the \<open>i\<close>-th on, with the media of the container track so far.\<close>

fun map_streams :: "nat \<Rightarrow> playbackStream list \<Rightarrow> Media option \<Rightarrow> Media option \<times> Track list" where
  "map_streams i [] media = (media, [])"
| "map_streams i (st # sts) media =
     (if ps_Type st = ''Video'' then map_streams (Suc i) sts (Some (Video (video_of st)))
      else if ps_Type st = ''Audio'' then
        apsnd ((#) \<lparr>tr_id = ''audio-'' @ Itoa (int i), tr_media = Some (Audio \<lparr>at_codec = ps_Codec st, at_bitrate = 0,
            at_language = language_of st, at_channel_layout = ps_ChannelLayout st\<rparr>), tr_delivery = Some carried\<rparr>)
          (map_streams (Suc i) sts media)
      else if ps_Type st = ''Subtitle'' then
        apsnd ((#) \<lparr>tr_id = ''subtitle-'' @ Itoa (int i), tr_media = Some (Subtitle \<lparr>sub_format = ps_Codec st,
            sub_language = language_of st, sub_role = SR_SUBTITLE, sub_forced = ps_IsForced st\<rparr>), tr_delivery = Some carried\<rparr>)
          (map_streams (Suc i) sts media)
      else map_streams (Suc i) sts media)"

definition sourceFromPlayback :: "playbackInfoResult \<Rightarrow> MediaSource" where
  "sourceFromPlayback pb =
     (let (media, tracks) = map_streams 0 (pb_Streams pb) None
      in \<lparr>ms_type = MST_STATIC, ms_seekable = SK_FULL, ms_dvr_window = None, ms_addressable = AD_WHOLE_MUX,
          ms_tracks = map Some (\<lparr>tr_id = carrierID, tr_media = media, tr_delivery = Some \<lparr>td_locations = [pb_StreamURL pb],
            td_carried_in = [], td_auth_context = [], td_drm = None, td_refresh_path = []\<rparr>\<rparr> # tracks)\<rparr>)"

definition ProduceSources :: "'b adapter \<Rightarrow> string \<Rightarrow> string \<Rightarrow> 'b Slot \<Rightarrow> (jf_error + MediaSource) \<times> 'b Slot" where
  "ProduceSources A i item s =
     (if i = [] \<or> item = [] then (Inl JE_request, s)
      else
        (case (case playbackInfo A i item s of
                 (Inl e, s1) \<Rightarrow> if e = JE_unauthorized then playbackInfo A i item (invalidate A i s1) else (Inl e, s1)
               | (Inr pb, s1) \<Rightarrow> (Inr pb, s1)) of
           (Inl e, s2) \<Rightarrow> (Inl e, s2)
         | (Inr pb, s2) \<Rightarrow> (Inr (sourceFromPlayback pb), s2)))"

subsection \<open>The handshake\<close>

definition declaredCadence :: int where "declaredCadence = 6 * 60 * 60 * 1000000000"

definition CapabilityQuery :: "(int \<Rightarrow> string) \<Rightarrow> (string \<times> 32 word) list \<times> (string \<times> string) list" where
  "CapabilityQuery duration_text =
     ([(''meta'', 1), (''browse'', 1), (''produce-sources'', 1)], [(''browse.sync-cadence'', duration_text declaredCadence)])"

subsection \<open>What is sent\<close>

definition is_login :: "request \<Rightarrow> bool" where
  "is_login r \<longleftrightarrow> hr_method r = POST \<and> HasSuffix (hr_url r) ''/Users/AuthenticateByName''"

text \<open>An account the roster never gives a password for: every linked account.\<close>

definition passwordless :: "'b adapter \<Rightarrow> string \<Rightarrow> bool" where
  "passwordless A i \<longleftrightarrow> (\<forall>v a. ad_src A v i = Inr a \<longrightarrow> ja_password_env a = [])"

definition cached_passwordless :: "string \<Rightarrow> 'b Slot \<Rightarrow> bool" where
  "cached_passwordless i s \<longleftrightarrow> (\<forall>x. map_of (jf_sessions s) i = Some x \<longrightarrow> ja_password_env (js_account x) = [])"

text \<open>From one state to a later one, at most \<open>n\<close> requests are sent, none of them a login if \<open>b\<close>.\<close>

definition sends :: "bool \<Rightarrow> nat \<Rightarrow> 'b Slot \<Rightarrow> 'b Slot \<Rightarrow> bool" where
  "sends b n s s' \<longleftrightarrow> (\<exists>rs. jf_sent s' = jf_sent s @ rs \<and> length rs \<le> n \<and> (b \<longrightarrow> (\<forall>r \<in> set rs. \<not> is_login r)))"

lemma sends_refl [simp]: "jf_sent s' = jf_sent s \<Longrightarrow> sends b n s s'"
  by (simp add: sends_def)

lemma sends_trans: "sends b m s t \<Longrightarrow> sends b n t u \<Longrightarrow> sends b (m + n) s u"
  unfolding sends_def by (elim exE conjE) (rule exI, auto)

lemma sends_mono: "sends b m s t \<Longrightarrow> m \<le> n \<Longrightarrow> sends b n s t"
  unfolding sends_def by fastforce

lemma restore_account [simp]: "js_account (restore A s i x) = js_account x"
  by (simp add: restore_def split: sum.split option.split)

lemma put_session_simps [simp]:
  "jf_sent (put_session i x s) = jf_sent s" "jf_vault (put_session i x s) = jf_vault s" "jf_ids (put_session i x s) = jf_ids s"
  "map_of (jf_sessions (put_session i x s)) j = (if j = i then Some x else map_of (jf_sessions s) j)"
  by (simp_all add: put_session_def)

lemma save_session_simps [simp]:
  "jf_sent (save_session A i r s) = jf_sent s" "jf_sessions (save_session A i r s) = jf_sessions s"
  by (simp_all add: save_session_def split: option.split)

lemma authenticate_sends: "authenticate A u n p s = (r, s') \<Longrightarrow> s' = s\<lparr>jf_sent := jf_sent s @ [login_request A u n p]\<rparr>"
  by (auto simp: authenticate_def send_def split: reply.splits if_splits option.splits)

lemma login_sends:
  assumes "login A i x s = (r, s')"
  shows "sends (ja_password_env (js_account x) = []) 1 s s'"
proof (cases "ja_password_env (js_account x) = []")
  case True
  then show ?thesis using assms by (auto simp: login_def Let_def)
next
  case False
  then show ?thesis using assms
    by (auto simp: login_def Let_def sends_def dest!: authenticate_sends split: prod.splits sum.splits)
qed

lemma ensure_with_sends:
  assumes "ensure_with A i x s = (r, s')" and "b \<Longrightarrow> passwordless A i" and "b \<Longrightarrow> ja_password_env (js_account x) = []"
  shows "sends b 1 s s'"
proof (cases "if ja_id (js_account x) = [] then map_err (JE_resolve i) (ad_src A (jf_vault s) i) else Inr (js_account x)")
  case (Inl e)
  then show ?thesis using assms(1) by (auto simp: ensure_with_def)
next
  case (Inr a)
  have pw: "b \<Longrightarrow> ja_password_env a = []"
    using Inr assms(2,3) by (auto simp: passwordless_def split: if_splits)
  show ?thesis
  proof (cases "js_token x = []")
    case True
    then have "login A i (x\<lparr>js_account := a\<rparr>) (put_session i (x\<lparr>js_account := a\<rparr>) s) = (r, s')"
      using assms(1) Inr by (simp add: ensure_with_def Let_def)
    from login_sends [OF this] show ?thesis using pw by (cases b) (auto simp: sends_def)
  next
    case False
    then show ?thesis using assms(1) Inr by (auto simp: ensure_with_def Let_def)
  qed
qed

lemma ensureSession_sends:
  assumes "ensureSession A i s = (r, s')" and "b \<Longrightarrow> passwordless A i" and "b \<Longrightarrow> cached_passwordless i s"
  shows "sends b 1 s s'"
proof (cases "map_of (jf_sessions s) i")
  case None
  let ?x = "restore A s i \<lparr>js_account = no_account, js_token = [], js_userID = []\<rparr>"
  from None have "s' = s \<or> ensure_with A i ?x s = (r, s')" using assms(1) by (auto simp: ensureSession_def split: if_splits)
  moreover have "ja_password_env (js_account ?x) = []" by (simp add: no_account_def)
  ultimately show ?thesis using ensure_with_sends [of A i ?x s r s' b] assms(2) by auto
next
  case (Some x)
  then have "ensure_with A i (restore A s i x) s = (r, s')" using assms(1) by (simp add: ensureSession_def)
  from ensure_with_sends [OF this, of b] show ?thesis using assms(2,3) Some by (auto simp: cached_passwordless_def)
qed

lemma getItems_sends: "getItems A x off s = (r, s') \<Longrightarrow> s' = s\<lparr>jf_sent := jf_sent s @ [items_request A x off]\<rparr>"
  by (auto simp: getItems_def send_def split: reply.splits if_splits option.splits)

lemma items_request_no_login [simp]: "\<not> is_login (items_request A x off)"
  by (simp add: is_login_def items_request_def)

lemma HasSuffix_append_neq: "length p = length q \<Longrightarrow> HasSuffix (u @ p) q \<longleftrightarrow> p = q"
  by (auto simp: HasSuffix_def suffix_def)

lemma playback_request_no_login [simp]: "\<not> is_login (playback_request A x item)"
proof -
  have "\<not> HasSuffix (u @ ''/PlaybackInfo'') ''/Users/AuthenticateByName''" for u
  proof
    assume "HasSuffix (u @ ''/PlaybackInfo'') ''/Users/AuthenticateByName''"
    then have "last (u @ ''/PlaybackInfo'') = last ''/Users/AuthenticateByName''"
      by (auto simp: HasSuffix_def suffix_def)
    then show False by simp
  qed
  from this [of "TrimRight_slash (ja_url (js_account x)) @ ''/Items/'' @ item"] show ?thesis
    by (simp add: is_login_def playback_request_def)
qed

lemma syncOnce_sends:
  assumes "syncOnce A i off s = (r, s')" and "b \<Longrightarrow> passwordless A i" and "b \<Longrightarrow> cached_passwordless i s"
  shows "sends b 2 s s'"
proof -
  obtain y s1 where e: "ensureSession A i s = (y, s1)" by fastforce
  have 1: "sends b 1 s s1" using ensureSession_sends [OF e, of b] assms(2,3) by blast
  show ?thesis
  proof (cases y)
    case (Inl f)
    then show ?thesis using assms(1) e 1 sends_mono [OF 1, of 2] by (simp add: syncOnce_def)
  next
    case (Inr x)
    then have "getItems A x off s1 = (r, s')" using assms(1) e by (simp add: syncOnce_def)
    then have "sends b 1 s1 s'" by (auto simp: sends_def dest: getItems_sends)
    from sends_trans [OF 1 this] show ?thesis by (simp add: numeral_2_eq_2)
  qed
qed

lemma playbackInfo_sends:
  assumes "playbackInfo A i item s = (r, s')" and "b \<Longrightarrow> passwordless A i" and "b \<Longrightarrow> cached_passwordless i s"
  shows "sends b 2 s s'"
proof -
  obtain y s1 where e: "ensureSession A i s = (y, s1)" by fastforce
  have 1: "sends b 1 s s1" using ensureSession_sends [OF e, of b] assms(2,3) by blast
  show ?thesis
  proof (cases y)
    case (Inl f)
    then show ?thesis using assms(1) e 1 sends_mono [OF 1, of 2] by (simp add: playbackInfo_def)
  next
    case (Inr x)
    then have "s' = snd (send A (playback_request A x item) s1)" using assms(1) e
      by (auto simp: playbackInfo_def split: prod.splits reply.splits if_splits option.splits list.splits)
    then have "sends b 1 s1 s'" by (auto simp: sends_def send_def)
    from sends_trans [OF 1 this] show ?thesis by (simp add: numeral_2_eq_2)
  qed
qed

subsection \<open>What is cached\<close>

lemma login_cached:
  assumes "login A j x s = (r, s')" and "cached_passwordless i s" and "j = i \<Longrightarrow> ja_password_env (js_account x) = []"
  shows "cached_passwordless i s'"
proof (cases "ja_password_env (js_account x) = []")
  case True
  then show ?thesis using assms(1,2) by (auto simp: login_def Let_def)
next
  case False
  then show ?thesis using assms
    by (auto simp: login_def Let_def cached_passwordless_def dest!: authenticate_sends split: prod.splits sum.splits if_splits)
qed

lemma ensure_with_cached:
  assumes "ensure_with A j x s = (r, s')" and "passwordless A i" and "cached_passwordless i s"
    and "j = i \<Longrightarrow> ja_password_env (js_account x) = []"
  shows "cached_passwordless i s'"
proof (cases "if ja_id (js_account x) = [] then map_err (JE_resolve j) (ad_src A (jf_vault s) j) else Inr (js_account x)")
  case (Inl e)
  then show ?thesis using assms(1,3,4) by (auto simp: ensure_with_def cached_passwordless_def split: if_splits)
next
  case (Inr a)
  have pw: "j = i \<Longrightarrow> ja_password_env a = []" using Inr assms(2,4) by (auto simp: passwordless_def split: if_splits)
  then have c: "cached_passwordless i (put_session j (x\<lparr>js_account := a\<rparr>) s)"
    using assms(3) by (auto simp: cached_passwordless_def split: if_splits)
  show ?thesis
  proof (cases "js_token x = []")
    case True
    then have "login A j (x\<lparr>js_account := a\<rparr>) (put_session j (x\<lparr>js_account := a\<rparr>) s) = (r, s')"
      using assms(1) Inr by (simp add: ensure_with_def Let_def)
    from login_cached [OF this c] show ?thesis using pw by simp
  next
    case False
    then show ?thesis using assms(1) Inr c by (auto simp: ensure_with_def Let_def)
  qed
qed

lemma ensureSession_cached:
  assumes "ensureSession A j s = (r, s')" and "passwordless A i" and "cached_passwordless i s"
  shows "cached_passwordless i s'"
proof (cases "map_of (jf_sessions s) j")
  case None
  let ?x = "restore A s j \<lparr>js_account = no_account, js_token = [], js_userID = []\<rparr>"
  from None have "s' = s \<or> ensure_with A j ?x s = (r, s')" using assms(1) by (auto simp: ensureSession_def split: if_splits)
  moreover have "ja_password_env (js_account ?x) = []" by (simp add: no_account_def)
  ultimately show ?thesis using ensure_with_cached [of A j ?x s r s' i] assms(2,3) by auto
next
  case (Some x)
  then have "ensure_with A j (restore A s j x) s = (r, s')" using assms(1) by (simp add: ensureSession_def)
  moreover have "j = i \<Longrightarrow> ja_password_env (js_account (restore A s j x)) = []"
    using assms(3) Some by (simp add: cached_passwordless_def)
  ultimately show ?thesis using ensure_with_cached [OF _ assms(2,3)] by blast
qed

lemma invalidate_cached: "cached_passwordless i s \<Longrightarrow> cached_passwordless i (invalidate A j s)"
  by (auto simp: invalidate_def Let_def cached_passwordless_def split: option.split)

lemma invalidate_sent [simp]: "jf_sent (invalidate A j s) = jf_sent s"
  by (simp add: invalidate_def Let_def split: option.split)

lemma syncOnce_cached:
  assumes "syncOnce A j off s = (r, s')" and "passwordless A i" and "cached_passwordless i s"
  shows "cached_passwordless i s'"
proof -
  obtain y s1 where e: "ensureSession A j s = (y, s1)" by fastforce
  have c: "cached_passwordless i s1" by (rule ensureSession_cached [OF e assms(2,3)])
  have "jf_sessions s' = jf_sessions s1" using assms(1) e by (cases y) (auto simp: syncOnce_def dest: getItems_sends)
  then show ?thesis using c by (simp add: cached_passwordless_def)
qed

lemma playbackInfo_cached:
  assumes "playbackInfo A j item s = (r, s')" and "passwordless A i" and "cached_passwordless i s"
  shows "cached_passwordless i s'"
proof -
  obtain y s1 where e: "ensureSession A j s = (y, s1)" by fastforce
  have c: "cached_passwordless i s1" by (rule ensureSession_cached [OF e assms(2,3)])
  have "jf_sessions s' = jf_sessions s1" using assms(1) e
    by (auto simp: playbackInfo_def send_def split: sum.splits reply.splits if_splits option.splits list.splits)
  then show ?thesis using c by (simp add: cached_passwordless_def)
qed

subsection \<open>The life of a slot\<close>

text \<open>What happens to a slot: its own methods, and writes of the core to the vault.\<close>

inductive slot_step :: "'b adapter \<Rightarrow> 'b Slot \<Rightarrow> 'b Slot \<Rightarrow> bool" for A where
  sync: "slot_step A s (snd (CatalogueSync A lower i token s))"
| produce: "slot_step A s (snd (ProduceSources A i item s))"
| add: "slot_step A s (snd (AddAccount A i s))"
| drop_account: "slot_step A s (DropAccount i s)"
| login_all: "slot_step A s (snd (Authenticate A is s))"
| vault: "slot_step A s (s\<lparr>jf_vault := v\<rparr>)"

lemma CatalogueSync_cases:
  assumes "CatalogueSync A lower i token s = (r, s')"
  obtains "s' = s" "r = Inl JE_page_token"
  | off y where "decodePageToken token = Some off" "syncOnce A i off s = (y, s')" "y \<noteq> Inl JE_unauthorized"
      "r = map_sum id (encodePage lower off) y"
  | off s1 y where "decodePageToken token = Some off" "syncOnce A i off s = (Inl JE_unauthorized, s1)"
      "syncOnce A i off (invalidate A i s1) = (y, s')" "r = map_sum id (encodePage lower off) y"
proof (cases "decodePageToken token")
  case None
  then show ?thesis using assms that(1) by (simp add: CatalogueSync_def)
next
  case (Some off)
  obtain y s1 where y: "syncOnce A i off s = (y, s1)" by fastforce
  show ?thesis
  proof (cases "y = Inl JE_unauthorized")
    case True
    obtain z s2 where z: "syncOnce A i off (invalidate A i s1) = (z, s2)" by fastforce
    then have "s2 = s'" "r = map_sum id (encodePage lower off) z"
      using assms Some y True by (cases z; simp add: CatalogueSync_def)+
    with z True y Some that(3) show ?thesis by blast
  next
    case False
    then have "s1 = s'" "r = map_sum id (encodePage lower off) y"
      using assms Some y by (cases y; simp add: CatalogueSync_def)+
    with False y Some that(2) show ?thesis by blast
  qed
qed

lemma ProduceSources_cases:
  assumes "ProduceSources A i item s = (r, s')"
  obtains "s' = s" "r = Inl JE_request"
  | y where "playbackInfo A i item s = (y, s')" "y \<noteq> Inl JE_unauthorized" "r = map_sum id sourceFromPlayback y"
  | s1 y where "playbackInfo A i item s = (Inl JE_unauthorized, s1)"
      "playbackInfo A i item (invalidate A i s1) = (y, s')" "r = map_sum id sourceFromPlayback y"
proof (cases "i = [] \<or> item = []")
  case True
  then show ?thesis using assms that(1) by (simp add: ProduceSources_def)
next
  case False
  obtain y s1 where y: "playbackInfo A i item s = (y, s1)" by fastforce
  show ?thesis
  proof (cases "y = Inl JE_unauthorized")
    case True
    obtain z s2 where z: "playbackInfo A i item (invalidate A i s1) = (z, s2)" by fastforce
    then have "s2 = s'" "r = map_sum id sourceFromPlayback z"
      using assms False y True by (cases z; simp add: ProduceSources_def)+
    with z True y that(3) show ?thesis by blast
  next
    case ne: False
    then have "s1 = s'" "r = map_sum id sourceFromPlayback y"
      using assms False y by (cases y; simp add: ProduceSources_def)+
    with ne y that(2) show ?thesis by blast
  qed
qed

lemma CatalogueSync_cached:
  assumes "passwordless A i" and "cached_passwordless i s" and "CatalogueSync A lower j token s = (r, s')"
  shows "cached_passwordless i s'"
  using assms(3)
proof (cases rule: CatalogueSync_cases)
  case 1
  then show ?thesis using assms(2) by simp
next
  case (2 off y)
  then show ?thesis using syncOnce_cached assms(1,2) by blast
next
  case (3 off s1 y)
  then show ?thesis using syncOnce_cached invalidate_cached assms(1,2) by blast
qed

lemma ProduceSources_cached:
  assumes "passwordless A i" and "cached_passwordless i s" and "ProduceSources A j item s = (r, s')"
  shows "cached_passwordless i s'"
  using assms(3)
proof (cases rule: ProduceSources_cases)
  case 1
  then show ?thesis using assms(2) by simp
next
  case (2 y)
  then show ?thesis using playbackInfo_cached assms(1,2) by blast
next
  case (3 s1 y)
  then show ?thesis using playbackInfo_cached invalidate_cached assms(1,2) by blast
qed

lemma Authenticate_cached:
  "passwordless A i \<Longrightarrow> cached_passwordless i s \<Longrightarrow> cached_passwordless i (snd (Authenticate A is s))"
proof (induction "is" arbitrary: s)
  case (Cons j js)
  obtain y s1 where e: "ensureSession A j s = (y, s1)" by fastforce
  have "cached_passwordless i s1" by (rule ensureSession_cached [OF e Cons.prems])
  then show ?case using e Cons.IH [OF Cons.prems(1)] by (cases y) simp_all
qed simp

lemma slot_step_cached:
  assumes "slot_step A s s'" and "passwordless A i" and "cached_passwordless i s"
  shows "cached_passwordless i s'"
  using assms(1)
proof cases
  case (sync lower j token)
  then show ?thesis using CatalogueSync_cached [OF assms(2,3)] by (metis prod.collapse)
next
  case (produce j item)
  then show ?thesis using ProduceSources_cached [OF assms(2,3)] by (metis prod.collapse)
next
  case (add j)
  then show ?thesis using assms(3) by (auto simp: AddAccount_def cached_passwordless_def split: option.splits)
next
  case (drop_account j)
  then show ?thesis using assms(3) by (auto simp: DropAccount_def cached_passwordless_def)
next
  case (login_all js)
  then show ?thesis using Authenticate_cached [OF assms(2,3)] by simp
next
  case (vault v)
  then show ?thesis using assms(3) by (simp add: cached_passwordless_def)
qed

lemma slot_reachable_cached:
  assumes "(slot_step A)\<^sup>*\<^sup>* s0 s" and "passwordless A i" and "jf_sessions s0 = []"
  shows "cached_passwordless i s"
  using assms(1)
proof (induction rule: rtranclp_induct)
  case base
  then show ?case using assms(3) by (simp add: cached_passwordless_def)
next
  case (step y z)
  then show ?case using slot_step_cached [OF step(2) assms(2)] by blast
qed

text \<open>C32: An account the roster gives no password for is never logged in to: whatever has happened to the
  slot, a sync or a playback of the account sends no login, and one of any account sends at most four
  requests, two attempts with a login each.\<close>
theorem linked_never_logs_in:
  assumes "(slot_step A)\<^sup>*\<^sup>* s0 s" and "jf_sessions s0 = []"
    and "CatalogueSync A lower i token s = (r, s1)" and "ProduceSources A i item s = (r', s2)"
  shows "sends (passwordless A i) 4 s s1 \<and> sends (passwordless A i) 4 s s2"
proof
  let ?b = "passwordless A i"
  have c: "?b \<Longrightarrow> cached_passwordless i s" using slot_reachable_cached [OF assms(1) _ assms(2)] by blast
  show "sends ?b 4 s s1"
    using assms(3)
  proof (cases rule: CatalogueSync_cases)
    case (2 off y)
    then show ?thesis using syncOnce_sends [OF 2(2), of ?b] c sends_mono [of ?b 2 s s1 4] by auto
  next
    case (3 off t y)
    have "sends ?b 2 s t" using syncOnce_sends [OF 3(2), of ?b] c by blast
    moreover have "?b \<Longrightarrow> cached_passwordless i (invalidate A i t)" using syncOnce_cached [OF 3(2)] c invalidate_cached by blast
    then have "sends ?b 2 (invalidate A i t) s1" using syncOnce_sends [OF 3(3), of ?b] by blast
    then have "sends ?b 2 t s1" by (simp add: sends_def)
    ultimately show ?thesis using sends_trans by fastforce
  qed simp
  show "sends ?b 4 s s2"
    using assms(4)
  proof (cases rule: ProduceSources_cases)
    case (2 y)
    then show ?thesis using playbackInfo_sends [OF 2(1), of ?b] c sends_mono [of ?b 2 s s2 4] by auto
  next
    case (3 t y)
    have "sends ?b 2 s t" using playbackInfo_sends [OF 3(1), of ?b] c by blast
    moreover have "?b \<Longrightarrow> cached_passwordless i (invalidate A i t)" using playbackInfo_cached [OF 3(1)] c invalidate_cached by blast
    then have "sends ?b 2 (invalidate A i t) s2" using playbackInfo_sends [OF 3(2), of ?b] by blast
    then have "sends ?b 2 t s2" by (simp add: sends_def)
    ultimately show ?thesis using sends_trans by fastforce
  qed simp
qed

subsection \<open>A dead session\<close>

lemma ensure_live:
  assumes "map_of (jf_sessions s) i = Some x" and "js_token x \<noteq> []" and "ja_id (js_account x) \<noteq> []"
  shows "ensureSession A i s = (Inr x, put_session i x s)"
  using assms by (simp add: ensureSession_def restore_def ensure_with_def Let_def)

lemma ensure_dead:
  assumes "map_of (jf_sessions s) i = Some x" and "js_token x = []" and "ja_id (js_account x) \<noteq> []"
    and "ja_password_env (js_account x) = []"
    and "ad_vault A \<Longrightarrow> \<exists>b. Session_Load (jf_vault s) i = Inr b \<and> ad_len A b = 0"
  shows "ensureSession A i s = (Inl (NoSessionError (ja_id (js_account x)) (ja_username (js_account x)) (ja_url (js_account x))),
           put_session i x s)"
proof -
  have "restore A s i x = x" using assms(2,5) by (auto simp: restore_def)
  then show ?thesis using assms(1-4) by (simp add: ensureSession_def ensure_with_def login_def Let_def)
qed

definition no_session :: "session \<Rightarrow> jf_error" where
  "no_session x = NoSessionError (ja_id (js_account x)) (ja_username (js_account x)) (ja_url (js_account x))"

text \<open>When the server refuses the token of an account without a password, the session is dead until the user links
  the account again: the sync answers the typed error after the one request that was refused, the
  token is gone from the cache and from the vault, and every later sync or playback answers the
  same error without a request.\<close>
theorem dead_session_needs_relink:
  assumes x: "map_of (jf_sessions s) i = Some x" "js_token x \<noteq> []" "ja_id (js_account x) \<noteq> []"
      "ja_password_env (js_account x) = []"
    and vault: "Store_ok (jf_vault s)" "ad_len A (ad_nil A) = 0"
    and token: "decodePageToken token = Some off"
    and refused: "ad_http A (jf_sent s @ [items_request A x off]) = Reply 401 body"
  shows "\<exists>s'. CatalogueSync A lower i token s = (Inl (no_session x), s') \<and> jf_sent s' = jf_sent s @ [items_request A x off]
     \<and> (ad_vault A \<longrightarrow> Session_Load (jf_vault s') i = Inr (ad_nil A))
     \<and> (\<forall>token'. decodePageToken token' \<noteq> None \<longrightarrow>
          (\<exists>t. CatalogueSync A lower i token' s' = (Inl (no_session x), t) \<and> jf_sent t = jf_sent s'))
     \<and> (\<forall>item. i \<noteq> [] \<longrightarrow> item \<noteq> [] \<longrightarrow>
          (\<exists>t. ProduceSources A i item s' = (Inl (no_session x), t) \<and> jf_sent t = jf_sent s'))"
proof -
  let ?y = "x\<lparr>js_token := []\<rparr>"
  define s1 where "s1 = (put_session i x s)\<lparr>jf_sent := jf_sent s @ [items_request A x off]\<rparr>"
  define s2 where "s2 = invalidate A i s1"
  have once: "syncOnce A i off s = (Inl JE_unauthorized, s1)"
    using refused by (simp add: syncOnce_def ensure_live [OF x(1-3)] getItems_def send_def s1_def)
  have ses1: "map_of (jf_sessions s1) i = Some x" "jf_vault s1 = jf_vault s"
    by (simp_all add: s1_def put_session_def)
  have s2: "map_of (jf_sessions s2) i = Some ?y" "jf_sent s2 = jf_sent s1"
    "jf_vault s2 = (if ad_vault A then snd (Session_Save i (ad_nil A) (jf_vault s)) else jf_vault s)"
    by (simp_all add: s2_def invalidate_def Let_def ses1 put_session_def)
  obtain v where v: "Session_Save i (ad_nil A) (jf_vault s) = (Inr (), v)" "Store_ok v"
    "view v = (view (jf_vault s))(i \<mapsto> ad_nil A)" using Session_Save_view [OF vault(1)] by blast
  have gone: "Session_Load (jf_vault s2) i = Inr (ad_nil A)" if "ad_vault A"
    using that s2(3) v by (simp add: Session_Load_view)
  have dead: "ensureSession A i t = (Inl (no_session x), put_session i ?y t)"
    if "map_of (jf_sessions t) i = Some ?y" "jf_vault t = jf_vault s2" for t
    using ensure_dead [of t i ?y A] that x(3,4) gone vault(2) by (simp add: no_session_def)
  have ne: "no_session x \<noteq> JE_unauthorized" by (simp add: no_session_def)
  define s' where "s' = put_session i ?y s2"
  have s': "map_of (jf_sessions s') i = Some ?y" "jf_vault s' = jf_vault s2" "jf_sent s' = jf_sent s2"
    by (simp_all add: s'_def)
  have run: "CatalogueSync A lower i token s = (Inl (no_session x), s')"
    using token once dead [OF s2(1) refl] by (simp add: CatalogueSync_def syncOnce_def s2_def [symmetric] s'_def)
  have later: "\<exists>t. CatalogueSync A lower i token' s' = (Inl (no_session x), t) \<and> jf_sent t = jf_sent s'"
    if "decodePageToken token' \<noteq> None" for token'
    using that dead [OF s'(1,2)] ne by (auto simp: CatalogueSync_def syncOnce_def)
  have "\<exists>t. ProduceSources A i item s' = (Inl (no_session x), t) \<and> jf_sent t = jf_sent s'" if "i \<noteq> []" "item \<noteq> []" for item
    using that dead [OF s'(1,2)] ne by (simp add: ProduceSources_def playbackInfo_def)
  then show ?thesis
    using run s' s2(2) gone later by (intro exI [of _ s']) (simp add: s1_def)
qed

subsection \<open>Playback sources\<close>

lemma map_streams_media: "fst (map_streams i sts m) \<noteq> None \<longleftrightarrow> m \<noteq> None \<or> (\<exists>st \<in> set sts. ps_Type st = ''Video'')"
  by (induction i sts m rule: map_streams.induct) auto

text \<open>The tracks beside the container: each with an id of its own, with media, and carried in the container.\<close>

definition stream_track :: "nat \<Rightarrow> Track \<Rightarrow> bool" where
  "stream_track i t \<longleftrightarrow> (\<exists>j \<ge> i. tr_id t = ''audio-'' @ Itoa (int j) \<or> tr_id t = ''subtitle-'' @ Itoa (int j))
     \<and> tr_delivery t = Some carried
     \<and> (case tr_media t of None \<Rightarrow> False | Some (Subtitle u) \<Rightarrow> sub_role u = SR_SUBTITLE | Some _ \<Rightarrow> True)"

lemma stream_track_later: "stream_track j t \<Longrightarrow> i \<le> j \<Longrightarrow> stream_track i t"
  unfolding stream_track_def using order_trans by blast

lemma Itoa_nat_eq: "Itoa (int i) = Itoa (int j) \<longleftrightarrow> i = j"
  by (metis Itoa_inj of_nat_eq_iff)

lemma stream_id_new:
  assumes "stream_track (Suc i) t"
  shows "tr_id t \<noteq> ''audio-'' @ Itoa (int i) \<and> tr_id t \<noteq> ''subtitle-'' @ Itoa (int i)"
  using assms by (auto simp: stream_track_def Itoa_nat_eq)

lemma map_streams_video: "fst (map_streams i sts m) = m \<or> (\<exists>v. fst (map_streams i sts m) = Some (Video v))"
  by (induction i sts m rule: map_streams.induct) auto

definition stream_tracks :: "nat \<Rightarrow> Track list \<Rightarrow> bool" where
  "stream_tracks i ts \<longleftrightarrow> (\<forall>t \<in> set ts. stream_track i t) \<and> distinct (map tr_id ts)"

lemma stream_tracks_later: "stream_tracks (Suc i) ts \<Longrightarrow> stream_tracks i ts"
  by (simp add: stream_tracks_def stream_track_later [of "Suc i"])

lemma stream_tracks_Cons:
  assumes "stream_tracks (Suc i) ts" and "tr_id t = ''audio-'' @ Itoa (int i) \<or> tr_id t = ''subtitle-'' @ Itoa (int i)"
    and "tr_delivery t = Some carried" and "case tr_media t of None \<Rightarrow> False | Some (Subtitle u) \<Rightarrow> sub_role u = SR_SUBTITLE | Some _ \<Rightarrow> True"
  shows "stream_tracks i (t # ts)"
proof -
  have "stream_track i t" using assms(2-4) by (auto simp: stream_track_def)
  moreover have "tr_id t \<notin> tr_id ` set ts" using assms(1,2) stream_id_new by (fastforce simp: stream_tracks_def)
  ultimately show ?thesis using stream_tracks_later [OF assms(1)] by (simp add: stream_tracks_def)
qed

lemma map_streams_tracks: "stream_tracks i (snd (map_streams i sts m))"
proof (induction i sts m rule: map_streams.induct)
  case (1 i m)
  then show ?case by (simp add: stream_tracks_def)
next
  case (2 i st sts m)
  consider "ps_Type st = ''Video''" | "ps_Type st \<noteq> ''Video''" "ps_Type st = ''Audio''"
    | "ps_Type st \<noteq> ''Video''" "ps_Type st \<noteq> ''Audio''" "ps_Type st = ''Subtitle''"
    | "ps_Type st \<noteq> ''Video''" "ps_Type st \<noteq> ''Audio''" "ps_Type st \<noteq> ''Subtitle''" by blast
  then show ?case
  proof cases
    case 1
    then show ?thesis using stream_tracks_later [OF 2(1)] by simp
  next
    case 2: 2
    then show ?thesis using "2.IH"(2) by (auto intro!: stream_tracks_Cons)
  next
    case 3
    then show ?thesis using "2.IH"(3) by (auto intro!: stream_tracks_Cons)
  next
    case 4
    then show ?thesis using stream_tracks_later [OF "2.IH"(4)] by simp
  qed
qed

text \<open>The manifest built from playback information passes the contract of the engine exactly when one of the
  streams is video; whatever the streams are, its tracks have distinct ids, and every audio and subtitle
  track is carried in the container track, whose only location is the stream's address.\<close>
theorem sourceFromPlayback_valid:
  "(ValidateMediaSource (Some (sourceFromPlayback pb)) = None \<longleftrightarrow> (\<exists>st \<in> set (pb_Streams pb). ps_Type st = ''Video''))
   \<and> distinct (map GetTrackId (ms_tracks (sourceFromPlayback pb)))
   \<and> (\<exists>c ts. ms_tracks (sourceFromPlayback pb) = Some c # map Some ts \<and> tr_id c = carrierID
        \<and> get_or [] td_locations (tr_delivery c) = [pb_StreamURL pb]
        \<and> (\<forall>t \<in> set ts. get_or [] td_carried_in (tr_delivery t) = carrierID \<and> get_or [] td_locations (tr_delivery t) = []))"
proof -
  obtain media ts where m: "map_streams 0 (pb_Streams pb) None = (media, ts)" by fastforce
  define c where "c = \<lparr>tr_id = carrierID, tr_media = media, tr_delivery = Some \<lparr>td_locations = [pb_StreamURL pb],
            td_carried_in = [], td_auth_context = [], td_drm = None, td_refresh_path = []\<rparr>\<rparr>"
  have src: "sourceFromPlayback pb = \<lparr>ms_type = MST_STATIC, ms_seekable = SK_FULL, ms_dvr_window = None,
      ms_addressable = AD_WHOLE_MUX, ms_tracks = Some c # map Some ts\<rparr>"
    by (simp add: sourceFromPlayback_def m c_def)
  have tr: "\<forall>t \<in> set ts. stream_track 0 t" "distinct (map tr_id ts)"
    using map_streams_tracks [of 0 "pb_Streams pb" None] m by (simp_all add: stream_tracks_def)
  have media: "media \<noteq> None \<longleftrightarrow> (\<exists>st \<in> set (pb_Streams pb). ps_Type st = ''Video'')"
    "media = None \<or> (\<exists>v. media = Some (Video v))"
    using map_streams_media [of 0 "pb_Streams pb" None] map_streams_video [of 0 "pb_Streams pb" None] m by simp_all
  have id: "carrierID \<notin> tr_id ` set ts" using tr(1) by (force simp: stream_track_def carrierID_def)
  have d: "distinct (map GetTrackId (Some c # map Some ts))" using id tr(2) by (simp add: c_def comp_def)
  have wf: "track_wf AD_WHOLE_MUX (GetTrackId ` set (Some c # map Some ts)) t" if "t \<in> set ts" for t
  proof -
    have st: "stream_track 0 t" using tr(1) that by blast
    have ne: "tr_id t \<noteq> carrierID" using id that by (metis imageI)
    have "tr_id t \<noteq> []" using st by (auto simp: stream_track_def)
    moreover have "carrierID \<in> GetTrackId ` set (Some c # map Some ts)" by (simp add: c_def)
    ultimately show ?thesis using st ne
      by (auto simp: track_wf_def stream_track_def delivery_reachable_def carried_def carrierID_def split: option.splits Media.splits)
  qed
  have cw: "track_wf AD_WHOLE_MUX I c \<longleftrightarrow> media \<noteq> None" for I
    using media(2) by (auto simp: track_wf_def c_def carrierID_def delivery_reachable_def)
  have "media_source_wf (sourceFromPlayback pb) \<longleftrightarrow> media \<noteq> None"
    using d wf cw by (auto simp: media_source_wf_def src locates_def c_def)
  moreover have "\<forall>t \<in> set ts. get_or [] td_carried_in (tr_delivery t) = carrierID \<and> get_or [] td_locations (tr_delivery t) = []"
    using tr(1) by (auto simp: stream_track_def carried_def)
  moreover have "tr_id c = carrierID" "get_or [] td_locations (tr_delivery c) = [pb_StreamURL pb]" by (simp_all add: c_def)
  ultimately show ?thesis using d media(1) unfolding ValidateMediaSource_wf_iff src by auto
qed

subsection \<open>Page tokens\<close>

lemma scan_int_Itoa:
  assumes "n < 2 ^ 63"
  shows "scan_int (Itoa (int n)) = Some (int n)"
proof -
  let ?s = "nat_digits n"
  have s: "Itoa (int n) = ?s" by (simp add: Itoa_def)
  have dig: "char_digit c \<noteq> None \<and> of_char c < (128 :: nat) \<and> \<not> IsSpace (of_char c)" if "c \<in> set ?s" for c
  proof -
    note c = that
    obtain d where d: "d < 10" "c = digit_char d" using nat_digits_chars [OF c] by blast
    then have "of_char c = 48 + d" by (simp add: digit_char_def)
    with d show ?thesis by (auto simp: IsSpace_def)
  qed
  have ch: "chunks (bytes ?s) = map (\<lambda>b. (b, [b])) (bytes ?s)"
    using dig by (intro chunks_ascii) (auto simp: bytes_def)
  have "\<forall>b \<in> set (bytes ?s). \<not> IsSpace b" using dig by (auto simp: bytes_def)
  then have "\<forall>c \<in> set (chunks (bytes ?s)). \<not> IsSpace (fst c)" unfolding ch by auto
  then have "dropWhile (\<lambda>c. IsSpace (fst c) \<and> fst c \<noteq> 10) (chunks (bytes ?s)) = chunks (bytes ?s)"
    by (cases "chunks (bytes ?s)") auto
  then have t: "unbytes (concat (map snd (dropWhile (\<lambda>c. IsSpace (fst c) \<and> fst c \<noteq> 10) (chunks (bytes ?s))))) = ?s"
    by (simp add: chunks_concat)
  obtain d ds where d: "d < 10" "?s = digit_char d # ds" using nat_digits_Cons by blast
  have "takeWhile (\<lambda>c. char_digit c \<noteq> None) ?s = ?s" using dig by (simp add: takeWhile_eq_all_conv)
  moreover have "Atoi ?s = Some (int n)" using Atoi_Itoa [of "int n"] assms s by simp
  ultimately show ?thesis
    using digit_char_sign [OF d(1)] d(2) unfolding scan_int_def s t Let_def by simp
qed

definition offset_token :: "nat \<Rightarrow> string" where "offset_token n = ''offset='' @ Itoa (int n)"

lemma page_token_ne [simp]: "offset_token n \<noteq> []"
  by (simp add: offset_token_def)

lemma decodePageToken_Itoa: "n < 2 ^ 63 \<Longrightarrow> decodePageToken (offset_token n) = Some (int n)"
proof -
  assume n: "n < 2 ^ 63"
  have "HasPrefix (offset_token n) ''offset=''" unfolding offset_token_def by (rule HasPrefix_append)
  moreover have "TrimPrefix (offset_token n) ''offset='' = Itoa (int n)" unfolding offset_token_def by (rule TrimPrefix_append)
  ultimately show ?thesis unfolding decodePageToken_def using scan_int_Itoa [OF n] by simp
qed

subsection \<open>The catalogue of a library\<close>

text \<open>What \<open>CatalogueSync\<close> answers when it succeeds.\<close>

lemma syncOnce_answer:
  assumes "syncOnce A i off s = (Inr page, s')"
  shows "\<exists>x body. last (jf_sent s') = items_request A x off \<and> ad_http A (jf_sent s') = Reply 200 body
    \<and> ad_decode_items A body = Some page"
proof -
  obtain y s1 where e: "ensureSession A i s = (y, s1)" by fastforce
  with assms obtain x where "getItems A x off s1 = (Inr page, s')" by (cases y) (auto simp: syncOnce_def)
  then show ?thesis by (auto simp: getItems_def send_def split: reply.splits if_splits option.splits)
qed

lemma CatalogueSync_answer:
  assumes "CatalogueSync A lower i token s = (Inr resp, s')"
  shows "\<exists>off page x body. decodePageToken token = Some off \<and> resp = encodePage lower off page
    \<and> last (jf_sent s') = items_request A x off \<and> ad_http A (jf_sent s') = Reply 200 body \<and> ad_decode_items A body = Some page"
  using assms
proof (cases rule: CatalogueSync_cases)
  case (2 off y)
  then obtain page where "y = Inr page" "resp = encodePage lower off page" by (cases y) auto
  then show ?thesis using 2(1) syncOnce_answer [of A i off s page s'] 2(2) by blast
next
  case (3 off s1 y)
  then obtain page where "y = Inr page" "resp = encodePage lower off page" by (cases y) auto
  then show ?thesis using 3(1) syncOnce_answer [of A i off "invalidate A i s1" page s'] 3(3) by blast
qed auto

text \<open>A library as the server lists it, and items that the contract accepts.\<close>

definition listing_page :: "mediaItem list \<Rightarrow> int \<Rightarrow> itemsPage" where
  "listing_page L offset = \<lparr>ip_Items = take pageSize (drop (nat offset) L), ip_TotalRecordCount = int (length L)\<rparr>"

definition well_named :: "(string \<Rightarrow> string) \<Rightarrow> mediaItem list \<Rightarrow> bool" where
  "well_named lower L \<longleftrightarrow> distinct (map mi_Id L)
     \<and> (\<forall>it \<in> set L. item_kind (mi_Type it) \<noteq> None \<and> mi_Id it \<noteq> [] \<and> mi_Name it \<noteq> []
          \<and> (\<forall>(ns, v) \<in> set (mi_ProviderIds it). v \<noteq> [] \<longrightarrow> lower ns \<noteq> []))"

lemma well_named_sub: "well_named lower L \<Longrightarrow> set M \<subseteq> set L \<Longrightarrow> distinct (map mi_Id M) \<Longrightarrow> well_named lower M"
  unfolding well_named_def by blast

definition catalogue_items :: "(string \<Rightarrow> string) \<Rightarrow> mediaItem list \<Rightarrow> CatalogueItem list" where
  "catalogue_items lower L = List.map_filter (to_item lower) L"

lemma catalogue_items_append [simp]: "catalogue_items lower (L @ M) = catalogue_items lower L @ catalogue_items lower M"
  by (simp add: catalogue_items_def List.map_filter_def)

lemma to_item_ok:
  assumes "well_named lower L" and "it \<in> set L"
  shows "\<exists>i. to_item lower it = Some i \<and> ci_native_id i = mi_Id it \<and> ValidateCatalogueItem (Some i) = None"
proof -
  obtain k where k: "item_kind (mi_Type it) = Some k" using assms by (auto simp: well_named_def)
  then have "k \<noteq> IK_UNSPECIFIED" by (auto simp: item_kind_def split: if_splits)
  moreover have "\<forall>(ns, v) \<in> set (mi_ProviderIds it). v \<noteq> [] \<longrightarrow> lower ns \<noteq> []" "mi_Id it \<noteq> []" "mi_Name it \<noteq> []"
    using assms by (auto simp: well_named_def)
  ultimately show ?thesis
    using k by (auto simp: to_item_def ValidateCatalogueItem_iff provider_ids_def)
qed

lemma catalogue_items_ids: "well_named lower L \<Longrightarrow> map ci_native_id (catalogue_items lower L) = map mi_Id L"
proof (induction L)
  case (Cons it L)
  then have "well_named lower L" using well_named_sub [OF Cons.prems, of L] by (auto simp: well_named_def)
  moreover obtain i where "to_item lower it = Some i" "ci_native_id i = mi_Id it"
    using to_item_ok [OF Cons.prems, of it] by auto
  ultimately show ?case using Cons.IH by (simp add: catalogue_items_def List.map_filter_simps)
qed (simp add: catalogue_items_def List.map_filter_simps)

lemma catalogue_items_valid: "well_named lower L \<Longrightarrow> i \<in> set (catalogue_items lower L) \<Longrightarrow> ValidateCatalogueItem (Some i) = None"
  using to_item_ok [of lower L] by (fastforce simp: catalogue_items_def List.map_filter_def)

lemma page_items_Some: "page_items (map Some xs) = xs"
  by (induction xs) (simp_all add: page_items_def List.map_filter_simps)

text \<open>One page of a run.\<close>

lemma page_named:
  assumes "well_named lower L"
  shows "well_named lower (take pageSize (drop off L))"
proof -
  have "distinct (map mi_Id L)" using assms by (simp add: well_named_def)
  then have "distinct (map mi_Id (take pageSize (drop off L)))" by (simp add: take_map [symmetric] drop_map [symmetric])
  moreover have "set (take pageSize (drop off L)) \<subseteq> set L" by (auto dest: in_set_takeD in_set_dropD)
  ultimately show ?thesis using well_named_sub [OF assms] by blast
qed

lemma encodePage_items:
  "csr_items (encodePage lower (int off) (listing_page L (int off))) = map Some (catalogue_items lower (take pageSize (drop off L)))"
  by (simp add: encodePage_def Let_def listing_page_def catalogue_items_def)

lemma encodePage_token:
  assumes "off \<le> length L" and "well_named lower L"
  shows "csr_next_page_token (encodePage lower (int off) (listing_page L (int off)))
    = (if off + pageSize < length L then offset_token (off + pageSize) else [])"
proof (cases "off + pageSize < length L")
  case True
  let ?P = "take pageSize (drop off L)"
  have "length ?P = pageSize" using True by simp
  moreover from this have "?P \<noteq> []" by (auto simp: pageSize_def)
  then have "catalogue_items lower ?P \<noteq> []" using catalogue_items_ids [OF page_named [OF assms(2), of off]] by auto
  ultimately show ?thesis using True by (simp add: encodePage_def Let_def listing_page_def catalogue_items_def offset_token_def)
next
  case False
  then have "length (take pageSize (drop off L)) = length L - off" by simp
  then show ?thesis using False assms(1) by (simp add: encodePage_def Let_def listing_page_def)
qed

lemma catalogue_page:
  assumes "pages < maxPages" and "sy_client sy account pages token = Inr (Some (encodePage lower (int off) (listing_page L (int off))))"
    and "off \<le> length L" and "well_named lower L"
  shows "catalogue sy account token pages =
    (if off + pageSize < length L
     then apfst ((@) (catalogue_items lower (take pageSize (drop off L)))) (catalogue sy account (offset_token (off + pageSize)) (pages + 1))
     else (catalogue_items lower (drop off L), True))"
proof -
  let ?P = "take pageSize (drop off L)" and ?resp = "encodePage lower (int off) (listing_page L (int off))"
  have wn: "well_named lower ?P" using assms(4) by (rule page_named)
  have valid: "ValidateCatalogueSyncResponse (Some ?resp) = None"
    using catalogue_items_valid [OF wn] catalogue_items_ids [OF wn] wn
    by (auto simp: ValidateCatalogueSyncResponse_iff encodePage_items well_named_def comp_def)
  have last: "\<not> off + pageSize < length L \<Longrightarrow> take pageSize (drop off L) = drop off L" by simp
  show ?thesis
    using assms(1) by (subst catalogue.simps)
      (simp add: assms(2) valid encodePage_items encodePage_token [OF assms(3,4)] page_items_Some last Let_def)
qed

text \<open>
  The client a slot is to its synchronizer: the calls of a run over one account, made one after the other on
  the slot, each with the token of the answer before.
\<close>

fun slot_run :: "'b adapter \<Rightarrow> (string \<Rightarrow> string) \<Rightarrow> string \<Rightarrow> 'b Slot \<Rightarrow> nat \<Rightarrow> string \<times> 'b Slot" where
  "slot_run A lower i s 0 = ([], s)"
| "slot_run A lower i s (Suc n) =
     (case slot_run A lower i s n of (token, s1) \<Rightarrow>
        (case CatalogueSync A lower i token s1 of
           (Inl e, s2) \<Rightarrow> (token, s2)
         | (Inr resp, s2) \<Rightarrow> (csr_next_page_token resp, s2)))"

definition slot_client ::
    "(jf_error \<Rightarrow> string) \<Rightarrow> 'b adapter \<Rightarrow> (string \<Rightarrow> string) \<Rightarrow> 'b Slot \<Rightarrow> string \<Rightarrow> nat \<Rightarrow> string
     \<Rightarrow> string + CatalogueSyncResponse option" where
  "slot_client msg A lower s i n token =
     (case fst (CatalogueSync A lower i token (snd (slot_run A lower i s n))) of
        Inl e \<Rightarrow> Inl (msg e)
      | Inr resp \<Rightarrow> Inr (Some resp))"

text \<open>A server whose library is \<open>L n\<close> when the request after \<open>n\<close> others arrives, and a live session.\<close>

definition serves :: "'b adapter \<Rightarrow> (nat \<Rightarrow> mediaItem list) \<Rightarrow> bool" where
  "serves A L \<longleftrightarrow> (\<forall>sent x off. 0 \<le> off \<and> off < 2 ^ 63 \<longrightarrow>
     (\<exists>body. ad_http A (sent @ [items_request A x off]) = Reply 200 body
        \<and> ad_decode_items A body = Some (listing_page (L (length sent)) off)))"

definition connected :: "string \<Rightarrow> 'b Slot \<Rightarrow> bool" where
  "connected i s \<longleftrightarrow> (\<exists>x. map_of (jf_sessions s) i = Some x \<and> ja_id (js_account x) \<noteq> [] \<and> js_token x \<noteq> [])"

lemma CatalogueSync_connected:
  assumes "serves A L" and "connected i s" and "decodePageToken token = Some off" and "0 \<le> off" and "off < 2 ^ 63"
  shows "\<exists>s'. CatalogueSync A lower i token s = (Inr (encodePage lower off (listing_page (L (length (jf_sent s))) off)), s')
    \<and> connected i s' \<and> length (jf_sent s') = length (jf_sent s) + 1"
proof -
  obtain x where x: "map_of (jf_sessions s) i = Some x" "ja_id (js_account x) \<noteq> []" "js_token x \<noteq> []"
    using assms(2) by (auto simp: connected_def)
  let ?s = "put_session i x s"
  have e: "ensureSession A i s = (Inr x, ?s)"
    using x by (simp add: ensureSession_def ensure_with_def restore_def Let_def)
  have sent: "jf_sent ?s = jf_sent s" by (simp add: put_session_def)
  obtain body where b: "ad_http A (jf_sent s @ [items_request A x off]) = Reply 200 body"
    "ad_decode_items A body = Some (listing_page (L (length (jf_sent s))) off)"
    using assms(1,4,5) unfolding serves_def by blast
  let ?s1 = "?s\<lparr>jf_sent := jf_sent s @ [items_request A x off]\<rparr>"
  have "getItems A x off ?s = (Inr (listing_page (L (length (jf_sent s))) off), ?s1)"
    by (simp add: getItems_def send_def sent b)
  then have "syncOnce A i off s = (Inr (listing_page (L (length (jf_sent s))) off), ?s1)" by (simp add: syncOnce_def e)
  then have "CatalogueSync A lower i token s = (Inr (encodePage lower off (listing_page (L (length (jf_sent s))) off)), ?s1)"
    using assms(3) by (simp add: CatalogueSync_def)
  moreover have "connected i ?s1" using x by (simp add: connected_def put_session_def)
  ultimately show ?thesis by (intro exI [of _ ?s1]) simp
qed

definition run_token :: "nat \<Rightarrow> string" where
  "run_token n = (if n = 0 then [] else offset_token (n * pageSize))"

lemma run_token_decode:
  assumes "n * pageSize < 2 ^ 63"
  shows "decodePageToken (run_token n) = Some (int (n * pageSize))"
proof (cases n)
  case (Suc k)
  then show ?thesis unfolding run_token_def using decodePageToken_Itoa [OF assms] by simp
qed (simp add: run_token_def decodePageToken_def)

lemma page_offset: "n < 2 ^ 63 \<Longrightarrow> int n < 2 ^ 63" by simp

lemma slot_run_serves:
  assumes "serves A L" and "connected i s"
    and "\<forall>k < n. well_named lower (L (length (jf_sent s) + k)) \<and> Suc k * pageSize < length (L (length (jf_sent s) + k))"
    and "n * pageSize < 2 ^ 63"
  shows "\<exists>s'. slot_run A lower i s n = (run_token n, s') \<and> connected i s' \<and> length (jf_sent s') = length (jf_sent s) + n"
  using assms(3,4)
proof (induction n)
  case 0
  then show ?case using assms(2) by (simp add: run_token_def)
next
  case (Suc n)
  have lt: "n * pageSize < 2 ^ 63" using Suc.prems(2) by simp
  then obtain s1 where s1: "slot_run A lower i s n = (run_token n, s1)" "connected i s1"
    "length (jf_sent s1) = length (jf_sent s) + n"
    using Suc.IH Suc.prems(1) by (meson less_SucI)
  obtain s2 where s2: "CatalogueSync A lower i (run_token n) s1
      = (Inr (encodePage lower (int (n * pageSize)) (listing_page (L (length (jf_sent s) + n)) (int (n * pageSize)))), s2)"
    "connected i s2" "length (jf_sent s2) = length (jf_sent s) + Suc n"
    using CatalogueSync_connected [OF assms(1) s1(2) run_token_decode [OF lt] of_nat_0_le_iff page_offset [OF lt], of lower] by (auto simp: s1(3))
  have "well_named lower (L (length (jf_sent s) + n))" "n * pageSize + pageSize < length (L (length (jf_sent s) + n))"
    using Suc.prems(1) by (auto simp: add.commute)
  then have "csr_next_page_token (encodePage lower (int (n * pageSize)) (listing_page (L (length (jf_sent s) + n)) (int (n * pageSize))))
      = run_token (Suc n)"
    using encodePage_token [of "n * pageSize" "L (length (jf_sent s) + n)" lower] by (simp add: run_token_def add.commute)
  then show ?case using s1(1) s2 by simp
qed

lemma slot_client_serves:
  assumes "serves A L" and "connected i s"
    and "\<forall>k < n. well_named lower (L (length (jf_sent s) + k)) \<and> Suc k * pageSize < length (L (length (jf_sent s) + k))"
    and "n * pageSize < 2 ^ 63"
  shows "slot_client msg A lower s i n (run_token n)
    = Inr (Some (encodePage lower (int (n * pageSize)) (listing_page (L (length (jf_sent s) + n)) (int (n * pageSize)))))"
proof -
  obtain s1 where s1: "slot_run A lower i s n = (run_token n, s1)" "connected i s1" "length (jf_sent s1) = length (jf_sent s) + n"
    using slot_run_serves [OF assms] by blast
  then show ?thesis
    using CatalogueSync_connected [OF assms(1) s1(2) run_token_decode [OF assms(4)] of_nat_0_le_iff page_offset [OF assms(4)], of lower]
    by (auto simp: slot_client_def)
qed

lemma run_token_Suc: "offset_token (n * pageSize + pageSize) = run_token (Suc n)"
  by (simp add: run_token_def add.commute)

text \<open>A library that stays as it is during the run is reported whole.\<close>

lemma catalogue_whole:
  assumes "serves A (\<lambda>_. L)" and "connected i s" and "well_named lower L" and "length L \<le> maxPages * pageSize"
    and sy: "sy_client sy = slot_client msg A lower s" and "n * pageSize < length L \<or> n = 0"
  shows "catalogue sy i (run_token n) n = (catalogue_items lower (drop (n * pageSize) L), True)"
  using assms(6)
proof (induction "length L - n * pageSize" arbitrary: n rule: less_induct)
  case less
  have le: "k * pageSize < length L" if "0 < k" "k \<le> n" for k
    using less.prems that mult_le_mono1 [of k n pageSize] by (auto simp: pageSize_def)
  have "n < maxPages"
    using less.prems assms(4) mult_le_mono1 [of maxPages n pageSize] by (cases "n = 0") (auto simp: maxPages_def pageSize_def)
  moreover have "n * pageSize < 2 ^ 63" using \<open>n < maxPages\<close> by (simp add: maxPages_def pageSize_def)
  then have "sy_client sy i n (run_token n) = Inr (Some (encodePage lower (int (n * pageSize)) (listing_page L (int (n * pageSize)))))"
    unfolding sy using assms(3) le by (intro slot_client_serves [OF assms(1,2)]) (metis Suc_leI zero_less_Suc)+
  moreover have "n * pageSize \<le> length L" using less.prems by auto
  ultimately have p: "catalogue sy i (run_token n) n =
    (if n * pageSize + pageSize < length L
     then apfst ((@) (catalogue_items lower (take pageSize (drop (n * pageSize) L)))) (catalogue sy i (run_token (Suc n)) (n + 1))
     else (catalogue_items lower (drop (n * pageSize) L), True))"
    using catalogue_page [of n sy i "run_token n" lower "n * pageSize" L] assms(3) by (simp add: run_token_Suc)
  show ?case
  proof (cases "n * pageSize + pageSize < length L")
    case True
    then have "catalogue sy i (run_token (Suc n)) (Suc n) = (catalogue_items lower (drop (Suc n * pageSize) L), True)"
      by (intro less.hyps) (auto simp: pageSize_def)
    moreover have "drop (n * pageSize) L = take pageSize (drop (n * pageSize) L) @ drop (Suc n * pageSize) L"
      by (metis append_take_drop_id drop_drop mult_Suc)
    ultimately show ?thesis using True p by (metis Suc_eq_plus1 apfst_conv catalogue_items_append)
  qed (simp add: p)
qed

lemma reported_items:
  assumes "well_named lower L"
  shows "it \<in> set L \<Longrightarrow> reported (catalogue_items lower L) (mi_Id it) = to_item lower it"
    and "n \<notin> mi_Id ` set L \<Longrightarrow> reported (catalogue_items lower L) n = None"
proof -
  have ids: "map ci_native_id (catalogue_items lower L) = map mi_Id L" using assms by (rule catalogue_items_ids)
  show "n \<notin> mi_Id ` set L \<Longrightarrow> reported (catalogue_items lower L) n = None"
    unfolding reported_None_iff by (metis ids set_map)
  assume it: "it \<in> set L"
  then obtain i where i: "to_item lower it = Some i" "ci_native_id i = mi_Id it" using to_item_ok [OF assms] by blast
  then have "i \<in> set (catalogue_items lower L)" using it by (force simp: catalogue_items_def List.map_filter_def)
  moreover have "distinct (map ci_native_id (catalogue_items lower L))" using assms ids by (simp add: well_named_def)
  ultimately have "map_of (map (\<lambda>i. (ci_native_id i, i)) (rev (catalogue_items lower L))) (mi_Id it) = Some i"
    by (intro map_of_is_SomeI) (auto simp: comp_def rev_map [symmetric] i(2) intro!: image_eqI [of _ _ i])
  then show "reported (catalogue_items lower L) (mi_Id it) = to_item lower it"
    using i(1) by (simp add: reported_def rev_map)
qed

lemma synced_row:
  assumes "\<not> HasSuffix (item_prefix sy account @ n) manifestSuffix"
  shows "synced_rows sy account now its c (item_prefix sy account @ n) = map_option ItemRow (reported its n)"
proof -
  have "manifestKey sy account \<noteq> item_prefix sy account @ n" using assms manifestKey_suffix by metis
  then show ?thesis using assms by (simp add: synced_rows_def split: option.split)
qed


text \<open>A library whose first item goes between the requests for its two pages.\<close>

definition loses_first :: "nat \<Rightarrow> mediaItem list \<Rightarrow> nat \<Rightarrow> mediaItem list" where
  "loses_first m L n = (if n \<le> m then L else tl L)"

lemma catalogue_skips:
  assumes "serves A (loses_first (length (jf_sent s)) L)" and "connected i s" and "well_named lower L"
    and "pageSize < length L" and "length L \<le> pageSize + pageSize + 1" and sy: "sy_client sy = slot_client msg A lower s"
  shows "catalogue sy i [] 0 = (catalogue_items lower (take pageSize L @ drop (Suc pageSize) L), True)"
proof -
  let ?m = "length (jf_sent s)"
  have d: "distinct (map mi_Id (tl L))" using assms(3) by (simp add: well_named_def map_tl distinct_tl)
  have tl_named: "well_named lower (tl L)"
    by (rule well_named_sub [OF assms(3) _ d]) (cases L, auto)
  have len: "pageSize \<le> length (tl L)" "\<not> pageSize + pageSize < length (tl L)" using assms(4,5) by auto
  have c0: "sy_client sy i 0 [] = Inr (Some (encodePage lower (int 0) (listing_page L (int 0))))"
    using slot_client_serves [OF assms(1,2), of 0 lower msg] unfolding sy by (simp add: run_token_def loses_first_def)
  have c1: "sy_client sy i 1 (run_token 1) = Inr (Some (encodePage lower (int pageSize) (listing_page (tl L) (int pageSize))))"
    using slot_client_serves [OF assms(1,2), of 1 lower msg] assms(3,4) unfolding sy
    by (simp add: loses_first_def pageSize_def)
  have "catalogue sy i (run_token 1) 1 = (catalogue_items lower (drop pageSize (tl L)), True)"
    using catalogue_page [OF _ c1 len(1) tl_named] len(2) by (simp add: maxPages_def del: length_tl One_nat_def)
  moreover have "catalogue sy i [] 0 = apfst ((@) (catalogue_items lower (take pageSize L))) (catalogue sy i (run_token 1) 1)"
    using catalogue_page [of 0 sy i "[]" lower 0 L, OF _ c0] assms(3,4) run_token_Suc [of 0] by (simp add: maxPages_def)
  moreover have "drop pageSize (tl L) = drop (Suc pageSize) L" by (simp add: drop_Suc)
  ultimately show ?thesis by simp
qed

text \<open>C33: A page of the catalogue is addressed by an offset alone. When the first item of a library of two pages is
  removed between the requests, the item after the first page is on neither page although the server
  has it at every moment: the run succeeds, deletes its row, and announces the item as
  no longer available.\<close>
theorem removal_during_sync:
  assumes "serves A (loses_first (length (jf_sent s)) L)" and "connected i s" and "well_named lower L"
    and "pageSize < length L" and "length L \<le> pageSize + pageSize + 1"
    and "synchronizer_wired sy" and "sy_client sy = slot_client msg A lower s"
    and "i \<noteq> []" and "identity_ok (ss_reg st)" and "mem_ok (ss_cache st)"
    and "mi_Id (L ! pageSize) \<in> prev_natives sy i (ss_cache st)"
  shows "\<exists>stats st'. SyncAccount sy now i st = (None, stats, st')
     \<and> (\<forall>n. L ! pageSize \<in> set (loses_first (length (jf_sent s)) L n))
     \<and> view (ss_cache st') (item_prefix sy i @ mi_Id (L ! pageSize)) = None
     \<and> (\<forall>e. identity_Lookup (ss_reg st') (sy_provider sy) (mi_Id (L ! pageSize)) = Inr (Some e) \<longrightarrow>
          (\<exists>ev \<in> set (drop (length (ss_events st)) (ss_events st')).
             ev_payload ev = Some (AvailabilityEvent i (sy_provider sy) e False)))"
proof -
  let ?its = "catalogue_items lower (take pageSize L @ drop (Suc pageSize) L)" and ?it = "L ! pageSize"
  have L: "L = take pageSize L @ ?it # drop (Suc pageSize) L" using assms(4) by (rule id_take_nth_drop)
  have "distinct (map mi_Id L)" using assms(3) by (simp add: well_named_def)
  then have d: "distinct (map mi_Id (take pageSize L @ ?it # drop (Suc pageSize) L))" using L by simp
  then have sub: "well_named lower (take pageSize L @ drop (Suc pageSize) L)"
    by (intro well_named_sub [OF assms(3)]) (auto dest: in_set_takeD in_set_dropD)
  have "mi_Id ?it \<notin> mi_Id ` set (take pageSize L @ drop (Suc pageSize) L)" using d by auto
  then have rep: "reported ?its (mi_Id ?it) = None" using reported_items(2) [OF sub] by blast
  have cat: "catalogue sy i [] 0 = (?its, True)" using catalogue_skips [OF assms(1-5,7)] .
  from ident.sync_exact [OF assms(6) [unfolded synchronizer_wired_iff] assms(8-10) cat, of now] obtain stats st' changes evs where
    r: "SyncAccount sy now i st = (None, stats, st')" "view (ss_cache st') = synced_rows sy i now ?its (ss_cache st)"
      "ss_events st' = ss_events st @ evs"
      "map ev_payload evs = concat (map (news (identity_Lookup (ss_reg st')) (sy_provider sy) i) changes)"
      "set changes = (prev_natives sy i (ss_cache st) - ci_native_id ` set ?its) \<times> {False}
         \<union> (ci_native_id ` set ?its - prev_natives sy i (ss_cache st)) \<times> {True}" by (elim exE conjE) (rule that)
  have "mi_Id ?it \<notin> ci_native_id ` set ?its" using rep unfolding reported_None_iff .
  then have change: "(mi_Id ?it, False) \<in> set changes" unfolding r(5) using assms(11) by simp
  have evs: "\<exists>ev \<in> set evs. ev_payload ev = Some (AvailabilityEvent i (sy_provider sy) e False)"
    if "identity_Lookup (ss_reg st') (sy_provider sy) (mi_Id ?it) = Inr (Some e)" for e
  proof -
    have "Some (AvailabilityEvent i (sy_provider sy) e False) \<in> set (map ev_payload evs)"
      unfolding r(4) using that by (force simp: news_def intro: bexI [OF _ change])
    then show ?thesis by auto
  qed
  have "\<not> HasSuffix (item_prefix sy i @ mi_Id ?it) manifestSuffix" using assms(11) by (simp add: prev_natives_def)
  then have "view (ss_cache st') (item_prefix sy i @ mi_Id ?it) = None" by (simp add: r(2) synced_row rep del: catalogue_items_append)
  moreover have "?it \<in> set (loses_first (length (jf_sent s)) L n)" for n
  proof -
    have "?it = tl L ! (pageSize - 1)" "pageSize - 1 < length (tl L)" using assms(4) by (simp_all add: nth_tl pageSize_def)
    then have "?it \<in> set (tl L)" by simp
    moreover have "?it \<in> set L" using assms(4) by simp
    ultimately show ?thesis by (simp add: loses_first_def)
  qed
  ultimately show ?thesis using r(1,3) evs by auto
qed

text \<open>A server that answers from its library: the body has a dot per request before it, then the offset asked for.\<close>

definition demo_film_item :: "nat \<Rightarrow> mediaItem" where
  "demo_film_item n = \<lparr>mi_Id = Itoa (int n), mi_Type = ''Movie'', mi_Name = ''F'', mi_ProductionYear = 0, mi_ProviderIds = []\<rparr>"

definition after_offset :: string where
  "after_offset = ''&limit='' @ Itoa (int pageSize) @ ''&fields=ProviderIds''"

definition asked_offset :: "string \<Rightarrow> string" where
  "asked_offset url = rev (takeWhile (\<lambda>c. char_digit c \<noteq> None) (drop (length after_offset) (rev url)))"

definition demo_server :: "(nat \<Rightarrow> mediaItem list) \<Rightarrow> string adapter" where
  "demo_server L = \<lparr>ad_src = (\<lambda>_ _. Inr no_account), ad_vault = False, ad_deviceID = ''d'', ad_quote = (\<lambda>s. s), ad_getenv = (\<lambda>_. []),
     ad_http = (\<lambda>sent. Reply 200 (replicate (length sent - 1) CHR ''.'' @ asked_offset (hr_url (last sent)))),
     ad_decode_auth = (\<lambda>_. None),
     ad_decode_items = (\<lambda>b. map_option (listing_page (L (length (takeWhile (\<lambda>c. c = CHR ''.'') b)))) (Atoi (dropWhile (\<lambda>c. c = CHR ''.'') b))),
     ad_decode_playback = (\<lambda>_. None), ad_marshal = (\<lambda>_. None), ad_unmarshal = (\<lambda>_. None), ad_len = length, ad_nil = []\<rparr>"

definition demo_slot :: "string Slot" where
  "demo_slot = \<lparr>jf_ids = [''a''],
     jf_sessions = [(''a'', \<lparr>js_account = \<lparr>ja_id = ''a'', ja_url = ''http://h'', ja_username = ''u'', ja_password_env = []\<rparr>,
                            js_token = ''t'', js_userID = ''1''\<rparr>)],
     jf_vault = NewInMemory, jf_sent = []\<rparr>"

lemma nat_digits_digit: "c \<in> set (nat_digits n) \<Longrightarrow> char_digit c \<noteq> None"
  using nat_digits_chars [of c n] by auto

lemma asked_offset:
  assumes "0 \<le> off"
  shows "asked_offset (hr_url (items_request A x off)) = Itoa off"
proof -
  have "\<exists>front. hr_url (items_request A x off) = (front @ ''='') @ Itoa off @ after_offset"
    by (rule exI [of _ "TrimRight_slash (ja_url (js_account x)) @ ''/Items?userId='' @ js_userID x
        @ ''&includeItemTypes=Movie,Series&recursive=true&sortBy=SortName&sortOrder=Ascending&startIndex''"])
      (simp add: items_request_def after_offset_def)
  then obtain front where u: "hr_url (items_request A x off) = (front @ ''='') @ Itoa off @ after_offset" by blast
  obtain n where n: "off = int n" using assms nonneg_int_cases by blast
  have "takeWhile (\<lambda>c. char_digit c \<noteq> None) (rev (nat_digits n) @ CHR ''='' # rev front) = rev (nat_digits n)"
    using nat_digits_digit [of _ n] by (subst takeWhile_append2) (auto simp: char_digit_def)
  then show ?thesis unfolding asked_offset_def n u [unfolded n] by (simp add: Itoa_def)
qed

lemma while_replicate:
  assumes "d \<noteq> c"
  shows "takeWhile (\<lambda>x. x = c) (replicate k c @ d # ds) = replicate k c"
    and "dropWhile (\<lambda>x. x = c) (replicate k c @ d # ds) = d # ds"
  using assms by (induction k) auto

lemma demo_serves: "serves (demo_server L) L"
  unfolding serves_def
proof (intro allI impI, elim conjE)
  fix sent :: "request list" and x and off :: int
  assume off: "0 \<le> off" "off < 2 ^ 63"
  let ?r = "items_request (demo_server L) x off" and ?b = "replicate (length sent) CHR ''.'' @ Itoa off"
  obtain n where n: "off = int n" using off(1) nonneg_int_cases by blast
  obtain d ds where d: "d < 10" "nat_digits n = digit_char d # ds" using nat_digits_Cons by blast
  then have "(of_char (digit_char d) :: nat) \<noteq> of_char CHR ''.''" by (simp add: digit_char_def)
  then have "digit_char d \<noteq> CHR ''.''" by auto
  then have s: "takeWhile (\<lambda>c. c = CHR ''.'') ?b = replicate (length sent) CHR ''.''" "dropWhile (\<lambda>c. c = CHR ''.'') ?b = Itoa off"
    using d(2) by (simp_all add: n Itoa_def while_replicate)
  have "ad_http (demo_server L) (sent @ [?r]) = Reply 200 ?b"
    by (simp add: demo_server_def asked_offset [OF off(1)])
  moreover have "ad_decode_items (demo_server L) ?b = Some (listing_page (L (length sent)) off)"
    using s Atoi_Itoa [of off] off by (simp add: demo_server_def)
  ultimately show "\<exists>body. ad_http (demo_server L) (sent @ [?r]) = Reply 200 body
      \<and> ad_decode_items (demo_server L) body = Some (listing_page (L (length sent)) off)" by blast
qed

lemma demo_connected: "connected ''a'' demo_slot"
  by (simp add: connected_def demo_slot_def)

lemma demo_named: "well_named lower (map demo_film_item ns) \<longleftrightarrow> distinct ns"
proof -
  have ne: "nat_digits n \<noteq> []" for n using nat_digits_Cons [of n] by auto
  have "mi_Id \<circ> demo_film_item = (\<lambda>n. Itoa (int n))" by (simp add: fun_eq_iff demo_film_item_def)
  moreover have "inj (\<lambda>n. Itoa (int n))" by (simp add: inj_on_def Itoa_nat_eq)
  ultimately have "distinct (map (mi_Id \<circ> demo_film_item) ns) \<longleftrightarrow> distinct ns"
    by (metis distinct_map inj_on_subset subset_UNIV)
  then show ?thesis by (auto simp: well_named_def demo_film_item_def item_kind_def Itoa_def ne)
qed

definition demo_slot_sync :: "(nat \<Rightarrow> mediaItem list) \<Rightarrow> (identity_state, reg_error) Synchronizer" where
  "demo_slot_sync L = (demo_sync [])\<lparr>sy_client := slot_client (\<lambda>_. ''e'') (demo_server L) (\<lambda>s. s) demo_slot\<rparr>"

lemma demo_slot_sync:
  "synchronizer_wired (demo_slot_sync L)"
  "sy_client (demo_slot_sync L) = slot_client (\<lambda>_. ''e'') (demo_server L) (\<lambda>s. s) demo_slot"
  "item_prefix (demo_slot_sync L) ''a'' = ''p/a/''"
  using demo_sync_wired [of "[]"]
  by (simp_all add: demo_slot_sync_def synchronizer_wired_def item_prefix_def demo_sync_def)


text \<open>The state before the removal: the last of 501 films has its row.\<close>

definition demo_removal_state :: "identity_state sync_state" where
  "demo_removal_state = demo_sync_state\<lparr>ss_cache := snd (Store_Put NewInMemory ''p/a/500'' (ItemRow (demo_film ''500'' 1979)))\<rparr>"

theorem removal_during_sync_witness:
  "\<exists>stats st'. SyncAccount (demo_slot_sync (loses_first 0 (map demo_film_item [0..<501]))) 5 ''a'' demo_removal_state = (None, stats, st')
     \<and> view (ss_cache demo_removal_state) ''p/a/500'' \<noteq> None \<and> view (ss_cache st') ''p/a/500'' = None"
proof -
  let ?L = "map demo_film_item [0..<501]" and ?sy = "demo_slot_sync (loses_first 0 (map demo_film_item [0..<501]))"
  have ok: "identity_ok (ss_reg demo_removal_state)" "mem_ok (ss_cache demo_removal_state)"
    using demo_sync_ok mem.put_ok [OF mem_ok_new] by (simp_all add: demo_removal_state_def demo_sync_state_def)
  have row: "view (ss_cache demo_removal_state) ''p/a/500'' \<noteq> None"
    by (simp add: demo_removal_state_def demo_sync_state_def store_simps)
  have id: "mi_Id (?L ! pageSize) = ''500''"
    by (simp add: pageSize_def demo_film_item_def Itoa_def nat_digits.simps digit_char_def char_of_def bit_numeral_rec bit_0)
  have sent: "length (jf_sent demo_slot) = 0" by (simp add: demo_slot_def)
  have prev: "mi_Id (?L ! pageSize) \<in> prev_natives ?sy ''a'' (ss_cache demo_removal_state)"
    using row unfolding prev_natives_def id by (simp add: demo_slot_sync(3) HasSuffix_def suffix_def manifestSuffix_def)
  have named: "well_named (\<lambda>s. s) ?L" by (simp add: demo_named)
  have srv: "serves (demo_server (loses_first 0 ?L)) (loses_first (length (jf_sent demo_slot)) ?L)"
    unfolding sent by (rule demo_serves)
  have size: "pageSize < length ?L" "length ?L \<le> pageSize + pageSize + 1" by (simp_all add: pageSize_def)
  have "''a'' \<noteq> []" by simp
  from removal_during_sync [OF srv demo_connected named size demo_slot_sync(1,2) this ok prev, of 5]
  show ?thesis using row unfolding id demo_slot_sync(3) by auto
qed

text \<open>An empty slot that a sync of a passwordless account has visited once.\<close>

theorem linked_never_logs_in_witness:
  "sends True 4 (snd (CatalogueSync (demo_server (\<lambda>_. [])) (\<lambda>s. s) ''a'' [] (demo_slot\<lparr>jf_sessions := []\<rparr>)))
     (snd (ProduceSources (demo_server (\<lambda>_. [])) ''a'' ''9''
       (snd (CatalogueSync (demo_server (\<lambda>_. [])) (\<lambda>s. s) ''a'' [] (demo_slot\<lparr>jf_sessions := []\<rparr>)))))"
proof -
  let ?A = "demo_server (\<lambda>_. [])" and ?start = "demo_slot\<lparr>jf_sessions := []\<rparr>"
  let ?t = "snd (CatalogueSync ?A (\<lambda>s. s) ''a'' [] ?start)"
  have "(slot_step ?A)\<^sup>*\<^sup>* ?start ?t" by (rule r_into_rtranclp, rule slot_step.sync)
  moreover have "passwordless ?A ''a''" by (simp add: passwordless_def demo_server_def no_account_def)
  ultimately show ?thesis
    using linked_never_logs_in [OF _ _ surjective_pairing surjective_pairing,
        where A = ?A and s = ?t and lower = "\<lambda>s. s" and i = "''a''" and token = "[]" and item = "''9''"]
    by simp
qed

text \<open>A server that has forgotten the token of the slot's account.\<close>

definition demo_forgetful :: "string adapter" where
  "demo_forgetful = (demo_server (\<lambda>_. []))\<lparr>ad_http := \<lambda>_. Reply 401 [], ad_vault := True\<rparr>"

theorem dead_session_needs_relink_witness:
  "\<exists>s'. CatalogueSync demo_forgetful (\<lambda>s. s) ''a'' [] demo_slot = (Inl (NoSessionError ''a'' ''u'' ''http://h''), s')
     \<and> Session_Load (jf_vault s') ''a'' = Inr []"
  using dead_session_needs_relink [where A = demo_forgetful and s = demo_slot and i = "''a''" and x = "snd (hd (jf_sessions demo_slot))"
      and token = "[]" and off = "0" and body = "[]" and lower = "\<lambda>s. s"]
  by (auto simp: demo_slot_def demo_forgetful_def demo_server_def decodePageToken_def no_session_def)

end
