(* ===== verification/Stremio.thy ===== *)
theory Stremio
  imports Jellyfin Policy
begin

text \<open>
  The Stremio adapter, \<open>adapters/stremio/stremio.go\<close> and \<open>probe.go\<close>: the addons a slot serves with their cached
  manifests, search, browsing, refresh and streams over the addon protocol.

  The addon's server is an argument: \<open>cl_http\<close> answers the last of the requests sent so far; a request that
  cannot be built is a \<^const>\<open>NetError\<close>. JSON decoding, \<open>url.QueryEscape\<close>, the conversion of a JSON number
  to \<open>uint32\<close> and the roster that resolves an account are arguments as well. The order of found items
  with one native id is that of the addon; \<open>sort.Slice\<close> leaves it open.
\<close>

subsection \<open>Data\<close>

record Account =
  sm_id :: string
  sm_manifest_url :: string

record catalogRecord =
  ct_type :: string
  ct_id :: string

record manifest =
  mn_id :: string
  mn_name :: string
  mn_types :: "string list"
  mn_catalogs :: "catalogRecord list"
  mn_base :: string

text \<open>A value of \<open>interface{}\<close> as \<open>encoding/json\<close> fills it.\<close>

datatype json_value = JNil | JNumber go_float | JString string | JOther

record metaRecord =
  mr_id :: string
  mr_type :: string
  mr_name :: string
  mr_year :: json_value

datatype addon_error =
    AE_none_declared | AE_id string | AE_resolve string string | AE_no_manifest_url string | AE_account_required
  | AE_query_required | AE_not_lazy | AE_no_catalog string | AE_request | AE_native_id string | AE_no_streams string
  | AE_http string | AE_status int | AE_decode | AE_manifest string addon_error | AE_malformed string | AE_url_required
  | AE_not_manifest | AE_lookup string

record client =
  cl_src :: "string \<Rightarrow> string + Account"
  cl_http :: "string list \<Rightarrow> reply"
  cl_escape :: "string \<Rightarrow> string"
  cl_uint32 :: "go_float \<Rightarrow> 32 word"
  cl_manifest :: "string \<Rightarrow> manifest option"
  cl_metas :: "string \<Rightarrow> metaRecord list option"
  cl_meta :: "string \<Rightarrow> metaRecord option"
  cl_streams :: "string \<Rightarrow> string list option"
  cl_marshal :: "Account \<Rightarrow> string option"

record Slot =
  sx_ids :: "string list"
  sx_man :: "(string \<times> manifest) list"
  sx_sent :: "string list"

subsection \<open>Accounts\<close>

fun new_ids :: "client \<Rightarrow> string list \<Rightarrow> string list \<Rightarrow> addon_error + string list" where
  "new_ids C seen [] = Inr seen"
| "new_ids C seen (i # is) =
     (if i = [] \<or> i \<in> set seen then Inl (AE_id i)
      else (case cl_src C i of
         Inl e \<Rightarrow> Inl (AE_resolve i e)
       | Inr _ \<Rightarrow> new_ids C (seen @ [i]) is))"

definition Slot_New :: "client \<Rightarrow> string list \<Rightarrow> addon_error + Slot" where
  "Slot_New C is =
     (if is = [] then Inl AE_none_declared
      else (case new_ids C [] is of
         Inl e \<Rightarrow> Inl e
       | Inr seen \<Rightarrow> Inr \<lparr>sx_ids = seen, sx_man = [], sx_sent = []\<rparr>))"

definition AddAccount :: "client \<Rightarrow> string \<Rightarrow> Slot \<Rightarrow> addon_error option \<times> Slot" where
  "AddAccount C i s =
     (if i \<in> set (sx_ids s) then (None, s)
      else (case cl_src C i of
         Inl e \<Rightarrow> (Some (AE_resolve i e), s)
       | Inr a \<Rightarrow>
           if sm_manifest_url a = [] then (Some (AE_no_manifest_url i), s)
           else (None, s\<lparr>sx_ids := sx_ids s @ [i]\<rparr>)))"

definition DropAccount :: "string \<Rightarrow> Slot \<Rightarrow> Slot" where
  "DropAccount i s = s\<lparr>sx_ids := filter (\<lambda>j. j \<noteq> i) (sx_ids s), sx_man := AList.delete i (sx_man s)\<rparr>"

definition IsLazy :: "Slot \<Rightarrow> bool" where "IsLazy s = True"

definition CapabilityQuery :: "(string \<times> 32 word) list \<times> (string \<times> string) list" where
  "CapabilityQuery =
     ([(''meta'', 1), (''search'', 1), (''browse'', 1), (''produce-sources'', 1), (''refresh-availability'', 1)], [])"

definition CatalogueSync :: "string \<Rightarrow> addon_error" where
  "CatalogueSync i = (if i = [] then AE_account_required else AE_not_lazy)"

subsection \<open>Requests\<close>

definition getJSON :: "client \<Rightarrow> (string \<Rightarrow> 'a option) \<Rightarrow> string \<Rightarrow> Slot \<Rightarrow> (addon_error + 'a) \<times> Slot" where
  "getJSON C decode u s =
     (let s' = s\<lparr>sx_sent := sx_sent s @ [u]\<rparr>
      in case cl_http C (sx_sent s') of
           NetError e \<Rightarrow> (Inl (AE_http e), s')
         | Reply st body \<Rightarrow>
             if st div 100 \<noteq> 2 then (Inl (AE_status st), s')
             else (case decode body of None \<Rightarrow> (Inl AE_decode, s') | Some x \<Rightarrow> (Inr x, s')))"

text \<open>The part of a URL before its last slash.\<close>

definition directory :: "string \<Rightarrow> string option" where
  "directory url = (if CHR ''/'' \<in> set url then Some (rev (tl (dropWhile (\<lambda>c. c \<noteq> CHR ''/'') (rev url)))) else None)"

definition manifestFor :: "client \<Rightarrow> string \<Rightarrow> Slot \<Rightarrow> (addon_error + manifest) \<times> Slot" where
  "manifestFor C i s =
     (case map_of (sx_man s) i of
        Some m \<Rightarrow> (Inr m, s)
      | None \<Rightarrow>
          (case cl_src C i of
             Inl e \<Rightarrow> (Inl (AE_lookup e), s)
           | Inr a \<Rightarrow>
               (case getJSON C (cl_manifest C) (sm_manifest_url a) s of
                  (Inl e, s') \<Rightarrow> (Inl (AE_manifest (sm_manifest_url a) e), s')
                | (Inr m, s') \<Rightarrow>
                    (case directory (sm_manifest_url a) of
                       None \<Rightarrow> (Inl (AE_malformed (sm_manifest_url a)), s')
                     | Some d \<Rightarrow>
                         if d = [] then (Inl (AE_malformed (sm_manifest_url a)), s')
                         else (let m' = m\<lparr>mn_base := d\<rparr> in (Inr m', s'\<lparr>sx_man := AList.update i m' (sx_man s')\<rparr>))))))"

text \<open>The query of a search, when there is one.\<close>

definition catalog_url :: "client \<Rightarrow> manifest \<Rightarrow> catalogRecord \<Rightarrow> string option \<Rightarrow> string" where
  "catalog_url C m c q =
     mn_base m @ ''/catalog/'' @ ct_type c @ ''/'' @ ct_id c @ ''.json''
       @ (case q of None \<Rightarrow> [] | Some v \<Rightarrow> ''?search='' @ cl_escape C v)"

definition getCatalog ::
    "client \<Rightarrow> manifest \<Rightarrow> catalogRecord \<Rightarrow> string option \<Rightarrow> Slot \<Rightarrow> (addon_error + metaRecord list) \<times> Slot" where
  "getCatalog C m c q s = getJSON C (cl_metas C) (catalog_url C m c q) s"

subsection \<open>Items\<close>

definition asUint32 :: "client \<Rightarrow> json_value \<Rightarrow> 32 word" where
  "asUint32 C v =
     (case v of
        JNil \<Rightarrow> 0
      | JNumber x \<Rightarrow> cl_uint32 C x
      | JString t \<Rightarrow> (case scan_int t of None \<Rightarrow> 0 | Some y \<Rightarrow> of_int y)
      | JOther \<Rightarrow> 0)"

definition toCatalogueItem :: "client \<Rightarrow> string \<Rightarrow> metaRecord \<Rightarrow> CatalogueItem" where
  "toCatalogueItem C typ me =
     \<lparr>ci_native_id = typ @ '':'' @ mr_id me, ci_kind = (if typ = ''series'' then IK_SERIES else IK_MOVIE),
      ci_external_ids = [],
      ci_metadata = Some (empty_metadata\<lparr>md_title := mr_name me, md_year := asUint32 C (mr_year me)\<rparr>)\<rparr>"

definition splitNativeID :: "string \<Rightarrow> (string \<times> string) option" where
  "splitNativeID i =
     (let t = takeWhile (\<lambda>c. c \<noteq> CHR '':'') i; r = drop (length t + 1) i
      in if CHR '':'' \<notin> set i \<or> t = [] \<or> r = [] then None else Some (t, r))"

subsection \<open>Search and browsing\<close>

fun search_catalogs ::
    "client \<Rightarrow> manifest \<Rightarrow> string \<Rightarrow> catalogRecord list \<Rightarrow> CatalogueItem list \<Rightarrow> Slot
     \<Rightarrow> (addon_error + CatalogueItem list) \<times> Slot" where
  "search_catalogs C m q [] out s = (Inr out, s)"
| "search_catalogs C m q (c # cs) out s =
     (case getCatalog C m c (Some q) s of
        (Inl e, s') \<Rightarrow> (Inl e, s')
      | (Inr metas, s') \<Rightarrow> search_catalogs C m q cs (out @ map (toCatalogueItem C (ct_type c)) metas) s')"

definition SearchCatalog ::
    "client \<Rightarrow> string \<Rightarrow> string \<Rightarrow> Slot \<Rightarrow> (addon_error + CatalogueItem list) \<times> Slot" where
  "SearchCatalog C i query s =
     (if i = [] then (Inl AE_account_required, s)
      else if TrimSpace query = [] then (Inl AE_query_required, s)
      else (case manifestFor C i s of
         (Inl e, s') \<Rightarrow> (Inl e, s')
       | (Inr m, s') \<Rightarrow>
           (case search_catalogs C m query (mn_catalogs m) [] s' of
              (Inl e, s'') \<Rightarrow> (Inl e, s'')
            | (Inr out, s'') \<Rightarrow> (Inr (sort_key ci_native_id out), s''))))"

definition pick_catalog :: "catalogRecord list \<Rightarrow> string \<Rightarrow> catalogRecord option" where
  "pick_catalog cs path = find (\<lambda>c. ct_type c @ ''/'' @ ct_id c = path \<or> ct_id c = path) cs"

definition BrowseCatalog ::
    "client \<Rightarrow> string \<Rightarrow> string \<Rightarrow> Slot \<Rightarrow> (addon_error + CatalogueItem list) \<times> Slot" where
  "BrowseCatalog C i path s =
     (if i = [] then (Inl AE_account_required, s)
      else (case manifestFor C i s of
         (Inl e, s') \<Rightarrow> (Inl e, s')
       | (Inr m, s') \<Rightarrow>
           (case mn_catalogs m of
              [] \<Rightarrow> (Inr [], s')
            | c0 # _ \<Rightarrow>
                (case (if path = [] then Some c0 else pick_catalog (mn_catalogs m) path) of
                   None \<Rightarrow> (Inl (AE_no_catalog path), s')
                 | Some c \<Rightarrow>
                     (case getCatalog C m c None s' of
                        (Inl e, s'') \<Rightarrow> (Inl e, s'')
                      | (Inr metas, s'') \<Rightarrow> (Inr (map (toCatalogueItem C (ct_type c)) metas), s''))))))"

subsection \<open>Refresh and streams\<close>

fun refresh_ids :: "client \<Rightarrow> manifest \<Rightarrow> string list \<Rightarrow> CatalogueItem list \<Rightarrow> Slot \<Rightarrow> CatalogueItem list \<times> Slot" where
  "refresh_ids C m [] out s = (out, s)"
| "refresh_ids C m (n # ns) out s =
     (case splitNativeID n of
        None \<Rightarrow> refresh_ids C m ns out s
      | Some (typ, i) \<Rightarrow>
          (case getJSON C (cl_meta C) (mn_base m @ ''/meta/'' @ typ @ ''/'' @ i @ ''.json'') s of
             (Inl _, s') \<Rightarrow> refresh_ids C m ns out s'
           | (Inr me, s') \<Rightarrow>
               if mr_id me = [] then refresh_ids C m ns out s'
               else refresh_ids C m ns (out @ [toCatalogueItem C typ me]) s'))"

definition RefreshAvailability ::
    "client \<Rightarrow> string \<Rightarrow> string list \<Rightarrow> Slot \<Rightarrow> (addon_error + CatalogueItem list) \<times> Slot" where
  "RefreshAvailability C i ns s =
     (if i = [] then (Inl AE_account_required, s)
      else (case manifestFor C i s of
         (Inl e, s') \<Rightarrow> (Inl e, s')
       | (Inr m, s') \<Rightarrow> apfst Inr (refresh_ids C m ns [] s')))"

definition stream_track_of :: "nat \<Rightarrow> string \<Rightarrow> Track" where
  "stream_track_of i url =
     \<lparr>tr_id = ''stream-'' @ Itoa (int i),
      tr_media = Some (Video \<lparr>vt_codec = ''h264'', vt_bitrate = 0, vt_width = 0, vt_height = 0\<rparr>),
      tr_delivery = Some \<lparr>td_locations = [url], td_carried_in = [], td_auth_context = [], td_drm = None, td_refresh_path = []\<rparr>\<rparr>"

definition streams_url :: "manifest \<Rightarrow> string \<Rightarrow> string \<Rightarrow> string" where
  "streams_url m typ i = mn_base m @ ''/stream/'' @ typ @ ''/'' @ i @ ''.json''"

definition ProduceSources :: "client \<Rightarrow> string \<Rightarrow> string \<Rightarrow> Slot \<Rightarrow> (addon_error + MediaSource) \<times> Slot" where
  "ProduceSources C i n s =
     (if i = [] \<or> n = [] then (Inl AE_request, s)
      else (case manifestFor C i s of
         (Inl e, s') \<Rightarrow> (Inl e, s')
       | (Inr m, s') \<Rightarrow>
           (case splitNativeID n of
              None \<Rightarrow> (Inl (AE_native_id n), s')
            | Some (typ, j) \<Rightarrow>
                (case getJSON C (cl_streams C) (streams_url m typ j) s' of
                   (Inl e, s'') \<Rightarrow> (Inl e, s'')
                 | (Inr urls, s'') \<Rightarrow>
                     if urls = [] then (Inl (AE_no_streams n), s'')
                     else (Inr \<lparr>ms_type = MST_STATIC, ms_seekable = SK_FULL, ms_dvr_window = None, ms_addressable = AD_WHOLE_MUX,
                                ms_tracks = map (\<lambda>(k, u). Some (stream_track_of k u)) (enumerate 0 urls)\<rparr>, s'')))))"

subsection \<open>Probing\<close>

definition probe_url :: "string \<Rightarrow> string" where
  "probe_url base =
     (let u = TrimRight_slash base in if HasSuffix u ''/manifest.json'' then u else u @ ''/manifest.json'')"

definition Probe :: "client \<Rightarrow> string \<Rightarrow> string \<Rightarrow> addon_error + string" where
  "Probe C base username =
     (if TrimRight_slash base = [] then Inl AE_url_required
      else (case cl_http C [probe_url base] of
         NetError e \<Rightarrow> Inl (AE_http e)
       | Reply st body \<Rightarrow>
           if st div 100 \<noteq> 2 then Inl (AE_status st)
           else (case cl_manifest C body of
              None \<Rightarrow> Inl AE_decode
            | Some m \<Rightarrow>
                if mn_id m = [] \<and> mn_catalogs m = [] then Inl AE_not_manifest
                else (case cl_marshal C \<lparr>sm_id = username, sm_manifest_url = probe_url base\<rparr> of
                   None \<Rightarrow> Inl AE_decode | Some b \<Rightarrow> Inr b))))"

subsection \<open>Native ids\<close>

lemma snd_getJSON [simp]: "snd (getJSON C decode u s) = s\<lparr>sx_sent := sx_sent s @ [u]\<rparr>"
  by (simp add: getJSON_def Let_def split: reply.split option.split)

lemma getJSON_man: "getJSON C decode u s = (r, s') \<Longrightarrow> sx_man s' = sx_man s"
  using snd_getJSON [of C decode u s] by auto

lemma manifestFor_cached: "map_of (sx_man s) i = Some m \<Longrightarrow> manifestFor C i s = (Inr m, s)"
  by (simp add: manifestFor_def)

lemma manifestFor_caches: "manifestFor C i s = (Inr m, s') \<Longrightarrow> map_of (sx_man s') i = Some m"
  by (auto simp: manifestFor_def Let_def split: option.splits sum.splits prod.splits if_splits)

definition plain_type :: "string \<Rightarrow> bool" where
  "plain_type typ \<longleftrightarrow> typ \<noteq> [] \<and> CHR '':'' \<notin> set typ"

lemma splitNativeID_join:
  assumes "plain_type typ" and "i \<noteq> []"
  shows "splitNativeID (typ @ '':'' @ i) = Some (typ, i)"
proof -
  have "takeWhile (\<lambda>c. c \<noteq> CHR '':'') (typ @ '':'' @ i) = typ"
    using assms(1) by (subst takeWhile_append2) (auto simp: plain_type_def)
  then show ?thesis using assms by (simp add: splitNativeID_def plain_type_def)
qed

lemma splitNativeID_Some:
  assumes "splitNativeID n = Some (typ, i)"
  shows "n = typ @ '':'' @ i \<and> plain_type typ \<and> i \<noteq> []"
proof -
  have "CHR '':'' \<in> set n" using assms by (auto simp: splitNativeID_def Let_def split: if_splits)
  then obtain ys zs where n: "n = ys @ CHR '':'' # zs" "CHR '':'' \<notin> set ys" using split_list_first by metis
  then have "takeWhile (\<lambda>c. c \<noteq> CHR '':'') n = ys" by (subst n(1), subst takeWhile_append2) auto
  then show ?thesis using assms n by (auto simp: splitNativeID_def plain_type_def split: if_splits)
qed

lemma search_catalogs_found:
  "search_catalogs C m q cs out s = (Inr its, s') \<Longrightarrow> it \<in> set its \<Longrightarrow>
     it \<in> set out \<or> (\<exists>c \<in> set cs. \<exists>me. it = toCatalogueItem C (ct_type c) me)"
proof (induction C m q cs out s rule: search_catalogs.induct)
  case (2 C m q c cs out s)
  then obtain metas s1 where 1: "getCatalog C m c (Some q) s = (Inr metas, s1)"
    "search_catalogs C m q cs (out @ map (toCatalogueItem C (ct_type c)) metas) s1 = (Inr its, s')"
    by (auto split: prod.splits sum.splits)
  from "2.IH" [OF 1(1) [symmetric] refl 1(2) "2.prems"(2)] show ?case by auto
qed simp

lemma search_catalogs_man: "search_catalogs C m q cs out s = (r, s') \<Longrightarrow> sx_man s' = sx_man s"
proof (induction C m q cs out s rule: search_catalogs.induct)
  case (2 C m q c cs out s)
  obtain x s1 where 1: "getCatalog C m c (Some q) s = (x, s1)" by fastforce
  then have "sx_man s1 = sx_man s" unfolding getCatalog_def by (rule getJSON_man)
  then show ?case using 2 1 by (cases x) auto
qed simp


subsection \<open>Streams\<close>

text \<open>Every manifest the adapter produces passes the contract of the engine, and has one track for each stream,
  in the addon's order, whose only location is the stream's address.\<close>
theorem stremio_sources_valid:
  assumes "ProduceSources C i n s = (Inr src, s')"
  shows "ValidateMediaSource (Some src) = None
     \<and> (\<exists>body urls. cl_http C (sx_sent s') = Reply (fst body) (snd body) \<and> cl_streams C (snd body) = Some urls
          \<and> map (get_or [] td_locations \<circ> GetDelivery) (ms_tracks src) = map (\<lambda>u. [u]) urls)"
proof -
  obtain m s1 ty j urls where 1: "manifestFor C i s = (Inr m, s1)" "splitNativeID n = Some (ty, j)"
    "getJSON C (cl_streams C) (streams_url m ty j) s1 = (Inr urls, s')" "urls \<noteq> []"
    "src = \<lparr>ms_type = MST_STATIC, ms_seekable = SK_FULL, ms_dvr_window = None, ms_addressable = AD_WHOLE_MUX,
            ms_tracks = map (\<lambda>(k, u). Some (stream_track_of k u)) (enumerate 0 urls)\<rparr>"
    using assms by (auto simp: ProduceSources_def split: if_splits prod.splits sum.splits option.splits)
  have resp: "\<exists>body. cl_http C (sx_sent s') = Reply (fst body) (snd body) \<and> cl_streams C (snd body) = Some urls"
    using 1(3) by (auto simp: getJSON_def Let_def split: reply.splits if_splits option.splits)
  have ids: "map GetTrackId (ms_tracks src) = map (\<lambda>k. ''stream-'' @ Itoa (int k)) [0..<length urls]"
    by (intro nth_equalityI) (simp_all add: 1(5) nth_enumerate_eq stream_track_of_def)
  have "inj_on (\<lambda>k. ''stream-'' @ Itoa (int k)) A" for A by (simp add: inj_on_def Itoa_nat_eq)
  then have d: "distinct (map GetTrackId (ms_tracks src))" unfolding ids by (simp add: distinct_map)
  have wf: "track_wf AD_WHOLE_MUX I (stream_track_of k u)" "locates (Some (stream_track_of k u))" for I k u
    by (simp_all add: track_wf_def stream_track_of_def delivery_reachable_def locates_def)
  have locs: "map (get_or [] td_locations \<circ> GetDelivery) (ms_tracks src) = map (\<lambda>u. [u]) urls"
    by (intro nth_equalityI) (simp_all add: 1(5) nth_enumerate_eq stream_track_of_def)
  have "media_source_wf src"
    using d wf 1(4) by (auto simp: media_source_wf_def 1(5) in_set_enumerate_eq neq_Nil_conv)
  then show ?thesis using resp locs unfolding ValidateMediaSource_wf_iff by blast
qed

subsection \<open>Refresh\<close>

definition addon_refresh ::
    "(addon_error \<Rightarrow> string) \<Rightarrow> client \<Rightarrow> Slot \<Rightarrow> string \<Rightarrow> string list \<Rightarrow> string + CatalogueItem option list" where
  "addon_refresh msg C s i ns =
     (case fst (RefreshAvailability C i ns s) of Inl e \<Rightarrow> Inl (msg e) | Inr its \<Rightarrow> Inr (map Some its))"

text \<open>An addon that cannot be reached.\<close>

definition addon_down :: "client \<Rightarrow> bool" where
  "addon_down C \<longleftrightarrow> (\<forall>sent. \<exists>e. cl_http C sent = NetError e)"

lemma refresh_ids_down: "addon_down C \<Longrightarrow> fst (refresh_ids C m ns out s) = out"
proof (induction C m ns out s rule: refresh_ids.induct)
  case (2 C m n ns out s)
  show ?case
  proof (cases "splitNativeID n")
    case (Some p)
    obtain ty j where p: "p = (ty, j)" by fastforce
    let ?u = "mn_base m @ ''/meta/'' @ ty @ ''/'' @ j @ ''.json''"
    obtain e where e: "cl_http C (sx_sent s @ [?u]) = NetError e" using "2.prems" unfolding addon_down_def by blast
    have "getJSON C (cl_meta C) ?u s = (Inl (AE_http e), s\<lparr>sx_sent := sx_sent s @ [?u]\<rparr>)"
      unfolding getJSON_def Let_def using e by simp
    then show ?thesis using Some p "2.IH"(2) "2.prems" by simp
  qed (use 2 in simp)
qed simp

text \<open>C35: An addon that cannot be reached is taken for one that has nothing: once its manifest is cached, a refresh
  succeeds although every request failed, deletes the rows of all the items it was asked about, and
  announces each as no longer available.\<close>
theorem outage_deletes_rows:
  assumes "addon_down C" and "map_of (sx_man s) i = Some m" and "i \<noteq> []" and "ns \<noteq> []"
    and "synchronizer_wired sy" and "sy_refresh sy = Some (addon_refresh msg C s)"
    and "identity_ok (ss_reg st)" and "Store_ok (ss_cache st)"
  shows "\<exists>stats st' evs. RefreshItems sy i ns st = (None, stats, st') \<and> sa_removed stats = length ns
     \<and> (\<forall>n \<in> set ns. view (ss_cache st') (item_prefix sy i @ n) = None)
     \<and> ss_events st' = ss_events st @ evs
     \<and> map ev_payload evs = concat (map (\<lambda>n. news (identity_Lookup (ss_reg st)) (sy_provider sy) i (n, False)) ns)"
proof -
  have "fst (RefreshAvailability C i ns s) = Inr []"
    using assms(3) refresh_ids_down [OF assms(1), of m ns "[]" s]
    by (cases "refresh_ids C m ns [] s") (simp add: RefreshAvailability_def manifestFor_cached [OF assms(2)])
  then have empty: "addon_refresh msg C s i ns = Inr []" by (simp add: addon_refresh_def)
  obtain c evs where d: "drop_departed sy i ns 0 st = (None, 0 + length ns, st\<lparr>ss_cache := c, ss_events := ss_events st @ evs\<rparr>)"
    "view c = view (ss_cache st) |` (- (\<lambda>n. item_prefix sy i @ n) ` set ns)"
    "map ev_payload evs = concat (map (\<lambda>n. news (identity_Lookup (ss_reg st)) (sy_provider sy) i (n, False)) ns)"
    using ident.drop_departed_wired [OF assms(5) [unfolded synchronizer_wired_iff] assms(3,7,8)] by blast
  have "RefreshItems sy i ns st
      = (None, \<lparr>sa_items = 0, sa_pages = 0, sa_removed = length ns\<rparr>, st\<lparr>ss_cache := c, ss_events := ss_events st @ evs\<rparr>)"
    using assms(4,6) d(1) by (simp add: RefreshItems_def empty page_items_def List.map_filter_simps)
  then show ?thesis using d(2,3) by (auto simp: restrict_map_def)
qed

subsection \<open>An addon\<close>

definition demo_manifest :: manifest where
  "demo_manifest = \<lparr>mn_id = ''x'', mn_name = ''X'', mn_types = [''movie''],
     mn_catalogs = [\<lparr>ct_type = ''movie'', ct_id = ''top''\<rparr>], mn_base = ''http://h''\<rparr>"

definition demo_addon :: "reply \<Rightarrow> client" where
  "demo_addon r = \<lparr>cl_src = (\<lambda>_. Inr \<lparr>sm_id = ''a'', sm_manifest_url = ''http://h/manifest.json''\<rparr>), cl_http = (\<lambda>_. r),
     cl_escape = (\<lambda>s. s), cl_uint32 = (\<lambda>_. 0), cl_manifest = (\<lambda>_. Some demo_manifest),
     cl_metas = (\<lambda>_. Some [\<lparr>mr_id = ''7'', mr_type = ''movie'', mr_name = ''Alien'', mr_year = JNil\<rparr>]),
     cl_meta = (\<lambda>_. None), cl_streams = (\<lambda>_. Some [''http://h/f'', ''http://h/g'']), cl_marshal = (\<lambda>_. None)\<rparr>"

definition demo_addon_slot :: Slot where
  "demo_addon_slot = \<lparr>sx_ids = [''a''], sx_man = [(''a'', demo_manifest)], sx_sent = []\<rparr>"

lemma demo_addon_man: "map_of (sx_man demo_addon_slot) ''a'' = Some demo_manifest"
  by (simp add: demo_addon_slot_def)

lemma demo_addon_search:
  "SearchCatalog (demo_addon (Reply 200 [])) ''a'' ''al'' demo_addon_slot
    = (Inr [toCatalogueItem (demo_addon (Reply 200 [])) ''movie'' \<lparr>mr_id = ''7'', mr_type = ''movie'', mr_name = ''Alien'', mr_year = JNil\<rparr>],
       demo_addon_slot\<lparr>sx_sent := [''http://h/catalog/movie/top.json?search=al'']\<rparr>)"
proof -
  have "TrimSpace ''al'' = ''al''" by (simp add: TrimSpace_ascii ascii_def IsSpace_def)
  then show ?thesis
    by (simp add: SearchCatalog_def manifestFor_cached [OF demo_addon_man])
      (simp add: demo_manifest_def getCatalog_def getJSON_def catalog_url_def demo_addon_def demo_addon_slot_def Let_def)
qed


theorem stremio_sources_valid_witness:
  "\<exists>src s'. ProduceSources (demo_addon (Reply 200 [])) ''a'' ''movie:7'' demo_addon_slot = (Inr src, s')
     \<and> ValidateMediaSource (Some src) = None \<and> length (ms_tracks src) = 2"
proof -
  have split: "splitNativeID ''movie:7'' = Some (''movie'', ''7'')" by (simp add: splitNativeID_def)
  have "\<not> is_err (fst (ProduceSources (demo_addon (Reply 200 [])) ''a'' ''movie:7'' demo_addon_slot))"
    by (simp add: ProduceSources_def manifestFor_cached [OF demo_addon_man] split)
      (simp add: getJSON_def demo_addon_def Let_def)
  then obtain src s' where p: "ProduceSources (demo_addon (Reply 200 [])) ''a'' ''movie:7'' demo_addon_slot = (Inr src, s')"
    by (cases "ProduceSources (demo_addon (Reply 200 [])) ''a'' ''movie:7'' demo_addon_slot") (auto simp: is_err_def split: sum.splits)
  then obtain body :: "int \<times> string" and urls where "ValidateMediaSource (Some src) = None" "cl_streams (demo_addon (Reply 200 [])) (snd body) = Some urls"
    "map (get_or [] td_locations \<circ> GetDelivery) (ms_tracks src) = map (\<lambda>u. [u]) urls"
    using stremio_sources_valid [OF p] by blast
  then show ?thesis using p arg_cong [of _ _ length] by (fastforce simp: demo_addon_def)
qed

definition demo_addon_sync :: "(identity_state, reg_error) Synchronizer" where
  "demo_addon_sync = (demo_sync [])\<lparr>sy_refresh := Some (addon_refresh (\<lambda>_. ''e'') (demo_addon (NetError ''down'')) demo_addon_slot)\<rparr>"

theorem outage_deletes_rows_witness:
  "\<exists>stats st'. RefreshItems demo_addon_sync ''a'' [''500''] demo_removal_state = (None, stats, st')
     \<and> view (ss_cache demo_removal_state) ''p/a/500'' \<noteq> None \<and> view (ss_cache st') ''p/a/500'' = None"
proof -
  have ok: "identity_ok (ss_reg demo_removal_state)" "Store_ok (ss_cache demo_removal_state)"
    using demo_sync_ok mem_ok_Store_ok [OF mem.put_ok [OF mem_ok_new]] by (simp_all add: demo_removal_state_def demo_sync_state_def)
  have row: "view (ss_cache demo_removal_state) ''p/a/500'' \<noteq> None"
    by (simp add: demo_removal_state_def demo_sync_state_def store_simps)
  have sy: "synchronizer_wired demo_addon_sync" "item_prefix demo_addon_sync ''a'' = ''p/a/''"
    "sy_refresh demo_addon_sync = Some (addon_refresh (\<lambda>_. ''e'') (demo_addon (NetError ''down'')) demo_addon_slot)"
    using demo_sync_wired [of "[]"] by (simp_all add: demo_addon_sync_def synchronizer_wired_def item_prefix_def demo_sync_def)
  have down: "addon_down (demo_addon (NetError ''down''))" by (simp add: addon_down_def demo_addon_def)
  show ?thesis
    using outage_deletes_rows [OF down demo_addon_man _ _ sy(1,3) ok, of "[''500'']"] row by (auto simp: sy(2))
qed

end
