(* ===== verification/Tmdb.thy ===== *)
theory Tmdb
  imports Enrichment Policy Strconv Utf8
begin

text \<open>
  The TMDB adapter, \<open>adapters/tmdb/tmdb.go\<close>: the lookup of titles, the resolution of a reference to a record,
  and the mapping of TMDB's answers to the catalogue contract.

  The server is an argument: \<open>tm_http\<close> answers the last of the requests sent so far; a request that is cancelled
  or cannot be built is a \<^verbatim>\<open>TM_failed\<close>. A request is its path and its parameters, \<open>url.Values\<close> with
  single values; \<open>url.PathEscape\<close>, JSON decoding and the conversion of a rating to \<open>float32\<close>
  are arguments. A slot records what it asked and how long it slept; the pace of requests is not part
  of it. \<open>time.Duration\<close> is a 64-bit integer of nanoseconds.
\<close>

subsection \<open>Data\<close>

definition language :: string where "language = ''en-US''"
definition maxCandidates :: nat where "maxCandidates = 5"
definition maxCast :: nat where "maxCast = 5"
definition second :: int where "second = 1000000000"
definition maxBackoff :: int where "maxBackoff = 30 * second"

definition posterURL :: "string \<Rightarrow> string" where
  "posterURL path = (if path = [] then [] else ''https://image.tmdb.org/t/p/'' @ ''w500'' @ path)"

record searchResult =
  sr_id :: int
  sr_media_type :: string
  sr_title :: string
  sr_name :: string
  sr_original_title :: string
  sr_original_name :: string
  sr_release_date :: string
  sr_first_air_date :: string
  sr_imdb :: string

text \<open>The raw value of \<open>tvdb_id\<close>: absent or null, a number, a string, or something else.\<close>

datatype raw_id = RawNone | RawInt int | RawString string | RawOther

record detail =
  dt_id :: int
  dt_title :: string
  dt_name :: string
  dt_overview :: string
  dt_release_date :: string
  dt_first_air_date :: string
  dt_vote_average :: go_float
  dt_poster_path :: string
  dt_original_language :: string
  dt_runtime :: int
  dt_seasons :: int
  dt_episodes :: int
  dt_cast :: "string list"
  dt_crew :: "(string \<times> string) list"                   \<comment> \<open>name and job\<close>
  dt_imdb :: string
  dt_wikidata :: string
  dt_tvdb :: raw_id
  dt_release_dates :: "(string \<times> string list) list"      \<comment> \<open>country and certifications\<close>
  dt_content_ratings :: "(string \<times> string) list"          \<comment> \<open>country and rating\<close>

record found_ids =
  fr_movies :: "int list"
  fr_series :: "int list"

record request =
  rq_path :: string
  rq_params :: "(string \<times> string) list"

datatype response = TM_failed string | TM_reply int string string  \<comment> \<open>status, \<open>Retry-After\<close>, body\<close>

datatype tmdb_error =
    TE_no_credential | TE_not_set string | TE_empty_query | TE_ref string | TE_namespace string | TE_no_title string
  | TE_unresolved string string | TE_failed string | TE_rate_limited int | TE_status int | TE_decode

record api =
  tm_http :: "request list \<Rightarrow> response"
  tm_escape :: "string \<Rightarrow> string"
  tm_rating :: "go_float \<Rightarrow> 32 word"
  tm_results :: "string \<Rightarrow> searchResult list option"
  tm_found :: "string \<Rightarrow> found_ids option"
  tm_exists :: "string \<Rightarrow> unit option"
  tm_detail :: "string \<Rightarrow> detail option"

record Slot =
  tm_token :: string
  tm_sent :: "request list"
  tm_slept :: "int list"

definition New :: "(string \<Rightarrow> string) \<Rightarrow> string \<Rightarrow> tmdb_error + Slot" where
  "New getenv tokenEnv =
     (if tokenEnv = [] then Inl TE_no_credential
      else if getenv tokenEnv = [] then Inl (TE_not_set tokenEnv)
      else Inr \<lparr>tm_token = getenv tokenEnv, tm_sent = [], tm_slept = []\<rparr>)"

definition CapabilityQuery :: "(string \<times> 32 word) list \<times> (string \<times> string) list" where
  "CapabilityQuery = ([(''meta'', 1), (''lookup-title'', 1), (''get-metadata'', 1)], [])"

definition Namespaces :: "string list" where "Namespaces = [''tmdb'', ''imdb'', ''tvdb'']"

subsection \<open>Requests\<close>

text \<open>The product of a number of seconds and \<open>time.Second\<close> wraps at 64 bits.\<close>

definition duration :: "int \<Rightarrow> int" where "duration i = sint (word_of_int i :: 64 word)"

definition retryAfterOf :: "string \<Rightarrow> int" where
  "retryAfterOf header =
     (case Atoi (TrimSpace header) of
        None \<Rightarrow> 0
      | Some secs \<Rightarrow> if secs > 0 then duration (secs * second) else 0)"

definition backoffFor :: "int \<Rightarrow> int" where
  "backoffFor retryAfter = (if 0 < retryAfter \<and> retryAfter \<le> maxBackoff then retryAfter else second)"

definition fetch :: "api \<Rightarrow> string \<Rightarrow> (string \<times> string) list \<Rightarrow> Slot \<Rightarrow> (tmdb_error + string) \<times> Slot" where
  "fetch A path params s =
     (let s' = s\<lparr>tm_sent := tm_sent s @ [\<lparr>rq_path = path, rq_params = params\<rparr>]\<rparr>
      in case tm_http A (tm_sent s') of
           TM_failed e \<Rightarrow> (Inl (TE_failed e), s')
         | TM_reply st retry body \<Rightarrow>
             if st = 200 then (Inr body, s')
             else if st = 429 then (Inl (TE_rate_limited (retryAfterOf retry)), s')
             else (Inl (TE_status st), s'))"

definition get_json :: "api \<Rightarrow> (string \<Rightarrow> 'a option) \<Rightarrow> string \<Rightarrow> (string \<times> string) list \<Rightarrow> Slot \<Rightarrow> (tmdb_error + 'a) \<times> Slot" where
  "get_json A decode path params s =
     (case (case fetch A path params s of
              (Inl (TE_rate_limited r), s1) \<Rightarrow> fetch A path params (s1\<lparr>tm_slept := tm_slept s1 @ [backoffFor r]\<rparr>)
            | (r, s1) \<Rightarrow> (r, s1)) of
        (Inl e, s2) \<Rightarrow> (Inl e, s2)
      | (Inr body, s2) \<Rightarrow> (case decode body of None \<Rightarrow> (Inl TE_decode, s2) | Some x \<Rightarrow> (Inr x, s2)))"

subsection \<open>Looking up titles\<close>

fun firstNonEmpty :: "string list \<Rightarrow> string" where
  "firstNonEmpty [] = []"
| "firstNonEmpty (v # vs) = (if v \<noteq> [] then v else firstNonEmpty vs)"

definition yearOf :: "string \<Rightarrow> 32 word" where
  "yearOf date =
     (if length date < 4 then 0
      else (case parse_digits 0 (take 4 date) of None \<Rightarrow> 0 | Some y \<Rightarrow> of_nat y))"

definition resultKind :: "string \<Rightarrow> searchResult \<Rightarrow> ItemKind option" where
  "resultKind searched hit =
     (let mt = (if sr_media_type hit = [] then searched else sr_media_type hit)
      in if mt = ''movie'' then Some IK_MOVIE else if mt = ''tv'' then Some IK_SERIES else None)"

definition candidate :: "string \<Rightarrow> searchResult \<Rightarrow> TitleCandidate option" where
  "candidate searched r =
     (case resultKind searched r of
        None \<Rightarrow> None
      | Some kind \<Rightarrow>
          if sr_id r = 0 then None
          else
            (let title = firstNonEmpty [sr_title r, sr_name r]
             in if title = [] then None
                else Some \<lparr>tc_ref = ''tmdb:'' @ Itoa (sr_id r), tc_kind = kind, tc_title = title,
                       tc_original_title = firstNonEmpty [sr_original_title r, sr_original_name r],
                       tc_year = yearOf (firstNonEmpty [sr_release_date r, sr_first_air_date r]),
                       tc_external_ids = (if sr_imdb r \<noteq> [] then [Some \<lparr>eid_namespace = ''imdb'', eid_value = sr_imdb r\<rparr>] else [])\<rparr>))"

definition search_media :: "ItemKind \<Rightarrow> string" where
  "search_media k = (case k of IK_MOVIE \<Rightarrow> ''movie'' | IK_SERIES \<Rightarrow> ''tv'' | _ \<Rightarrow> ''multi'')"

definition search_params :: "string \<Rightarrow> ItemKind \<Rightarrow> 32 word \<Rightarrow> (string \<times> string) list" where
  "search_params q k y =
     [(''query'', q), (''language'', language)]
       @ (if y > 0 then (case k of IK_MOVIE \<Rightarrow> [(''year'', Itoa (uint y))]
                         | IK_SERIES \<Rightarrow> [(''first_air_date_year'', Itoa (uint y))] | _ \<Rightarrow> []) else [])"

definition LookupTitle ::
    "api \<Rightarrow> string \<Rightarrow> ItemKind \<Rightarrow> 32 word \<Rightarrow> Slot \<Rightarrow> (tmdb_error + TitleCandidate option list) \<times> Slot" where
  "LookupTitle A query k y s =
     (let q = TrimSpace query
      in if q = [] then (Inl TE_empty_query, s)
         else (case get_json A (tm_results A) (''/search/'' @ search_media k) (search_params q k y) s of
            (Inl e, s') \<Rightarrow> (Inl e, s')
          | (Inr results, s') \<Rightarrow>
              (Inr (map Some (take maxCandidates (List.map_filter (candidate (search_media k)) results))), s')))"

subsection \<open>Records\<close>

fun first_certification :: "string list \<Rightarrow> string" where
  "first_certification [] = []"
| "first_certification (c # cs) = (if c \<noteq> [] then c else first_certification cs)"

fun movieCertification :: "(string \<times> string list) list \<Rightarrow> string" where
  "movieCertification [] = []"
| "movieCertification ((country, cs) # rs) =
     (if country = ''US'' \<and> first_certification cs \<noteq> [] then first_certification cs else movieCertification rs)"

fun tvRating :: "(string \<times> string) list \<Rightarrow> string" where
  "tvRating [] = []"
| "tvRating ((country, r) # rs) = (if country = ''US'' then r else tvRating rs)"

definition tvdbID :: "raw_id \<Rightarrow> string" where
  "tvdbID raw = (case raw of RawInt n \<Rightarrow> Itoa n | RawString t \<Rightarrow> t | _ \<Rightarrow> [])"

fun directors :: "string list \<Rightarrow> (string \<times> string) list \<Rightarrow> string list" where
  "directors ds [] = ds"
| "directors ds ((name, job) # cs) =
     (if job = ''Director'' \<and> name \<noteq> [] \<and> name \<notin> set ds then directors (ds @ [name]) cs else directors ds cs)"

definition kind_specific :: "detail \<Rightarrow> string \<Rightarrow> KindSpecific option" where
  "kind_specific d media =
     (if media = ''movie'' then (if dt_runtime d > 0 then Some (Movie (of_int (dt_runtime d))) else None)
      else Some (Series (of_int (dt_seasons d)) (of_int (dt_episodes d))))"

definition named_id :: "string \<Rightarrow> string \<Rightarrow> ExternalId option list" where
  "named_id ns v = (if v = [] then [] else [Some \<lparr>eid_namespace = ns, eid_value = v\<rparr>])"

definition detail_response :: "api \<Rightarrow> detail \<Rightarrow> string \<Rightarrow> GetMetadataResponse" where
  "detail_response A d media =
     \<lparr>gm_metadata = Some (empty_metadata\<lparr>md_title := firstNonEmpty [dt_title d, dt_name d],
         md_year := yearOf (firstNonEmpty [dt_release_date d, dt_first_air_date d]),
         md_description := dt_overview d, md_rating := tm_rating A (dt_vote_average d),
         md_poster_url := posterURL (dt_poster_path d), md_original_language := dt_original_language d,
         md_kind_specific := kind_specific d media,
         md_content_rating := (if media = ''movie'' then movieCertification (dt_release_dates d) else tvRating (dt_content_ratings d)),
         md_cast := take maxCast (filter (\<lambda>n. n \<noteq> []) (dt_cast d)), md_directors := directors [] (dt_crew d)\<rparr>),
      gm_external_ids = [Some \<lparr>eid_namespace = ''tmdb'', eid_value = Itoa (dt_id d)\<rparr>]
         @ named_id ''imdb'' (dt_imdb d) @ named_id ''wikidata'' (dt_wikidata d) @ named_id ''tvdb'' (tvdbID (dt_tvdb d))\<rparr>"

definition details_params :: "string \<Rightarrow> (string \<times> string) list" where
  "details_params media =
     [(''append_to_response'', if media = ''movie'' then ''external_ids,credits,release_dates''
        else ''external_ids,credits,content_ratings''), (''language'', language)]"

definition details :: "api \<Rightarrow> string \<Rightarrow> string \<Rightarrow> Slot \<Rightarrow> (tmdb_error + detail) \<times> Slot" where
  "details A media i s = get_json A (tm_detail A) (''/'' @ media @ ''/'' @ tm_escape A i) (details_params media) s"

text \<open>The loop over the two kinds.\<close>

fun resolve_media :: "api \<Rightarrow> string \<Rightarrow> string list \<Rightarrow> Slot \<Rightarrow> (tmdb_error + string) \<times> Slot" where
  "resolve_media A i [] s = (Inl (TE_no_title i), s)"
| "resolve_media A i (media # ms) s =
     (case get_json A (tm_exists A) (''/'' @ media @ ''/'' @ tm_escape A i) [] s of
        (Inr _, s') \<Rightarrow> (Inr media, s')
      | (Inl e, s') \<Rightarrow> if e = TE_status 404 then resolve_media A i ms s' else (Inl e, s'))"

definition resolveNative :: "api \<Rightarrow> string \<Rightarrow> Slot \<Rightarrow> (tmdb_error + string) \<times> Slot" where
  "resolveNative A i s = resolve_media A i [''movie'', ''tv''] s"

definition findBy :: "api \<Rightarrow> string \<Rightarrow> string \<Rightarrow> Slot \<Rightarrow> (tmdb_error + string \<times> string) \<times> Slot" where
  "findBy A val source s =
     (case get_json A (tm_found A) (''/find/'' @ tm_escape A val) [(''external_source'', source)] s of
        (Inl e, s') \<Rightarrow> (Inl e, s')
      | (Inr page, s') \<Rightarrow>
          (case fr_movies page of
             m # _ \<Rightarrow> (Inr (Itoa m, ''movie''), s')
           | [] \<Rightarrow>
               (case fr_series page of
                  t # _ \<Rightarrow> (Inr (Itoa t, ''tv''), s')
                | [] \<Rightarrow> (Inl (TE_unresolved source val), s'))))"

definition GetMetadata :: "api \<Rightarrow> string \<Rightarrow> Slot \<Rightarrow> (tmdb_error + GetMetadataResponse) \<times> Slot" where
  "GetMetadata A ref s =
     (case Cut ref CHR '':'' of
        None \<Rightarrow> (Inl (TE_ref ref), s)
      | Some (ns, val) \<Rightarrow>
          if ns = [] \<or> val = [] then (Inl (TE_ref ref), s)
          else
            (case (if ns = ''tmdb'' then (case resolveNative A val s of
                       (Inl e, s') \<Rightarrow> (Inl e, s') | (Inr media, s') \<Rightarrow> (Inr (val, media), s'))
                   else if ns = ''imdb'' then findBy A val ''imdb_id'' s
                   else if ns = ''tvdb'' then findBy A val ''tvdb_id'' s
                   else (Inl (TE_namespace ns), s)) of
               (Inl e, s1) \<Rightarrow> (Inl e, s1)
             | (Inr (i, media), s1) \<Rightarrow>
                 (case details A media i s1 of
                    (Inl e, s2) \<Rightarrow> (Inl e, s2)
                  | (Inr d, s2) \<Rightarrow> (Inr (detail_response A d media), s2))))"

subsection \<open>Waiting\<close>

text \<open>A request is repeated at most once, after a pause of at most thirty seconds, whatever the server asks for.\<close>
theorem retry_bounded:
  "\<exists>reqs naps. snd (get_json A decode path params s) = s\<lparr>tm_sent := tm_sent s @ reqs, tm_slept := tm_slept s @ naps\<rparr>
     \<and> set reqs = {\<lparr>rq_path = path, rq_params = params\<rparr>} \<and> length reqs = length naps + 1 \<and> length naps \<le> 1
     \<and> (\<forall>d \<in> set naps. 0 < d \<and> d \<le> maxBackoff)"
proof -
  let ?r = "\<lparr>rq_path = path, rq_params = params\<rparr>"
  have f: "snd (fetch A path params s) = s\<lparr>tm_sent := tm_sent s @ [?r]\<rparr>" for s
    by (simp add: fetch_def Let_def split: response.split)
  have b: "0 < backoffFor d \<and> backoffFor d \<le> maxBackoff" for d
    by (simp add: backoffFor_def maxBackoff_def second_def)
  obtain x s1 where 1: "fetch A path params s = (x, s1)" by fastforce
  then have s1: "s1 = s\<lparr>tm_sent := tm_sent s @ [?r]\<rparr>" using f [of s] by simp
  show ?thesis
  proof (cases "\<exists>d. x = Inl (TE_rate_limited d)")
    case True
    then obtain d where d: "x = Inl (TE_rate_limited d)" by blast
    let ?s = "s1\<lparr>tm_slept := tm_slept s1 @ [backoffFor d]\<rparr>"
    obtain y s2 where 2: "fetch A path params ?s = (y, s2)" by fastforce
    then have "s2 = ?s\<lparr>tm_sent := tm_sent ?s @ [?r]\<rparr>" using f [of ?s] by simp
    moreover have "snd (get_json A decode path params s) = s2"
      using 1 2 d by (simp add: get_json_def split: sum.split option.split)
    ultimately show ?thesis using s1 b by (intro exI [of _ "[?r, ?r]"] exI [of _ "[backoffFor d]"]) simp
  next
    case False
    then have "snd (get_json A decode path params s) = s1"
      using 1 by (auto simp: get_json_def split: sum.split option.split tmdb_error.split)
    then show ?thesis using s1 by (intro exI [of _ "[?r]"] exI [of _ "[]"]) simp
  qed
qed

subsection \<open>Candidates\<close>

lemma firstNonEmpty_ne: "firstNonEmpty vs \<noteq> [] \<longleftrightarrow> (\<exists>v \<in> set vs. v \<noteq> [])"
  by (induction vs) auto

lemma Itoa_ne [simp]: "Itoa i \<noteq> []"
proof -
  have "nat_digits n \<noteq> []" for n using nat_digits_Cons [of n] by auto
  then show ?thesis by (simp add: Itoa_def)
qed

lemma candidate_valid:
  assumes "candidate searched r = Some c"
  shows "validate_candidate (Some c) = None" and "tc_kind c \<in> {IK_MOVIE, IK_SERIES}"
    and "Cut (tc_ref c) CHR '':'' = Some (''tmdb'', Itoa (sr_id r))" and "sr_id r \<noteq> 0"
proof -
  obtain kind where k: "resultKind searched r = Some kind" using assms by (auto simp: candidate_def split: option.splits)
  then have "kind \<in> {IK_MOVIE, IK_SERIES}" by (auto simp: resultKind_def Let_def split: if_splits)
  then show "tc_kind c \<in> {IK_MOVIE, IK_SERIES}" using assms k by (auto simp: candidate_def Let_def split: if_splits)
  have ref: "tc_ref c = ''tmdb'' @ CHR '':'' # Itoa (sr_id r)" and t: "tc_title c \<noteq> []"
    using assms k by (auto simp: candidate_def Let_def split: if_splits)
  show "Cut (tc_ref c) CHR '':'' = Some (''tmdb'', Itoa (sr_id r))" unfolding ref by (rule Cut_append) simp
  show "validate_candidate (Some c) = None" using t by (simp add: validate_candidate_def ref)
  show "sr_id r \<noteq> 0" using assms k by (auto simp: candidate_def split: if_splits)
qed

text \<open>A lookup answers with at most five candidates, each valid by the contract and a movie or a series, each with a
  reference that the slot itself accepts: the native namespace and the id of one of the hits.\<close>
theorem LookupTitle_candidates:
  assumes "LookupTitle A query k y s = (Inr cs, s')"
  shows "length cs \<le> maxCandidates \<and> ValidateLookupTitleResponse (Some cs) = None
     \<and> (\<forall>c \<in> set cs. \<exists>c' n. c = Some c' \<and> tc_kind c' \<in> {IK_MOVIE, IK_SERIES} \<and> n \<noteq> 0
          \<and> Cut (tc_ref c') CHR '':'' = Some (''tmdb'', Itoa n))"
proof -
  obtain results where cs: "cs = map Some (take maxCandidates (List.map_filter (candidate (search_media k)) results))"
    using assms by (auto simp: LookupTitle_def Let_def split: if_splits prod.splits sum.splits)
  have c: "\<exists>r. candidate (search_media k) r = Some c'" if "Some c' \<in> set cs" for c'
    using that unfolding cs by (fastforce simp: List.map_filter_def dest: in_set_takeD)
  have ex: "\<exists>c' r. c = Some c' \<and> candidate (search_media k) r = Some c'" if "c \<in> set cs" for c
    using that c by (cases c) (auto simp: cs)
  have "validate_candidate c = None" if c: "c \<in> set cs" for c
    using ex [OF c] candidate_valid(1) by auto
  moreover have "\<exists>c' n. c = Some c' \<and> tc_kind c' \<in> {IK_MOVIE, IK_SERIES} \<and> n \<noteq> 0
          \<and> Cut (tc_ref c') CHR '':'' = Some (''tmdb'', Itoa n)" if c: "c \<in> set cs" for c
  proof -
    obtain c' r where r: "c = Some c'" "candidate (search_media k) r = Some c'" using ex [OF c] by blast
    show ?thesis using candidate_valid(2-4) [OF r(2)] r(1) by blast
  qed
  moreover have "length cs \<le> maxCandidates" by (simp add: cs)
  moreover have "ValidateLookupTitleResponse (Some cs) = first_err validate_candidate cs" by (simp add: ValidateLookupTitleResponse_def)
  ultimately show ?thesis by (simp only: first_err_None_iff) blast
qed

subsection \<open>Records\<close>

text \<open>Whatever the reference, an answer passes the contract exactly when TMDB's record has a title, and its first
  identity is the record's own id in the native namespace.\<close>
theorem GetMetadata_valid:
  assumes "GetMetadata A ref s = (Inr resp, s')"
  shows "(ValidateGetMetadataResponse (Some resp) = None \<longleftrightarrow> GetTitle (gm_metadata resp) \<noteq> [])
     \<and> (\<exists>d media. resp = detail_response A d media \<and> media \<in> {''movie'', ''tv''}
          \<and> hd (gm_external_ids resp) = Some \<lparr>eid_namespace = ''tmdb'', eid_value = Itoa (dt_id d)\<rparr>)"
proof -
  have native: "media \<in> {''movie'', ''tv''}" if "resolveNative A i s1 = (Inr media, s2)" for i media s1 s2
    using that by (auto simp: resolveNative_def split: prod.splits sum.splits if_splits)
  have foreign: "media \<in> {''movie'', ''tv''}" if "findBy A v src s1 = (Inr (i, media), s2)" for v src i media s1 s2
    using that by (auto simp: findBy_def split: prod.splits sum.splits list.splits)
  obtain i media s1 d where "details A media i s1 = (Inr d, s')" and r: "resp = detail_response A d media" "media \<in> {''movie'', ''tv''}"
    using assms by (auto simp: GetMetadata_def split: option.splits prod.splits sum.splits if_splits dest!: native foreign)
  have "validate_metadata_id x = None" if "x \<in> set (named_id ns v)" "ns \<noteq> []" for x ns v
    using that by (auto simp: named_id_def validate_metadata_id_def split: if_splits)
  note named = this [OF _ list.distinct(2)]
  have "validate_metadata_id (Some \<lparr>eid_namespace = ''tmdb'', eid_value = Itoa (dt_id d)\<rparr>) = None"
    by (simp add: validate_metadata_id_def)
  then have "\<forall>x \<in> set (gm_external_ids resp). validate_metadata_id x = None"
    using named by (auto simp: r(1) detail_response_def)
  moreover have "gm_metadata resp \<noteq> None" by (simp add: r(1) detail_response_def)
  ultimately have "ValidateGetMetadataResponse (Some resp) = None \<longleftrightarrow> GetTitle (gm_metadata resp) \<noteq> []"
    by (simp add: ValidateGetMetadataResponse_def first_err_None_iff)
  moreover have "hd (gm_external_ids resp) = Some \<lparr>eid_namespace = ''tmdb'', eid_value = Itoa (dt_id d)\<rparr>"
    by (simp add: r(1) detail_response_def)
  ultimately show ?thesis using r by blast
qed

text \<open>A server that answers a request the same at any time.\<close>

definition hosts :: "api \<Rightarrow> (request \<Rightarrow> response) \<Rightarrow> bool" where
  "hosts A R \<longleftrightarrow> (\<forall>sent r. tm_http A (sent @ [r]) = R r)"

lemma get_json_hosts:
  assumes "hosts A R" and "R \<lparr>rq_path = path, rq_params = params\<rparr> = TM_reply 200 h body" and "decode body = Some x"
  shows "get_json A decode path params s = (Inr x, s\<lparr>tm_sent := tm_sent s @ [\<lparr>rq_path = path, rq_params = params\<rparr>]\<rparr>)"
  using assms by (simp add: get_json_def fetch_def hosts_def Let_def)

text \<open>A series is read as a movie when a movie has its number: TMDB numbers movies and series apart, a reference
  carries no kind, and the slot asks for the movie first. The record of a series candidate is then that
  of the movie, although the server has the series.\<close>
theorem series_ref_reads_movie:
  assumes "hosts A R" and "candidate ''tv'' hit = Some c" and "tc_kind c = IK_SERIES"
    and "R \<lparr>rq_path = ''/movie/'' @ tm_escape A (Itoa (sr_id hit)), rq_params = []\<rparr> = TM_reply 200 h1 b1" and "tm_exists A b1 = Some ()"
    and "R \<lparr>rq_path = ''/movie/'' @ tm_escape A (Itoa (sr_id hit)), rq_params = details_params ''movie''\<rparr> = TM_reply 200 h2 b2"
    and "tm_detail A b2 = Some film"
    and "R \<lparr>rq_path = ''/tv/'' @ tm_escape A (Itoa (sr_id hit)), rq_params = details_params ''tv''\<rparr> = TM_reply 200 h3 b3"
    and "tm_detail A b3 = Some series"
  shows "fst (GetMetadata A (tc_ref c) s) = Inr (detail_response A film ''movie'')
     \<and> fst (details A ''tv'' (Itoa (sr_id hit)) s) = Inr series"
proof -
  let ?i = "Itoa (sr_id hit)"
  have cut: "Cut (tc_ref c) CHR '':'' = Some (''tmdb'', ?i)" using candidate_valid(3) [OF assms(2)] .
  have res: "resolveNative A ?i s = (Inr ''movie'', s\<lparr>tm_sent := tm_sent s @ [\<lparr>rq_path = ''/movie/'' @ tm_escape A ?i, rq_params = []\<rparr>]\<rparr>)"
    using get_json_hosts [where decode = "tm_exists A", OF assms(1,4,5)] by (simp add: resolveNative_def)
  have film: "fst (details A ''movie'' ?i s') = Inr film" for s'
    using get_json_hosts [where decode = "tm_detail A", OF assms(1,6,7)] by (simp add: details_def)
  have series: "fst (details A ''tv'' ?i s') = Inr series" for s'
    using get_json_hosts [where decode = "tm_detail A", OF assms(1,8,9)] by (simp add: details_def)
  have "fst (GetMetadata A (tc_ref c) s) = Inr (detail_response A film ''movie'')"
    using film [of "s\<lparr>tm_sent := tm_sent s @ [\<lparr>rq_path = ''/movie/'' @ tm_escape A ?i, rq_params = []\<rparr>]\<rparr>"]
    by (simp add: GetMetadata_def cut res split: prod.split) (auto split: sum.split prod.split)
  then show ?thesis using series by blast
qed

subsection \<open>A server\<close>

definition demo_hit :: searchResult where
  "demo_hit = \<lparr>sr_id = 9, sr_media_type = [], sr_title = [], sr_name = ''S'', sr_original_title = [], sr_original_name = [],
     sr_release_date = [], sr_first_air_date = ''2011-04-17'', sr_imdb = []\<rparr>"

definition demo_detail :: "string \<Rightarrow> detail" where
  "demo_detail title = \<lparr>dt_id = 9, dt_title = title, dt_name = [], dt_overview = [], dt_release_date = [], dt_first_air_date = [],
     dt_vote_average = Finite 0, dt_poster_path = [], dt_original_language = [], dt_runtime = 90, dt_seasons = 0, dt_episodes = 0,
     dt_cast = [], dt_crew = [], dt_imdb = [], dt_wikidata = [], dt_tvdb = RawNone, dt_release_dates = [], dt_content_ratings = []\<rparr>"

text \<open>Each request is answered with its own path.\<close>

definition demo_tmdb :: api where
  "demo_tmdb = \<lparr>tm_http = (\<lambda>sent. TM_reply 200 [] (rq_path (last sent))), tm_escape = (\<lambda>s. s), tm_rating = (\<lambda>_. 0),
     tm_results = (\<lambda>_. Some [demo_hit]), tm_found = (\<lambda>_. None), tm_exists = (\<lambda>_. Some ()),
     tm_detail = (\<lambda>b. Some (demo_detail b))\<rparr>"

definition demo_tmdb_slot :: Slot where
  "demo_tmdb_slot = \<lparr>tm_token = ''t'', tm_sent = [], tm_slept = []\<rparr>"

lemma demo_tmdb_hosts: "hosts demo_tmdb (\<lambda>r. TM_reply 200 [] (rq_path r))"
  by (simp add: hosts_def demo_tmdb_def)

lemma demo_candidate: "candidate ''tv'' demo_hit = Some (the (candidate ''tv'' demo_hit))" "tc_kind (the (candidate ''tv'' demo_hit)) = IK_SERIES"
  by (simp_all add: candidate_def resultKind_def demo_hit_def)

theorem LookupTitle_candidates_witness:
  "\<exists>cs s'. LookupTitle demo_tmdb ''S'' IK_SERIES 0 demo_tmdb_slot = (Inr cs, s') \<and> length cs = 1
     \<and> ValidateLookupTitleResponse (Some cs) = None"
proof -
  obtain c where c: "candidate ''tv'' demo_hit = Some c" using demo_candidate(1) by blast
  have "TrimSpace ''S'' = ''S''" by (simp add: TrimSpace_ascii ascii_def IsSpace_def)
  then have l: "LookupTitle demo_tmdb ''S'' IK_SERIES 0 demo_tmdb_slot
      = (Inr [Some c], demo_tmdb_slot\<lparr>tm_sent := [\<lparr>rq_path = ''/search/tv'', rq_params = search_params ''S'' IK_SERIES 0\<rparr>]\<rparr>)"
    using get_json_hosts [where decode = "tm_results demo_tmdb" and x = "[demo_hit]", OF demo_tmdb_hosts refl]
    by (simp add: LookupTitle_def c search_media_def maxCandidates_def List.map_filter_simps demo_tmdb_slot_def demo_tmdb_def)
  show ?thesis using LookupTitle_candidates [OF l] l by simp
qed

theorem series_ref_reads_movie_witness:
  "fst (GetMetadata demo_tmdb (tc_ref (the (candidate ''tv'' demo_hit))) demo_tmdb_slot) = Inr (detail_response demo_tmdb (demo_detail ''/movie/9'') ''movie'')
   \<and> fst (details demo_tmdb ''tv'' ''9'' demo_tmdb_slot) = Inr (demo_detail ''/tv/9'')"
proof -
  have id: "Itoa (sr_id demo_hit) = ''9''" by (simp add: demo_hit_def Itoa_def nat_digits.simps digit_char_def char_of_def bit_numeral_rec bit_0)
  have p: "tm_escape demo_tmdb ''9'' = ''9''" "tm_exists demo_tmdb b = Some ()" "tm_detail demo_tmdb b = Some (demo_detail b)" for b
    by (simp_all add: demo_tmdb_def)
  show ?thesis
    using series_ref_reads_movie [OF demo_tmdb_hosts demo_candidate, unfolded id p, OF refl refl refl refl refl refl] by simp
qed

theorem GetMetadata_valid_witness:
  "\<exists>resp s'. GetMetadata demo_tmdb ''tmdb:9'' demo_tmdb_slot = (Inr resp, s')
     \<and> ValidateGetMetadataResponse (Some resp) = None \<and> GetTitle (gm_metadata resp) = ''/movie/9''"
proof -
  have cut: "Cut ''tmdb:9'' CHR '':'' = Some (''tmdb'', ''9'')" using Cut_append [of "CHR '':''" "''tmdb''" "''9''"] by simp
  have p: "tm_escape demo_tmdb ''9'' = ''9''" "tm_exists demo_tmdb b = Some ()" "tm_detail demo_tmdb b = Some (demo_detail b)" for b
    by (simp_all add: demo_tmdb_def)
  have res: "resolveNative demo_tmdb ''9'' demo_tmdb_slot
      = (Inr ''movie'', demo_tmdb_slot\<lparr>tm_sent := [\<lparr>rq_path = ''/movie/9'', rq_params = []\<rparr>]\<rparr>)"
    using get_json_hosts [where decode = "tm_exists demo_tmdb", OF demo_tmdb_hosts refl p(2)]
    by (simp add: resolveNative_def p(1) demo_tmdb_slot_def)
  have "\<exists>s'. details demo_tmdb ''movie'' ''9'' s = (Inr (demo_detail ''/movie/9''), s')" for s
    using get_json_hosts [where decode = "tm_detail demo_tmdb", OF demo_tmdb_hosts refl p(3)] by (simp add: details_def p(1))
  then obtain s' where "details demo_tmdb ''movie'' ''9'' (demo_tmdb_slot\<lparr>tm_sent := [\<lparr>rq_path = ''/movie/9'', rq_params = []\<rparr>]\<rparr>)
      = (Inr (demo_detail ''/movie/9''), s')" by blast
  then have "GetMetadata demo_tmdb ''tmdb:9'' demo_tmdb_slot = (Inr (detail_response demo_tmdb (demo_detail ''/movie/9'') ''movie''), s')"
    by (simp add: GetMetadata_def cut res)
  then show ?thesis using GetMetadata_valid [of demo_tmdb "''tmdb:9''" demo_tmdb_slot]
    by (auto simp: detail_response_def demo_detail_def)
qed

end
