(* ===== verification/Wiring.thy ===== *)
theory Wiring
  imports Config Library Scheduler Pacing Event_Bus Jellyfin Stremio Tmdb
begin

text \<open>
  The composition of slots: the registry of admitted slots (\<open>internal/registry/registry.go\<close>), the routing of linked accounts
  and the building of slots (\<open>internal/slotwiring\<close>), and the slots of a running instance
  (\<open>app/slots.go\<close>).

  \<open>url.Parse\<close>, \<open>strings.ToLower\<close>, SHA-256, the parsers, the services behind the adapters and the answers the
  slots give their synchronizers are arguments, gathered in \<^verbatim>\<open>deps\<close>. A slot's transport is not modelled:
  an admitted slot is what it declared. The paced client a slot's surfaces share is one value of
  the slot. The item registry, the event sink and the account store are always wired, as
  \<open>ComposeSlots\<close> does. Slots are admitted one after the other.
\<close>

subsection \<open>The registry of slots\<close>

record SlotInfo =
  si_Capabilities :: "(string \<times> 32 word) list"
  si_Policy :: "(string \<times> string) list"

type_synonym slot_registry = "(string \<times> SlotInfo) list"

datatype wiring_error =
    WE_admitted string | WE_handshake string string | WE_capability string string "32 word" | WE_accounts acc_error
  | WE_ambiguous string "string list" | WE_unknown_adapter string string | WE_missing_id | WE_other_server string string
  | WE_build_jellyfin jf_error | WE_build_addon addon_error | WE_build_tmdb tmdb_error | WE_cadence string | WE_sync string
  | WE_no_server string | WE_no_accounts string | WE_no_token string | WE_claims string string string | WE_kind string
  | WE_slot string wiring_error | WE_refused string | WE_add string | WE_no_slot string string | WE_reach lib_error
  | WE_cache store_error

definition bad_capability :: "string \<times> 32 word \<Rightarrow> bool" where
  "bad_capability c \<longleftrightarrow> fst c = [] \<or> snd c = 0"

text \<open>The answer of the slot to \<open>CapabilityQuery\<close> is \<open>answer\<close>.\<close>

definition handshake ::
    "string \<Rightarrow> string + SlotInfo \<Rightarrow> bool \<Rightarrow> slot_registry \<Rightarrow> (wiring_error + SlotInfo) \<times> slot_registry" where
  "handshake name answer publish reg =
     (if publish \<and> map_of reg name \<noteq> None then (Inl (WE_admitted name), reg)
      else (case answer of
         Inl e \<Rightarrow> (Inl (WE_handshake name e), reg)
       | Inr info \<Rightarrow>
           (case find bad_capability (si_Capabilities info) of
              Some (n, v) \<Rightarrow> (Inl (WE_capability name n v), reg)
            | None \<Rightarrow> (Inr info, if publish then AList.update name info reg else reg))))"

definition Admit ::
    "string \<Rightarrow> string + SlotInfo \<Rightarrow> slot_registry \<Rightarrow> (wiring_error + (string \<times> 32 word) list) \<times> slot_registry" where
  "Admit name answer reg =
     (case handshake name answer True reg of
        (Inl e, reg') \<Rightarrow> (Inl e, reg')
      | (Inr info, reg') \<Rightarrow> (Inr (si_Capabilities info), reg'))"

definition Describe :: "string \<Rightarrow> string + SlotInfo \<Rightarrow> slot_registry \<Rightarrow> wiring_error + SlotInfo" where
  "Describe name answer reg = fst (handshake name answer False reg)"

definition Forget :: "string \<Rightarrow> slot_registry \<Rightarrow> slot_registry" where
  "Forget name reg = AList.delete name reg"

definition Capabilities :: "string \<Rightarrow> slot_registry \<Rightarrow> (string \<times> 32 word) list option" where
  "Capabilities name reg = map_option si_Capabilities (map_of reg name)"

definition slot_Policy :: "string \<Rightarrow> slot_registry \<Rightarrow> (string \<times> string) list option" where
  "slot_Policy name reg = map_option si_Policy (map_of reg name)"

definition Snapshot :: "slot_registry \<Rightarrow> (string \<times> SlotInfo) list" where "Snapshot reg = reg"

definition registry_Close :: "slot_registry \<Rightarrow> slot_registry" where "registry_Close reg = []"

subsection \<open>Servers\<close>

record go_url =
  gu_Scheme :: string
  gu_Host :: string
  gu_Path :: string

record 'b deps =
  dp_parse :: "string \<Rightarrow> go_url option"
  dp_lower :: "string \<Rightarrow> string"
  dp_sha256 :: "string \<Rightarrow> string"
  dp_parsers :: go_parsers
  dp_render :: "int \<Rightarrow> string"
  dp_getenv :: "string \<Rightarrow> string"
  dp_json :: "'b rec_json"
  dp_http :: "'b adapter"
  dp_addon :: client
  dp_instance :: policy_set
  dp_client :: "string \<Rightarrow> string \<Rightarrow> nat \<Rightarrow> string \<Rightarrow> string + CatalogueSyncResponse option"
  dp_refresh :: "string \<Rightarrow> string \<Rightarrow> string list \<Rightarrow> string + CatalogueItem option list"
  dp_encodes :: "CatalogueItem \<Rightarrow> bool"
  dp_stamp :: "nat \<Rightarrow> string \<times> int"
  dp_now :: int

definition canonicalServer :: "'b deps \<Rightarrow> string \<Rightarrow> string" where
  "canonicalServer D base =
     (case dp_parse D base of
        None \<Rightarrow> dp_lower D (TrimRight_slash base)
      | Some u \<Rightarrow> gu_Scheme u @ ''://'' @ dp_lower D (gu_Host u) @ TrimRight_slash (gu_Path u))"

definition ServerAddressMatch :: "'b deps \<Rightarrow> string \<Rightarrow> string \<Rightarrow> bool" where
  "ServerAddressMatch D slotServer baseURL \<longleftrightarrow> canonicalServer D slotServer = canonicalServer D baseURL"

text \<open>
  The loop over the runes of an authority, byte by byte: a byte of a longer rune is no letter or digit, and a
  run of such bytes gives one dash.
\<close>

definition slug_char :: "char \<Rightarrow> bool" where
  "slug_char c \<longleftrightarrow> (97 \<le> (of_char c :: nat) \<and> of_char c \<le> (122 :: nat)) \<or> (48 \<le> (of_char c :: nat) \<and> of_char c \<le> (57 :: nat))"

fun slug :: "string \<Rightarrow> bool \<Rightarrow> string \<Rightarrow> string" where
  "slug out dash [] = out"
| "slug out dash (c # cs) =
     (if slug_char c then slug (out @ [c]) False cs
      else if \<not> dash \<and> out \<noteq> [] then slug (out @ ''-'') True cs
      else slug out dash cs)"

definition Trim_dashes :: "string \<Rightarrow> string" where
  "Trim_dashes s = rev (dropWhile (\<lambda>c. c = CHR ''-'') (rev (dropWhile (\<lambda>c. c = CHR ''-'') s)))"

definition serverSlug :: "'b deps \<Rightarrow> string \<Rightarrow> string" where
  "serverSlug D base =
     (let authority = (case dp_parse D base of Some u \<Rightarrow> if gu_Host u \<noteq> [] then gu_Host u else base | None \<Rightarrow> base);
          out = Trim_dashes (slug [] False (dp_lower D authority))
      in if out \<noteq> [] then out else ''unknown'')"

definition ServerNamespace :: "'b deps \<Rightarrow> Record \<Rightarrow> string" where
  "ServerNamespace D rec =
     (let base = canonicalServer D (rec_base_url rec);
          h = dp_sha256 D (rec_provider rec @ [CHR 0x00] @ base)
      in ''srv-'' @ rec_provider rec @ ''-'' @ serverSlug D base @ ''-'' @ EncodeToString (take 4 h))"

subsection \<open>Routing linked accounts\<close>

definition declares :: "'b deps \<Rightarrow> Record \<Rightarrow> SlotEntry \<Rightarrow> bool" where
  "declares D rec e \<longleftrightarrow> sl_enabled e \<and> sl_adapter e = rec_provider rec
     \<and> canonicalServer D (sl_server e) = canonicalServer D (rec_base_url rec)"

definition matching :: "'b deps \<Rightarrow> SlotEntry list \<Rightarrow> Record \<Rightarrow> string list" where
  "matching D entries rec = map sl_id (filter (declares D rec) entries)"

definition linked_to :: "(string \<times> Record list) list \<Rightarrow> string \<Rightarrow> Record list" where
  "linked_to m i = (case map_of m i of None \<Rightarrow> [] | Some rs \<Rightarrow> rs)"

definition link_to :: "string \<Rightarrow> Record list \<Rightarrow> (string \<times> Record list) list \<Rightarrow> (string \<times> Record list) list" where
  "link_to i rs m = AList.update i (linked_to m i @ rs) m"

fun route_links ::
    "'b deps \<Rightarrow> SlotEntry list \<Rightarrow> Record list \<Rightarrow> (string \<times> Record list) list \<Rightarrow> Record list
     \<Rightarrow> wiring_error + (string \<times> Record list) list \<times> Record list" where
  "route_links D entries [] bySlot prov = Inr (bySlot, prov)"
| "route_links D entries (rec # recs) bySlot prov =
     (case matching D entries rec of
        [] \<Rightarrow> route_links D entries recs bySlot (prov @ [rec])
      | [i] \<Rightarrow> route_links D entries recs (link_to i [rec] bySlot) prov
      | is \<Rightarrow> Inl (WE_ambiguous (rec_id rec) is))"

definition RouteLinkedAccounts ::
    "'b deps \<Rightarrow> SlotEntry list \<Rightarrow> Record list \<Rightarrow> wiring_error + (string \<times> Record list) list \<times> Record list" where
  "RouteLinkedAccounts D entries records = route_links D entries records [] []"

text \<open>The provisioned accounts by the namespace of their server, in the order the namespaces appear.\<close>

fun group_servers :: "'b deps \<Rightarrow> Record list \<Rightarrow> (string \<times> Record list) list \<Rightarrow> (string \<times> Record list) list" where
  "group_servers D [] m = m"
| "group_servers D (rec # recs) m = group_servers D recs (link_to (ServerNamespace D rec) [rec] m)"

definition synthetic :: "string \<Rightarrow> Record \<Rightarrow> SlotEntry" where
  "synthetic ns rec =
     \<lparr>sl_adapter = rec_provider rec, sl_id = ns, sl_transport = ''in-process'', sl_enabled = True, sl_sync_cadence = [],
      sl_token_env = [], sl_server = rec_base_url rec, sl_accounts = [], sl_options = []\<rparr>"

fun provision ::
    "(string \<Rightarrow> bool) \<Rightarrow> (string \<times> Record list) list \<Rightarrow> SlotEntry list \<Rightarrow> (string \<times> Record list) list
     \<Rightarrow> SlotEntry list \<times> (string \<times> Record list) list" where
  "provision known [] entries links = (entries, links)"
| "provision known ((ns, recs) # gs) entries links =
     (if \<not> known (rec_provider (hd recs)) then provision known gs entries links
      else provision known gs (entries @ [synthetic ns (hd recs)]) (link_to ns recs links))"

subsection \<open>Cadence and rosters\<close>

definition DeclaredCadence :: "go_parsers \<Rightarrow> string \<Rightarrow> (string \<times> string) list \<Rightarrow> string \<Rightarrow> wiring_error + int" where
  "DeclaredCadence P configValue declared key =
     (let parse = (\<lambda>v. case ParseDuration P v of None \<Rightarrow> Inl (WE_cadence v) | Some d \<Rightarrow> if d \<le> 0 then Inl (WE_cadence v) else Inr d);
          v = (case map_of declared key of None \<Rightarrow> [] | Some v \<Rightarrow> v)
      in if configValue \<noteq> [] then parse configValue else if v \<noteq> [] then parse v else Inr 0)"

definition slotRoster_Lookup ::
    "'b deps \<Rightarrow> string \<Rightarrow> (string \<times> Jellyfin.Account) list \<Rightarrow> 'b Store \<Rightarrow> string \<Rightarrow> string + Jellyfin.Account" where
  "slotRoster_Lookup D server ops vault i =
     (case map_of ops i of
        Some a \<Rightarrow> Inr a
      | None \<Rightarrow>
          (case Account_Get (dp_json D) vault i of
             Inl _ \<Rightarrow> Inl ''no record''
           | Inr rec \<Rightarrow>
               if canonicalServer D (rec_base_url rec) \<noteq> server then Inl ''not on this server''
               else Inr \<lparr>ja_id = rec_id rec, ja_url = rec_base_url rec, ja_username = rec_username rec, ja_password_env = []\<rparr>))"

text \<open>The server of this roster is canonical already; it is normalized again with every comparison.\<close>

definition stremioRoster_Lookup ::
    "'b deps \<Rightarrow> string \<Rightarrow> (string \<times> Stremio.Account) list \<Rightarrow> 'b Store \<Rightarrow> string \<Rightarrow> string + Stremio.Account" where
  "stremioRoster_Lookup D server ops vault i =
     (case map_of ops i of
        Some a \<Rightarrow> Inr a
      | None \<Rightarrow>
          (case Account_Get (dp_json D) vault i of
             Inl _ \<Rightarrow> Inl ''no record''
           | Inr rec \<Rightarrow>
               if canonicalServer D (rec_base_url rec) \<noteq> canonicalServer D server then Inl ''not on this addon''
               else Inr \<lparr>sm_id = rec_id rec, sm_manifest_url = rec_base_url rec\<rparr>))"

subsection \<open>Slots\<close>

datatype 'b impl = JellyfinSlot "'b Jellyfin.Slot" | StremioSlot Stremio.Slot

record 'b BuiltSlot =
  bs_Entry :: SlotEntry
  bs_Impl :: "'b impl"
  bs_Jobs :: "Scheduler.Job list"
  bs_Reaches :: "Reach list"
  bs_Paced :: "pacedClient option"      \<comment> \<open>behind \<open>Resolver\<close> and \<open>LazySearch\<close>\<close>
  bs_Cadence :: int
  bs_Lazy :: bool                       \<comment> \<open>\<open>LazySearch\<close> is set\<close>

record reachMeta =
  rm_owner :: string
  rm_visibility :: string
  rm_members :: "string list"

definition public_reach :: reachMeta where
  "public_reach = \<lparr>rm_owner = [], rm_visibility = VisibilityPublic, rm_members = []\<rparr>"

definition linked_reach :: "Record \<Rightarrow> reachMeta" where
  "linked_reach rec = \<lparr>rm_owner = rec_owner rec, rm_visibility = rec_visibility rec, rm_members = rec_shared_with rec\<rparr>"

definition slot_answer :: "'b deps \<Rightarrow> 'b impl \<Rightarrow> string + SlotInfo" where
  "slot_answer D i =
     (let (caps, pol) = (case i of JellyfinSlot _ \<Rightarrow> Jellyfin.CapabilityQuery (dp_render D) | StremioSlot _ \<Rightarrow> Stremio.CapabilityQuery)
      in Inr \<lparr>si_Capabilities = caps, si_Policy = pol\<rparr>)"

definition sync_job :: "string \<Rightarrow> string \<Rightarrow> string" where
  "sync_job namespace accountID = ''source-cache-sync/'' @ namespace @ ''/'' @ accountID"

definition accountSyncMachine ::
    "'b deps \<Rightarrow> string \<Rightarrow> string \<Rightarrow> bool \<Rightarrow> int \<Rightarrow> reachMeta
     \<Rightarrow> wiring_error + (identity_state, reg_error) Synchronizer \<times> Reach \<times> Scheduler.Job" where
  "accountSyncMachine D namespace accountID hasRefresh cadence m =
     (if namespace = [] then Inl (WE_sync namespace)
      else
        let sy = \<lparr>sy_provider = namespace, sy_client = dp_client D namespace,
                  sy_refresh = (if hasRefresh then Some (dp_refresh D namespace) else None),
                  sy_resolver = Some registryResolver_Resolve, sy_entries = Some identity_Lookup, sy_sink = True,
                  sy_encodes = dp_encodes D, sy_stamp = dp_stamp D\<rparr>
        in Inr (sy, \<lparr>rc_sync = Some sy, rc_account = accountID, rc_owner = rm_owner m, rc_visibility = rm_visibility m,
                     rc_members = rm_members m\<rparr>, \<lparr>j_name = sync_job namespace accountID, j_cadence = cadence\<rparr>))"

text \<open>The accounts of an entry with what their reaches expose: the operator's, then the linked ones.\<close>

definition slot_accounts :: "SlotEntry \<Rightarrow> Record list \<Rightarrow> (string \<times> reachMeta) list" where
  "slot_accounts entry linked =
     map (\<lambda>a. (ac_id a, public_reach)) (sl_accounts entry) @ map (\<lambda>r. (rec_id r, linked_reach r)) linked"

text \<open>The machines of the accounts; \<open>boots\<close> runs the first sync of each at once, and its failure is only logged.\<close>

fun machines ::
    "'b deps \<Rightarrow> string \<Rightarrow> bool \<Rightarrow> int \<Rightarrow> bool \<Rightarrow> (string \<times> reachMeta) list \<Rightarrow> Reach list \<Rightarrow> Scheduler.Job list
     \<Rightarrow> identity_state sync_state \<Rightarrow> (wiring_error + Reach list \<times> Scheduler.Job list) \<times> identity_state sync_state" where
  "machines D ns hasRefresh cadence boots [] rs js w = (Inr (rs, js), w)"
| "machines D ns hasRefresh cadence boots ((i, m) # as) rs js w =
     (case accountSyncMachine D ns i hasRefresh cadence m of
        Inl e \<Rightarrow> (Inl e, w)
      | Inr (sy, r, j) \<Rightarrow>
          machines D ns hasRefresh cadence boots as (rs @ [r]) (js @ [j])
            (if boots then snd (snd (SyncAccount sy (dp_now D) i w)) else w))"

definition linked_elsewhere :: "'b deps \<Rightarrow> SlotEntry \<Rightarrow> Record list \<Rightarrow> Record option" where
  "linked_elsewhere D entry linked = find (\<lambda>r. \<not> ServerAddressMatch D (rec_base_url r) (sl_server entry)) linked"

definition jellyfin_adapter :: "'b deps \<Rightarrow> SlotEntry \<Rightarrow> 'b adapter" where
  "jellyfin_adapter D entry =
     (dp_http D)\<lparr>ad_vault := True,
       ad_src := slotRoster_Lookup D (canonicalServer D (sl_server entry))
         (rev (map (\<lambda>a. (ac_id a, \<lparr>ja_id = ac_id a, ja_url = sl_server entry, ja_username = ac_username a,
            ja_password_env = ac_password_env a\<rparr>)) (sl_accounts entry)))\<rparr>"

definition paced :: "'b deps \<Rightarrow> SlotEntry \<Rightarrow> pacedClient option" where
  "paced D entry =
     newPacedClient (dp_parsers D) (sl_options entry) (map (\<lambda>a. (ac_id a, ac_policy a)) (sl_accounts entry)) (dp_instance D) True"

definition jellyfinCadenceKey :: string where "jellyfinCadenceKey = ''browse.sync-cadence''"

definition wireJellyfin ::
    "'b deps \<Rightarrow> 'b Store \<Rightarrow> SlotEntry \<Rightarrow> Record list \<Rightarrow> slot_registry \<Rightarrow> identity_state sync_state
     \<Rightarrow> (wiring_error + 'b BuiltSlot) \<times> identity_state sync_state" where
  "wireJellyfin D vault entry linked reg w =
     (if \<exists>a \<in> set (sl_accounts entry). ac_id a = [] then (Inl WE_missing_id, w)
      else (case linked_elsewhere D entry linked of
         Some r \<Rightarrow> (Inl (WE_other_server (sl_id entry) (rec_id r)), w)
       | None \<Rightarrow>
           (case Jellyfin.Slot_New (jellyfin_adapter D entry) (map fst (slot_accounts entry linked)) vault of
              Inl e \<Rightarrow> (Inl (WE_build_jellyfin e), w)
            | Inr slot \<Rightarrow>
                (case Describe (sl_id entry) (slot_answer D (JellyfinSlot slot)) reg of
                   Inl e \<Rightarrow> (Inl e, w)
                 | Inr info \<Rightarrow>
                     (case DeclaredCadence (dp_parsers D) (sl_sync_cadence entry) (si_Policy info) jellyfinCadenceKey of
                        Inl e \<Rightarrow> (Inl e, w)
                      | Inr cadence \<Rightarrow>
                          (case machines D (sl_id entry) False cadence True (slot_accounts entry linked) [] [] w of
                             (Inl e, w') \<Rightarrow> (Inl e, w')
                           | (Inr (rs, js), w') \<Rightarrow>
                               (Inr \<lparr>bs_Entry = entry, bs_Impl = JellyfinSlot slot, bs_Jobs = js, bs_Reaches = rs,
                                     bs_Paced = paced D entry, bs_Cadence = cadence, bs_Lazy = False\<rparr>, w')))))))"

definition stremio_client :: "'b deps \<Rightarrow> SlotEntry \<Rightarrow> 'b Store \<Rightarrow> client" where
  "stremio_client D entry vault =
     (dp_addon D)\<lparr>cl_src := stremioRoster_Lookup D (canonicalServer D (sl_server entry))
       (rev (map (\<lambda>a. (ac_id a, \<lparr>sm_id = ac_id a, sm_manifest_url = sl_server entry\<rparr>)) (sl_accounts entry))) vault\<rparr>"

definition wireStremio ::
    "'b deps \<Rightarrow> 'b Store \<Rightarrow> SlotEntry \<Rightarrow> Record list \<Rightarrow> slot_registry \<Rightarrow> identity_state sync_state
     \<Rightarrow> (wiring_error + 'b BuiltSlot) \<times> identity_state sync_state" where
  "wireStremio D vault entry linked reg w =
     (if sl_server entry = [] then (Inl (WE_no_server (sl_id entry)), w)
      else if \<exists>a \<in> set (sl_accounts entry). ac_id a = [] then (Inl WE_missing_id, w)
      else (case linked_elsewhere D entry linked of
         Some r \<Rightarrow> (Inl (WE_other_server (sl_id entry) (rec_id r)), w)
       | None \<Rightarrow>
           if slot_accounts entry linked = [] then (Inl (WE_no_accounts (sl_id entry)), w)
           else (case Stremio.Slot_New (stremio_client D entry vault) (map fst (slot_accounts entry linked)) of
              Inl e \<Rightarrow> (Inl (WE_build_addon e), w)
            | Inr slot \<Rightarrow>
                (case Describe (sl_id entry) (slot_answer D (StremioSlot slot)) reg of
                   Inl e \<Rightarrow> (Inl e, w)
                 | Inr info \<Rightarrow>
                     (case machines D (sl_id entry) True 0 False (slot_accounts entry linked) [] [] w of
                        (Inl e, w') \<Rightarrow> (Inl e, w')
                      | (Inr (rs, js), w') \<Rightarrow>
                          (Inr \<lparr>bs_Entry = entry, bs_Impl = StremioSlot slot, bs_Jobs = [], bs_Reaches = rs,
                                bs_Paced = paced D entry, bs_Cadence = 0, bs_Lazy = True\<rparr>, w'))))))"

subsection \<open>Start-up\<close>

type_synonym 'b factory =
  "SlotEntry \<Rightarrow> Record list \<Rightarrow> slot_registry \<Rightarrow> identity_state sync_state \<Rightarrow> (wiring_error + 'b BuiltSlot) \<times> identity_state sync_state"

definition providers :: "'b deps \<Rightarrow> 'b Store \<Rightarrow> string \<Rightarrow> 'b factory option" where
  "providers D vault adapter =
     (if adapter = ''jellyfin'' then Some (wireJellyfin D vault)
      else if adapter = ''stremio'' then Some (wireStremio D vault) else None)"

fun build_slots ::
    "(string \<Rightarrow> 'b factory option) \<Rightarrow> (string \<times> Record list) list \<Rightarrow> slot_registry \<Rightarrow> SlotEntry list \<Rightarrow> 'b BuiltSlot list
     \<Rightarrow> identity_state sync_state \<Rightarrow> (wiring_error + 'b BuiltSlot list) \<times> identity_state sync_state" where
  "build_slots fs links reg [] built w = (Inr built, w)"
| "build_slots fs links reg (e # es) built w =
     (if \<not> sl_enabled e then build_slots fs links reg es built w
      else (case fs (sl_adapter e) of
         None \<Rightarrow> (Inl (WE_unknown_adapter (sl_id e) (sl_adapter e)), w)
       | Some f \<Rightarrow>
           (case f e (linked_to links (sl_id e)) reg w of
              (Inl x, w') \<Rightarrow> (Inl (WE_slot (sl_id e) x), w')
            | (Inr b, w') \<Rightarrow> build_slots fs links reg es (built @ [b]) w')))"

fun admit_slots ::
    "'b deps \<Rightarrow> 'b BuiltSlot list \<Rightarrow> slot_registry \<Rightarrow> wiring_error option \<times> slot_registry" where
  "admit_slots D [] reg = (None, reg)"
| "admit_slots D (b # bs) reg =
     (case Admit (sl_id (bs_Entry b)) (slot_answer D (bs_Impl b)) reg of
        (Inl e, reg') \<Rightarrow> (Some (WE_slot (sl_id (bs_Entry b)) e), reg')
      | (Inr _, reg') \<Rightarrow> admit_slots D bs reg')"

definition SetupProviders ::
    "'b deps \<Rightarrow> (string \<Rightarrow> 'b factory option) \<Rightarrow> 'b Store \<Rightarrow> SlotEntry list \<Rightarrow> slot_registry \<Rightarrow> identity_state sync_state
     \<Rightarrow> (wiring_error + 'b BuiltSlot list) \<times> slot_registry \<times> identity_state sync_state" where
  "SetupProviders D fs vault entries reg w =
     (case Account_List (dp_json D) vault of
        Inl e \<Rightarrow> (Inl (WE_accounts e), reg, w)
      | Inr linked \<Rightarrow>
          (case RouteLinkedAccounts D entries linked of
             Inl e \<Rightarrow> (Inl e, reg, w)
           | Inr (bySlot, provisioned) \<Rightarrow>
               (case provision (\<lambda>a. fs a \<noteq> None) (group_servers D provisioned []) entries bySlot of (entries', links) \<Rightarrow>
                  (case build_slots fs links reg entries' [] w of
                     (Inl e, w') \<Rightarrow> (Inl e, reg, w')
                   | (Inr built, w') \<Rightarrow>
                       (case admit_slots D built reg of
                          (Some e, reg') \<Rightarrow> (Inl e, reg', w')
                        | (None, reg') \<Rightarrow> (Inr built, reg', w'))))))"

text \<open>Catalogues: the only adapter is TMDB.\<close>

definition wireTMDB :: "'b deps \<Rightarrow> SlotEntry \<Rightarrow> wiring_error + Tmdb.Slot" where
  "wireTMDB D entry =
     (if sl_token_env entry = [] then Inl (WE_no_token (sl_id entry))
      else map_err WE_build_tmdb (Tmdb.New (dp_getenv D) (sl_token_env entry)))"

fun build_catalogues ::
    "'b deps \<Rightarrow> SlotEntry list \<Rightarrow> (string \<times> Tmdb.Slot) list \<Rightarrow> wiring_error + (string \<times> Tmdb.Slot) list" where
  "build_catalogues D [] built = Inr built"
| "build_catalogues D (e # es) built =
     (if \<not> sl_enabled e then build_catalogues D es built
      else if sl_adapter e \<noteq> ''tmdb'' then Inl (WE_unknown_adapter (sl_id e) (sl_adapter e))
      else (case wireTMDB D e of
         Inl x \<Rightarrow> Inl (WE_slot (sl_id e) x)
       | Inr c \<Rightarrow> build_catalogues D es (built @ [(sl_id e, c)])))"

fun claim :: "string \<Rightarrow> string list \<Rightarrow> (string \<times> string) list \<Rightarrow> wiring_error + (string \<times> string) list" where
  "claim i [] claimed = Inr claimed"
| "claim i (ns # nss) claimed =
     (case map_of claimed ns of
        Some j \<Rightarrow> Inl (WE_claims j i ns)
      | None \<Rightarrow> claim i nss (AList.update ns i claimed))"

fun claim_all :: "(string \<times> string list) list \<Rightarrow> (string \<times> string) list \<Rightarrow> wiring_error + (string \<times> string) list" where
  "claim_all [] claimed = Inr claimed"
| "claim_all ((i, nss) # cs) claimed =
     (case claim i nss claimed of Inl e \<Rightarrow> Inl e | Inr claimed' \<Rightarrow> claim_all cs claimed')"

definition tmdb_answer :: "string + SlotInfo" where
  "tmdb_answer = Inr \<lparr>si_Capabilities = fst Tmdb.CapabilityQuery, si_Policy = snd Tmdb.CapabilityQuery\<rparr>"

fun admit_catalogues :: "(string \<times> Tmdb.Slot) list \<Rightarrow> slot_registry \<Rightarrow> wiring_error option \<times> slot_registry" where
  "admit_catalogues [] reg = (None, reg)"
| "admit_catalogues ((i, c) # cs) reg =
     (case Admit i tmdb_answer reg of
        (Inl e, reg') \<Rightarrow> (Some (WE_slot i e), reg')
      | (Inr _, reg') \<Rightarrow> admit_catalogues cs reg')"

definition SetupCatalogues ::
    "'b deps \<Rightarrow> SlotEntry list \<Rightarrow> slot_registry \<Rightarrow> (wiring_error + (string \<times> Tmdb.Slot) list) \<times> slot_registry" where
  "SetupCatalogues D entries reg =
     (case build_catalogues D entries [] of
        Inl e \<Rightarrow> (Inl e, reg)
      | Inr built \<Rightarrow>
          (case claim_all (map (\<lambda>(i, _). (i, Namespaces)) built) [] of
             Inl e \<Rightarrow> (Inl e, reg)
           | Inr _ \<Rightarrow>
               (case admit_catalogues built reg of
                  (Some e, reg') \<Rightarrow> (Inl e, reg')
                | (None, reg') \<Rightarrow> (Inr built, reg'))))"

definition SetupAll ::
    "'b deps \<Rightarrow> (string \<Rightarrow> 'b factory option) \<Rightarrow> 'b Store \<Rightarrow> SlotsConfig \<Rightarrow> slot_registry \<Rightarrow> identity_state sync_state
     \<Rightarrow> (wiring_error + 'b BuiltSlot list \<times> (string \<times> Tmdb.Slot) list) \<times> slot_registry \<times> identity_state sync_state" where
  "SetupAll D fs vault slots reg w =
     (case SetupProviders D fs vault (sg_providers slots) reg w of
        (Inl e, reg1, w1) \<Rightarrow> (Inl e, reg1, w1)
      | (Inr built, reg1, w1) \<Rightarrow>
          (case SetupCatalogues D (sg_catalogue slots) reg1 of
             (Inl e, reg2) \<Rightarrow> (Inl e, reg2, w1)
           | (Inr cats, reg2) \<Rightarrow>
               if sg_subtitle_sources slots \<noteq> [] then (Inl (WE_kind ''subtitle-source''), reg2, w1)
               else if sg_drm slots \<noteq> [] then (Inl (WE_kind ''drm''), reg2, w1)
               else (Inr (built, cats), reg2, w1)))"

subsection \<open>The running slots\<close>

record 'b SlotRuntime =
  rt_Providers :: "'b BuiltSlot list"
  rt_Registry :: slot_registry
  rt_Resolvers :: "string list"
  rt_Library :: Service
  rt_Scheduler :: Scheduler
  rt_Cache :: "cache_row Store"

definition serves_record :: "'b deps \<Rightarrow> string \<Rightarrow> string \<Rightarrow> 'b BuiltSlot \<Rightarrow> bool" where
  "serves_record D provider baseURL b \<longleftrightarrow>
     sl_adapter (bs_Entry b) = provider \<and> ServerAddressMatch D (sl_server (bs_Entry b)) baseURL"

definition providerFor :: "'b deps \<Rightarrow> 'b SlotRuntime \<Rightarrow> string \<Rightarrow> string \<Rightarrow> 'b BuiltSlot option" where
  "providerFor D rt provider baseURL = find (serves_record D provider baseURL) (rt_Providers rt)"

definition put_slot :: "'b BuiltSlot \<Rightarrow> 'b SlotRuntime \<Rightarrow> 'b SlotRuntime" where
  "put_slot b rt = rt\<lparr>rt_Providers := map (\<lambda>p. if sl_id (bs_Entry p) = sl_id (bs_Entry b) then b else p) (rt_Providers rt)\<rparr>"

definition impl_AddAccount :: "'b deps \<Rightarrow> 'b Store \<Rightarrow> SlotEntry \<Rightarrow> string \<Rightarrow> 'b impl \<Rightarrow> wiring_error option \<times> 'b impl" where
  "impl_AddAccount D vault entry i im =
     (case im of
        JellyfinSlot s \<Rightarrow>
          (case Jellyfin.AddAccount (jellyfin_adapter D entry) i (s\<lparr>jf_vault := vault\<rparr>) of
             (e, s') \<Rightarrow> (map_option WE_build_jellyfin e, JellyfinSlot s'))
      | StremioSlot s \<Rightarrow>
          (case Stremio.AddAccount (stremio_client D entry vault) i s of
             (e, s') \<Rightarrow> (map_option WE_build_addon e, StremioSlot s')))"

definition impl_DropAccount :: "string \<Rightarrow> 'b impl \<Rightarrow> 'b impl" where
  "impl_DropAccount i im =
     (case im of JellyfinSlot s \<Rightarrow> JellyfinSlot (Jellyfin.DropAccount i s) | StremioSlot s \<Rightarrow> StremioSlot (Stremio.DropAccount i s))"

definition is_lazy :: "'b impl \<Rightarrow> bool" where
  "is_lazy im = (case im of JellyfinSlot _ \<Rightarrow> False | StremioSlot s \<Rightarrow> IsLazy s)"

text \<open>The paced client that \<open>pacedImpl\<close> finds: only a lazy slot exposes one.\<close>

definition pacedImpl :: "'b BuiltSlot \<Rightarrow> pacedClient option" where
  "pacedImpl b = (if bs_Lazy b then bs_Paced b else None)"

definition slot_AttachAccount ::
    "'b deps \<Rightarrow> 'b Store \<Rightarrow> 'b BuiltSlot \<Rightarrow> Record
     \<Rightarrow> (wiring_error + Reach \<times> Scheduler.Job option) \<times> 'b BuiltSlot" where
  "slot_AttachAccount D vault b rec =
     (case impl_AddAccount D vault (bs_Entry b) (rec_id rec) (bs_Impl b) of
        (Some e, im) \<Rightarrow> (Inl (WE_slot (sl_id (bs_Entry b)) e), b\<lparr>bs_Impl := im\<rparr>)
      | (None, im) \<Rightarrow>
          (let b1 = b\<lparr>bs_Impl := im,
                 bs_Paced := (case pacedImpl b of None \<Rightarrow> bs_Paced b
                              | Some pc \<Rightarrow> Some (setBudget (rec_id rec) (budgetFromPolicy (dp_parsers D) (dp_instance D)) pc))\<rparr>;
               lazy = is_lazy (bs_Impl b)
           in (case accountSyncMachine D (sl_id (bs_Entry b)) (rec_id rec) (pacedImpl b \<noteq> None) (if lazy then 0 else bs_Cadence b)
                      (linked_reach rec) of
                 Inl e \<Rightarrow> (Inl e, b1\<lparr>bs_Impl := impl_DropAccount (rec_id rec) im\<rparr>)
               | Inr (sy, r, j) \<Rightarrow> (Inr (r, if lazy then None else Some j), b1))))"

text \<open>The first sync of an attached account runs in the background: it is a step of its own.\<close>

definition AttachAccount ::
    "'b deps \<Rightarrow> 'b Store \<Rightarrow> Record \<Rightarrow> 'b SlotRuntime \<Rightarrow> wiring_error option \<times> 'b SlotRuntime" where
  "AttachAccount D vault rec rt =
     (case providerFor D rt (rec_provider rec) (rec_base_url rec) of
        None \<Rightarrow> (Some (WE_no_slot (rec_provider rec) (rec_base_url rec)), rt)
      | Some b \<Rightarrow>
          (case slot_AttachAccount D vault b rec of
             (Inl e, b') \<Rightarrow> (Some e, put_slot b' rt)
           | (Inr (r, job), b') \<Rightarrow>
               (case AddReach (rt_Library rt) r of
                  (Some e, _) \<Rightarrow>
                    (Some (WE_reach e), put_slot (b'\<lparr>bs_Impl := impl_DropAccount (rec_id rec) (bs_Impl b')\<rparr>) rt)
                | (None, lib) \<Rightarrow>
                    (None, (put_slot b' rt)\<lparr>rt_Library := lib,
                       rt_Scheduler := (case job of None \<Rightarrow> rt_Scheduler rt | Some j \<Rightarrow> Register j (rt_Scheduler rt))\<rparr>))))"

fun drop_rows :: "string list \<Rightarrow> 'v Store \<Rightarrow> store_error option \<times> 'v Store" where
  "drop_rows [] c = (None, c)"
| "drop_rows (k # ks) c =
     (case Store_Delete c k of
        (Inl e, c') \<Rightarrow> (Some e, c')
      | (Inr _, c') \<Rightarrow> drop_rows ks c')"

definition retire :: "string \<Rightarrow> 'b SlotRuntime \<Rightarrow> 'b SlotRuntime" where
  "retire i rt =
     rt\<lparr>rt_Registry := Forget i (rt_Registry rt), rt_Resolvers := filter (\<lambda>j. j \<noteq> i) (rt_Resolvers rt),
        rt_Providers := filter (\<lambda>p. sl_id (bs_Entry p) \<noteq> i) (rt_Providers rt)\<rparr>"

text \<open>The accounts that remain on a slot's server; a listing that fails counts none.\<close>

definition remaining :: "'b deps \<Rightarrow> 'b Store \<Rightarrow> 'b BuiltSlot \<Rightarrow> nat" where
  "remaining D vault b =
     (case Account_List (dp_json D) vault of
        Inl _ \<Rightarrow> 0
      | Inr linked \<Rightarrow> length (filter (\<lambda>l. serves_record D (rec_provider l) (rec_base_url l) b) linked))"

definition DropAccount ::
    "'b deps \<Rightarrow> 'b Store \<Rightarrow> Record \<Rightarrow> 'b SlotRuntime \<Rightarrow> wiring_error option \<times> 'b SlotRuntime" where
  "DropAccount D vault rec rt =
     (case providerFor D rt (rec_provider rec) (rec_base_url rec) of
        None \<Rightarrow> (None, rt)
      | Some b \<Rightarrow>
          (let i = sl_id (bs_Entry b);
               rt1 = (put_slot (b\<lparr>bs_Impl := impl_DropAccount (rec_id rec) (bs_Impl b)\<rparr>) rt)
                 \<lparr>rt_Scheduler := Remove (sync_job i (rec_id rec)) (rt_Scheduler rt)\<rparr>
           in (case Store_List (rt_Cache rt1) (i @ ''/'' @ rec_id rec @ ''/'') of
                 Inl e \<Rightarrow> (Some (WE_cache e), rt1)
               | Inr ks \<Rightarrow>
                   (case drop_rows ks (rt_Cache rt1) of
                      (Some e, c) \<Rightarrow> (Some (WE_cache e), rt1\<lparr>rt_Cache := c\<rparr>)
                    | (None, c) \<Rightarrow>
                        (let rt2 = rt1\<lparr>rt_Cache := c\<rparr>
                         in (None, if sl_accounts (bs_Entry b) = [] \<and> remaining D vault b = 0 then retire i rt2 else rt2))))))"

text \<open>The event path of a sync: the bus, then the caches of the account's audience.\<close>

definition eventMux_Publish :: "EventEnvelope \<Rightarrow> InMemoryBus \<Rightarrow> Service option \<Rightarrow> InMemoryBus \<times> Service option" where
  "eventMux_Publish env bus lib =
     (case ev_payload env of
        Some (AvailabilityEvent account provider entry present) \<Rightarrow>
          (Publish (Some env) bus, map_option (\<lambda>s. snd (InvalidateAccount s provider account)) lib)
      | _ \<Rightarrow> (bus, lib))"

subsection \<open>Routing\<close>

lemma linked_to_link_to [simp]: "linked_to (link_to i rs m) j = linked_to m j @ (if j = i then rs else [])"
  by (simp add: linked_to_def link_to_def)

lemma route_links_Inr:
  "route_links D entries recs m prov = Inr (m', prov') \<Longrightarrow>
     (\<forall>r \<in> set recs. length (matching D entries r) \<le> 1)
     \<and> prov' = prov @ filter (\<lambda>r. matching D entries r = []) recs
     \<and> (\<forall>i. linked_to m' i = linked_to m i @ filter (\<lambda>r. matching D entries r = [i]) recs)"
  by (induction D entries recs m prov rule: route_links.induct) (auto split: list.splits)

lemma route_links_Inl:
  "route_links D entries recs m prov = Inl e \<Longrightarrow>
     \<exists>r \<in> set recs. length (matching D entries r) > 1 \<and> e = WE_ambiguous (rec_id r) (matching D entries r)"
  by (induction D entries recs m prov rule: route_links.induct) (auto split: list.splits)

text \<open>Linked accounts are routed to slots or to servers of their own, each to one place and in their order: to the one enabled
  slot of its adapter that declares its server, or to the provisioned accounts when there is none.
  Routing fails exactly when two slots declare the server of an account.\<close>
theorem RouteLinkedAccounts_exact:
  "case RouteLinkedAccounts D entries records of
     Inl e \<Rightarrow> \<exists>r \<in> set records. length (matching D entries r) > 1 \<and> e = WE_ambiguous (rec_id r) (matching D entries r)
   | Inr (m, prov) \<Rightarrow> (\<forall>r \<in> set records. length (matching D entries r) \<le> 1)
       \<and> prov = filter (\<lambda>r. matching D entries r = []) records
       \<and> (\<forall>i. linked_to m i = filter (\<lambda>r. matching D entries r = [i]) records)"
proof (cases "RouteLinkedAccounts D entries records")
  case (Inl e)
  then show ?thesis using route_links_Inl [of D entries records "[]" "[]" e] by (simp add: RouteLinkedAccounts_def)
next
  case (Inr a)
  then obtain m prov where a: "a = (m, prov)" by fastforce
  have "linked_to [] i = []" for i by (simp add: linked_to_def)
  then show ?thesis using Inr a route_links_Inr [of D entries records "[]" "[]" m prov] by (simp add: RouteLinkedAccounts_def)
qed

text \<open>Each server is declared once.\<close>

definition servers_distinct :: "'b deps \<Rightarrow> SlotEntry list \<Rightarrow> bool" where
  "servers_distinct D entries \<longleftrightarrow>
     distinct (map (\<lambda>e. (sl_adapter e, canonicalServer D (sl_server e))) (filter sl_enabled entries))"

lemma matching_eq: "matching D entries rec =
    map sl_id (filter (\<lambda>e. (sl_adapter e, canonicalServer D (sl_server e)) = (rec_provider rec, canonicalServer D (rec_base_url rec)))
      (filter sl_enabled entries))"
  by (auto simp: matching_def declares_def intro!: arg_cong [where f = "map sl_id"] filter_cong)

lemma filter_key_distinct: "distinct (map f xs) \<Longrightarrow> length (filter (\<lambda>x. f x = k) xs) \<le> 1"
proof (induction xs)
  case (Cons x xs)
  then show ?case by (cases "f x = k") (auto simp: filter_empty_conv image_iff)
qed simp

lemma servers_distinct_matching: "servers_distinct D entries \<Longrightarrow> length (matching D entries rec) \<le> 1"
  unfolding matching_eq length_map servers_distinct_def by (rule filter_key_distinct)

text \<open>The running slots, built in the order of the entries they come from.\<close>

definition built_from :: "SlotEntry list \<Rightarrow> 'b SlotRuntime \<Rightarrow> bool" where
  "built_from entries rt \<longleftrightarrow> map bs_Entry (rt_Providers rt) = filter sl_enabled entries"

lemma serves_record_declares:
  "sl_enabled (bs_Entry b) \<Longrightarrow> serves_record D (rec_provider rec) (rec_base_url rec) b \<longleftrightarrow> declares D rec (bs_Entry b)"
  by (auto simp: serves_record_def declares_def ServerAddressMatch_def)

lemma find_map_filter: "find P xs = (case filter P xs of [] \<Rightarrow> None | x # _ \<Rightarrow> Some x)"
  by (induction xs) auto

lemma providerFor_matching:
  assumes "built_from entries rt"
  shows "map_option (sl_id \<circ> bs_Entry) (providerFor D rt (rec_provider rec) (rec_base_url rec))
    = (case matching D entries rec of [] \<Rightarrow> None | i # _ \<Rightarrow> Some i)"
proof -
  have en: "\<forall>b \<in> set (rt_Providers rt). sl_enabled (bs_Entry b)"
  proof
    fix b assume "b \<in> set (rt_Providers rt)"
    then have "bs_Entry b \<in> set (map bs_Entry (rt_Providers rt))" by simp
    then have "bs_Entry b \<in> set (filter sl_enabled entries)" using assms by (simp only: built_from_def)
    then show "sl_enabled (bs_Entry b)" by simp
  qed
  let ?bs = "filter (serves_record D (rec_provider rec) (rec_base_url rec)) (rt_Providers rt)"
  have "filter (declares D rec) entries = filter (declares D rec) (filter sl_enabled entries)"
    by (auto simp: declares_def intro: filter_cong)
  also have "\<dots> = filter (declares D rec) (map bs_Entry (rt_Providers rt))" using assms by (simp add: built_from_def)
  also have "\<dots> = map bs_Entry ?bs"
    using en serves_record_declares [of _ D rec] by (auto simp: filter_map comp_def intro: filter_cong arg_cong [where f = "map bs_Entry"])
  finally have "matching D entries rec = map (sl_id \<circ> bs_Entry) ?bs" by (simp add: matching_def)
  then show ?thesis by (cases ?bs) (simp_all add: providerFor_def find_map_filter)
qed


text \<open>A link at run time can make the next start fail. When two slots declare one server, the link silently goes to the
  first of them; the start then refuses the whole configuration as ambiguous and admits no slot.\<close>
theorem link_breaks_boot:
  assumes "built_from entries rt" and "length (matching D entries rec) > 1"
    and "Account_List (dp_json D) vault = Inr linked" and "rec \<in> set linked"
  shows "map_option (sl_id \<circ> bs_Entry) (providerFor D rt (rec_provider rec) (rec_base_url rec)) = Some (hd (matching D entries rec))
     \<and> (\<exists>r \<in> set linked. SetupProviders D fs vault entries reg w = (Inl (WE_ambiguous (rec_id r) (matching D entries r)), reg, w))"
proof -
  have "map_option (sl_id \<circ> bs_Entry) (providerFor D rt (rec_provider rec) (rec_base_url rec)) = Some (hd (matching D entries rec))"
    using providerFor_matching [OF assms(1), of D rec] assms(2) by (cases "matching D entries rec") auto
  moreover have "\<exists>r \<in> set linked. RouteLinkedAccounts D entries linked = Inl (WE_ambiguous (rec_id r) (matching D entries r))"
  proof (cases "RouteLinkedAccounts D entries linked")
    case (Inl e)
    then show ?thesis using route_links_Inl [of D entries linked "[]" "[]" e] by (auto simp: RouteLinkedAccounts_def)
  next
    case (Inr a)
    then obtain m prov where "route_links D entries linked [] [] = Inr (m, prov)" by (cases a) (auto simp: RouteLinkedAccounts_def)
    then show ?thesis using route_links_Inr assms(2,4) by (metis not_less)
  qed
  ultimately show ?thesis using assms(3) by (auto simp: SetupProviders_def)
qed

subsection \<open>Admission\<close>

definition slot_row :: "'b deps \<Rightarrow> 'b BuiltSlot \<Rightarrow> string \<times> SlotInfo" where
  "slot_row D b = (sl_id (bs_Entry b), case slot_answer D (bs_Impl b) of Inr info \<Rightarrow> info)"

lemma slot_answer_valid: "\<exists>info. slot_answer D im = Inr info \<and> find bad_capability (si_Capabilities info) = None"
  by (cases im) (simp_all add: slot_answer_def Jellyfin.CapabilityQuery_def Stremio.CapabilityQuery_def bad_capability_def)

lemma Admit_slot:
  "Admit (sl_id (bs_Entry b)) (slot_answer D (bs_Impl b)) reg
    = (if map_of reg (sl_id (bs_Entry b)) \<noteq> None then (Inl (WE_admitted (sl_id (bs_Entry b))), reg)
       else (Inr (si_Capabilities (snd (slot_row D b))), reg @ [slot_row D b]))"
proof -
  obtain info where i: "slot_answer D (bs_Impl b) = Inr info" "find bad_capability (si_Capabilities info) = None"
    using slot_answer_valid by blast
  have new: "map_of reg k = None \<Longrightarrow> AList.update k v reg = reg @ [(k, v)]" for k and v :: SlotInfo
    by (induction reg) (auto split: if_splits)
  show ?thesis using i new by (auto simp: Admit_def handshake_def slot_row_def)
qed

lemma admit_slots_cases:
  "case admit_slots D bs reg of
     (None, reg') \<Rightarrow> reg' = reg @ map (slot_row D) bs \<and> distinct (map fst (map (slot_row D) bs))
       \<and> fst ` set (map (slot_row D) bs) \<inter> fst ` set reg = {}
   | (Some e, reg') \<Rightarrow> \<exists>i. e = WE_slot i (WE_admitted i)"
proof (induction D bs reg rule: admit_slots.induct)
  case (2 D b bs reg)
  show ?case
  proof (cases "map_of reg (sl_id (bs_Entry b)) = None")
    case True
    then have new: "sl_id (bs_Entry b) \<notin> fst ` set reg" by (simp add: map_of_eq_None_iff)
    have a: "Admit (sl_id (bs_Entry b)) (slot_answer D (bs_Impl b)) reg
        = (Inr (si_Capabilities (snd (slot_row D b))), reg @ [slot_row D b])" using True by (simp add: Admit_slot)
    have "fst (slot_row D b) = sl_id (bs_Entry b)" by (simp add: slot_row_def)
    then show ?thesis using "2.IH" [OF a [symmetric] refl] new a by (auto split: prod.splits option.splits)
  qed (simp add: Admit_slot)
qed simp

text \<open>C37: Slots are published last: a start that fails leaves the registry as it was, unless an id was taken, and one that
  succeeds adds one row for each slot built, with what the slot declared, under ids that are new and
  distinct.\<close>
theorem SetupProviders_registry:
  "case SetupProviders D fs vault entries reg w of
     (Inr built, reg', w') \<Rightarrow> reg' = reg @ map (slot_row D) built \<and> distinct (map fst (map (slot_row D) built))
       \<and> fst ` set (map (slot_row D) built) \<inter> fst ` set reg = {}
   | (Inl e, reg', w') \<Rightarrow> reg' = reg \<or> (\<exists>i. e = WE_slot i (WE_admitted i))"
proof -
  have admitted: "reg' = reg @ map (slot_row D) bs \<and> distinct (map fst (map (slot_row D) bs))
      \<and> fst ` set (map (slot_row D) bs) \<inter> fst ` set reg = {}" if "admit_slots D bs reg = (None, reg')" for bs reg'
    using admit_slots_cases [where D = D and bs = bs and reg = reg] unfolding that by simp
  have refused: "\<exists>i. e = WE_slot i (WE_admitted i)" if "admit_slots D bs reg = (Some e, reg')" for bs e reg'
    using admit_slots_cases [where D = D and bs = bs and reg = reg] unfolding that by simp
  show ?thesis
  proof (cases "SetupProviders D fs vault entries reg w")
    case (fields r reg' w')
    show ?thesis
    proof (cases r)
      case (Inl e)
      then show ?thesis using fields refused by (auto simp: SetupProviders_def split: sum.splits prod.splits option.splits)
    next
      case (Inr built)
      then have "admit_slots D built reg = (None, reg')"
        using fields by (auto simp: SetupProviders_def split: sum.splits prod.splits option.splits)
      from admitted [OF this] show ?thesis unfolding fields Inr by simp
    qed
  qed
qed

subsection \<open>Building\<close>

definition exposes :: "Reach \<Rightarrow> string \<times> reachMeta" where
  "exposes r = (rc_account r, \<lparr>rm_owner = rc_owner r, rm_visibility = rc_visibility r, rm_members = rc_members r\<rparr>)"

lemma machine_exposes: "accountSyncMachine D ns i hr cad m = Inr (sy, r, j) \<Longrightarrow> exposes r = (i, m)"
  by (auto simp: accountSyncMachine_def exposes_def Let_def split: if_splits)

lemma machines_exposes:
  "machines D ns hr cad boots as rs js w = (Inr (rs', js'), w') \<Longrightarrow> map exposes rs' = map exposes rs @ as"
proof (induction D ns hr cad boots as rs js w rule: machines.induct)
  case (2 D ns hr cad boots i m as rs js w)
  then obtain sy r j where 1: "accountSyncMachine D ns i hr cad m = Inr (sy, r, j)"
    by (auto split: sum.splits prod.splits)
  then show ?case using 2 machine_exposes [OF 1] by auto
qed auto

definition slot_built :: "'b deps \<Rightarrow> SlotEntry \<Rightarrow> Record list \<Rightarrow> 'b BuiltSlot \<Rightarrow> bool" where
  "slot_built D e linked b \<longleftrightarrow> bs_Entry b = e \<and> map exposes (bs_Reaches b) = slot_accounts e linked
     \<and> linked_elsewhere D e linked = None"

lemma wireJellyfin_built: "wireJellyfin D vault e linked reg w = (Inr b, w') \<Longrightarrow> slot_built D e linked b"
  by (auto simp: wireJellyfin_def slot_built_def split: if_splits option.splits sum.splits prod.splits dest!: machines_exposes)

lemma wireStremio_built: "wireStremio D vault e linked reg w = (Inr b, w') \<Longrightarrow> slot_built D e linked b"
  by (auto simp: wireStremio_def slot_built_def split: if_splits option.splits sum.splits prod.splits dest!: machines_exposes)

lemma providers_built: "providers D vault a = Some f \<Longrightarrow> f e linked reg w = (Inr b, w') \<Longrightarrow> slot_built D e linked b"
  by (auto simp: providers_def wireJellyfin_built wireStremio_built split: if_splits)

lemma build_slots_built:
  assumes "build_slots (providers D vault) links reg es built w = (Inr bs, w')"
  shows "set built \<subseteq> set bs \<and> (\<forall>e \<in> set es. sl_enabled e \<longrightarrow> (\<exists>b \<in> set bs. slot_built D e (linked_to links (sl_id e)) b))"
  using assms
proof (induction "providers D vault" links reg es built w rule: build_slots.induct)
  case (2 links reg e es built w)
  show ?case
  proof (cases "sl_enabled e")
    case True
    then obtain f b w1 where f: "providers D vault (sl_adapter e) = Some f" "f e (linked_to links (sl_id e)) reg w = (Inr b, w1)"
      "build_slots (providers D vault) links reg es (built @ [b]) w1 = (Inr bs, w')"
      using "2.prems" by (auto split: option.splits sum.splits prod.splits)
    have "slot_built D e (linked_to links (sl_id e)) b" using providers_built [OF f(1,2)] .
    moreover have "set (built @ [b]) \<subseteq> set bs \<and> (\<forall>e \<in> set es. sl_enabled e \<longrightarrow> (\<exists>b \<in> set bs. slot_built D e (linked_to links (sl_id e)) b))"
      using "2.hyps"(2) [OF _ f(1) f(2) [symmetric] refl f(3)] True by simp
    ultimately show ?thesis by auto
  qed (use 2 in auto)
qed auto

lemma group_servers_linked:
  "set (linked_to (group_servers D recs m) ns) = set (linked_to m ns) \<union> {r \<in> set recs. ServerNamespace D r = ns}"
  by (induction D recs m rule: group_servers.induct) auto

lemma link_to_keys: "\<forall>(ns, rs) \<in> set m. rs \<noteq> [] \<Longrightarrow> rs' \<noteq> [] \<Longrightarrow> \<forall>(ns, rs) \<in> set (link_to i rs' m). rs \<noteq> []"
  unfolding link_to_def linked_to_def by (induction m) (auto split: option.splits)

lemma provision_keeps:
  "provision known gs entries links = (entries', links') \<Longrightarrow>
     set entries \<subseteq> set entries' \<and> (\<forall>i. set (linked_to links i) \<subseteq> set (linked_to links' i))
     \<and> (\<forall>(ns, recs) \<in> set gs. known (rec_provider (hd recs)) \<longrightarrow>
          synthetic ns (hd recs) \<in> set entries' \<and> set recs \<subseteq> set (linked_to links' ns))"
proof (induction known gs entries links rule: provision.induct)
  case (2 known ns recs gs entries links)
  show ?case
  proof (cases "known (rec_provider (hd recs))")
    case True
    then have "provision known gs (entries @ [synthetic ns (hd recs)]) (link_to ns recs links) = (entries', links')"
      using "2.prems" by simp
    from "2.IH"(2) [OF _ this] True show ?thesis by (fastforce split: if_splits)
  qed (use 2 in auto)
qed simp

text \<open>C38: A start that succeeds wires every linked account whose adapter is known: a built slot of its adapter and server
  has a reach for it with the owner, the visibility and the members of its record. The server's
  namespace must tell its adapter.\<close>
theorem boot_wires_linked:
  assumes "SetupProviders D (providers D vault) vault entries reg w = (Inr built, reg', w')"
    and "Account_List (dp_json D) vault = Inr linked" and "rec \<in> set linked" and "providers D vault (rec_provider rec) \<noteq> None"
    and "\<forall>r \<in> set linked. ServerNamespace D r = ServerNamespace D rec \<longrightarrow> rec_provider r = rec_provider rec"
  shows "\<exists>b \<in> set built. serves_record D (rec_provider rec) (rec_base_url rec) b \<and> (rec_id rec, linked_reach rec) \<in> exposes ` set (bs_Reaches b)"
proof -
  obtain m prov entries' links where route: "route_links D entries linked [] [] = Inr (m, prov)"
    and pr: "provision (\<lambda>a. providers D vault a \<noteq> None) (group_servers D prov []) entries m = (entries', links)"
    and bd: "build_slots (providers D vault) links reg entries' [] w = (Inr built, w')"
    using assms(1,2) by (auto simp: SetupProviders_def RouteLinkedAccounts_def split: sum.splits prod.splits option.splits)
  have nil: "linked_to [] i = []" for i by (simp add: linked_to_def)
  note rt = route_links_Inr [OF route, unfolded nil append_Nil]
  note pk = provision_keeps [OF pr]
  have found: ?thesis if e: "e \<in> set entries'" "sl_enabled e" "sl_adapter e = rec_provider rec" and r: "rec \<in> set (linked_to links (sl_id e))" for e
  proof -
    obtain b where b: "b \<in> set built" "slot_built D e (linked_to links (sl_id e)) b" using build_slots_built [OF bd] e(1,2) by blast
    then have "(rec_id rec, linked_reach rec) \<in> set (map exposes (bs_Reaches b))" using r by (auto simp: slot_built_def slot_accounts_def)
    moreover have "ServerAddressMatch D (rec_base_url rec) (sl_server e)"
      using b(2) r by (auto simp: slot_built_def linked_elsewhere_def find_None_iff)
    ultimately show ?thesis using b e(3) by (auto simp: slot_built_def serves_record_def ServerAddressMatch_def)
  qed
  show ?thesis
  proof (cases "matching D entries rec")
    case Nil
    let ?ns = "ServerNamespace D rec" and ?gs = "group_servers D prov []"
    have "rec \<in> set prov" using rt Nil assms(3) by simp
    then have "rec \<in> set (linked_to ?gs ?ns)" by (simp add: group_servers_linked)
    then obtain recs where g: "map_of ?gs ?ns = Some recs" "rec \<in> set recs" by (cases "map_of ?gs ?ns") (auto simp: linked_to_def)
    then have h: "hd recs \<in> set recs" and gl: "linked_to ?gs ?ns = recs" by (auto simp: linked_to_def intro: hd_in_set)
    have "set recs \<subseteq> {r \<in> set prov. ServerNamespace D r = ?ns}" using group_servers_linked [of D prov "[]" ?ns] gl by (simp add: nil)
    then have "hd recs \<in> set linked" "ServerNamespace D (hd recs) = ?ns" using h rt by auto
    then have p: "rec_provider (hd recs) = rec_provider rec" using assms(5) by blast
    have "(?ns, recs) \<in> set ?gs" using g(1) by (rule map_of_SomeD)
    then have "synthetic ?ns (hd recs) \<in> set entries'" "set recs \<subseteq> set (linked_to links ?ns)" using pk p assms(4) by auto
    then show ?thesis using g(2) p by (intro found [of "synthetic ?ns (hd recs)"]) (auto simp: synthetic_def)
  next
    case (Cons i js)
    then have i: "matching D entries rec = [i]" using rt assms(3) by fastforce
    then have "i \<in> set (matching D entries rec)" by simp
    then obtain e where e: "e \<in> set entries" "declares D rec e" "sl_id e = i" by (auto simp: matching_def)
    have "rec \<in> set (linked_to m i)" using rt i assms(3) by simp
    then show ?thesis using e pk by (intro found [of e]) (auto simp: declares_def)
  qed
qed

subsection \<open>Attaching and dropping an account\<close>

definition impl_ids :: "'b impl \<Rightarrow> string list" where
  "impl_ids im = (case im of JellyfinSlot s \<Rightarrow> jf_ids s | StremioSlot s \<Rightarrow> sx_ids s)"

lemma impl_ids_Drop [simp]: "impl_ids (impl_DropAccount i im) = filter (\<lambda>j. j \<noteq> i) (impl_ids im)"
  by (cases im) (simp_all add: impl_ids_def impl_DropAccount_def Jellyfin.DropAccount_def Stremio.DropAccount_def)

lemma impl_AddAccount_ids:
  assumes "impl_AddAccount D vault entry i im = (e, im')"
  shows "e = None \<Longrightarrow> set (impl_ids im') = insert i (set (impl_ids im))" and "e \<noteq> None \<Longrightarrow> impl_ids im' = impl_ids im"
  using assms
  by (cases im; auto simp: impl_AddAccount_def impl_ids_def Jellyfin.AddAccount_def Stremio.AddAccount_def
        split: prod.splits if_splits option.splits sum.splits)+

lemma providerFor_Some: "providerFor D rt p u = Some b \<Longrightarrow> b \<in> set (rt_Providers rt) \<and> serves_record D p u b"
  by (auto simp: providerFor_def find_Some_iff)

lemma put_slot_sel [simp]:
  "rt_Registry (put_slot b rt) = rt_Registry rt" "rt_Resolvers (put_slot b rt) = rt_Resolvers rt"
  "rt_Library (put_slot b rt) = rt_Library rt" "rt_Scheduler (put_slot b rt) = rt_Scheduler rt" "rt_Cache (put_slot b rt) = rt_Cache rt"
  by (simp_all add: put_slot_def)

lemma put_slot_Providers:
  "set (rt_Providers (put_slot b rt)) \<subseteq> insert b (set (rt_Providers rt))"
  "b' \<in> set (rt_Providers rt) \<Longrightarrow> bs_Entry b' = bs_Entry b \<Longrightarrow> b \<in> set (rt_Providers (put_slot b rt))"
  by (auto simp: put_slot_def)

lemma slot_AttachAccount_cases:
  assumes "slot_AttachAccount D vault b rec = (r, b')" and "rec_id rec \<notin> set (impl_ids (bs_Impl b))"
  shows "bs_Entry b' = bs_Entry b
    \<and> (case r of Inl _ \<Rightarrow> rec_id rec \<notin> set (impl_ids (bs_Impl b'))
       | Inr (reach, job) \<Rightarrow> rec_id rec \<in> set (impl_ids (bs_Impl b')) \<and> exposes reach = (rec_id rec, linked_reach rec)
           \<and> (if is_lazy (bs_Impl b) then job = None
              else job = Some \<lparr>j_name = sync_job (sl_id (bs_Entry b)) (rec_id rec), j_cadence = bs_Cadence b\<rparr>))"
proof -
  obtain e im where a: "impl_AddAccount D vault (bs_Entry b) (rec_id rec) (bs_Impl b) = (e, im)" by fastforce
  note ids = impl_AddAccount_ids [OF a]
  show ?thesis
  proof (cases e)
    case None
    let ?m = "accountSyncMachine D (sl_id (bs_Entry b)) (rec_id rec) (pacedImpl b \<noteq> None)
      (if is_lazy (bs_Impl b) then 0 else bs_Cadence b) (linked_reach rec)"
    show ?thesis
    proof (cases ?m)
      case (Inl x)
      then show ?thesis using assms a None by (auto simp: slot_AttachAccount_def Let_def)
    next
      case (Inr y)
      obtain sy reach j where y: "y = (sy, reach, j)" by (cases y) auto
      then have "exposes reach = (rec_id rec, linked_reach rec)" using machine_exposes Inr by blast
      moreover have "j = \<lparr>j_name = sync_job (sl_id (bs_Entry b)) (rec_id rec), j_cadence = (if is_lazy (bs_Impl b) then 0 else bs_Cadence b)\<rparr>"
        using Inr y by (auto simp: accountSyncMachine_def Let_def split: if_splits)
      ultimately show ?thesis using assms(1) a None Inr y ids(1) by (auto simp: slot_AttachAccount_def Let_def)
    qed
  next
    case (Some x)
    then show ?thesis using assms a ids(2) by (auto simp: slot_AttachAccount_def)
  qed
qed


lemma drop_rows_view:
  "mem_ok c \<Longrightarrow> \<exists>c'. drop_rows ks c = (None, c') \<and> mem_ok c' \<and> view c' = view c |` (- set ks)"
proof (induction ks arbitrary: c)
  case (Cons k ks)
  then have ok: "Store_ok c" by (simp add: mem_ok_Store_ok)
  obtain c1 where c1: "Store_Delete c k = (Inr (), c1)" using kv.del_pair [OF ok] by blast
  moreover have "mem_ok c1" using mem.del_ok [OF Cons.prems, of k] c1 by simp
  moreover have "view c1 = (view c)(k := None)" using view_Delete [OF ok, of k] c1 by simp
  ultimately show ?case using Cons.IH [of c1] by (auto simp: fun_eq_iff restrict_map_def)
qed (simp add: restrict_map_def)

text \<open>C40: Unlinking an account from the running slots, over an exact store: exactly the account's cached rows go, its job is
  removed, and its slot serves it no more. The slot itself retires, out of the registry, the resolvers and
  the running slots, exactly when its entry declares no account and no linked account of its server is left.\<close>
theorem DropAccount_exact:
  assumes "providerFor D rt (rec_provider rec) (rec_base_url rec) = Some b" and "mem_ok (rt_Cache rt)"
    and "Account_List (dp_json D) vault = Inr linked"
  shows "\<exists>rt'. DropAccount D vault rec rt = (None, rt')
     \<and> (\<forall>k. view (rt_Cache rt') k = (if HasPrefix k (sl_id (bs_Entry b) @ ''/'' @ rec_id rec @ ''/'') then None else view (rt_Cache rt) k))
     \<and> rt_Scheduler rt' = Remove (sync_job (sl_id (bs_Entry b)) (rec_id rec)) (rt_Scheduler rt) \<and> rt_Library rt' = rt_Library rt
     \<and> (\<forall>p \<in> set (rt_Providers rt'). sl_id (bs_Entry p) = sl_id (bs_Entry b) \<longrightarrow> rec_id rec \<notin> set (impl_ids (bs_Impl p)))
     \<and> (if sl_accounts (bs_Entry b) = [] \<and> (\<forall>l \<in> set linked. \<not> serves_record D (rec_provider l) (rec_base_url l) b)
        then map bs_Entry (rt_Providers rt') = filter (\<lambda>e. sl_id e \<noteq> sl_id (bs_Entry b)) (map bs_Entry (rt_Providers rt))
          \<and> map_of (rt_Registry rt') (sl_id (bs_Entry b)) = None \<and> sl_id (bs_Entry b) \<notin> set (rt_Resolvers rt')
        else rt_Registry rt' = rt_Registry rt \<and> rt_Resolvers rt' = rt_Resolvers rt
          \<and> map (sl_id \<circ> bs_Entry) (rt_Providers rt') = map (sl_id \<circ> bs_Entry) (rt_Providers rt))"
proof -
  let ?i = "sl_id (bs_Entry b)" and ?p = "sl_id (bs_Entry b) @ ''/'' @ rec_id rec @ ''/''"
  let ?b = "b\<lparr>bs_Impl := impl_DropAccount (rec_id rec) (bs_Impl b)\<rparr>"
  have ok: "Store_ok (rt_Cache rt)" using assms(2) by (rule mem_ok_Store_ok)
  obtain ks where ks: "Store_List (rt_Cache rt) ?p = Inr ks" using kv.lst_total [OF ok] by blast
  obtain c where c: "drop_rows ks (rt_Cache rt) = (None, c)" "view c = view (rt_Cache rt) |` (- set ks)"
    using drop_rows_view [OF assms(2)] by blast
  have listed: "k \<in> set ks \<longleftrightarrow> HasPrefix k ?p \<and> view (rt_Cache rt) k \<noteq> None" for k
    using mem.lst_iff [OF assms(2) ks, of k] ok by (auto simp: Store_Get_view split: option.splits)
  then have rows: "view c k = (if HasPrefix k ?p then None else view (rt_Cache rt) k)" for k
    by (auto simp: c(2) restrict_map_def)
  let ?rt1 = "(put_slot ?b rt)\<lparr>rt_Scheduler := Remove (sync_job ?i (rec_id rec)) (rt_Scheduler rt), rt_Cache := c\<rparr>"
  let ?gone = "sl_accounts (bs_Entry b) = [] \<and> (\<forall>l \<in> set linked. \<not> serves_record D (rec_provider l) (rec_base_url l) b)"
  have "remaining D vault b = 0 \<longleftrightarrow> (\<forall>l \<in> set linked. \<not> serves_record D (rec_provider l) (rec_base_url l) b)"
    by (simp add: remaining_def assms(3) filter_empty_conv)
  then have r: "DropAccount D vault rec rt = (None, if ?gone then retire ?i ?rt1 else ?rt1)"
    using assms(1) ks c(1) by (simp add: DropAccount_def Let_def)
  have out: "rec_id rec \<notin> set (impl_ids (bs_Impl p))" if "p \<in> set (rt_Providers (put_slot ?b rt))" "sl_id (bs_Entry p) = ?i" for p
    using that by (auto simp: put_slot_def split: if_splits)
  have ids: "map (sl_id \<circ> bs_Entry) (rt_Providers (put_slot ?b rt)) = map (sl_id \<circ> bs_Entry) (rt_Providers rt)"
    by (auto simp: put_slot_def)
  show ?thesis
  proof (cases ?gone)
    case True
    moreover have "map bs_Entry (filter (\<lambda>p. sl_id (bs_Entry p) \<noteq> ?i) (map (\<lambda>p. if sl_id (bs_Entry p) = ?i then ?b else p) ps))
        = filter (\<lambda>e. sl_id e \<noteq> ?i) (map bs_Entry ps)"
      for ps
      by (induction ps) auto
    ultimately show ?thesis using r rows
      by (intro exI [of _ "retire ?i ?rt1"]) (auto simp: retire_def Forget_def put_slot_def delete_conv')
  next
    case False
    then show ?thesis using r rows out ids by (intro exI [of _ ?rt1]) auto
  qed
qed

subsection \<open>An instance\<close>

definition demo_deps :: "(Record + string) deps" where
  "demo_deps = \<lparr>dp_parse = (\<lambda>_. None), dp_lower = (\<lambda>s. s), dp_sha256 = (\<lambda>s. s),
     dp_parsers = \<lparr>ParseFloat = (\<lambda>_. None), ParseDuration = (\<lambda>_. Some 1)\<rparr>, dp_render = (\<lambda>_. ''6h''), dp_getenv = (\<lambda>_. []),
     dp_json = typed_json,
     dp_http = \<lparr>ad_src = (\<lambda>_ _. Inl ''none''), ad_vault = False, ad_deviceID = [], ad_quote = (\<lambda>s. s), ad_getenv = (\<lambda>_. []),
       ad_http = (\<lambda>_. NetError ''down''), ad_decode_auth = (\<lambda>_. None), ad_decode_items = (\<lambda>_. None),
       ad_decode_playback = (\<lambda>_. None), ad_marshal = (\<lambda>_. None), ad_unmarshal = (\<lambda>_. None), ad_len = (\<lambda>_. 0), ad_nil = Inr []\<rparr>,
     dp_addon = demo_addon (Reply 200 []), dp_instance = [], dp_client = (\<lambda>_ _ _ _. Inl ''down''), dp_refresh = (\<lambda>_ _ _. Inl ''down''),
     dp_encodes = (\<lambda>_. True), dp_stamp = (\<lambda>_. (''E'', 0)), dp_now = 0\<rparr>"

definition demo_jf_record :: Record where
  "demo_jf_record = demo_record\<lparr>rec_id := ''l'', rec_provider := ''jellyfin'', rec_base_url := ''http://h/'', rec_visibility := VisibilityPrivate\<rparr>"

definition demo_entry :: "string \<Rightarrow> SlotEntry" where
  "demo_entry i = (synthetic i demo_jf_record)\<lparr>sl_server := ''http://h''\<rparr>"

definition demo_vault :: "(Record + string) Store" where
  "demo_vault = snd (Store_Put NewInMemory (metaKey ''l'') (Inl demo_jf_record))"

definition demo_built :: "string \<Rightarrow> (Record + string) BuiltSlot" where
  "demo_built i = \<lparr>bs_Entry = demo_entry i, bs_Impl = JellyfinSlot \<lparr>jf_ids = [], jf_sessions = [], jf_vault = demo_vault, jf_sent = []\<rparr>,
     bs_Jobs = [], bs_Reaches = [], bs_Paced = None, bs_Cadence = 1, bs_Lazy = False\<rparr>"

definition demo_runtime :: "string list \<Rightarrow> (Record + string) SlotRuntime" where
  "demo_runtime is = \<lparr>rt_Providers = map demo_built is, rt_Registry = [], rt_Resolvers = is, rt_Library = demo_service,
     rt_Scheduler = Scheduler_New 0, rt_Cache = NewInMemory\<rparr>"

lemma demo_canonical: "canonicalServer demo_deps ''http://h/'' = ''http://h''" "canonicalServer demo_deps ''http://h'' = ''http://h''"
  by (simp_all add: canonicalServer_def demo_deps_def TrimRight_slash_def)

lemma demo_entry_sel [simp]:
  "sl_id (demo_entry i) = i" "sl_adapter (demo_entry i) = ''jellyfin''" "sl_enabled (demo_entry i)" "sl_server (demo_entry i) = ''http://h''"
  "sl_accounts (demo_entry i) = []"
  by (simp_all add: demo_entry_def synthetic_def demo_jf_record_def)

lemma demo_jf_record_sel [simp]:
  "rec_id demo_jf_record = ''l''" "rec_provider demo_jf_record = ''jellyfin''" "rec_base_url demo_jf_record = ''http://h/''"
  by (simp_all add: demo_jf_record_def)

lemma demo_matching: "matching demo_deps (map demo_entry is) demo_jf_record = is"
  by (induction "is") (simp_all add: matching_def declares_def demo_canonical)

lemma demo_built_from: "built_from (map demo_entry is) (demo_runtime is)"
  by (induction "is") (simp_all add: built_from_def demo_runtime_def demo_built_def)

lemma demo_vault_Get: "Account_Get typed_json demo_vault ''l'' = Inr demo_jf_record"
  by (simp add: Account_Get_def demo_vault_def Store_Get_def Store_Put_def NewInMemory_def typed_json_def)

lemma demo_vault_List: "Account_List (dp_json demo_deps) demo_vault = Inr [demo_jf_record]"
proof -
  have k: "TrimPrefix (metaKey ''l'') metaPrefix = ''l''" "HasPrefix (metaKey ''l'') metaPrefix" by (simp_all add: metaKey_def)
  have "Store_List demo_vault metaPrefix = Inr [metaKey ''l'']"
    using k(2) by (simp add: Store_List_def InMemory_List_def demo_vault_def Store_Put_def NewInMemory_def)
  then show ?thesis
    by (simp add: Account_List_def demo_deps_def List.map_filter_simps listed_record_def k(1) demo_vault_Get)
qed

lemma demo_roster: "slotRoster_Lookup demo_deps ''http://h'' [] demo_vault ''l''
    = Inr \<lparr>ja_id = ''l'', ja_url = ''http://h/'', ja_username = ''n'', ja_password_env = []\<rparr>"
proof -
  have "dp_json demo_deps = typed_json" "rec_username demo_jf_record = ''n''"
    by (simp_all add: demo_deps_def demo_jf_record_def demo_record_def)
  then show ?thesis using demo_vault_Get by (simp add: slotRoster_Lookup_def demo_canonical)
qed

theorem RouteLinkedAccounts_exact_witness:
  "\<exists>m. RouteLinkedAccounts demo_deps [demo_entry ''home''] [demo_jf_record] = Inr (m, []) \<and> linked_to m ''home'' = [demo_jf_record]"
proof -
  have m: "matching demo_deps [demo_entry ''home''] demo_jf_record = [''home'']" using demo_matching [of "[''home'']"] by simp
  then obtain r where r: "RouteLinkedAccounts demo_deps [demo_entry ''home''] [demo_jf_record] = Inr r"
    by (simp add: RouteLinkedAccounts_def)
  then show ?thesis
    using RouteLinkedAccounts_exact [where D = demo_deps and entries = "[demo_entry ''home'']" and records = "[demo_jf_record]"] m by (cases r) auto
qed


theorem link_breaks_boot_witness:
  "\<exists>b. providerFor demo_deps (demo_runtime [''one'', ''two'']) ''jellyfin'' ''http://h/'' = Some b \<and> sl_id (bs_Entry b) = ''one''
     \<and> fst (SetupProviders demo_deps (providers demo_deps demo_vault) demo_vault [demo_entry ''one'', demo_entry ''two''] [] demo_sync_state)
       = Inl (WE_ambiguous ''l'' [''one'', ''two''])"
proof -
  have m: "matching demo_deps [demo_entry ''one'', demo_entry ''two''] demo_jf_record = [''one'', ''two'']"
    using demo_matching [of "[''one'', ''two'']"] by simp
  have b: "built_from [demo_entry ''one'', demo_entry ''two''] (demo_runtime [''one'', ''two''])"
    using demo_built_from [of "[''one'', ''two'']"] by simp
  show ?thesis
    using link_breaks_boot [OF b _ demo_vault_List, of demo_jf_record "providers demo_deps demo_vault" "[]" demo_sync_state]
    by (auto simp: m)
qed

lemma demo_boot:
  "\<exists>built reg w. SetupProviders demo_deps (providers demo_deps demo_vault) demo_vault [demo_entry ''home''] [] demo_sync_state = (Inr built, reg, w)"
proof -
  let ?e = "demo_entry ''home''"
  have m: "matching demo_deps [?e] demo_jf_record = [''home'']" using demo_matching [of "[''home'']"] by simp
  have route: "RouteLinkedAccounts demo_deps [?e] [demo_jf_record] = Inr ([(''home'', [demo_jf_record])], [])"
    by (simp add: RouteLinkedAccounts_def m link_to_def linked_to_def)
  have "\<exists>slot. Jellyfin.Slot_New (jellyfin_adapter demo_deps ?e) [''l''] demo_vault = Inr slot"
    by (simp add: Jellyfin.Slot_New_def resolve_account_def jellyfin_adapter_def demo_canonical demo_roster)
  then obtain slot where slot: "Jellyfin.Slot_New (jellyfin_adapter demo_deps ?e) [''l''] demo_vault = Inr slot" by blast
  obtain info where info: "slot_answer demo_deps (JellyfinSlot slot) = Inr info" "find bad_capability (si_Capabilities info) = None"
    using slot_answer_valid by blast
  have cad: "DeclaredCadence (dp_parsers demo_deps) (sl_sync_cadence ?e) (si_Policy info) k \<noteq> Inl x" for k x
    by (simp add: DeclaredCadence_def demo_deps_def demo_entry_def synthetic_def)
  then obtain c where c: "DeclaredCadence (dp_parsers demo_deps) (sl_sync_cadence ?e) (si_Policy info) jellyfinCadenceKey = Inr c"
    by (cases "DeclaredCadence (dp_parsers demo_deps) (sl_sync_cadence ?e) (si_Policy info) jellyfinCadenceKey") auto
  have "\<exists>b w. wireJellyfin demo_deps demo_vault ?e [demo_jf_record] [] demo_sync_state = (Inr b, w) \<and> bs_Entry b = ?e"
    by (simp add: wireJellyfin_def linked_elsewhere_def ServerAddressMatch_def demo_canonical slot_accounts_def slot Describe_def
        handshake_def info c accountSyncMachine_def Let_def)
  then obtain b w where b: "wireJellyfin demo_deps demo_vault ?e [demo_jf_record] [] demo_sync_state = (Inr b, w)" "bs_Entry b = ?e" by blast
  have "Admit ''home'' (slot_answer demo_deps (bs_Impl b)) [] = (Inr (si_Capabilities (snd (slot_row demo_deps b))), [slot_row demo_deps b])"
    using Admit_slot [of b demo_deps "[]"] b(2) by simp
  then show ?thesis
    by (simp add: SetupProviders_def demo_vault_List route providers_def linked_to_def b)
qed

theorem boot_wires_linked_witness:
  "\<exists>built reg w. SetupProviders demo_deps (providers demo_deps demo_vault) demo_vault [demo_entry ''home''] [] demo_sync_state = (Inr built, reg, w)
     \<and> (\<exists>b \<in> set built. (''l'', linked_reach demo_jf_record) \<in> exposes ` set (bs_Reaches b))"
proof -
  obtain built reg w where s: "SetupProviders demo_deps (providers demo_deps demo_vault) demo_vault [demo_entry ''home''] [] demo_sync_state = (Inr built, reg, w)"
    using demo_boot by blast
  then show ?thesis
    using boot_wires_linked [OF s demo_vault_List, of demo_jf_record] by (auto simp: providers_def)
qed


text \<open>The last account of an operator's slot without an account block: the slot goes with it.\<close>

theorem DropAccount_exact_witness:
  "\<exists>rt'. DropAccount demo_deps NewInMemory demo_jf_record (demo_runtime [''home'']) = (None, rt') \<and> rt_Providers rt' = [] \<and> rt_Resolvers rt' = []"
proof -
  let ?rt = "demo_runtime [''home'']"
  have p: "providerFor demo_deps ?rt (rec_provider demo_jf_record) (rec_base_url demo_jf_record) = Some (demo_built ''home'')"
    by (simp add: providerFor_def demo_runtime_def serves_record_def demo_built_def ServerAddressMatch_def demo_canonical)
  have c: "mem_ok (rt_Cache ?rt)" by (simp add: demo_runtime_def)
  have l: "Account_List (dp_json demo_deps) (NewInMemory :: (Record + string) Store) = Inr []"
    by (simp add: Account_List_def Store_List_def InMemory_List_def NewInMemory_def List.map_filter_simps)
  obtain rt' where r: "DropAccount demo_deps NewInMemory demo_jf_record ?rt = (None, rt')"
    "map bs_Entry (rt_Providers rt') = filter (\<lambda>e. sl_id e \<noteq> sl_id (bs_Entry (demo_built ''home''))) (map bs_Entry (rt_Providers ?rt))"
    using DropAccount_exact [OF p c l] by (auto simp: demo_built_def)
  have "rt_Resolvers rt' = []"
    using r(1) p l by (auto simp: DropAccount_def Let_def retire_def remaining_def demo_runtime_def demo_built_def put_slot_def
        split: sum.splits prod.splits option.splits)
  then show ?thesis using r by (auto simp: demo_runtime_def demo_built_def)
qed

end
