(* ===== verification/Spec2Isabelle.thy ===== *)
theory Spec2Isabelle
  imports Store Schema Identity Item_Registry Item_Resolution Metadata_Cache Enrichment Policy Delivery_Revocation
    Accounts Scheduler Pacing Source_Cache Library Auth Config Event_Bus Api_Library Api_Accounts Wiring
begin

text \<open>
  A verification library for ABCMovies, a self-hosted media server. Its core (\<open>core/internal\<close>, in Go)
  merges the catalogues of several providers into one library, enriches it with metadata, and
  delivers media to players and disks. Names of files below are relative to \<open>src\<close>; names of theories
  are those of this directory.

  \<^bold>\<open>The program and its parts.\<close> A scheduler runs one job per provider account. The job syncs the
  account: it pulls pages from the provider through a paced client, validates every item, resolves it
  to a library entry in the item registry, and writes it to the source cache. What appeared or went is
  announced; the derived library sweeps the caches of the users who can see the account, and rebuilds
  a user's library on the next request from the source cache, the registry and the metadata cache.
  The enrichment engine works through a queue of entries in the background: it adopts a catalogue
  title for an entry when exactly one is proved to match, and merges its fields by the standing of
  their sources. The delivery engine admits a play or download session against the limits of the
  member and of the account, opens a sink, and keeps, ends or revokes the session; a play session is
  served through the tickets of the relay. All state lives in key-value stores. Every request but
  sign-up, login and the instance's description carries a token that names its user.

  \<^bold>\<open>How the model reads.\<close> One theory per component, importing the components it calls; each operation
  is a definition that takes the state and returns a result with the new state, its guards in the order of
  the code. An error is the left side of a sum or \<^const>\<open>None\<close>; an error that the code only logs is
  absent. A \<open>uint32\<close> or \<open>uint64\<close> is a word; \<open>time.Duration\<close> and \<open>time.Time\<close> are integers of
  nanoseconds. A Go map is an association list or a function to option; where the iteration order of
  the code is not determined, the order of the list is arbitrary and the theorems hold for each.
  Strings are lists of bytes, as in Go. Locks are modelled by their critical sections: an operation
  that holds a lock throughout is one step; one that releases it in between (\<open>Engine.Start\<close>, the
  gate of a provider, the relay) is several, and the theorems quantify over what runs between them.
  The JSON and protobuf rows of the stores are typed values behind a codec, an argument that must
  decode what it encoded where a theorem depends on it.

  \<^bold>\<open>The theories.\<close>
  \<^item> \<open>Prelude\<close>: lists, options, sums and sorted keys that the components share; \<open>Utf8\<close> and
    \<open>Strconv\<close>: the parts of \<open>strings\<close>, \<open>unicode/utf8\<close>, \<open>strconv\<close> and \<open>net/url\<close> the code uses.
  \<^item> \<open>Store\<close> (\<open>core/internal/store\<close>): the in-memory and the SQLite store, and the wrappers that seal
    values with the instance key or a user's key. Locales state the laws of a store and of an AEAD;
    both backends satisfy the former. Shown: the laws of reading back, that SQLite's pattern lists keys
    outside the prefix, and that a user's blob is isolated from the other users.
  \<^item> \<open>Messages\<close>, \<open>Schema\<close> (\<open>core/internal/schema\<close>): the messages and their validators; an accepted media
    source is characterized in full.
  \<^item> \<open>Identity\<close> (\<open>core/internal/identity\<close>), \<open>Item_Registry\<close> and \<open>Item_Resolution\<close>
    (\<open>core/internal/itemregistry\<close>): normalization of titles, the merge rule, and the registry that
    gives every provider item a library entry. Shown: which entry is chosen, against a specification over
    all entries; the invariant of the indexes; that entries and their contents persist; that
    superseded generations keep an alias.
  \<^item> \<open>Metadata_Cache\<close>, \<open>Enrichment\<close> (\<open>core/internal/metadatacache\<close>, \<open>core/internal/enrichment\<close>): the
    records, their references and the alias chains, which stay free of dangling ends; the queue,
    the worker, adoption and the merge of fields.
  \<^item> \<open>Policy\<close>, \<open>Delivery_Pipeline\<close>, \<open>Relay\<close>, \<open>Sinks\<close>, \<open>Delivery\<close>
    (\<open>core/internal/policy\<close>, \<open>core/internal/delivery\<close>): limits, plans, tickets, sinks and the engine.
    \<open>Delivery_Invariant\<close>, \<open>Delivery_Safety\<close>, \<open>Delivery_Properties\<close> and \<open>Delivery_Revocation\<close> hold the
    invariant of the engine over every interleaving of its steps, the bounds on sessions, the exact
    effects of the sweep, of a revocation and of a lowered cap, and that what was revoked is not served.
  \<^item> \<open>Accounts\<close> (\<open>core/internal/accounts\<close>): linked accounts and their sessions, refining a map.
  \<^item> \<open>Backoff\<close>, \<open>Scheduler\<close> (\<open>core/internal/scheduler\<close>): the waits of a worker with their bounds, and
    the table of jobs with the workers as an event system.
  \<^item> \<open>Pacing\<close> (\<open>core/internal/pacing\<close>, \<open>slotwiring/pacing.go\<close>): limiters, governors, budgets and the gate
    as a machine of interleaved calls. Shown: slots are accounted for, grants are spaced, a call returns.
  \<^item> \<open>Source_Cache\<close> (\<open>core/internal/sourcecache\<close>, the resolver of \<open>slotwiring/jellyfin.go\<close>): the sync of an
    account and the reading of its items. Shown: the exact effect of a complete sync, what an aborted
    one leaves, and that the items read back are those of the provider.
  \<^item> \<open>Library\<close> (\<open>core/internal/library\<close>): reaches, derivation, caching and invalidation. Shown: the derived
    entries, against the set of authorized items, and that a served library stays within the
    user's audience after a change of sharing.
  \<^item> \<open>Auth\<close> (\<open>core/internal/auth\<close>, \<open>apiserver/auth.go\<close>): sign-up, login, tokens, data keys, interceptors.
  \<^item> \<open>Config\<close> (\<open>core/internal/config\<close>): what a configuration file must satisfy, and what is built from it.
  \<^item> \<open>Event_Bus\<close> (\<open>apiserver/bus.go\<close>, the job functions of \<open>apiserver/server.go\<close>): who receives an event, in
    which order, and what becomes of it when a channel is full; jobs and their announcements.
  \<^item> \<open>Api_Library\<close> (\<open>apiserver/library.go\<close>): the pages of a library, and a request that panics.
  \<^item> \<open>Api_Accounts\<close> (\<open>apiserver/accounts.go\<close>, \<open>apiserver/sharing.go\<close>): linking, updating, listing and removing
    an account over the vault, the library, the sessions and the bus. Shown: a link is all or nothing;
    after an update the record, the reach and the running sessions agree, and where they do not;
    what a removal ends; what a caller is shown.
  \<^item> \<open>Jellyfin\<close>, \<open>Stremio\<close>, \<open>Tmdb\<close> (\<open>adapters/jellyfin\<close>, \<open>adapters/stremio\<close>, \<open>adapters/tmdb\<close>): the adapters over
    a remote server, an argument that answers from the requests sent so far; the requests are part of the
    state. Shown: a sync through the Jellyfin adapter against a library that stays as it is leaves exactly its
    rows, and where one against a library that changes goes wrong; an account without a password is
    never logged in to; what a search of an addon finds can be played, and what an outage of
    it deletes; retries are bounded, candidates and records pass the contract of the catalogue.
  \<^item> \<open>Wiring\<close> (\<open>core/internal/registry\<close>, \<open>core/internal/slotwiring\<close>, \<open>core/app/slots.go\<close>): the registry, the routing of
    linked accounts, the building and admission of slots, and the running slots. Shown: a start admits
    all it built or nothing; every linked account of a known adapter gets its reach; an account linked at
    run time goes where the next start would route it, all or nothing; what an unlink takes away.

  \<^bold>\<open>Interfaces.\<close> The locales \<open>kv_store\<close> and \<open>exact_kv_store\<close> (Store), \<open>merge_rule\<close> (Identity),
  \<open>metadata_store\<close> (Metadata_Cache), \<open>work_queue\<close> (Enrichment), \<open>session_sinks\<close> (Sinks) and
  \<open>item_identity\<close> (Source_Cache) name what one component relies on in another; each is interpreted
  on the model's own definitions, and the properties rest on those facts.

  \<^bold>\<open>Bounds and fuel.\<close> There is no fuel besides the code's own. A sync refuses the page after \<open>maxPages\<close>
  = 10000, and the recursion over pages is measured by that bound, so running out of it is the
  error the code answers. The drain of the queue is measured by its length, the search for a free
  file name by the taken names ahead of it, decoding by the bytes left; every other recursion is
  structural. Loops that serve for ever (a worker of the scheduler, the watchdog, the gate) are step
  functions or step relations, with their passes given as lists of events.

  \<^bold>\<open>Arguments of the model.\<close> The Unicode tables and NFKD; the AEAD, Argon2 and SHA-256; codecs of rows and
  of times; \<open>ParseFloat\<close>, \<open>ParseDuration\<close> and floating-point division; jitter, randomness and the
  clock; the parsing of URLs; the answers of remote servers over HTTP and of slots over gRPC; the outcomes of file operations; the decoding
  of YAML. Hypotheses on them state documented behaviour (an AEAD opens what it sealed, a codec decodes
  what it encoded), and each theorem with a hypothesis has a witness on concrete functions.

  \<^bold>\<open>Not modelled.\<close> The web frontend and the command-line tools, and process start-up (\<open>core/app/app.go\<close>,
  \<open>core/cmd\<close>). Live search and the handlers of the API that only forward (sign-up, login, playback). The
  validators of API requests outside the account and library handlers. The transport of gRPC and its
  generated code, logging. Deadlocks and data races of the Go memory model.
\<close>

end
